(* ===== verification/Prelude.thy ===== *)
theory Prelude
  imports
    Complex_Main
    "HOL-Library.AList"
    "HOL-Library.List_Lexorder"
    "HOL-Library.Char_ord"
    "HOL-Library.Sublist"
    "HOL-Library.Multiset"
begin

text \<open>
  Shared vocabulary of the development: the pieces of JavaScript the front end is written
  with, as executable HOL functions, and the generic lemmas the component theories use.

  \<^item> A JavaScript string is a \<^typ>\<open>string\<close>, one \<^typ>\<open>char\<close> per UTF-16 code unit below
    256. Case conversion acts on ASCII letters, which is what the hex keys, hop tokens and
    hashes the program compares are made of.
  \<^item> A \<^verbatim>\<open>Map\<close> is an association list in insertion order (\<open>jsmap\<close>), since several caches of
    the program evict the key that \<^verbatim>\<open>map.keys().next()\<close> yields. A \<^verbatim>\<open>Set\<close> is a list without
    repetitions in insertion order (\<open>jsset\<close>).
  \<^item> An optional property (\<^verbatim>\<open>p?: T | null\<close>) is an \<open>opt\<close>, which tells a missing property,
    \<^verbatim>\<open>null\<close> and a value apart; a value that is only nullable is an option.
\<close>

section \<open>Optional properties\<close>

datatype 'a opt = Absent | Null | Val 'a

fun nullish :: "'a opt \<Rightarrow> 'a option" where
  "nullish Absent = None"
| "nullish Null = None"
| "nullish (Val x) = Some x"

text \<open>The spread \<^verbatim>\<open>{...old, ...new}\<close> on one optional property: a missing property of the new
  object leaves the old one.\<close>

fun spread_field :: "'a opt \<Rightarrow> 'a opt \<Rightarrow> 'a opt" where
  "spread_field old Absent = old"
| "spread_field old new = new"

fun spread_option :: "'a option \<Rightarrow> 'a option \<Rightarrow> 'a option" where
  "spread_option old None = old"
| "spread_option old (Some x) = Some x"

text \<open>Truthiness of a nullable string, and \<^verbatim>\<open>s || fallback\<close>.\<close>

fun truthy :: "string option \<Rightarrow> bool" where
  "truthy None \<longleftrightarrow> False"
| "truthy (Some s) \<longleftrightarrow> s \<noteq> []"

definition or_else :: "string option \<Rightarrow> string \<Rightarrow> string" where
  "or_else s d = (if truthy s then the s else d)"

definition or_null :: "string option \<Rightarrow> string option" where
  "or_null s = (if truthy s then s else None)"

definition coalesce :: "'a option \<Rightarrow> 'a \<Rightarrow> 'a" where
  "coalesce x d = (case x of None \<Rightarrow> d | Some y \<Rightarrow> y)"

lemma coalesce_simps [simp]: "coalesce None d = d" "coalesce (Some x) d = x"
  by (simp_all add: coalesce_def)

lemma or_else_simps [simp]:
  "or_else None d = d" "or_else (Some []) d = d" "or_else (Some (c # cs)) d = c # cs"
  by (simp_all add: or_else_def)

lemma truthy_iff: "truthy s \<longleftrightarrow> (\<exists>x. s = Some x \<and> x \<noteq> [])"
  by (cases s) auto

section \<open>Insertion-ordered maps and sets\<close>

type_synonym ('k, 'v) jsmap = "('k \<times> 'v) list"
type_synonym 'a jsset = "'a list"

abbreviation jm_get :: "('k, 'v) jsmap \<Rightarrow> 'k \<Rightarrow> 'v option" where
  "jm_get \<equiv> map_of"

abbreviation jm_set :: "'k \<Rightarrow> 'v \<Rightarrow> ('k, 'v) jsmap \<Rightarrow> ('k, 'v) jsmap" where
  "jm_set \<equiv> AList.update"

abbreviation jm_delete :: "'k \<Rightarrow> ('k, 'v) jsmap \<Rightarrow> ('k, 'v) jsmap" where
  "jm_delete \<equiv> AList.delete"

definition jm_has :: "('k, 'v) jsmap \<Rightarrow> 'k \<Rightarrow> bool" where
  "jm_has m k \<longleftrightarrow> map_of m k \<noteq> None"

abbreviation jm_keys :: "('k, 'v) jsmap \<Rightarrow> 'k list" where
  "jm_keys m \<equiv> map fst m"

abbreviation jm_wf :: "('k, 'v) jsmap \<Rightarrow> bool" where
  "jm_wf m \<equiv> distinct (map fst m)"

definition js_add :: "'a \<Rightarrow> 'a jsset \<Rightarrow> 'a jsset" where
  "js_add x s = (if x \<in> set s then s else s @ [x])"

definition js_set_of :: "'a list \<Rightarrow> 'a jsset" where
  "js_set_of xs = fold js_add xs []"

named_theorems jsmap \<open>laws of insertion-ordered maps and sets\<close>

lemma jm_has_iff [jsmap]: "jm_has m k \<longleftrightarrow> k \<in> set (map fst m)"
  by (simp add: jm_has_def map_of_eq_None_iff)

lemma jm_get_set [jsmap]: "jm_get (jm_set k v m) k' = (if k' = k then Some v else jm_get m k')"
  by (simp add: update_conv')

lemma jm_get_delete [jsmap]:
  "jm_get (jm_delete k m) k' = (if k' = k then None else jm_get m k')"
  by (simp add: delete_conv')

lemma keys_jm_set_fresh [jsmap]:
  "k \<notin> set (map fst m) \<Longrightarrow> map fst (jm_set k v m) = map fst m @ [k]"
  by (induction m) auto

lemma keys_jm_set_old [jsmap]:
  "k \<in> set (map fst m) \<Longrightarrow> map fst (jm_set k v m) = map fst m"
  by (induction m) auto

lemma keys_jm_delete [jsmap]: "map fst (jm_delete k m) = filter (\<lambda>a. a \<noteq> k) (map fst m)"
  by (induction m) (auto simp: AList.delete_eq)

lemma set_keys_jm_set [jsmap]: "set (map fst (jm_set k v m)) = insert k (set (map fst m))"
  by (induction m) auto

lemma image_fst_jm_set [jsmap]: "fst ` set (jm_set k v m) = insert k (fst ` set m)"
  using set_keys_jm_set [of k v m] by simp

lemma jm_wf_set [simp, intro]: "jm_wf m \<Longrightarrow> jm_wf (jm_set k v m)"
  by (rule distinct_update)

lemma jm_wf_delete [simp, intro]: "jm_wf m \<Longrightarrow> jm_wf (jm_delete k m)"
  by (rule distinct_delete)

lemma length_jm_set [jsmap]:
  "length (jm_set k v m) = (if k \<in> set (map fst m) then length m else Suc (length m))"
  by (induction m) auto

lemma length_jm_delete_le [simp]: "length (jm_delete k m) \<le> length m"
  by (simp add: AList.delete_eq)

lemma jm_get_SomeD: "jm_get m k = Some v \<Longrightarrow> k \<in> set (map fst m)"
  by (metis map_of_eq_None_iff list.set_map option.distinct(1))

lemma jm_get_entry: "jm_wf m \<Longrightarrow> (k, v) \<in> set m \<longleftrightarrow> jm_get m k = Some v"
  by simp

lemma set_jm_set [jsmap]:
  "jm_wf m \<Longrightarrow> set (jm_set k v m) = insert (k, v) {e \<in> set m. fst e \<noteq> k}"
  by (induction m) (auto simp: image_iff)

lemma set_jm_set_subset: "set (jm_set k v m) \<subseteq> insert (k, v) (set m)"
  by (induction m) auto

lemma set_jm_delete [jsmap]: "set (jm_delete k m) = {e \<in> set m. fst e \<noteq> k}"
  by (auto simp: AList.delete_eq)

lemma jm_get_filter [jsmap]:
  "jm_wf m \<Longrightarrow> jm_get (filter P m) k =
     (case jm_get m k of Some v \<Rightarrow> if P (k, v) then Some v else None | None \<Rightarrow> None)"
proof (induction m)
  case (Cons e m)
  then have "map_of m (fst e) = None" by (simp add: map_of_eq_None_iff)
  with Cons show ?case by (cases e) (auto split: option.splits)
qed simp

lemma jm_wf_filter [simp]: "jm_wf m \<Longrightarrow> jm_wf (filter P m)"
  by (rule distinct_map_filter)

lemma set_js_add [simp]: "set (js_add x s) = insert x (set s)"
  by (auto simp: js_add_def)

lemma distinct_js_add [simp]: "distinct (js_add x s) \<longleftrightarrow> distinct s"
  by (auto simp: js_add_def)

lemma set_fold_js_add: "set (fold js_add xs s) = set xs \<union> set s"
  by (induction xs arbitrary: s) auto

lemma distinct_fold_js_add: "distinct s \<Longrightarrow> distinct (fold js_add xs s)"
  by (induction xs arbitrary: s) auto

lemma set_js_set_of [simp]: "set (js_set_of xs) = set xs"
  by (simp add: js_set_of_def set_fold_js_add)

lemma distinct_js_set_of [simp]: "distinct (js_set_of xs)"
  by (simp add: js_set_of_def distinct_fold_js_add)

section \<open>Lists\<close>

lemma list_ex_key: "list_ex (\<lambda>x. f x = k) xs \<longleftrightarrow> k \<in> f ` set xs"
  by (auto simp: list_ex_iff)

text \<open>\<^verbatim>\<open>xs.slice(-n)\<close>, the last \<open>n\<close> elements.\<close>

definition lastn :: "nat \<Rightarrow> 'a list \<Rightarrow> 'a list" where
  "lastn n xs = drop (length xs - n) xs"

lemma length_lastn [simp]: "length (lastn n xs) = min n (length xs)"
  by (simp add: lastn_def)

lemma suffix_lastn: "suffix (lastn n xs) xs"
  by (simp add: lastn_def suffix_drop)

lemma set_lastn: "set (lastn n xs) \<subseteq> set xs"
  by (simp add: lastn_def set_drop_subset)

lemma lastn_all [simp]: "length xs \<le> n \<Longrightarrow> lastn n xs = xs"
  by (simp add: lastn_def)

lemma map_lastn: "map f (lastn n xs) = lastn n (map f xs)"
  by (simp add: lastn_def drop_map)

lemma distinct_lastn: "distinct xs \<Longrightarrow> distinct (lastn n xs)"
  by (simp add: lastn_def)

lemma lastn_lastn: "m \<le> n \<Longrightarrow> lastn m (lastn n xs) = lastn m xs"
  by (auto simp: lastn_def min_def intro!: arg_cong2 [where f = drop])

lemma lastn_append_long: "n \<le> length ys \<Longrightarrow> lastn n (xs @ ys) = lastn n ys"
  by (simp add: lastn_def)

lemma lastn_lastn_append: "lastn n (lastn n xs @ ys) = lastn n (xs @ ys)"
proof (cases "length xs \<le> n")
  case False
  have "xs = take (length xs - n) xs @ lastn n xs" by (simp add: lastn_def)
  then have "lastn n (xs @ ys) = lastn n (take (length xs - n) xs @ (lastn n xs @ ys))"
    by (metis append.assoc)
  with False show ?thesis by (simp add: lastn_append_long)
qed simp

text \<open>\<^verbatim>\<open>array.findIndex\<close> and the replacement of one element of a copied array.\<close>

fun find_index :: "('a \<Rightarrow> bool) \<Rightarrow> 'a list \<Rightarrow> nat option" where
  "find_index p [] = None"
| "find_index p (x # xs) = (if p x then Some 0 else map_option Suc (find_index p xs))"

lemma find_index_None: "find_index p xs = None \<longleftrightarrow> (\<forall>x \<in> set xs. \<not> p x)"
  by (induction xs) auto

lemma find_index_Some:
  "find_index p xs = Some i \<Longrightarrow> i < length xs \<and> p (xs ! i) \<and> (\<forall>j < i. \<not> p (xs ! j))"
proof (induction xs arbitrary: i)
  case (Cons x xs)
  show ?case
  proof (cases "p x")
    case False
    with Cons.prems obtain j where "find_index p xs = Some j" "i = Suc j" by auto
    with Cons.IH [of j] False show ?thesis by (auto simp: less_Suc_eq_0_disj)
  qed (use Cons.prems in auto)
qed simp

text \<open>A stable sort by a comparison, as \<^verbatim>\<open>Array.prototype.sort\<close> performs it.\<close>

fun insert_by :: "('a \<Rightarrow> 'a \<Rightarrow> bool) \<Rightarrow> 'a \<Rightarrow> 'a list \<Rightarrow> 'a list" where
  "insert_by le x [] = [x]"
| "insert_by le x (y # ys) = (if le x y then x # y # ys else y # insert_by le x ys)"

definition sort_by :: "('a \<Rightarrow> 'a \<Rightarrow> bool) \<Rightarrow> 'a list \<Rightarrow> 'a list" where
  "sort_by le xs = foldr (insert_by le) xs []"

lemma mset_insert_by: "mset (insert_by le x xs) = add_mset x (mset xs)"
  by (induction xs) auto

lemma mset_sort_by [simp]: "mset (sort_by le xs) = mset xs"
  unfolding sort_by_def by (induction xs) (auto simp: mset_insert_by)

lemma set_sort_by [simp]: "set (sort_by le xs) = set xs"
  by (metis mset_sort_by set_mset_mset)

lemma length_sort_by [simp]: "length (sort_by le xs) = length xs"
  by (metis mset_sort_by size_mset)

lemma set_insert_by: "set (insert_by le x xs) = insert x (set xs)"
  by (metis mset_insert_by set_mset_add_mset_insert set_mset_mset)

lemma sorted_insert_by:
  assumes "transp le" and "\<And>x y. le x y \<or> le y x" and "sorted_wrt le xs"
  shows "sorted_wrt le (insert_by le x xs)"
  using assms(3)
proof (induction xs)
  case (Cons y ys)
  with assms(1,2) show ?case by (auto simp: set_insert_by dest: transpD)
qed simp

lemma sorted_sort_by:
  assumes "transp le" and "\<And>x y. le x y \<or> le y x"
  shows "sorted_wrt le (sort_by le xs)"
  unfolding sort_by_def by (induction xs) (auto intro: sorted_insert_by [OF assms])

lemma distinct_sort_by [simp]: "distinct (sort_by le xs) \<longleftrightarrow> distinct xs"
  by (metis mset_sort_by mset_eq_imp_distinct_iff)

end
