(* ===== verification/Js_Strings.thy ===== *)
theory Js_Strings
  imports Prelude
begin

text \<open>
  The string operations of JavaScript the program uses: case conversion, \<^verbatim>\<open>trim\<close>, \<^verbatim>\<open>join\<close>,
  \<^verbatim>\<open>startsWith\<close>, \<^verbatim>\<open>includes\<close>, \<^verbatim>\<open>indexOf\<close>, \<^verbatim>\<open>padStart\<close>, number formatting in base 10 and 16 and
  \<^verbatim>\<open>parseInt(s, 16)\<close>, with the facts about digits and separators that the key-building
  functions of the program rest on; the values \<^verbatim>\<open>JSON.parse\<close> returns.
\<close>

section \<open>JSON values\<close>

datatype json =
    JNull
  | JBool bool
  | JNum real
  | JStr string
  | JArr "json list"
  | JObj "(string \<times> json) list"

text \<open>A member of a parsed value: of any other value that is no object gives \<^verbatim>\<open>undefined\<close>.\<close>

fun json_member :: "json \<Rightarrow> string \<Rightarrow> json option" where
  "json_member (JObj members) k = map_of members k"
| "json_member _ k = None"

section \<open>Case, trimming, joining\<close>

definition lower_char :: "char \<Rightarrow> char" where
  "lower_char c = (let n = of_char c :: nat in if 65 \<le> n \<and> n \<le> 90 then char_of (n + 32) else c)"

definition upper_char :: "char \<Rightarrow> char" where
  "upper_char c = (let n = of_char c :: nat in if 97 \<le> n \<and> n \<le> 122 then char_of (n - 32) else c)"

definition to_lower :: "string \<Rightarrow> string" where
  "to_lower s = map lower_char s"

definition to_upper :: "string \<Rightarrow> string" where
  "to_upper s = map upper_char s"

text \<open>White space and line terminators of ECMAScript below code 256.\<close>

definition is_ws :: "char \<Rightarrow> bool" where
  "is_ws c \<longleftrightarrow> (of_char c :: nat) \<in> {9, 10, 11, 12, 13, 32, 160}"

definition trim :: "string \<Rightarrow> string" where
  "trim s = rev (dropWhile is_ws (rev (dropWhile is_ws s)))"

fun join :: "string \<Rightarrow> string list \<Rightarrow> string" where
  "join sep [] = []"
| "join sep [x] = x"
| "join sep (x # y # xs) = x @ sep @ join sep (y # xs)"

definition starts_with :: "string \<Rightarrow> string \<Rightarrow> bool" where
  "starts_with s p \<longleftrightarrow> take (length p) s = p"

fun str_includes :: "string \<Rightarrow> string \<Rightarrow> bool" where
  "str_includes [] p \<longleftrightarrow> p = []"
| "str_includes (c # s) p \<longleftrightarrow> starts_with (c # s) p \<or> str_includes s p"

fun index_of :: "string \<Rightarrow> string \<Rightarrow> nat option" where
  "index_of [] p = (if p = [] then Some 0 else None)"
| "index_of (c # s) p =
     (if starts_with (c # s) p then Some 0 else map_option Suc (index_of s p))"

definition pad_start :: "nat \<Rightarrow> char \<Rightarrow> string \<Rightarrow> string" where
  "pad_start n c s = replicate (n - length s) c @ s"

lemma length_to_lower [simp]: "length (to_lower s) = length s"
  by (simp add: to_lower_def)

lemma length_to_upper [simp]: "length (to_upper s) = length s"
  by (simp add: to_upper_def)

lemma to_lower_Nil [simp]: "to_lower [] = []" and to_upper_Nil [simp]: "to_upper [] = []"
  by (simp_all add: to_lower_def to_upper_def)

lemma to_lower_Nil_iff [simp]: "to_lower s = [] \<longleftrightarrow> s = []"
  by (simp add: to_lower_def)

lemma to_upper_Nil_iff [simp]: "to_upper s = [] \<longleftrightarrow> s = []"
  by (simp add: to_upper_def)

lemma take_to_lower: "take n (to_lower s) = to_lower (take n s)"
  by (simp add: to_lower_def take_map)

lemma take_to_upper: "take n (to_upper s) = to_upper (take n s)"
  by (simp add: to_upper_def take_map)

lemma to_upper_append [simp]: "to_upper (s @ t) = to_upper s @ to_upper t"
  by (simp add: to_upper_def)

lemma lower_char_idem [simp]: "lower_char (lower_char c) = lower_char c"
  by (auto simp: lower_char_def Let_def)

lemma upper_char_idem [simp]: "upper_char (upper_char c) = upper_char c"
  by (auto simp: upper_char_def Let_def)

lemma to_lower_idem [simp]: "to_lower (to_lower s) = to_lower s"
  by (simp add: to_lower_def)

lemma to_upper_idem [simp]: "to_upper (to_upper s) = to_upper s"
  by (simp add: to_upper_def)

lemma starts_with_iff: "starts_with s p \<longleftrightarrow> prefix p s"
  by (metis append_eq_conv_conj append_take_drop_id prefixE prefixI starts_with_def)

lemma index_of_None: "index_of s p = None \<longleftrightarrow> \<not> str_includes s p"
  by (induction s) auto

lemma index_of_Some:
  "index_of s p = Some i \<Longrightarrow> take (length p) (drop i s) = p \<and> i \<le> length s"
proof (induction s arbitrary: i)
  case (Cons c s)
  then show ?case
    by (cases "starts_with (c # s) p") (auto simp: starts_with_def)
qed (auto split: if_splits)

lemma join_snoc: "xs \<noteq> [] \<Longrightarrow> join sep (xs @ [y]) = join sep xs @ sep @ y"
proof (induction xs)
  case (Cons x xs)
  then show ?case by (cases xs) auto
qed simp

section \<open>Numbers\<close>

definition digit_char :: "nat \<Rightarrow> char" where
  "digit_char d = (if d < 10 then char_of (48 + d) else char_of (87 + d))"

definition digit_val :: "char \<Rightarrow> nat option" where
  "digit_val c =
     (let n = of_char c in
      if 48 \<le> n \<and> n \<le> 57 then Some (n - 48)
      else if 97 \<le> n \<and> n \<le> 102 then Some (n - 87)
      else if 65 \<le> n \<and> n \<le> 70 then Some (n - 55)
      else None)"

text \<open>\<^verbatim>\<open>n.toString(base)\<close> for a natural number and a base between 2 and 16.\<close>

fun show_base :: "nat \<Rightarrow> nat \<Rightarrow> string" where
  "show_base b n =
     (if n < b \<or> b < 2 then [digit_char n] else show_base b (n div b) @ [digit_char (n mod b)])"

declare show_base.simps [simp del]

abbreviation show_nat :: "nat \<Rightarrow> string" where
  "show_nat \<equiv> show_base 10"

definition show_int :: "int \<Rightarrow> string" where
  "show_int i = (if i < 0 then CHR ''-'' # show_nat (nat (- i)) else show_nat (nat i))"

fun digits_val :: "nat \<Rightarrow> string \<Rightarrow> nat" where
  "digits_val b s = foldl (\<lambda>acc c. acc * b + (case digit_val c of None \<Rightarrow> 0 | Some d \<Rightarrow> d)) 0 s"

text \<open>
  \<^verbatim>\<open>parseInt(s, 16)\<close>: leading white space, an optional sign, an optional \<^verbatim>\<open>0x\<close>, then the
  longest run of hex digits; \<^verbatim>\<open>NaN\<close> (here \<^const>\<open>None\<close>) when there is none.
\<close>

definition parse_int16 :: "string \<Rightarrow> int option" where
  "parse_int16 s =
     (let t = dropWhile is_ws s;
          neg = (t \<noteq> [] \<and> hd t = CHR ''-'');
          u = (if t \<noteq> [] \<and> (hd t = CHR ''-'' \<or> hd t = CHR ''+'') then tl t else t);
          v = (if starts_with u ''0x'' \<or> starts_with u ''0X'' then drop 2 u else u);
          ds = takeWhile (\<lambda>c. digit_val c \<noteq> None) v
      in if ds = [] then None
         else Some (if neg then - int (digits_val 16 ds) else int (digits_val 16 ds)))"

lemma digit_val_digit_char: "d < 16 \<Longrightarrow> digit_val (digit_char d) = Some d"
  by (auto simp: digit_val_def digit_char_def Let_def)

lemma show_base_nonempty [simp]: "show_base b n \<noteq> []"
  by (subst show_base.simps) simp

lemma show_base_digits:
  "2 \<le> b \<Longrightarrow> b \<le> 16 \<Longrightarrow> c \<in> set (show_base b n) \<Longrightarrow> \<exists>d < b. c = digit_char d"
proof (induction b n rule: show_base.induct)
  case (1 b n)
  show ?case
  proof (cases "n < b")
    case True
    with "1.prems" show ?thesis by (subst (asm) show_base.simps) auto
  next
    case False
    from "1.prems" False consider "c \<in> set (show_base b (n div b))" | "c = digit_char (n mod b)"
      by (subst (asm) show_base.simps) auto
    then show ?thesis
      using 1 False by cases (auto intro!: exI [of _ "n mod b"])
  qed
qed

lemma digits_val_snoc: "digits_val b (s @ [c]) =
    digits_val b s * b + (case digit_val c of None \<Rightarrow> 0 | Some d \<Rightarrow> d)"
  by simp

declare digits_val.simps [simp del]

lemma digits_val_show_base: "2 \<le> b \<Longrightarrow> b \<le> 16 \<Longrightarrow> digits_val b (show_base b n) = n"
proof (induction b n rule: show_base.induct)
  case (1 b n)
  show ?case
  proof (cases "n < b")
    case True
    with "1.prems" show ?thesis
      by (subst show_base.simps) (simp add: digits_val.simps digit_val_digit_char)
  next
    case False
    with 1 have "digits_val b (show_base b (n div b)) = n div b" by simp
    moreover from "1.prems" have "n mod b < 16" by (intro less_le_trans [OF mod_less_divisor]) auto
    ultimately show ?thesis using False "1.prems"
      by (subst show_base.simps) (simp add: digits_val_snoc digit_val_digit_char)
  qed
qed

lemma show_nat_inject [simp]: "show_nat m = show_nat n \<longleftrightarrow> m = n"
proof
  assume "show_nat m = show_nat n"
  then have "digits_val 10 (show_nat m) = digits_val 10 (show_nat n)" by simp
  then show "m = n" by (simp add: digits_val_show_base)
qed simp

lemma digit_char_not_dash: "d < 10 \<Longrightarrow> digit_char d \<noteq> CHR ''-''"
proof -
  assume "d < 10"
  then have "of_char (digit_char d) = 48 + d" by (simp add: digit_char_def)
  then show ?thesis by auto
qed

lemma show_nat_no_dash [simp]: "CHR ''-'' \<notin> set (show_nat n)"
  using show_base_digits [of 10] digit_char_not_dash by fastforce

text \<open>
  A key built as \<open>prefix - digits\<close> can be taken apart again at its last separator, so the
  parts of such a key are determined by it.
\<close>

lemma split_at_last:
  assumes "s @ [c] @ d = s' @ [c] @ d'" and "c \<notin> set d" and "c \<notin> set d'"
  shows "s = s' \<and> d = d'"
proof -
  have "rev d @ [c] @ rev s = rev d' @ [c] @ rev s'"
    using arg_cong [OF assms(1), of rev] by simp
  moreover have "takeWhile (\<lambda>x. x \<noteq> c) (rev d @ [c] @ rev s) = rev d"
    "takeWhile (\<lambda>x. x \<noteq> c) (rev d' @ [c] @ rev s') = rev d'"
    using assms(2,3) by (auto simp: takeWhile_append)
  ultimately have "d = d'" by (metis rev_rev_ident)
  with assms(1) show ?thesis by simp
qed

lemma split_at_first:
  assumes "d @ [c] @ s = d' @ [c] @ s'" and "c \<notin> set d" and "c \<notin> set d'"
  shows "d = d' \<and> s = s'"
proof -
  have "takeWhile (\<lambda>x. x \<noteq> c) (d @ [c] @ s) = d" "takeWhile (\<lambda>x. x \<noteq> c) (d' @ [c] @ s') = d'"
    using assms(2,3) by (auto simp: takeWhile_append)
  with assms(1) have "d = d'" by metis
  with assms(1) show ?thesis by simp
qed

end
