(* ===== verification/App_Types.thy ===== *)
theory App_Types
  imports Js_Strings
begin

text \<open>
  The data model of the front end (\<^verbatim>\<open>frontend/src/types.ts\<close>), one record per interface and one
  datatype per union of string literals, each field under its source name with a prefix for
  its record. Unix timestamps, counts and ids are integers; coordinates are reals. Fields
  declared \<^verbatim>\<open>?: T | null\<close> are \<^typ>\<open>'a opt\<close> values.
\<close>

section \<open>Radio configuration and contacts\<close>

record radio_settings =
  rs_freq :: real
  rs_bw :: real
  rs_sf :: int
  rs_cr :: int

datatype advert_location_source = Loc_off | Loc_current

record radio_config =
  rc_public_key :: string
  rc_name :: string
  rc_lat :: real
  rc_lon :: real
  rc_tx_power :: int
  rc_max_tx_power :: int
  rc_radio :: radio_settings
  rc_path_hash_mode :: int
  rc_path_hash_mode_supported :: bool
  rc_advert_location_source :: "advert_location_source option"
  rc_multi_acks_enabled :: "bool option"
  rc_telemetry_mode_base :: "int option"
  rc_telemetry_mode_loc :: "int option"
  rc_telemetry_mode_env :: "int option"

record contact_route =
  cr_path :: string
  cr_path_len :: int
  cr_path_hash_mode :: int

datatype route_source = Src_override | Src_direct | Src_flood

record contact =
  ct_public_key :: string
  ct_name :: "string option"
  ct_type :: int
  ct_flags :: int
  ct_direct_path :: "string option"
  ct_direct_path_len :: int
  ct_direct_path_hash_mode :: int
  ct_direct_path_updated_at :: "int opt"
  ct_route_override_path :: "string opt"
  ct_route_override_len :: "int opt"
  ct_route_override_hash_mode :: "int opt"
  ct_effective_route :: "contact_route opt"
  ct_effective_route_source :: "route_source option"
  ct_direct_route :: "contact_route opt"
  ct_route_override :: "contact_route opt"
  ct_last_advert :: "int option"
  ct_lat :: "real option"
  ct_lon :: "real option"
  ct_last_seen :: "int option"
  ct_on_radio :: bool
  ct_favorite :: bool
  ct_last_contacted :: "int option"
  ct_last_read_at :: "int option"
  ct_first_seen :: "int option"
  ct_flood_scope_override :: "string opt"

definition sample_contact :: contact where
  "sample_contact =
     \<lparr> ct_public_key = ''3A40C0FFEE0012345678'', ct_name = Some ''Bob'', ct_type = 2, ct_flags = 0,
       ct_direct_path = None, ct_direct_path_len = -1, ct_direct_path_hash_mode = -1,
       ct_direct_path_updated_at = Absent, ct_route_override_path = Absent, ct_route_override_len = Absent,
       ct_route_override_hash_mode = Absent, ct_effective_route = Absent, ct_effective_route_source = None,
       ct_direct_route = Absent, ct_route_override = Absent, ct_last_advert = None, ct_lat = None, ct_lon = None,
       ct_last_seen = None, ct_on_radio = False, ct_favorite = False, ct_last_contacted = None,
       ct_last_read_at = None, ct_first_seen = None, ct_flood_scope_override = Absent \<rparr>"

definition CONTACT_TYPE_REPEATER :: int where
  "CONTACT_TYPE_REPEATER = 2"

definition CONTACT_TYPE_ROOM :: int where
  "CONTACT_TYPE_ROOM = 3"

record contact_advert_path =
  ap_path :: string
  ap_path_len :: int
  ap_next_hop :: "string option"
  ap_first_seen :: int
  ap_last_seen :: int
  ap_heard_count :: nat

record contact_advert_path_summary =
  as_public_key :: string
  as_paths :: "contact_advert_path list"

record channel =
  ch_key :: string
  ch_name :: string
  ch_is_hashtag :: bool
  ch_on_radio :: bool
  ch_flood_scope_override :: "string opt"
  ch_path_hash_mode_override :: "int opt"
  ch_last_read_at :: "int option"
  ch_favorite :: bool
  ch_muted :: bool

section \<open>Messages and conversations\<close>

record message_path =
  mp_path :: string
  mp_received_at :: int
  mp_path_len :: "int opt"
  mp_rssi :: "int opt"
  mp_snr :: "real opt"

datatype message_type = PRIV | CHAN

record message =
  m_id :: int
  m_type :: message_type
  m_conversation_key :: string
  m_text :: string
  m_sender_timestamp :: "nat option"
  m_received_at :: nat
  m_paths :: "message_path list option"
  m_txt_type :: int
  m_signature :: "string option"
  m_sender_key :: "string option"
  m_outgoing :: bool
  m_acked :: nat
  m_sender_name :: "string option"
  m_channel_name :: "string opt"
  m_packet_id :: "int opt"
  m_transport_code :: "int opt"
  m_region :: "string opt"
  m_pending :: "bool option"

record messages_around_response =
  ma_messages :: "message list"
  ma_has_older :: bool
  ma_has_newer :: bool

datatype conversation_type =
    Cv_contact | Cv_channel | Cv_raw | Cv_map | Cv_visualizer | Cv_search | Cv_mentions | Cv_trace

record conversation =
  cv_type :: conversation_type
  cv_id :: string
  cv_name :: string
  cv_mapFocusKey :: "string option"

record unread_counts =
  uc_counts :: "(string, nat) jsmap"
  uc_mentions :: "(string, bool) jsmap"
  uc_last_message_times :: "(string, int) jsmap"
  uc_last_read_ats :: "(string, int option) jsmap"
  uc_first_unread_ids :: "(string, int option) jsmap"

section \<open>Raw packets\<close>

record decrypted_info =
  di_channel_name :: "string option"
  di_sender :: "string option"
  di_channel_key :: "string option"
  di_contact_key :: "string option"
  di_sender_timestamp :: "int option"
  di_message :: "string option"

record raw_packet =
  rp_id :: int
  rp_observation_id :: "int option"
  rp_timestamp :: int
  rp_data :: string
  rp_payload_type :: string
  rp_snr :: "real option"
  rp_rssi :: "int option"
  rp_decrypted :: bool
  rp_decrypted_info :: "decrypted_info option"
  rp_transport_code :: "int opt"
  rp_region :: "string opt"

definition sample_packet :: raw_packet where
  "sample_packet =
     \<lparr> rp_id = 1, rp_observation_id = None, rp_timestamp = 1700000000, rp_data = ''00'', rp_payload_type = ''ADVERT'',
       rp_snr = None, rp_rssi = None, rp_decrypted = False, rp_decrypted_info = None,
       rp_transport_code = Absent, rp_region = Absent \<rparr>"

text \<open>
  The decoder package (\<^verbatim>\<open>@michaelhart/meshcore-decoder\<close>) is third-party code: a decode
  function is a parameter of the definitions that call it. Its result, as far as the program
  reads it, is the record below; \<open>None\<close> for the whole result stands for a thrown exception,
  and the properties the program reads off a decoded payload are options, \<open>None\<close> when the
  property is missing.
\<close>

record decoded_payload =
  pl_publicKey :: "string option"
  pl_sourceHash :: "string option"
  pl_destinationHash :: "string option"
  pl_senderPublicKey :: "string option"
  pl_decrypted_sender :: "string option"
  pl_pathHashes :: "string list option"

record decoded_packet =
  dp_isValid :: bool
  dp_messageHash :: string
  dp_routeType :: nat
  dp_payloadType :: nat
  dp_pathHashSize :: "nat option"
  dp_path :: "string list option"
  dp_payload :: "decoded_payload option"

type_synonym decoder = "string \<Rightarrow> decoded_packet option"

definition PT_Request :: nat where "PT_Request = 0"
definition PT_Response :: nat where "PT_Response = 1"
definition PT_TextMessage :: nat where "PT_TextMessage = 2"
definition PT_Ack :: nat where "PT_Ack = 3"
definition PT_Advert :: nat where "PT_Advert = 4"
definition PT_GroupText :: nat where "PT_GroupText = 5"
definition PT_AnonRequest :: nat where "PT_AnonRequest = 7"
definition PT_Path :: nat where "PT_Path = 8"
definition PT_Trace :: nat where "PT_Trace = 9"

lemmas payload_type_defs =
  PT_Request_def PT_Response_def PT_TextMessage_def PT_Ack_def PT_Advert_def PT_GroupText_def
  PT_AnonRequest_def PT_Path_def PT_Trace_def

end
