(* ===== verification/Recency.thy ===== *)
theory Recency
  imports Prelude
begin

text \<open>
  Two storage disciplines several components share, each as an interface (a locale) with the
  client-side facts proved once.

  \<^item> A \<^emph>\<open>recency store\<close> keeps at most \<open>cap\<close> keys; storing a key makes it the newest one and
    drops the oldest when the store is over its capacity. The conversation cache, the buffer
    of early acknowledgements and the repeater dashboard cache are such stores: all three
    delete and re-insert a key of a \<^verbatim>\<open>Map\<close> and then evict the first key of the iteration.
  \<^item> A \<^emph>\<open>rolling log\<close> keeps the last \<open>cap\<close> records with pairwise different identities; a
    record whose identity is already stored is ignored. The raw packet buffer and the
    packet statistics session are such logs.
\<close>

section \<open>Map operations of a recency store\<close>

definition touch :: "'k \<Rightarrow> 'v \<Rightarrow> ('k, 'v) jsmap \<Rightarrow> ('k, 'v) jsmap" where
  "touch k v m = jm_set k v (jm_delete k m)"

definition evict_oldest :: "nat \<Rightarrow> ('k, 'v) jsmap \<Rightarrow> ('k, 'v) jsmap" where
  "evict_oldest cap m = (if cap < length m then jm_delete (fst (hd m)) m else m)"

lemma keys_touch: "jm_keys (touch k v m) = filter (\<lambda>a. a \<noteq> k) (jm_keys m) @ [k]"
  by (simp add: touch_def keys_jm_set_fresh keys_jm_delete)

lemma touch_append: "touch k v m = jm_delete k m @ [(k, v)]"
proof -
  have "jm_set k v m' = m' @ [(k, v)]" if "k \<notin> set (jm_keys m')" for m' :: "('a \<times> 'b) list"
    using that by (induction m') auto
  moreover have "k \<notin> set (jm_keys (jm_delete k m))" by (simp only: keys_jm_delete) simp
  ultimately show ?thesis by (simp add: touch_def)
qed

lemma jm_wf_touch [simp]: "jm_wf m \<Longrightarrow> jm_wf (touch k v m)"
  by (simp add: touch_def)

lemma jm_get_touch: "jm_get (touch k v m) k' = (if k' = k then Some v else jm_get m k')"
  by (simp add: touch_def jsmap)

lemma length_touch_le: "length (touch k v m) \<le> Suc (length m)"
  by (simp add: touch_append)

lemma length_filter_other:
  "distinct xs \<Longrightarrow> i \<in> set xs \<Longrightarrow> Suc (length (filter (\<lambda>a. a \<noteq> i) xs)) = length xs"
proof (induction xs)
  case (Cons x xs)
  show ?case
  proof (cases "x = i")
    case True
    with Cons.prems have "filter (\<lambda>a. a \<noteq> i) xs = xs" by (intro filter_True) auto
    with True show ?thesis by simp
  qed (use Cons in auto)
qed simp

lemma length_delete_old:
  assumes "jm_get m k = Some v" and "jm_wf m"
  shows "Suc (length (jm_delete k m)) = length m"
proof -
  have "Suc (length (filter (\<lambda>a. a \<noteq> k) (jm_keys m))) = length (jm_keys m)"
    using assms(2) jm_get_SomeD [OF assms(1)] by (rule length_filter_other)
  then show ?thesis by (simp only: length_map flip: keys_jm_delete)
qed

lemma length_touch_old:
  "jm_get m k = Some v \<Longrightarrow> jm_wf m \<Longrightarrow> length (touch k v' m) = length m"
  using length_delete_old [of m k v] by (simp add: touch_append)

lemma evict_oldest_tl:
  assumes "jm_wf m" and "length m \<le> Suc cap"
  shows "evict_oldest cap m = lastn cap m"
proof (cases "cap < length m")
  case True
  then obtain p m' where m: "m = p # m'" by (cases m) auto
  with True assms(2) have len: "length m' = cap" by simp
  moreover have "jm_delete (fst p) m' = m'"
    using assms(1) m by (intro delete_id) simp
  ultimately show ?thesis using m by (simp add: evict_oldest_def lastn_def AList.delete_eq case_prod_beta)
next
  case False
  then show ?thesis by (simp add: evict_oldest_def)
qed

lemma evict_touch_keys:
  assumes "jm_wf m" and "length m \<le> cap"
  shows "jm_keys (evict_oldest cap (touch k v m)) = lastn cap (filter (\<lambda>a. a \<noteq> k) (jm_keys m) @ [k])"
proof -
  have "length (touch k v m) \<le> Suc cap"
    using length_touch_le [of k v m] assms(2) by linarith
  then show ?thesis
    using assms(1) by (simp add: evict_oldest_tl map_lastn keys_touch)
qed

lemma jm_get_evict_touch:
  assumes "0 < cap"
  shows "jm_get (evict_oldest cap (touch k v m)) k = Some v"
proof (cases "cap < length (touch k v m)")
  case True
  then obtain p m' where m: "jm_delete k m = p # m'"
    using assms by (cases "jm_delete k m") (auto simp: touch_append)
  then have "p \<in> set (jm_delete k m)" by simp
  then have "fst p \<noteq> k" by (auto simp: set_jm_delete)
  moreover have "fst (hd (touch k v m)) = fst p" by (simp add: touch_append m)
  ultimately show ?thesis using True by (simp add: evict_oldest_def jm_get_delete jm_get_touch)
next
  case False
  then show ?thesis by (simp add: evict_oldest_def jm_get_touch)
qed

lemma set_evict_subset: "set (evict_oldest cap m) \<subseteq> set m"
  by (auto simp: evict_oldest_def set_jm_delete)

lemma jm_wf_evict [simp]: "jm_wf m \<Longrightarrow> jm_wf (evict_oldest cap m)"
  by (simp add: evict_oldest_def)

lemma length_evict:
  "length m \<le> Suc cap \<Longrightarrow> jm_wf m \<Longrightarrow> length (evict_oldest cap m) \<le> cap"
  by (simp add: evict_oldest_tl)

section \<open>The recency store interface\<close>

locale recency_store =
  fixes invar :: "'s \<Rightarrow> bool"
    and keys :: "'s \<Rightarrow> 'k list"
    and put :: "'k \<Rightarrow> 'v \<Rightarrow> 's \<Rightarrow> 's"
    and cap :: nat
  assumes cap_pos: "0 < cap"
    and keys_distinct: "invar s \<Longrightarrow> distinct (keys s)"
    and keys_bounded: "invar s \<Longrightarrow> length (keys s) \<le> cap"
    and put_keys: "invar s \<Longrightarrow> keys (put k v s) = lastn cap (filter (\<lambda>a. a \<noteq> k) (keys s) @ [k])"
    and put_invar: "invar s \<Longrightarrow> invar (put k v s)"
begin

definition puts :: "('k \<times> 'v) list \<Rightarrow> 's \<Rightarrow> 's" where
  "puts kvs s = fold (\<lambda>(k, v). put k v) kvs s"

lemma puts_invar: "invar s \<Longrightarrow> invar (puts kvs s)"
  unfolding puts_def by (induction kvs arbitrary: s) (auto simp: put_invar)

lemma puts_bounded: "invar s \<Longrightarrow> length (keys (puts kvs s)) \<le> cap"
  by (rule keys_bounded) (rule puts_invar)

lemma put_newest:
  assumes "invar s"
  shows "\<exists>ks. keys (put k v s) = ks @ [k]"
proof -
  have "lastn cap (xs @ [k]) = lastn (cap - 1) xs @ [k]" for xs :: "'k list"
    using cap_pos by (simp add: lastn_def)
  then show ?thesis using put_keys [OF assms] by metis
qed

text \<open>What follows a key in the order of recency can push it out only when there are \<open>cap\<close>
  such keys.\<close>

lemma lastn_keeps:
  assumes "length post < cap"
  shows "\<exists>pre'. lastn cap (pre @ k # post) = pre' @ k # post"
proof -
  have "length (pre @ k # post) - cap \<le> length pre" using assms by simp
  then have "lastn cap (pre @ k # post) = drop (length (pre @ k # post) - cap) pre @ k # post"
    by (simp add: lastn_def)
  then show ?thesis by blast
qed

lemma put_other_keeps:
  assumes "invar s" and "keys s = pre @ k # post" and "set post \<subseteq> S" and "finite S"
    and "k' \<noteq> k" and "card (insert k' S) < cap"
  shows "\<exists>pre' post'. keys (put k' v s) = pre' @ k # post' \<and> set post' \<subseteq> insert k' S"
proof -
  let ?post = "filter (\<lambda>a. a \<noteq> k') post @ [k']"
  have "distinct ?post" using keys_distinct [OF assms(1)] assms(2) by simp
  then have "length ?post = card (set ?post)" by (metis distinct_card)
  also have "\<dots> \<le> card (insert k' S)" using assms(3,4) by (intro card_mono) auto
  finally have "length ?post < cap" using assms(6) by linarith
  from lastn_keeps [OF this] obtain pre' where
    "lastn cap (filter (\<lambda>a. a \<noteq> k') pre @ k # ?post) = pre' @ k # ?post" by blast
  then have "keys (put k' v s) = pre' @ k # ?post"
    using put_keys [OF assms(1), of k' v] assms(2,5) by simp
  moreover have "set ?post \<subseteq> insert k' S" using assms(3) by auto
  ultimately show ?thesis by blast
qed

text \<open>A stored key survives any further stores that touch fewer than \<open>cap\<close> other keys.\<close>

lemma puts_keep:
  assumes "invar s" and "k \<in> set (keys s)" and "set post \<subseteq> S" and "finite S"
    and "keys s = pre @ k # post" and "card (S \<union> (fst ` set kvs - {k})) < cap"
  shows "k \<in> set (keys (puts kvs s))"
  using assms
proof (induction kvs arbitrary: s pre post S)
  case Nil
  then show ?case by (simp add: puts_def)
next
  case (Cons kv kvs)
  obtain k' v where kv: "kv = (k', v)" by (cases kv) auto
  have step: "puts (kv # kvs) s = puts kvs (put k' v s)" by (simp add: puts_def kv)
  show ?case
  proof (cases "k' = k")
    case True
    obtain ks where ks: "keys (put k v s) = ks @ [k]" using put_newest [OF Cons.prems(1)] by blast
    have "card ({} \<union> (fst ` set kvs - {k})) \<le> card (S \<union> (fst ` set (kv # kvs) - {k}))"
      using Cons.prems(4) by (intro card_mono) auto
    then show ?thesis
      unfolding step True using ks Cons.prems(6)
      by (intro Cons.IH [where pre = ks and post = "[]" and S = "{}"] put_invar Cons.prems(1)) auto
  next
    case False
    have eq: "S \<union> (fst ` set (kv # kvs) - {k}) = insert k' S \<union> (fst ` set kvs - {k})"
      using False by (auto simp: kv)
    have "card (insert k' S) < cap"
      using Cons.prems(4,6) unfolding eq
      by (intro le_less_trans [OF card_mono Cons.prems(6) [unfolded eq]]) auto
    from put_other_keeps [OF Cons.prems(1,5,3,4) False this] obtain pre' post' where
      p: "keys (put k' v s) = pre' @ k # post'" "set post' \<subseteq> insert k' S" by blast
    then show ?thesis
      unfolding step using Cons.prems(1,4,6) unfolding eq
      by (intro Cons.IH [where pre = pre' and post = post' and S = "insert k' S"] put_invar) auto
  qed
qed

lemma put_survives:
  assumes "invar s" and "card (fst ` set kvs - {k}) < cap"
  shows "k \<in> set (keys (puts kvs (put k v s)))"
proof -
  obtain ks where "keys (put k v s) = ks @ [k]" using put_newest [OF assms(1)] by blast
  with assms show ?thesis
    by (intro puts_keep [where pre = ks and post = "[]" and S = "{}"] put_invar) auto
qed

end

section \<open>The rolling log interface\<close>

locale rolling_log =
  fixes items :: "'s \<Rightarrow> 'r list"
    and key :: "'r \<Rightarrow> 'k"
    and push :: "'r \<Rightarrow> 's \<Rightarrow> 's"
    and cap :: nat
  assumes cap_positive: "0 < cap"
    and push_items: "items (push r s) =
      (if key r \<in> key ` set (items s) then items s else lastn cap (items s @ [r]))"
begin

definition pushes :: "'r list \<Rightarrow> 's \<Rightarrow> 's" where
  "pushes rs s = fold push rs s"

lemma push_bounded: "length (items s) \<le> cap \<Longrightarrow> length (items (push r s)) \<le> cap"
  by (simp add: push_items)

lemma push_distinct:
  assumes "distinct (map key (items s))"
  shows "distinct (map key (items (push r s)))"
proof (cases "key r \<in> key ` set (items s)")
  case True
  with assms show ?thesis by (simp add: push_items)
next
  case False
  with assms have "distinct (map key (items s @ [r]))" by auto
  then have "distinct (lastn cap (map key (items s @ [r])))" by (rule distinct_lastn)
  with False show ?thesis by (simp add: push_items map_lastn)
qed

lemma pushes_bounded: "length (items s) \<le> cap \<Longrightarrow> length (items (pushes rs s)) \<le> cap"
  unfolding pushes_def by (induction rs arbitrary: s) (auto simp: push_bounded)

lemma pushes_distinct: "distinct (map key (items s)) \<Longrightarrow> distinct (map key (items (pushes rs s)))"
  unfolding pushes_def by (induction rs arbitrary: s) (auto simp: push_distinct)

lemma push_stored: "key r \<in> key ` set (items (push r s))"
proof -
  have "lastn cap (items s @ [r]) = lastn (cap - 1) (items s) @ [r]"
    using cap_positive by (simp add: lastn_def)
  then show ?thesis by (simp add: push_items)
qed

lemma push_idem: "items (push r (push r s)) = items (push r s)"
  using push_stored [of r s] by (simp add: push_items [of r "push r s"])

text \<open>Pushing records with pairwise different new identities leaves exactly the last \<open>cap\<close> of
  everything stored and pushed.\<close>

lemma pushes_fresh:
  assumes "distinct (map key (items s @ rs))" and "length (items s) \<le> cap"
  shows "items (pushes rs s) = lastn cap (items s @ rs)"
  using assms
proof (induction rs arbitrary: s)
  case Nil
  then show ?case by (simp add: pushes_def)
next
  case (Cons r rs)
  have p: "items (push r s) = lastn cap (items s @ [r])"
    using Cons.prems(1) by (auto simp: push_items)
  obtain d where d: "items s @ [r] = d @ lastn cap (items s @ [r])"
    using suffix_lastn by (metis suffixE)
  have "distinct (map key ((items s @ [r]) @ rs))" using Cons.prems(1) by simp
  then have "distinct (map key (d @ (items (push r s) @ rs)))"
    using d p by (metis append.assoc)
  then have dist: "distinct (map key (items (push r s) @ rs))" by (auto simp only: map_append distinct_append)
  have "length (items (push r s)) \<le> cap" by (simp add: p)
  from Cons.IH [OF dist this] have "items (pushes (r # rs) s) = lastn cap (lastn cap (items s @ [r]) @ rs)"
    by (simp add: pushes_def p)
  also have "\<dots> = lastn cap (items s @ r # rs)"
    by (simp add: lastn_lastn_append)
  finally show ?case .
qed

end

end
