(* ===== verification/Message_Cache.thy ===== *)
theory Message_Cache
  imports App_Types Recency
begin

text \<open>
  Message identity (\<^verbatim>\<open>utils/messageIdentity.ts\<close>) and the conversation message cache of
  \<^verbatim>\<open>hooks/useConversationMessages.ts\<close>: the class \<^verbatim>\<open>ConversationMessageCache\<close> with all its
  operations, the reconciliation of a loaded conversation with a fetched page, the buffer of
  acknowledgements that arrive before their message, and the de-duplicating append.
\<close>

section \<open>Message identity\<close>

fun message_type_str :: "message_type \<Rightarrow> string" where
  "message_type_str PRIV = ''PRIV''"
| "message_type_str CHAN = ''CHAN''"

definition message_ts :: "message \<Rightarrow> string" where
  "message_ts msg =
     (case m_sender_timestamp msg of
        Some ts \<Rightarrow> show_nat ts
      | None \<Rightarrow> ''r'' @ show_nat (m_received_at msg) @ ''-'' @ show_int (m_id msg))"

definition sender_suffix :: "message \<Rightarrow> string" where
  "sender_suffix msg =
     (if m_type msg = PRIV \<and> truthy (m_sender_key msg) then ''-'' @ the (m_sender_key msg) else [])"

definition getMessageContentKey :: "message \<Rightarrow> string" where
  "getMessageContentKey msg =
     message_type_str (m_type msg) @ ''-'' @ m_conversation_key msg @ ''-'' @ m_text msg @ ''-'' @
     message_ts msg @ sender_suffix msg"

section \<open>The cache\<close>

definition MAX_PENDING_ACKS :: nat where "MAX_PENDING_ACKS = 500"
definition MESSAGE_PAGE_SIZE :: nat where "MESSAGE_PAGE_SIZE = 200"
definition MAX_MESSAGE_FETCH :: nat where "MAX_MESSAGE_FETCH = 1000"
definition MAX_CACHED_CONVERSATIONS :: nat where "MAX_CACHED_CONVERSATIONS = 20"
definition MAX_MESSAGES_PER_ENTRY :: nat where "MAX_MESSAGES_PER_ENTRY = 200"

record cached_entry =
  ce_messages :: "message list"
  ce_hasOlderMessages :: bool

record internal_entry = cached_entry +
  ie_contentKeys :: "string jsset"

type_synonym message_cache = "(string, internal_entry) jsmap"

definition newest_first :: "message list \<Rightarrow> message list" where
  "newest_first ms = sort_key (\<lambda>m. - int (m_received_at m)) ms"

definition normalizeEntry :: "cached_entry \<Rightarrow> internal_entry" where
  "normalizeEntry entry =
     (let over = MAX_MESSAGES_PER_ENTRY < length (ce_messages entry);
          messages = (if over then take MAX_MESSAGES_PER_ENTRY (newest_first (ce_messages entry))
                      else ce_messages entry)
      in \<lparr> ce_messages = messages,
           ce_hasOlderMessages = (if over then True else ce_hasOlderMessages entry),
           ie_contentKeys = js_set_of (map getMessageContentKey messages) \<rparr>)"

definition cache_get :: "string \<Rightarrow> message_cache \<Rightarrow> cached_entry option \<times> message_cache" where
  "cache_get i c =
     (case jm_get c i of
        None \<Rightarrow> (None, c)
      | Some entry \<Rightarrow>
          (Some \<lparr> ce_messages = ce_messages entry, ce_hasOlderMessages = ce_hasOlderMessages entry \<rparr>,
           touch i entry c))"

definition cache_set :: "string \<Rightarrow> cached_entry \<Rightarrow> message_cache \<Rightarrow> message_cache" where
  "cache_set i entry c = evict_oldest MAX_CACHED_CONVERSATIONS (touch i (normalizeEntry entry) c)"

definition cache_addMessage :: "string \<Rightarrow> message \<Rightarrow> message_cache \<Rightarrow> bool \<times> message_cache" where
  "cache_addMessage i msg c =
     (let contentKey = getMessageContentKey msg in
      case jm_get c i of
        None \<Rightarrow>
          (True, evict_oldest MAX_CACHED_CONVERSATIONS
             (jm_set i \<lparr> ce_messages = [msg], ce_hasOlderMessages = True,
                         ie_contentKeys = [contentKey] \<rparr> c))
      | Some entry \<Rightarrow>
          if contentKey \<in> set (ie_contentKeys entry) then (False, c)
          else if list_ex (\<lambda>m. m_id m = m_id msg) (ce_messages entry) then (False, c)
          else (True, touch i (normalizeEntry \<lparr> ce_messages = ce_messages entry @ [msg],
                 ce_hasOlderMessages = ce_hasOlderMessages entry \<rparr>) c))"

text \<open>The update both the cache and the open conversation apply to an acknowledged message.
  \<open>paths\<close> is \<open>None\<close> and \<open>packetId\<close> is \<open>Absent\<close> where the source passes \<^verbatim>\<open>undefined\<close>.\<close>

definition paths_len :: "message \<Rightarrow> nat" where
  "paths_len m = (case m_paths m of None \<Rightarrow> 0 | Some ps \<Rightarrow> length ps)"

definition ack_message :: "nat \<Rightarrow> message_path list option \<Rightarrow> int opt \<Rightarrow> message \<Rightarrow> message" where
  "ack_message ackCount paths packetId current =
     current\<lparr> m_acked := max (m_acked current) ackCount,
       m_paths := (case paths of
                     None \<Rightarrow> m_paths current
                   | Some ps \<Rightarrow> if paths_len current \<le> length ps then Some ps else m_paths current),
       m_packet_id := spread_field (m_packet_id current) packetId \<rparr>"

fun cache_updateAck ::
  "int \<Rightarrow> nat \<Rightarrow> message_path list option \<Rightarrow> int opt \<Rightarrow> message_cache \<Rightarrow> message_cache" where
  "cache_updateAck messageId ackCount paths packetId [] = []"
| "cache_updateAck messageId ackCount paths packetId ((i, entry) # c) =
     (case find_index (\<lambda>m. m_id m = messageId) (ce_messages entry) of
        None \<Rightarrow> (i, entry) # cache_updateAck messageId ackCount paths packetId c
      | Some n \<Rightarrow>
          (i, entry\<lparr> ce_messages :=
                (ce_messages entry)[n := ack_message ackCount paths packetId (ce_messages entry ! n)] \<rparr>) # c)"

definition cache_remove :: "string \<Rightarrow> message_cache \<Rightarrow> message_cache" where
  "cache_remove i c = jm_delete i c"

text \<open>The loop of \<^verbatim>\<open>rename\<close> that appends the messages with ids not seen yet.\<close>

fun merge_by_id :: "message list \<Rightarrow> int jsset \<Rightarrow> message list \<Rightarrow> message list" where
  "merge_by_id merged seenIds [] = merged"
| "merge_by_id merged seenIds (m # ms) =
     (if m_id m \<notin> set seenIds then merge_by_id (merged @ [m]) (js_add (m_id m) seenIds) ms
      else merge_by_id merged seenIds ms)"

definition cache_rename :: "string \<Rightarrow> string \<Rightarrow> message_cache \<Rightarrow> message_cache" where
  "cache_rename oldId newId c =
     (if oldId = newId then c
      else case jm_get c oldId of
        None \<Rightarrow> c
      | Some oldEntry \<Rightarrow>
          (case jm_get c newId of
             None \<Rightarrow> jm_set newId oldEntry (jm_delete oldId c)
           | Some newEntry \<Rightarrow>
               (let merged = merge_by_id (ce_messages newEntry)
                      (js_set_of (map m_id (ce_messages newEntry))) (ce_messages oldEntry)
                in jm_set newId
                     (normalizeEntry \<lparr> ce_messages = merged,
                        ce_hasOlderMessages =
                          (ce_hasOlderMessages newEntry \<or> ce_hasOlderMessages oldEntry) \<rparr>)
                     (jm_delete oldId c))))"

definition cache_clear :: "message_cache \<Rightarrow> message_cache" where
  "cache_clear c = []"

section \<open>Reconciliation with a fetched page\<close>

record message_digest =
  md_acked :: nat
  md_pathsLen :: nat
  md_text :: string
  md_packetId :: "int opt"

definition digest :: "message \<Rightarrow> message_digest" where
  "digest m = \<lparr> md_acked = m_acked m, md_pathsLen = paths_len m, md_text = m_text m,
                md_packetId = m_packet_id m \<rparr>"

definition reconcileConversationMessages ::
  "message list \<Rightarrow> message list \<Rightarrow> message list option" where
  "reconcileConversationMessages current fetched =
     (let currentById = fold (\<lambda>m. jm_set (m_id m) (digest m)) current [];
          needsUpdate = list_ex (\<lambda>m. jm_get currentById (m_id m) \<noteq> Some (digest m)) fetched
      in if \<not> needsUpdate then None
         else Some (fetched @ filter (\<lambda>m. m_id m \<notin> set (map m_id fetched)) current))"

section \<open>Acknowledgements ahead of their message\<close>

record pending_ack =
  pa_ackCount :: nat
  pa_paths :: "message_path list option"
  pa_packetId :: "int opt"

definition mergePendingAck ::
  "pending_ack option \<Rightarrow> nat \<Rightarrow> message_path list option \<Rightarrow> int opt \<Rightarrow> pending_ack" where
  "mergePendingAck existing ackCount paths packetId =
     (case existing of
        None \<Rightarrow> \<lparr> pa_ackCount = ackCount, pa_paths = paths, pa_packetId = packetId \<rparr>
      | Some ex \<Rightarrow>
          if pa_ackCount ex < ackCount then
            \<lparr> pa_ackCount = ackCount,
              pa_paths = (if paths \<noteq> None then paths else pa_paths ex),
              pa_packetId = (if packetId \<noteq> Absent then packetId else pa_packetId ex) \<rparr>
          else if ackCount < pa_ackCount ex then ex
          else
            (let packetIdChanged = (packetId \<noteq> Absent \<and> packetId \<noteq> pa_packetId ex) in
             case paths of
               None \<Rightarrow> if \<not> packetIdChanged then ex else ex\<lparr> pa_packetId := packetId \<rparr>
             | Some ps \<Rightarrow>
                 if (case pa_paths ex of None \<Rightarrow> -1 | Some eps \<Rightarrow> int (length eps)) \<le> int (length ps)
                 then \<lparr> pa_ackCount = ackCount, pa_paths = Some ps, pa_packetId = packetId \<rparr>
                 else if \<not> packetIdChanged then ex
                 else ex\<lparr> pa_packetId := packetId \<rparr>))"

type_synonym pending_acks = "(int, pending_ack) jsmap"

definition setPendingAck ::
  "int \<Rightarrow> nat \<times> message_path list option \<times> int opt \<Rightarrow> pending_acks \<Rightarrow> pending_acks" where
  "setPendingAck messageId upd acks =
     (case upd of (ackCount, paths, packetId) \<Rightarrow>
        let merged = mergePendingAck (jm_get acks messageId) ackCount paths packetId
        in evict_oldest MAX_PENDING_ACKS (touch messageId merged acks))"

definition applyPendingAck :: "message \<Rightarrow> pending_acks \<Rightarrow> message \<times> pending_acks" where
  "applyPendingAck msg acks =
     (case jm_get acks (m_id msg) of
        None \<Rightarrow> (msg, acks)
      | Some pending \<Rightarrow>
          (msg\<lparr> m_acked := max (m_acked msg) (pa_ackCount pending),
                m_paths := (if pa_paths pending \<noteq> None then pa_paths pending else m_paths msg),
                m_packet_id := spread_field (m_packet_id msg) (pa_packetId pending) \<rparr>,
           jm_delete (m_id msg) acks))"

text \<open>\<^verbatim>\<open>data.map((msg) => applyPendingAck(msg))\<close>: each message consumes its pending entry.\<close>

fun applyPendingAcks :: "message list \<Rightarrow> pending_acks \<Rightarrow> message list \<times> pending_acks" where
  "applyPendingAcks [] acks = ([], acks)"
| "applyPendingAcks (m # ms) acks =
     (let (m', acks') = applyPendingAck m acks;
          (ms', acks'') = applyPendingAcks ms acks'
      in (m' # ms', acks''))"

section \<open>De-duplicating append\<close>

fun unique_additions :: "int jsset \<Rightarrow> string jsset \<Rightarrow> message list \<Rightarrow> message list" where
  "unique_additions seenIds seenContent [] = []"
| "unique_additions seenIds seenContent (m # ms) =
     (if m_id m \<in> set seenIds \<or> getMessageContentKey m \<in> set seenContent
      then unique_additions seenIds seenContent ms
      else m # unique_additions (js_add (m_id m) seenIds)
                 (js_add (getMessageContentKey m) seenContent) ms)"

definition appendUniqueMessages :: "message list \<Rightarrow> message list \<Rightarrow> message list" where
  "appendUniqueMessages current incoming =
     (if incoming = [] then current
      else let additions = unique_additions (js_set_of (map m_id current))
                 (js_set_of (map getMessageContentKey current)) incoming
           in if additions = [] then current else current @ additions)"

definition isMessageConversation :: "conversation option \<Rightarrow> bool" where
  "isMessageConversation conv =
     (case conv of None \<Rightarrow> False
      | Some c \<Rightarrow> cv_type c \<notin> {Cv_raw, Cv_map, Cv_visualizer, Cv_search, Cv_mentions, Cv_trace})"

definition isActiveConversationMessage :: "conversation option \<Rightarrow> message \<Rightarrow> bool" where
  "isActiveConversationMessage active msg =
     (case active of None \<Rightarrow> False
      | Some c \<Rightarrow>
          if m_type msg = CHAN \<and> cv_type c = Cv_channel then m_conversation_key msg = cv_id c
          else if m_type msg = PRIV \<and> cv_type c = Cv_contact then m_conversation_key msg = cv_id c
          else False)"

section \<open>Invariants and reachable caches\<close>

definition entry_inv :: "internal_entry \<Rightarrow> bool" where
  "entry_inv e \<longleftrightarrow> length (ce_messages e) \<le> MAX_MESSAGES_PER_ENTRY \<and>
     set (ie_contentKeys e) = getMessageContentKey ` set (ce_messages e)"

definition cache_inv :: "message_cache \<Rightarrow> bool" where
  "cache_inv c \<longleftrightarrow> jm_wf c \<and> length c \<le> MAX_CACHED_CONVERSATIONS \<and> (\<forall>e \<in> snd ` set c. entry_inv e)"

definition acks_inv :: "pending_acks \<Rightarrow> bool" where
  "acks_inv a \<longleftrightarrow> jm_wf a \<and> length a \<le> MAX_PENDING_ACKS"

text \<open>One step of the cache is one call of one of its methods.\<close>

inductive cache_step :: "message_cache \<Rightarrow> message_cache \<Rightarrow> bool" where
  get_step: "cache_step c (snd (cache_get i c))"
| set_step: "cache_step c (cache_set i e c)"
| add_step: "cache_step c (snd (cache_addMessage i m c))"
| ack_step: "cache_step c (cache_updateAck n k ps pid c)"
| remove_step: "cache_step c (cache_remove i c)"
| rename_step: "cache_step c (cache_rename i j c)"
| clear_step: "cache_step c (cache_clear c)"

inductive cache_reachable :: "message_cache \<Rightarrow> bool" where
  cache_init: "cache_reachable []"
| cache_next: "cache_reachable c \<Longrightarrow> cache_step c c' \<Longrightarrow> cache_reachable c'"

inductive_cases cache_stepE: "cache_step c c'"

definition sample_message :: message where
  "sample_message = \<lparr> m_id = 7, m_type = CHAN, m_conversation_key = ''AB'', m_text = ''hi'',
     m_sender_timestamp = Some 1700000000, m_received_at = 1700000001, m_paths = None, m_txt_type = 0,
     m_signature = None, m_sender_key = None, m_outgoing = False, m_acked = 0, m_sender_name = None,
     m_channel_name = Absent, m_packet_id = Absent, m_transport_code = Absent, m_region = Absent,
     m_pending = None \<rparr>"

lemmas cap_defs = MAX_CACHED_CONVERSATIONS_def MAX_MESSAGES_PER_ENTRY_def MAX_PENDING_ACKS_def

section \<open>Facts about the entries\<close>

lemma set_newest_first [simp]: "set (newest_first ms) = set ms"
  by (simp add: newest_first_def)

lemma length_newest_first [simp]: "length (newest_first ms) = length ms"
  by (simp add: newest_first_def)

lemma normalizeEntry_messages:
  "ce_messages (normalizeEntry e) =
     (if MAX_MESSAGES_PER_ENTRY < length (ce_messages e)
      then take MAX_MESSAGES_PER_ENTRY (newest_first (ce_messages e)) else ce_messages e)"
  by (simp add: normalizeEntry_def Let_def)

lemma normalizeEntry_inv [simp]: "entry_inv (normalizeEntry e)"
  by (simp add: entry_inv_def normalizeEntry_def Let_def)

lemma getMessageContentKey_ack [simp]:
  "getMessageContentKey (ack_message k ps pid m) = getMessageContentKey m"
  by (simp add: getMessageContentKey_def message_ts_def sender_suffix_def ack_message_def
      split: option.split)

lemma m_id_ack [simp]: "m_id (ack_message k ps pid m) = m_id m"
  by (simp add: ack_message_def)

lemma entry_inv_ack:
  assumes "entry_inv e" and "n < length (ce_messages e)"
  shows "entry_inv (e\<lparr> ce_messages := (ce_messages e)[n := ack_message k ps pid (ce_messages e ! n)] \<rparr>)"
proof -
  have "map getMessageContentKey ((ce_messages e)[n := ack_message k ps pid (ce_messages e ! n)]) =
      map getMessageContentKey (ce_messages e)"
    using assms(2) by (simp add: map_update list_update_same_conv)
  then have "getMessageContentKey ` set ((ce_messages e)[n := ack_message k ps pid (ce_messages e ! n)]) =
      getMessageContentKey ` set (ce_messages e)"
    by (metis list.set_map)
  with assms show ?thesis by (simp add: entry_inv_def)
qed

section \<open>Every operation keeps the cache invariant\<close>

lemma cache_invI:
  "\<lbrakk> jm_wf c; length c \<le> MAX_CACHED_CONVERSATIONS; \<And>i e. (i, e) \<in> set c \<Longrightarrow> entry_inv e \<rbrakk> \<Longrightarrow> cache_inv c"
  by (auto simp: cache_inv_def)

lemma cache_inv_entry: "cache_inv c \<Longrightarrow> jm_get c i = Some e \<Longrightarrow> entry_inv e"
  by (force simp: cache_inv_def dest: map_of_SomeD)

lemma cache_inv_delete: "cache_inv c \<Longrightarrow> cache_inv (jm_delete i c)"
  by (auto simp: cache_inv_def set_jm_delete intro: le_trans [OF length_jm_delete_le])

lemma cache_inv_touch:
  assumes "cache_inv c" and "jm_get c i = Some e" and "entry_inv e'"
  shows "cache_inv (touch i e' c)"
proof (rule cache_invI)
  show "jm_wf (touch i e' c)" using assms(1) by (simp add: cache_inv_def)
  show "length (touch i e' c) \<le> MAX_CACHED_CONVERSATIONS"
    using assms(1) length_touch_old [OF assms(2)] by (simp add: cache_inv_def)
  fix j e0 assume "(j, e0) \<in> set (touch i e' c)"
  then show "entry_inv e0"
    using assms(1,3) by (auto simp: touch_append set_jm_delete cache_inv_def)
qed

lemma cache_inv_evict_new:
  assumes "cache_inv c" and "entry_inv e"
  shows "cache_inv (evict_oldest MAX_CACHED_CONVERSATIONS (touch i e c))"
proof (rule cache_invI)
  have wf: "jm_wf (touch i e c)" using assms(1) by (simp add: cache_inv_def)
  moreover have "length (touch i e c) \<le> Suc MAX_CACHED_CONVERSATIONS"
    using assms(1) length_touch_le [of i e c] by (simp add: cache_inv_def)
  ultimately show "length (evict_oldest MAX_CACHED_CONVERSATIONS (touch i e c)) \<le> MAX_CACHED_CONVERSATIONS"
    by (intro length_evict)
  show "jm_wf (evict_oldest MAX_CACHED_CONVERSATIONS (touch i e c))" using wf by simp
  fix j e' assume "(j, e') \<in> set (evict_oldest MAX_CACHED_CONVERSATIONS (touch i e c))"
  then have "(j, e') \<in> set (touch i e c)" using set_evict_subset by fastforce
  then show "entry_inv e'" using assms by (auto simp: touch_append set_jm_delete cache_inv_def)
qed

lemma touch_fresh: "jm_get c i = None \<Longrightarrow> touch i e c = jm_set i e c"
  by (simp add: touch_def map_of_eq_None_iff)

lemma cache_inv_get: "cache_inv c \<Longrightarrow> cache_inv (snd (cache_get i c))"
  by (auto simp: cache_get_def split: option.splits intro: cache_inv_touch cache_inv_entry)

lemma cache_inv_set: "cache_inv c \<Longrightarrow> cache_inv (cache_set i e c)"
  by (simp add: cache_set_def cache_inv_evict_new)

lemma cache_inv_add: "cache_inv c \<Longrightarrow> cache_inv (snd (cache_addMessage i m c))"
proof (cases "jm_get c i")
  case None
  assume "cache_inv c"
  moreover have "entry_inv \<lparr> ce_messages = [m], ce_hasOlderMessages = True,
      ie_contentKeys = [getMessageContentKey m] \<rparr>"
    by (simp add: entry_inv_def cap_defs)
  ultimately show ?thesis
    using None by (simp add: cache_addMessage_def Let_def cache_inv_evict_new flip: touch_fresh)
next
  case (Some e)
  assume "cache_inv c"
  with Some show ?thesis by (simp add: cache_addMessage_def Let_def cache_inv_touch)
qed

lemma keys_cache_updateAck [simp]: "jm_keys (cache_updateAck n k ps pid c) = jm_keys c"
  by (induction n k ps pid c rule: cache_updateAck.induct) (auto split: option.splits)

lemma length_cache_updateAck [simp]: "length (cache_updateAck n k ps pid c) = length c"
  by (metis keys_cache_updateAck length_map)

lemma entries_updateAck:
  assumes "\<And>j e. (j, e) \<in> set c \<Longrightarrow> entry_inv e" and "(i, e) \<in> set (cache_updateAck n k ps pid c)"
  shows "entry_inv e"
  using assms
proof (induction n k ps pid c rule: cache_updateAck.induct)
  case (2 n k ps pid j e' c)
  show ?case
  proof (cases "find_index (\<lambda>m. m_id m = n) (ce_messages e')")
    case None
    with 2 show ?thesis by fastforce
  next
    case (Some p)
    with 2 find_index_Some [OF Some] show ?thesis by (fastforce intro: entry_inv_ack)
  qed
qed simp

lemma cache_inv_updateAck: "cache_inv c \<Longrightarrow> cache_inv (cache_updateAck n k ps pid c)"
proof (rule cache_invI)
  assume inv: "cache_inv c"
  then show "jm_wf (cache_updateAck n k ps pid c)"
    "length (cache_updateAck n k ps pid c) \<le> MAX_CACHED_CONVERSATIONS"
    by (simp_all add: cache_inv_def del: map_map)
  fix i e assume "(i, e) \<in> set (cache_updateAck n k ps pid c)"
  with entries_updateAck [of c] inv show "entry_inv e" by (force simp: cache_inv_def)
qed

lemma cache_inv_rename: "cache_inv c \<Longrightarrow> cache_inv (cache_rename i j c)"
proof -
  assume inv: "cache_inv c"
  have step: "cache_inv (jm_set j e (jm_delete i c))"
    if "i \<noteq> j" "jm_get c i = Some e0" "entry_inv e" for e0 e
  proof (rule cache_invI)
    show "jm_wf (jm_set j e (jm_delete i c))" using inv by (simp add: cache_inv_def)
    have "Suc (length (jm_delete i c)) = length c"
      using length_touch_old [OF that(2), of e] inv by (simp add: touch_append cache_inv_def)
    then show "length (jm_set j e (jm_delete i c)) \<le> MAX_CACHED_CONVERSATIONS"
      using inv by (auto simp: cache_inv_def length_jm_set)
    fix a b assume "(a, b) \<in> set (jm_set j e (jm_delete i c))"
    then have "(a, b) \<in> insert (j, e) (set (jm_delete i c))" using set_jm_set_subset by (rule rev_subsetD)
    then show "entry_inv b" using that(3) inv by (auto simp: set_jm_delete cache_inv_def)
  qed
  show ?thesis
    unfolding cache_rename_def Let_def
    by (auto split: option.splits intro: step inv cache_inv_entry [OF inv])
qed

lemma cache_step_inv: "cache_step c c' \<Longrightarrow> cache_inv c \<Longrightarrow> cache_inv c'"
  by (erule cache_stepE)
    (auto intro: cache_inv_get cache_inv_set cache_inv_add cache_inv_updateAck cache_inv_rename
      simp: cache_remove_def cache_inv_delete cache_clear_def cache_inv_def [of "[]"])

text \<open>C7. Whatever sequence of calls the application makes on the conversation cache, it holds at
  most 20 conversations under pairwise different ids, each with at most 200 messages, and the
  set of content keys an entry de-duplicates with is exactly that of its messages.\<close>

theorem cache_reachable_inv:
  "cache_reachable c \<Longrightarrow> length c \<le> 20 \<and> jm_wf c \<and>
     (\<forall>(i, e) \<in> set c. length (ce_messages e) \<le> 200 \<and>
        set (ie_contentKeys e) = getMessageContentKey ` set (ce_messages e))"
proof -
  assume "cache_reachable c"
  then have "cache_inv c"
    by (induction rule: cache_reachable.induct) (auto simp: cache_inv_def [of "[]"] intro: cache_step_inv)
  then show ?thesis by (auto simp: cache_inv_def entry_inv_def cap_defs)
qed

lemma cache_reachable_inv_witness:
  "cache_reachable (snd (cache_addMessage ''AB'' sample_message [])) \<and>
   length (snd (cache_addMessage ''AB'' sample_message [])) \<le> 20"
proof -
  have "cache_reachable (snd (cache_addMessage ''AB'' sample_message []))"
    by (rule cache_next [OF cache_init add_step])
  with cache_reachable_inv [OF this] show ?thesis by blast
qed

section \<open>The cache and the acknowledgement buffer as recency stores\<close>

interpretation conv_cache: recency_store cache_inv jm_keys cache_set MAX_CACHED_CONVERSATIONS
proof unfold_locales
  fix c i e
  assume inv: "cache_inv c"
  then show "jm_keys (cache_set i e c) =
      lastn MAX_CACHED_CONVERSATIONS (filter (\<lambda>a. a \<noteq> i) (jm_keys c) @ [i])"
    by (simp add: cache_set_def evict_touch_keys cache_inv_def)
  from inv show "cache_inv (cache_set i e c)" by (rule cache_inv_set)
qed (simp_all add: cap_defs cache_inv_def)

interpretation ack_buffer: recency_store acks_inv jm_keys setPendingAck MAX_PENDING_ACKS
proof unfold_locales
  fix a n upd
  assume inv: "acks_inv a"
  then show "jm_keys (setPendingAck n upd a) =
      lastn MAX_PENDING_ACKS (filter (\<lambda>k. k \<noteq> n) (jm_keys a) @ [n])"
    by (simp add: setPendingAck_def evict_touch_keys acks_inv_def Let_def split: prod.split)
  have "length (touch n v a) \<le> Suc MAX_PENDING_ACKS" for v
    using inv length_touch_le [of n v a] by (simp add: acks_inv_def)
  with inv show "acks_inv (setPendingAck n upd a)"
    by (simp add: setPendingAck_def acks_inv_def Let_def length_evict split: prod.split)
qed (simp_all add: cap_defs acks_inv_def)

text \<open>A conversation stored in the cache is still there after any further stores, as long as
  they touch fewer than 20 other conversations: only the least recently stored one is evicted.\<close>

theorem cache_set_survives:
  assumes "cache_inv c" and "card (fst ` set stores - {i}) < 20"
  shows "jm_has (fold (\<lambda>(j, e). cache_set j e) stores (cache_set i entry c)) i"
  using conv_cache.put_survives [OF assms(1), of stores i entry] assms(2)
  by (simp add: conv_cache.puts_def jm_has_iff cap_defs)

lemma cache_set_survives_witness:
  "jm_has (fold (\<lambda>(j, e). cache_set j e)
      [(''B'', \<lparr>ce_messages = [sample_message], ce_hasOlderMessages = False\<rparr>)]
      (cache_set ''A'' \<lparr>ce_messages = [], ce_hasOlderMessages = True\<rparr> [])) ''A''"
proof -
  have inv: "cache_inv []" by (simp add: cache_inv_def)
  have few: "card (fst ` set [(''B'', \<lparr>ce_messages = [sample_message], ce_hasOlderMessages = False\<rparr>)] - {''A''}) < 20"
    by simp
  show ?thesis by (rule cache_set_survives [OF inv few])
qed

text \<open>An acknowledgement that arrives before its message stays buffered while fewer than 500
  other messages are acknowledged, and the buffer never holds more than 500 entries.\<close>

theorem pending_ack_survives:
  assumes "acks_inv acks" and "card (fst ` set later - {n}) < 500"
  shows "jm_has (fold (\<lambda>(k, u). setPendingAck k u) later (setPendingAck n upd acks)) n
    \<and> length (fold (\<lambda>(k, u). setPendingAck k u) later (setPendingAck n upd acks)) \<le> 500"
  using ack_buffer.put_survives [OF assms(1), of later n upd] assms(2)
    ack_buffer.puts_bounded [OF ack_buffer.put_invar [OF assms(1)], of later n upd]
  by (simp add: ack_buffer.puts_def jm_has_iff cap_defs)

lemma pending_ack_survives_witness:
  "jm_has (fold (\<lambda>(k, u). setPendingAck k u) [(3, (1, None, Absent))] (setPendingAck 5 (2, None, Val 9) [])) 5
   \<and> length (fold (\<lambda>(k, u). setPendingAck k u) [(3, (1, None, Absent))] (setPendingAck 5 (2, None, Val 9) [])) \<le> 500"
proof -
  have inv: "acks_inv []" by (simp add: acks_inv_def)
  have few: "card (fst ` set [(3, (1, None, Absent))] - {5 :: int}) < 500" by simp
  show ?thesis by (rule pending_ack_survives [OF inv few])
qed

section \<open>What the operations return\<close>

lemma take_newest_first:
  assumes "m \<in> set (take n (newest_first ms))" and "m' \<in> set (drop n (newest_first ms))"
  shows "m_received_at m' \<le> m_received_at m"
proof -
  have "sorted (map (\<lambda>m. - int (m_received_at m)) (newest_first ms))"
    by (simp add: newest_first_def)
  then have "sorted (map (\<lambda>m. - int (m_received_at m))
      (take n (newest_first ms) @ drop n (newest_first ms)))" by simp
  then have "- int (m_received_at m) \<le> - int (m_received_at m')"
    using assms unfolding map_append sorted_append by auto
  then show ?thesis by simp
qed

lemma mset_newest_first [simp]: "mset (newest_first ms) = mset ms"
  by (simp add: newest_first_def)

text \<open>Storing a conversation and reading it back returns its messages unchanged when there
  are at most 200; otherwise it returns 200 of them such that none left out is newer than one
  kept, and reports that older messages exist.\<close>

theorem cache_get_set:
  assumes "cache_inv c"
  shows "\<exists>kept dropped.
    fst (cache_get i (cache_set i entry c)) = Some \<lparr> ce_messages = kept,
       ce_hasOlderMessages = (ce_hasOlderMessages entry \<or> 200 < length (ce_messages entry)) \<rparr> \<and>
    mset (ce_messages entry) = mset kept + mset dropped \<and>
    (length (ce_messages entry) \<le> 200 \<longrightarrow> kept = ce_messages entry) \<and>
    (200 < length (ce_messages entry) \<longrightarrow> length kept = 200) \<and>
    (\<forall>m \<in> set kept. \<forall>m' \<in> set dropped. m_received_at m' \<le> m_received_at m)"
proof -
  let ?over = "200 < length (ce_messages entry)"
  let ?kept = "if ?over then take 200 (newest_first (ce_messages entry)) else ce_messages entry"
  let ?dropped = "if ?over then drop 200 (newest_first (ce_messages entry)) else []"
  have "i \<in> set (jm_keys (cache_set i entry c))"
    using conv_cache.put_survives [OF assms, of "[]" i entry] by (simp add: conv_cache.puts_def cap_defs)
  then obtain e where e: "jm_get (cache_set i entry c) i = Some e"
    by (metis jm_has_def jm_has_iff not_None_eq)
  then have "(i, e) \<in> set (touch i (normalizeEntry entry) c)"
    using set_evict_subset map_of_SomeD unfolding cache_set_def by fastforce
  then have "e = normalizeEntry entry" by (auto simp: touch_append set_jm_delete)
  with e have get: "fst (cache_get i (cache_set i entry c)) = Some \<lparr> ce_messages = ?kept,
      ce_hasOlderMessages = (ce_hasOlderMessages entry \<or> ?over) \<rparr>"
    by (simp add: cache_get_def normalizeEntry_def Let_def cap_defs)
  have split: "mset (ce_messages entry) = mset ?kept + mset ?dropped"
    by (simp flip: mset_append)
  have newest: "\<forall>m \<in> set ?kept. \<forall>m' \<in> set ?dropped. m_received_at m' \<le> m_received_at m"
    by (auto intro: take_newest_first)
  show ?thesis
    by (rule exI [of _ ?kept], rule exI [of _ ?dropped], intro conjI impI)
      (rule get, rule split, simp, simp, rule newest)
qed

lemma cache_get_set_witness:
  "\<exists>kept. fst (cache_get ''A'' (cache_set ''A'' \<lparr>ce_messages = [sample_message], ce_hasOlderMessages = False\<rparr> []))
     = Some \<lparr> ce_messages = kept, ce_hasOlderMessages = False \<rparr> \<and> kept = [sample_message]"
proof -
  have "cache_inv []" by (simp add: cache_inv_def)
  from cache_get_set [OF this, of "''A''" "\<lparr>ce_messages = [sample_message], ce_hasOlderMessages = False\<rparr>"]
  show ?thesis by auto
qed

text \<open>Adding a message to a cached conversation is refused exactly when its id or its content
  key is already there, and a refused message leaves the cache as it was; an accepted one is in
  the conversation afterwards unless 200 messages at least as new are.\<close>

theorem cache_addMessage_spec:
  assumes "cache_inv c" and "jm_get c i = Some entry"
  shows "(fst (cache_addMessage i msg c) \<longleftrightarrow>
      (\<forall>m \<in> set (ce_messages entry). getMessageContentKey m \<noteq> getMessageContentKey msg \<and> m_id m \<noteq> m_id msg))
    \<and> (\<not> fst (cache_addMessage i msg c) \<longrightarrow> snd (cache_addMessage i msg c) = c)
    \<and> (fst (cache_addMessage i msg c) \<longrightarrow>
      (\<exists>entry'. jm_get (snd (cache_addMessage i msg c)) i = Some entry' \<and>
        (msg \<in> set (ce_messages entry') \<or>
         length (ce_messages entry') = 200 \<and>
         (\<forall>m \<in> set (ce_messages entry'). m_received_at msg \<le> m_received_at m))))"
proof (intro conjI impI)
  have keys: "set (ie_contentKeys entry) = getMessageContentKey ` set (ce_messages entry)"
    using cache_inv_entry [OF assms] by (simp add: entry_inv_def)
  show "fst (cache_addMessage i msg c) \<longleftrightarrow>
      (\<forall>m \<in> set (ce_messages entry). getMessageContentKey m \<noteq> getMessageContentKey msg \<and> m_id m \<noteq> m_id msg)"
    using assms(2)
    by (simp add: cache_addMessage_def Let_def list_ex_iff keys image_iff eq_commute [of "getMessageContentKey msg"])
      blast
  show "snd (cache_addMessage i msg c) = c" if "\<not> fst (cache_addMessage i msg c)"
    using that assms(2) by (auto simp: cache_addMessage_def Let_def split: if_splits)
  assume "fst (cache_addMessage i msg c)"
  then have snd: "jm_get (snd (cache_addMessage i msg c)) i =
      Some (normalizeEntry \<lparr> ce_messages = ce_messages entry @ [msg],
        ce_hasOlderMessages = ce_hasOlderMessages entry \<rparr>)" (is "_ = Some ?n")
    using assms(2) by (auto simp: cache_addMessage_def Let_def jm_get_touch split: if_splits)
  show "\<exists>entry'. jm_get (snd (cache_addMessage i msg c)) i = Some entry' \<and>
        (msg \<in> set (ce_messages entry') \<or>
         length (ce_messages entry') = 200 \<and>
         (\<forall>m \<in> set (ce_messages entry'). m_received_at msg \<le> m_received_at m))"
  proof (cases "200 < length (ce_messages entry @ [msg])")
    case False
    then have "msg \<in> set (ce_messages ?n)" by (simp add: normalizeEntry_messages cap_defs)
    with snd show ?thesis by blast
  next
    case True
    let ?ms = "newest_first (ce_messages entry @ [msg])"
    have n: "ce_messages ?n = take 200 ?ms"
      using True by (simp add: normalizeEntry_messages cap_defs)
    have "msg \<in> set (take 200 ?ms) \<or> msg \<in> set (drop 200 ?ms)"
      by (metis Un_iff append_take_drop_id in_set_conv_decomp set_append set_newest_first)
    then have "msg \<in> set (ce_messages ?n) \<or>
        length (ce_messages ?n) = 200 \<and> (\<forall>m \<in> set (ce_messages ?n). m_received_at msg \<le> m_received_at m)"
      unfolding n using True by (auto intro: take_newest_first)
    with snd show ?thesis by blast
  qed
qed

lemma cache_addMessage_spec_witness:
  "\<not> fst (cache_addMessage ''AB'' sample_message (snd (cache_addMessage ''AB'' sample_message []))) \<and>
   snd (cache_addMessage ''AB'' sample_message (snd (cache_addMessage ''AB'' sample_message []))) =
     snd (cache_addMessage ''AB'' sample_message [])"
proof -
  let ?c = "snd (cache_addMessage ''AB'' sample_message [])"
  let ?e = "\<lparr> ce_messages = [sample_message], ce_hasOlderMessages = True,
              ie_contentKeys = [getMessageContentKey sample_message] \<rparr>"
  have inv: "cache_inv ?c" by (rule cache_inv_add) (simp add: cache_inv_def)
  have get: "jm_get ?c ''AB'' = Some ?e"
    by (simp add: cache_addMessage_def Let_def evict_oldest_def cap_defs)
  have "\<not> fst (cache_addMessage ''AB'' sample_message ?c)"
    using cache_addMessage_spec [OF inv get, of sample_message] by simp
  with cache_addMessage_spec [OF inv get, of sample_message] show ?thesis by simp
qed

section \<open>Reconciliation\<close>

lemma jm_get_fold_digest:
  "jm_get (fold (\<lambda>m. jm_set (m_id m) (digest m)) ms c) i =
     (case filter (\<lambda>m. m_id m = i) (rev ms) of [] \<Rightarrow> jm_get c i | m # _ \<Rightarrow> Some (digest m))"
proof (induction ms arbitrary: c)
  case (Cons m ms)
  show ?case
    by (cases "filter (\<lambda>m. m_id m = i) (rev ms)") (simp_all add: Cons.IH jm_get_set)
qed simp

lemma jm_get_fold_digest_distinct:
  assumes "distinct (map m_id ms)" and "m \<in> set ms"
  shows "jm_get (fold (\<lambda>m. jm_set (m_id m) (digest m)) ms []) (m_id m) = Some (digest m)"
proof -
  let ?fs = "filter (\<lambda>x. m_id x = m_id m) (rev ms)"
  have eq: "x = m" if "x \<in> set ?fs" for x
    using that assms by (auto simp: distinct_map inj_on_def)
  have "m \<in> set ?fs" using assms(2) by simp
  then obtain x xs where fs: "?fs = x # xs" by (cases ?fs) auto
  with eq [of x] have "x = m" by simp
  with fs show ?thesis by (simp add: jm_get_fold_digest)
qed

text \<open>Reconciling a loaded conversation with a fetched page reports no change exactly when
  every fetched message is loaded with the same acknowledgement count, number of paths, text and
  packet id. Otherwise the result is the fetched page followed by the loaded messages it does
  not contain: no message of either side is lost, and none appears twice.\<close>

theorem reconcile_spec:
  assumes "distinct (map m_id current)" and "distinct (map m_id fetched)"
  shows "(reconcileConversationMessages current fetched = None \<longleftrightarrow>
       (\<forall>m \<in> set fetched. \<exists>m' \<in> set current. m_id m' = m_id m \<and> digest m' = digest m)) \<and>
     (\<forall>result. reconcileConversationMessages current fetched = Some result \<longrightarrow>
        distinct (map m_id result) \<and> prefix fetched result \<and>
        m_id ` set result = m_id ` set current \<union> m_id ` set fetched)"
proof (intro conjI allI impI)
  let ?byId = "fold (\<lambda>m. jm_set (m_id m) (digest m)) current []"
  have "jm_get ?byId (m_id m) = Some (digest m) \<longleftrightarrow>
      (\<exists>m' \<in> set current. m_id m' = m_id m \<and> digest m' = digest m)" for m
  proof
    assume "jm_get ?byId (m_id m) = Some (digest m)"
    then show "\<exists>m' \<in> set current. m_id m' = m_id m \<and> digest m' = digest m"
      unfolding jm_get_fold_digest
      by (cases "filter (\<lambda>x. m_id x = m_id m) (rev current)")
        (auto simp: filter_eq_Cons_iff rev_eq_append_conv)
  next
    assume "\<exists>m' \<in> set current. m_id m' = m_id m \<and> digest m' = digest m"
    then show "jm_get ?byId (m_id m) = Some (digest m)"
      using jm_get_fold_digest_distinct [OF assms(1)] by metis
  qed
  then show "reconcileConversationMessages current fetched = None \<longleftrightarrow>
       (\<forall>m \<in> set fetched. \<exists>m' \<in> set current. m_id m' = m_id m \<and> digest m' = digest m)"
    by (auto simp: reconcileConversationMessages_def Let_def list_ex_iff)
next
  fix result
  assume "reconcileConversationMessages current fetched = Some result"
  then have r: "result = fetched @ filter (\<lambda>m. m_id m \<notin> set (map m_id fetched)) current"
    by (auto simp: reconcileConversationMessages_def Let_def split: if_splits)
  then show "distinct (map m_id result)"
    using assms by (auto simp: distinct_map_filter) (metis image_eqI)
  show "prefix fetched result" using r by simp
  show "m_id ` set result = m_id ` set current \<union> m_id ` set fetched"
    unfolding r by (auto simp: image_iff)
qed

lemma reconcile_spec_witness:
  "\<exists>result. reconcileConversationMessages [sample_message] [sample_message\<lparr>m_acked := 2\<rparr>] = Some result
     \<and> distinct (map m_id result)"
proof -
  have a: "distinct (map m_id [sample_message])" "distinct (map m_id [sample_message\<lparr>m_acked := 2\<rparr>])"
    by simp_all
  have "\<not> (\<forall>m \<in> set [sample_message\<lparr>m_acked := 2\<rparr>].
      \<exists>m' \<in> set [sample_message]. m_id m' = m_id m \<and> digest m' = digest m)"
    by (simp add: digest_def sample_message_def)
  with reconcile_spec [OF a] obtain result where
    "reconcileConversationMessages [sample_message] [sample_message\<lparr>m_acked := 2\<rparr>] = Some result"
    by (cases "reconcileConversationMessages [sample_message] [sample_message\<lparr>m_acked := 2\<rparr>]") auto
  with reconcile_spec [OF a] show ?thesis by blast
qed

section \<open>Merging acknowledgements\<close>

definition pending_path_count :: "pending_ack \<Rightarrow> int" where
  "pending_path_count p = (case pa_paths p of None \<Rightarrow> -1 | Some ps \<Rightarrow> int (length ps))"

text \<open>Merging a buffered acknowledgement with a later one never lowers the count, ignores an
  update with a lower count altogether, and at an equal count never lowers the number of known
  paths.\<close>

theorem mergePendingAck_monotone:
  "pa_ackCount (mergePendingAck (Some ex) ackCount paths packetId) = max (pa_ackCount ex) ackCount \<and>
   (ackCount < pa_ackCount ex \<longrightarrow> mergePendingAck (Some ex) ackCount paths packetId = ex) \<and>
   (ackCount = pa_ackCount ex \<longrightarrow>
      pending_path_count ex \<le> pending_path_count (mergePendingAck (Some ex) ackCount paths packetId))"
  by (auto simp: mergePendingAck_def Let_def pending_path_count_def split: option.split)

lemma mergePendingAck_monotone_witness:
  "mergePendingAck (Some \<lparr>pa_ackCount = 3, pa_paths = None, pa_packetId = Val 4\<rparr>) 2 (Some []) Absent
     = \<lparr>pa_ackCount = 3, pa_paths = None, pa_packetId = Val 4\<rparr>"
  using mergePendingAck_monotone [of "\<lparr>pa_ackCount = 3, pa_paths = None, pa_packetId = Val 4\<rparr>" 2 "Some []" Absent]
  by simp

text \<open>An update that carries no packet id erases the one already known in exactly one case: the
  count is equal and the update brings at least as many paths. A higher or lower count, and an
  equal count with fewer or no paths, keep it. So merging the same update twice can differ from
  merging it once.\<close>

theorem mergePendingAck_loses_packetId:
  "(pa_packetId (mergePendingAck (Some ex) ackCount paths Absent) \<noteq> pa_packetId ex) \<longleftrightarrow>
     pa_packetId ex \<noteq> Absent \<and> ackCount = pa_ackCount ex \<and>
     (\<exists>ps. paths = Some ps \<and> pending_path_count ex \<le> int (length ps))"
  by (auto simp: mergePendingAck_def Let_def pending_path_count_def split: option.split)

section \<open>De-duplicating append\<close>

lemma unique_additions_spec:
  assumes "ids = set seenIds" and "ks = set seenContent"
  shows "distinct (map m_id (unique_additions seenIds seenContent ms)) \<and>
    distinct (map getMessageContentKey (unique_additions seenIds seenContent ms)) \<and>
    m_id ` set (unique_additions seenIds seenContent ms) \<inter> ids = {} \<and>
    getMessageContentKey ` set (unique_additions seenIds seenContent ms) \<inter> ks = {} \<and>
    set (unique_additions seenIds seenContent ms) \<subseteq> set ms \<and>
    (\<forall>m \<in> set ms. m_id m \<in> ids \<union> m_id ` set (unique_additions seenIds seenContent ms) \<or>
       getMessageContentKey m \<in> ks \<union> getMessageContentKey ` set (unique_additions seenIds seenContent ms))"
  using assms
proof (induction seenIds seenContent ms arbitrary: ids ks rule: unique_additions.induct)
  case (1 seenIds seenContent)
  then show ?case by simp
next
  case (2 seenIds seenContent m ms)
  show ?case
  proof (cases "m_id m \<in> set seenIds \<or> getMessageContentKey m \<in> set seenContent")
    case True
    with "2.IH"(1) [OF True "2.prems"] "2.prems" show ?thesis by auto
  next
    case False
    from "2.IH"(2) [OF False refl refl] show ?thesis
      using False "2.prems" by (simp, blast)
  qed
qed

text \<open>The de-duplicating append keeps the loaded messages in place and adds only incoming
  ones: if the loaded messages have pairwise different ids and content keys, so has the result,
  and every incoming message is represented in it by its id or its content key.\<close>

theorem appendUniqueMessages_spec:
  assumes "distinct (map m_id current)" and "distinct (map getMessageContentKey current)"
  shows "\<exists>additions. appendUniqueMessages current incoming = current @ additions \<and>
     set additions \<subseteq> set incoming \<and>
     distinct (map m_id (current @ additions)) \<and>
     distinct (map getMessageContentKey (current @ additions)) \<and>
     (\<forall>m \<in> set incoming. m_id m \<in> m_id ` set (current @ additions) \<or>
        getMessageContentKey m \<in> getMessageContentKey ` set (current @ additions))"
proof -
  let ?add = "unique_additions (js_set_of (map m_id current))
      (js_set_of (map getMessageContentKey current)) incoming"
  have eq: "appendUniqueMessages current incoming = current @ ?add"
    by (simp add: appendUniqueMessages_def Let_def)
  note spec = unique_additions_spec [OF refl refl, of "js_set_of (map m_id current)"
      "js_set_of (map getMessageContentKey current)" incoming]
  show ?thesis
    by (rule exI [of _ ?add]) (use eq spec assms in \<open>auto simp: image_Un\<close>)
qed

lemma appendUniqueMessages_spec_witness:
  "\<exists>additions. appendUniqueMessages [sample_message] [sample_message, sample_message\<lparr>m_id := 8, m_text := ''yo''\<rparr>]
     = [sample_message] @ additions \<and> distinct (map m_id ([sample_message] @ additions))"
  using appendUniqueMessages_spec [of "[sample_message]" "[sample_message, sample_message\<lparr>m_id := 8, m_text := ''yo''\<rparr>]"]
  by (simp, blast)

section \<open>Message identity separates messages\<close>

text \<open>Content keys tell messages apart: for two messages of the same type whose conversation
  keys have the same length and that add no sender suffix, equal content keys mean the same
  conversation, text and sender timestamp when both carry one, and the same message id when
  neither does.\<close>

theorem content_key_inject:
  assumes "m_type a = m_type b" and "length (m_conversation_key a) = length (m_conversation_key b)"
    and "sender_suffix a = []" and "sender_suffix b = []"
    and "getMessageContentKey a = getMessageContentKey b"
  shows "(\<forall>s t. m_sender_timestamp a = Some s \<longrightarrow> m_sender_timestamp b = Some t \<longrightarrow>
       m_conversation_key a = m_conversation_key b \<and> m_text a = m_text b \<and> s = t) \<and>
     (m_sender_timestamp a = None \<longrightarrow> m_sender_timestamp b = None \<longrightarrow> 0 \<le> m_id a \<longrightarrow> 0 \<le> m_id b \<longrightarrow>
       m_id a = m_id b)"
proof (intro conjI allI impI)
  have conv: "m_conversation_key a = m_conversation_key b"
    and rest: "m_text a @ ''-'' @ message_ts a = m_text b @ ''-'' @ message_ts b"
    using assms by (simp_all add: getMessageContentKey_def)
  fix s t
  assume "m_sender_timestamp a = Some s" "m_sender_timestamp b = Some t"
  with rest have "m_text a @ [CHR ''-''] @ show_nat s = m_text b @ [CHR ''-''] @ show_nat t"
    by (simp add: message_ts_def)
  from split_at_last [OF this] have "m_text a = m_text b \<and> s = t" by simp
  then show "m_conversation_key a = m_conversation_key b" "m_text a = m_text b" "s = t"
    using conv by simp_all
next
  have rest: "m_text a @ ''-'' @ message_ts a = m_text b @ ''-'' @ message_ts b"
    using assms by (simp add: getMessageContentKey_def)
  assume none: "m_sender_timestamp a = None" "m_sender_timestamp b = None" and ids: "0 \<le> m_id a" "0 \<le> m_id b"
  then have "(m_text a @ ''-r'' @ show_nat (m_received_at a)) @ [CHR ''-''] @ show_nat (nat (m_id a)) =
      (m_text b @ ''-r'' @ show_nat (m_received_at b)) @ [CHR ''-''] @ show_nat (nat (m_id b))"
    using rest by (simp add: message_ts_def show_int_def)
  from split_at_last [OF this] have "nat (m_id a) = nat (m_id b)" by simp
  with ids show "m_id a = m_id b" by linarith
qed

lemma content_key_inject_witness:
  "getMessageContentKey sample_message = getMessageContentKey (sample_message\<lparr>m_id := 9\<rparr>) \<and>
   m_text sample_message = m_text (sample_message\<lparr>m_id := 9\<rparr>)"
proof -
  have "getMessageContentKey sample_message = getMessageContentKey (sample_message\<lparr>m_id := 9\<rparr>)"
    by (simp add: getMessageContentKey_def message_ts_def sender_suffix_def sample_message_def)
  with content_key_inject [of sample_message "sample_message\<lparr>m_id := 9\<rparr>"] show ?thesis
    by (simp add: sender_suffix_def sample_message_def)
qed

end
