(* ===== verification/Contact_Avatar.thy ===== *)
theory Contact_Avatar
  imports App_Types "HOL-Library.Word"
begin

text \<open>
  The string hash and the avatar colours of \<^verbatim>\<open>utils/contactAvatar.ts\<close>. JavaScript's bitwise
  operators work on 32-bit two's complement integers, so the hash is kept as a \<^typ>\<open>32 word\<close>
  that is read as signed before \<^verbatim>\<open>Math.abs\<close>.
\<close>

unbundle bit_operations_syntax

definition hash_step :: "32 word \<Rightarrow> char \<Rightarrow> 32 word" where
  "hash_step hash c = push_bit 5 hash - hash + of_nat (of_char c)"

definition hash_word :: "string \<Rightarrow> 32 word" where
  "hash_word s = foldl hash_step 0 s"

definition hashString :: "string \<Rightarrow> int" where
  "hashString s = \<bar>sint (hash_word s)\<bar>"

text \<open>The signed shift \<^verbatim>\<open>x >> n\<close> of a number: conversion to a 32-bit integer, then an arithmetic
  shift; and \<^verbatim>\<open>%\<close>, which takes the sign of its left operand.\<close>

definition js_shr :: "int \<Rightarrow> nat \<Rightarrow> int" where
  "js_shr x n = sint (word_of_int x :: 32 word) div 2 ^ n"

definition js_rem :: "int \<Rightarrow> int \<Rightarrow> int" where
  "js_rem a b = sgn a * (\<bar>a\<bar> mod \<bar>b\<bar>)"

record avatar_color =
  av_hue :: int
  av_saturation :: int
  av_lightness :: int
  av_textColor :: string

definition getAvatarColor :: "string \<Rightarrow> avatar_color" where
  "getAvatarColor publicKey =
     (let hash = hashString publicKey;
          hue = js_rem hash 360;
          saturation = 50 + js_rem (js_shr hash 8) 30;
          lightness = 35 + js_rem (js_shr hash 16) 20
      in \<lparr> av_hue = hue, av_saturation = saturation, av_lightness = lightness,
           av_textColor = (if lightness < 45 then ''#ffffff'' else ''#000000'') \<rparr>)"

lemma hashString_range: "0 \<le> hashString s \<and> hashString s \<le> 2147483648"
proof -
  have "- (2 ^ 31) \<le> sint (hash_word s)" "sint (hash_word s) < 2 ^ 31"
    using sint_range_size [of "hash_word s"] by (auto simp: word_size)
  then show ?thesis by (simp add: hashString_def)
qed

lemma js_rem_pos: "0 \<le> a \<Longrightarrow> 0 < b \<Longrightarrow> 0 \<le> js_rem a b \<and> js_rem a b < b"
  by (cases "a = 0") (auto simp: js_rem_def sgn_if)

lemma js_shr_pos:
  assumes "0 \<le> x" and "x < 2147483648"
  shows "js_shr x n = x div 2 ^ n"
proof -
  have "sint (word_of_int x :: 32 word) = x"
    using assms by (simp add: sint_sbintrunc' signed_take_bit_int_eq_self)
  then show ?thesis by (simp add: js_shr_def)
qed

text \<open>Avatar colours stay in the ranges the code documents (hue below 360, saturation from 50
  to 80, lightness from 35 to 55) for every key but those that hash to the smallest 32-bit
  integer, whose absolute value the shift operators read as negative again.\<close>

theorem getAvatarColor_ranges:
  assumes "hashString key \<noteq> 2147483648"
  shows "0 \<le> av_hue (getAvatarColor key) \<and> av_hue (getAvatarColor key) < 360 \<and>
     50 \<le> av_saturation (getAvatarColor key) \<and> av_saturation (getAvatarColor key) < 80 \<and>
     35 \<le> av_lightness (getAvatarColor key) \<and> av_lightness (getAvatarColor key) < 55"
proof -
  have h: "0 \<le> hashString key" "hashString key < 2147483648"
    using hashString_range [of key] assms by auto
  have "0 \<le> js_rem (hashString key) 360 \<and> js_rem (hashString key) 360 < 360"
    "0 \<le> js_rem (hashString key div 256) 30 \<and> js_rem (hashString key div 256) 30 < 30"
    "0 \<le> js_rem (hashString key div 65536) 20 \<and> js_rem (hashString key div 65536) 20 < 20"
    using h by (auto intro!: js_rem_pos div_int_pos_iff [THEN iffD2] simp: pos_imp_zdiv_nonneg_iff)
  then show ?thesis using h by (simp add: getAvatarColor_def Let_def js_shr_pos)
qed

lemma getAvatarColor_ranges_witness:
  "av_hue (getAvatarColor ''ab'') < 360 \<and> 50 \<le> av_saturation (getAvatarColor ''ab'')"
proof -
  have "hashString ''ab'' = 3105" by (simp add: hashString_def hash_word_def hash_step_def)
  then have "hashString ''ab'' \<noteq> 2147483648" by simp
  from getAvatarColor_ranges [OF this] show ?thesis by simp
qed

text \<open>The exception is real: there is a 64-digit public key whose avatar gets saturation 42 and
  lightness 27, both below the documented ranges.\<close>

theorem getAvatarColor_out_of_range:
  "hashString ''1975bb019cf92bb719b8066968e0606c9f115870abbf4b542c8f341fcc2c62ba'' = 2147483648 \<and>
   av_saturation (getAvatarColor ''1975bb019cf92bb719b8066968e0606c9f115870abbf4b542c8f341fcc2c62ba'') = 42 \<and>
   av_lightness (getAvatarColor ''1975bb019cf92bb719b8066968e0606c9f115870abbf4b542c8f341fcc2c62ba'') = 27"
proof -
  have "hashString ''1975bb019cf92bb719b8066968e0606c9f115870abbf4b542c8f341fcc2c62ba'' = 2147483648"
    by (simp add: hashString_def hash_word_def hash_step_def)
  then show ?thesis by (simp add: getAvatarColor_def Let_def js_shr_def js_rem_def)
qed

end
