(* ===== verification/Visualizer_Utils.thy ===== *)
theory Visualizer_Utils
  imports App_Types Contact_Avatar "HOL-Library.Disjoint_Sets"
begin

text \<open>
  The data layer of the mesh visualizer (\<^verbatim>\<open>utils/visualizerUtils.ts\<close>): packet parsing over the
  decoder, packet and link keys, path compaction, and the traffic analysis that decides when an
  ambiguous repeater is split. \<^verbatim>\<open>Date.now()\<close> is a parameter \<open>now\<close>.
\<close>

section \<open>Data\<close>

datatype node_type = NT_self | NT_repeater | NT_client

datatype packet_label = L_AD | L_GT | L_DM | L_ACK | L_TR | L_RQ | L_RS | L_other

fun label_str :: "packet_label \<Rightarrow> string" where
  "label_str L_AD = ''AD''"
| "label_str L_GT = ''GT''"
| "label_str L_DM = ''DM''"
| "label_str L_ACK = ''ACK''"
| "label_str L_TR = ''TR''"
| "label_str L_RQ = ''RQ''"
| "label_str L_RS = ''RS''"
| "label_str L_other = ''?''"

record parsed_packet =
  pp_payloadType :: nat
  pp_messageHash :: "string option"
  pp_pathBytes :: "string list"
  pp_srcHash :: "string option"
  pp_dstHash :: "string option"
  pp_advertPubkey :: "string option"
  pp_groupTextSender :: "string option"
  pp_anonRequestPubkey :: "string option"

record traffic_observation =
  to_source :: string
  to_nextHop :: "string option"
  to_timestamp :: int

record repeater_traffic_data =
  rt_hopKey :: string
  rt_observations :: "traffic_observation list"

record repeater_split_analysis =
  sa_shouldSplit :: bool
  sa_disjointGroups :: "(string, string jsset) jsmap option"

record path_step =
  ps_nodeId :: "string option"
  ps_markHiddenLinkWhenOmitted :: bool
  ps_hiddenLabel :: "string option"

definition MIN_OBSERVATIONS_TO_SPLIT :: nat where "MIN_OBSERVATIONS_TO_SPLIT = 20"
definition MAX_TRAFFIC_OBSERVATIONS :: nat where "MAX_TRAFFIC_OBSERVATIONS = 200"
definition TRAFFIC_OBSERVATION_MAX_AGE_MS :: int where "TRAFFIC_OBSERVATION_MAX_AGE_MS = 30 * 60 * 1000"

section \<open>Hop tokens, packets and keys\<close>

definition normalizeHopToken :: "string option \<Rightarrow> string option" where
  "normalizeHopToken hop =
     (let normalized = (case hop of None \<Rightarrow> [] | Some h \<Rightarrow> to_lower (trim h))
      in if 0 < length normalized then Some normalized else None)"

definition buildAmbiguousRepeaterNodeId :: "string \<Rightarrow> string option \<Rightarrow> string" where
  "buildAmbiguousRepeaterNodeId hop nextHop =
     (case normalizeHopToken (Some hop) of
        None \<Rightarrow> ''?''
      | Some hopKey \<Rightarrow>
          (case normalizeHopToken nextHop of
             Some nextHopKey \<Rightarrow> ''?'' @ hopKey @ '':>'' @ nextHopKey
           | None \<Rightarrow> ''?'' @ hopKey))"

definition buildAmbiguousRepeaterLabel :: "string \<Rightarrow> string option \<Rightarrow> string" where
  "buildAmbiguousRepeaterLabel hop nextHop =
     (case normalizeHopToken (Some hop) of
        None \<Rightarrow> ''?''
      | Some hopKey \<Rightarrow>
          (case normalizeHopToken nextHop of
             Some nextHopKey \<Rightarrow> to_upper hopKey @ '':>'' @ to_upper nextHopKey
           | None \<Rightarrow> to_upper hopKey))"

definition parsePacket :: "decoder \<Rightarrow> string \<Rightarrow> parsed_packet option" where
  "parsePacket decode hexData =
     (case decode hexData of
        None \<Rightarrow> None
      | Some decoded \<Rightarrow>
          if \<not> dp_isValid decoded then None
          else
            (let payload = dp_payload decoded;
                 pt = dp_payloadType decoded;
                 traceHashes = (if pt = PT_Trace then Option.bind payload pl_pathHashes else None);
                 result =
                   \<lparr> pp_payloadType = pt,
                     pp_messageHash = or_null (Some (dp_messageHash decoded)),
                     pp_pathBytes = (case traceHashes of
                        Some hs \<Rightarrow> hs
                      | None \<Rightarrow> (case dp_path decoded of Some p \<Rightarrow> p | None \<Rightarrow> [])),
                     pp_srcHash = None, pp_dstHash = None, pp_advertPubkey = None,
                     pp_groupTextSender = None, pp_anonRequestPubkey = None \<rparr>
             in case payload of
                  None \<Rightarrow> Some result
                | Some p \<Rightarrow>
                    if pt = PT_TextMessage then
                      Some (result\<lparr> pp_srcHash := or_null (pl_sourceHash p),
                                    pp_dstHash := or_null (pl_destinationHash p) \<rparr>)
                    else if pt = PT_Advert then
                      Some (result\<lparr> pp_advertPubkey := or_null (pl_publicKey p) \<rparr>)
                    else if pt = PT_GroupText then
                      Some (result\<lparr> pp_groupTextSender := or_null (pl_decrypted_sender p) \<rparr>)
                    else if pt = PT_AnonRequest then
                      Some (result\<lparr> pp_anonRequestPubkey := or_null (pl_senderPublicKey p) \<rparr>)
                    else Some result))"

definition getPacketLabel :: "nat \<Rightarrow> packet_label" where
  "getPacketLabel pt =
     (if pt = PT_Advert then L_AD
      else if pt = PT_GroupText then L_GT
      else if pt = PT_TextMessage then L_DM
      else if pt = PT_Ack then L_ACK
      else if pt = PT_Trace then L_TR
      else if pt = PT_Request \<or> pt = PT_AnonRequest then L_RQ
      else if pt = PT_Response then L_RS
      else L_other)"

definition info_field :: "(decrypted_info \<Rightarrow> string option) \<Rightarrow> raw_packet \<Rightarrow> string option" where
  "info_field f packet = Option.bind (rp_decrypted_info packet) f"

definition generatePacketKey :: "parsed_packet \<Rightarrow> raw_packet \<Rightarrow> string" where
  "generatePacketKey parsed packet =
     (let contentHash = take 8 (or_else (pp_messageHash parsed)
            (pad_start 8 (CHR ''0'') (show_base 16 (nat (hashString (rp_data packet))))))
      in if pp_payloadType parsed = PT_Advert \<and> truthy (pp_advertPubkey parsed) then
           ''ad:'' @ take 12 (the (pp_advertPubkey parsed))
         else if pp_payloadType parsed = PT_GroupText then
           (let sender = or_else (pp_groupTextSender parsed) (or_else (info_field di_sender packet) ''?'');
                channel = or_else (info_field di_channel_name packet) ''?''
            in ''gt:'' @ channel @ '':'' @ sender @ '':'' @ contentHash)
         else if pp_payloadType parsed = PT_TextMessage then
           ''dm:'' @ or_else (pp_srcHash parsed) ''?'' @ '':'' @ or_else (pp_dstHash parsed) ''?'' @ '':'' @ contentHash
         else if pp_payloadType parsed = PT_AnonRequest \<and> truthy (pp_anonRequestPubkey parsed) then
           ''rq:'' @ take 12 (the (pp_anonRequestPubkey parsed)) @ '':'' @ contentHash
         else ''other:'' @ contentHash)"

definition buildLinkKey :: "string \<Rightarrow> string \<Rightarrow> string" where
  "buildLinkKey sourceId targetId = join ''->'' (sort [sourceId, targetId])"

definition getNodeType :: "contact option \<Rightarrow> node_type" where
  "getNodeType contact =
     (case contact of
        Some c \<Rightarrow> if ct_type c = CONTACT_TYPE_REPEATER then NT_repeater else NT_client
      | None \<Rightarrow> NT_client)"

section \<open>Paths\<close>

definition dedupeConsecutive :: "'a list \<Rightarrow> 'a list" where
  "dedupeConsecutive arr =
     map snd (filter (\<lambda>(i, item). i = 0 \<or> item \<noteq> arr ! (i - 1)) (enumerate 0 arr))"

record compact_state =
  cs_nodes :: "string list"
  cs_dashedLinkDetails :: "(string, string list) jsmap"
  cs_pendingHiddenLink :: bool
  cs_pendingHiddenLabels :: "string list"

definition compact_step :: "compact_state \<Rightarrow> path_step \<Rightarrow> compact_state" where
  "compact_step st step =
     (if truthy (ps_nodeId step) then
        (let nodeId = the (ps_nodeId step);
             previousNodeId = (if cs_nodes st \<noteq> [] then Some (last (cs_nodes st)) else None);
             key = buildLinkKey (the previousNodeId) nodeId;
             existing = coalesce (jm_get (cs_dashedLinkDetails st) key) [];
             dashed = (if truthy previousNodeId \<and> cs_pendingHiddenLink st \<and> previousNodeId \<noteq> Some nodeId
                       then jm_set key (fold js_add (cs_pendingHiddenLabels st) existing) (cs_dashedLinkDetails st)
                       else cs_dashedLinkDetails st)
         in \<lparr> cs_nodes = (if previousNodeId \<noteq> Some nodeId then cs_nodes st @ [nodeId] else cs_nodes st),
              cs_dashedLinkDetails = dashed,
              cs_pendingHiddenLink = False,
              cs_pendingHiddenLabels = [] \<rparr>)
      else if ps_markHiddenLinkWhenOmitted step \<and> cs_nodes st \<noteq> [] then
        st\<lparr> cs_pendingHiddenLink := True,
            cs_pendingHiddenLabels :=
              (if truthy (ps_hiddenLabel step) \<and> the (ps_hiddenLabel step) \<notin> set (cs_pendingHiddenLabels st)
               then cs_pendingHiddenLabels st @ [the (ps_hiddenLabel step)]
               else cs_pendingHiddenLabels st) \<rparr>
      else st)"

definition compact_init :: compact_state where
  "compact_init = \<lparr> cs_nodes = [], cs_dashedLinkDetails = [], cs_pendingHiddenLink = False,
                    cs_pendingHiddenLabels = [] \<rparr>"

definition compactPathSteps :: "path_step list \<Rightarrow> string list \<times> (string, string list) jsmap" where
  "compactPathSteps steps =
     (let st = foldl compact_step compact_init steps in (cs_nodes st, cs_dashedLinkDetails st))"

section \<open>Traffic analysis\<close>

definition hop_group :: "traffic_observation \<Rightarrow> string" where
  "hop_group obs = coalesce (to_nextHop obs) ''self''"

definition add_to_group :: "traffic_observation \<Rightarrow> (string, string jsset) jsmap \<Rightarrow> (string, string jsset) jsmap" where
  "add_to_group obs m =
     (let k = hop_group obs; m' = (if jm_has m k then m else jm_set k [] m)
      in jm_set k (js_add (to_source obs) (the (jm_get m' k))) m')"

definition add_next_hop :: "string \<Rightarrow> string \<Rightarrow> (string, string list) jsmap \<Rightarrow> (string, string list) jsmap" where
  "add_next_hop nextHop source m =
     (let m' = (if jm_has m source then m else jm_set source [] m)
      in jm_set source (the (jm_get m' source) @ [nextHop]) m')"

definition analyzeRepeaterTraffic :: "int \<Rightarrow> repeater_traffic_data \<Rightarrow> repeater_split_analysis" where
  "analyzeRepeaterTraffic now data =
     (let recent = filter (\<lambda>obs. now - to_timestamp obs < TRAFFIC_OBSERVATION_MAX_AGE_MS) (rt_observations data);
          byNextHop = fold add_to_group recent [];
          no = \<lparr> sa_shouldSplit = False, sa_disjointGroups = None \<rparr>
      in if length byNextHop \<le> 1 then no
         else
           (let allSources = fold (\<lambda>(nextHop, sources). fold (add_next_hop nextHop) sources) byNextHop []
            in if list_ex (\<lambda>(_, nextHops). 1 < length nextHops) allSources then no
               else if list_ex (\<lambda>(_, sources). length sources < MIN_OBSERVATIONS_TO_SPLIT) byNextHop then no
               else \<lparr> sa_shouldSplit = True, sa_disjointGroups = Some byNextHop \<rparr>))"

definition recordTrafficObservation ::
  "int \<Rightarrow> string \<Rightarrow> string \<Rightarrow> string option \<Rightarrow>
   (string, repeater_traffic_data) jsmap \<Rightarrow> (string, repeater_traffic_data) jsmap" where
  "recordTrafficObservation now hopKey source nextHop trafficData =
     (case normalizeHopToken (Some hopKey) of
        None \<Rightarrow> trafficData
      | Some normalizedHopKey \<Rightarrow>
          (let normalizedNextHop = normalizeHopToken nextHop;
               trafficData' = (if jm_has trafficData normalizedHopKey then trafficData
                  else jm_set normalizedHopKey \<lparr> rt_hopKey = normalizedHopKey, rt_observations = [] \<rparr> trafficData);
               data = the (jm_get trafficData' normalizedHopKey);
               obs1 = rt_observations data @
                  [\<lparr> to_source = source, to_nextHop = normalizedNextHop, to_timestamp = now \<rparr>];
               obs2 = filter (\<lambda>obs. now - to_timestamp obs < TRAFFIC_OBSERVATION_MAX_AGE_MS) obs1;
               obs3 = (if MAX_TRAFFIC_OBSERVATIONS < length obs2 then lastn MAX_TRAFFIC_OBSERVATIONS obs2 else obs2)
           in jm_set normalizedHopKey (data\<lparr> rt_observations := obs3 \<rparr>) trafficData'))"

section \<open>Link keys\<close>

lemma sort_pair: "sort [a, b] = (if a \<le> b then [a, b] else [b, a :: 'a :: linorder])"
  by simp

lemma buildLinkKey_eq: "buildLinkKey a b = (if a \<le> b then a @ ''->'' @ b else b @ ''->'' @ a)"
  by (simp add: buildLinkKey_def)

lemma buildLinkKey_sym: "buildLinkKey a b = buildLinkKey b a"
  by (auto simp: buildLinkKey_eq)

text \<open>A link key does not depend on the direction of the link, and node ids without a dash are
  recovered from it: two such keys are equal exactly when they join the same two nodes.\<close>

theorem buildLinkKey_inject:
  assumes "CHR ''-'' \<notin> set a" and "CHR ''-'' \<notin> set b" and "CHR ''-'' \<notin> set c" and "CHR ''-'' \<notin> set d"
  shows "buildLinkKey a b = buildLinkKey c d \<longleftrightarrow> {a, b} = {c, d}"
proof
  have split: "x = x' \<and> y = y'"
    if "x @ CHR ''-'' # CHR ''>'' # y = x' @ CHR ''-'' # CHR ''>'' # y'"
      "CHR ''-'' \<notin> set x" "CHR ''-'' \<notin> set x'" for x y x' y' :: string
    using split_at_first [of x "CHR ''-''" "''>'' @ y" x' "''>'' @ y'"] that by simp
  assume "buildLinkKey a b = buildLinkKey c d"
  then show "{a, b} = {c, d}"
    using assms by (auto simp: buildLinkKey_eq split: if_splits dest!: split)
next
  assume "{a, b} = {c, d}"
  then show "buildLinkKey a b = buildLinkKey c d"
    by (auto simp: doubleton_eq_iff buildLinkKey_sym)
qed

lemma buildLinkKey_inject_witness:
  "buildLinkKey ''self'' ''?32:>aa'' = buildLinkKey ''?32:>aa'' ''self''"
  using buildLinkKey_inject [of "''self''" "''?32:>aa''" "''?32:>aa''" "''self''"] by auto

section \<open>De-duplication of paths\<close>

lemma dedupe_aux:
  "map snd (filter (\<lambda>(i, item). item \<noteq> (p # arr) ! i) (enumerate 0 arr)) =
     tl (remdups_adj (p # arr))"
proof (induction arr arbitrary: p)
  case (Cons x arr)
  have "map snd (filter (\<lambda>(i, item). item \<noteq> (p # x # arr) ! i) (enumerate 1 arr)) =
      map snd (filter (\<lambda>(i, item). item \<noteq> (x # arr) ! i) (enumerate 0 arr))"
    unfolding One_nat_def enumerate_Suc_eq
    by (simp add: filter_map o_def case_prod_unfold)
  also have "\<dots> = tl (remdups_adj (x # arr))" by (rule Cons.IH)
  finally show ?case
    by (cases "x = p") (simp_all add: remdups_adj_Cons split: list.split)
qed simp

lemma dedupeConsecutive_remdups_adj: "dedupeConsecutive arr = remdups_adj arr"
proof (cases arr)
  case (Cons x xs)
  have "map snd (filter (\<lambda>(i, item). i = 0 \<or> item \<noteq> arr ! (i - 1)) (enumerate 1 xs)) =
      map snd (filter (\<lambda>(i, item). item \<noteq> arr ! i) (enumerate 0 xs))"
    unfolding One_nat_def enumerate_Suc_eq by (simp add: filter_map o_def case_prod_unfold)
  also have "\<dots> = tl (remdups_adj (x # xs))" unfolding Cons by (rule dedupe_aux)
  finally show ?thesis
    unfolding dedupeConsecutive_def using Cons
    by (simp add: remdups_adj_Cons split: list.split)
qed (simp add: dedupeConsecutive_def)

section \<open>Compaction of path steps\<close>

lemma remdups_adj_snoc:
  "remdups_adj (xs @ [x]) = (if xs \<noteq> [] \<and> last xs = x then remdups_adj xs else remdups_adj xs @ [x])"
proof (cases xs rule: rev_cases)
  case (snoc ys y)
  then show ?thesis by (simp add: remdups_adj_append_two)
qed simp

definition visible_ids :: "path_step list \<Rightarrow> string list" where
  "visible_ids steps = map (the \<circ> ps_nodeId) (filter (\<lambda>s. truthy (ps_nodeId s)) steps)"

lemma visible_ids_nonempty: "x \<in> set (visible_ids steps) \<Longrightarrow> x \<noteq> []"
  by (auto simp: visible_ids_def truthy_iff)

lemma compact_nodes: "cs_nodes (foldl compact_step compact_init steps) = remdups_adj (visible_ids steps)"
proof (induction steps rule: rev_induct)
  case (snoc s steps)
  then show ?case
    by (auto simp: compact_step_def visible_ids_def remdups_adj_snoc Let_def)
qed (simp add: compact_init_def visible_ids_def)

definition consecutive :: "'a list \<Rightarrow> 'a \<Rightarrow> 'a \<Rightarrow> bool" where
  "consecutive xs a b \<longleftrightarrow> (\<exists>us vs. xs = us @ a # b # vs)"

lemma consecutive_snocI: "consecutive xs a b \<Longrightarrow> consecutive (xs @ [x]) a b"
  unfolding consecutive_def by (metis append_Cons append_assoc)

lemma consecutive_last: "xs \<noteq> [] \<Longrightarrow> consecutive (xs @ [x]) (last xs) x"
  unfolding consecutive_def by (metis append_Cons append_Nil append_assoc append_butlast_last_id)

lemma compact_dashed_consecutive:
  "k \<in> set (jm_keys (cs_dashedLinkDetails (foldl compact_step compact_init steps))) \<Longrightarrow>
     \<exists>a b. k = buildLinkKey a b \<and> a \<noteq> b
       \<and> consecutive (cs_nodes (foldl compact_step compact_init steps)) a b"
proof (induction steps rule: rev_induct)
  case (snoc s steps)
  define st where "st = foldl compact_step compact_init steps"
  have IH: "\<exists>a b. k = buildLinkKey a b \<and> a \<noteq> b \<and> consecutive (cs_nodes st) a b"
    if "k \<in> set (jm_keys (cs_dashedLinkDetails st))"
    using snoc.IH that by (simp add: st_def)
  have prem: "k \<in> set (jm_keys (cs_dashedLinkDetails (compact_step st s)))"
    using snoc.prems by (simp add: st_def)
  have "\<exists>a b. k = buildLinkKey a b \<and> a \<noteq> b \<and> consecutive (cs_nodes (compact_step st s)) a b"
  proof (cases "k \<in> set (jm_keys (cs_dashedLinkDetails st))")
    case True
    then obtain a b where ab: "k = buildLinkKey a b" "a \<noteq> b" "consecutive (cs_nodes st) a b"
      using IH by blast
    then have "consecutive (cs_nodes (compact_step st s)) a b"
      by (auto simp: compact_step_def Let_def consecutive_snocI)
    with ab show ?thesis by blast
  next
    case False
    define x where "x = the (ps_nodeId s)"
    from False prem have s: "truthy (ps_nodeId s)" "cs_nodes st \<noteq> []" "last (cs_nodes st) \<noteq> x"
      "k = buildLinkKey (last (cs_nodes st)) x"
      by (auto simp: compact_step_def Let_def jsmap x_def split: if_splits)
    then have "cs_nodes (compact_step st s) = cs_nodes st @ [x]"
      by (simp add: compact_step_def Let_def x_def)
    with s consecutive_last [of "cs_nodes st" x] show ?thesis by metis
  qed
  then show ?case by (simp add: st_def)
qed (simp add: compact_init_def)

text \<open>The compacted path is the sequence of visible node ids with runs of the same node merged,
  so no two neighbours are equal, and every dashed link joins two consecutive nodes of that path.\<close>

theorem compactPathSteps_spec:
  "fst (compactPathSteps steps) = remdups_adj (visible_ids steps)
   \<and> distinct_adj (fst (compactPathSteps steps))
   \<and> (\<forall>k \<in> set (jm_keys (snd (compactPathSteps steps))).
        \<exists>a b. k = buildLinkKey a b \<and> a \<noteq> b \<and> consecutive (fst (compactPathSteps steps)) a b)"
proof -
  have "distinct_adj (remdups_adj (visible_ids steps))" by (rule distinct_adj_remdups_adj)
  then show ?thesis
    unfolding compactPathSteps_def Let_def fst_conv snd_conv
    using compact_dashed_consecutive [of _ steps] by (simp add: compact_nodes)
qed

lemma compactPathSteps_spec_witness:
  "distinct_adj (fst (compactPathSteps
      [\<lparr> ps_nodeId = Some ''aa'', ps_markHiddenLinkWhenOmitted = False, ps_hiddenLabel = None \<rparr>,
       \<lparr> ps_nodeId = Some ''aa'', ps_markHiddenLinkWhenOmitted = False, ps_hiddenLabel = None \<rparr>,
       \<lparr> ps_nodeId = Some ''self'', ps_markHiddenLinkWhenOmitted = False, ps_hiddenLabel = None \<rparr>]))"
  using compactPathSteps_spec by blast

lemma compact_step_dashed_mono:
  assumes "jm_get (cs_dashedLinkDetails st) k = Some ls"
  shows "\<exists>ls'. jm_get (cs_dashedLinkDetails (compact_step st s)) k = Some ls' \<and> set ls \<subseteq> set ls'"
  using assms by (auto simp: compact_step_def Let_def jsmap set_fold_js_add)

lemma compact_dashed_mono:
  "jm_get (cs_dashedLinkDetails st) k = Some ls \<Longrightarrow>
     \<exists>ls'. jm_get (cs_dashedLinkDetails (foldl compact_step st steps)) k = Some ls' \<and> set ls \<subseteq> set ls'"
proof (induction steps arbitrary: st ls)
  case (Cons s steps)
  from compact_step_dashed_mono [OF Cons.prems, of s] obtain ls1
    where 1: "jm_get (cs_dashedLinkDetails (compact_step st s)) k = Some ls1" "set ls \<subseteq> set ls1" by blast
  from Cons.IH [OF 1(1)] 1(2) show ?case by force
qed simp

definition hidden_labels :: "path_step list \<Rightarrow> string set" where
  "hidden_labels steps =
     {l. \<exists>s \<in> set steps. ps_markHiddenLinkWhenOmitted s \<and> truthy (ps_hiddenLabel s) \<and> ps_hiddenLabel s = Some l}"

lemma compact_hidden:
  "\<lbrakk> \<forall>s \<in> set hidden. \<not> truthy (ps_nodeId s); cs_nodes st \<noteq> [] \<rbrakk> \<Longrightarrow>
     (let st' = foldl compact_step st hidden
      in cs_nodes st' = cs_nodes st \<and> cs_dashedLinkDetails st' = cs_dashedLinkDetails st
         \<and> (cs_pendingHiddenLink st' \<longleftrightarrow>
              cs_pendingHiddenLink st \<or> (\<exists>s \<in> set hidden. ps_markHiddenLinkWhenOmitted s))
         \<and> set (cs_pendingHiddenLabels st') = set (cs_pendingHiddenLabels st) \<union> hidden_labels hidden)"
proof (induction hidden arbitrary: st)
  case (Cons s hidden)
  have nodes: "cs_nodes (compact_step st s) = cs_nodes st"
    using Cons.prems by (simp add: compact_step_def)
  have "set (cs_pendingHiddenLabels (compact_step st s)) = set (cs_pendingHiddenLabels st) \<union> hidden_labels [s]"
    using Cons.prems by (auto simp: compact_step_def hidden_labels_def truthy_iff)
  moreover have "hidden_labels (s # hidden) = hidden_labels [s] \<union> hidden_labels hidden"
    by (auto simp: hidden_labels_def)
  ultimately show ?case
    using Cons.IH [of "compact_step st s"] Cons.prems nodes
    by (auto simp: Let_def compact_step_def)
qed (simp add: hidden_labels_def)

text \<open>Where hops marked as hidden lie between two different visible nodes, the link between
  these nodes is dashed and carries the label of every such hop.\<close>

theorem compactPathSteps_hidden:
  assumes "ps_nodeId va = Some a" and "a \<noteq> []" and "ps_nodeId vb = Some b" and "b \<noteq> []" and "a \<noteq> b"
    and "\<forall>s \<in> set hidden. \<not> truthy (ps_nodeId s)"
    and "\<exists>s \<in> set hidden. ps_markHiddenLinkWhenOmitted s"
  shows "\<exists>ls. jm_get (snd (compactPathSteps (pre @ va # hidden @ vb # post))) (buildLinkKey a b) = Some ls
           \<and> hidden_labels hidden \<subseteq> set ls"
proof -
  define s1 where "s1 = foldl compact_step compact_init (pre @ [va])"
  define s2 where "s2 = foldl compact_step s1 hidden"
  define s3 where "s3 = compact_step s2 vb"
  have last1: "cs_nodes s1 \<noteq> [] \<and> last (cs_nodes s1) = a"
    unfolding s1_def compact_nodes
    using assms(1,2) by (auto simp: visible_ids_def remdups_adj_snoc last_remdups_adj)
  have h: "cs_nodes s2 = cs_nodes s1" "cs_pendingHiddenLink s2"
    "hidden_labels hidden \<subseteq> set (cs_pendingHiddenLabels s2)"
    using compact_hidden [OF assms(6), of s1] last1 assms(7) by (auto simp: s2_def Let_def)
  have "\<exists>ls. jm_get (cs_dashedLinkDetails s3) (buildLinkKey a b) = Some ls
      \<and> set (cs_pendingHiddenLabels s2) \<subseteq> set ls"
    using h(1,2) last1 assms(2-5) by (simp add: s3_def compact_step_def Let_def jsmap set_fold_js_add)
  then obtain ls where ls: "jm_get (cs_dashedLinkDetails s3) (buildLinkKey a b) = Some ls"
    "hidden_labels hidden \<subseteq> set ls"
    using h(3) by blast
  have "foldl compact_step compact_init (pre @ va # hidden @ vb # post) = foldl compact_step s3 post"
    by (simp add: s1_def s2_def s3_def)
  with compact_dashed_mono [OF ls(1), of post] ls(2) show ?thesis
    unfolding compactPathSteps_def Let_def by force
qed

lemma compactPathSteps_hidden_witness:
  "\<exists>ls. jm_get (snd (compactPathSteps
        ([] @ \<lparr> ps_nodeId = Some ''aa'', ps_markHiddenLinkWhenOmitted = False, ps_hiddenLabel = None \<rparr>
         # [\<lparr> ps_nodeId = None, ps_markHiddenLinkWhenOmitted = True, ps_hiddenLabel = Some ''32'' \<rparr>]
         @ \<lparr> ps_nodeId = Some ''self'', ps_markHiddenLinkWhenOmitted = False, ps_hiddenLabel = None \<rparr> # [])))
      (buildLinkKey ''aa'' ''self'') = Some ls
    \<and> hidden_labels [\<lparr> ps_nodeId = None, ps_markHiddenLinkWhenOmitted = True, ps_hiddenLabel = Some ''32'' \<rparr>]
        \<subseteq> set ls"
  by (rule compactPathSteps_hidden) simp_all

section \<open>Traffic analysis\<close>

definition recent_observations :: "int \<Rightarrow> repeater_traffic_data \<Rightarrow> traffic_observation set" where
  "recent_observations now data =
     {obs \<in> set (rt_observations data). now - to_timestamp obs < TRAFFIC_OBSERVATION_MAX_AGE_MS}"

definition group_sources :: "traffic_observation set \<Rightarrow> string \<Rightarrow> string set" where
  "group_sources obss k = to_source ` {obs \<in> obss. hop_group obs = k}"

lemma jm_get_add_to_group:
  "jm_get (add_to_group obs m) k =
     (if k = hop_group obs then Some (js_add (to_source obs) (coalesce (jm_get m k) [])) else jm_get m k)"
  by (auto simp: add_to_group_def Let_def jm_has_def jm_get_set)

lemma jm_wf_add_to_group: "jm_wf m \<Longrightarrow> jm_wf (add_to_group obs m)"
  by (simp add: add_to_group_def Let_def)

lemma jm_wf_groups: "jm_wf m \<Longrightarrow> jm_wf (fold add_to_group obs m)"
  by (induction obs arbitrary: m) (simp_all add: jm_wf_add_to_group)

lemma groups_get:
  "jm_get (fold add_to_group obs []) k =
     (if k \<in> hop_group ` set obs
      then Some (js_set_of (map to_source (filter (\<lambda>o'. hop_group o' = k) obs))) else None)"
proof (induction obs rule: rev_induct)
  case (snoc x xs)
  have "filter (\<lambda>o'. hop_group o' = hop_group x) xs = []" if "hop_group x \<notin> hop_group ` set xs"
    using that by (auto simp: filter_empty_conv rev_image_eqI)
  with snoc show ?case
    by (auto simp: jm_get_add_to_group js_set_of_def)
qed simp

lemma jm_get_add_next_hop:
  "jm_get (add_next_hop n s m) t =
     (if t = s then Some (coalesce (jm_get m s) [] @ [n]) else jm_get m t)"
  by (auto simp: add_next_hop_def Let_def jm_has_def jm_get_set)

lemma jm_wf_add_next_hop: "jm_wf m \<Longrightarrow> jm_wf (add_next_hop n s m)"
  by (simp add: add_next_hop_def Let_def)

lemma jm_get_add_next_hops:
  "distinct ss \<Longrightarrow> jm_get (fold (add_next_hop n) ss m) t =
     (if t \<in> set ss then Some (coalesce (jm_get m t) [] @ [n]) else jm_get m t)"
  by (induction ss arbitrary: m) (auto simp: jm_get_add_next_hop)

lemma jm_wf_add_next_hops: "jm_wf m \<Longrightarrow> jm_wf (fold (add_next_hop n) ss m)"
  by (induction ss arbitrary: m) (simp_all add: jm_wf_add_next_hop)

lemma all_sources_get:
  "\<forall>(k, ss) \<in> set G. distinct ss \<Longrightarrow>
     coalesce (jm_get (fold (\<lambda>(n, ss). fold (add_next_hop n) ss) G m) t) [] =
       coalesce (jm_get m t) [] @ map fst (filter (\<lambda>(k, ss). t \<in> set ss) G)"
proof (induction G arbitrary: m)
  case (Cons g G)
  then show ?case by (cases g) (simp add: jm_get_add_next_hops)
qed simp

lemma all_sources_wf: "jm_wf m \<Longrightarrow> jm_wf (fold (\<lambda>(n, ss). fold (add_next_hop n) ss) G m)"
  by (induction G arbitrary: m) (auto simp: jm_wf_add_next_hops)

lemma two_distinct:
  assumes "distinct xs"
  shows "1 < length xs \<longleftrightarrow> (\<exists>a \<in> set xs. \<exists>b \<in> set xs. a \<noteq> b)"
proof
  assume "1 < length xs"
  then obtain a b ys where "xs = a # b # ys"
    by (cases xs; cases "tl xs") auto
  with assms show "\<exists>a \<in> set xs. \<exists>b \<in> set xs. a \<noteq> b" by auto
next
  assume "\<exists>a \<in> set xs. \<exists>b \<in> set xs. a \<noteq> b"
  then show "1 < length xs"
    by (cases xs; cases "tl xs") auto
qed

lemma jm_ex_entry: "jm_wf m \<Longrightarrow> list_ex (\<lambda>(_, v). P v) m \<longleftrightarrow> (\<exists>k v. jm_get m k = Some v \<and> P v)"
  by (auto simp: list_ex_iff)

lemma shared_source_iff:
  assumes "jm_wf G" and "\<forall>(k, ss) \<in> set G. distinct ss"
  shows "list_ex (\<lambda>(_, ns). 1 < length ns) (fold (\<lambda>(n, ss). fold (add_next_hop n) ss) G []) \<longleftrightarrow>
    (\<exists>t k k' ss ss'. jm_get G k = Some ss \<and> jm_get G k' = Some ss' \<and> k \<noteq> k' \<and> t \<in> set ss \<and> t \<in> set ss')"
proof -
  let ?A = "fold (\<lambda>(n, ss). fold (add_next_hop n) ss) G []"
  have "list_ex (\<lambda>(_, ns). 1 < length ns) ?A \<longleftrightarrow> (\<exists>t. 1 < length (coalesce (jm_get ?A t) []))"
    unfolding jm_ex_entry [OF all_sources_wf [of "[]" G, simplified]]
    by (auto simp: coalesce_def split: option.splits)
  also have "\<dots> \<longleftrightarrow> (\<exists>t. 1 < length (map fst (filter (\<lambda>(k, ss). t \<in> set ss) G)))"
    by (simp only: all_sources_get [OF assms(2)]) simp
  also have "\<dots> \<longleftrightarrow> (\<exists>t k k' ss ss'. (k, ss) \<in> set G \<and> (k', ss') \<in> set G \<and> k \<noteq> k' \<and> t \<in> set ss \<and> t \<in> set ss')"
    using two_distinct [OF distinct_map_filter [OF assms(1)], of "\<lambda>(k, ss). _ \<in> set ss"]
    by (auto simp: image_iff Bex_def) (metis+)
  finally show ?thesis by (simp add: jm_get_entry [OF assms(1)])
qed

text \<open>An ambiguous repeater is split exactly when its recent observations lead to at least two
  next hops (the radio itself counting as one), every next hop has traffic of at least twenty
  sources, and no source is seen under two next hops.\<close>

theorem analyzeRepeaterTraffic_iff:
  "sa_shouldSplit (analyzeRepeaterTraffic now data) \<longleftrightarrow>
     (let R = recent_observations now data; hops = hop_group ` R
      in 2 \<le> card hops
         \<and> (\<forall>k \<in> hops. MIN_OBSERVATIONS_TO_SPLIT \<le> card (group_sources R k))
         \<and> disjoint_family_on (group_sources R) hops)"
proof -
  define recent where
    "recent = filter (\<lambda>obs. now - to_timestamp obs < TRAFFIC_OBSERVATION_MAX_AGE_MS) (rt_observations data)"
  define R where "R = recent_observations now data"
  have R: "R = set recent" by (auto simp: R_def recent_def recent_observations_def)
  define G where "G = fold add_to_group recent []"
  have wf: "jm_wf G" by (simp add: G_def jm_wf_groups)
  have get: "jm_get G k = (if k \<in> hop_group ` R
      then Some (js_set_of (map to_source (filter (\<lambda>o'. hop_group o' = k) recent))) else None)" for k
    by (simp add: G_def groups_get R)
  have srcs: "set ss = group_sources R k \<and> distinct ss \<and> length ss = card (group_sources R k)
      \<and> k \<in> hop_group ` R" if "jm_get G k = Some ss" for k ss
  proof -
    have "set ss = group_sources R k" "distinct ss" "k \<in> hop_group ` R"
      using that by (auto simp: get group_sources_def R split: if_splits)
    then show ?thesis using distinct_card [of ss] by simp
  qed
  have groups: "k \<in> hop_group ` R \<longleftrightarrow> (\<exists>ss. jm_get G k = Some ss)" for k
    by (simp add: get)
  have dist: "\<forall>(k, ss) \<in> set G. distinct ss"
  proof clarify
    fix k ss assume "(k, ss) \<in> set G"
    with srcs [of k ss] map_of_is_SomeI [OF wf] show "distinct ss" by blast
  qed
  have keys: "set (jm_keys G) = hop_group ` R"
    using groups map_of_eq_None_iff [of G] by (metis list.set_map not_None_eq subsetI subset_antisym)
  have card: "length G = card (hop_group ` R)"
    using distinct_card [OF wf] keys by simp
  have short: "list_ex (\<lambda>(_, ss). length ss < n) G \<longleftrightarrow> (\<exists>k \<in> hop_group ` R. card (group_sources R k) < n)" for n
  proof -
    have "list_ex (\<lambda>(_, ss). length ss < n) G \<longleftrightarrow> (\<exists>k ss. jm_get G k = Some ss \<and> length ss < n)"
      by (rule jm_ex_entry [OF wf])
    then show ?thesis using srcs groups by (metis (no_types, lifting))
  qed
  have shared: "list_ex (\<lambda>(_, ns). 1 < length ns) (fold (\<lambda>(n, ss). fold (add_next_hop n) ss) G []) \<longleftrightarrow>
      \<not> disjoint_family_on (group_sources R) (hop_group ` R)"
    (is "_ = ?R")
  proof -
    have "?R \<longleftrightarrow> (\<exists>k \<in> hop_group ` R. \<exists>k' \<in> hop_group ` R. k \<noteq> k' \<and> (\<exists>t. t \<in> group_sources R k \<and> t \<in> group_sources R k'))"
      by (auto simp: disjoint_family_on_def)
    also have "\<dots> \<longleftrightarrow> (\<exists>t k k' ss ss'. jm_get G k = Some ss \<and> jm_get G k' = Some ss' \<and> k \<noteq> k'
        \<and> t \<in> set ss \<and> t \<in> set ss')"
      unfolding Bex_def groups using srcs by blast
    finally show ?thesis unfolding shared_source_iff [OF wf dist] by simp
  qed
  show ?thesis
    unfolding analyzeRepeaterTraffic_def Let_def recent_def [symmetric] G_def [symmetric]
      R_def [symmetric] card shared short
    by (auto simp: not_less not_le Suc_le_eq)
qed

lemma analyzeRepeaterTraffic_iff_witness:
  "\<not> sa_shouldSplit (analyzeRepeaterTraffic 0 \<lparr> rt_hopKey = ''32'', rt_observations = [] \<rparr>)"
  unfolding analyzeRepeaterTraffic_iff by (simp add: Let_def recent_observations_def)

text \<open>Recording an observation stores it as the newest one of its hop, keeps at most two hundred
  observations there, none of them older than thirty minutes, and leaves every other hop as it is.\<close>

theorem recordTrafficObservation_spec:
  assumes "normalizeHopToken (Some hopKey) = Some k"
  shows "\<exists>d. jm_get (recordTrafficObservation now hopKey source nextHop td) k = Some d
     \<and> rt_observations d \<noteq> []
     \<and> last (rt_observations d) = \<lparr> to_source = source, to_nextHop = normalizeHopToken nextHop, to_timestamp = now \<rparr>
     \<and> length (rt_observations d) \<le> MAX_TRAFFIC_OBSERVATIONS
     \<and> recent_observations now d = set (rt_observations d)
     \<and> (\<forall>k'. k' \<noteq> k \<longrightarrow> jm_get (recordTrafficObservation now hopKey source nextHop td) k' = jm_get td k')"
proof -
  define new where "new = \<lparr> to_source = source, to_nextHop = normalizeHopToken nextHop, to_timestamp = now \<rparr>"
  define td' where "td' = (if jm_has td k then td else jm_set k \<lparr> rt_hopKey = k, rt_observations = [] \<rparr> td)"
  define d0 where "d0 = the (jm_get td' k)"
  define ok :: "traffic_observation \<Rightarrow> bool" where "ok = (\<lambda>obs. now - to_timestamp obs < TRAFFIC_OBSERVATION_MAX_AGE_MS)"
  define obs2 where "obs2 = filter ok (rt_observations d0) @ [new]"
  define obs3 where "obs3 = lastn MAX_TRAFFIC_OBSERVATIONS obs2"
  have "ok new" by (simp add: ok_def new_def TRAFFIC_OBSERVATION_MAX_AGE_MS_def)
  then have eq: "recordTrafficObservation now hopKey source nextHop td = jm_set k (d0\<lparr> rt_observations := obs3 \<rparr>) td'"
    using assms
    by (simp add: recordTrafficObservation_def Let_def td'_def d0_def obs2_def obs3_def ok_def new_def)
  have ne: "obs3 \<noteq> []" by (simp add: obs3_def obs2_def lastn_def MAX_TRAFFIC_OBSERVATIONS_def)
  have last: "last obs3 = new"
    using ne unfolding obs3_def obs2_def lastn_def by (metis last_drop drop_eq_Nil last_snoc not_le)
  have recent: "\<forall>x \<in> set obs3. ok x"
    using \<open>ok new\<close> set_lastn [of MAX_TRAFFIC_OBSERVATIONS obs2] by (auto simp: obs3_def obs2_def)
  have other: "jm_get td' k' = jm_get td k'" if "k' \<noteq> k" for k'
    using that by (simp add: td'_def jm_get_set)
  show ?thesis
    unfolding eq by (rule exI [of _ "d0\<lparr> rt_observations := obs3 \<rparr>"])
      (use ne last recent other in \<open>auto simp: jm_get_set new_def recent_observations_def ok_def obs3_def\<close>)
qed

lemma recordTrafficObservation_spec_witness:
  "\<exists>d. jm_get (recordTrafficObservation 5 '' 3A'' ''aa'' None []) ''3a'' = Some d
     \<and> last (rt_observations d) = \<lparr> to_source = ''aa'', to_nextHop = normalizeHopToken None, to_timestamp = 5 \<rparr>"
proof -
  have "normalizeHopToken (Some '' 3A'') = Some ''3a''" by code_simp
  from recordTrafficObservation_spec [OF this, of 5 "''aa''" None "[]"] show ?thesis by blast
qed

end
