(* ===== verification/Packet_Network.thy ===== *)
theory Packet_Network
  imports Visualizer_Utils
begin

text \<open>
  The packet network (\<^verbatim>\<open>networkGraph/packetNetworkGraph.ts\<close>): the graph of nodes, links,
  neighbours and observed paths that the visualizer keeps, how a packet is ingested, how the graph
  is projected under the visibility options and how it is pruned.

  The state is a record; an operation that mutates it returns the new one. \<^verbatim>\<open>Date.now()\<close> and
  \<^verbatim>\<open>String.localeCompare\<close> are parameters (\<open>now\<close>, \<open>lc\<close>), one reading of the clock per call. The
  indexes of the context are association lists, as the \<^verbatim>\<open>Map\<close>s of the source.
\<close>

section \<open>Data\<close>

record contact_index =
  ci_byPrefix12 :: "(string, contact) jsmap"
  ci_byName :: "(string, contact) jsmap"
  ci_byPrefix :: "(string, contact list) jsmap"

record packet_network_context =
  nc_byRepeater :: "(string, contact_advert_path list) jsmap"
  nc_contactIndex :: contact_index
  nc_myPrefix :: "string option"
  nc_splitAmbiguousByTraffic :: bool
  nc_useAdvertPathHints :: bool

record visibility_options =
  vo_showAmbiguousNodes :: bool
  vo_showAmbiguousPaths :: bool
  vo_collapseLikelyKnownSiblingRepeaters :: bool

record packet_network_node =
  pn_id :: string
  pn_name :: "string option"
  pn_type :: node_type
  pn_isAmbiguous :: bool
  pn_lastActivity :: int
  pn_lastActivityReason :: "string option"
  pn_lastSeen :: "int opt"
  pn_probableIdentity :: "string opt"
  pn_probableIdentityNodeId :: "string opt"
  pn_ambiguousNames :: "string list option"

record packet_network_link =
  pl_lastActivity :: int
  pl_sourceId :: string
  pl_targetId :: string

record projected_link = packet_network_link +
  pj_hasDirectObservation :: bool
  pj_hasHiddenIntermediate :: bool
  pj_hiddenHopLabels :: "string list"

record network_observation =
  no_activityAtMs :: int
  no_nodes :: "string list"

record packet_network_state =
  ns_links :: "(string, packet_network_link) jsmap"
  ns_neighborIds :: "(string, string jsset) jsmap"
  ns_nodes :: "(string, packet_network_node) jsmap"
  ns_observations :: "network_observation list"
  ns_trafficPatterns :: "(string, repeater_traffic_data) jsmap"

record ingest_result =
  ir_activityAtMs :: int
  ir_canonicalPath :: "string list"
  ir_label :: packet_label
  ir_parsed :: parsed_packet

record network_projection =
  pr_links :: "(string, projected_link) jsmap"
  pr_nodes :: "(string, packet_network_node) jsmap"
  pr_renderedNodeIds :: "string jsset"

definition normalizePacketTimestampMs :: "int \<Rightarrow> int \<Rightarrow> int" where
  "normalizePacketTimestampMs now timestamp =
     (if timestamp \<le> 0 then now
      else if timestamp > 1000000000000 then timestamp else timestamp * 1000)"

section \<open>The context\<close>

definition key12 :: "string \<Rightarrow> string" where
  "key12 public_key = to_lower (take 12 public_key)"

definition push_prefix :: "contact \<Rightarrow> string \<Rightarrow> (string, contact list) jsmap \<Rightarrow> (string, contact list) jsmap" where
  "push_prefix contact pfx m =
     (case jm_get m pfx of
        Some matches \<Rightarrow> jm_set pfx (matches @ [contact]) m
      | None \<Rightarrow> jm_set pfx [contact] m)"

definition index_contact :: "contact \<Rightarrow> contact_index \<Rightarrow> contact_index" where
  "index_contact contact ci =
     (let prefix12 = key12 (ct_public_key contact)
      in \<lparr> ci_byPrefix12 = jm_set prefix12 contact (ci_byPrefix12 ci),
           ci_byName = (if truthy (ct_name contact) \<and> \<not> jm_has (ci_byName ci) (the (ct_name contact))
                        then jm_set (the (ct_name contact)) contact (ci_byName ci) else ci_byName ci),
           ci_byPrefix = fold (\<lambda>len. push_prefix contact (take len prefix12)) [1..<13] (ci_byPrefix ci) \<rparr>)"

definition buildPacketNetworkContext ::
  "radio_config option \<Rightarrow> contact list \<Rightarrow> contact_advert_path_summary list \<Rightarrow> bool \<Rightarrow> bool \<Rightarrow> packet_network_context" where
  "buildPacketNetworkContext config contacts repeaterAdvertPaths splitAmbiguousByTraffic useAdvertPathHints =
     \<lparr> nc_byRepeater = fold (\<lambda>summary. jm_set (key12 (as_public_key summary)) (as_paths summary)) repeaterAdvertPaths [],
       nc_contactIndex = fold index_contact contacts \<lparr> ci_byPrefix12 = [], ci_byName = [], ci_byPrefix = [] \<rparr>,
       nc_myPrefix = or_null (map_option (\<lambda>c. key12 (rc_public_key c)) config),
       nc_splitAmbiguousByTraffic = splitAmbiguousByTraffic,
       nc_useAdvertPathHints = useAdvertPathHints \<rparr>"

section \<open>The state\<close>

definition self_node :: "int \<Rightarrow> string \<Rightarrow> packet_network_node" where
  "self_node now selfName =
     \<lparr> pn_id = ''self'', pn_name = Some selfName, pn_type = NT_self, pn_isAmbiguous = False,
       pn_lastActivity = now, pn_lastActivityReason = None, pn_lastSeen = Absent,
       pn_probableIdentity = Absent, pn_probableIdentityNodeId = Absent, pn_ambiguousNames = None \<rparr>"

definition createPacketNetworkState :: "int \<Rightarrow> string \<Rightarrow> packet_network_state" where
  "createPacketNetworkState now selfName =
     \<lparr> ns_links = [], ns_neighborIds = [], ns_nodes = [(''self'', self_node now selfName)],
       ns_observations = [], ns_trafficPatterns = [] \<rparr>"

definition ensureSelfNode :: "int \<Rightarrow> string \<Rightarrow> packet_network_state \<Rightarrow> packet_network_state" where
  "ensureSelfNode now selfName st =
     (case jm_get (ns_nodes st) ''self'' of
        Some existing \<Rightarrow> st\<lparr> ns_nodes := jm_set ''self'' (existing\<lparr> pn_name := Some selfName \<rparr>) (ns_nodes st) \<rparr>
      | None \<Rightarrow> st\<lparr> ns_nodes := jm_set ''self'' (self_node now selfName) (ns_nodes st) \<rparr>)"

definition clearPacketNetworkState :: "int \<Rightarrow> string \<Rightarrow> packet_network_state \<Rightarrow> packet_network_state" where
  "clearPacketNetworkState now selfName st =
     (let selfNode = jm_get (ns_nodes st) ''self'';
          nodes = jm_set ''self'' ((self_node now selfName)\<lparr> pn_lastSeen := Null \<rparr>) [];
          nodes' = (if truthy (Option.bind selfNode pn_name) \<and> Option.bind selfNode pn_name \<noteq> Some selfName
                    then jm_set ''self'' ((the (jm_get nodes ''self''))\<lparr> pn_name := Some selfName \<rparr>) nodes
                    else nodes)
      in \<lparr> ns_links = [], ns_neighborIds = [], ns_nodes = nodes', ns_observations = [], ns_trafficPatterns = [] \<rparr>)"

record node_update =
  nu_activityAtMs :: int
  nu_ambiguousNames :: "string list option"
  nu_id :: string
  nu_isAmbiguous :: bool
  nu_lastSeen :: "int opt"
  nu_name :: "string option"
  nu_probableIdentity :: "string opt"
  nu_probableIdentityNodeId :: "string opt"
  nu_type :: node_type

definition update_node :: "node_update \<Rightarrow> packet_network_node \<Rightarrow> packet_network_node" where
  "update_node u existing =
     existing\<lparr> pn_lastActivity := max (pn_lastActivity existing) (nu_activityAtMs u),
       pn_name := (if truthy (nu_name u) then nu_name u else pn_name existing),
       pn_probableIdentity := spread_field (pn_probableIdentity existing) (nu_probableIdentity u),
       pn_probableIdentityNodeId := spread_field (pn_probableIdentityNodeId existing) (nu_probableIdentityNodeId u),
       pn_ambiguousNames := (if nu_ambiguousNames u \<noteq> None then nu_ambiguousNames u else pn_ambiguousNames existing),
       pn_lastSeen := spread_field (pn_lastSeen existing) (nu_lastSeen u) \<rparr>"

definition new_node :: "node_update \<Rightarrow> packet_network_node" where
  "new_node u =
     \<lparr> pn_id = nu_id u, pn_name = nu_name u, pn_type = nu_type u, pn_isAmbiguous = nu_isAmbiguous u,
       pn_lastActivity = nu_activityAtMs u, pn_lastActivityReason = None, pn_lastSeen = nu_lastSeen u,
       pn_probableIdentity = nu_probableIdentity u, pn_probableIdentityNodeId = nu_probableIdentityNodeId u,
       pn_ambiguousNames = nu_ambiguousNames u \<rparr>"

definition addOrUpdateNode :: "node_update \<Rightarrow> packet_network_state \<Rightarrow> packet_network_state" where
  "addOrUpdateNode u st =
     (case jm_get (ns_nodes st) (nu_id u) of
        Some existing \<Rightarrow> st\<lparr> ns_nodes := jm_set (nu_id u) (update_node u existing) (ns_nodes st) \<rparr>
      | None \<Rightarrow> st\<lparr> ns_nodes := jm_set (nu_id u) (new_node u) (ns_nodes st) \<rparr>)"

definition addCanonicalLink :: "string \<Rightarrow> string \<Rightarrow> int \<Rightarrow> packet_network_state \<Rightarrow> packet_network_state" where
  "addCanonicalLink sourceId targetId activityAtMs st =
     (let key = buildLinkKey sourceId targetId
      in case jm_get (ns_links st) key of
           Some existing \<Rightarrow>
             st\<lparr> ns_links := jm_set key (existing\<lparr> pl_lastActivity := max (pl_lastActivity existing) activityAtMs \<rparr>)
                               (ns_links st) \<rparr>
         | None \<Rightarrow>
             st\<lparr> ns_links := jm_set key \<lparr> pl_lastActivity = activityAtMs, pl_sourceId = sourceId, pl_targetId = targetId \<rparr>
                               (ns_links st) \<rparr>)"

definition add_neighbor :: "string \<Rightarrow> string \<Rightarrow> (string, string jsset) jsmap \<Rightarrow> (string, string jsset) jsmap" where
  "add_neighbor a b m = jm_set a (js_add b (coalesce (jm_get m a) [])) m"

definition upsertNeighbor :: "string \<Rightarrow> string \<Rightarrow> packet_network_state \<Rightarrow> packet_network_state" where
  "upsertNeighbor sourceId targetId st =
     st\<lparr> ns_neighborIds := add_neighbor targetId sourceId (add_neighbor sourceId targetId (ns_neighborIds st)) \<rparr>"

section \<open>Resolving the nodes of a packet\<close>

record advert_score =
  sc_candidate :: contact
  sc_matchScore :: nat
  sc_totalScore :: nat

definition match_score :: "packet_network_context \<Rightarrow> string option \<Rightarrow> contact \<Rightarrow> nat" where
  "match_score context nextHop candidate =
     (\<Sum>path \<leftarrow> coalesce (jm_get (nc_byRepeater context) (key12 (ct_public_key candidate))) [].
        if map_option to_lower (ap_next_hop path) = nextHop then ap_heard_count path else 0)"

definition total_score :: "packet_network_context \<Rightarrow> contact \<Rightarrow> nat" where
  "total_score context candidate =
     (\<Sum>path \<leftarrow> coalesce (jm_get (nc_byRepeater context) (key12 (ct_public_key candidate))) []. ap_heard_count path)"

definition score_before :: "(string \<Rightarrow> string \<Rightarrow> int) \<Rightarrow> advert_score \<Rightarrow> advert_score \<Rightarrow> bool" where
  "score_before lc a b \<longleftrightarrow>
     (if sc_matchScore b \<noteq> sc_matchScore a then sc_matchScore b < sc_matchScore a
      else if sc_totalScore b \<noteq> sc_totalScore a then sc_totalScore b < sc_totalScore a
      else lc (ct_public_key (sc_candidate a)) (ct_public_key (sc_candidate b)) \<le> 0)"

definition pickLikelyRepeaterByAdvertPath ::
  "(string \<Rightarrow> string \<Rightarrow> int) \<Rightarrow> packet_network_context \<Rightarrow> contact list \<Rightarrow> string option \<Rightarrow> contact option" where
  "pickLikelyRepeaterByAdvertPath lc context candidates nextPrefix =
     (let nextHop = map_option to_lower nextPrefix;
          scored = sort_by (score_before lc)
            (filter (\<lambda>entry. 0 < sc_totalScore entry)
              (map (\<lambda>candidate. \<lparr> sc_candidate = candidate,
                     sc_matchScore = match_score context nextHop candidate,
                     sc_totalScore = total_score context candidate \<rparr>) candidates))
      in case scored of
           [] \<Rightarrow> None
         | best # rest \<Rightarrow>
             if sc_matchScore best < 2 then None
             else (case rest of
                     second # _ \<Rightarrow>
                       if sc_matchScore best < sc_matchScore second * 2 then None else Some (sc_candidate best)
                   | [] \<Rightarrow> Some (sc_candidate best)))"

datatype node_source = By_prefix string | By_pubkey string | By_name string

record traffic_context =
  tc_packetSource :: "string option"
  tc_nextPrefix :: "string option"

definition null_or_value :: "'a option \<Rightarrow> 'a opt" where
  "null_or_value x = (case x of None \<Rightarrow> Null | Some y \<Rightarrow> Val y)"

definition contact_update :: "contact \<Rightarrow> int \<Rightarrow> node_update" where
  "contact_update contact activityAtMs =
     \<lparr> nu_activityAtMs = activityAtMs, nu_ambiguousNames = None, nu_id = key12 (ct_public_key contact),
       nu_isAmbiguous = False, nu_lastSeen = null_or_value (ct_last_seen contact), nu_name = ct_name contact,
       nu_probableIdentity = Absent, nu_probableIdentityNodeId = Absent, nu_type = getNodeType (Some contact) \<rparr>"

definition is_me :: "packet_network_context \<Rightarrow> string \<Rightarrow> bool" where
  "is_me context nodeId \<longleftrightarrow> truthy (nc_myPrefix context) \<and> nc_myPrefix context = Some nodeId"

definition resolve_known ::
  "packet_network_context \<Rightarrow> contact \<Rightarrow> int \<Rightarrow> packet_network_state \<Rightarrow> packet_network_state \<times> string option" where
  "resolve_known context contact activityAtMs st =
     (let nodeId = key12 (ct_public_key contact)
      in if is_me context nodeId then (st, Some ''self'')
         else (addOrUpdateNode (contact_update contact activityAtMs) st, Some nodeId))"

definition latest_seen :: "contact list \<Rightarrow> int option" where
  "latest_seen cs =
     foldl (\<lambda>mx c. case ct_last_seen c of
              Some t \<Rightarrow> if t \<noteq> 0 \<and> (mx = None \<or> mx = Some 0 \<or> the mx < t) then Some t else mx
            | None \<Rightarrow> mx) None cs"

definition short_name :: "contact \<Rightarrow> string" where
  "short_name c = or_else (ct_name c) (take 8 (ct_public_key c))"

definition split_by_traffic ::
  "int \<Rightarrow> string \<Rightarrow> traffic_context \<Rightarrow> packet_network_state \<Rightarrow> packet_network_state \<times> string option" where
  "split_by_traffic now lookupValue trafficContext st =
     (let normalizedNext = map_option to_lower (tc_nextPrefix trafficContext);
          traffic = (if truthy (tc_packetSource trafficContext)
                     then recordTrafficObservation now lookupValue (the (tc_packetSource trafficContext))
                            normalizedNext (ns_trafficPatterns st)
                     else ns_trafficPatterns st)
      in (st\<lparr> ns_trafficPatterns := traffic \<rparr>,
          case jm_get traffic lookupValue of
            Some trafficData \<Rightarrow>
              if sa_shouldSplit (analyzeRepeaterTraffic now trafficData) \<and> truthy normalizedNext
              then normalizedNext else None
          | None \<Rightarrow> None))"

definition resolve_ambiguous ::
  "(string \<Rightarrow> string \<Rightarrow> int) \<Rightarrow> int \<Rightarrow> packet_network_context \<Rightarrow> string \<Rightarrow> contact list \<Rightarrow> bool \<Rightarrow> int \<Rightarrow>
   traffic_context option \<Rightarrow> packet_network_state \<Rightarrow> packet_network_state \<times> string option" where
  "resolve_ambiguous lc now context lookupValue filtered isRepeater activityAtMs trafficContext st =
     (let names = map short_name filtered;
          lastSeen = latest_seen filtered;
          likely = (if nc_useAdvertPathHints context \<and> isRepeater \<and> trafficContext \<noteq> None
                    then pickLikelyRepeaterByAdvertPath lc context filtered (tc_nextPrefix (the trafficContext))
                    else None);
          likelyName = map_option (\<lambda>l. or_else (ct_name l) (to_upper (take 12 (ct_public_key l)))) likely;
          ambiguousNames = (case likely of
              Some l \<Rightarrow> Some (map short_name (filter (\<lambda>c. ct_public_key c \<noteq> ct_public_key l) filtered))
            | None \<Rightarrow> (if names \<noteq> [] then Some names else None));
          (st1, splitNext) = (if nc_splitAmbiguousByTraffic context \<and> isRepeater \<and> trafficContext \<noteq> None
                              then split_by_traffic now lookupValue (the trafficContext) st else (st, None));
          nodeId = buildAmbiguousRepeaterNodeId lookupValue splitNext;
          displayName = (case likelyName of
              Some n \<Rightarrow> if splitNext \<noteq> None \<and> n = [] then buildAmbiguousRepeaterLabel lookupValue splitNext else n
            | None \<Rightarrow> buildAmbiguousRepeaterLabel lookupValue splitNext)
      in (addOrUpdateNode
            \<lparr> nu_activityAtMs = activityAtMs, nu_ambiguousNames = ambiguousNames, nu_id = nodeId,
              nu_isAmbiguous = True, nu_lastSeen = null_or_value lastSeen, nu_name = Some displayName,
              nu_probableIdentity = null_or_value likelyName,
              nu_probableIdentityNodeId = null_or_value (map_option (\<lambda>l. key12 (ct_public_key l)) likely),
              nu_type = (if isRepeater then NT_repeater else NT_client) \<rparr> st1,
          Some nodeId))"

definition resolveNode ::
  "(string \<Rightarrow> string \<Rightarrow> int) \<Rightarrow> int \<Rightarrow> packet_network_context \<Rightarrow> node_source \<Rightarrow> bool \<Rightarrow> bool \<Rightarrow> int \<Rightarrow>
   traffic_context option \<Rightarrow> packet_network_state \<Rightarrow> packet_network_state \<times> string option" where
  "resolveNode lc now context source isRepeater showAmbiguous activityAtMs trafficContext st =
     (case source of
        By_pubkey value \<Rightarrow>
          if length value < 12 then (st, None)
          else
            (let nodeId = key12 value
             in if is_me context nodeId then (st, Some ''self'')
                else
                  (let contact = jm_get (ci_byPrefix12 (nc_contactIndex context)) nodeId
                   in (addOrUpdateNode
                         \<lparr> nu_activityAtMs = activityAtMs, nu_ambiguousNames = None, nu_id = nodeId,
                           nu_isAmbiguous = False,
                           nu_lastSeen = (case contact of None \<Rightarrow> Absent | Some c \<Rightarrow> null_or_value (ct_last_seen c)),
                           nu_name = or_null (Option.bind contact ct_name),
                           nu_probableIdentity = Absent, nu_probableIdentityNodeId = Absent,
                           nu_type = getNodeType contact \<rparr> st,
                       Some nodeId)))
      | By_name value \<Rightarrow>
          (case jm_get (ci_byName (nc_contactIndex context)) value of
             Some contact \<Rightarrow> resolve_known context contact activityAtMs st
           | None \<Rightarrow>
               (let nodeId = ''name:'' @ value
                in (addOrUpdateNode
                      \<lparr> nu_activityAtMs = activityAtMs, nu_ambiguousNames = None, nu_id = nodeId,
                        nu_isAmbiguous = False, nu_lastSeen = Absent, nu_name = Some value,
                        nu_probableIdentity = Absent, nu_probableIdentityNodeId = Absent,
                        nu_type = NT_client \<rparr> st,
                    Some nodeId)))
      | By_prefix value \<Rightarrow>
          (let lookupValue = to_lower value;
               matches = coalesce (jm_get (ci_byPrefix (nc_contactIndex context)) lookupValue) []
           in case matches of
                [contact] \<Rightarrow> resolve_known context contact activityAtMs st
              | _ \<Rightarrow>
                  if \<not> showAmbiguous then (st, None)
                  else
                    (let filtered = filter (\<lambda>c. (ct_type c = CONTACT_TYPE_REPEATER) = isRepeater) matches
                     in case filtered of
                          [only] \<Rightarrow> (addOrUpdateNode (contact_update only activityAtMs) st,
                                     Some (key12 (ct_public_key only)))
                        | _ \<Rightarrow>
                            if filtered = [] \<and> \<not> isRepeater then (st, None)
                            else resolve_ambiguous lc now context lookupValue filtered isRepeater
                                   activityAtMs trafficContext st)))"

section \<open>Ingesting a packet\<close>

definition push_node :: "packet_network_state \<times> string option \<Rightarrow> string list \<Rightarrow> packet_network_state \<times> string list" where
  "push_node r path = (fst r, if truthy (snd r) then path @ [the (snd r)] else path)"

definition resolve_packet_source ::
  "(string \<Rightarrow> string \<Rightarrow> int) \<Rightarrow> int \<Rightarrow> packet_network_context \<Rightarrow> parsed_packet \<Rightarrow> raw_packet \<Rightarrow> int \<Rightarrow>
   packet_network_state \<Rightarrow> packet_network_state \<times> string option" where
  "resolve_packet_source lc now context parsed packet activityAtMs st =
     (let resolve = (\<lambda>src showAmbiguous. resolveNode lc now context src False showAmbiguous activityAtMs None st)
      in if pp_payloadType parsed = PT_Advert \<and> truthy (pp_advertPubkey parsed) then
           resolve (By_pubkey (the (pp_advertPubkey parsed))) False
         else if pp_payloadType parsed = PT_AnonRequest \<and> truthy (pp_anonRequestPubkey parsed) then
           resolve (By_pubkey (the (pp_anonRequestPubkey parsed))) False
         else if pp_payloadType parsed = PT_TextMessage \<and> truthy (pp_srcHash parsed) then
           (if is_me context (to_lower (the (pp_srcHash parsed))) then (st, Some ''self'')
            else resolve (By_prefix (the (pp_srcHash parsed))) True)
         else if pp_payloadType parsed = PT_GroupText then
           (let senderName = (if truthy (pp_groupTextSender parsed) then pp_groupTextSender parsed
                              else info_field di_sender packet)
            in if truthy senderName then resolve (By_name (the senderName)) False else (st, None))
         else (st, None))"

fun resolve_hops ::
  "(string \<Rightarrow> string \<Rightarrow> int) \<Rightarrow> int \<Rightarrow> packet_network_context \<Rightarrow> int \<Rightarrow> string option \<Rightarrow> string list \<Rightarrow>
   packet_network_state \<Rightarrow> string list \<Rightarrow> packet_network_state \<times> string list" where
  "resolve_hops lc now context activityAtMs packetSource [] st path = (st, path)"
| "resolve_hops lc now context activityAtMs packetSource (hop # hops) st path =
     (let (st', path') = push_node
            (resolveNode lc now context (By_prefix hop) True True activityAtMs
               (Some \<lparr> tc_packetSource = packetSource,
                       tc_nextPrefix = or_null (case hops of [] \<Rightarrow> None | h # _ \<Rightarrow> Some h) \<rparr>) st) path
      in resolve_hops lc now context activityAtMs packetSource hops st' path')"

definition close_path :: "packet_network_context \<Rightarrow> parsed_packet \<Rightarrow> string list \<Rightarrow> string list" where
  "close_path context parsed path =
     (let isDm = (pp_payloadType parsed = PT_TextMessage);
          isOutgoingDm = (isDm \<and> truthy (nc_myPrefix context)
             \<and> map_option to_lower (pp_srcHash parsed) = nc_myPrefix context)
      in if isDm \<and> truthy (pp_dstHash parsed) then
           (if is_me context (to_lower (the (pp_dstHash parsed))) then path @ [''self'']
            else if \<not> isOutgoingDm \<and> path \<noteq> [] then path @ [''self'']
            else path)
         else if path \<noteq> [] then path @ [''self'']
         else path)"

definition buildCanonicalPathForPacket ::
  "(string \<Rightarrow> string \<Rightarrow> int) \<Rightarrow> int \<Rightarrow> packet_network_context \<Rightarrow> parsed_packet \<Rightarrow> raw_packet \<Rightarrow> int \<Rightarrow>
   packet_network_state \<Rightarrow> packet_network_state \<times> string list" where
  "buildCanonicalPathForPacket lc now context parsed packet activityAtMs st =
     (let r = resolve_packet_source lc now context parsed packet activityAtMs st;
          (st1, path1) = push_node r [];
          packetSource = (if truthy (snd r) then snd r else None);
          (st2, path2) = resolve_hops lc now context activityAtMs packetSource (pp_pathBytes parsed) st1 path1
      in (st2, dedupeConsecutive (close_path context parsed path2)))"

definition set_reason :: "packet_label \<Rightarrow> nat \<times> string \<Rightarrow> (string, packet_network_node) jsmap \<Rightarrow> (string, packet_network_node) jsmap" where
  "set_reason label = (\<lambda>(i, nodeId) nodes.
     (case jm_get nodes nodeId of
        Some node \<Rightarrow>
          if pn_id node \<noteq> ''self'' then
            jm_set nodeId (node\<lparr> pn_lastActivityReason :=
              Some (if i = 0 then label_str label @ '' source'' else ''Relayed '' @ label_str label) \<rparr>) nodes
          else nodes
      | None \<Rightarrow> nodes))"

definition add_hop :: "int \<Rightarrow> string \<times> string \<Rightarrow> packet_network_state \<Rightarrow> packet_network_state" where
  "add_hop activityAtMs = (\<lambda>(a, b) st.
     if a \<noteq> b then upsertNeighbor a b (addCanonicalLink a b activityAtMs st) else st)"

definition hop_pairs :: "'a list \<Rightarrow> ('a \<times> 'a) list" where
  "hop_pairs xs = zip xs (tl xs)"

definition ingestPacketIntoPacketNetwork ::
  "decoder \<Rightarrow> (string \<Rightarrow> string \<Rightarrow> int) \<Rightarrow> int \<Rightarrow> packet_network_context \<Rightarrow> raw_packet \<Rightarrow>
   packet_network_state \<Rightarrow> packet_network_state \<times> ingest_result option" where
  "ingestPacketIntoPacketNetwork decode lc now context packet st =
     (case parsePacket decode (rp_data packet) of
        None \<Rightarrow> (st, None)
      | Some parsed \<Rightarrow>
          (let activityAtMs = normalizePacketTimestampMs now (rp_timestamp packet);
               (st1, canonicalPath) = buildCanonicalPathForPacket lc now context parsed packet activityAtMs st
           in if length canonicalPath < 2 then (st1, None)
              else
                (let label = getPacketLabel (pp_payloadType parsed);
                     st2 = st1\<lparr> ns_nodes := fold (set_reason label) (enumerate 0 canonicalPath) (ns_nodes st1) \<rparr>;
                     st3 = st2\<lparr> ns_observations := ns_observations st2 @
                              [\<lparr> no_activityAtMs = activityAtMs, no_nodes = canonicalPath \<rparr>] \<rparr>;
                     st4 = fold (add_hop activityAtMs) (hop_pairs canonicalPath) st3
                 in (st4, Some \<lparr> ir_activityAtMs = activityAtMs, ir_canonicalPath = canonicalPath,
                                 ir_label = label, ir_parsed = parsed \<rparr>))))"

section \<open>Projection\<close>

definition isPacketNetworkNodeVisible :: "packet_network_node option \<Rightarrow> visibility_options \<Rightarrow> bool" where
  "isPacketNetworkNodeVisible node visibility =
     (case node of
        None \<Rightarrow> False
      | Some n \<Rightarrow>
          if pn_id n = ''self'' then True
          else if \<not> pn_isAmbiguous n then True
          else if pn_type n = NT_repeater then vo_showAmbiguousPaths visibility
          else vo_showAmbiguousNodes visibility)"

definition is_known_repeater :: "packet_network_node \<Rightarrow> bool" where
  "is_known_repeater n \<longleftrightarrow> pn_type n = NT_repeater \<and> \<not> pn_isAmbiguous n"

definition known_next_hop ::
  "packet_network_state \<Rightarrow> string \<times> string \<Rightarrow> (string, string jsset) jsmap \<Rightarrow> (string, string jsset) jsmap" where
  "known_next_hop st = (\<lambda>(cur, nextNodeId) m.
     (case jm_get (ns_nodes st) cur of
        Some currentNode \<Rightarrow>
          if is_known_repeater currentNode then
            (case jm_get m (pn_id currentNode) of
               Some existing \<Rightarrow> jm_set (pn_id currentNode) (js_add nextNodeId existing) m
             | None \<Rightarrow> jm_set (pn_id currentNode) [nextNodeId] m)
          else m
      | None \<Rightarrow> m))"

definition alias_hop ::
  "packet_network_state \<Rightarrow> (string, string jsset) jsmap \<Rightarrow> string \<times> string \<Rightarrow> (string, string) jsmap \<Rightarrow> (string, string) jsmap" where
  "alias_hop st knownRepeaterNextHops = (\<lambda>(currentNodeId, nextNodeId) aliases.
     (case jm_get (ns_nodes st) currentNodeId of
        Some currentNode \<Rightarrow>
          if pn_type currentNode = NT_repeater \<and> pn_isAmbiguous currentNode
             \<and> truthy (nullish (pn_probableIdentityNodeId currentNode)) then
            (case jm_get (ns_nodes st) (the (nullish (pn_probableIdentityNodeId currentNode))) of
               Some probableNode \<Rightarrow>
                 if is_known_repeater probableNode
                    \<and> nextNodeId \<in> set (coalesce (jm_get knownRepeaterNextHops (pn_id probableNode)) [])
                 then jm_set currentNodeId (pn_id probableNode) aliases
                 else aliases
             | None \<Rightarrow> aliases)
          else aliases
      | None \<Rightarrow> aliases))"

definition observed_hops :: "packet_network_state \<Rightarrow> (string \<times> string) list" where
  "observed_hops st = concat (map (\<lambda>obs. hop_pairs (no_nodes obs)) (ns_observations st))"

definition buildKnownSiblingRepeaterAliasMap ::
  "packet_network_state \<Rightarrow> visibility_options \<Rightarrow> (string, string) jsmap" where
  "buildKnownSiblingRepeaterAliasMap st visibility =
     (if \<not> vo_collapseLikelyKnownSiblingRepeaters visibility \<or> \<not> vo_showAmbiguousPaths visibility then []
      else
        (let knownRepeaterNextHops = fold (known_next_hop st) (observed_hops st) []
         in fold (alias_hop st knownRepeaterNextHops) (observed_hops st) []))"

definition projection_step ::
  "packet_network_state \<Rightarrow> visibility_options \<Rightarrow> (string, string) jsmap \<Rightarrow> nat \<Rightarrow> nat \<times> string \<Rightarrow> path_step" where
  "projection_step st visibility repeaterAliases len = (\<lambda>(index, nodeId).
     (let node = jm_get (ns_nodes st) nodeId; visible = isPacketNetworkNodeVisible node visibility
      in \<lparr> ps_nodeId = (if visible then Some (coalesce (jm_get repeaterAliases nodeId) nodeId) else None),
           ps_markHiddenLinkWhenOmitted =
             (\<not> visible \<and> node \<noteq> None \<and> pn_type (the node) = NT_repeater \<and> 0 < index \<and> index < len - 1),
           ps_hiddenLabel = None \<rparr>))"

definition projectCanonicalPathWithAliases ::
  "packet_network_state \<Rightarrow> string list \<Rightarrow> visibility_options \<Rightarrow> (string, string) jsmap \<Rightarrow>
   string list \<times> (string, string list) jsmap" where
  "projectCanonicalPathWithAliases st canonicalPath visibility repeaterAliases =
     (let projected = compactPathSteps
            (map (projection_step st visibility repeaterAliases (length canonicalPath)) (enumerate 0 canonicalPath))
      in (dedupeConsecutive (fst projected), snd projected))"

definition projectCanonicalPath ::
  "packet_network_state \<Rightarrow> string list \<Rightarrow> visibility_options \<Rightarrow> string list \<times> (string, string list) jsmap" where
  "projectCanonicalPath st canonicalPath visibility =
     projectCanonicalPathWithAliases st canonicalPath visibility (buildKnownSiblingRepeaterAliasMap st visibility)"

definition project_link ::
  "(string, string list) jsmap \<Rightarrow> int \<Rightarrow> string \<times> string \<Rightarrow> (string, projected_link) jsmap \<Rightarrow> (string, projected_link) jsmap" where
  "project_link dashedLinkDetails activityAtMs = (\<lambda>(sourceId, targetId) links.
     if sourceId = targetId then links
     else
       (let key = buildLinkKey sourceId targetId;
            hiddenIntermediate = jm_has dashedLinkDetails key;
            labels = coalesce (jm_get dashedLinkDetails key) []
        in case jm_get links key of
             Some existing \<Rightarrow>
               (let e1 = existing\<lparr> pl_lastActivity := max (pl_lastActivity existing) activityAtMs \<rparr>
                in jm_set key
                     (if hiddenIntermediate
                      then e1\<lparr> pj_hasHiddenIntermediate := True,
                               pj_hiddenHopLabels := fold js_add labels (pj_hiddenHopLabels e1) \<rparr>
                      else e1\<lparr> pj_hasDirectObservation := True \<rparr>) links)
           | None \<Rightarrow>
               jm_set key \<lparr> pl_lastActivity = activityAtMs, pl_sourceId = sourceId, pl_targetId = targetId,
                            pj_hasDirectObservation = (\<not> hiddenIntermediate),
                            pj_hasHiddenIntermediate = hiddenIntermediate,
                            pj_hiddenHopLabels = labels \<rparr> links))"

definition show_node ::
  "packet_network_state \<Rightarrow> string \<Rightarrow> (string, packet_network_node) jsmap \<Rightarrow> (string, packet_network_node) jsmap" where
  "show_node st nodeId nodes =
     (case jm_get (ns_nodes st) nodeId of Some node \<Rightarrow> jm_set nodeId node nodes | None \<Rightarrow> nodes)"

definition project_observation ::
  "packet_network_state \<Rightarrow> visibility_options \<Rightarrow> (string, string) jsmap \<Rightarrow> network_observation \<Rightarrow>
   (string, packet_network_node) jsmap \<times> (string, projected_link) jsmap \<Rightarrow>
   (string, packet_network_node) jsmap \<times> (string, projected_link) jsmap" where
  "project_observation st visibility repeaterAliases observation = (\<lambda>(nodes, links).
     (let projected = projectCanonicalPathWithAliases st (no_nodes observation) visibility repeaterAliases
      in if length (fst projected) < 2 then (nodes, links)
         else (fold (show_node st) (fst projected) nodes,
               fold (project_link (snd projected) (no_activityAtMs observation)) (hop_pairs (fst projected)) links)))"

definition projectPacketNetwork :: "packet_network_state \<Rightarrow> visibility_options \<Rightarrow> network_projection" where
  "projectPacketNetwork st visibility =
     (let repeaterAliases = buildKnownSiblingRepeaterAliasMap st visibility;
          nodes0 = (case jm_get (ns_nodes st) ''self'' of Some s \<Rightarrow> jm_set ''self'' s [] | None \<Rightarrow> []);
          (nodes, links) = fold (project_observation st visibility repeaterAliases) (ns_observations st) (nodes0, [])
      in \<lparr> pr_links = links, pr_nodes = nodes, pr_renderedNodeIds = js_set_of (jm_keys nodes) \<rparr>)"

section \<open>Pruning and snapshots\<close>

definition prunePacketNetworkState :: "int \<Rightarrow> packet_network_state \<Rightarrow> packet_network_state \<times> bool" where
  "prunePacketNetworkState cutoff st =
     (let stale = (\<lambda>(id, node). id \<noteq> ''self'' \<and> pn_lastActivity node < cutoff);
          nodes = filter (\<lambda>e. \<not> stale e) (ns_nodes st);
          pruned = list_ex stale (ns_nodes st)
      in if \<not> pruned then (st\<lparr> ns_nodes := nodes \<rparr>, False)
         else
           (let links = filter (\<lambda>(key, link). jm_has nodes (pl_sourceId link) \<and> jm_has nodes (pl_targetId link)) (ns_links st);
                observations = filter (\<lambda>obs. list_all (jm_has nodes) (no_nodes obs)) (ns_observations st);
                st1 = st\<lparr> ns_nodes := nodes, ns_links := links, ns_observations := observations, ns_neighborIds := [] \<rparr>
            in (fold (\<lambda>(key, link). upsertNeighbor (pl_sourceId link) (pl_targetId link)) links st1, True)))"

definition snapshotNeighborIds :: "packet_network_state \<Rightarrow> (string, string list) jsmap" where
  "snapshotNeighborIds st = map (\<lambda>(nodeId, neighborIds). (nodeId, sort neighborIds)) (ns_neighborIds st)"

section \<open>The graph invariant\<close>

abbreviation node_at :: "packet_network_state \<Rightarrow> string \<Rightarrow> packet_network_node option" where
  "node_at st \<equiv> jm_get (ns_nodes st)"

definition neighbors :: "packet_network_state \<Rightarrow> string \<Rightarrow> string set" where
  "neighbors st a = set (coalesce (jm_get (ns_neighborIds st) a) [])"

definition nodes_ok :: "packet_network_state \<Rightarrow> bool" where
  "nodes_ok st \<longleftrightarrow> jm_wf (ns_nodes st) \<and> (\<forall>(k, n) \<in> set (ns_nodes st). pn_id n = k)
     \<and> (case node_at st ''self'' of Some n \<Rightarrow> pn_type n = NT_self \<and> \<not> pn_isAmbiguous n | None \<Rightarrow> False)"

definition links_ok :: "packet_network_state \<Rightarrow> bool" where
  "links_ok st \<longleftrightarrow> jm_wf (ns_links st)
     \<and> (\<forall>(k, l) \<in> set (ns_links st). k = buildLinkKey (pl_sourceId l) (pl_targetId l)
          \<and> pl_sourceId l \<noteq> pl_targetId l \<and> pl_targetId l \<in> neighbors st (pl_sourceId l))"

definition neighbors_ok :: "packet_network_state \<Rightarrow> bool" where
  "neighbors_ok st \<longleftrightarrow> jm_wf (ns_neighborIds st)
     \<and> (\<forall>a \<in> set (jm_keys (ns_neighborIds st)). \<forall>b \<in> neighbors st a.
          a \<noteq> b \<and> a \<in> neighbors st b \<and> jm_has (ns_nodes st) a \<and> jm_has (ns_nodes st) b
          \<and> jm_has (ns_links st) (buildLinkKey a b))"

definition activity_ok :: "packet_network_state \<Rightarrow> int \<Rightarrow> string \<Rightarrow> bool" where
  "activity_ok st act x \<longleftrightarrow>
     (case node_at st x of Some n \<Rightarrow> x = ''self'' \<or> act \<le> pn_lastActivity n | None \<Rightarrow> False)"

definition observation_ok :: "packet_network_state \<Rightarrow> network_observation \<Rightarrow> bool" where
  "observation_ok st obs \<longleftrightarrow> 2 \<le> length (no_nodes obs) \<and> distinct_adj (no_nodes obs)
     \<and> (\<forall>x \<in> set (no_nodes obs). activity_ok st (no_activityAtMs obs) x)"

definition graph_inv :: "packet_network_state \<Rightarrow> bool" where
  "graph_inv st \<longleftrightarrow> nodes_ok st \<and> links_ok st \<and> neighbors_ok st \<and> (\<forall>obs \<in> set (ns_observations st). observation_ok st obs)"

text \<open>The operations as a step relation: the visualizer calls them in any order, with any packet,
  context, clock and name.\<close>

inductive net_step :: "packet_network_state \<Rightarrow> packet_network_state \<Rightarrow> bool" where
  step_ensure: "net_step st (ensureSelfNode now selfName st)"
| step_clear: "net_step st (clearPacketNetworkState now selfName st)"
| step_ingest: "net_step st (fst (ingestPacketIntoPacketNetwork decode lc now context packet st))"
| step_prune: "net_step st (fst (prunePacketNetworkState cutoff st))"

inductive net_reachable :: "packet_network_state \<Rightarrow> bool" where
  net_init: "net_reachable (createPacketNetworkState now selfName)"
| net_more: "net_reachable st \<Longrightarrow> net_step st st' \<Longrightarrow> net_reachable st'"

text \<open>What resolving the nodes of a packet does to the state: nodes are added or refreshed, and
  nothing else changes but the traffic record.\<close>

definition node_le :: "packet_network_node \<Rightarrow> packet_network_node \<Rightarrow> bool" where
  "node_le n n' \<longleftrightarrow> pn_id n' = pn_id n \<and> pn_type n' = pn_type n
     \<and> pn_isAmbiguous n' = pn_isAmbiguous n \<and> pn_lastActivity n \<le> pn_lastActivity n'"

definition grows :: "packet_network_state \<Rightarrow> packet_network_state \<Rightarrow> bool" where
  "grows st st' \<longleftrightarrow>
     ns_links st' = ns_links st \<and> ns_neighborIds st' = ns_neighborIds st \<and> ns_observations st' = ns_observations st
     \<and> (jm_wf (ns_nodes st) \<longrightarrow> jm_wf (ns_nodes st'))
     \<and> (\<forall>k n. node_at st k = Some n \<longrightarrow>
          (\<exists>n'. node_at st' k = Some n' \<and> node_le n n'))
     \<and> (\<forall>k n'. node_at st' k = Some n' \<longrightarrow> node_at st k \<noteq> None \<or> pn_id n' = k)"

definition touched :: "packet_network_state \<Rightarrow> int \<Rightarrow> string \<Rightarrow> bool" where
  "touched st act x \<longleftrightarrow> x = ''self'' \<or> (\<exists>n. node_at st x = Some n \<and> act \<le> pn_lastActivity n)"

lemma node_le_refl [simp]: "node_le n n"
  by (simp add: node_le_def)

lemma node_le_trans: "node_le n n' \<Longrightarrow> node_le n' n'' \<Longrightarrow> node_le n n''"
  by (simp add: node_le_def)

lemma grows_refl [simp]: "grows st st"
  by (simp add: grows_def)

lemma growsD: "grows st st' \<Longrightarrow> node_at st k = Some n \<Longrightarrow> \<exists>n'. node_at st' k = Some n' \<and> node_le n n'"
  by (simp add: grows_def)

lemma grows_new: "grows st st' \<Longrightarrow> node_at st' k = Some n' \<Longrightarrow> node_at st k \<noteq> None \<or> pn_id n' = k"
  unfolding grows_def by blast

lemma grows_trans: "grows st st' \<Longrightarrow> grows st' st'' \<Longrightarrow> grows st st''"
proof -
  assume 1: "grows st st'" and 2: "grows st' st''"
  have old: "\<exists>n''. node_at st'' k = Some n'' \<and> node_le n n''" if n: "node_at st k = Some n" for k n
  proof -
    from growsD [OF 1 n] obtain n' where n': "node_at st' k = Some n'" "node_le n n'" by blast
    from growsD [OF 2 n'(1)] n'(2) show ?thesis using node_le_trans by blast
  qed
  have new: "node_at st k \<noteq> None \<or> pn_id n'' = k" if n: "node_at st'' k = Some n''" for k n''
  proof (cases "node_at st' k")
    case None
    with grows_new [OF 2 n] show ?thesis by simp
  next
    case (Some n')
    with growsD [OF 2 Some] n have "pn_id n'' = pn_id n'" by (auto simp: node_le_def)
    with grows_new [OF 1 Some] show ?thesis by simp
  qed
  from 1 2 old new show ?thesis by (simp add: grows_def)
qed

lemma grows_touched: "grows st st' \<Longrightarrow> touched st act x \<Longrightarrow> touched st' act x"
  unfolding touched_def node_le_def by (meson growsD node_le_def order_trans)

lemma grows_traffic: "grows st (st\<lparr> ns_trafficPatterns := t \<rparr>)"
  by (simp add: grows_def)

lemma addOrUpdateNode_grows: "grows st (addOrUpdateNode u st)"
  by (auto simp: grows_def addOrUpdateNode_def update_node_def new_node_def node_le_def jm_get_set
      split: option.splits)

lemma addOrUpdateNode_touched: "touched (addOrUpdateNode u st) (nu_activityAtMs u) (nu_id u)"
  by (auto simp: touched_def addOrUpdateNode_def update_node_def new_node_def jm_get_set split: option.splits)

text \<open>The contract of a resolution: the state only grows, and the node it names is active.\<close>

definition resolves :: "int \<Rightarrow> packet_network_state \<Rightarrow> packet_network_state \<times> string option \<Rightarrow> bool" where
  "resolves act st r \<longleftrightarrow> grows st (fst r) \<and> (\<forall>x. snd r = Some x \<longrightarrow> touched (fst r) act x)"

lemma resolves_none [simp]: "resolves act st (st, None)"
  by (simp add: resolves_def)

lemma resolves_self [simp]: "resolves act st (st, Some ''self'')"
  by (simp add: resolves_def touched_def)

lemma resolves_add:
  "\<lbrakk> grows st st1; nu_activityAtMs u = act; nu_id u = x \<rbrakk> \<Longrightarrow> resolves act st (addOrUpdateNode u st1, Some x)"
  using addOrUpdateNode_grows addOrUpdateNode_touched grows_trans by (fastforce simp: resolves_def)

lemma resolve_known_resolves: "resolves act st (resolve_known context contact act st)"
  by (simp add: resolve_known_def Let_def contact_update_def resolves_add)

lemma split_by_traffic_grows: "grows st (fst (split_by_traffic now v tc st))"
  by (simp add: split_by_traffic_def Let_def grows_traffic)

lemma resolve_ambiguous_resolves:
  "resolves act st (resolve_ambiguous lc now context v cs isRep act tc st)"
  unfolding resolve_ambiguous_def Let_def case_prod_unfold
  by (rule resolves_add) (simp_all add: split_by_traffic_grows)

lemma resolveNode_resolves: "resolves act st (resolveNode lc now context src isRep showAmb act tc st)"
  by (auto simp: resolveNode_def Let_def contact_update_def
      split: node_source.splits option.splits list.splits
      intro!: resolves_add resolve_known_resolves resolve_ambiguous_resolves)

lemma resolves_push:
  assumes "resolves act st r" and "\<forall>x \<in> set path. touched st act x"
  shows "grows st (fst (push_node r path)) \<and> (\<forall>x \<in> set (snd (push_node r path)). touched (fst (push_node r path)) act x)"
  using assms by (auto simp: push_node_def resolves_def truthy_iff intro: grows_touched)

lemma resolve_hops_resolves:
  "\<forall>x \<in> set path. touched st act x \<Longrightarrow>
     grows st (fst (resolve_hops lc now context act src hops st path))
     \<and> (\<forall>x \<in> set (snd (resolve_hops lc now context act src hops st path)).
          touched (fst (resolve_hops lc now context act src hops st path)) act x)"
proof (induction hops arbitrary: st path)
  case (Cons hop hops)
  let ?tc = "Some \<lparr> tc_packetSource = src, tc_nextPrefix = or_null (case hops of [] \<Rightarrow> None | h # _ \<Rightarrow> Some h) \<rparr>"
  let ?p = "push_node (resolveNode lc now context (By_prefix hop) True True act ?tc st) path"
  from resolves_push [OF resolveNode_resolves Cons.prems]
  have p: "grows st (fst ?p)" "\<forall>x \<in> set (snd ?p). touched (fst ?p) act x" by blast+
  have eq: "resolve_hops lc now context act src (hop # hops) st path =
      resolve_hops lc now context act src hops (fst ?p) (snd ?p)"
    by (simp add: case_prod_unfold Let_def)
  from Cons.IH [OF p(2)] p(1) grows_trans show ?case unfolding eq by blast
qed simp

lemma resolve_packet_source_resolves:
  "resolves act st (resolve_packet_source lc now context parsed packet act st)"
  by (simp add: resolve_packet_source_def Let_def resolveNode_resolves)

lemma set_close_path: "set (close_path ctx parsed path) \<subseteq> insert ''self'' (set path)"
  by (auto simp: close_path_def Let_def)

lemma touched_self: "touched st act ''self''"
  by (simp add: touched_def)

lemma buildCanonicalPath_resolves:
  fixes lc now ctx parsed packet act st
  defines "r \<equiv> buildCanonicalPathForPacket lc now ctx parsed packet act st"
  shows "grows st (fst r) \<and> distinct_adj (snd r) \<and> (\<forall>x \<in> set (snd r). touched (fst r) act x)"
proof -
  let ?s = "resolve_packet_source lc now ctx parsed packet act st"
  let ?src = "if truthy (snd ?s) then snd ?s else None"
  let ?p = "push_node ?s []"
  let ?h = "resolve_hops lc now ctx act ?src (pp_pathBytes parsed) (fst ?p) (snd ?p)"
  from resolves_push [OF resolve_packet_source_resolves, of "[]"]
  have p: "grows st (fst ?p)" "\<forall>x \<in> set (snd ?p). touched (fst ?p) act x" by simp_all
  from resolve_hops_resolves [OF p(2)] have h: "grows (fst ?p) (fst ?h)" "\<forall>x \<in> set (snd ?h). touched (fst ?h) act x"
    by blast+
  have r: "r = (fst ?h, dedupeConsecutive (close_path ctx parsed (snd ?h)))"
    by (simp add: r_def buildCanonicalPathForPacket_def Let_def case_prod_unfold)
  have "touched (fst ?h) act x" if "x \<in> set (close_path ctx parsed (snd ?h))" for x
    using subsetD [OF set_close_path that] h(2) touched_self by (metis insertE)
  moreover have "grows st (fst ?h)" by (rule grows_trans [OF p(1) h(1)])
  ultimately show ?thesis
    unfolding r fst_conv snd_conv dedupeConsecutive_remdups_adj remdups_adj_set
    by (intro conjI ballI distinct_adj_remdups_adj)
qed

lemma set_reason_grows: "grows st (st\<lparr> ns_nodes := fold (set_reason label) ixs (ns_nodes st) \<rparr>)"
proof (induction ixs arbitrary: st)
  case (Cons ix ixs)
  let ?st = "st\<lparr> ns_nodes := set_reason label ix (ns_nodes st) \<rparr>"
  have "grows st ?st"
    by (cases ix) (auto simp: set_reason_def grows_def jm_get_set node_le_def split: option.splits)
  moreover have "grows ?st (st\<lparr> ns_nodes := fold (set_reason label) (ix # ixs) (ns_nodes st) \<rparr>)"
    using Cons.IH [of ?st] by simp
  ultimately show ?case by (rule grows_trans)
qed simp

section \<open>Preservation of the invariant\<close>

lemma nodes_ok_iff:
  "nodes_ok st \<longleftrightarrow> jm_wf (ns_nodes st) \<and> (\<forall>k n. node_at st k = Some n \<longrightarrow> pn_id n = k)
     \<and> (\<exists>n. node_at st ''self'' = Some n \<and> pn_type n = NT_self \<and> \<not> pn_isAmbiguous n)"
proof (cases "jm_wf (ns_nodes st)")
  case True
  then have "(\<forall>(k, n) \<in> set (ns_nodes st). pn_id n = k) \<longleftrightarrow> (\<forall>k n. node_at st k = Some n \<longrightarrow> pn_id n = k)"
    by (auto simp: Ball_def)
  then show ?thesis by (auto simp: nodes_ok_def split: option.splits)
qed (simp add: nodes_ok_def)

lemma links_ok_iff:
  "links_ok st \<longleftrightarrow> jm_wf (ns_links st)
     \<and> (\<forall>k l. jm_get (ns_links st) k = Some l \<longrightarrow> k = buildLinkKey (pl_sourceId l) (pl_targetId l)
          \<and> pl_sourceId l \<noteq> pl_targetId l \<and> pl_targetId l \<in> neighbors st (pl_sourceId l))"
  by (cases "jm_wf (ns_links st)") (auto simp: links_ok_def)

lemma neighborsD: "b \<in> neighbors st a \<Longrightarrow> a \<in> set (jm_keys (ns_neighborIds st))"
  by (cases "jm_get (ns_neighborIds st) a") (auto simp: neighbors_def dest: jm_get_SomeD)

lemma neighbors_ok_iff:
  "neighbors_ok st \<longleftrightarrow> jm_wf (ns_neighborIds st)
     \<and> (\<forall>a b. b \<in> neighbors st a \<longrightarrow>
          a \<noteq> b \<and> a \<in> neighbors st b \<and> jm_has (ns_nodes st) a \<and> jm_has (ns_nodes st) b
          \<and> jm_has (ns_links st) (buildLinkKey a b))"
  unfolding neighbors_ok_def using neighborsD by blast

lemma activity_ok_iff: "activity_ok st act x \<longleftrightarrow> node_at st x \<noteq> None \<and> touched st act x"
  by (auto simp: activity_ok_def touched_def split: option.splits)

lemma touched_has_node: "nodes_ok st \<Longrightarrow> touched st act x \<Longrightarrow> activity_ok st act x"
  by (auto simp: nodes_ok_iff activity_ok_iff touched_def)

lemma grows_has: "grows st st' \<Longrightarrow> jm_has (ns_nodes st) k \<Longrightarrow> jm_has (ns_nodes st') k"
  unfolding jm_has_def by (metis growsD not_None_eq)

lemma neighbors_grows: "grows st st' \<Longrightarrow> neighbors st' = neighbors st"
  by (simp add: grows_def neighbors_def fun_eq_iff)

lemma nodes_ok_grows:
  assumes "grows st st'" and "nodes_ok st"
  shows "nodes_ok st'"
proof -
  have "pn_id n' = k" if "node_at st' k = Some n'" for k n'
  proof (cases "node_at st k")
    case None
    with grows_new [OF assms(1) that] show ?thesis by simp
  next
    case (Some n)
    with growsD [OF assms(1) Some] that assms(2) show ?thesis by (auto simp: nodes_ok_iff node_le_def)
  qed
  moreover from assms(2) obtain n where "node_at st ''self'' = Some n" "pn_type n = NT_self" "\<not> pn_isAmbiguous n"
    by (auto simp: nodes_ok_iff)
  then have "\<exists>n. node_at st' ''self'' = Some n \<and> pn_type n = NT_self \<and> \<not> pn_isAmbiguous n"
    using growsD [OF assms(1)] by (fastforce simp: node_le_def)
  ultimately show ?thesis using assms by (simp add: nodes_ok_iff grows_def)
qed

lemma graph_inv_grows:
  assumes g: "grows st st'" and inv: "graph_inv st"
  shows "graph_inv st'"
proof -
  have "links_ok st'" using inv g by (simp add: graph_inv_def links_ok_def neighbors_grows [OF g]) (simp add: grows_def)
  moreover have "neighbors_ok st'"
    using inv grows_has [OF g] g unfolding graph_inv_def neighbors_ok_iff neighbors_grows [OF g]
    by (auto simp: grows_def)
  moreover have "\<forall>obs \<in> set (ns_observations st'). observation_ok st' obs"
    using inv g grows_touched [OF g] grows_has [OF g]
    by (auto simp: graph_inv_def observation_ok_def activity_ok_iff grows_def jm_has_def)
  ultimately show ?thesis using nodes_ok_grows [OF g] inv by (simp add: graph_inv_def)
qed

lemma neighbors_upsert:
  "neighbors (upsertNeighbor a b st) x =
     neighbors st x \<union> (if x = a then {b} else {}) \<union> (if x = b then {a} else {})"
  by (auto simp: neighbors_def upsertNeighbor_def add_neighbor_def jm_get_set)

lemma jm_get_addCanonicalLink:
  "jm_get (ns_links (addCanonicalLink a b act st)) k =
     (if k = buildLinkKey a b then
        Some (case jm_get (ns_links st) k of
                Some l \<Rightarrow> l\<lparr> pl_lastActivity := max (pl_lastActivity l) act \<rparr>
              | None \<Rightarrow> \<lparr> pl_lastActivity = act, pl_sourceId = a, pl_targetId = b \<rparr>)
      else jm_get (ns_links st) k)"
  by (auto simp: addCanonicalLink_def Let_def jm_get_set split: option.splits)

lemma addCanonicalLink_frame [simp]:
  "ns_nodes (addCanonicalLink a b act st) = ns_nodes st"
  "ns_observations (addCanonicalLink a b act st) = ns_observations st"
  "ns_neighborIds (addCanonicalLink a b act st) = ns_neighborIds st"
  by (simp_all add: addCanonicalLink_def Let_def split: option.splits)

lemma upsertNeighbor_frame [simp]:
  "ns_nodes (upsertNeighbor a b st) = ns_nodes st"
  "ns_observations (upsertNeighbor a b st) = ns_observations st"
  "ns_links (upsertNeighbor a b st) = ns_links st"
  by (simp_all add: upsertNeighbor_def)

lemma add_hop_frame [simp]:
  "ns_nodes (add_hop act e st) = ns_nodes st" "ns_observations (add_hop act e st) = ns_observations st"
  by (cases e; simp add: add_hop_def)+

lemma add_hops_frame [simp]:
  "ns_nodes (fold (add_hop act) es st) = ns_nodes st"
  "ns_observations (fold (add_hop act) es st) = ns_observations st"
  by (induction es arbitrary: st) simp_all

lemma links_ok_hop:
  assumes "links_ok st" and "a \<noteq> b"
  shows "links_ok (upsertNeighbor a b (addCanonicalLink a b act st))"
proof -
  have nb: "neighbors (addCanonicalLink a b act st) = neighbors st" by (simp add: neighbors_def fun_eq_iff)
  have wf: "jm_wf (ns_links (addCanonicalLink a b act st))"
    using assms(1) by (auto simp: addCanonicalLink_def Let_def links_ok_def split: option.splits)
  show ?thesis
    using assms unfolding links_ok_iff
    by (auto simp: wf neighbors_upsert nb jm_get_addCanonicalLink split: if_splits option.splits)
qed

lemma neighbors_ok_hop:
  assumes "neighbors_ok st" and "a \<noteq> b" and "jm_has (ns_nodes st) a" and "jm_has (ns_nodes st) b"
  shows "neighbors_ok (upsertNeighbor a b (addCanonicalLink a b act st))"
proof -
  have nb: "neighbors (addCanonicalLink a b act st) = neighbors st" by (simp add: neighbors_def fun_eq_iff)
  have has: "jm_has (ns_links (addCanonicalLink a b act st)) k \<longleftrightarrow> k = buildLinkKey a b \<or> jm_has (ns_links st) k" for k
    by (simp add: jm_has_def jm_get_addCanonicalLink)
  have wf: "jm_wf (ns_neighborIds (upsertNeighbor a b (addCanonicalLink a b act st)))"
    using assms(1) by (simp add: upsertNeighbor_def add_neighbor_def neighbors_ok_def)
  show ?thesis
    using assms buildLinkKey_sym unfolding neighbors_ok_iff
    by (simp add: wf neighbors_upsert nb has)
qed

lemma graph_inv_hop:
  assumes "graph_inv st" and "jm_has (ns_nodes st) (fst e)" and "jm_has (ns_nodes st) (snd e)"
  shows "graph_inv (add_hop act e st)"
proof (cases "fst e = snd e")
  case False
  have "nodes_ok (add_hop act e st)" using assms(1) by (simp add: graph_inv_def nodes_ok_def)
  moreover have "\<forall>obs \<in> set (ns_observations st). observation_ok (add_hop act e st) obs"
    using assms(1) by (simp add: graph_inv_def observation_ok_def activity_ok_def)
  ultimately show ?thesis
    using assms False links_ok_hop neighbors_ok_hop
    by (cases e) (simp add: graph_inv_def add_hop_def)
qed (use assms in \<open>simp add: add_hop_def case_prod_unfold\<close>)

lemma graph_inv_hops:
  "graph_inv st \<Longrightarrow> \<forall>e \<in> set es. jm_has (ns_nodes st) (fst e) \<and> jm_has (ns_nodes st) (snd e) \<Longrightarrow>
     graph_inv (fold (add_hop act) es st)"
  by (induction es arbitrary: st) (simp_all add: graph_inv_hop)

lemma set_hop_pairs: "e \<in> set (hop_pairs xs) \<Longrightarrow> fst e \<in> set xs \<and> snd e \<in> set xs"
  by (cases e; cases xs) (auto simp: hop_pairs_def dest: set_zip_leftD set_zip_rightD)

lemma hop_pairs_consecutive: "(a, b) \<in> set (hop_pairs xs) \<longleftrightarrow> consecutive xs a b"
proof (induction xs)
  case (Cons x xs)
  have "consecutive (x # xs) a b \<longleftrightarrow> (\<exists>vs. x = a \<and> xs = b # vs) \<or> consecutive xs a b"
    unfolding consecutive_def by (auto simp: Cons_eq_append_conv)
  with Cons show ?case by (cases xs) (auto simp: hop_pairs_def)
qed (simp add: hop_pairs_def consecutive_def)

lemma graph_inv_observe:
  assumes "graph_inv st" and "2 \<le> length path" and "distinct_adj path" and "\<forall>x \<in> set path. touched st act x"
  shows "graph_inv (st\<lparr> ns_observations := ns_observations st @ [\<lparr> no_activityAtMs = act, no_nodes = path \<rparr>] \<rparr>)"
proof -
  let ?st = "st\<lparr> ns_observations := ns_observations st @ [\<lparr> no_activityAtMs = act, no_nodes = path \<rparr>] \<rparr>"
  have same: "activity_ok ?st = activity_ok st" by (simp add: fun_eq_iff activity_ok_def)
  have "nodes_ok ?st" "links_ok ?st" "neighbors_ok ?st"
    using assms(1) by (simp_all add: graph_inv_def nodes_ok_def links_ok_def neighbors_ok_def neighbors_def)
  moreover have "\<forall>x \<in> set path. activity_ok st act x"
    using assms(1,4) touched_has_node by (auto simp: graph_inv_def)
  then have "\<forall>obs \<in> set (ns_observations ?st). observation_ok ?st obs"
    using assms by (simp add: same observation_ok_def graph_inv_def)
  ultimately show ?thesis by (simp add: graph_inv_def)
qed

definition ingested :: "packet_network_state \<Rightarrow> packet_label \<Rightarrow> int \<Rightarrow> string list \<Rightarrow> packet_network_state" where
  "ingested st label act path =
     fold (add_hop act) (hop_pairs path)
       (st\<lparr> ns_nodes := fold (set_reason label) (enumerate 0 path) (ns_nodes st),
            ns_observations := ns_observations st @ [\<lparr> no_activityAtMs = act, no_nodes = path \<rparr>] \<rparr>)"

lemma ingest_eq:
  "ingestPacketIntoPacketNetwork decode lc now context packet st =
     (case parsePacket decode (rp_data packet) of
        None \<Rightarrow> (st, None)
      | Some parsed \<Rightarrow>
          (let act = normalizePacketTimestampMs now (rp_timestamp packet);
               r = buildCanonicalPathForPacket lc now context parsed packet act st;
               label = getPacketLabel (pp_payloadType parsed)
           in if length (snd r) < 2 then (fst r, None)
              else (ingested (fst r) label act (snd r),
                    Some \<lparr> ir_activityAtMs = act, ir_canonicalPath = snd r, ir_label = label, ir_parsed = parsed \<rparr>)))"
  by (simp add: ingestPacketIntoPacketNetwork_def ingested_def Let_def case_prod_unfold split: option.split)

lemma graph_inv_ingested:
  assumes "graph_inv st" and "2 \<le> length path" and "distinct_adj path" and "\<forall>x \<in> set path. touched st act x"
  shows "graph_inv (ingested st label act path)"
proof -
  let ?s1 = "st\<lparr> ns_nodes := fold (set_reason label) (enumerate 0 path) (ns_nodes st) \<rparr>"
  let ?s2 = "?s1\<lparr> ns_observations := ns_observations ?s1 @ [\<lparr> no_activityAtMs = act, no_nodes = path \<rparr>] \<rparr>"
  have g: "grows st ?s1" by (rule set_reason_grows)
  have t: "\<forall>x \<in> set path. touched ?s1 act x" using assms(4) grows_touched [OF g] by blast
  have i1: "graph_inv ?s1" by (rule graph_inv_grows [OF g assms(1)])
  have i2: "graph_inv ?s2" by (rule graph_inv_observe [OF i1 assms(2,3) t])
  have "jm_has (ns_nodes ?s2) x" if "x \<in> set path" for x
    using touched_has_node [of ?s1 act x] t that i1 by (simp add: graph_inv_def activity_ok_iff jm_has_def)
  then have "\<forall>e \<in> set (hop_pairs path). jm_has (ns_nodes ?s2) (fst e) \<and> jm_has (ns_nodes ?s2) (snd e)"
    using set_hop_pairs by blast
  from graph_inv_hops [OF i2 this] show ?thesis by (simp add: ingested_def)
qed

lemma graph_inv_ingest:
  assumes "graph_inv st"
  shows "graph_inv (fst (ingestPacketIntoPacketNetwork decode lc now context packet st))"
proof (cases "parsePacket decode (rp_data packet)")
  case (Some parsed)
  let ?act = "normalizePacketTimestampMs now (rp_timestamp packet)"
  let ?r = "buildCanonicalPathForPacket lc now context parsed packet ?act st"
  note r = buildCanonicalPath_resolves [of st lc now "context" parsed packet ?act]
  have i: "graph_inv (fst ?r)" using graph_inv_grows [OF _ assms] r by blast
  show ?thesis
    using i graph_inv_ingested [OF i] r by (simp add: ingest_eq Some Let_def)
qed (simp add: ingest_eq assms)

section \<open>Pruning\<close>

definition stale :: "int \<Rightarrow> string \<times> packet_network_node \<Rightarrow> bool" where
  "stale cutoff e \<longleftrightarrow> fst e \<noteq> ''self'' \<and> pn_lastActivity (snd e) < cutoff"

definition pruned_nodes :: "int \<Rightarrow> packet_network_state \<Rightarrow> (string, packet_network_node) jsmap" where
  "pruned_nodes cutoff st = filter (\<lambda>e. \<not> stale cutoff e) (ns_nodes st)"

definition pruned_base :: "int \<Rightarrow> packet_network_state \<Rightarrow> packet_network_state" where
  "pruned_base cutoff st =
     (let nodes = pruned_nodes cutoff st
      in st\<lparr> ns_nodes := nodes,
             ns_links := filter (\<lambda>(key, link). jm_has nodes (pl_sourceId link) \<and> jm_has nodes (pl_targetId link)) (ns_links st),
             ns_observations := filter (\<lambda>obs. list_all (jm_has nodes) (no_nodes obs)) (ns_observations st),
             ns_neighborIds := [] \<rparr>)"

lemma pruned_base_nodes [simp]: "ns_nodes (pruned_base cutoff st) = pruned_nodes cutoff st"
  by (simp add: pruned_base_def Let_def)

abbreviation add_link_neighbors :: "string \<times> packet_network_link \<Rightarrow> packet_network_state \<Rightarrow> packet_network_state" where
  "add_link_neighbors \<equiv> (\<lambda>(key, link). upsertNeighbor (pl_sourceId link) (pl_targetId link))"

lemma prune_eq:
  "prunePacketNetworkState cutoff st =
     (if \<exists>e \<in> set (ns_nodes st). stale cutoff e
      then (fold add_link_neighbors (ns_links (pruned_base cutoff st)) (pruned_base cutoff st), True)
      else (st, False))"
proof -
  have stale: "(\<lambda>(id, node). id \<noteq> ''self'' \<and> pn_lastActivity node < cutoff) = stale cutoff"
    by (auto simp: stale_def)
  have "filter (\<lambda>e. \<not> stale cutoff e) (ns_nodes st) = ns_nodes st" if "\<not> list_ex (stale cutoff) (ns_nodes st)"
    using that by (simp add: list_ex_iff filter_id_conv)
  then show ?thesis
    by (simp add: prunePacketNetworkState_def Let_def stale pruned_base_def pruned_nodes_def list_ex_iff)
qed

lemma neighbors_of_links:
  "y \<in> neighbors (fold add_link_neighbors ls st) x \<longleftrightarrow>
     y \<in> neighbors st x \<or> (\<exists>(k, l) \<in> set ls. (x, y) = (pl_sourceId l, pl_targetId l) \<or> (x, y) = (pl_targetId l, pl_sourceId l))"
proof (induction ls arbitrary: st)
  case (Cons e ls)
  then show ?case by (cases e) (auto simp: neighbors_upsert)
qed simp

lemma link_neighbors_frame [simp]:
  "ns_nodes (fold add_link_neighbors ls st) = ns_nodes st"
  "ns_links (fold add_link_neighbors ls st) = ns_links st"
  "ns_observations (fold add_link_neighbors ls st) = ns_observations st"
  by (induction ls arbitrary: st) (auto simp: case_prod_unfold)

lemma link_neighbors_wf:
  "jm_wf (ns_neighborIds st) \<Longrightarrow> jm_wf (ns_neighborIds (fold add_link_neighbors ls st))"
  by (induction ls arbitrary: st) (auto simp: case_prod_unfold upsertNeighbor_def add_neighbor_def)

lemma pruned_node_at:
  "nodes_ok st \<Longrightarrow> jm_get (pruned_nodes cutoff st) x =
     (case node_at st x of Some n \<Rightarrow> if stale cutoff (x, n) then None else Some n | None \<Rightarrow> None)"
  by (auto simp: pruned_nodes_def nodes_ok_def jm_get_filter split: option.splits)

lemma graph_inv_pruned:
  assumes inv: "graph_inv st"
  shows "graph_inv (fold add_link_neighbors (ns_links (pruned_base cutoff st)) (pruned_base cutoff st))"
    (is "graph_inv ?st")
proof -
  let ?nodes = "pruned_nodes cutoff st"
  have ok: "nodes_ok st" and lk: "links_ok st" using inv by (simp_all add: graph_inv_def)
  note at = pruned_node_at [OF ok, of cutoff]
  have kept: "k = buildLinkKey (pl_sourceId l) (pl_targetId l) \<and> pl_sourceId l \<noteq> pl_targetId l
      \<and> jm_has ?nodes (pl_sourceId l) \<and> jm_has ?nodes (pl_targetId l)"
    if "(k, l) \<in> set (ns_links ?st)" for k l
    using that lk by (auto simp: pruned_base_def Let_def links_ok_def)
  have nb: "y \<in> neighbors ?st x \<longleftrightarrow> (\<exists>(k, l) \<in> set (ns_links ?st).
      (x, y) = (pl_sourceId l, pl_targetId l) \<or> (x, y) = (pl_targetId l, pl_sourceId l))" for x y
    unfolding neighbors_of_links by (simp add: neighbors_def pruned_base_def Let_def)
  have 1: "nodes_ok ?st"
  proof -
    have "jm_wf ?nodes" using ok by (simp add: pruned_nodes_def nodes_ok_def)
    moreover have "pn_id n = k" if "jm_get ?nodes k = Some n" for k n
      using that ok by (auto simp: at nodes_ok_iff split: option.splits if_splits)
    moreover have "jm_get ?nodes ''self'' = node_at st ''self''"
      by (simp add: at stale_def split: option.splits)
    ultimately show ?thesis using ok by (simp add: nodes_ok_iff del: map_of_eq_Some_iff)
  qed
  have 2: "links_ok ?st"
    unfolding links_ok_def nb using kept lk
    by (fastforce simp: pruned_base_def Let_def links_ok_def)
  have 3: "neighbors_ok ?st"
    unfolding neighbors_ok_iff
  proof (intro conjI allI impI)
    show "jm_wf (ns_neighborIds ?st)" by (rule link_neighbors_wf) (simp add: pruned_base_def Let_def)
    fix a b assume "b \<in> neighbors ?st a"
    then obtain k l where l: "(k, l) \<in> set (ns_links ?st)"
      "(a, b) = (pl_sourceId l, pl_targetId l) \<or> (a, b) = (pl_targetId l, pl_sourceId l)"
      unfolding nb by blast
    with kept [OF l(1)] show "a \<noteq> b" "a \<in> neighbors ?st b" "jm_has (ns_nodes ?st) a" "jm_has (ns_nodes ?st) b"
      unfolding nb by auto
    have "k = buildLinkKey a b" using kept [OF l(1)] l(2) buildLinkKey_sym by auto
    with l(1) show "jm_has (ns_links ?st) (buildLinkKey a b)" by (force simp: jm_has_iff image_iff)
  qed
  have 4: "observation_ok ?st obs" if "obs \<in> set (ns_observations ?st)" for obs
  proof -
    have "obs \<in> set (ns_observations st)" "\<forall>x \<in> set (no_nodes obs). jm_has ?nodes x"
      using that by (auto simp: pruned_base_def Let_def list_all_iff)
    then show ?thesis
      using inv by (auto simp: graph_inv_def observation_ok_def activity_ok_def at jm_has_def split: option.splits if_splits)
  qed
  from 1 2 3 4 show ?thesis by (simp add: graph_inv_def)
qed

lemma graph_inv_prune: "graph_inv st \<Longrightarrow> graph_inv (fst (prunePacketNetworkState cutoff st))"
  by (simp add: prune_eq graph_inv_pruned)

lemma graph_inv_create: "graph_inv (createPacketNetworkState now selfName)"
  by (simp add: graph_inv_def createPacketNetworkState_def nodes_ok_def links_ok_def neighbors_ok_def self_node_def)

lemma graph_inv_clear: "graph_inv (clearPacketNetworkState now selfName st)"
  by (auto simp: graph_inv_def clearPacketNetworkState_def nodes_ok_def links_ok_def neighbors_ok_def self_node_def Let_def)

lemma graph_inv_ensure:
  assumes "graph_inv st"
  shows "graph_inv (ensureSelfNode now selfName st)"
proof -
  have "grows st (ensureSelfNode now selfName st)"
    by (auto simp: grows_def ensureSelfNode_def self_node_def node_le_def jm_get_set split: option.splits)
  from graph_inv_grows [OF this assms] show ?thesis .
qed

lemma graph_inv_step: "net_step st st' \<Longrightarrow> graph_inv st \<Longrightarrow> graph_inv st'"
  by (induction rule: net_step.induct)
    (simp_all add: graph_inv_ensure graph_inv_clear graph_inv_ingest graph_inv_prune)

text \<open>C5. In every state the network can reach, the radio's own node is there and is neither ambiguous
  nor another node; nodes are stored under their id; links are stored under the key of their two
  different endpoints; neighbourhood is symmetric, joins existing nodes and contains every link; and
  every observed path has at least two nodes, no node twice in a row, and only nodes of the graph that
  were active at least as late as the observation.\<close>

theorem net_reachable_inv:
  assumes "net_reachable st"
  shows "graph_inv st"
  using assms by induction (simp_all add: graph_inv_create graph_inv_step)

lemma net_reachable_inv_witness:
  "graph_inv (fst (prunePacketNetworkState 5 (createPacketNetworkState 3 ''Me'')))"
  by (rule net_reachable_inv [OF net_more [OF net_init step_prune]])

lemma pruned_has: "nodes_ok st \<Longrightarrow> node_at st x = Some n \<Longrightarrow> \<not> stale cutoff (x, n) \<Longrightarrow> jm_has (pruned_nodes cutoff st) x"
  by (simp add: jm_has_def pruned_node_at del: map_of_eq_Some_iff)

lemma active_not_stale:
  "activity_ok st act x \<Longrightarrow> cutoff \<le> act \<Longrightarrow> nodes_ok st \<Longrightarrow> jm_has (pruned_nodes cutoff st) x"
  unfolding activity_ok_def
  by (cases "node_at st x") (auto intro!: pruned_has simp: stale_def simp del: map_of_eq_Some_iff)

text \<open>Pruning removes exactly the nodes, other than the radio's own, whose last activity lies before
  the cutoff, and reports whether there was one; it loses no observation made at or after the cutoff,
  and keeps no observation or link that names a removed node.\<close>

theorem prune_spec:
  assumes "graph_inv st"
  shows "(\<forall>x. node_at (fst (prunePacketNetworkState cutoff st)) x =
            (case node_at st x of
               Some n \<Rightarrow> if x \<noteq> ''self'' \<and> pn_lastActivity n < cutoff then None else Some n
             | None \<Rightarrow> None))
     \<and> (snd (prunePacketNetworkState cutoff st) \<longleftrightarrow>
          (\<exists>x n. node_at st x = Some n \<and> x \<noteq> ''self'' \<and> pn_lastActivity n < cutoff))
     \<and> (\<forall>obs \<in> set (ns_observations st). cutoff \<le> no_activityAtMs obs \<longrightarrow>
          obs \<in> set (ns_observations (fst (prunePacketNetworkState cutoff st))))
     \<and> graph_inv (fst (prunePacketNetworkState cutoff st))"
proof (intro conjI allI ballI impI)
  let ?p = "prunePacketNetworkState cutoff st"
  have ok: "nodes_ok st" using assms by (simp add: graph_inv_def)
  then have wf: "jm_wf (ns_nodes st)" by (simp add: nodes_ok_def)
  have ex: "(\<exists>e \<in> set (ns_nodes st). stale cutoff e) \<longleftrightarrow> (\<exists>x n. node_at st x = Some n \<and> stale cutoff (x, n))"
    using wf by auto
  show "snd ?p \<longleftrightarrow> (\<exists>x n. node_at st x = Some n \<and> x \<noteq> ''self'' \<and> pn_lastActivity n < cutoff)"
    unfolding prune_eq ex by (simp add: stale_def)
  show "graph_inv (fst ?p)" using assms by (rule graph_inv_prune)
  show "node_at (fst ?p) x = (case node_at st x of
      Some n \<Rightarrow> if x \<noteq> ''self'' \<and> pn_lastActivity n < cutoff then None else Some n | None \<Rightarrow> None)" for x
    unfolding prune_eq ex
    by (auto simp: pruned_node_at [OF ok] stale_def split: option.splits simp del: map_of_eq_Some_iff)
  fix obs assume obs: "obs \<in> set (ns_observations st)" and recent: "cutoff \<le> no_activityAtMs obs"
  then have "\<forall>x \<in> set (no_nodes obs). activity_ok st (no_activityAtMs obs) x"
    using assms by (simp add: graph_inv_def observation_ok_def)
  then have "list_all (jm_has (pruned_nodes cutoff st)) (no_nodes obs)"
    unfolding list_all_iff using active_not_stale recent ok by blast
  with obs show "obs \<in> set (ns_observations (fst ?p))"
    unfolding prune_eq by (simp add: pruned_base_def Let_def)
qed

lemma prune_spec_witness:
  "graph_inv (createPacketNetworkState 3 ''Me'') \<and> graph_inv (fst (prunePacketNetworkState 5 (createPacketNetworkState 3 ''Me'')))"
  using prune_spec [OF graph_inv_create [of 3 "''Me''"], of 5] graph_inv_create [of 3 "''Me''"] by blast

section \<open>Ingestion\<close>

lemma add_hop_links:
  "jm_has (ns_links st) k \<Longrightarrow> jm_has (ns_links (add_hop act e st)) k"
  by (cases e) (simp add: add_hop_def jm_has_def jm_get_addCanonicalLink)

lemma add_hop_neighbors: "y \<in> neighbors st x \<Longrightarrow> y \<in> neighbors (add_hop act e st) x"
  by (cases e) (auto simp: add_hop_def neighbors_upsert, simp_all add: neighbors_def)

lemma add_hops_links: "jm_has (ns_links st) k \<Longrightarrow> jm_has (ns_links (fold (add_hop act) es st)) k"
  by (induction es arbitrary: st) (simp_all add: add_hop_links)

lemma add_hops_neighbors: "y \<in> neighbors st x \<Longrightarrow> y \<in> neighbors (fold (add_hop act) es st) x"
  by (induction es arbitrary: st) (simp_all add: add_hop_neighbors)

lemma add_hops_joined:
  "(a, b) \<in> set es \<Longrightarrow> a \<noteq> b \<Longrightarrow>
     jm_has (ns_links (fold (add_hop act) es st)) (buildLinkKey a b)
     \<and> b \<in> neighbors (fold (add_hop act) es st) a \<and> a \<in> neighbors (fold (add_hop act) es st) b"
proof (induction es arbitrary: st)
  case (Cons e es)
  show ?case
  proof (cases "e = (a, b)")
    case True
    then have "jm_has (ns_links (add_hop act e st)) (buildLinkKey a b)"
      "b \<in> neighbors (add_hop act e st) a" "a \<in> neighbors (add_hop act e st) b"
      using Cons.prems(2) by (simp_all add: add_hop_def jm_has_def jm_get_addCanonicalLink neighbors_upsert)
    then show ?thesis by (simp add: add_hops_links add_hops_neighbors)
  next
    case False
    with Cons show ?thesis by auto
  qed
qed simp

lemma distinct_adj_consecutive: "distinct_adj xs \<Longrightarrow> consecutive xs a b \<Longrightarrow> a \<noteq> b"
  by (auto simp: consecutive_def distinct_adj_append_iff)

text \<open>A packet that is ingested yields a path of at least two nodes without equal neighbours; it is
  recorded as the newest observation, every two consecutive nodes of it are linked and are neighbours
  of each other, and all its nodes are in the graph and active at the time of the packet.\<close>

theorem ingest_spec:
  assumes "graph_inv st"
    and "ingestPacketIntoPacketNetwork decode lc now context packet st = (st', Some r)"
  shows "2 \<le> length (ir_canonicalPath r) \<and> distinct_adj (ir_canonicalPath r)
     \<and> ns_observations st' = ns_observations st @
          [\<lparr> no_activityAtMs = ir_activityAtMs r, no_nodes = ir_canonicalPath r \<rparr>]
     \<and> (\<forall>a b. consecutive (ir_canonicalPath r) a b \<longrightarrow>
          jm_has (ns_links st') (buildLinkKey a b) \<and> b \<in> neighbors st' a \<and> a \<in> neighbors st' b)
     \<and> (\<forall>x \<in> set (ir_canonicalPath r). activity_ok st' (ir_activityAtMs r) x)"
proof -
  from assms(2) obtain parsed where parsed: "parsePacket decode (rp_data packet) = Some parsed"
    by (auto simp: ingest_eq split: option.splits)
  define act where "act = normalizePacketTimestampMs now (rp_timestamp packet)"
  define b where "b = buildCanonicalPathForPacket lc now context parsed packet act st"
  have r: "2 \<le> length (snd b)" "st' = ingested (fst b) (getPacketLabel (pp_payloadType parsed)) act (snd b)"
    "ir_canonicalPath r = snd b" "ir_activityAtMs r = act"
    using assms(2) by (auto simp: ingest_eq parsed Let_def act_def b_def split: if_splits)
  note b = buildCanonicalPath_resolves [of st lc now "context" parsed packet act, folded b_def]
  have obs: "ns_observations st' = ns_observations st @ [\<lparr> no_activityAtMs = act, no_nodes = snd b \<rparr>]"
    using b by (simp add: r(2) ingested_def grows_def)
  have inv: "graph_inv st'"
    using graph_inv_ingest [OF assms(1), of decode lc now "context" packet] assms(2) by simp
  then have "\<forall>x \<in> set (snd b). activity_ok st' act x"
    using obs by (simp add: graph_inv_def observation_ok_def)
  moreover have "jm_has (ns_links st') (buildLinkKey x y) \<and> y \<in> neighbors st' x \<and> x \<in> neighbors st' y"
    if c: "consecutive (snd b) x y" for x y
    unfolding r(2) ingested_def
  proof (rule add_hops_joined)
    show "(x, y) \<in> set (hop_pairs (snd b))" using c by (simp add: hop_pairs_consecutive)
    show "x \<noteq> y" by (rule distinct_adj_consecutive [OF conjunct1 [OF conjunct2 [OF b]] c])
  qed
  ultimately show ?thesis using r b obs by simp
qed

text \<open>A decoder that reads every packet as an advert relayed by one repeater, for examples.\<close>

definition sample_decoder :: decoder where
  "sample_decoder hex = Some
     \<lparr> dp_isValid = True, dp_messageHash = ''ab12'', dp_routeType = 1, dp_payloadType = PT_Advert,
       dp_pathHashSize = Some 1, dp_path = Some [''32''],
       dp_payload = Some \<lparr> pl_publicKey = Some ''AA11BB22CC33DD44'', pl_sourceHash = None, pl_destinationHash = None,
         pl_senderPublicKey = None, pl_decrypted_sender = None, pl_pathHashes = None \<rparr> \<rparr>"

definition sample_ingest :: "packet_network_state \<times> ingest_result option" where
  "sample_ingest =
     ingestPacketIntoPacketNetwork sample_decoder (\<lambda>_ _. 0) 5 (buildPacketNetworkContext None [] [] True True)
       sample_packet (createPacketNetworkState 3 ''Me'')"

lemma sample_ingest_path:
  "map_option ir_canonicalPath (snd sample_ingest) = Some [''aa11bb22cc33'', ''?32'', ''self'']"
  by code_simp

lemma ingest_spec_witness:
  "\<exists>r. snd sample_ingest = Some r
     \<and> ns_observations (fst sample_ingest) = [\<lparr> no_activityAtMs = ir_activityAtMs r, no_nodes = ir_canonicalPath r \<rparr>]
     \<and> ''?32'' \<in> neighbors (fst sample_ingest) ''self''"
proof -
  obtain r where r: "snd sample_ingest = Some r" "ir_canonicalPath r = [''aa11bb22cc33'', ''?32'', ''self'']"
    using sample_ingest_path by (cases "snd sample_ingest") auto
  have eq: "ingestPacketIntoPacketNetwork sample_decoder (\<lambda>_ _. 0) 5 (buildPacketNetworkContext None [] [] True True)
      sample_packet (createPacketNetworkState 3 ''Me'') = (fst sample_ingest, Some r)"
    using r(1) unfolding sample_ingest_def by (metis prod.collapse)
  have "consecutive (ir_canonicalPath r) ''?32'' ''self''"
    unfolding r(2) consecutive_def by (intro exI [of _ "[''aa11bb22cc33'']"] exI [of _ "[]"]) simp
  with ingest_spec [OF graph_inv_create eq] r(1) show ?thesis
    by (simp add: createPacketNetworkState_def)
qed

section \<open>Projection\<close>

lemma known_repeater_visible: "is_known_repeater n \<Longrightarrow> isPacketNetworkNodeVisible (Some n) vis"
  by (simp add: is_known_repeater_def isPacketNetworkNodeVisible_def)

lemma visible_imp_node: "isPacketNetworkNodeVisible (node_at st x) vis \<Longrightarrow> \<exists>n. node_at st x = Some n"
  by (cases "node_at st x") (simp_all add: isPacketNetworkNodeVisible_def)

definition aliases_ok :: "packet_network_state \<Rightarrow> (string, string) jsmap \<Rightarrow> bool" where
  "aliases_ok st aliases \<longleftrightarrow>
     (\<forall>k v. jm_get aliases k = Some v \<longrightarrow> (\<exists>n. node_at st v = Some n \<and> is_known_repeater n))"

lemma alias_hop_ok:
  assumes "nodes_ok st" and "aliases_ok st aliases"
  shows "aliases_ok st (alias_hop st m e aliases)"
proof -
  have "node_at st (pn_id n) = Some n" if "node_at st x = Some n" for x n
    using assms(1) that by (auto simp: nodes_ok_iff simp del: map_of_eq_Some_iff)
  with assms(2) show ?thesis
    by (cases e) (auto simp: alias_hop_def aliases_ok_def jm_get_set split: option.splits simp del: map_of_eq_Some_iff)
qed

lemma alias_hops_ok: "nodes_ok st \<Longrightarrow> aliases_ok st aliases \<Longrightarrow> aliases_ok st (fold (alias_hop st m) es aliases)"
  by (induction es arbitrary: aliases) (simp_all add: alias_hop_ok)

lemma alias_map_ok: "nodes_ok st \<Longrightarrow> aliases_ok st (buildKnownSiblingRepeaterAliasMap st vis)"
  using alias_hops_ok [of st "[]"] by (simp add: buildKnownSiblingRepeaterAliasMap_def Let_def aliases_ok_def)

lemma compactPathSteps_nodes: "fst (compactPathSteps steps) = remdups_adj (visible_ids steps)"
  by (simp add: compactPathSteps_def Let_def compact_nodes)

lemma projected_path_visible:
  assumes "aliases_ok st aliases" and "x \<in> set (fst (projectCanonicalPathWithAliases st path vis aliases))"
  shows "isPacketNetworkNodeVisible (node_at st x) vis"
proof -
  let ?steps = "map (projection_step st vis aliases (length path)) (enumerate 0 path)"
  have "x \<in> set (visible_ids ?steps)"
    using assms(2) by (simp add: projectCanonicalPathWithAliases_def Let_def compactPathSteps_nodes dedupeConsecutive_remdups_adj)
  then obtain i y where "x = the (ps_nodeId (projection_step st vis aliases (length path) (i, y)))"
    "truthy (ps_nodeId (projection_step st vis aliases (length path) (i, y)))"
    by (auto simp: visible_ids_def)
  then have y: "x = coalesce (jm_get aliases y) y" "isPacketNetworkNodeVisible (node_at st y) vis"
    by (auto simp: projection_step_def Let_def split: if_splits)
  show ?thesis
  proof (cases "jm_get aliases y")
    case (Some v)
    with assms(1) obtain n where "node_at st v = Some n" "is_known_repeater n"
      unfolding aliases_ok_def by blast
    with Some y(1) known_repeater_visible show ?thesis by simp
  qed (use y in simp)
qed

lemma jm_get_show_nodes:
  "jm_get (fold (show_node st) xs nodes) k =
     (if k \<in> set xs \<and> node_at st k \<noteq> None then node_at st k else jm_get nodes k)"
  by (induction xs arbitrary: nodes) (auto simp: show_node_def jm_get_set split: option.splits)

lemma jm_wf_show_nodes: "jm_wf nodes \<Longrightarrow> jm_wf (fold (show_node st) xs nodes)"
  by (induction xs arbitrary: nodes) (simp_all add: show_node_def split: option.splits)

text \<open>What holds of the nodes and links collected so far.\<close>

definition projection_links_ok :: "(string, packet_network_node) jsmap \<Rightarrow> (string, projected_link) jsmap \<Rightarrow> bool" where
  "projection_links_ok nodes links \<longleftrightarrow>
     (\<forall>k l. jm_get links k = Some l \<longrightarrow> k = buildLinkKey (pl_sourceId l) (pl_targetId l)
        \<and> pl_sourceId l \<noteq> pl_targetId l \<and> jm_has nodes (pl_sourceId l) \<and> jm_has nodes (pl_targetId l)
        \<and> (pj_hasDirectObservation l \<or> pj_hasHiddenIntermediate l))"

definition projection_nodes_ok ::
  "packet_network_state \<Rightarrow> visibility_options \<Rightarrow> (string, packet_network_node) jsmap \<Rightarrow> bool" where
  "projection_nodes_ok st vis nodes \<longleftrightarrow> jm_has nodes ''self''
     \<and> (\<forall>k n. jm_get nodes k = Some n \<longrightarrow> node_at st k = Some n \<and> isPacketNetworkNodeVisible (Some n) vis)"

lemma project_link_ok:
  assumes "projection_links_ok nodes links" and "jm_has nodes (fst e)" and "jm_has nodes (snd e)"
  shows "projection_links_ok nodes (project_link dashed act e links)"
  using assms
  by (cases e) (auto simp: projection_links_ok_def project_link_def Let_def jm_get_set split: option.splits if_splits)

lemma project_links_ok:
  "projection_links_ok nodes links \<Longrightarrow> \<forall>e \<in> set es. jm_has nodes (fst e) \<and> jm_has nodes (snd e) \<Longrightarrow>
     projection_links_ok nodes (fold (project_link dashed act) es links)"
  by (induction es arbitrary: links) (simp_all add: project_link_ok)

lemma project_observation_ok:
  assumes al: "aliases_ok st aliases" and ok: "projection_nodes_ok st vis nodes" "projection_links_ok nodes links"
  shows "projection_nodes_ok st vis (fst (project_observation st vis aliases obs (nodes, links)))
     \<and> projection_links_ok (fst (project_observation st vis aliases obs (nodes, links)))
          (snd (project_observation st vis aliases obs (nodes, links)))"
proof (cases "length (fst (projectCanonicalPathWithAliases st (no_nodes obs) vis aliases)) < 2")
  case False
  define pr where "pr = projectCanonicalPathWithAliases st (no_nodes obs) vis aliases"
  define nodes' where "nodes' = fold (show_node st) (fst pr) nodes"
  have vis: "isPacketNetworkNodeVisible (node_at st x) vis" if "x \<in> set (fst pr)" for x
    using projected_path_visible [OF al] that by (simp add: pr_def)
  have has: "jm_has nodes' x \<longleftrightarrow> x \<in> set (fst pr) \<or> jm_has nodes x" for x
    using visible_imp_node [OF vis, of x] by (auto simp: nodes'_def jm_has_def jm_get_show_nodes)
  have 1: "projection_nodes_ok st vis nodes'"
    unfolding projection_nodes_ok_def
  proof (intro conjI allI impI)
    show "jm_has nodes' ''self''" using ok(1) has by (simp add: projection_nodes_ok_def)
    fix k n assume "jm_get nodes' k = Some n"
    then consider "k \<in> set (fst pr)" "node_at st k = Some n" | "jm_get nodes k = Some n"
      by (auto simp: nodes'_def jm_get_show_nodes simp del: map_of_eq_Some_iff split: if_splits)
    then show "node_at st k = Some n" "isPacketNetworkNodeVisible (Some n) vis"
      using vis [of k] ok(1) unfolding projection_nodes_ok_def by (cases; force)+
  qed
  have "projection_links_ok nodes' links"
    using ok(2) has unfolding projection_links_ok_def by blast
  then have 2: "projection_links_ok nodes' (fold (project_link (snd pr) (no_activityAtMs obs)) (hop_pairs (fst pr)) links)"
    using set_hop_pairs has by (blast intro: project_links_ok)
  show ?thesis
    using False 1 2 by (simp add: project_observation_def Let_def pr_def nodes'_def)
qed (use ok in \<open>simp add: project_observation_def Let_def\<close>)

lemma project_observations_ok:
  assumes "aliases_ok st aliases" and "projection_nodes_ok st vis (fst p)" and "projection_links_ok (fst p) (snd p)"
  shows "projection_nodes_ok st vis (fst (fold (project_observation st vis aliases) obss p))
     \<and> projection_links_ok (fst (fold (project_observation st vis aliases) obss p))
          (snd (fold (project_observation st vis aliases) obss p))"
  using assms(2,3)
proof (induction obss arbitrary: p)
  case (Cons obs obss)
  from project_observation_ok [OF assms(1) Cons.prems, of obs] Cons.IH show ?case
    unfolding prod.collapse by simp
qed simp

text \<open>C29. The rendered graph is consistent with the visibility options: it contains the radio's own node,
  every rendered node is a node of the state that the options show, every rendered link joins two
  different rendered nodes and is stored under their key, and every link stems from a direct
  observation or from one with hidden hops in between.\<close>

theorem projectPacketNetwork_spec:
  assumes "graph_inv st"
  shows "projection_nodes_ok st vis (pr_nodes (projectPacketNetwork st vis))
     \<and> projection_links_ok (pr_nodes (projectPacketNetwork st vis)) (pr_links (projectPacketNetwork st vis))
     \<and> set (pr_renderedNodeIds (projectPacketNetwork st vis)) = set (jm_keys (pr_nodes (projectPacketNetwork st vis)))"
proof -
  have ok: "nodes_ok st" using assms by (simp add: graph_inv_def)
  then obtain s where s: "node_at st ''self'' = Some s" by (auto simp: nodes_ok_iff)
  have "pn_id s = ''self''" using ok s by (auto simp: nodes_ok_iff simp del: map_of_eq_Some_iff)
  then have "projection_nodes_ok st vis [(''self'', s)]"
    using s by (simp add: projection_nodes_ok_def jm_has_def isPacketNetworkNodeVisible_def)
  moreover have "projection_links_ok [(''self'', s)] []" by (simp add: projection_links_ok_def)
  ultimately show ?thesis
    using project_observations_ok [OF alias_map_ok [OF ok, of vis], of vis "([(''self'', s)], [])" "ns_observations st"] s
    by (simp add: projectPacketNetwork_def Let_def case_prod_unfold)
qed

lemma projectPacketNetwork_spec_witness:
  "set (pr_renderedNodeIds (projectPacketNetwork (createPacketNetworkState 3 ''Me'')
      \<lparr> vo_showAmbiguousNodes = False, vo_showAmbiguousPaths = True, vo_collapseLikelyKnownSiblingRepeaters = True \<rparr>)) =
   set (jm_keys (pr_nodes (projectPacketNetwork (createPacketNetworkState 3 ''Me'')
      \<lparr> vo_showAmbiguousNodes = False, vo_showAmbiguousPaths = True, vo_collapseLikelyKnownSiblingRepeaters = True \<rparr>)))"
  using projectPacketNetwork_spec [OF graph_inv_create] by blast

section \<open>The likely repeater\<close>

text \<open>An element that outweighs every other one of a multiset by a factor of two.\<close>

definition dominant :: "('a \<Rightarrow> nat) \<Rightarrow> 'a multiset \<Rightarrow> 'a \<Rightarrow> bool" where
  "dominant f M c \<longleftrightarrow> c \<in># M \<and> 2 \<le> f c \<and> (\<forall>d \<in># M - {#c#}. 2 * f d \<le> f c)"

lemma dominant_filter:
  assumes "\<And>d. \<not> P d \<Longrightarrow> f d = 0"
  shows "dominant f (filter_mset P M) c \<longleftrightarrow> dominant f M c"
proof (cases "P c")
  case True
  then have eq: "filter_mset P M - {#c#} = filter_mset P (M - {#c#})" by (simp add: filter_diff_mset)
  have "2 * f d \<le> f c" if "\<not> P d" for d using assms [OF that] by simp
  then have "(\<forall>d \<in># filter_mset P (M - {#c#}). 2 * f d \<le> f c) \<longleftrightarrow> (\<forall>d \<in># M - {#c#}. 2 * f d \<le> f c)"
    unfolding set_mset_filter by blast
  with True show ?thesis unfolding dominant_def eq by simp
qed (simp add: dominant_def assms)

lemma dominant_max:
  assumes "\<forall>d \<in># N. f d \<le> f b"
  shows "dominant f (add_mset b N) c \<longleftrightarrow> c = b \<and> 2 \<le> f b \<and> (\<forall>d \<in># N. 2 * f d \<le> f b)"
proof (cases "c = b")
  case False
  have "\<not> dominant f (add_mset b N) c"
  proof
    assume dom: "dominant f (add_mset b N) c"
    with False have "c \<in># N" by (simp add: dominant_def)
    moreover have "2 * f b \<le> f c" using dom False by (simp add: dominant_def)
    moreover have "2 \<le> f c" using dom by (simp add: dominant_def)
    ultimately show False using assms by fastforce
  qed
  with False show ?thesis by simp
qed (simp add: dominant_def)

lemma insert_score_sorted:
  assumes "sorted_wrt (\<lambda>a b. sc_matchScore b \<le> sc_matchScore a) xs"
  shows "sorted_wrt (\<lambda>a b. sc_matchScore b \<le> sc_matchScore a) (insert_by (score_before lc) x xs)"
  using assms
proof (induction xs)
  case (Cons y ys)
  show ?case
  proof (cases "score_before lc x y")
    case True
    then have "sc_matchScore y \<le> sc_matchScore x" by (auto simp: score_before_def split: if_splits)
    with True Cons.prems show ?thesis by auto
  next
    case False
    then have "sc_matchScore x \<le> sc_matchScore y" by (auto simp: score_before_def split: if_splits)
    with False Cons show ?thesis by (auto simp: set_insert_by)
  qed
qed simp

lemma scores_sorted:
  "sorted_wrt (\<lambda>a b. sc_matchScore b \<le> sc_matchScore a) (sort_by (score_before lc) xs)"
  unfolding sort_by_def by (induction xs) (simp_all add: insert_score_sorted)

lemma match_le_total: "match_score ctx nextHop c \<le> total_score ctx c"
  unfolding match_score_def total_score_def by (rule sum_list_mono) simp

definition score_of :: "packet_network_context \<Rightarrow> string option \<Rightarrow> contact \<Rightarrow> advert_score" where
  "score_of ctx nextHop c =
     \<lparr> sc_candidate = c, sc_matchScore = match_score ctx nextHop c, sc_totalScore = total_score ctx c \<rparr>"

definition scored_list :: "(string \<Rightarrow> string \<Rightarrow> int) \<Rightarrow> packet_network_context \<Rightarrow> contact list \<Rightarrow> string option \<Rightarrow> advert_score list" where
  "scored_list lc ctx cs nextHop =
     sort_by (score_before lc) (filter (\<lambda>e. 0 < sc_totalScore e) (map (score_of ctx nextHop) cs))"

lemma scored_list_score: "e \<in> set (scored_list lc ctx cs nextHop) \<Longrightarrow> sc_matchScore e = match_score ctx nextHop (sc_candidate e)"
  by (auto simp: scored_list_def score_of_def)

lemma scored_list_mset:
  "image_mset sc_candidate (mset (scored_list lc ctx cs nextHop)) = filter_mset (\<lambda>c. 0 < total_score ctx c) (mset cs)"
  unfolding scored_list_def mset_sort_by by (induction cs) (simp_all add: score_of_def)

lemma pick_eq:
  "pickLikelyRepeaterByAdvertPath lc ctx cs nextPrefix =
     (case scored_list lc ctx cs (map_option to_lower nextPrefix) of
        [] \<Rightarrow> None
      | best # rest \<Rightarrow>
          if 2 \<le> sc_matchScore best \<and> (\<forall>d \<in> set rest. 2 * sc_matchScore d \<le> sc_matchScore best)
          then Some (sc_candidate best) else None)"
proof -
  let ?l = "scored_list lc ctx cs (map_option to_lower nextPrefix)"
  have sorted: "sorted_wrt (\<lambda>a b. sc_matchScore b \<le> sc_matchScore a) ?l"
    unfolding scored_list_def by (rule scores_sorted)
  have second: "(\<forall>d \<in> set (s # rest). 2 * sc_matchScore d \<le> sc_matchScore best) \<longleftrightarrow> \<not> sc_matchScore best < sc_matchScore s * 2"
    if "?l = best # s # rest" for best s rest
    using sorted that by fastforce
  show ?thesis
    unfolding pickLikelyRepeaterByAdvertPath_def Let_def score_of_def [symmetric] scored_list_def [symmetric]
    using second by (auto split: list.splits)
qed

text \<open>Among the candidates for an ambiguous hop the advert paths single one out exactly when it was
  heard with that next hop at least twice and at least twice as often as every other candidate: in
  particular the choice depends neither on the order of the candidates nor on the locale.\<close>

theorem pickLikelyRepeater_iff:
  "pickLikelyRepeaterByAdvertPath lc ctx candidates nextPrefix = Some c \<longleftrightarrow>
     dominant (match_score ctx (map_option to_lower nextPrefix)) (mset candidates) c"
proof -
  let ?next = "map_option to_lower nextPrefix"
  let ?heard = "match_score ctx ?next"
  let ?l = "scored_list lc ctx candidates ?next"
  have zero: "?heard d = 0" if "\<not> 0 < total_score ctx d" for d
    using that match_le_total [of ctx ?next d] by simp
  have dom: "dominant ?heard (mset candidates) c \<longleftrightarrow> dominant ?heard (image_mset sc_candidate (mset ?l)) c"
    unfolding scored_list_mset by (simp add: dominant_filter zero)
  show ?thesis
  proof (cases ?l)
    case Nil
    then show ?thesis unfolding dom by (simp add: pick_eq dominant_def)
  next
    case (Cons best rest)
    have sorted: "sorted_wrt (\<lambda>a b. sc_matchScore b \<le> sc_matchScore a) ?l"
      unfolding scored_list_def by (rule scores_sorted)
    have score: "sc_matchScore e = ?heard (sc_candidate e)" if "e \<in> set (best # rest)" for e
      using scored_list_score that unfolding Cons [symmetric] by blast
    have "\<forall>d \<in># image_mset sc_candidate (mset rest). ?heard d \<le> ?heard (sc_candidate best)"
      using sorted score Cons by auto
    from dominant_max [OF this] show ?thesis
      unfolding dom pick_eq Cons using score by auto
  qed
qed

section \<open>The contact index\<close>

lemma jm_get_push_prefix:
  "jm_get (push_prefix c q m) p = (if p = q then Some (coalesce (jm_get m q) [] @ [c]) else jm_get m p)"
  by (simp add: push_prefix_def jm_get_set split: option.split)

lemma jm_get_push_prefixes:
  "distinct ps \<Longrightarrow> jm_get (fold (push_prefix c) ps m) p =
     (if p \<in> set ps then Some (coalesce (jm_get m p) [] @ [c]) else jm_get m p)"
  by (induction ps arbitrary: m) (auto simp: jm_get_push_prefix)

lemma prefix_lengths:
  assumes "length k = 12"
  shows "distinct (map (\<lambda>len. take len k) [1..<13])"
    and "p \<in> set (map (\<lambda>len. take len k) [1..<13]) \<longleftrightarrow> p \<noteq> [] \<and> prefix p k"
proof -
  show "distinct (map (\<lambda>len. take len k) [1..<13])"
  proof (subst distinct_map, intro conjI inj_onI)
    fix x y assume "x \<in> set [1..<13]" "y \<in> set [1..<13]" "take x k = take y k"
    then have "length (take x k) = length (take y k)" "x \<le> 12" "y \<le> 12" by auto
    with assms show "x = y" by (simp add: min_def)
  qed simp
  have "\<exists>len \<in> {1..<13}. p = take len k" if "p \<noteq> []" "prefix p k"
  proof (rule bexI [of _ "length p"])
    show "p = take (length p) k" using that by (auto simp: prefix_def)
    show "length p \<in> {1..<13}" using that assms prefix_length_le [of p k] by (cases p) auto
  qed
  moreover have "p \<noteq> [] \<and> prefix p k" if "p = take len k" "len \<in> {1..<13}" for len
    using that assms by (auto simp: take_is_prefix)
  moreover have "p \<in> set (map (\<lambda>len. take len k) [1..<13]) \<longleftrightarrow> (\<exists>len \<in> {1..<13}. p = take len k)"
    by auto
  ultimately show "p \<in> set (map (\<lambda>len. take len k) [1..<13]) \<longleftrightarrow> p \<noteq> [] \<and> prefix p k"
    by blast
qed

lemma index_contact_byPrefix:
  assumes "12 \<le> length (ct_public_key c)"
  shows "jm_get (ci_byPrefix (index_contact c ci)) p =
     (if p \<noteq> [] \<and> prefix p (key12 (ct_public_key c))
      then Some (coalesce (jm_get (ci_byPrefix ci) p) [] @ [c]) else jm_get (ci_byPrefix ci) p)"
proof -
  let ?k = "key12 (ct_public_key c)" and ?f = "\<lambda>len. take len (key12 (ct_public_key c))"
  have len: "length ?k = 12" using assms by (simp add: key12_def)
  have "ci_byPrefix (index_contact c ci) = fold (push_prefix c) (map ?f [1..<13]) (ci_byPrefix ci)"
    unfolding index_contact_def Let_def fold_map by (simp add: o_def del: upt_conv_Cons upt_rec_numeral)
  then show ?thesis
    by (simp only: jm_get_push_prefixes [OF prefix_lengths(1) [OF len]] prefix_lengths(2) [OF len])
qed

definition matches_of :: "contact list \<Rightarrow> string \<Rightarrow> contact list" where
  "matches_of contacts p = filter (\<lambda>c. prefix p (key12 (ct_public_key c))) contacts"

lemma index_byPrefix:
  assumes "\<forall>c \<in> set contacts. 12 \<le> length (ct_public_key c)" and "p \<noteq> []"
  shows "jm_get (ci_byPrefix (fold index_contact contacts \<lparr> ci_byPrefix12 = [], ci_byName = [], ci_byPrefix = [] \<rparr>)) p =
     (if matches_of contacts p = [] then None else Some (matches_of contacts p))"
  using assms(1)
proof (induction contacts rule: rev_induct)
  case (snoc c cs)
  then show ?case
    using assms(2) by (simp add: index_contact_byPrefix matches_of_def)
qed (simp add: matches_of_def)

lemma find_snoc: "find P (xs @ [x]) = (case find P xs of Some y \<Rightarrow> Some y | None \<Rightarrow> if P x then Some x else None)"
  by (induction xs) auto

lemma index_byName:
  "n \<noteq> [] \<Longrightarrow> jm_get (ci_byName (fold index_contact contacts \<lparr> ci_byPrefix12 = [], ci_byName = [], ci_byPrefix = [] \<rparr>)) n =
     find (\<lambda>c. ct_name c = Some n) contacts"
proof (induction contacts rule: rev_induct)
  case (snoc c cs)
  then show ?case
    by (auto simp: index_contact_def Let_def jm_get_set jm_has_def truthy_iff find_snoc split: option.splits)
qed simp

text \<open>The contact index answers queries as a scan of the contact list would: a non-empty key prefix
  yields the contacts whose key (its first twelve digits, in lower case) starts with it, in list
  order, and a name yields the first contact of that name.\<close>

theorem contact_index_spec:
  assumes "\<forall>c \<in> set contacts. 12 \<le> length (ct_public_key c)" and "p \<noteq> []" and "n \<noteq> []"
  shows "coalesce (jm_get (ci_byPrefix (nc_contactIndex (buildPacketNetworkContext config contacts adverts split hints))) p) []
           = filter (\<lambda>c. prefix p (key12 (ct_public_key c))) contacts
     \<and> jm_get (ci_byName (nc_contactIndex (buildPacketNetworkContext config contacts adverts split hints))) n
           = find (\<lambda>c. ct_name c = Some n) contacts"
  using index_byPrefix [OF assms(1,2)] index_byName [OF assms(3), of contacts]
  by (simp add: buildPacketNetworkContext_def matches_of_def)

lemma contact_index_spec_witness:
  "coalesce (jm_get (ci_byPrefix (nc_contactIndex
     (buildPacketNetworkContext None [sample_contact] [] False False))) ''3a'') [] = [sample_contact]"
proof -
  have "key12 (ct_public_key sample_contact) = ''3a40c0ffee00''" "12 \<le> length (ct_public_key sample_contact)"
    by code_simp+
  with contact_index_spec [of "[sample_contact]" "''3a''" "''Bob''" None "[]" False False] show ?thesis by simp
qed

end
