(* ===== verification/Path_Utils.thy ===== *)
theory Path_Utils
  imports App_Types
begin

text \<open>
  Paths and routes (\<^verbatim>\<open>utils/pathUtils.ts\<close>): splitting a path into hops, the route that applies to a
  contact, cutting the payload out of a raw packet, and resolving a path to contacts and distances.

  Coordinates and distances are real numbers: rounding of floating-point numbers is not modelled.
  A quotient that the source computes in floating point and then tests for being an even integer is
  a divisibility test here. \<^verbatim>\<open>parseInt\<close> yields an option and the bit operations read \<^verbatim>\<open>NaN\<close> as 0; on
  the small integers of one byte they are \<open>div\<close> and \<open>mod\<close>.
\<close>

section \<open>Hash modes and hops\<close>

definition normalizePathHashMode :: "int option \<Rightarrow> int option" where
  "normalizePathHashMode mode =
     (case mode of None \<Rightarrow> None | Some m \<Rightarrow> if m < 0 \<or> 2 < m then None else Some m)"

definition inferPathHashMode :: "string option \<Rightarrow> int option \<Rightarrow> int option" where
  "inferPathHashMode path hopCount =
     (case (path, hopCount) of
        (Some p, Some h) \<Rightarrow>
          if p = [] \<or> h \<le> 0 then None
          else
            (let charsPerHop = int (length p) div h
             in if h dvd int (length p) \<and> 2 \<le> charsPerHop \<and> charsPerHop \<le> 6 \<and> even charsPerHop
                then Some (charsPerHop div 2 - 1) else None)
      | _ \<Rightarrow> None)"

definition formatEndpointPrefix :: "string option \<Rightarrow> int option \<Rightarrow> string" where
  "formatEndpointPrefix key pathHashMode =
     (if \<not> truthy key then ''??''
      else
        (let normalized = to_upper (the key);
             hashMode = coalesce (normalizePathHashMode pathHashMode) 0;
             chars = nat ((hashMode + 1) * 2)
         in take (min chars (length normalized)) normalized))"

function chunks :: "nat \<Rightarrow> 'a list \<Rightarrow> 'a list list" where
  "chunks n xs = (if 0 < n \<and> n \<le> length xs then take n xs # chunks n (drop n xs) else [])"
  by pat_completeness auto
termination
  by (relation "measure (length \<circ> snd)") auto

declare chunks.simps [simp del]

definition chars_per_hop :: "nat \<Rightarrow> int option \<Rightarrow> nat" where
  "chars_per_hop len hopCount =
     (case hopCount of
        Some h \<Rightarrow>
          if 0 < h \<and> h dvd int len \<and> 2 \<le> int len div h \<and> even (int len div h) then nat (int len div h) else 2
      | None \<Rightarrow> 2)"

definition parsePathHops :: "string option \<Rightarrow> int option \<Rightarrow> string list" where
  "parsePathHops path hopCount =
     (case path of
        None \<Rightarrow> []
      | Some p \<Rightarrow>
          if p = [] then []
          else (let normalized = to_upper p in chunks (chars_per_hop (length normalized) hopCount) normalized))"

section \<open>The route of a contact\<close>

record effective_contact_route =
  er_path :: "string option"
  er_pathLen :: int
  er_pathHashMode :: int
  er_forced :: bool
  er_source :: route_source

definition hasRoutingOverride :: "contact \<Rightarrow> bool" where
  "hasRoutingOverride contact \<longleftrightarrow>
     nullish (ct_route_override contact) \<noteq> None \<or> nullish (ct_route_override_len contact) \<noteq> None"

definition getDirectContactRoute :: "contact \<Rightarrow> contact_route option" where
  "getDirectContactRoute contact =
     (case nullish (ct_direct_route contact) of
        Some r \<Rightarrow> Some r
      | None \<Rightarrow>
          if ct_direct_path_len contact < 0 then None
          else Some \<lparr> cr_path = coalesce (ct_direct_path contact) [],
                      cr_path_len = ct_direct_path_len contact,
                      cr_path_hash_mode =
                        (case normalizePathHashMode (Some (ct_direct_path_hash_mode contact)) of
                           Some m \<Rightarrow> m
                         | None \<Rightarrow> coalesce (inferPathHashMode (ct_direct_path contact) (Some (ct_direct_path_len contact))) 0) \<rparr>)"

definition getRouteOverride :: "contact \<Rightarrow> contact_route option" where
  "getRouteOverride contact =
     (case nullish (ct_route_override contact) of
        Some r \<Rightarrow> Some r
      | None \<Rightarrow>
          if \<not> hasRoutingOverride contact then None
          else
            (let pathLen = coalesce (nullish (ct_route_override_len contact)) (-1);
                 pathHashMode =
                   (if pathLen = -1 then -1
                    else (case normalizePathHashMode (nullish (ct_route_override_hash_mode contact)) of
                            Some m \<Rightarrow> m
                          | None \<Rightarrow> coalesce (inferPathHashMode (nullish (ct_route_override_path contact)) (Some pathLen)) 0))
             in Some \<lparr> cr_path = coalesce (nullish (ct_route_override_path contact)) [],
                       cr_path_len = pathLen, cr_path_hash_mode = pathHashMode \<rparr>))"

definition getEffectiveContactRoute :: "contact \<Rightarrow> effective_contact_route" where
  "getEffectiveContactRoute contact =
     (case nullish (ct_effective_route contact) of
        Some route \<Rightarrow>
          \<lparr> er_path = or_null (Some (cr_path route)), er_pathLen = cr_path_len route,
            er_pathHashMode = cr_path_hash_mode route,
            er_forced = (ct_effective_route_source contact = Some Src_override),
            er_source = coalesce (ct_effective_route_source contact) Src_flood \<rparr>
      | None \<Rightarrow>
          (let directRoute = getDirectContactRoute contact;
               overrideRoute = getRouteOverride contact;
               resolvedRoute = (case overrideRoute of Some r \<Rightarrow> Some r | None \<Rightarrow> directRoute);
               src = (if overrideRoute \<noteq> None then Src_override
                      else if directRoute \<noteq> None then Src_direct else Src_flood);
               pathLen = (case resolvedRoute of Some r \<Rightarrow> cr_path_len r | None \<Rightarrow> -1);
               mode = map_option cr_path_hash_mode resolvedRoute;
               pathHashMode =
                 (if pathLen = -1 then -1
                  else if mode = None \<or> the mode < 0 \<or> 2 < the mode
                  then coalesce (inferPathHashMode (map_option cr_path resolvedRoute) (Some pathLen)) 0
                  else the mode)
           in \<lparr> er_path = or_null (map_option cr_path resolvedRoute), er_pathLen = pathLen,
                er_pathHashMode = pathHashMode, er_forced = (src = Src_override), er_source = src \<rparr>))"

definition formatRouteLabel :: "int \<Rightarrow> bool \<Rightarrow> string" where
  "formatRouteLabel pathLen capitalize =
     (let label = (if pathLen = -1 then ''flood''
                   else if pathLen = 0 then ''direct''
                   else show_int pathLen @ '' hop'' @ (if pathLen = 1 then [] else ''s''))
      in if capitalize then to_upper (take 1 label) @ drop 1 label else label)"

definition route_summary :: "string option \<Rightarrow> int \<Rightarrow> string" where
  "route_summary path pathLen =
     (let hops = parsePathHops path (Some pathLen);
          label = formatRouteLabel pathLen True
      in if hops \<noteq> [] then label @ '' ('' @ join '' -> '' hops @ '')'' else label)"

definition formatLearnedRouteSummary :: "contact \<Rightarrow> string" where
  "formatLearnedRouteSummary contact =
     (case getDirectContactRoute contact of
        None \<Rightarrow> formatRouteLabel (-1) True
      | Some r \<Rightarrow> route_summary (Some (cr_path r)) (cr_path_len r))"

definition formatForcedRouteSummary :: "contact \<Rightarrow> string option" where
  "formatForcedRouteSummary contact =
     (if \<not> hasRoutingOverride contact then None
      else
        (let r = getEffectiveContactRoute contact
         in if er_pathLen r = -1 then Some (formatRouteLabel (-1) True)
            else Some (route_summary (er_path r) (er_pathLen r))))"

definition formatRoutingOverrideInput :: "contact \<Rightarrow> string" where
  "formatRoutingOverrideInput contact =
     (case getRouteOverride contact of
        None \<Rightarrow> []
      | Some r \<Rightarrow>
          if cr_path_len r = -1 then ''-1''
          else if cr_path_len r = 0 then ''0''
          else join '','' (map to_lower (parsePathHops (Some (cr_path r)) (Some (cr_path_len r)))))"

section \<open>The payload of a packet\<close>

definition MAX_PATH_BYTES :: int where "MAX_PATH_BYTES = 64"

definition byte_at :: "nat \<Rightarrow> string \<Rightarrow> int" where
  "byte_at i s = coalesce (parse_int16 (take 2 (drop i s))) 0"

definition extractPacketPayloadHex :: "string \<Rightarrow> string option" where
  "extractPacketPayloadHex packetHex =
     (if length packetHex < 4 then None
      else
        (let normalized = to_upper packetHex;
             routeType = byte_at 0 normalized mod 4;
             transport = (routeType = 0 \<or> routeType = 3);
             offset1 = (if transport then 2 + 8 else 2 :: nat)
         in if transport \<and> length normalized < 2 + 8 then None
            else if length normalized < offset1 + 2 then None
            else
              (let pathByte = byte_at offset1 normalized;
                   offset2 = offset1 + 2;
                   hashMode = (pathByte div 64) mod 4
               in if hashMode = 3 then None
                  else
                    (let hopCount = pathByte mod 64;
                         hashSize = hashMode + 1;
                         pathByteLen = hopCount * hashSize
                     in if pathByteLen > MAX_PATH_BYTES then None
                        else
                          (let pathHexChars = nat (pathByteLen * 2)
                           in if length normalized < offset2 + pathHexChars then None
                              else if length normalized \<le> offset2 + pathHexChars then None
                              else Some (drop (offset2 + pathHexChars) normalized))))))"

section \<open>Contacts and distances\<close>

definition findContactsByPrefix :: "string \<Rightarrow> contact list \<Rightarrow> bool \<Rightarrow> contact list" where
  "findContactsByPrefix pfx contacts repeatersOnly =
     filter (\<lambda>c. \<not> (repeatersOnly \<and> ct_type c \<noteq> CONTACT_TYPE_REPEATER)
                 \<and> starts_with (to_upper (ct_public_key c)) (to_upper pfx)) contacts"

definition toRad :: "real \<Rightarrow> real" where
  "toRad deg = (deg * pi) / 180"

text \<open>\<^verbatim>\<open>Math.atan2\<close> on two non-negative numbers.\<close>

definition atan2_nonneg :: "real \<Rightarrow> real \<Rightarrow> real" where
  "atan2_nonneg y x = (if x = 0 then (if y = 0 then 0 else pi / 2) else arctan (y / x))"

definition haversine :: "real \<Rightarrow> real \<Rightarrow> real \<Rightarrow> real \<Rightarrow> real" where
  "haversine lat1 lon1 lat2 lon2 =
     (let dLat = toRad (lat2 - lat1); dLon = toRad (lon2 - lon1)
      in sin (dLat / 2) * sin (dLat / 2)
         + cos (toRad lat1) * cos (toRad lat2) * sin (dLon / 2) * sin (dLon / 2))"

definition great_circle :: "real \<Rightarrow> real \<Rightarrow> real \<Rightarrow> real \<Rightarrow> real" where
  "great_circle lat1 lon1 lat2 lon2 =
     (let a = haversine lat1 lon1 lat2 lon2; c = 2 * atan2_nonneg (sqrt a) (sqrt (1 - a)) in 6371 * c)"

fun calculateDistance :: "real option \<Rightarrow> real option \<Rightarrow> real option \<Rightarrow> real option \<Rightarrow> real option" where
  "calculateDistance (Some lat1) (Some lon1) (Some lat2) (Some lon2) = Some (great_circle lat1 lon1 lat2 lon2)"
| "calculateDistance _ _ _ _ = None"

fun isValidLocation :: "real option \<Rightarrow> real option \<Rightarrow> bool" where
  "isValidLocation (Some lat) (Some lon) \<longleftrightarrow>
     \<not> (lat < -90 \<or> 90 < lat \<or> lon < -180 \<or> 180 < lon) \<and> \<not> (lat = 0 \<and> lon = 0)"
| "isValidLocation _ _ \<longleftrightarrow> False"

definition nearer :: "real option \<Rightarrow> real option \<Rightarrow> contact \<Rightarrow> contact \<Rightarrow> bool" where
  "nearer fromLat fromLon a b =
     (case (calculateDistance fromLat fromLon (ct_lat a) (ct_lon a), calculateDistance fromLat fromLon (ct_lat b) (ct_lon b)) of
        (None, None) \<Rightarrow> True
      | (None, Some _) \<Rightarrow> False
      | (Some _, None) \<Rightarrow> True
      | (Some distA, Some distB) \<Rightarrow> distA \<le> distB)"

definition sortContactsByDistance :: "contact list \<Rightarrow> real option \<Rightarrow> real option \<Rightarrow> contact list" where
  "sortContactsByDistance contacts fromLat fromLon =
     (if fromLat = None \<or> fromLon = None then contacts else sort_by (nearer fromLat fromLon) contacts)"

section \<open>Hop counts\<close>

definition getHopCount :: "string option \<Rightarrow> int option \<Rightarrow> int" where
  "getHopCount path hopCount =
     (if hopCount \<noteq> None \<and> 0 \<le> the hopCount then the hopCount
      else if \<not> truthy path then 0
      else int (length (the path) div 2))"

record hop_counts =
  hc_display :: string
  hc_allDirect :: bool
  hc_hasMultiple :: bool

definition formatHopCounts :: "message_path list option \<Rightarrow> hop_counts" where
  "formatHopCounts paths =
     (case paths of
        None \<Rightarrow> \<lparr> hc_display = [], hc_allDirect = True, hc_hasMultiple = False \<rparr>
      | Some ps \<Rightarrow>
          if ps = [] then \<lparr> hc_display = [], hc_allDirect = True, hc_hasMultiple = False \<rparr>
          else
            (let hopCounts = sort (map (\<lambda>p. getHopCount (Some (mp_path p)) (nullish (mp_path_len p))) ps)
             in \<lparr> hc_display = join ''/'' (map (\<lambda>h. if h = 0 then ''d'' else show_int h) hopCounts),
                  hc_allDirect = list_all (\<lambda>h. h = 0) hopCounts,
                  hc_hasMultiple = 1 < length ps \<rparr>))"

definition formatPathHopWidths :: "message_path list option \<Rightarrow> string option" where
  "formatPathHopWidths paths =
     (case paths of
        None \<Rightarrow> None
      | Some ps \<Rightarrow>
          (let bytesPerHop = js_set_of (map (\<lambda>m. m + 1)
                 (List.map_filter (\<lambda>p. inferPathHashMode (Some (mp_path p)) (nullish (mp_path_len p))) ps))
           in if bytesPerHop = [] then None
              else Some (join ''/'' (map (\<lambda>w. show_int w @ ''B'') (sort bytesPerHop)))))"

section \<open>Resolving a path\<close>

record path_hop =
  ph_prefix :: string
  ph_matches :: "contact list"
  ph_distanceFromPrev :: "real option"

record endpoint =
  ep_name :: string
  ep_prefix :: string
  ep_lat :: "real option"
  ep_lon :: "real option"

record receiver = endpoint +
  re_publicKey :: "string option"

record resolved_path =
  rv_sender :: endpoint
  rv_hops :: "path_hop list"
  rv_receiver :: receiver
  rv_totalDistances :: "real list option"
  rv_hasGaps :: bool

record sender_info =
  si_name :: string
  si_publicKeyOrPrefix :: string
  si_lat :: "real option"
  si_lon :: "real option"
  si_pathHashMode :: "int opt"

definition located :: "contact list \<Rightarrow> bool" where
  "located matches \<longleftrightarrow>
     (case matches of [m] \<Rightarrow> isValidLocation (ct_lat m) (ct_lon m) | _ \<Rightarrow> False)"

record hop_state =
  hs_hops :: "path_hop list"
  hs_prevLat :: "real option"
  hs_prevLon :: "real option"
  hs_prevHopUncertain :: bool

definition resolve_hop :: "contact list \<Rightarrow> hop_state \<Rightarrow> string \<Rightarrow> hop_state" where
  "resolve_hop contacts st pfx =
     (let matches = findContactsByPrefix pfx contacts True;
          sortedMatches = sortContactsByDistance matches (hs_prevLat st) (hs_prevLon st);
          first = hd sortedMatches;
          distanceFromPrev =
            (if \<not> hs_prevHopUncertain st \<and> located sortedMatches
             then calculateDistance (hs_prevLat st) (hs_prevLon st) (ct_lat first) (ct_lon first) else None);
          hops = hs_hops st @ [\<lparr> ph_prefix = pfx, ph_matches = sortedMatches, ph_distanceFromPrev = distanceFromPrev \<rparr>];
          valid = (sortedMatches \<noteq> [] \<and> isValidLocation (ct_lat first) (ct_lon first))
      in \<lparr> hs_hops = hops,
           hs_prevLat = (if valid then ct_lat first else None),
           hs_prevLon = (if valid then ct_lon first else None),
           hs_prevHopUncertain = (\<not> (length sortedMatches = 1 \<and> valid)) \<rparr>)"

record distance_state =
  ds_prevLat :: "real option"
  ds_prevLon :: "real option"
  ds_totalDistance :: real
  ds_hasAnyDistance :: bool
  ds_lastUnambiguousHopIndex :: int

definition distance_step :: "distance_state \<Rightarrow> nat \<times> path_hop \<Rightarrow> distance_state" where
  "distance_step st = (\<lambda>(i, hop).
     if \<not> located (ph_matches hop) then st\<lparr> ds_prevLat := None, ds_prevLon := None \<rparr>
     else
       (let m = hd (ph_matches hop);
            dist = calculateDistance (ds_prevLat st) (ds_prevLon st) (ct_lat m) (ct_lon m)
        in \<lparr> ds_prevLat = ct_lat m, ds_prevLon = ct_lon m,
             ds_totalDistance = ds_totalDistance st + coalesce dist 0,
             ds_hasAnyDistance = (ds_hasAnyDistance st \<or> dist \<noteq> None),
             ds_lastUnambiguousHopIndex = int i \<rparr>))"

definition calculateTotalDistances ::
  "real option \<Rightarrow> real option \<Rightarrow> path_hop list \<Rightarrow> real option \<Rightarrow> real option \<Rightarrow> real list option" where
  "calculateTotalDistances senderLat senderLon hops receiverLat receiverLon =
     (if hops = [] then
        (if \<not> isValidLocation senderLat senderLon \<or> \<not> isValidLocation receiverLat receiverLon then None
         else map_option (\<lambda>d. [d]) (calculateDistance senderLat senderLon receiverLat receiverLon))
      else
        (let found = find_index (\<lambda>hop. located (ph_matches hop)) hops;
             searching = (\<not> isValidLocation senderLat senderLon \<and> found \<noteq> None);
             m = hd (ph_matches (hops ! the found));
             prevLat = (if searching then ct_lat m else senderLat);
             prevLon = (if searching then ct_lon m else senderLon);
             startHopIndex = (if searching then the found + 1 else 0)
         in if \<not> isValidLocation prevLat prevLon then None
            else
              (let st = foldl distance_step
                     \<lparr> ds_prevLat = prevLat, ds_prevLon = prevLon, ds_totalDistance = 0, ds_hasAnyDistance = False,
                       ds_lastUnambiguousHopIndex = -1 \<rparr>
                     (enumerate startHopIndex (drop startHopIndex hops));
                   finalDist =
                     (if ds_lastUnambiguousHopIndex st = int (length hops) - 1 \<and> ds_prevLat st \<noteq> None
                         \<and> ds_prevLon st \<noteq> None \<and> isValidLocation receiverLat receiverLon
                      then calculateDistance (ds_prevLat st) (ds_prevLon st) receiverLat receiverLon else None)
               in if ds_hasAnyDistance st \<or> finalDist \<noteq> None
                  then Some [ds_totalDistance st + coalesce finalDist 0] else None)))"

definition resolvePath ::
  "string option \<Rightarrow> sender_info \<Rightarrow> contact list \<Rightarrow> radio_config option \<Rightarrow> int option \<Rightarrow> resolved_path" where
  "resolvePath path sender contacts config hopCount =
     (let hopPrefixes = parsePathHops path hopCount;
          inferred = inferPathHashMode path hopCount;
          or_inferred = (\<lambda>mode. case normalizePathHashMode mode of Some m \<Rightarrow> Some m | None \<Rightarrow> inferred);
          resolvedSender = \<lparr> ep_name = si_name sender,
            ep_prefix = formatEndpointPrefix (Some (si_publicKeyOrPrefix sender)) (or_inferred (nullish (si_pathHashMode sender))),
            ep_lat = si_lat sender, ep_lon = si_lon sender \<rparr>;
          resolvedReceiver = \<lparr> ep_name = or_else (map_option rc_name config) ''Unknown'',
            ep_prefix = formatEndpointPrefix (map_option rc_public_key config) (or_inferred (map_option rc_path_hash_mode config)),
            ep_lat = map_option rc_lat config, ep_lon = map_option rc_lon config,
            re_publicKey = map_option rc_public_key config \<rparr>;
          st = foldl (resolve_hop contacts)
            \<lparr> hs_hops = [], hs_prevLat = si_lat sender, hs_prevLon = si_lon sender,
              hs_prevHopUncertain = (\<not> isValidLocation (si_lat sender) (si_lon sender)) \<rparr> hopPrefixes;
          hops = hs_hops st
      in \<lparr> rv_sender = resolvedSender, rv_hops = hops, rv_receiver = resolvedReceiver,
           rv_totalDistances = calculateTotalDistances (si_lat sender) (si_lon sender) hops
             (ep_lat resolvedReceiver) (ep_lon resolvedReceiver),
           rv_hasGaps =
             (\<not> isValidLocation (si_lat sender) (si_lon sender)
              \<or> \<not> isValidLocation (ep_lat resolvedReceiver) (ep_lon resolvedReceiver)
              \<or> list_ex (\<lambda>hop. \<not> located (ph_matches hop)) hops) \<rparr>)"

section \<open>Splitting paths into hops\<close>

lemma chunks_concat:
  "0 < n \<Longrightarrow> \<forall>x \<in> set xss. length x = n \<Longrightarrow> chunks n (concat xss) = xss"
proof (induction xss)
  case Nil
  then show ?case by (subst chunks.simps) simp
next
  case (Cons x xss)
  then show ?case by (subst chunks.simps) simp
qed

lemma length_concat_const: "\<forall>x \<in> set xss. length x = n \<Longrightarrow> length (concat xss) = n * length xss"
  by (induction xss) auto

lemma to_upper_concat: "to_upper (concat xss) = concat (map to_upper xss)"
  by (induction xss) auto

lemma chars_per_hop_exact:
  assumes "even w" and "2 \<le> w" and "0 < n"
  shows "chars_per_hop (w * n) (Some (int n)) = w"
proof -
  have "int (w * n) div int n = int w" using assms(3) by simp
  with assms show ?thesis by (simp add: chars_per_hop_def)
qed

text \<open>Splitting inverts joining: hops of one even width of at least two characters, written one after
  another, are recovered in upper case from the path and the number of hops. Any even width is accepted,
  not only widths of one to three bytes.\<close>

theorem parsePathHops_concat:
  assumes "hops \<noteq> []" and "\<forall>h \<in> set hops. length h = w" and "even w" and "2 \<le> w"
  shows "parsePathHops (Some (concat hops)) (Some (int (length hops))) = map to_upper hops"
proof -
  have len: "length (concat hops) = w * length hops" by (rule length_concat_const [OF assms(2)])
  have ne: "concat hops \<noteq> []" using assms(1,2,4) len by (metis list.size(3) mult_eq_0_iff length_0_conv not_numeral_le_zero)
  have "0 < length hops" using assms(1) by simp
  then have "chars_per_hop (length (concat hops)) (Some (int (length hops))) = w"
    unfolding len by (rule chars_per_hop_exact [OF assms(3,4)])
  moreover have "parsePathHops (Some (concat hops)) (Some (int (length hops))) =
      chunks (chars_per_hop (length (concat hops)) (Some (int (length hops)))) (to_upper (concat hops))"
    using ne by (simp add: parsePathHops_def Let_def del: concat_eq_Nil_conv length_concat)
  moreover have "chunks w (concat (map to_upper hops)) = map to_upper hops"
    using assms(2,4) by (intro chunks_concat) auto
  ultimately show ?thesis by (simp add: to_upper_concat)
qed

lemma parsePathHops_concat_witness:
  "parsePathHops (Some (concat [''1a2b3c4d'', ''5e6f7081''])) (Some (int (length [''1a2b3c4d'', ''5e6f7081'']))) =
     map to_upper [''1a2b3c4d'', ''5e6f7081'']"
  by (rule parsePathHops_concat [where w = 8]) simp_all

section \<open>The effective route\<close>

lemma inferPathHashMode_range: "inferPathHashMode path h = Some m \<Longrightarrow> 0 \<le> m \<and> m \<le> 2"
  by (auto simp: inferPathHashMode_def Let_def split: option.splits if_splits)

lemma infer_or_zero: "0 \<le> coalesce (inferPathHashMode path h) 0 \<and> coalesce (inferPathHashMode path h) 0 \<le> 2"
  using inferPathHashMode_range [of path h] by (cases "inferPathHashMode path h") simp_all

lemma getRouteOverride_None_iff: "getRouteOverride contact = None \<longleftrightarrow> \<not> hasRoutingOverride contact"
  by (auto simp: getRouteOverride_def hasRoutingOverride_def Let_def split: option.splits)

text \<open>When the server sent no effective route, an override of the contact takes precedence over its
  learned direct route, and flooding applies when there is neither. The route is marked as forced exactly
  when it is an override, and its hash mode is -1 for flooding and one of 0, 1 and 2 otherwise.\<close>

theorem getEffectiveContactRoute_spec:
  assumes "nullish (ct_effective_route contact) = None"
  shows "let r = getEffectiveContactRoute contact in
     er_source r = (if hasRoutingOverride contact then Src_override
                    else if getDirectContactRoute contact \<noteq> None then Src_direct else Src_flood)
     \<and> (er_forced r \<longleftrightarrow> hasRoutingOverride contact)
     \<and> er_pathLen r = (case getRouteOverride contact of
           Some o' \<Rightarrow> cr_path_len o'
         | None \<Rightarrow> (case getDirectContactRoute contact of Some d \<Rightarrow> cr_path_len d | None \<Rightarrow> -1))
     \<and> (er_pathHashMode r = -1 \<longleftrightarrow> er_pathLen r = -1)
     \<and> -1 \<le> er_pathHashMode r \<and> er_pathHashMode r \<le> 2"
proof -
  define res where "res = (case getRouteOverride contact of Some r \<Rightarrow> Some r | None \<Rightarrow> getDirectContactRoute contact)"
  note inf = infer_or_zero [of "map_option cr_path res" "Some (case res of Some r \<Rightarrow> cr_path_len r | None \<Rightarrow> -1)"]
  have "er_pathLen (getEffectiveContactRoute contact) = (case res of Some r \<Rightarrow> cr_path_len r | None \<Rightarrow> -1)"
    using assms by (simp add: getEffectiveContactRoute_def Let_def res_def)
  moreover have "er_pathHashMode (getEffectiveContactRoute contact) =
      (if (case res of Some r \<Rightarrow> cr_path_len r | None \<Rightarrow> -1) = -1 then -1
       else if map_option cr_path_hash_mode res = None \<or> the (map_option cr_path_hash_mode res) < 0
               \<or> 2 < the (map_option cr_path_hash_mode res)
       then coalesce (inferPathHashMode (map_option cr_path res) (Some (case res of Some r \<Rightarrow> cr_path_len r | None \<Rightarrow> -1))) 0
       else the (map_option cr_path_hash_mode res))"
    using assms by (simp add: getEffectiveContactRoute_def Let_def res_def)
  moreover have "er_source (getEffectiveContactRoute contact) =
      (if hasRoutingOverride contact then Src_override
       else if getDirectContactRoute contact \<noteq> None then Src_direct else Src_flood)"
    "er_forced (getEffectiveContactRoute contact) \<longleftrightarrow> hasRoutingOverride contact"
    using assms getRouteOverride_None_iff [of contact] by (auto simp: getEffectiveContactRoute_def Let_def)
  moreover have "(case res of Some r \<Rightarrow> cr_path_len r | None \<Rightarrow> -1) = (case getRouteOverride contact of
           Some o' \<Rightarrow> cr_path_len o'
         | None \<Rightarrow> (case getDirectContactRoute contact of Some d \<Rightarrow> cr_path_len d | None \<Rightarrow> -1))"
    by (simp add: res_def split: option.split)
  ultimately show ?thesis using inf by (auto simp: Let_def)
qed

lemma getEffectiveContactRoute_spec_witness:
  "er_source (getEffectiveContactRoute sample_contact) = Src_flood"
  using getEffectiveContactRoute_spec [of sample_contact]
  by (simp add: sample_contact_def Let_def hasRoutingOverride_def getDirectContactRoute_def)

section \<open>Extracting the payload\<close>

definition hex2 :: "nat \<Rightarrow> string" where
  "hex2 b = [digit_char (b div 16), digit_char (b mod 16)]"

lemma digit_val_upper: "digit_val (upper_char c) = digit_val c"
  by (auto simp: digit_val_def upper_char_def Let_def of_char_of)

lemma digit_not_special:
  assumes "digit_val c = Some d"
  shows "\<not> is_ws c" and "c \<noteq> CHR ''-''" and "c \<noteq> CHR ''+''" and "c \<noteq> CHR ''x''" and "c \<noteq> CHR ''X''"
  using assms by (auto simp: digit_val_def is_ws_def Let_def split: if_splits)

lemma parse_int16_two:
  assumes "digit_val c1 = Some d1" and "digit_val c2 = Some d2"
  shows "parse_int16 [c1, c2] = Some (int (d1 * 16 + d2))"
proof -
  have "\<not> starts_with [c1, c2] ''0x''" "\<not> starts_with [c1, c2] ''0X''"
    using digit_not_special [OF assms(2)] by (auto simp: starts_with_iff)
  with assms digit_not_special [OF assms(1)] show ?thesis
    by (simp add: parse_int16_def Let_def digits_val.simps)
qed

lemma byte_at_hex2:
  assumes "b < 256" and "length pre = i"
  shows "byte_at i (pre @ to_upper (hex2 b) @ rest) = int b"
proof -
  have "take 2 (drop i (pre @ to_upper (hex2 b) @ rest)) = to_upper (hex2 b)"
    using assms(2) by (simp add: hex2_def to_upper_def)
  moreover have "parse_int16 (to_upper (hex2 b)) = Some (int b)"
  proof -
    have "digit_val (upper_char (digit_char (b div 16))) = Some (b div 16)"
      "digit_val (upper_char (digit_char (b mod 16))) = Some (b mod 16)"
      using assms(1) by (simp_all add: digit_val_upper digit_val_digit_char)
    from parse_int16_two [OF this] show ?thesis by (simp add: hex2_def to_upper_def)
  qed
  ultimately show ?thesis by (simp add: byte_at_def)
qed

text \<open>On a packet laid out as header byte, four transport bytes when the route type asks for them, path
  byte, and the rest, the payload extraction returns in upper case exactly what follows the path bytes the
  path byte announces, and fails when the hash size is reserved, when the path is longer than 64 bytes, or
  when the packet ends before or right after the path.\<close>

theorem extractPacketPayloadHex_layout:
  assumes "header < 256" and "pathByte < 256"
    and "length transport = (if header mod 4 = 0 \<or> header mod 4 = 3 then 8 else 0)"
  shows "extractPacketPayloadHex (hex2 header @ transport @ hex2 pathByte @ rest) =
    (let hashMode = pathByte div 64; pathBytes = (pathByte mod 64) * (hashMode + 1)
     in if hashMode = 3 \<or> 64 < pathBytes \<or> length rest \<le> 2 * pathBytes then None
        else Some (to_upper (drop (2 * pathBytes) rest)))"
proof -
  let ?s = "hex2 header @ transport @ hex2 pathByte @ rest"
  define off where "off = 2 + length transport"
  have hex2_len [simp]: "length (hex2 b) = 2" for b by (simp add: hex2_def)
  have up: "to_upper ?s = to_upper (hex2 header) @ to_upper transport @ to_upper (hex2 pathByte) @ to_upper rest" by simp
  have h: "byte_at 0 (to_upper ?s) = int header" using byte_at_hex2 [OF assms(1), of "[]" 0] up by simp
  have p: "byte_at off (to_upper ?s) = int pathByte"
    using byte_at_hex2 [OF assms(2), of "to_upper (hex2 header) @ to_upper transport" off "to_upper rest"] up
    by (simp add: off_def)
  have "int header mod 4 = int (header mod 4)" by (simp add: zmod_int)
  then have route: "(int header mod 4 = 0 \<or> int header mod 4 = 3) \<longleftrightarrow> (header mod 4 = 0 \<or> header mod 4 = 3)"
    by linarith
  have off': "(if header mod 4 = 0 \<or> header mod 4 = 3 then 2 + 8 else 2) = off" using assms(3) by (simp add: off_def)
  have "pathByte div 64 < 4" using assms(2) by simp
  then have mode: "int pathByte div 64 mod 4 = int (pathByte div 64)" by (simp add: zdiv_int)
  define n where "n = pathByte mod 64 * (pathByte div 64 + 1)"
  have bytes: "int pathByte mod 64 * (int (pathByte div 64) + 1) = int n"
    unfolding n_def of_nat_mult of_nat_add zmod_int by simp
  have len: "nat (int n * 2) = 2 * n" by linarith
  have big: "int n > MAX_PATH_BYTES \<longleftrightarrow> 64 < n" unfolding MAX_PATH_BYTES_def by linarith
  have total: "length (to_upper ?s) = off + 2 + length rest" by (simp add: off_def)
  have drop: "drop (off + 2 + n) (to_upper ?s) = to_upper (drop n rest)" for n
    unfolding up by (simp add: off_def to_upper_def drop_map)
  show ?thesis
    unfolding extractPacketPayloadHex_def Let_def h route off' p mode bytes len big total drop n_def [symmetric]
    using assms(3) by (auto simp: off_def)
qed

lemma extractPacketPayloadHex_layout_witness:
  "extractPacketPayloadHex (hex2 9 @ [] @ hex2 2 @ ''aabbdeadbeef'') = Some ''DEADBEEF''"
proof -
  have "to_upper ''deadbeef'' = ''DEADBEEF''" by code_simp
  with extractPacketPayloadHex_layout [of 9 2 "[]" "''aabbdeadbeef''"] show ?thesis by simp
qed

section \<open>Distances\<close>

lemma haversine_sym: "haversine a b c d = haversine c d a b"
proof -
  have "toRad (x - y) / 2 = - (toRad (y - x) / 2)" for x y
    by (simp add: toRad_def field_simps)
  then have sin: "sin (toRad (x - y) / 2) = - sin (toRad (y - x) / 2)" for x y
    using sin_minus by metis
  show ?thesis
    unfolding haversine_def Let_def sin [of c a] sin [of d b]
    by (simp add: mult.commute mult.left_commute)
qed

lemma cos_lat_nonneg:
  assumes "-90 \<le> lat" and "lat \<le> 90"
  shows "0 \<le> cos (toRad lat)"
proof (rule cos_ge_zero)
  have "pi * (-90) \<le> pi * lat" "pi * lat \<le> pi * 90"
    by (rule mult_left_mono [OF assms(1) pi_ge_zero], rule mult_left_mono [OF assms(2) pi_ge_zero])
  then show "- (pi / 2) \<le> toRad lat" "toRad lat \<le> pi / 2"
    unfolding toRad_def by (simp_all add: field_simps)
qed

lemma haversine_range:
  assumes "-90 \<le> lat1" and "lat1 \<le> 90" and "-90 \<le> lat2" and "lat2 \<le> 90"
  shows "0 \<le> haversine lat1 lon1 lat2 lon2 \<and> haversine lat1 lon1 lat2 lon2 \<le> 1"
proof -
  define x y s where "x = toRad lat1" and "y = toRad lat2" and "s = sin (toRad (lon2 - lon1) / 2)"
  have h: "haversine lat1 lon1 lat2 lon2 = (sin ((y - x) / 2))\<^sup>2 + cos x * cos y * s\<^sup>2"
    by (simp add: haversine_def Let_def x_def y_def s_def power2_eq_square toRad_def left_diff_distrib diff_divide_distrib mult.assoc)
  have c: "0 \<le> cos x * cos y" using assms by (simp add: x_def y_def cos_lat_nonneg)
  have s1: "s\<^sup>2 \<le> 1" by (simp add: s_def abs_square_le_1)
  have p: "cos x * cos y * s\<^sup>2 \<le> cos x * cos y" using mult_left_mono [OF s1 c] by simp
  have q:  "(sin ((y - x) / 2))\<^sup>2 = (1 - cos (y - x)) / 2"
  proof -
    have "cos (y - x) = 1 - 2 * (sin ((y - x) / 2))\<^sup>2"
      using cos_double_sin [of "(y - x) / 2"] by (simp only: mult_2 field_sum_of_halves)
    then show ?thesis by simp
  qed
  have "cos x * cos y = (cos (y - x) + cos (y + x)) / 2"
    by (simp add: cos_diff cos_add)
  then have "haversine lat1 lon1 lat2 lon2 \<le> (1 - cos (y - x)) / 2 + (cos (y - x) + cos (y + x)) / 2"
    unfolding h q using p by simp
  also have "\<dots> = (1 + cos (y + x)) / 2" by (simp add: field_simps)
  also have "\<dots> \<le> 1" by simp
  finally have "haversine lat1 lon1 lat2 lon2 \<le> 1" .
  moreover have "0 \<le> haversine lat1 lon1 lat2 lon2" unfolding h using c by simp
  ultimately show ?thesis by simp
qed

lemma atan2_nonneg_range: "0 \<le> y \<Longrightarrow> 0 \<le> x \<Longrightarrow> 0 \<le> atan2_nonneg y x \<and> atan2_nonneg y x \<le> pi / 2"
  using arctan_ubound [of "y / x"] by (auto simp: atan2_nonneg_def less_imp_le)

text \<open>Between two valid locations the distance is defined, lies between zero and half the circumference of
  the earth, is the same in both directions, and is zero from a location to itself.\<close>

theorem calculateDistance_metric:
  assumes "isValidLocation (Some lat1) (Some lon1)" and "isValidLocation (Some lat2) (Some lon2)"
  shows "\<exists>d. calculateDistance (Some lat1) (Some lon1) (Some lat2) (Some lon2) = Some d
     \<and> calculateDistance (Some lat2) (Some lon2) (Some lat1) (Some lon1) = Some d
     \<and> 0 \<le> d \<and> d \<le> 6371 * pi
     \<and> calculateDistance (Some lat1) (Some lon1) (Some lat1) (Some lon1) = Some 0"
proof -
  let ?a = "haversine lat1 lon1 lat2 lon2"
  have a: "0 \<le> ?a" "?a \<le> 1" using haversine_range assms by (simp_all add: not_less)
  have t: "0 \<le> atan2_nonneg (sqrt ?a) (sqrt (1 - ?a))" "atan2_nonneg (sqrt ?a) (sqrt (1 - ?a)) \<le> pi / 2"
    using atan2_nonneg_range a by simp_all
  have "haversine lat1 lon1 lat1 lon1 = 0" by (simp add: haversine_def Let_def toRad_def)
  then have "great_circle lat1 lon1 lat1 lon1 = 0" by (simp add: great_circle_def Let_def atan2_nonneg_def)
  with t show ?thesis
    by (simp add: great_circle_def Let_def haversine_sym [of lat2 lon2 lat1 lon1])
qed

lemma calculateDistance_metric_witness:
  "\<exists>d. calculateDistance (Some 45) (Some 7) (Some (-33)) (Some 151) = Some d \<and> 0 \<le> d"
  using calculateDistance_metric [of 45 7 "-33" 151] by auto

section \<open>Total distances\<close>

fun path_length :: "(real \<times> real) list \<Rightarrow> real" where
  "path_length (p # q # ps) = great_circle (fst p) (snd p) (fst q) (snd q) + path_length (q # ps)"
| "path_length _ = 0"

definition hop_location :: "path_hop \<Rightarrow> real \<times> real" where
  "hop_location hop = (the (ct_lat (hd (ph_matches hop))), the (ct_lon (hd (ph_matches hop))))"

lemma valid_location_Some: "isValidLocation lat lon \<Longrightarrow> \<exists>x y. lat = Some x \<and> lon = Some y"
  by (cases lat; cases lon) simp_all

lemma located_location:
  "located (ph_matches hop) \<Longrightarrow>
     ct_lat (hd (ph_matches hop)) = Some (fst (hop_location hop)) \<and> ct_lon (hd (ph_matches hop)) = Some (snd (hop_location hop))"
  using valid_location_Some [of "ct_lat (hd (ph_matches hop))" "ct_lon (hd (ph_matches hop))"]
  by (auto simp: located_def hop_location_def split: list.splits)

lemma distance_steps:
  assumes "\<forall>hop \<in> set hops. located (ph_matches hop)" and "ds_prevLat st = Some (fst p)" and "ds_prevLon st = Some (snd p)"
  shows "let st' = foldl distance_step st (enumerate k hops); locs = map hop_location hops in
     ds_prevLat st' = Some (fst (last (p # locs))) \<and> ds_prevLon st' = Some (snd (last (p # locs)))
     \<and> ds_totalDistance st' = ds_totalDistance st + path_length (p # locs)
     \<and> ds_lastUnambiguousHopIndex st' = (if hops = [] then ds_lastUnambiguousHopIndex st else int (k + length hops) - 1)"
  using assms
proof (induction hops arbitrary: st p k)
  case (Cons hop hops)
  note loc = located_location [of hop]
  have hop: "located (ph_matches hop)" using Cons.prems(1) by simp
  let ?st = "distance_step st (k, hop)"
  have st: "ds_prevLat ?st = Some (fst (hop_location hop))" "ds_prevLon ?st = Some (snd (hop_location hop))"
    "ds_totalDistance ?st = ds_totalDistance st + great_circle (fst p) (snd p) (fst (hop_location hop)) (snd (hop_location hop))"
    "ds_lastUnambiguousHopIndex ?st = int k"
    using hop loc [OF hop] Cons.prems(2,3) by (simp_all add: distance_step_def Let_def)
  have "\<forall>h \<in> set hops. located (ph_matches h)" using Cons.prems(1) by simp
  from Cons.IH [OF this st(1,2), of "Suc k"] st show ?case by (auto simp: Let_def)
qed (simp add: Let_def)

text \<open>When sender, receiver and every hop have one known valid location, the total distance of the path
  is the length of the polyline through all of them.\<close>

theorem calculateTotalDistances_complete:
  assumes "isValidLocation (Some slat) (Some slon)" and "isValidLocation (Some rlat) (Some rlon)"
    and "\<forall>hop \<in> set hops. located (ph_matches hop)"
  shows "calculateTotalDistances (Some slat) (Some slon) hops (Some rlat) (Some rlon) =
     Some [path_length ((slat, slon) # map hop_location hops @ [(rlat, rlon)])]"
proof (cases "hops = []")
  case True
  with assms show ?thesis by (simp add: calculateTotalDistances_def)
next
  case False
  define st where "st = foldl distance_step
     \<lparr> ds_prevLat = Some slat, ds_prevLon = Some slon, ds_totalDistance = 0, ds_hasAnyDistance = False,
       ds_lastUnambiguousHopIndex = -1 \<rparr> (enumerate 0 hops)"
  let ?locs = "map hop_location hops"
  have snoc: "path_length (ps @ [q, r]) = path_length (ps @ [q]) + great_circle (fst q) (snd q) (fst r) (snd r)" for ps q r
    by (induction ps rule: path_length.induct) simp_all
  have st: "ds_prevLat st = Some (fst (last ?locs))" "ds_prevLon st = Some (snd (last ?locs))"
    "ds_totalDistance st = path_length ((slat, slon) # ?locs)" "ds_lastUnambiguousHopIndex st = int (length hops) - 1"
    using distance_steps [OF assms(3), of _ "(slat, slon)" 0] False by (simp_all add: st_def Let_def)
  obtain ps q where q: "?locs = ps @ [q]" using False by (metis map_is_Nil_conv rev_exhaust)
  have "path_length ((slat, slon) # ?locs @ [(rlat, rlon)]) =
      path_length ((slat, slon) # ?locs) + great_circle (fst (last ?locs)) (snd (last ?locs)) rlat rlon"
    using snoc [of "(slat, slon) # ps" q "(rlat, rlon)"] by (simp add: q)
  moreover have "calculateTotalDistances (Some slat) (Some slon) hops (Some rlat) (Some rlon) =
      Some [path_length ((slat, slon) # ?locs) + great_circle (fst (last ?locs)) (snd (last ?locs)) rlat rlon]"
    using assms(1,2) False st by (simp add: calculateTotalDistances_def Let_def st_def [symmetric])
  ultimately show ?thesis by simp
qed

lemma calculateTotalDistances_complete_witness:
  "calculateTotalDistances (Some 45) (Some 7) [] (Some 46) (Some 8) =
     Some [path_length ((45, 7) # map hop_location [] @ [(46, 8)])]"
  by (rule calculateTotalDistances_complete) simp_all

text \<open>When the sender has no valid location and the only located hop is the last one, no distance is
  reported at all: the leg from that hop to the receiver is left out, wherever the receiver is.\<close>

theorem calculateTotalDistances_last_leg:
  assumes "\<not> isValidLocation slat slon" and "\<forall>hop \<in> set pre. \<not> located (ph_matches hop)"
  shows "calculateTotalDistances slat slon (pre @ [hop]) rlat rlon = None"
proof (cases "located (ph_matches hop)")
  case True
  have idx: "find_index (\<lambda>h. located (ph_matches h)) (pre @ [hop]) = Some (length pre)"
    using assms(2) True by (induction pre) simp_all
  show ?thesis
    using assms(1) by (simp add: calculateTotalDistances_def Let_def idx del: enumerate_append_eq)
next
  case False
  have idx: "find_index (\<lambda>h. located (ph_matches h)) (pre @ [hop]) = None"
    using assms(2) False by (simp add: find_index_None)
  show ?thesis using assms(1) by (simp add: calculateTotalDistances_def Let_def idx)
qed

definition sample_hop :: path_hop where
  "sample_hop = \<lparr> ph_prefix = ''3A'', ph_matches = [sample_contact\<lparr> ct_lat := Some 45, ct_lon := Some 7 \<rparr>],
                  ph_distanceFromPrev = None \<rparr>"

lemma calculateTotalDistances_last_leg_witness:
  "located (ph_matches sample_hop) \<and> isValidLocation (Some 46) (Some 8)
   \<and> calculateTotalDistances None None ([] @ [sample_hop]) (Some 46) (Some 8) = None"
  using calculateTotalDistances_last_leg [of None None "[]" sample_hop "Some 46" "Some 8"]
  by (simp add: sample_hop_def located_def)

end
