(* ===== verification/Raw_Packets.thy ===== *)
theory Raw_Packets
  imports App_Types Recency
begin

text \<open>
  The raw packet stream: packet identity (\<^verbatim>\<open>utils/rawPacketIdentity.ts\<close>), the store outside React
  that buffers packets and session statistics (\<^verbatim>\<open>stores/rawPacketStore.ts\<close>), and the statistics
  computed over a time window (\<^verbatim>\<open>utils/rawPacketStats.ts\<close>).

  The decoder package supplies \<open>decode\<close> and the two functions that name payload and route types; these
  are parameters, as are \<^verbatim>\<open>localeCompare\<close> (\<open>lc\<close>) and the formatting of clock times (\<open>label\<close>). Rates and
  averages are real numbers.
\<close>

section \<open>Packet identity\<close>

definition getRawPacketObservationKey :: "raw_packet \<Rightarrow> string" where
  "getRawPacketObservationKey packet =
     (case rp_observation_id packet of
        Some o' \<Rightarrow> ''obs-'' @ show_int o'
      | None \<Rightarrow> ''db-'' @ show_int (rp_id packet))"

text \<open>\<^verbatim>\<open>xs.slice(-n)\<close>, where \<^verbatim>\<open>-0\<close> is 0.\<close>

definition slice_last :: "nat \<Rightarrow> 'a list \<Rightarrow> 'a list" where
  "slice_last n xs = (if n = 0 then xs else lastn n xs)"

definition appendRawPacketUnique :: "raw_packet list \<Rightarrow> raw_packet \<Rightarrow> nat \<Rightarrow> raw_packet list" where
  "appendRawPacketUnique prev packet maxPackets =
     (let packetKey = getRawPacketObservationKey packet
      in if list_ex (\<lambda>p. getRawPacketObservationKey p = packetKey) prev then prev
         else
           (let updated = prev @ [packet]
            in if maxPackets < length updated then slice_last maxPackets updated else updated))"

section \<open>Path tokens\<close>

definition getPathTokens :: "decoded_packet \<Rightarrow> string list" where
  "getPathTokens decoded =
     (let tracePayload = (if dp_payloadType decoded = PT_Trace then dp_payload decoded else None)
      in case Option.bind tracePayload pl_pathHashes of
           Some hs \<Rightarrow> hs
         | None \<Rightarrow> coalesce (dp_path decoded) [])"

section \<open>Observations\<close>

record stats_observation =
  so_observationKey :: string
  so_timestamp :: int
  so_payloadType :: string
  so_routeType :: string
  so_decrypted :: bool
  so_rssi :: "int option"
  so_snr :: "real option"
  so_sourceKey :: "string option"
  so_sourceLabel :: "string option"
  so_pathTokenCount :: nat
  so_pathSignature :: "string option"
  so_hopByteWidth :: "nat opt"

record stats_session =
  ss_sessionStartedAt :: int
  ss_totalObservedPackets :: nat
  ss_trimmedObservationCount :: nat
  ss_observations :: "stats_observation list"

definition toSourceLabel :: "string \<Rightarrow> string" where
  "toSourceLabel sourceKey =
     (if starts_with sourceKey ''name:'' then drop 5 sourceKey else to_upper (take 12 sourceKey))"

definition packet_info :: "(decrypted_info \<Rightarrow> string option) \<Rightarrow> raw_packet \<Rightarrow> string option" where
  "packet_info f packet = Option.bind (rp_decrypted_info packet) f"

definition contact_source :: "raw_packet \<Rightarrow> string option \<times> string option" where
  "contact_source packet =
     (let k = to_upper (the (packet_info di_contact_key packet))
      in (Some k, Some (or_else (packet_info di_sender packet) (toSourceLabel k))))"

definition name_source :: "raw_packet \<Rightarrow> string option \<times> string option" where
  "name_source packet =
     (let s = the (packet_info di_sender packet) in (Some (''name:'' @ to_lower s), Some s))"

definition getSourceInfo :: "raw_packet \<Rightarrow> decoded_packet \<Rightarrow> string option \<times> string option" where
  "getSourceInfo packet decoded =
     (let has_contact = truthy (packet_info di_contact_key packet);
          has_sender = truthy (packet_info di_sender packet);
          none = (None, None)
      in if \<not> dp_isValid decoded \<or> dp_payload decoded = None then
           (if has_contact then contact_source packet
            else if has_sender then name_source packet else none)
         else
           (let payload = the (dp_payload decoded); pt = dp_payloadType decoded
            in if pt = PT_Advert then
                 (if \<not> truthy (pl_publicKey payload) then none
                  else (let k = the (pl_publicKey payload) in (Some (to_upper k), Some (to_upper (take 12 k)))))
               else if pt = PT_TextMessage \<or> pt = PT_Request \<or> pt = PT_Response then
                 (if has_contact then contact_source packet
                  else if \<not> truthy (pl_sourceHash payload) then none
                  else (let h = to_upper (the (pl_sourceHash payload)) in (Some (''hash1:'' @ h), Some h)))
               else if pt = PT_GroupText then
                 (if has_contact then contact_source packet
                  else if has_sender then name_source packet else none)
               else if pt = PT_AnonRequest then
                 (if \<not> truthy (pl_senderPublicKey payload) then none
                  else (let k = the (pl_senderPublicKey payload) in (Some (to_upper k), Some (to_upper (take 12 k)))))
               else if has_contact then contact_source packet else none))"

definition summarizeRawPacketForStats ::
  "decoder \<Rightarrow> (nat \<Rightarrow> string) \<Rightarrow> (nat \<Rightarrow> string) \<Rightarrow> raw_packet \<Rightarrow> stats_observation" where
  "summarizeRawPacketForStats decode getPayloadTypeName getRouteTypeName packet =
     (case decode (rp_data packet) of
        Some decoded \<Rightarrow>
          (let valid = dp_isValid decoded;
               pathTokens = (if valid then getPathTokens decoded else []);
               sourceInfo = getSourceInfo packet decoded
           in \<lparr> so_observationKey = getRawPacketObservationKey packet, so_timestamp = rp_timestamp packet,
                so_payloadType = (if valid then getPayloadTypeName (dp_payloadType decoded) else rp_payload_type packet),
                so_routeType = (if valid then getRouteTypeName (dp_routeType decoded) else ''Unknown''),
                so_decrypted = rp_decrypted packet, so_rssi = rp_rssi packet, so_snr = rp_snr packet,
                so_sourceKey = fst sourceInfo, so_sourceLabel = snd sourceInfo,
                so_pathTokenCount = length pathTokens,
                so_pathSignature = (if pathTokens \<noteq> [] then Some (join ''>'' pathTokens) else None),
                so_hopByteWidth = (if pathTokens \<noteq> [] then Val (coalesce (dp_pathHashSize decoded) 1) else Null) \<rparr>)
      | None \<Rightarrow>
          \<lparr> so_observationKey = getRawPacketObservationKey packet, so_timestamp = rp_timestamp packet,
            so_payloadType = rp_payload_type packet, so_routeType = ''Unknown'',
            so_decrypted = rp_decrypted packet, so_rssi = rp_rssi packet, so_snr = rp_snr packet,
            so_sourceKey = None, so_sourceLabel = None, so_pathTokenCount = 0,
            so_pathSignature = None, so_hopByteWidth = Null \<rparr>)"

section \<open>The store\<close>

definition MAX_RAW_PACKETS :: nat where "MAX_RAW_PACKETS = 500"
definition MAX_RAW_PACKET_STATS_OBSERVATIONS :: nat where "MAX_RAW_PACKET_STATS_OBSERVATIONS = 20000"

record raw_packet_store =
  st_packets :: "raw_packet list"
  st_statsSession :: stats_session

definition createStatsSession :: "int \<Rightarrow> stats_session" where
  "createStatsSession now =
     \<lparr> ss_sessionStartedAt = now, ss_totalObservedPackets = 0, ss_trimmedObservationCount = 0, ss_observations = [] \<rparr>"

definition observe_summary :: "stats_observation \<Rightarrow> stats_session \<Rightarrow> stats_session" where
  "observe_summary observation session =
     (if list_ex (\<lambda>c. so_observationKey c = so_observationKey observation) (ss_observations session) then session
      else
        (let observations = ss_observations session @ [observation]
         in if length observations \<le> MAX_RAW_PACKET_STATS_OBSERVATIONS then
              session\<lparr> ss_totalObservedPackets := ss_totalObservedPackets session + 1, ss_observations := observations \<rparr>
            else
              (let overflow = length observations - MAX_RAW_PACKET_STATS_OBSERVATIONS
               in session\<lparr> ss_totalObservedPackets := ss_totalObservedPackets session + 1,
                           ss_trimmedObservationCount := ss_trimmedObservationCount session + overflow,
                           ss_observations := drop overflow observations \<rparr>)))"

definition observePacket :: "(raw_packet \<Rightarrow> stats_observation) \<Rightarrow> stats_session \<Rightarrow> raw_packet \<Rightarrow> stats_session" where
  "observePacket summarize session packet = observe_summary (summarize packet) session"

text \<open>The second component says whether the listeners are notified. The source compares the new arrays
  with the old ones by identity; they are the old ones exactly when the packet is known to both.\<close>

definition recordRawPacket ::
  "(raw_packet \<Rightarrow> stats_observation) \<Rightarrow> nat \<Rightarrow> raw_packet \<Rightarrow> raw_packet_store \<Rightarrow> raw_packet_store \<times> bool" where
  "recordRawPacket summarize maxPackets packet st =
     (let known_packet = list_ex (\<lambda>p. getRawPacketObservationKey p = getRawPacketObservationKey packet) (st_packets st);
          known_stats = list_ex (\<lambda>c. so_observationKey c = so_observationKey (summarize packet))
                          (ss_observations (st_statsSession st));
          nextPackets = appendRawPacketUnique (st_packets st) packet maxPackets;
          nextStats = observePacket summarize (st_statsSession st) packet
      in if known_packet \<and> known_stats then (st, False)
         else (\<lparr> st_packets = nextPackets, st_statsSession = nextStats \<rparr>, True))"

definition clearRawPackets :: "raw_packet_store \<Rightarrow> raw_packet_store \<times> bool" where
  "clearRawPackets st = (if st_packets st = [] then (st, False) else (st\<lparr> st_packets := [] \<rparr>, True))"

definition resetRawPacketStore :: "int \<Rightarrow> raw_packet_store \<times> bool" where
  "resetRawPacketStore now = (\<lparr> st_packets = [], st_statsSession = createStatsSession now \<rparr>, True)"

definition seedRawPacketStore ::
  "raw_packet list option \<Rightarrow> stats_session option \<Rightarrow> raw_packet_store \<Rightarrow> raw_packet_store \<times> bool" where
  "seedRawPacketStore packets session st =
     (\<lparr> st_packets = coalesce packets (st_packets st), st_statsSession = coalesce session (st_statsSession st) \<rparr>, True)"

section \<open>Statistics\<close>

datatype stats_window = W1m | W5m | W10m | W30m | Wsession

fun window_seconds :: "stats_window \<Rightarrow> int option" where
  "window_seconds W1m = Some 60"
| "window_seconds W5m = Some (5 * 60)"
| "window_seconds W10m = Some (10 * 60)"
| "window_seconds W30m = Some (30 * 60)"
| "window_seconds Wsession = None"

definition KNOWN_PAYLOAD_TYPES :: "string list" where
  "KNOWN_PAYLOAD_TYPES = [''Advert'', ''GroupText'', ''TextMessage'', ''Ack'', ''Request'', ''Response'',
     ''Trace'', ''Path'', ''Control'', ''Unknown'']"

definition KNOWN_ROUTE_TYPES :: "string list" where
  "KNOWN_ROUTE_TYPES = [''Flood'', ''Direct'', ''TransportFlood'', ''TransportDirect'', ''Unknown'']"

definition inferHopByteWidth :: "stats_observation \<Rightarrow> nat option" where
  "inferHopByteWidth packet =
     (if so_pathTokenCount packet = 0 then None
      else (case nullish (so_hopByteWidth packet) of
              Some (Suc w) \<Rightarrow> Some (Suc w)
            | _ \<Rightarrow>
                (let firstToken = map_option (takeWhile (\<lambda>c. c \<noteq> CHR ''>'')) (so_pathSignature packet)
                 in if \<not> truthy firstToken \<or> odd (length (the firstToken)) then None
                    else (let inferred = length (the firstToken) div 2
                          in if 1 \<le> inferred \<and> inferred \<le> 3 then Some inferred else None))))"

definition share :: "nat \<Rightarrow> nat \<Rightarrow> real" where
  "share n tot = (if tot = 0 then 0 else real n / real tot)"

definition createCountsMap :: "string list \<Rightarrow> (string, nat) jsmap" where
  "createCountsMap labels = fold (\<lambda>label. jm_set label 0) labels []"

record ranked_stat =
  rk_label :: string
  rk_count :: nat
  rk_share :: real

definition ranked :: "nat \<Rightarrow> string \<times> nat \<Rightarrow> ranked_stat" where
  "ranked tot e = \<lparr> rk_label = fst e, rk_count = snd e, rk_share = share (snd e) tot \<rparr>"

definition rank_before :: "(string \<Rightarrow> string \<Rightarrow> int) \<Rightarrow> string \<times> nat \<Rightarrow> string \<times> nat \<Rightarrow> bool" where
  "rank_before lc a b \<longleftrightarrow> (if snd b \<noteq> snd a then snd b < snd a else lc (fst a) (fst b) \<le> 0)"

definition rankedBreakdown :: "(string \<Rightarrow> string \<Rightarrow> int) \<Rightarrow> (string, nat) jsmap \<Rightarrow> nat \<Rightarrow> ranked_stat list" where
  "rankedBreakdown lc counts tot = map (ranked tot) (sort_by (rank_before lc) counts)"

definition orderedBreakdown :: "(string, nat) jsmap \<Rightarrow> nat \<Rightarrow> ranked_stat list" where
  "orderedBreakdown counts tot = map (ranked tot) counts"

definition median :: "int list \<Rightarrow> real option" where
  "median values =
     (if values = [] then None
      else (let vs = sort values; mid = length vs div 2
            in if odd (length vs) then Some (real_of_int (vs ! mid))
               else Some (real_of_int (vs ! (mid - 1) + vs ! mid) / 2)))"

definition getHopProfileBucket :: "nat \<Rightarrow> string" where
  "getHopProfileBucket n =
     (if n = 0 then ''0'' else if n = 1 then ''1'' else if n \<le> 5 then ''2-5'' else if n \<le> 10 then ''6-10''
      else if n \<le> 15 then ''11-15'' else if n \<le> 20 then ''16-20'' else if n \<le> 31 then ''21-31'' else ''32+'')"

definition hop_width_label :: "stats_observation \<Rightarrow> string" where
  "hop_width_label packet =
     (if so_pathTokenCount packet = 0 then ''No path''
      else if inferHopByteWidth packet = Some 1 then ''1 byte / hop''
      else if inferHopByteWidth packet = Some 2 then ''2 bytes / hop''
      else if inferHopByteWidth packet = Some 3 then ''3 bytes / hop''
      else ''Unknown width'')"

definition rssi_label :: "int \<Rightarrow> string" where
  "rssi_label rssi = (if rssi > -70 then ''Strong (>-70 dBm)'' else if rssi \<ge> -85 then ''Okay (-70 to -85 dBm)'' else ''Weak (<-85 dBm)'')"

record neighbor_stat =
  nb_key :: string
  nb_label :: string
  nb_count :: nat
  nb_bestRssi :: "int option"
  nb_lastSeen :: int

definition bump :: "string \<Rightarrow> (string, nat) jsmap \<Rightarrow> (string, nat) jsmap" where
  "bump k m = jm_set k (coalesce (jm_get m k) 0 + 1) m"

definition note_neighbor :: "stats_observation \<Rightarrow> (string, neighbor_stat) jsmap \<Rightarrow> (string, neighbor_stat) jsmap" where
  "note_neighbor packet m =
     (if truthy (so_sourceKey packet) \<and> truthy (so_sourceLabel packet) then
        (let k = the (so_sourceKey packet)
         in case jm_get m k of
              None \<Rightarrow> jm_set k \<lparr> nb_key = k, nb_label = the (so_sourceLabel packet), nb_count = 1,
                                nb_bestRssi = so_rssi packet, nb_lastSeen = so_timestamp packet \<rparr> m
            | Some existing \<Rightarrow>
                jm_set k (existing\<lparr> nb_count := nb_count existing + 1,
                   nb_lastSeen := max (nb_lastSeen existing) (so_timestamp packet),
                   nb_bestRssi := (if so_rssi packet \<noteq> None
                                      \<and> (nb_bestRssi existing = None \<or> the (nb_bestRssi existing) < the (so_rssi packet))
                                   then so_rssi packet else nb_bestRssi existing) \<rparr>) m)
      else m)"

record stats_acc =
  ac_payload :: "(string, nat) jsmap"
  ac_route :: "(string, nat) jsmap"
  ac_hops :: "(string, nat) jsmap"
  ac_widths :: "(string, nat) jsmap"
  ac_neighbors :: "(string, neighbor_stat) jsmap"
  ac_rssiValues :: "int list"
  ac_rssiBuckets :: "(string, nat) jsmap"

definition stats_step :: "stats_observation \<Rightarrow> stats_acc \<Rightarrow> stats_acc" where
  "stats_step packet acc =
     \<lparr> ac_payload = bump (so_payloadType packet) (ac_payload acc),
       ac_route = bump (so_routeType packet) (ac_route acc),
       ac_hops = bump (getHopProfileBucket (so_pathTokenCount packet)) (ac_hops acc),
       ac_widths = bump (hop_width_label packet) (ac_widths acc),
       ac_neighbors = note_neighbor packet (ac_neighbors acc),
       ac_rssiValues = (case so_rssi packet of Some r \<Rightarrow> ac_rssiValues acc @ [r] | None \<Rightarrow> ac_rssiValues acc),
       ac_rssiBuckets = (case so_rssi packet of Some r \<Rightarrow> bump (rssi_label r) (ac_rssiBuckets acc) | None \<Rightarrow> ac_rssiBuckets acc) \<rparr>"

definition stats_init :: stats_acc where
  "stats_init =
     \<lparr> ac_payload = createCountsMap KNOWN_PAYLOAD_TYPES, ac_route = createCountsMap KNOWN_ROUTE_TYPES,
       ac_hops = [(''0'', 0), (''1'', 0), (''2-5'', 0), (''6-10'', 0), (''11-15'', 0), (''16-20'', 0), (''21-31'', 0), (''32+'', 0)],
       ac_widths = [(''No path'', 0), (''1 byte / hop'', 0), (''2 bytes / hop'', 0), (''3 bytes / hop'', 0), (''Unknown width'', 0)],
       ac_neighbors = [], ac_rssiValues = [],
       ac_rssiBuckets = [(''Strong (>-70 dBm)'', 0), (''Okay (-70 to -85 dBm)'', 0), (''Weak (<-85 dBm)'', 0)] \<rparr>"

definition stronger :: "(string \<Rightarrow> string \<Rightarrow> int) \<Rightarrow> neighbor_stat \<Rightarrow> neighbor_stat \<Rightarrow> bool" where
  "stronger lc a b \<longleftrightarrow>
     (if nb_bestRssi b \<noteq> nb_bestRssi a then the (nb_bestRssi b) < the (nb_bestRssi a)
      else if nb_count b \<noteq> nb_count a then nb_count b < nb_count a else lc (nb_label a) (nb_label b) \<le> 0)"

definition more_active :: "(string \<Rightarrow> string \<Rightarrow> int) \<Rightarrow> neighbor_stat \<Rightarrow> neighbor_stat \<Rightarrow> bool" where
  "more_active lc a b \<longleftrightarrow>
     (if nb_count b \<noteq> nb_count a then nb_count b < nb_count a
      else if nb_lastSeen b \<noteq> nb_lastSeen a then nb_lastSeen b < nb_lastSeen a else lc (nb_label a) (nb_label b) \<le> 0)"

definition newer_neighbor :: "(string \<Rightarrow> string \<Rightarrow> int) \<Rightarrow> neighbor_stat \<Rightarrow> neighbor_stat \<Rightarrow> bool" where
  "newer_neighbor lc a b \<longleftrightarrow>
     (if nb_lastSeen b \<noteq> nb_lastSeen a then nb_lastSeen b < nb_lastSeen a
      else if nb_count b \<noteq> nb_count a then nb_count b < nb_count a else lc (nb_label a) (nb_label b) \<le> 0)"

record timeline_bin =
  tb_label :: string
  tb_total :: nat
  tb_countsByType :: "(string, nat) jsmap"

definition timelineBinCount :: nat where "timelineBinCount = 10"

definition bin_index :: "int \<Rightarrow> real \<Rightarrow> stats_observation \<Rightarrow> nat" where
  "bin_index windowStart binWidth packet =
     nat (max 0 (min (int timelineBinCount - 1) \<lfloor>real_of_int (so_timestamp packet - windowStart) / binWidth\<rfloor>))"

definition fill_bin :: "int \<Rightarrow> real \<Rightarrow> stats_observation \<Rightarrow> timeline_bin list \<Rightarrow> timeline_bin list" where
  "fill_bin windowStart binWidth packet timeline =
     (let i = bin_index windowStart binWidth packet; bin = timeline ! i
      in timeline[i := bin\<lparr> tb_total := tb_total bin + 1, tb_countsByType := bump (so_payloadType packet) (tb_countsByType bin) \<rparr>])"

definition empty_timeline :: "(int \<Rightarrow> string) \<Rightarrow> int \<Rightarrow> real \<Rightarrow> timeline_bin list" where
  "empty_timeline label windowStart binWidth =
     map (\<lambda>index. \<lparr> tb_label = label \<lfloor>real_of_int windowStart + real index * binWidth\<rfloor>, tb_total = 0, tb_countsByType = [] \<rparr>)
       [0..<timelineBinCount]"

record stats_snapshot =
  sn_window :: stats_window
  sn_nowSec :: int
  sn_packets :: "stats_observation list"
  sn_packetCount :: nat
  sn_packetsPerMinute :: real
  sn_uniqueSources :: nat
  sn_decryptedCount :: nat
  sn_undecryptedCount :: nat
  sn_decryptRate :: real
  sn_pathBearingCount :: nat
  sn_pathBearingRate :: real
  sn_distinctPaths :: nat
  sn_payloadBreakdown :: "ranked_stat list"
  sn_routeBreakdown :: "ranked_stat list"
  sn_topPacketTypes :: "ranked_stat list"
  sn_hopProfile :: "ranked_stat list"
  sn_hopByteWidthProfile :: "ranked_stat list"
  sn_strongestNeighbors :: "neighbor_stat list"
  sn_mostActiveNeighbors :: "neighbor_stat list"
  sn_newestNeighbors :: "neighbor_stat list"
  sn_averageRssi :: "real option"
  sn_medianRssi :: "real option"
  sn_bestRssi :: "int option"
  sn_rssiBuckets :: "ranked_stat list"
  sn_coverageSeconds :: int
  sn_windowFullyCovered :: bool
  sn_oldestStoredTimestamp :: "int option"
  sn_timeline :: "timeline_bin list"

definition buildRawPacketStatsSnapshot ::
  "(string \<Rightarrow> string \<Rightarrow> int) \<Rightarrow> (int \<Rightarrow> string) \<Rightarrow> stats_session \<Rightarrow> stats_window \<Rightarrow> int \<Rightarrow> stats_snapshot" where
  "buildRawPacketStatsSnapshot lc label session window nowSec =
     (let sessionStartedSec = ss_sessionStartedAt session div 1000;
          windowSeconds = window_seconds window;
          windowStart = (case windowSeconds of None \<Rightarrow> sessionStartedSec | Some w \<Rightarrow> nowSec - w);
          packets = filter (\<lambda>p. windowStart \<le> so_timestamp p) (ss_observations session);
          packetCount = length packets;
          decryptedCount = length (filter so_decrypted packets);
          pathBearingCount = length (filter (\<lambda>p. 0 < so_pathTokenCount p) packets);
          effectiveCoverageSeconds = coalesce windowSeconds (max 1 (nowSec - min sessionStartedSec nowSec));
          acc = fold stats_step packets stats_init;
          rssiValues = ac_rssiValues acc;
          neighbors = map snd (ac_neighbors acc);
          oldestStoredTimestamp = (case ss_observations session of [] \<Rightarrow> None | p # _ \<Rightarrow> Some (so_timestamp p));
          detailedCoverageStart = (if 0 < ss_trimmedObservationCount session then coalesce oldestStoredTimestamp nowSec
                                   else sessionStartedSec);
          coverageStart = max windowStart detailedCoverageStart;
          timelineSpanSeconds = max (coalesce windowSeconds (max 60 (nowSec - sessionStartedSec))) 60;
          binWidth = max 1 (real_of_int timelineSpanSeconds / real timelineBinCount)
      in \<lparr> sn_window = window, sn_nowSec = nowSec, sn_packets = packets, sn_packetCount = packetCount,
           sn_packetsPerMinute = real packetCount / max (real_of_int effectiveCoverageSeconds / 60) (1 / 60),
           sn_uniqueSources = length (js_set_of (filter truthy (map so_sourceKey packets))),
           sn_decryptedCount = decryptedCount, sn_undecryptedCount = packetCount - decryptedCount,
           sn_decryptRate = share decryptedCount packetCount,
           sn_pathBearingCount = pathBearingCount, sn_pathBearingRate = share pathBearingCount packetCount,
           sn_distinctPaths = length (js_set_of (filter truthy (map so_pathSignature packets))),
           sn_payloadBreakdown = rankedBreakdown lc (ac_payload acc) packetCount,
           sn_routeBreakdown = rankedBreakdown lc (ac_route acc) packetCount,
           sn_topPacketTypes = take 5 (rankedBreakdown lc (ac_payload acc) packetCount),
           sn_hopProfile = orderedBreakdown (ac_hops acc) packetCount,
           sn_hopByteWidthProfile = rankedBreakdown lc (ac_widths acc) packetCount,
           sn_strongestNeighbors = take 5 (sort_by (stronger lc) (filter (\<lambda>n. nb_bestRssi n \<noteq> None) neighbors)),
           sn_mostActiveNeighbors = take 5 (sort_by (more_active lc) neighbors),
           sn_newestNeighbors = take 5 (sort_by (newer_neighbor lc) neighbors),
           sn_averageRssi = (if rssiValues \<noteq> [] then Some (real_of_int (sum_list rssiValues) / real (length rssiValues)) else None),
           sn_medianRssi = median rssiValues,
           sn_bestRssi = (case rssiValues of [] \<Rightarrow> None | r # rs \<Rightarrow> Some (fold max rs r)),
           sn_rssiBuckets = rankedBreakdown lc (ac_rssiBuckets acc) (length rssiValues),
           sn_coverageSeconds = (if window = Wsession then max 1 (nowSec - detailedCoverageStart)
                                 else max 1 (nowSec - coverageStart)),
           sn_windowFullyCovered = (if window = Wsession then ss_trimmedObservationCount session = 0
                                    else detailedCoverageStart \<le> windowStart),
           sn_oldestStoredTimestamp = oldestStoredTimestamp,
           sn_timeline = fold (fill_bin windowStart binWidth) packets (empty_timeline label windowStart binWidth) \<rparr>)"

section \<open>The store as two rolling logs\<close>

lemma slice_last_append: "0 < n \<Longrightarrow> (if n < length xs then slice_last n xs else xs) = lastn n xs"
  by (simp add: slice_last_def)

lemma append_items:
  "0 < n \<Longrightarrow> appendRawPacketUnique prev packet n =
     (if getRawPacketObservationKey packet \<in> getRawPacketObservationKey ` set prev then prev else lastn n (prev @ [packet]))"
  using slice_last_append [of n "prev @ [packet]"]
  by (simp add: appendRawPacketUnique_def Let_def list_ex_key)

lemma observe_items:
  "ss_observations (observe_summary obs session) =
     (if so_observationKey obs \<in> so_observationKey ` set (ss_observations session) then ss_observations session
      else lastn MAX_RAW_PACKET_STATS_OBSERVATIONS (ss_observations session @ [obs]))"
  by (auto simp: observe_summary_def Let_def list_ex_key lastn_def)

interpretation packet_log: rolling_log id getRawPacketObservationKey "\<lambda>p ps. appendRawPacketUnique ps p MAX_RAW_PACKETS" MAX_RAW_PACKETS
  by unfold_locales (simp_all add: append_items MAX_RAW_PACKETS_def)

interpretation stats_log: rolling_log ss_observations so_observationKey observe_summary MAX_RAW_PACKET_STATS_OBSERVATIONS
  by unfold_locales (simp_all add: observe_items MAX_RAW_PACKET_STATS_OBSERVATIONS_def)

definition session_ok :: "stats_session \<Rightarrow> bool" where
  "session_ok s \<longleftrightarrow> distinct (map so_observationKey (ss_observations s))
     \<and> length (ss_observations s) \<le> MAX_RAW_PACKET_STATS_OBSERVATIONS
     \<and> ss_totalObservedPackets s = ss_trimmedObservationCount s + length (ss_observations s)
     \<and> (0 < ss_trimmedObservationCount s \<longrightarrow> length (ss_observations s) = MAX_RAW_PACKET_STATS_OBSERVATIONS)"

definition store_ok :: "raw_packet_store \<Rightarrow> bool" where
  "store_ok st \<longleftrightarrow> distinct (map getRawPacketObservationKey (st_packets st))
     \<and> length (st_packets st) \<le> MAX_RAW_PACKETS \<and> session_ok (st_statsSession st)"

inductive store_step :: "raw_packet_store \<Rightarrow> raw_packet_store \<Rightarrow> bool" where
  store_record: "store_step st (fst (recordRawPacket (summarizeRawPacketForStats decode ptn rtn) MAX_RAW_PACKETS packet st))"
| store_clear: "store_step st (fst (clearRawPackets st))"
| store_reset: "store_step st (fst (resetRawPacketStore now))"

inductive store_reachable :: "raw_packet_store \<Rightarrow> bool" where
  store_init: "store_reachable \<lparr> st_packets = [], st_statsSession = createStatsSession now \<rparr>"
| store_more: "store_reachable st \<Longrightarrow> store_step st st' \<Longrightarrow> store_reachable st'"

lemma session_ok_init [simp]: "session_ok (createStatsSession now)"
  by (simp add: session_ok_def createStatsSession_def)

lemma observe_summary_cases:
  "observe_summary obs s = s
   \<or> (so_observationKey obs \<notin> so_observationKey ` set (ss_observations s)
      \<and> ss_totalObservedPackets (observe_summary obs s) = ss_totalObservedPackets s + 1
      \<and> ss_trimmedObservationCount (observe_summary obs s) =
          ss_trimmedObservationCount s + (length (ss_observations s) + 1 - MAX_RAW_PACKET_STATS_OBSERVATIONS))"
  by (auto simp: observe_summary_def Let_def list_ex_key)

lemma session_ok_observe:
  assumes "session_ok s"
  shows "session_ok (observe_summary obs s)"
  using observe_summary_cases [of obs s]
proof (elim disjE conjE)
  assume new: "so_observationKey obs \<notin> so_observationKey ` set (ss_observations s)"
    and t: "ss_totalObservedPackets (observe_summary obs s) = ss_totalObservedPackets s + 1"
    "ss_trimmedObservationCount (observe_summary obs s) =
       ss_trimmedObservationCount s + (length (ss_observations s) + 1 - MAX_RAW_PACKET_STATS_OBSERVATIONS)"
  have d: "distinct (map so_observationKey (ss_observations (observe_summary obs s)))"
    using stats_log.push_distinct assms by (simp add: session_ok_def)
  have len: "length (ss_observations (observe_summary obs s)) =
      min MAX_RAW_PACKET_STATS_OBSERVATIONS (length (ss_observations s) + 1)"
    using new by (simp add: observe_items)
  show ?thesis
    using assms d len t unfolding session_ok_def by auto
qed (use assms in simp)

lemma store_ok_record: "store_ok st \<Longrightarrow> store_ok (fst (recordRawPacket summarize MAX_RAW_PACKETS packet st))"
  using packet_log.push_distinct [of "st_packets st" packet] packet_log.push_bounded [of "st_packets st" packet]
    session_ok_observe [of "st_statsSession st" "summarize packet"]
  by (simp add: store_ok_def recordRawPacket_def Let_def observePacket_def)

lemma store_ok_step: "store_step st st' \<Longrightarrow> store_ok st \<Longrightarrow> store_ok st'"
  by (induction rule: store_step.induct)
    (auto simp: store_ok_record, auto simp: store_ok_def clearRawPackets_def resetRawPacketStore_def)

text \<open>C27. Whatever is recorded, cleared and reset, the packet buffer holds at most 500 packets and the
  session at most 20000 observations, each under pairwise different keys; the number of packets observed is
  the number stored plus the number trimmed, and nothing is trimmed before the session is full.\<close>

theorem store_reachable_ok:
  assumes "store_reachable st"
  shows "store_ok st"
  using assms by induction (simp_all add: store_ok_step, simp add: store_ok_def)

lemma store_reachable_ok_witness:
  "store_ok (fst (clearRawPackets \<lparr> st_packets = [], st_statsSession = createStatsSession 7 \<rparr>))"
  by (rule store_reachable_ok [OF store_more [OF store_init store_clear]])

text \<open>A run of packets with pairwise different observation keys leaves exactly the last 500 of them in
  an empty buffer, in order of arrival, and recording a packet twice is the same as recording it once.\<close>

theorem raw_packets_rolling:
  assumes "distinct (map getRawPacketObservationKey packets)"
  shows "fold (\<lambda>p ps. appendRawPacketUnique ps p MAX_RAW_PACKETS) packets [] = lastn MAX_RAW_PACKETS packets
     \<and> (\<forall>ps p. appendRawPacketUnique (appendRawPacketUnique ps p MAX_RAW_PACKETS) p MAX_RAW_PACKETS
              = appendRawPacketUnique ps p MAX_RAW_PACKETS)"
  using packet_log.pushes_fresh [of "[]" packets] packet_log.push_idem assms
  by (simp add: packet_log.pushes_def)

lemma raw_packets_rolling_witness:
  "fold (\<lambda>p ps. appendRawPacketUnique ps p MAX_RAW_PACKETS) [sample_packet, sample_packet\<lparr> rp_id := 2 \<rparr>] [] =
     lastn MAX_RAW_PACKETS [sample_packet, sample_packet\<lparr> rp_id := 2 \<rparr>]"
proof -
  have "distinct (map getRawPacketObservationKey [sample_packet, sample_packet\<lparr> rp_id := 2 \<rparr>])" by code_simp
  from raw_packets_rolling [OF this] show ?thesis by blast
qed

section \<open>Conservation laws of the statistics\<close>

definition counts_sum :: "(string, nat) jsmap \<Rightarrow> nat" where
  "counts_sum m = sum_list (map snd m)"

lemma counts_sum_set:
  "jm_wf m \<Longrightarrow> counts_sum (jm_set k v m) + coalesce (jm_get m k) 0 = counts_sum m + v"
  by (induction m) (auto simp: counts_sum_def map_of_eq_None_iff [symmetric])

lemma counts_sum_bump: "jm_wf m \<Longrightarrow> counts_sum (bump k m) = counts_sum m + 1"
  using counts_sum_set [of m k "coalesce (jm_get m k) 0 + 1"] by (simp add: bump_def)

lemma jm_wf_bump [simp]: "jm_wf m \<Longrightarrow> jm_wf (bump k m)"
  by (simp add: bump_def)

definition acc_ok :: "stats_observation list \<Rightarrow> stats_acc \<Rightarrow> bool" where
  "acc_ok ps a \<longleftrightarrow>
     jm_wf (ac_payload a) \<and> jm_wf (ac_route a) \<and> jm_wf (ac_hops a) \<and> jm_wf (ac_widths a) \<and> jm_wf (ac_rssiBuckets a)
     \<and> counts_sum (ac_payload a) = length ps \<and> counts_sum (ac_route a) = length ps
     \<and> counts_sum (ac_hops a) = length ps \<and> counts_sum (ac_widths a) = length ps
     \<and> counts_sum (ac_rssiBuckets a) = length (ac_rssiValues a)
     \<and> ac_rssiValues a = List.map_filter so_rssi ps"

lemma createCountsMap_sum: "jm_wf (createCountsMap ls) \<and> counts_sum (createCountsMap ls) = 0"
proof -
  have "jm_wf (fold (\<lambda>l. jm_set l 0) ls m) \<and> counts_sum (fold (\<lambda>l. jm_set l 0) ls m) = 0"
    if "jm_wf m" "counts_sum m = 0" for m
    using that
  proof (induction ls arbitrary: m)
    case (Cons l ls)
    have "counts_sum (jm_set l 0 m) = 0" using counts_sum_set [of m l 0] Cons.prems by simp
    with Cons show ?case by simp
  qed simp
  from this [of "[]"] show ?thesis by (simp add: createCountsMap_def counts_sum_def)
qed

lemma acc_ok_init: "acc_ok [] stats_init"
  by (simp add: acc_ok_def stats_init_def createCountsMap_sum List.map_filter_def) (simp add: counts_sum_def)

lemma acc_ok_step: "acc_ok ps a \<Longrightarrow> acc_ok (ps @ [p]) (stats_step p a)"
  by (auto simp: acc_ok_def stats_step_def counts_sum_bump List.map_filter_def split: option.splits)

lemma acc_ok_fold: "acc_ok ps (fold stats_step ps stats_init)"
  by (induction ps rule: rev_induct) (simp_all add: acc_ok_init acc_ok_step)

lemma ranked_counts: "sum_list (map rk_count (rankedBreakdown lc m tot)) = counts_sum m"
proof -
  have "map rk_count (rankedBreakdown lc m tot) = map snd (sort_by (rank_before lc) m)"
    by (simp add: rankedBreakdown_def ranked_def)
  moreover have "mset (map snd (sort_by (rank_before lc) m)) = mset (map snd m)" by simp
  ultimately show ?thesis unfolding counts_sum_def by (metis sum_mset_sum_list)
qed

lemma ordered_counts: "sum_list (map rk_count (orderedBreakdown m tot)) = counts_sum m"
  by (simp add: orderedBreakdown_def ranked_def counts_sum_def o_def)

definition bins_ok :: "nat \<Rightarrow> timeline_bin list \<Rightarrow> bool" where
  "bins_ok n bins \<longleftrightarrow> length bins = timelineBinCount \<and> sum_list (map tb_total bins) = n
     \<and> (\<forall>b \<in> set bins. jm_wf (tb_countsByType b) \<and> counts_sum (tb_countsByType b) = tb_total b)"

lemma sum_list_update_Suc:
  "i < length xs \<Longrightarrow> f y = f (xs ! i) + (1 :: nat) \<Longrightarrow> sum_list (map f (xs[i := y])) = sum_list (map f xs) + 1"
proof (induction xs arbitrary: i)
  case (Cons x xs)
  then show ?case by (cases i) auto
qed simp

lemma bin_index_bound: "bin_index ws bw p < timelineBinCount"
  by (simp add: bin_index_def timelineBinCount_def)

lemma bins_ok_fill:
  assumes "bins_ok n bins"
  shows "bins_ok (n + 1) (fill_bin ws bw p bins)"
proof -
  define i where "i = bin_index ws bw p"
  define b where "b = bins ! i"
  define b' where "b' = b\<lparr> tb_total := tb_total b + 1, tb_countsByType := bump (so_payloadType p) (tb_countsByType b) \<rparr>"
  have i: "i < length bins" using assms bin_index_bound by (simp add: bins_ok_def i_def)
  then have b: "jm_wf (tb_countsByType b)" "counts_sum (tb_countsByType b) = tb_total b"
    using assms by (auto simp: bins_ok_def b_def)
  have fill: "fill_bin ws bw p bins = bins[i := b']"
    by (simp add: fill_bin_def Let_def i_def b_def b'_def)
  have "sum_list (map tb_total (bins[i := b'])) = sum_list (map tb_total bins) + 1"
    by (rule sum_list_update_Suc [OF i]) (simp add: b'_def b_def)
  moreover have "jm_wf (tb_countsByType b')" "counts_sum (tb_countsByType b') = tb_total b'"
    using b by (simp_all add: b'_def counts_sum_bump)
  ultimately show ?thesis
    using assms set_update_subset_insert [of bins i b'] by (auto simp: fill bins_ok_def)
qed

lemma bins_ok_fold: "bins_ok (length ps) (fold (fill_bin ws bw) ps (empty_timeline label ws bw))"
proof (induction ps rule: rev_induct)
  case Nil
  have "map tb_total (empty_timeline label ws bw) = replicate timelineBinCount 0"
    by (simp add: empty_timeline_def o_def map_replicate_const)
  then show ?case
    by (auto simp: bins_ok_def empty_timeline_def counts_sum_def sum_list_replicate)
next
  case (snoc p ps)
  from bins_ok_fill [OF snoc] show ?case by simp
qed

text \<open>C36. The statistics of a window account for every packet exactly once: the counts of the payload,
  route, hop and hop-width breakdowns and of the ten bins of the timeline each add up to the number of
  packets, as do the decrypted and undecrypted ones, and the signal buckets add up to the number of packets
  that carry a signal strength.\<close>

theorem snapshot_conservation:
  "let s = buildRawPacketStatsSnapshot lc label session window nowSec; n = sn_packetCount s in
     n = length (sn_packets s)
     \<and> sum_list (map rk_count (sn_payloadBreakdown s)) = n
     \<and> sum_list (map rk_count (sn_routeBreakdown s)) = n
     \<and> sum_list (map rk_count (sn_hopProfile s)) = n
     \<and> sum_list (map rk_count (sn_hopByteWidthProfile s)) = n
     \<and> length (sn_timeline s) = timelineBinCount \<and> sum_list (map tb_total (sn_timeline s)) = n
     \<and> sn_decryptedCount s + sn_undecryptedCount s = n
     \<and> sum_list (map rk_count (sn_rssiBuckets s)) = length (List.map_filter so_rssi (sn_packets s))"
proof -
  define ws where "ws = (case window_seconds window of None \<Rightarrow> ss_sessionStartedAt session div 1000 | Some w \<Rightarrow> nowSec - w)"
  define ps where "ps = filter (\<lambda>p. ws \<le> so_timestamp p) (ss_observations session)"
  note acc = acc_ok_fold [of ps, unfolded acc_ok_def]
  note bins = bins_ok_fold [of ps ws, unfolded bins_ok_def]
  have "length (filter so_decrypted ps) \<le> length ps" by simp
  with acc bins show ?thesis
    unfolding buildRawPacketStatsSnapshot_def Let_def ws_def [symmetric] ps_def [symmetric]
    by (simp add: ranked_counts ordered_counts)
qed

end
