(* ===== verification/Unread_Counts.thy ===== *)
theory Unread_Counts
  imports App_Types
begin

text \<open>
  Unread state: the state keys and message times of \<^verbatim>\<open>utils/conversationState.ts\<close> and the operations of
  \<^verbatim>\<open>hooks/useUnreadCounts.ts\<close> on the five maps the hook keeps. A JavaScript object used as a dictionary is
  a \<open>jsmap\<close>; a missing property is a missing key. The requests that persist the read state on the server
  are fire-and-forget: only \<open>fetchUnreads\<close> returns which conversation it marks. \<^verbatim>\<open>Math.floor(Date.now() / 1000)\<close> is the parameter \<open>now\<close>.
\<close>

section \<open>State keys and message times\<close>

datatype tracked_type = Tr_channel | Tr_contact

fun getStateKey :: "tracked_type \<Rightarrow> string \<Rightarrow> string" where
  "getStateKey Tr_channel i = ''channel-'' @ i"
| "getStateKey Tr_contact i = ''contact-'' @ i"

type_synonym conversation_times = "(string, int) jsmap"

definition setLastMessageTime :: "string \<Rightarrow> int \<Rightarrow> conversation_times \<Rightarrow> conversation_times" where
  "setLastMessageTime key timestamp cache = jm_set key timestamp cache"

definition renameConversationTimeKey :: "string \<Rightarrow> string \<Rightarrow> conversation_times \<Rightarrow> conversation_times" where
  "renameConversationTimeKey oldKey newKey cache =
     (if oldKey = newKey then cache
      else (case jm_get cache oldKey of
              None \<Rightarrow> cache
            | Some oldTimestamp \<Rightarrow>
                jm_delete oldKey
                  (jm_set newKey
                     (case jm_get cache newKey of None \<Rightarrow> oldTimestamp | Some t \<Rightarrow> max t oldTimestamp) cache)))"

section \<open>The hook\<close>

record unread_state =
  ur_unreadCounts :: "(string, nat) jsmap"
  ur_mentions :: "(string, bool) jsmap"
  ur_timesCache :: conversation_times
  ur_lastMessageTimes :: conversation_times
  ur_unreadLastReadAts :: "(string, int option) jsmap"
  ur_firstUnreadIds :: "(string, int option) jsmap"
  ur_active :: "conversation option"

fun tracked :: "conversation_type \<Rightarrow> tracked_type option" where
  "tracked Cv_channel = Some Tr_channel"
| "tracked Cv_contact = Some Tr_contact"
| "tracked _ = None"

definition active_key :: "conversation option \<Rightarrow> string option" where
  "active_key ac = Option.bind ac (\<lambda>c. map_option (\<lambda>t. getStateKey t (cv_id c)) (tracked (cv_type c)))"

definition strip_key :: "string option \<Rightarrow> (string, 'v) jsmap \<Rightarrow> (string, 'v) jsmap" where
  "strip_key k m = (case k of Some key \<Rightarrow> jm_delete key m | None \<Rightarrow> m)"

definition applyUnreads :: "unread_counts \<Rightarrow> unread_state \<Rightarrow> unread_state" where
  "applyUnreads data st =
     (let activeKey = active_key (ur_active st);
          cache = (if uc_last_message_times data \<noteq> []
                   then fold (\<lambda>(key, ts). setLastMessageTime key ts) (uc_last_message_times data) (ur_timesCache st)
                   else ur_timesCache st)
      in st\<lparr> ur_unreadCounts := strip_key activeKey (uc_counts data),
             ur_mentions := strip_key activeKey (uc_mentions data),
             ur_unreadLastReadAts := uc_last_read_ats data,
             ur_firstUnreadIds := uc_first_unread_ids data,
             ur_timesCache := cache,
             ur_lastMessageTimes := (if uc_last_message_times data \<noteq> [] then cache else ur_lastMessageTimes st) \<rparr>)"

text \<open>A fetch of the server's counts: the response, or a failure that leaves the state as it is; then the
  conversation that is marked as read on the server, if one is open.\<close>

definition fetchUnreads :: "unread_counts option \<Rightarrow> unread_state \<Rightarrow> unread_state \<times> (tracked_type \<times> string) option" where
  "fetchUnreads response st =
     ((case response of Some data \<Rightarrow> applyUnreads data st | None \<Rightarrow> st),
      Option.bind (ur_active st) (\<lambda>ac. map_option (\<lambda>t. (t, cv_id ac)) (tracked (cv_type ac))))"

text \<open>The effect that marks the conversation the user opens as read.\<close>

definition view_conversation :: "conversation option \<Rightarrow> unread_state \<Rightarrow> unread_state" where
  "view_conversation ac st =
     (let st' = st\<lparr> ur_active := ac \<rparr>
      in case (active_key ac, ac) of
           (Some key, Some c) \<Rightarrow>
             if cv_id c = [] then st'
             else st'\<lparr> ur_unreadCounts := (if coalesce (jm_get (ur_unreadCounts st) key) 0 \<noteq> 0
                                           then jm_delete key (ur_unreadCounts st) else ur_unreadCounts st),
                       ur_mentions := (if coalesce (jm_get (ur_mentions st) key) False
                                       then jm_delete key (ur_mentions st) else ur_mentions st) \<rparr>
         | _ \<Rightarrow> st')"

definition incrementUnread :: "string \<Rightarrow> int \<Rightarrow> bool \<Rightarrow> unread_state \<Rightarrow> unread_state" where
  "incrementUnread stateKey messageId hasMention st =
     st\<lparr> ur_unreadCounts := jm_set stateKey (coalesce (jm_get (ur_unreadCounts st) stateKey) 0 + 1) (ur_unreadCounts st),
         ur_firstUnreadIds := (case jm_get (ur_firstUnreadIds st) stateKey of
             Some (Some _) \<Rightarrow> ur_firstUnreadIds st
           | _ \<Rightarrow> jm_set stateKey (Some messageId) (ur_firstUnreadIds st)),
         ur_mentions := (if hasMention then jm_set stateKey True (ur_mentions st) else ur_mentions st) \<rparr>"

definition message_state_key :: "message \<Rightarrow> string option" where
  "message_state_key msg =
     (if m_conversation_key msg = [] then None
      else Some (getStateKey (if m_type msg = CHAN then Tr_channel else Tr_contact) (m_conversation_key msg)))"

definition recordMessageEvent :: "int \<Rightarrow> message \<Rightarrow> bool \<Rightarrow> bool \<Rightarrow> bool \<Rightarrow> unread_state \<Rightarrow> unread_state" where
  "recordMessageEvent now msg isActiveConversation isNewMessage hasMention st =
     (case message_state_key msg of
        None \<Rightarrow> st
      | Some stateKey \<Rightarrow>
          (let timestamp = (if m_received_at msg \<noteq> 0 then int (m_received_at msg) else now);
               updated = setLastMessageTime stateKey timestamp (ur_timesCache st);
               st1 = st\<lparr> ur_timesCache := updated, ur_lastMessageTimes := updated \<rparr>
           in if \<not> isActiveConversation \<and> \<not> m_outgoing msg \<and> isNewMessage
              then incrementUnread stateKey (m_id msg) hasMention st1 else st1))"

definition renameConversationState :: "string \<Rightarrow> string \<Rightarrow> unread_state \<Rightarrow> unread_state" where
  "renameConversationState oldKey newKey st =
     (if oldKey = newKey then st
      else
        (let renamed = renameConversationTimeKey oldKey newKey (ur_timesCache st)
         in st\<lparr> ur_unreadCounts := (case jm_get (ur_unreadCounts st) oldKey of
                    None \<Rightarrow> ur_unreadCounts st
                  | Some c \<Rightarrow> jm_delete oldKey
                      (jm_set newKey (coalesce (jm_get (ur_unreadCounts st) newKey) 0 + c) (ur_unreadCounts st))),
                ur_mentions := (case jm_get (ur_mentions st) oldKey of
                    None \<Rightarrow> ur_mentions st
                  | Some b \<Rightarrow> jm_delete oldKey
                      (jm_set newKey (coalesce (jm_get (ur_mentions st) newKey) False \<or> b) (ur_mentions st))),
                ur_firstUnreadIds := (case jm_get (ur_firstUnreadIds st) oldKey of
                    None \<Rightarrow> ur_firstUnreadIds st
                  | Some i \<Rightarrow> jm_delete oldKey
                      (jm_set newKey (case jm_get (ur_firstUnreadIds st) newKey of Some (Some j) \<Rightarrow> Some j | _ \<Rightarrow> i)
                         (ur_firstUnreadIds st))),
                ur_timesCache := renamed, ur_lastMessageTimes := renamed \<rparr>))"

definition removeConversationState :: "string \<Rightarrow> unread_state \<Rightarrow> unread_state" where
  "removeConversationState stateKey st =
     st\<lparr> ur_unreadCounts := jm_delete stateKey (ur_unreadCounts st),
         ur_mentions := jm_delete stateKey (ur_mentions st),
         ur_firstUnreadIds := jm_delete stateKey (ur_firstUnreadIds st),
         ur_unreadLastReadAts := jm_delete stateKey (ur_unreadLastReadAts st) \<rparr>"

definition markAllRead :: "unread_state \<Rightarrow> unread_state" where
  "markAllRead st =
     st\<lparr> ur_unreadCounts := [], ur_mentions := [], ur_unreadLastReadAts := [], ur_firstUnreadIds := [] \<rparr>"

section \<open>Counting\<close>

definition unread_count :: "unread_state \<Rightarrow> string \<Rightarrow> nat" where
  "unread_count st k = coalesce (jm_get (ur_unreadCounts st) k) 0"

definition mentioned :: "unread_state \<Rightarrow> string \<Rightarrow> bool" where
  "mentioned st k = coalesce (jm_get (ur_mentions st) k) False"

definition first_unread :: "unread_state \<Rightarrow> string \<Rightarrow> int option" where
  "first_unread st k = coalesce (jm_get (ur_firstUnreadIds st) k) None"

lemmas unread_views = unread_count_def mentioned_def first_unread_def

lemma count_increment [simp]:
  "unread_count (incrementUnread k i h st) k' = unread_count st k' + (if k' = k then 1 else 0)"
  by (simp add: unread_count_def incrementUnread_def jm_get_set)

lemma mentioned_increment [simp]: "mentioned (incrementUnread k i h st) k' \<longleftrightarrow> mentioned st k' \<or> (k' = k \<and> h)"
  by (auto simp: mentioned_def incrementUnread_def jm_get_set)

lemma first_increment [simp]:
  "first_unread (incrementUnread k i h st) k' =
     (if k' = k \<and> first_unread st k = None then Some i else first_unread st k')"
  by (auto simp: first_unread_def incrementUnread_def jm_get_set split: option.splits)

lemma times_views [simp]:
  "unread_count (st\<lparr> ur_timesCache := c, ur_lastMessageTimes := c \<rparr>) k = unread_count st k"
  "mentioned (st\<lparr> ur_timesCache := c, ur_lastMessageTimes := c \<rparr>) k = mentioned st k"
  "first_unread (st\<lparr> ur_timesCache := c, ur_lastMessageTimes := c \<rparr>) k = first_unread st k"
  by (simp_all add: unread_views)

lemma increment_frame [simp]:
  "ur_active (incrementUnread k i h st) = ur_active st"
  "ur_lastMessageTimes (incrementUnread k i h st) = ur_lastMessageTimes st"
  by (simp_all add: incrementUnread_def)

lemma view_active [simp]: "ur_active (view_conversation ac st) = ac"
  by (simp add: view_conversation_def Let_def split: option.split)

lemma count_view:
  "unread_count (view_conversation ac st) k =
     (if active_key ac = Some k \<and> cv_id (the ac) \<noteq> [] then 0 else unread_count st k)"
  by (cases ac) (auto simp: view_conversation_def Let_def unread_count_def jm_get_delete active_key_def split: option.split)

lemma mentioned_view:
  "mentioned (view_conversation ac st) k \<longleftrightarrow>
     mentioned st k \<and> \<not> (active_key ac = Some k \<and> cv_id (the ac) \<noteq> [])"
  by (cases ac) (auto simp: view_conversation_def Let_def mentioned_def jm_get_delete active_key_def split: option.split)

lemma first_view [simp]: "first_unread (view_conversation ac st) k = first_unread st k"
  by (simp add: view_conversation_def Let_def first_unread_def split: option.split)

text \<open>A message event raises the unread count of its conversation by one exactly when the message is
  incoming, new and not for the open conversation; then it also marks a mention and, if the conversation
  had no boundary yet, becomes the first unread message. No other conversation changes, and the time of the
  last message is updated in every case.\<close>

theorem recordMessageEvent_spec:
  assumes "message_state_key msg = Some k"
  shows "let st' = recordMessageEvent now msg isActive isNew hasMention st;
             counted = (\<not> isActive \<and> \<not> m_outgoing msg \<and> isNew) in
     unread_count st' k = unread_count st k + (if counted then 1 else 0)
     \<and> mentioned st' k = (mentioned st k \<or> counted \<and> hasMention)
     \<and> first_unread st' k = (if counted \<and> first_unread st k = None then Some (m_id msg) else first_unread st k)
     \<and> (\<forall>k'. k' \<noteq> k \<longrightarrow> unread_count st' k' = unread_count st k' \<and> mentioned st' k' = mentioned st k'
            \<and> first_unread st' k' = first_unread st k')
     \<and> jm_get (ur_lastMessageTimes st') k = Some (if m_received_at msg \<noteq> 0 then int (m_received_at msg) else now)"
  using assms by (simp add: recordMessageEvent_def setLastMessageTime_def Let_def jm_get_set)

definition empty_unread :: unread_state where
  "empty_unread = \<lparr> ur_unreadCounts = [], ur_mentions = [], ur_timesCache = [], ur_lastMessageTimes = [],
                    ur_unreadLastReadAts = [], ur_firstUnreadIds = [], ur_active = None \<rparr>"

definition sample_incoming :: message where
  "sample_incoming = \<lparr> m_id = 7, m_type = CHAN, m_conversation_key = ''AB'', m_text = ''hi'',
     m_sender_timestamp = Some 1700000000, m_received_at = 1700000001, m_paths = None, m_txt_type = 0,
     m_signature = None, m_sender_key = None, m_outgoing = False, m_acked = 0, m_sender_name = None,
     m_channel_name = Absent, m_packet_id = Absent, m_transport_code = Absent, m_region = Absent,
     m_pending = None \<rparr>"

lemma recordMessageEvent_spec_witness:
  "unread_count (recordMessageEvent 0 sample_incoming False True True empty_unread) ''channel-AB'' = 1"
proof -
  have "message_state_key sample_incoming = Some ''channel-AB''"
    by (simp add: message_state_key_def sample_incoming_def)
  from recordMessageEvent_spec [OF this, of 0 False True True empty_unread] show ?thesis
    by (simp add: Let_def unread_count_def empty_unread_def sample_incoming_def)
qed

text \<open>Renaming a conversation moves its state without loss: the unread counts of both keys add up under
  the new key, a mention on either side is kept, the later of the two message times wins, and nothing remains
  under the old key.\<close>

theorem renameConversationState_spec:
  assumes "oldKey \<noteq> newKey"
  shows "let st' = renameConversationState oldKey newKey st in
     unread_count st' newKey = unread_count st newKey + unread_count st oldKey
     \<and> mentioned st' newKey = (mentioned st newKey \<or> mentioned st oldKey)
     \<and> first_unread st' newKey = (if first_unread st newKey \<noteq> None then first_unread st newKey else first_unread st oldKey)
     \<and> (\<forall>t. jm_get (ur_timesCache st) oldKey = Some t \<longrightarrow>
          jm_get (ur_lastMessageTimes st') newKey =
            Some (case jm_get (ur_timesCache st) newKey of None \<Rightarrow> t | Some t' \<Rightarrow> max t' t))
     \<and> jm_get (ur_unreadCounts st') oldKey = None \<and> jm_get (ur_mentions st') oldKey = None
     \<and> jm_get (ur_firstUnreadIds st') oldKey = None \<and> jm_get (ur_lastMessageTimes st') oldKey = None"
  using assms
  by (auto simp: renameConversationState_def renameConversationTimeKey_def unread_views Let_def jm_get_set jm_get_delete
      split: option.splits)

lemma renameConversationState_spec_witness:
  "unread_count (renameConversationState ''contact-aa'' ''contact-aabb''
      (empty_unread\<lparr> ur_unreadCounts := [(''contact-aa'', 2), (''contact-aabb'', 3)] \<rparr>)) ''contact-aabb'' = 5"
  using renameConversationState_spec [of "''contact-aa''" "''contact-aabb''"
      "empty_unread\<lparr> ur_unreadCounts := [(''contact-aa'', 2), (''contact-aabb'', 3)] \<rparr>"]
  by (simp add: Let_def unread_count_def)

section \<open>The open conversation\<close>

text \<open>The operations in any order, where the caller of \<^const>\<open>recordMessageEvent\<close> reports correctly whether
  the message belongs to the open conversation and a rename does not target it.\<close>

inductive unread_step :: "unread_state \<Rightarrow> unread_state \<Rightarrow> bool" where
  step_view: "(\<forall>c. ac = Some c \<longrightarrow> cv_id c \<noteq> []) \<Longrightarrow> unread_step st (view_conversation ac st)"
| step_apply: "unread_step st (applyUnreads data st)"
| step_fetch: "unread_step st (fst (fetchUnreads response st))"
| step_message: "isActive = (message_state_key msg = active_key (ur_active st)) \<Longrightarrow>
    unread_step st (recordMessageEvent now msg isActive isNew hasMention st)"
| step_rename: "active_key (ur_active st) \<noteq> Some newKey \<Longrightarrow>
    unread_step st (renameConversationState oldKey newKey st)"
| step_remove: "unread_step st (removeConversationState k st)"
| step_markAll: "unread_step st (markAllRead st)"

inductive unread_reachable :: "unread_state \<Rightarrow> bool" where
  unread_init: "unread_reachable empty_unread"
| unread_more: "unread_reachable st \<Longrightarrow> unread_step st st' \<Longrightarrow> unread_reachable st'"

definition active_read :: "unread_state \<Rightarrow> bool" where
  "active_read st \<longleftrightarrow>
     (\<forall>k. active_key (ur_active st) = Some k \<longrightarrow> unread_count st k = 0 \<and> \<not> mentioned st k)"

lemma active_read_message:
  assumes "active_read st" and "isActive = (message_state_key msg = active_key (ur_active st))"
  shows "active_read (recordMessageEvent now msg isActive isNew hasMention st)"
proof -
  have act: "ur_active (recordMessageEvent now msg isActive isNew hasMention st) = ur_active st"
    by (simp add: recordMessageEvent_def Let_def split: option.split)
  show ?thesis
    using assms unfolding active_read_def act
    by (cases "message_state_key msg") (auto simp: recordMessageEvent_def Let_def)
qed

lemma active_read_apply: "active_read (applyUnreads data st)"
  by (simp add: active_read_def applyUnreads_def strip_key_def Let_def unread_views jm_get_delete split: option.splits)

lemma active_read_step: "unread_step st st' \<Longrightarrow> active_read st \<Longrightarrow> active_read st'"
proof (induction rule: unread_step.induct)
  case (step_view ac st)
  then show ?case
    by (cases ac) (auto simp: active_read_def count_view mentioned_view active_key_def)
next
  case (step_fetch st response)
  then show ?case by (simp add: fetchUnreads_def active_read_apply split: option.split)
next
  case (step_apply st data)
  show ?case by (rule active_read_apply)
next
  case (step_message isActive msg st)
  then show ?case by (simp add: active_read_message)
next
  case (step_rename st newKey oldKey)
  then show ?case
    by (auto simp: active_read_def renameConversationState_def Let_def unread_views jm_get_set jm_get_delete
        split: option.splits if_splits)
next
  case (step_remove st k)
  then show ?case by (auto simp: active_read_def removeConversationState_def unread_views jm_get_delete)
next
  case (step_markAll st)
  then show ?case by (simp add: active_read_def markAllRead_def unread_views)
qed



text \<open>Reading a conversation resets its count but not its first unread message: when it is read and a
  new message arrives later, the boundary is still the message that was first unread before.\<close>

theorem stale_unread_boundary:
  assumes "active_key (Some c) = Some k" and "cv_id c \<noteq> []" and "first_unread st k = Some old"
    and "message_state_key msg = Some k" and "\<not> m_outgoing msg"
  shows "let st1 = view_conversation (Some c) st;
             st2 = view_conversation None st1;
             st3 = recordMessageEvent now msg False True hasMention st2 in
     unread_count st1 k = 0 \<and> unread_count st3 k = 1 \<and> first_unread st3 k = Some old"
  using assms by (simp add: Let_def recordMessageEvent_def count_view)

lemma stale_unread_boundary_witness:
  "first_unread (recordMessageEvent 0 sample_incoming False True False
      (view_conversation None
        (view_conversation (Some \<lparr> cv_type = Cv_channel, cv_id = ''AB'', cv_name = ''AB'', cv_mapFocusKey = None \<rparr>)
          (empty_unread\<lparr> ur_unreadCounts := [(''channel-AB'', 1)], ur_firstUnreadIds := [(''channel-AB'', Some 3)] \<rparr>))))
     ''channel-AB'' = Some 3 \<and> m_id sample_incoming = 7"
proof -
  have 1: "active_key (Some \<lparr> cv_type = Cv_channel, cv_id = ''AB'', cv_name = ''AB'', cv_mapFocusKey = None \<rparr>) = Some ''channel-AB''"
    by code_simp
  have 2: "message_state_key sample_incoming = Some ''channel-AB''"
    by (simp add: message_state_key_def sample_incoming_def)
  show ?thesis
    using stale_unread_boundary [OF 1 _ _ 2, of "empty_unread\<lparr> ur_unreadCounts := [(''channel-AB'', 1)],
        ur_firstUnreadIds := [(''channel-AB'', Some 3)] \<rparr>" 3 0 False]
    by (simp add: Let_def first_unread_def sample_incoming_def)
qed

end
