(* ===== verification/Conversation_Hook.thy ===== *)
theory Conversation_Hook
  imports Message_Cache
begin

text \<open>
  The hook \<^verbatim>\<open>useConversationMessages\<close> (\<^verbatim>\<open>hooks/useConversationMessages.ts\<close>) around the cache: the messages
  of the open conversation, paging in both directions, reconciliation after a reconnect, messages and
  acknowledgements from the socket, and changes of the block list.

  One definition per callback or effect. A callback that awaits a request is split where it waits: the
  start returns the request it sends, and a second definition handles the response (or the failure). React
  state and the \<^verbatim>\<open>ref\<close> that mirrors it are separate fields, since callbacks read the refs and a ref follows
  its state only when React commits (\<open>commit\<close>); \<^verbatim>\<open>fetchOlderMessages\<close> compares arrays by identity, so the
  message list carries the identity of its array. Toasts, logging and the abort controllers (which only
  suppress responses) are left out.
\<close>

section \<open>Blocked senders\<close>

definition isMessageBlocked :: "message \<Rightarrow> string list \<Rightarrow> string list \<Rightarrow> bool" where
  "isMessageBlocked msg blockedKeys blockedNames =
     (if m_outgoing msg then False
      else if m_type msg = PRIV \<and> to_lower (m_conversation_key msg) \<in> set blockedKeys then True
      else if m_type msg = CHAN \<and> truthy (m_sender_key msg) \<and> to_lower (the (m_sender_key msg)) \<in> set blockedKeys then True
      else truthy (m_sender_name msg) \<and> the (m_sender_name msg) \<in> set blockedNames)"

section \<open>State\<close>

type_synonym message_array = "nat \<times> message list"

record hook_state =
  hk_active :: "conversation option"
  hk_reloadVersion :: nat
  hk_prevReloadVersion :: nat
  hk_prevConversationId :: "string option"
  hk_fetchingConversationId :: "string option"
  hk_messages :: message_array
  hk_messagesRef :: message_array
  hk_messagesLoading :: bool
  hk_loadingOlder :: bool
  hk_loadingOlderRef :: bool
  hk_loadingNewer :: bool
  hk_loadingNewerRef :: bool
  hk_hasOlder :: bool
  hk_hasOlderRef :: bool
  hk_hasNewer :: bool
  hk_hasNewerRef :: bool
  hk_olderFetchedFrom :: "nat option"
  hk_seen :: "string jsset"
  hk_pendingAcks :: pending_acks
  hk_cache :: message_cache
  hk_latestReconcileRequestId :: nat
  hk_pendingReconnectReconcile :: bool
  hk_fresh :: nat

datatype page_request =
    Req_latest string bool
  | Req_reconcile string nat
  | Req_older string nat message
  | Req_newer string message
  | Req_around string int
  | Req_unblocked string message message

definition setMessages :: "message list \<Rightarrow> hook_state \<Rightarrow> hook_state" where
  "setMessages ms st = st\<lparr> hk_messages := (hk_fresh st, ms), hk_fresh := hk_fresh st + 1 \<rparr>"

definition hook_init :: hook_state where
  "hook_init =
     \<lparr> hk_active = None, hk_reloadVersion = 0, hk_prevReloadVersion = 0, hk_prevConversationId = None,
       hk_fetchingConversationId = None, hk_messages = (0, []), hk_messagesRef = (0, []), hk_messagesLoading = False,
       hk_loadingOlder = False, hk_loadingOlderRef = False, hk_loadingNewer = False, hk_loadingNewerRef = False,
       hk_hasOlder = False, hk_hasOlderRef = False, hk_hasNewer = False, hk_hasNewerRef = False,
       hk_olderFetchedFrom = None, hk_seen = [], hk_pendingAcks = [], hk_cache = [],
       hk_latestReconcileRequestId = 0, hk_pendingReconnectReconcile = False, hk_fresh = 1 \<rparr>"

text \<open>The effects that copy state into refs after a commit.\<close>

definition commit :: "hook_state \<Rightarrow> hook_state" where
  "commit st =
     st\<lparr> hk_messagesRef := hk_messages st, hk_loadingOlderRef := hk_loadingOlder st,
         hk_loadingNewerRef := hk_loadingNewer st, hk_hasOlderRef := hk_hasOlder st, hk_hasNewerRef := hk_hasNewer st \<rparr>"

definition syncSeenContent :: "message list \<Rightarrow> hook_state \<Rightarrow> hook_state" where
  "syncSeenContent ms st = st\<lparr> hk_seen := js_set_of (map getMessageContentKey ms) \<rparr>"

definition ref_messages :: "hook_state \<Rightarrow> message list" where
  "ref_messages st = snd (hk_messagesRef st)"

definition with_pending_acks :: "message list \<Rightarrow> hook_state \<Rightarrow> message list \<times> hook_state" where
  "with_pending_acks data st =
     (let (ms, acks) = applyPendingAcks data (hk_pendingAcks st) in (ms, st\<lparr> hk_pendingAcks := acks \<rparr>))"

section \<open>Loading and reconciling\<close>

definition fetchLatestMessages :: "bool \<Rightarrow> hook_state \<Rightarrow> hook_state \<times> page_request option" where
  "fetchLatestMessages showLoading st =
     (if \<not> isMessageConversation (hk_active st) then ((setMessages [] st)\<lparr> hk_hasOlder := False \<rparr>, None)
      else
        (let st1 = st\<lparr> hk_pendingReconnectReconcile := False \<rparr>;
             st2 = (if showLoading then (setMessages [] st1)\<lparr> hk_messagesLoading := True \<rparr> else st1)
         in (st2, Some (Req_latest (cv_id (the (hk_active st))) showLoading))))"

definition latest_loaded :: "string \<Rightarrow> bool \<Rightarrow> message list \<Rightarrow> hook_state \<Rightarrow> hook_state" where
  "latest_loaded conversationId showLoading data st =
     (let st' =
        (if hk_fetchingConversationId st \<noteq> Some conversationId then st
         else
           (let (ms, st1) = with_pending_acks data st;
                merged = reconcileConversationMessages (ref_messages st1) ms;
                nextMessages = coalesce merged (ref_messages st1);
                st2 = (if merged \<noteq> None then setMessages nextMessages st1 else st1)
            in (syncSeenContent nextMessages st2)\<lparr> hk_hasOlder := MESSAGE_PAGE_SIZE \<le> length ms \<rparr>))
      in if showLoading then st'\<lparr> hk_messagesLoading := False \<rparr> else st')"

definition latest_failed :: "bool \<Rightarrow> hook_state \<Rightarrow> hook_state" where
  "latest_failed showLoading st = (if showLoading then st\<lparr> hk_messagesLoading := False \<rparr> else st)"

definition reconcile_loaded :: "string \<Rightarrow> nat \<Rightarrow> message list \<Rightarrow> hook_state \<Rightarrow> hook_state" where
  "reconcile_loaded conversationId requestId data st =
     (if hk_fetchingConversationId st \<noteq> Some conversationId \<or> hk_latestReconcileRequestId st \<noteq> requestId then st
      else
        (let (ms, st1) = with_pending_acks data st;
             st2 = st1\<lparr> hk_hasOlder := MESSAGE_PAGE_SIZE \<le> length ms \<rparr>
         in case reconcileConversationMessages (ref_messages st2) ms of
              None \<Rightarrow> st2
            | Some merged \<Rightarrow> syncSeenContent merged (setMessages merged st2)))"

section \<open>Paging\<close>

definition msg_before :: "message \<Rightarrow> message \<Rightarrow> bool" where
  "msg_before a b \<longleftrightarrow> m_received_at a < m_received_at b \<or> (m_received_at a = m_received_at b \<and> m_id a < m_id b)"

definition oldest_message :: "message list \<Rightarrow> message option" where
  "oldest_message ms =
     foldl (\<lambda>oldest msg. case oldest of None \<Rightarrow> Some msg | Some o' \<Rightarrow> if msg_before msg o' then Some msg else oldest) None ms"

definition newest_message :: "message list \<Rightarrow> message option" where
  "newest_message ms =
     foldl (\<lambda>newest msg. case newest of None \<Rightarrow> Some msg | Some n \<Rightarrow> if msg_before n msg then Some msg else newest) None ms"

definition fetchOlderMessages :: "hook_state \<Rightarrow> hook_state \<times> page_request option" where
  "fetchOlderMessages st =
     (if \<not> isMessageConversation (hk_active st) \<or> hk_loadingOlderRef st \<or> \<not> hk_hasOlderRef st
         \<or> hk_olderFetchedFrom st = Some (fst (hk_messagesRef st)) then (st, None)
      else (case oldest_message (ref_messages st) of
              None \<Rightarrow> (st, None)
            | Some oldest \<Rightarrow>
                (st\<lparr> hk_loadingOlderRef := True, hk_loadingOlder := True \<rparr>,
                 Some (Req_older (cv_id (the (hk_active st))) (fst (hk_messagesRef st)) oldest))))"

definition older_done :: "hook_state \<Rightarrow> hook_state" where
  "older_done st = st\<lparr> hk_loadingOlderRef := False, hk_loadingOlder := False \<rparr>"

text \<open>\<open>eager\<close> says whether React evaluates the updater while \<^verbatim>\<open>setMessages\<close> runs, which it does when no
  other update is queued; otherwise the updater runs at the next render and leaves the ref alone.\<close>

definition older_loaded :: "bool \<Rightarrow> string \<Rightarrow> nat \<Rightarrow> message list \<Rightarrow> hook_state \<Rightarrow> hook_state" where
  "older_loaded eager conversationId fetchedFrom data st =
     older_done
       (if hk_fetchingConversationId st \<noteq> Some conversationId then st
        else
          (let (ms, st1) = with_pending_acks data (st\<lparr> hk_olderFetchedFrom := Some fetchedFrom \<rparr>);
               prev = snd (hk_messages st1);
               merged = appendUniqueMessages prev ms;
               st2 = (if ms = [] \<or> merged = prev then st1
                      else
                        (let s = setMessages merged st1
                         in if eager then syncSeenContent merged (s\<lparr> hk_messagesRef := hk_messages s \<rparr>) else s))
           in st2\<lparr> hk_hasOlder := MESSAGE_PAGE_SIZE \<le> length ms \<rparr>))"

definition fetchNewerMessages :: "hook_state \<Rightarrow> hook_state \<times> page_request option" where
  "fetchNewerMessages st =
     (if \<not> isMessageConversation (hk_active st) \<or> hk_loadingNewerRef st \<or> \<not> hk_hasNewerRef st then (st, None)
      else (case newest_message (ref_messages st) of
              None \<Rightarrow> (st, None)
            | Some newest \<Rightarrow>
                (st\<lparr> hk_loadingNewerRef := True, hk_loadingNewer := True \<rparr>,
                 Some (Req_newer (cv_id (the (hk_active st))) newest))))"

definition newer_done :: "hook_state \<Rightarrow> hook_state" where
  "newer_done st = st\<lparr> hk_loadingNewerRef := False, hk_loadingNewer := False \<rparr>"

definition next_reconcile :: "string \<Rightarrow> hook_state \<Rightarrow> hook_state \<times> page_request option" where
  "next_reconcile conversationId st =
     (let requestId = hk_latestReconcileRequestId st + 1
      in (st\<lparr> hk_pendingReconnectReconcile := False, hk_latestReconcileRequestId := requestId \<rparr>,
          Some (Req_reconcile conversationId requestId)))"

definition newer_loaded :: "string \<Rightarrow> message list \<Rightarrow> hook_state \<Rightarrow> hook_state \<times> page_request option" where
  "newer_loaded conversationId data st =
     (if hk_fetchingConversationId st \<noteq> Some conversationId then (newer_done st, None)
      else
        (let (ms, st1) = with_pending_acks data st;
             newMessages = filter (\<lambda>msg. getMessageContentKey msg \<notin> set (hk_seen st1)) ms;
             st2 = (if newMessages = [] then st1
                    else (setMessages (snd (hk_messages st1) @ newMessages) st1)
                           \<lparr> hk_seen := fold js_add (map getMessageContentKey newMessages) (hk_seen st1) \<rparr>);
             stillHasNewer = (MESSAGE_PAGE_SIZE \<le> length ms);
             st3 = st2\<lparr> hk_hasNewer := stillHasNewer \<rparr>;
             (st4, req) = (if \<not> stillHasNewer \<and> hk_pendingReconnectReconcile st3
                           then next_reconcile conversationId st3 else (st3, None))
         in (newer_done st4, req)))"

section \<open>Switching, reloading, reconnecting\<close>

definition jumpToBottom :: "hook_state \<Rightarrow> hook_state \<times> page_request option" where
  "jumpToBottom st =
     (case hk_active st of
        None \<Rightarrow> (st, None)
      | Some c \<Rightarrow>
          fetchLatestMessages True (st\<lparr> hk_hasNewer := False, hk_cache := cache_remove (cv_id c) (hk_cache st) \<rparr>))"

definition reloadCurrentConversation :: "hook_state \<Rightarrow> hook_state" where
  "reloadCurrentConversation st =
     (if \<not> isMessageConversation (hk_active st) then st
      else st\<lparr> hk_hasNewer := False, hk_cache := cache_remove (cv_id (the (hk_active st))) (hk_cache st),
               hk_reloadVersion := hk_reloadVersion st + 1 \<rparr>)"

definition reconcileOnReconnect :: "hook_state \<Rightarrow> hook_state \<times> page_request option" where
  "reconcileOnReconnect st =
     (if \<not> isMessageConversation (hk_active st) then (st, None)
      else if hk_hasNewerRef st then (st\<lparr> hk_pendingReconnectReconcile := True \<rparr>, None)
      else next_reconcile (cv_id (the (hk_active st))) st)"

text \<open>The effect that runs when the open conversation, the target message or the reload version changes,
  after the refs have followed the commit.\<close>

definition conversation_effect :: "conversation option \<Rightarrow> int option \<Rightarrow> hook_state \<Rightarrow> hook_state \<times> page_request option" where
  "conversation_effect active target st0 =
     (let st = (commit st0)\<lparr> hk_active := active \<rparr>;
          prevId = hk_prevConversationId st;
          newId = map_option cv_id active;
          conversationChanged = (prevId \<noteq> newId);
          reloadRequested = (hk_prevReloadVersion st \<noteq> hk_reloadVersion st);
          hasTarget = (target \<noteq> None \<and> target \<noteq> Some 0);
          st1 = st\<lparr> hk_fetchingConversationId := newId, hk_prevConversationId := newId,
                    hk_prevReloadVersion := hk_reloadVersion st, hk_latestReconcileRequestId := 0,
                    hk_pendingReconnectReconcile := False \<rparr>
      in if \<not> conversationChanged \<and> \<not> hasTarget \<and> \<not> reloadRequested then (st1, None)
         else
           (let st2 = st1\<lparr> hk_loadingOlder := False, hk_loadingOlderRef := False, hk_olderFetchedFrom := None,
                           hk_loadingNewer := False,
                           hk_hasNewer := (if conversationChanged then False else hk_hasNewer st1) \<rparr>;
                st3 = (if conversationChanged \<and> truthy prevId \<and> ref_messages st2 \<noteq> [] \<and> \<not> hk_hasNewerRef st2
                       then st2\<lparr> hk_cache := cache_set (the prevId)
                                  \<lparr> ce_messages = ref_messages st2, ce_hasOlderMessages = hk_hasOlderRef st2 \<rparr> (hk_cache st2) \<rparr>
                       else st2)
            in if \<not> isMessageConversation active then ((setMessages [] st3)\<lparr> hk_hasOlder := False \<rparr>, None)
               else
                 (let conversationId = cv_id (the active)
                  in if hasTarget then
                       ((setMessages [] st3)\<lparr> hk_messagesLoading := True \<rparr>, Some (Req_around conversationId (the target)))
                     else
                       (let (cached, cache') = cache_get conversationId (hk_cache st3); st4 = st3\<lparr> hk_cache := cache' \<rparr>
                        in case cached of
                             Some entry \<Rightarrow>
                               (let st5 = (syncSeenContent (ce_messages entry) (setMessages (ce_messages entry) st4))
                                            \<lparr> hk_hasOlder := ce_hasOlderMessages entry, hk_messagesLoading := False \<rparr>;
                                    requestId = hk_latestReconcileRequestId st5 + 1
                                in (st5\<lparr> hk_latestReconcileRequestId := requestId \<rparr>,
                                    Some (Req_reconcile conversationId requestId)))
                           | None \<Rightarrow> fetchLatestMessages True st4))))"

definition around_loaded :: "string \<Rightarrow> messages_around_response \<Rightarrow> hook_state \<Rightarrow> hook_state" where
  "around_loaded conversationId response st =
     (let st' =
        (if hk_fetchingConversationId st \<noteq> Some conversationId then st
         else
           (let (ms, st1) = with_pending_acks (ma_messages response) st
            in (syncSeenContent ms (setMessages ms st1))
                 \<lparr> hk_hasOlder := ma_has_older response, hk_hasNewer := ma_has_newer response \<rparr>))
      in st'\<lparr> hk_messagesLoading := False \<rparr>)"

section \<open>Messages and acknowledgements from the socket\<close>

definition appendActiveMessageIfNew :: "message \<Rightarrow> hook_state \<Rightarrow> bool \<times> hook_state" where
  "appendActiveMessageIfNew msg st =
     (let (m, acks) = applyPendingAck msg (hk_pendingAcks st);
          st1 = st\<lparr> hk_pendingAcks := acks \<rparr>;
          contentKey = getMessageContentKey m
      in if contentKey \<in> set (hk_seen st1) then (False, st1)
         else
           (let seen = js_add contentKey (hk_seen st1);
                seen' = (if 1000 < length seen
                         then js_add contentKey (js_set_of (map getMessageContentKey (ref_messages st1))) else seen);
                st2 = st1\<lparr> hk_seen := seen' \<rparr>;
                prev = snd (hk_messages st2)
            in (True, if list_ex (\<lambda>p. m_id p = m_id m) prev then st2 else setMessages (prev @ [m]) st2)))"

definition updateMessageAck :: "int \<Rightarrow> nat \<Rightarrow> message_path list option \<Rightarrow> int opt \<Rightarrow> hook_state \<Rightarrow> hook_state" where
  "updateMessageAck messageId ackCount paths packetId st =
     (let buffer = (\<lambda>s. s\<lparr> hk_pendingAcks := setPendingAck messageId (ackCount, paths, packetId) (hk_pendingAcks s) \<rparr>)
      in if \<not> list_ex (\<lambda>m. m_id m = messageId) (ref_messages st) then buffer st
         else
           (let st1 = st\<lparr> hk_pendingAcks := jm_delete messageId (hk_pendingAcks st) \<rparr>;
                prev = snd (hk_messages st1)
            in case find_index (\<lambda>m. m_id m = messageId) prev of
                 Some idx \<Rightarrow> setMessages (prev[idx := ack_message ackCount paths packetId (prev ! idx)]) st1
               | None \<Rightarrow> buffer st1))"

definition receiveMessageAck :: "int \<Rightarrow> nat \<Rightarrow> message_path list option \<Rightarrow> int opt \<Rightarrow> hook_state \<Rightarrow> hook_state" where
  "receiveMessageAck messageId ackCount paths packetId st =
     (let st1 = updateMessageAck messageId ackCount paths packetId st
      in st1\<lparr> hk_cache := cache_updateAck messageId ackCount paths packetId (hk_cache st1) \<rparr>)"

definition observeMessage :: "message \<Rightarrow> hook_state \<Rightarrow> bool \<times> bool \<times> hook_state" where
  "observeMessage msg st =
     (let (m, acks) = applyPendingAck msg (hk_pendingAcks st);
          st1 = st\<lparr> hk_pendingAcks := acks \<rparr>
      in if isActiveConversationMessage (hk_active st1) m then
           (if hk_hasNewerRef st1 then (False, True, st1)
            else (let (added, st2) = appendActiveMessageIfNew m st1 in (added, True, st2)))
         else
           (let (added, cache') = cache_addMessage (m_conversation_key m) m (hk_cache st1)
            in (added, False, st1\<lparr> hk_cache := cache' \<rparr>)))"

definition renameConversationMessages :: "string \<Rightarrow> string \<Rightarrow> hook_state \<Rightarrow> hook_state" where
  "renameConversationMessages oldId newId st = st\<lparr> hk_cache := cache_rename oldId newId (hk_cache st) \<rparr>"

definition removeConversationMessages :: "string \<Rightarrow> hook_state \<Rightarrow> hook_state" where
  "removeConversationMessages conversationId st = st\<lparr> hk_cache := cache_remove conversationId (hk_cache st) \<rparr>"

section \<open>The block list\<close>

definition applyBlockListChange ::
  "string list \<Rightarrow> string list \<Rightarrow> bool \<Rightarrow> hook_state \<Rightarrow> hook_state \<times> page_request option" where
  "applyBlockListChange blockedKeys blockedNames refetchUnblocked st =
     (let st1 = st\<lparr> hk_cache := cache_clear (hk_cache st) \<rparr>
      in if \<not> isMessageConversation (hk_active st1) then (st1, None)
         else
           (let visible = filter (\<lambda>msg. \<not> isMessageBlocked msg blockedKeys blockedNames) (ref_messages st1);
                st2 = (if length visible \<noteq> length (ref_messages st1)
                       then (let s = setMessages visible st1
                             in syncSeenContent visible (s\<lparr> hk_messagesRef := hk_messages s \<rparr>))
                       else st1)
            in if \<not> refetchUnblocked \<or> visible = [] then (st2, None)
               else (st2, Some (Req_unblocked (cv_id (the (hk_active st2)))
                            (the (oldest_message visible)) (the (newest_message visible))))))"

definition unblocked_loaded :: "string \<Rightarrow> message \<Rightarrow> message list \<Rightarrow> hook_state \<Rightarrow> hook_state" where
  "unblocked_loaded conversationId newest data st =
     (if hk_fetchingConversationId st \<noteq> Some conversationId then st
      else
        (let inWindow = (if hk_hasNewerRef st then filter (\<lambda>msg. \<not> msg_before newest msg) data else data);
             (ms, st1) = with_pending_acks inWindow st;
             merged = appendUniqueMessages (ref_messages st1) ms
         in if merged = ref_messages st1 then st1
            else (let s = setMessages merged st1
                  in syncSeenContent merged (s\<lparr> hk_messagesRef := hk_messages s \<rparr>))))"

section \<open>Unique message ids\<close>

abbreviation ids :: "message list \<Rightarrow> int list" where
  "ids ms \<equiv> map m_id ms"

definition cache_ids :: "message_cache \<Rightarrow> bool" where
  "cache_ids c \<longleftrightarrow> (\<forall>e \<in> snd ` set c. distinct (ids (ce_messages e)))"

definition hook_inv :: "hook_state \<Rightarrow> bool" where
  "hook_inv st \<longleftrightarrow> distinct (ids (snd (hk_messages st))) \<and> distinct (ids (snd (hk_messagesRef st)))
     \<and> cache_inv (hk_cache st) \<and> cache_ids (hk_cache st) \<and> acks_inv (hk_pendingAcks st)"

text \<open>Every callback, effect and response, in any order. What the server promises appears as premises:
  the rows of one page have different ids, and a page after a cursor contains none of the loaded rows.\<close>

inductive hook_step :: "hook_state \<Rightarrow> hook_state \<Rightarrow> bool" where
  h_commit: "hook_step st (commit st)"
| h_switch: "hook_step st (fst (conversation_effect active target st))"
| h_latest: "hook_step st (fst (fetchLatestMessages showLoading st))"
| h_latest_loaded: "distinct (ids data) \<Longrightarrow> hook_step st (latest_loaded conv showLoading data st)"
| h_latest_failed: "hook_step st (latest_failed showLoading st)"
| h_reconciled: "distinct (ids data) \<Longrightarrow> hook_step st (reconcile_loaded conv req data st)"
| h_older: "hook_step st (fst (fetchOlderMessages st))"
| h_older_loaded: "hook_step st (older_loaded eager conv from data st)"
| h_older_failed: "hook_step st (older_done st)"
| h_newer: "hook_step st (fst (fetchNewerMessages st))"
| h_newer_loaded: "distinct (ids data) \<Longrightarrow> set (ids data) \<inter> set (ids (snd (hk_messages st))) = {} \<Longrightarrow>
    hook_step st (fst (newer_loaded conv data st))"
| h_newer_failed: "hook_step st (newer_done st)"
| h_jump: "hook_step st (fst (jumpToBottom st))"
| h_reload: "hook_step st (reloadCurrentConversation st)"
| h_reconnect: "hook_step st (fst (reconcileOnReconnect st))"
| h_around: "distinct (ids (ma_messages response)) \<Longrightarrow> hook_step st (around_loaded conv response st)"
| h_observe: "hook_step st (snd (snd (observeMessage msg st)))"
| h_ack: "hook_step st (receiveMessageAck messageId ackCount paths packetId st)"
| h_rename: "hook_step st (renameConversationMessages oldId newId st)"
| h_remove: "hook_step st (removeConversationMessages conv st)"
| h_block: "hook_step st (fst (applyBlockListChange keys names refetch st))"
| h_unblocked: "hook_step st (unblocked_loaded conv newest data st)"

inductive hook_reachable :: "hook_state \<Rightarrow> bool" where
  hook_start: "hook_reachable hook_init"
| hook_more: "hook_reachable st \<Longrightarrow> hook_step st st' \<Longrightarrow> hook_reachable st'"

subsection \<open>The cache\<close>

lemma cache_ids_entry: "cache_ids c \<Longrightarrow> jm_get c i = Some e \<Longrightarrow> distinct (ids (ce_messages e))"
  unfolding cache_ids_def by (metis image_eqI map_of_SomeD snd_conv)

lemma cache_ids_delete: "cache_ids c \<Longrightarrow> cache_ids (jm_delete i c)"
  by (auto simp: cache_ids_def set_jm_delete)

lemma cache_ids_put: "cache_ids c \<Longrightarrow> distinct (ids (ce_messages e)) \<Longrightarrow> cache_ids (jm_set i e c)"
  using set_jm_set_subset [of i e c] by (fastforce simp: cache_ids_def)

lemma cache_ids_touch: "cache_ids c \<Longrightarrow> distinct (ids (ce_messages e)) \<Longrightarrow> cache_ids (touch i e c)"
  by (simp add: touch_def cache_ids_put cache_ids_delete)

lemma cache_ids_evict: "cache_ids c \<Longrightarrow> cache_ids (evict_oldest n c)"
  using set_evict_subset [of n c] by (auto simp: cache_ids_def)

lemma distinct_ids_newest: "distinct (ids (newest_first ms)) \<longleftrightarrow> distinct (ids ms)"
proof -
  have "mset (ids (newest_first ms)) = mset (ids ms)" by simp
  then show ?thesis by (rule mset_eq_imp_distinct_iff)
qed

lemma normalize_ids: "distinct (ids (ce_messages e)) \<Longrightarrow> distinct (ids (ce_messages (normalizeEntry e)))"
  by (simp add: normalizeEntry_messages take_map [symmetric] distinct_take distinct_ids_newest del: map_map)

lemma cache_ids_set: "cache_ids c \<Longrightarrow> distinct (ids (ce_messages e)) \<Longrightarrow> cache_ids (cache_set i e c)"
  by (simp add: cache_set_def cache_ids_evict cache_ids_touch normalize_ids)

lemma cache_ids_get: "cache_ids c \<Longrightarrow> cache_ids (snd (cache_get i c))"
  by (auto simp: cache_get_def cache_ids_touch cache_ids_entry split: option.split)

lemma cache_ids_add: "cache_ids c \<Longrightarrow> cache_ids (snd (cache_addMessage i m c))"
  by (auto simp: cache_addMessage_def Let_def list_ex_key split: option.split
      intro!: cache_ids_evict cache_ids_put cache_ids_touch normalize_ids dest: cache_ids_entry)

lemma ids_update: "n < length ms \<Longrightarrow> m_id m = m_id (ms ! n) \<Longrightarrow> ids (ms[n := m]) = ids ms"
  by (simp add: map_update) (metis list_update_id length_map nth_map)

lemma cache_ids_ack: "cache_ids c \<Longrightarrow> cache_ids (cache_updateAck n k ps pid c)"
proof (induction n k ps pid c rule: cache_updateAck.induct)
  case (2 n k ps pid j e c)
  then show ?case
    by (auto simp: cache_ids_def ids_update dest: find_index_Some split: option.splits)
qed simp

lemma merge_by_id_distinct:
  "distinct (ids merged) \<Longrightarrow> set (ids merged) = set seen \<Longrightarrow> distinct (ids (merge_by_id merged seen ms))"
  by (induction merged seen ms rule: merge_by_id.induct) (auto simp: image_iff)

lemma cache_ids_rename:
  assumes "cache_ids c"
  shows "cache_ids (cache_rename i j c)"
proof -
  have "distinct (ids (merge_by_id (ce_messages e) (js_set_of (ids (ce_messages e))) ms))"
    if "jm_get c j = Some e" for e ms
    using cache_ids_entry [OF assms that] by (rule merge_by_id_distinct) simp
  then show ?thesis
    using assms unfolding cache_rename_def Let_def
    by (auto split: option.split intro!: cache_ids_put cache_ids_delete normalize_ids dest: cache_ids_entry)
qed

subsection \<open>The building blocks\<close>

lemma acks_inv_delete: "acks_inv a \<Longrightarrow> acks_inv (jm_delete k a)"
  using length_jm_delete_le [of k a] by (auto simp: acks_inv_def simp del: length_jm_delete_le)

lemma applyPendingAck_inv: "acks_inv a \<Longrightarrow> acks_inv (snd (applyPendingAck m a))"
  by (simp add: applyPendingAck_def acks_inv_delete split: option.split)

lemma applyPendingAck_id: "m_id (fst (applyPendingAck m a)) = m_id m"
  by (simp add: applyPendingAck_def split: option.split)

lemma applyPendingAcks_inv: "acks_inv a \<Longrightarrow> acks_inv (snd (applyPendingAcks ms a))"
proof (induction ms arbitrary: a)
  case (Cons m ms)
  from Cons.IH [OF applyPendingAck_inv [OF Cons.prems, of m]] show ?case
    by (simp add: Let_def case_prod_unfold)
qed simp

lemma applyPendingAcks_ids: "ids (fst (applyPendingAcks ms a)) = ids ms"
  by (induction ms arbitrary: a) (simp_all add: Let_def case_prod_unfold applyPendingAck_id)

lemma with_pending_acks_ids [simp]: "ids (fst (with_pending_acks data st)) = ids data"
  by (simp add: with_pending_acks_def Let_def case_prod_unfold applyPendingAcks_ids)

lemma with_pending_acks_state:
  "snd (with_pending_acks data st) = st\<lparr> hk_pendingAcks := snd (applyPendingAcks data (hk_pendingAcks st)) \<rparr>"
  by (simp add: with_pending_acks_def Let_def case_prod_unfold)

lemma hook_inv_acks [simp]: "hook_inv st \<Longrightarrow> hook_inv (snd (with_pending_acks data st))"
  by (simp add: hook_inv_def with_pending_acks_state applyPendingAcks_inv)

lemma with_pending_acks_frame [simp]:
  "hk_messages (snd (with_pending_acks data st)) = hk_messages st"
  "ref_messages (snd (with_pending_acks data st)) = ref_messages st"
  "hk_seen (snd (with_pending_acks data st)) = hk_seen st"
  by (simp_all add: with_pending_acks_state ref_messages_def)

lemma hook_inv_setMessages: "hook_inv st \<Longrightarrow> distinct (ids ms) \<Longrightarrow> hook_inv (setMessages ms st)"
  by (simp add: hook_inv_def setMessages_def)

lemma hook_inv_set_ref: "hook_inv st \<Longrightarrow> hook_inv (st\<lparr> hk_messagesRef := hk_messages st \<rparr>)"
  by (simp add: hook_inv_def)

lemma hook_inv_frame [simp]:
  "hook_inv (st\<lparr> hk_active := v1 \<rparr>) = hook_inv st"
  "hook_inv (st\<lparr> hk_messagesLoading := b \<rparr>) = hook_inv st"
  "hook_inv (st\<lparr> hk_hasOlder := b \<rparr>) = hook_inv st"
  "hook_inv (st\<lparr> hk_hasNewer := b \<rparr>) = hook_inv st"
  "hook_inv (st\<lparr> hk_hasOlder := b, hk_hasNewer := b' \<rparr>) = hook_inv st"
  "hook_inv (st\<lparr> hk_pendingReconnectReconcile := b \<rparr>) = hook_inv st"
  "hook_inv (st\<lparr> hk_latestReconcileRequestId := n \<rparr>) = hook_inv st"
  "hook_inv (st\<lparr> hk_olderFetchedFrom := r \<rparr>) = hook_inv st"
  "hook_inv (st\<lparr> hk_seen := s \<rparr>) = hook_inv st"
  "hook_inv (syncSeenContent ms st) = hook_inv st"
  "hook_inv (older_done st) = hook_inv st"
  "hook_inv (newer_done st) = hook_inv st"
  by (simp_all add: hook_inv_def syncSeenContent_def older_done_def newer_done_def)

lemma hook_inv_ref: "hook_inv st \<Longrightarrow> distinct (ids (ref_messages st))"
  by (simp add: hook_inv_def ref_messages_def)

lemma hook_inv_state: "hook_inv st \<Longrightarrow> distinct (ids (snd (hk_messages st)))"
  by (simp add: hook_inv_def)

lemma reconcile_ids:
  "reconcileConversationMessages current fetched = Some merged \<Longrightarrow> distinct (ids current) \<Longrightarrow> distinct (ids fetched) \<Longrightarrow>
     distinct (ids merged)"
  by (auto simp: reconcileConversationMessages_def Let_def distinct_map_filter split: if_splits)
    (metis imageI)

lemma appendUnique_ids: "distinct (ids current) \<Longrightarrow> distinct (ids (appendUniqueMessages current incoming))"
  using unique_additions_spec [OF refl refl, of "js_set_of (ids current)" "js_set_of (map getMessageContentKey current)" incoming]
  by (auto simp: appendUniqueMessages_def Let_def)

lemma hook_inv_commit: "hook_inv st \<Longrightarrow> hook_inv (commit st)"
  by (simp add: hook_inv_def commit_def)

subsection \<open>The callbacks\<close>

lemma hook_inv_latest: "hook_inv st \<Longrightarrow> hook_inv (fst (fetchLatestMessages showLoading st))"
  by (simp add: fetchLatestMessages_def Let_def hook_inv_setMessages)

lemma hook_inv_latest_loaded:
  assumes "hook_inv st" and "distinct (ids data)"
  shows "hook_inv (latest_loaded conv showLoading data st)"
proof -
  let ?w = "with_pending_acks data st"
  let ?m = "reconcileConversationMessages (ref_messages st) (fst ?w)"
  have "distinct (ids m)" if "?m = Some m" for m
    using reconcile_ids [OF that hook_inv_ref [OF assms(1)]] assms(2) by simp
  then have "hook_inv (if ?m \<noteq> None then setMessages (coalesce ?m (ref_messages st)) (snd ?w) else snd ?w)"
    using hook_inv_acks [OF assms(1), of data] by (cases ?m) (simp_all add: hook_inv_setMessages)
  with assms(1) show ?thesis
    by (simp add: latest_loaded_def Let_def case_prod_unfold split: if_splits)
qed

lemma hook_inv_reconcile_loaded:
  assumes "hook_inv st" and "distinct (ids data)"
  shows "hook_inv (reconcile_loaded conv req data st)"
proof -
  let ?w = "with_pending_acks data st"
  have ref: "ref_messages ((snd ?w)\<lparr> hk_hasOlder := b \<rparr>) = ref_messages st" for b
    by (simp add: ref_messages_def with_pending_acks_state)
  have "distinct (ids m)" if "reconcileConversationMessages (ref_messages st) (fst ?w) = Some m" for m
    using reconcile_ids [OF that hook_inv_ref [OF assms(1)]] assms(2) by simp
  then show ?thesis
    using assms(1) by (auto simp: reconcile_loaded_def Let_def case_prod_unfold ref hook_inv_setMessages split: option.split)
qed

lemma hook_inv_older_loaded:
  assumes "hook_inv st"
  shows "hook_inv (older_loaded eager conv from data st)"
proof -
  let ?w = "with_pending_acks data (st\<lparr> hk_olderFetchedFrom := Some from \<rparr>)"
  let ?m = "appendUniqueMessages (snd (hk_messages st)) (fst ?w)"
  have w: "hook_inv (snd ?w)" using assms by simp
  have s: "hook_inv (setMessages ?m (snd ?w))"
    using hook_inv_setMessages [OF w appendUnique_ids] hook_inv_state [OF assms] by simp
  show ?thesis
    using assms w s hook_inv_set_ref [OF s] by (simp add: older_loaded_def Let_def case_prod_unfold)
qed

lemma hook_inv_next_reconcile: "hook_inv st \<Longrightarrow> hook_inv (fst (next_reconcile conv st))"
  by (simp add: next_reconcile_def Let_def hook_inv_def)

lemma hook_inv_newer_loaded:
  assumes "hook_inv st" and "distinct (ids data)" and "set (ids data) \<inter> set (ids (snd (hk_messages st))) = {}"
  shows "hook_inv (fst (newer_loaded conv data st))"
proof -
  let ?w = "with_pending_acks data st"
  let ?new = "filter (\<lambda>msg. getMessageContentKey msg \<notin> set (hk_seen st)) (fst ?w)"
  have w: "hook_inv (snd ?w)" using assms(1) by simp
  have idsw: "ids (fst ?w) = ids data" by simp
  have "set (ids ?new) \<subseteq> set (ids (fst ?w))"
    unfolding set_map by (rule image_mono) (simp add: subset_iff)
  then have sub: "set (ids ?new) \<subseteq> set (ids data)" unfolding idsw .
  have "set (ids ?new) \<inter> set (ids (snd (hk_messages st))) = {}"
    using Int_mono [OF sub order_refl, of "set (ids (snd (hk_messages st)))"] unfolding assms(3) by (simp only: subset_empty)
  moreover have "distinct (ids ?new)" by (rule distinct_map_filter) (simp add: assms(2))
  ultimately have "distinct (ids (snd (hk_messages st) @ ?new))"
    unfolding map_append distinct_append using hook_inv_state [OF assms(1)] by (simp only: Int_commute simp_thms)
  then have "hook_inv (setMessages (snd (hk_messages st) @ ?new) (snd ?w))"
    by (rule hook_inv_setMessages [OF w])
  then show ?thesis
    using assms(1) w
    by (simp add: newer_loaded_def Let_def case_prod_unfold hook_inv_next_reconcile)
qed

lemma hook_inv_cache:
  "hook_inv st \<Longrightarrow> cache_inv c \<Longrightarrow> cache_ids c \<Longrightarrow> hook_inv (st\<lparr> hk_cache := c \<rparr>)"
  by (simp add: hook_inv_def)

lemma hook_inv_cacheD: "hook_inv st \<Longrightarrow> cache_inv (hk_cache st) \<and> cache_ids (hk_cache st)"
  by (simp add: hook_inv_def)

lemma hook_inv_jump:
  assumes "hook_inv st"
  shows "hook_inv (fst (jumpToBottom st))"
proof -
  have "hook_inv (st\<lparr> hk_hasNewer := False, hk_cache := cache_remove i (hk_cache st) \<rparr>)" for i
    using assms by (simp add: hook_inv_def cache_remove_def cache_inv_delete cache_ids_delete)
  then show ?thesis using assms by (simp add: jumpToBottom_def hook_inv_latest split: option.split)
qed

lemma hook_inv_reload: "hook_inv st \<Longrightarrow> hook_inv (reloadCurrentConversation st)"
  by (simp add: reloadCurrentConversation_def hook_inv_def cache_remove_def cache_inv_delete cache_ids_delete)

lemma hook_inv_reconnect: "hook_inv st \<Longrightarrow> hook_inv (fst (reconcileOnReconnect st))"
  by (simp add: reconcileOnReconnect_def hook_inv_next_reconcile)

lemma hook_inv_switch:
  assumes "hook_inv st0"
  shows "hook_inv (fst (conversation_effect active target st0))"
proof -
  define st where "st = (commit st0)\<lparr> hk_active := active \<rparr>"
  define newId where "newId = map_option cv_id active"
  define changed where "changed \<longleftrightarrow> hk_prevConversationId st \<noteq> newId"
  define st1 where "st1 = st\<lparr> hk_fetchingConversationId := newId, hk_prevConversationId := newId,
      hk_prevReloadVersion := hk_reloadVersion st, hk_latestReconcileRequestId := 0, hk_pendingReconnectReconcile := False \<rparr>"
  define st2 where "st2 = st1\<lparr> hk_loadingOlder := False, hk_loadingOlderRef := False, hk_olderFetchedFrom := None,
      hk_loadingNewer := False, hk_hasNewer := (if changed then False else hk_hasNewer st1) \<rparr>"
  define st3 where "st3 = (if changed \<and> truthy (hk_prevConversationId st) \<and> ref_messages st2 \<noteq> [] \<and> \<not> hk_hasNewerRef st2
      then st2\<lparr> hk_cache := cache_set (the (hk_prevConversationId st))
                 \<lparr> ce_messages = ref_messages st2, ce_hasOlderMessages = hk_hasOlderRef st2 \<rparr> (hk_cache st2) \<rparr>
      else st2)"
  define got where "got = cache_get (cv_id (the active)) (hk_cache st3)"
  have i: "hook_inv st" using hook_inv_commit [OF assms] by (simp add: st_def)
  then have i1: "hook_inv st1" and i2: "hook_inv st2" by (simp_all add: st1_def st2_def hook_inv_def)
  have i3: "hook_inv st3"
    unfolding st3_def
    using i2 hook_inv_cache [OF i2 cache_inv_set cache_ids_set] hook_inv_cacheD [OF i2] hook_inv_ref [OF i2] by simp
  have i4: "hook_inv (st3\<lparr> hk_cache := snd got \<rparr>)"
    unfolding got_def using hook_inv_cache [OF i3 cache_inv_get cache_ids_get] hook_inv_cacheD [OF i3] by simp
  have entry: "distinct (ids (ce_messages e))" if "fst got = Some e" for e
    using that cache_ids_entry hook_inv_cacheD [OF i3] by (auto simp: got_def cache_get_def split: option.splits)
  have i5: "hook_inv (setMessages (ce_messages e) (st3\<lparr> hk_cache := snd got \<rparr>))" if "fst got = Some e" for e
    by (rule hook_inv_setMessages [OF i4 entry [OF that]])
  have nil: "hook_inv (setMessages [] st3)" by (rule hook_inv_setMessages [OF i3]) simp
  have fold_eq: "hook_inv (s\<lparr> hk_hasOlder := b, hk_messagesLoading := b', hk_latestReconcileRequestId := n \<rparr>) = hook_inv s" for s b b' n
    by (simp add: hook_inv_def)
  show ?thesis
    unfolding conversation_effect_def Let_def st_def [symmetric] newId_def [symmetric] changed_def [symmetric]
      st1_def [symmetric] st2_def [symmetric] st3_def [symmetric] got_def [symmetric] case_prod_unfold
    using i1 nil i5 hook_inv_latest [OF i4]
    by (simp add: fold_eq split: option.split)
qed

lemma hook_inv_around:
  assumes "hook_inv st" and "distinct (ids (ma_messages response))"
  shows "hook_inv (around_loaded conv response st)"
  using assms hook_inv_setMessages [OF hook_inv_acks [OF assms(1)], of "fst (with_pending_acks (ma_messages response) st)"]
  by (simp add: around_loaded_def Let_def case_prod_unfold)

lemma hook_inv_append:
  assumes "hook_inv st"
  shows "hook_inv (snd (appendActiveMessageIfNew msg st))"
proof -
  let ?p = "applyPendingAck msg (hk_pendingAcks st)"
  have 1: "hook_inv (st\<lparr> hk_pendingAcks := snd ?p, hk_seen := s \<rparr>)" for s
    using assms by (simp add: hook_inv_def applyPendingAck_inv)
  have 2: "hook_inv (setMessages (snd (hk_messages st) @ [fst ?p]) (st\<lparr> hk_pendingAcks := snd ?p, hk_seen := s \<rparr>))"
    if "m_id (fst ?p) \<notin> set (ids (snd (hk_messages st)))" for s
    by (rule hook_inv_setMessages [OF 1]) (use that hook_inv_state [OF assms] in simp)
  have 3: "hook_inv (st\<lparr> hk_pendingAcks := snd ?p \<rparr>)"
    using assms by (simp add: hook_inv_def applyPendingAck_inv)
  show ?thesis
    using 1 2 3 by (simp add: appendActiveMessageIfNew_def Let_def case_prod_unfold list_ex_key)
qed

lemma hook_inv_observe:
  assumes "hook_inv st"
  shows "hook_inv (snd (snd (observeMessage msg st)))"
proof -
  let ?p = "applyPendingAck msg (hk_pendingAcks st)"
  have 1: "hook_inv (st\<lparr> hk_pendingAcks := snd ?p \<rparr>)"
    using assms by (simp add: hook_inv_def applyPendingAck_inv)
  have 2: "hook_inv (st\<lparr> hk_pendingAcks := snd ?p, hk_cache := snd (cache_addMessage k m (hk_cache st)) \<rparr>)" for k m
    using 1 cache_inv_add cache_ids_add by (simp add: hook_inv_def)
  show ?thesis
    using 1 2 hook_inv_append [OF 1] by (simp add: observeMessage_def Let_def case_prod_unfold)
qed

lemma hook_inv_ack:
  assumes "hook_inv st"
  shows "hook_inv (receiveMessageAck n k ps pid st)"
proof -
  have buffer: "hook_inv (s\<lparr> hk_pendingAcks := setPendingAck n (k, ps, pid) (hk_pendingAcks s) \<rparr>)" if "hook_inv s" for s
    using that ack_buffer.put_invar by (simp add: hook_inv_def)
  have del: "hook_inv (st\<lparr> hk_pendingAcks := jm_delete n (hk_pendingAcks st) \<rparr>)"
    using assms by (simp add: hook_inv_def acks_inv_delete)
  let ?prev = "snd (hk_messages st)"
  have set: "hook_inv (setMessages (?prev[idx := ack_message k ps pid (?prev ! idx)])
      (st\<lparr> hk_pendingAcks := jm_delete n (hk_pendingAcks st) \<rparr>))"
    if "find_index (\<lambda>m. m_id m = n) ?prev = Some idx" for idx
    using find_index_Some [OF that] hook_inv_state [OF assms]
    by (intro hook_inv_setMessages [OF del]) (simp add: ids_update)
  have "hook_inv (updateMessageAck n k ps pid st)"
    using buffer [OF assms] buffer [OF del] set
    by (simp add: updateMessageAck_def Let_def split: option.split)
  then show ?thesis
    using cache_inv_updateAck cache_ids_ack by (simp add: receiveMessageAck_def Let_def hook_inv_def)
qed

lemma hook_inv_block:
  assumes "hook_inv st"
  shows "hook_inv (fst (applyBlockListChange keys names refetch st))"
proof -
  have 1: "hook_inv (st\<lparr> hk_cache := cache_clear (hk_cache st) \<rparr>)"
    using assms by (simp add: hook_inv_def cache_clear_def cache_inv_def cache_ids_def)
  let ?v = "filter (\<lambda>msg. \<not> isMessageBlocked msg keys names) (ref_messages (st\<lparr> hk_cache := cache_clear (hk_cache st) \<rparr>))"
  have "distinct (ids ?v)" using hook_inv_ref [OF 1] by (rule distinct_map_filter)
  from hook_inv_setMessages [OF 1 this] hook_inv_set_ref 1 show ?thesis
    by (simp add: applyBlockListChange_def Let_def)
qed

lemma hook_inv_unblocked:
  assumes "hook_inv st"
  shows "hook_inv (unblocked_loaded conv newest data st)"
proof -
  have "hook_inv (setMessages (appendUniqueMessages (ref_messages st) ms) (snd (with_pending_acks d st)))" for ms d
    using hook_inv_acks [OF assms, of d] appendUnique_ids [OF hook_inv_ref [OF assms]] by (rule hook_inv_setMessages)
  then show ?thesis
    using assms hook_inv_set_ref by (simp add: unblocked_loaded_def Let_def case_prod_unfold)
qed

lemma hook_inv_step: "hook_step st st' \<Longrightarrow> hook_inv st \<Longrightarrow> hook_inv st'"
proof (induction rule: hook_step.induct)
  case (h_latest_failed st showLoading)
  then show ?case by (simp add: latest_failed_def)
next
  case (h_older st)
  then show ?case by (auto simp: fetchOlderMessages_def hook_inv_def split: option.split)
next
  case (h_newer st)
  then show ?case by (auto simp: fetchNewerMessages_def hook_inv_def split: option.split)
next
  case (h_rename st oldId newId)
  then show ?case by (simp add: renameConversationMessages_def hook_inv_def cache_inv_rename cache_ids_rename)
next
  case (h_remove st conv)
  then show ?case by (simp add: removeConversationMessages_def hook_inv_def cache_remove_def cache_inv_delete cache_ids_delete)
qed (simp_all add: hook_inv_commit hook_inv_switch hook_inv_latest hook_inv_latest_loaded hook_inv_reconcile_loaded
    hook_inv_older_loaded hook_inv_newer_loaded hook_inv_jump hook_inv_reload hook_inv_reconnect hook_inv_around
    hook_inv_observe hook_inv_ack hook_inv_block hook_inv_unblocked)



end
