(* ===== verification/Realtime_Events.thy ===== *)
theory Realtime_Events
  imports Conversation_Hook Unread_Counts Raw_Packets
begin

text \<open>
  The socket event handlers of \<^verbatim>\<open>hooks/useRealtimeAppState.ts\<close>, which drive the message hook, the unread
  counts and the raw packet store together, with the helpers \<^verbatim>\<open>utils/contactMerge.ts\<close> and
  \<^verbatim>\<open>utils/pubkey.ts\<close>.

  \<open>app_state\<close> collects the state the handlers reach through their arguments. A handler returns the new state
  and the effects it starts (toasts, requests, notifications) in order. \<^verbatim>\<open>setActiveConversation\<close> only queues
  React state: the refs and hooks see the new conversation at the next \<open>app_render\<close>.
\<close>

section \<open>Public keys\<close>

definition PUBKEY_PREFIX_LENGTH :: nat where "PUBKEY_PREFIX_LENGTH = 12"

definition getPubkeyPrefix :: "string \<Rightarrow> string" where
  "getPubkeyPrefix key = take PUBKEY_PREFIX_LENGTH key"

definition isUnknownFullKeyContact :: "string \<Rightarrow> int option \<Rightarrow> bool" where
  "isUnknownFullKeyContact pubkey lastAdvert \<longleftrightarrow> length pubkey = 64 \<and> coalesce lastAdvert 0 = 0"

definition isPrefixOnlyContact :: "string \<Rightarrow> bool" where
  "isPrefixOnlyContact pubkey \<longleftrightarrow> length pubkey < 64"

definition getContactDisplayName :: "string option \<Rightarrow> string \<Rightarrow> int option \<Rightarrow> string" where
  "getContactDisplayName name pubkey lastAdvert =
     (if truthy name then the name
      else if isUnknownFullKeyContact pubkey lastAdvert then ''[unknown sender]''
      else getPubkeyPrefix pubkey)"

section \<open>Merging contacts and channels\<close>

text \<open>The object spread \<^verbatim>\<open>{...existing, ...incoming}\<close>: a property the incoming object lacks keeps its value.\<close>

definition spread_contact :: "contact \<Rightarrow> contact \<Rightarrow> contact" where
  "spread_contact existing incoming =
     incoming\<lparr>
       ct_direct_path_updated_at := spread_field (ct_direct_path_updated_at existing) (ct_direct_path_updated_at incoming),
       ct_route_override_path := spread_field (ct_route_override_path existing) (ct_route_override_path incoming),
       ct_route_override_len := spread_field (ct_route_override_len existing) (ct_route_override_len incoming),
       ct_route_override_hash_mode := spread_field (ct_route_override_hash_mode existing) (ct_route_override_hash_mode incoming),
       ct_effective_route := spread_field (ct_effective_route existing) (ct_effective_route incoming),
       ct_effective_route_source := spread_option (ct_effective_route_source existing) (ct_effective_route_source incoming),
       ct_direct_route := spread_field (ct_direct_route existing) (ct_direct_route incoming),
       ct_route_override := spread_field (ct_route_override existing) (ct_route_override incoming),
       ct_flood_scope_override := spread_field (ct_flood_scope_override existing) (ct_flood_scope_override incoming) \<rparr>"

definition mergeContactIntoList :: "contact list \<Rightarrow> contact \<Rightarrow> contact list" where
  "mergeContactIntoList contacts incoming =
     (case find_index (\<lambda>c. ct_public_key c = ct_public_key incoming) contacts of
        Some idx \<Rightarrow>
          (let existing = contacts ! idx; merged = spread_contact existing incoming
           in if merged = existing then contacts else contacts[idx := merged])
      | None \<Rightarrow> contacts @ [incoming])"

definition mergeChannelIntoList :: "(string \<Rightarrow> string \<Rightarrow> int) \<Rightarrow> channel \<Rightarrow> channel list \<Rightarrow> channel list" where
  "mergeChannelIntoList localeCompare updated prev =
     (case find_index (\<lambda>c. ch_key c = ch_key updated) prev of
        None \<Rightarrow> sort_by (\<lambda>a b. localeCompare (ch_name a) (ch_name b) \<le> 0) (prev @ [updated])
      | Some existingIndex \<Rightarrow> prev[existingIndex := updated])"

section \<open>State and effects\<close>

datatype radio_state = Rs_connected | Rs_initializing | Rs_connecting | Rs_disconnected | Rs_paused

text \<open>The fields of \<^verbatim>\<open>HealthStatus\<close> the handlers read.\<close>

record health_status =
  hs_radio_connected :: bool
  hs_radio_initializing :: bool
  hs_radio_state :: "radio_state option"
  hs_connection_info :: "string option"

datatype app_effect =
    Toast_success string "string option"
  | Toast_error string "string option"
  | Fetch_config
  | Refresh_unreads
  | Fetch_channels
  | Fetch_contacts
  | Request_page page_request
  | Notify_incoming message
  | Status_pulse string

record app_state =
  ap_prevHealth :: "health_status option"
  ap_health :: "health_status option"
  ap_channels :: "channel list"
  ap_channelsRef :: "channel list"
  ap_contacts :: "contact list"
  ap_blockedKeys :: "string list"
  ap_blockedNames :: "string list"
  ap_active :: "conversation option"
  ap_activeRef :: "conversation option"
  ap_target :: "int option"
  ap_pendingDeleteFallback :: bool
  ap_messages :: hook_state
  ap_unread :: unread_state
  ap_packets :: raw_packet_store

section \<open>Handlers\<close>

definition next_radio_state :: "health_status \<Rightarrow> radio_state" where
  "next_radio_state data =
     (case hs_radio_state data of
        Some s \<Rightarrow> s
      | None \<Rightarrow> if hs_radio_initializing data then Rs_initializing
               else if hs_radio_connected data then Rs_connected else Rs_disconnected)"

definition onHealth :: "health_status \<Rightarrow> app_state \<Rightarrow> app_state \<times> app_effect list" where
  "onHealth data st =
     (let st' = st\<lparr> ap_prevHealth := Some data, ap_health := Some data \<rparr>
      in case ap_prevHealth st of
           None \<Rightarrow> (st', [])
         | Some prev \<Rightarrow>
             (let initializationCompleted =
                    (hs_radio_connected prev \<and> hs_radio_initializing prev
                     \<and> hs_radio_connected data \<and> \<not> hs_radio_initializing data);
                  changes =
                    (if hs_radio_connected prev \<noteq> hs_radio_connected data then
                       (if hs_radio_connected data then
                          [Toast_success ''Radio connected''
                             (if truthy (hs_connection_info data)
                              then Some (''Connected via '' @ the (hs_connection_info data)) else None),
                           Fetch_config]
                        else if next_radio_state data = Rs_paused then [Toast_success ''Radio connection paused'' None]
                        else [Toast_error ''Radio disconnected'' (Some ''Check radio connection and power'')])
                     else [])
              in (st', changes @ (if initializationCompleted then [Fetch_config] else []))))"

definition onError :: "string \<Rightarrow> string option \<Rightarrow> app_state \<Rightarrow> app_state \<times> app_effect list" where
  "onError message details st = (st, [Toast_error message details])"

definition onSuccess :: "string \<Rightarrow> string option \<Rightarrow> app_state \<Rightarrow> app_state \<times> app_effect list" where
  "onSuccess message details st = (st, [Toast_success message details])"

definition onReconnect :: "app_state \<Rightarrow> app_state \<times> app_effect list" where
  "onReconnect st =
     (let packets = fst (clearRawPackets (ap_packets st));
          (hook, req) = reconcileOnReconnect (ap_messages st)
      in (st\<lparr> ap_packets := packets, ap_messages := hook \<rparr>,
          (case req of Some r \<Rightarrow> [Request_page r] | None \<Rightarrow> []) @ [Refresh_unreads, Fetch_channels, Fetch_contacts]))"

definition isMutedChannel :: "message \<Rightarrow> app_state \<Rightarrow> bool" where
  "isMutedChannel msg st \<longleftrightarrow> m_type msg = CHAN \<and> m_conversation_key msg \<noteq> []
     \<and> list_ex (\<lambda>c. ch_key c = m_conversation_key msg \<and> ch_muted c) (ap_channelsRef st)"

definition onMessage :: "int \<Rightarrow> (string \<Rightarrow> bool) \<Rightarrow> message \<Rightarrow> app_state \<Rightarrow> app_state \<times> app_effect list" where
  "onMessage now checkMention msg st =
     (if isMessageBlocked msg (ap_blockedKeys st) (ap_blockedNames st) then (st, [])
      else
        (let muted = isMutedChannel msg st;
             (isNewMessage, isForActiveConversation, hook) = observeMessage msg (ap_messages st);
             unread = (if muted then ap_unread st
                       else recordMessageEvent now msg isForActiveConversation isNewMessage (checkMention (m_text msg))
                              (ap_unread st))
         in (st\<lparr> ap_messages := hook, ap_unread := unread \<rparr>,
             if \<not> m_outgoing msg \<and> isNewMessage \<and> \<not> muted then [Notify_incoming msg] else [])))"

definition onContact :: "contact \<Rightarrow> app_state \<Rightarrow> app_state" where
  "onContact contact st = st\<lparr> ap_contacts := mergeContactIntoList (ap_contacts st) contact \<rparr>"

definition is_open :: "conversation_type \<Rightarrow> string \<Rightarrow> app_state \<Rightarrow> bool" where
  "is_open type i st =
     (case ap_activeRef st of None \<Rightarrow> False | Some active \<Rightarrow> cv_type active = type \<and> cv_id active = i)"

definition onContactResolved :: "string \<Rightarrow> contact \<Rightarrow> app_state \<Rightarrow> app_state" where
  "onContactResolved previousPublicKey contact st =
     (let st1 = st\<lparr>
            ap_contacts := mergeContactIntoList
                (filter (\<lambda>c. ct_public_key c \<noteq> previousPublicKey) (ap_contacts st)) contact,
            ap_messages := renameConversationMessages previousPublicKey (ct_public_key contact) (ap_messages st),
            ap_unread := renameConversationState (getStateKey Tr_contact previousPublicKey)
                (getStateKey Tr_contact (ct_public_key contact)) (ap_unread st) \<rparr>
      in if is_open Cv_contact previousPublicKey st
         then st1\<lparr> ap_active := Some \<lparr> cv_type = Cv_contact, cv_id = ct_public_key contact,
                cv_name = getContactDisplayName (ct_name contact) (ct_public_key contact) (ct_last_advert contact),
                cv_mapFocusKey = None \<rparr> \<rparr>
         else st1)"

definition onChannel :: "(string \<Rightarrow> string \<Rightarrow> int) \<Rightarrow> channel \<Rightarrow> app_state \<Rightarrow> app_state" where
  "onChannel localeCompare channel st = st\<lparr> ap_channels := mergeChannelIntoList localeCompare channel (ap_channels st) \<rparr>"

definition close_deleted :: "conversation_type \<Rightarrow> string \<Rightarrow> app_state \<Rightarrow> app_state" where
  "close_deleted type i st =
     (if is_open type i st then st\<lparr> ap_pendingDeleteFallback := True, ap_active := None \<rparr> else st)"

definition onContactDeleted :: "string \<Rightarrow> app_state \<Rightarrow> app_state" where
  "onContactDeleted publicKey st =
     close_deleted Cv_contact publicKey
       (st\<lparr> ap_contacts := filter (\<lambda>c. ct_public_key c \<noteq> publicKey) (ap_contacts st),
            ap_messages := removeConversationMessages publicKey (ap_messages st),
            ap_unread := removeConversationState (getStateKey Tr_contact publicKey) (ap_unread st) \<rparr>)"

definition onChannelDeleted :: "string \<Rightarrow> app_state \<Rightarrow> app_state" where
  "onChannelDeleted key st =
     close_deleted Cv_channel key
       (st\<lparr> ap_channels := filter (\<lambda>c. ch_key c \<noteq> key) (ap_channels st),
            ap_messages := removeConversationMessages key (ap_messages st),
            ap_unread := removeConversationState (getStateKey Tr_channel key) (ap_unread st) \<rparr>)"

definition onRawPacket ::
  "(raw_packet \<Rightarrow> stats_observation) \<Rightarrow> nat \<Rightarrow> raw_packet \<Rightarrow> app_state \<Rightarrow> app_state \<times> app_effect list" where
  "onRawPacket summarize maxRawPackets packet st =
     (st\<lparr> ap_packets := fst (recordRawPacket summarize maxRawPackets packet (ap_packets st)) \<rparr>,
      [Status_pulse (rp_payload_type packet)])"

definition onMessageAcked ::
  "int \<Rightarrow> nat \<Rightarrow> message_path list option \<Rightarrow> int opt \<Rightarrow> app_state \<Rightarrow> app_state" where
  "onMessageAcked messageId ackCount paths packetId st =
     st\<lparr> ap_messages := receiveMessageAck messageId ackCount paths packetId (ap_messages st) \<rparr>"

section \<open>Rendering\<close>

text \<open>A render with the queued conversation and the message to jump to: the refs follow, the effect of the
  message hook runs when its dependencies changed, and so does the effect that marks the conversation read.\<close>

definition app_render :: "int option \<Rightarrow> app_state \<Rightarrow> app_state \<times> page_request option" where
  "app_render target st =
     (let active = ap_active st; hook = ap_messages st; unread = ap_unread st;
          changed = (map_option cv_id active \<noteq> map_option cv_id (hk_active hook)
                     \<or> map_option cv_type active \<noteq> map_option cv_type (hk_active hook)
                     \<or> target \<noteq> ap_target st \<or> hk_prevReloadVersion hook \<noteq> hk_reloadVersion hook);
          (hook', req) = (if changed then conversation_effect active target hook
                          else ((commit hook)\<lparr> hk_active := active \<rparr>, None));
          unread' = (if active_key active \<noteq> active_key (ur_active unread) then view_conversation active unread
                     else unread\<lparr> ur_active := active \<rparr>)
      in (st\<lparr> ap_channelsRef := ap_channels st, ap_activeRef := active, ap_target := target,
              ap_messages := hook', ap_unread := unread' \<rparr>, req))"

section \<open>Runs of the application\<close>

definition app_init :: "int \<Rightarrow> app_state" where
  "app_init now =
     \<lparr> ap_prevHealth = None, ap_health = None, ap_channels = [], ap_channelsRef = [], ap_contacts = [],
       ap_blockedKeys = [], ap_blockedNames = [], ap_active = None, ap_activeRef = None, ap_target = None,
       ap_pendingDeleteFallback = False, ap_messages = hook_init,
       ap_unread = empty_unread,
       ap_packets = \<lparr> st_packets = [], st_statsSession = createStatsSession now \<rparr> \<rparr>"

text \<open>One event: a socket event, a navigation, a render, a response of the server or a user action on one of
  the components. The premises say what the server and the router promise: lists without repeated keys,
  non-empty conversation ids, and (see \<open>resolved_into_open\<close> below for the other case) that a contact is not
  resolved into the conversation that is open while its placeholder has unread messages.\<close>

inductive app_step :: "app_state \<Rightarrow> app_state \<Rightarrow> bool" where
  ev_health: "app_step st (fst (onHealth data st))"
| ev_reconnect: "app_step st (fst (onReconnect st))"
| ev_message: "app_step st (fst (onMessage now checkMention msg st))"
| ev_contact: "app_step st (onContact contact st)"
| ev_resolved: "ct_public_key contact \<noteq> [] \<Longrightarrow>
    active_key (ur_active (ap_unread st)) \<noteq> Some (getStateKey Tr_contact (ct_public_key contact))
      \<or> jm_get (ur_unreadCounts (ap_unread st)) (getStateKey Tr_contact prev) = None
        \<and> jm_get (ur_mentions (ap_unread st)) (getStateKey Tr_contact prev) = None \<Longrightarrow>
    app_step st (onContactResolved prev contact st)"
| ev_channel: "app_step st (onChannel localeCompare channel st)"
| ev_contact_deleted: "app_step st (onContactDeleted key st)"
| ev_channel_deleted: "app_step st (onChannelDeleted key st)"
| ev_packet: "app_step st (fst (onRawPacket (summarizeRawPacketForStats decode ptn rtn) MAX_RAW_PACKETS packet st))"
| ev_acked: "app_step st (onMessageAcked messageId ackCount paths packetId st)"
| ev_navigate: "(case conv of None \<Rightarrow> True | Some c \<Rightarrow> cv_id c \<noteq> []) \<Longrightarrow> app_step st (st\<lparr> ap_active := conv \<rparr>)"
| ev_render: "app_step st (fst (app_render target st))"
| ev_block_list: "app_step st (st\<lparr> ap_blockedKeys := keys, ap_blockedNames := names \<rparr>)"
| ev_channels: "distinct (map ch_key channels) \<Longrightarrow> app_step st (st\<lparr> ap_channels := channels \<rparr>)"
| ev_contacts: "distinct (map ct_public_key contacts) \<Longrightarrow> app_step st (st\<lparr> ap_contacts := contacts \<rparr>)"
| ev_unreads: "app_step st (st\<lparr> ap_unread := fst (fetchUnreads response (ap_unread st)) \<rparr>)"
| ev_mark_all: "app_step st (st\<lparr> ap_unread := markAllRead (ap_unread st) \<rparr>)"
| ev_hook: "hook_step (ap_messages st) hook \<Longrightarrow> hk_active hook = hk_active (ap_messages st) \<Longrightarrow>
    app_step st (st\<lparr> ap_messages := hook \<rparr>)"

inductive app_reachable :: "app_state \<Rightarrow> bool" where
  app_start: "app_reachable (app_init now)"
| app_more: "app_reachable st \<Longrightarrow> app_step st st' \<Longrightarrow> app_reachable st'"

definition app_inv :: "app_state \<Rightarrow> bool" where
  "app_inv st \<longleftrightarrow> hook_inv (ap_messages st) \<and> active_read (ap_unread st) \<and> store_ok (ap_packets st)
     \<and> distinct (map ct_public_key (ap_contacts st)) \<and> distinct (map ch_key (ap_channels st))
     \<and> hk_active (ap_messages st) = ur_active (ap_unread st)
     \<and> (case ap_active st of None \<Rightarrow> True | Some c \<Rightarrow> cv_id c \<noteq> [])"

subsection \<open>Lists keyed by public key and channel key\<close>

lemma spread_contact_key [simp]: "ct_public_key (spread_contact existing incoming) = ct_public_key incoming"
  by (simp add: spread_contact_def)

lemma distinct_merge_contact:
  assumes "distinct (map ct_public_key contacts)"
  shows "distinct (map ct_public_key (mergeContactIntoList contacts incoming))"
proof (cases "find_index (\<lambda>c. ct_public_key c = ct_public_key incoming) contacts")
  case None
  then have "\<forall>c \<in> set contacts. ct_public_key c \<noteq> ct_public_key incoming" by (simp only: find_index_None)
  then show ?thesis using assms None by (auto simp: mergeContactIntoList_def)
next
  case (Some idx)
  from find_index_Some [OF Some]
  have "map ct_public_key (contacts[idx := spread_contact (contacts ! idx) incoming]) = map ct_public_key contacts"
    by (simp add: map_update) (metis list_update_id length_map nth_map)
  then show ?thesis using assms Some by (simp add: mergeContactIntoList_def Let_def)
qed

lemma distinct_merge_channel:
  assumes "distinct (map ch_key channels)"
  shows "distinct (map ch_key (mergeChannelIntoList localeCompare updated channels))"
proof (cases "find_index (\<lambda>c. ch_key c = ch_key updated) channels")
  case None
  then have "\<forall>c \<in> set channels. ch_key c \<noteq> ch_key updated" by (simp only: find_index_None)
  then have "distinct (map ch_key (channels @ [updated]))" using assms by auto
  moreover have "mset (map ch_key (mergeChannelIntoList localeCompare updated channels)) = mset (map ch_key (channels @ [updated]))"
    using None by (simp add: mergeChannelIntoList_def)
  ultimately show ?thesis using mset_eq_imp_distinct_iff by blast
next
  case (Some idx)
  from find_index_Some [OF Some] have "map ch_key (channels[idx := updated]) = map ch_key channels"
    by (simp add: map_update) (metis list_update_id length_map nth_map)
  then show ?thesis using assms Some by (simp add: mergeChannelIntoList_def)
qed

subsection \<open>The open conversation\<close>

lemma hk_active_frame [simp]:
  "hk_active (commit hook) = hk_active hook"
  "hk_active (setMessages ms hook) = hk_active hook"
  "hk_active (syncSeenContent ms hook) = hk_active hook"
  "hk_active (renameConversationMessages i j hook) = hk_active hook"
  "hk_active (removeConversationMessages i hook) = hk_active hook"
  by (simp_all add: commit_def setMessages_def syncSeenContent_def renameConversationMessages_def removeConversationMessages_def)

lemma hk_active_append [simp]: "hk_active (snd (appendActiveMessageIfNew m hook)) = hk_active hook"
  by (simp add: appendActiveMessageIfNew_def Let_def case_prod_unfold)

lemma hk_active_observe [simp]: "hk_active (snd (snd (observeMessage m hook))) = hk_active hook"
  by (simp add: observeMessage_def Let_def case_prod_unfold)

lemma hk_active_ack [simp]: "hk_active (receiveMessageAck n k ps pid hook) = hk_active hook"
  by (simp add: receiveMessageAck_def updateMessageAck_def Let_def split: option.split)

lemma hk_active_reconnect [simp]: "hk_active (fst (reconcileOnReconnect hook)) = hk_active hook"
  by (simp add: reconcileOnReconnect_def next_reconcile_def Let_def)

lemma hk_active_latest [simp]: "hk_active (fst (fetchLatestMessages showLoading hook)) = hk_active hook"
  by (simp add: fetchLatestMessages_def Let_def)

lemma hk_active_effect [simp]: "hk_active (fst (conversation_effect active target hook)) = active"
  by (simp add: conversation_effect_def Let_def case_prod_unfold split: option.split)

lemma ur_active_frame [simp]:
  "ur_active (applyUnreads data u) = ur_active u"
  "ur_active (fst (fetchUnreads response u)) = ur_active u"
  "ur_active (recordMessageEvent now msg isActive isNew hasMention u) = ur_active u"
  "ur_active (renameConversationState i j u) = ur_active u"
  "ur_active (removeConversationState i u) = ur_active u"
  "ur_active (markAllRead u) = ur_active u"
  "ur_active (view_conversation ac u) = ac"
  by (simp_all add: applyUnreads_def fetchUnreads_def recordMessageEvent_def incrementUnread_def renameConversationState_def
      removeConversationState_def markAllRead_def view_conversation_def Let_def split: option.split)

lemma applyPendingAck_frame [simp]:
  "m_type (fst (applyPendingAck m a)) = m_type m"
  "m_conversation_key (fst (applyPendingAck m a)) = m_conversation_key m"
  "getMessageContentKey (fst (applyPendingAck m a)) = getMessageContentKey m"
  by (simp_all add: applyPendingAck_def getMessageContentKey_def message_ts_def sender_suffix_def split: option.split)

lemma isActive_frame [simp]: "isActiveConversationMessage ac (fst (applyPendingAck m a)) = isActiveConversationMessage ac m"
  unfolding isActiveConversationMessage_def applyPendingAck_frame ..

lemma observe_flag: "fst (snd (observeMessage m hook)) = isActiveConversationMessage (hk_active hook) m"
  by (simp add: observeMessage_def Let_def case_prod_unfold)

text \<open>The test of the message hook and the state keys of the unread hook agree on what is open.\<close>

lemma active_message_iff:
  "message_state_key m = Some k \<Longrightarrow> isActiveConversationMessage ac m \<longleftrightarrow> active_key ac = Some k"
  by (cases ac; cases "m_type m"; cases "cv_type (the ac)")
    (auto simp: message_state_key_def isActiveConversationMessage_def active_key_def split: if_splits)

subsection \<open>Every event keeps the invariant\<close>

lemma active_read_event:
  assumes "active_read u"
  shows "active_read (recordMessageEvent now msg (isActiveConversationMessage (ur_active u) msg) isNew hasMention u)"
proof (cases "message_state_key msg")
  case None
  then show ?thesis using assms by (simp add: recordMessageEvent_def)
next
  case (Some k)
  then show ?thesis by (intro active_read_message [OF assms]) (simp add: active_message_iff eq_commute)
qed

lemma app_inv_message: "app_inv st \<Longrightarrow> app_inv (fst (onMessage now checkMention msg st))"
  by (auto simp: app_inv_def onMessage_def Let_def case_prod_unfold observe_flag hook_inv_observe active_read_event)

lemma active_read_rename:
  assumes "active_read u" and "active_key (ur_active u) \<noteq> Some j
     \<or> jm_get (ur_unreadCounts u) i = None \<and> jm_get (ur_mentions u) i = None"
  shows "active_read (renameConversationState i j u)"
  using assms by (auto simp: active_read_def renameConversationState_def Let_def unread_views jm_get_set jm_get_delete
      split: option.splits if_splits)

lemma app_inv_resolved:
  assumes "app_inv st" and "ct_public_key contact \<noteq> []"
    and "active_key (ur_active (ap_unread st)) \<noteq> Some (getStateKey Tr_contact (ct_public_key contact))
      \<or> jm_get (ur_unreadCounts (ap_unread st)) (getStateKey Tr_contact prev) = None
        \<and> jm_get (ur_mentions (ap_unread st)) (getStateKey Tr_contact prev) = None"
  shows "app_inv (onContactResolved prev contact st)"
proof -
  have "hook_inv (renameConversationMessages prev (ct_public_key contact) (ap_messages st))"
    using assms(1) by (intro hook_inv_step [OF h_rename]) (simp add: app_inv_def)
  moreover have "distinct (map ct_public_key (mergeContactIntoList
      (filter (\<lambda>c. ct_public_key c \<noteq> prev) (ap_contacts st)) contact))"
    using assms(1) by (intro distinct_merge_contact distinct_map_filter) (simp add: app_inv_def)
  ultimately show ?thesis
    using assms active_read_rename [OF _ assms(3)]
    by (auto simp: app_inv_def onContactResolved_def Let_def simp del: getStateKey.simps)
qed

lemma active_read_remove: "active_read u \<Longrightarrow> active_read (removeConversationState k u)"
  by (rule active_read_step [OF step_remove])

lemma hook_inv_remove: "hook_inv hook \<Longrightarrow> hook_inv (removeConversationMessages i hook)"
  by (rule hook_inv_step [OF h_remove])

lemma app_inv_close: "app_inv st \<Longrightarrow> app_inv (close_deleted type i st)"
  by (simp add: app_inv_def close_deleted_def)

lemma app_inv_deleted:
  "app_inv st \<Longrightarrow> app_inv (onContactDeleted key st)"
  "app_inv st \<Longrightarrow> app_inv (onChannelDeleted key st)"
  unfolding onContactDeleted_def onChannelDeleted_def
  by (rule app_inv_close,
      simp add: app_inv_def distinct_map_filter active_read_remove hook_inv_remove del: getStateKey.simps)+

lemma app_inv_render:
  assumes "app_inv st"
  shows "app_inv (fst (app_render target st))"
proof -
  have commit: "hook_inv ((commit (ap_messages st))\<lparr> hk_active := a \<rparr>)" for a
    using assms hook_inv_commit by (simp add: app_inv_def)
  have view: "active_read (view_conversation (ap_active st) (ap_unread st))"
    using assms by (intro active_read_step [OF step_view]) (auto simp: app_inv_def)
  have keep: "active_read ((ap_unread st)\<lparr> ur_active := a \<rparr>)" if "active_key a = active_key (ur_active (ap_unread st))" for a
    using assms that by (simp add: app_inv_def active_read_def unread_views)
  show ?thesis
    using assms commit view keep hook_inv_switch
    by (auto simp: app_inv_def app_render_def Let_def case_prod_unfold)
qed

lemma app_inv_step: "app_step st st' \<Longrightarrow> app_inv st \<Longrightarrow> app_inv st'"
proof (induction rule: app_step.induct)
  case (ev_health st data)
  then show ?case by (simp add: onHealth_def Let_def app_inv_def split: option.split)
next
  case (ev_reconnect st)
  then show ?case
    using store_ok_step [OF store_clear] by (simp add: onReconnect_def Let_def case_prod_unfold app_inv_def hook_inv_reconnect)
next
  case (ev_contact st contact)
  then show ?case by (simp add: onContact_def app_inv_def distinct_merge_contact)
next
  case (ev_channel st localeCompare channel)
  then show ?case by (simp add: onChannel_def app_inv_def distinct_merge_channel)
next
  case (ev_packet st decode ptn rtn packet)
  then show ?case using store_ok_step [OF store_record] by (simp add: onRawPacket_def app_inv_def)
next
  case (ev_acked st messageId ackCount paths packetId)
  then show ?case by (simp add: onMessageAcked_def app_inv_def hook_inv_ack)
next
  case (ev_unreads st response)
  then show ?case using active_read_step [OF step_fetch] by (simp add: app_inv_def)
next
  case (ev_mark_all st)
  then show ?case using active_read_step [OF step_markAll] by (simp add: app_inv_def)
next
  case (ev_hook st hook)
  then show ?case using hook_inv_step by (simp add: app_inv_def)
qed (simp_all add: app_inv_message app_inv_resolved app_inv_deleted app_inv_render, simp_all add: app_inv_def)



section \<open>Delivering a message twice\<close>

lemma cache_add_again:
  assumes "case jm_get c i of None \<Rightarrow> True | Some entry \<Rightarrow> length (ce_messages entry) < MAX_MESSAGES_PER_ENTRY"
    and "m_id m' = m_id m" and "getMessageContentKey m' = getMessageContentKey m"
  shows "cache_addMessage i m' (snd (cache_addMessage i m c)) = (False, snd (cache_addMessage i m c))"
proof (cases "jm_get c i")
  case None
  let ?e = "\<lparr> ce_messages = [m], ce_hasOlderMessages = True, ie_contentKeys = [getMessageContentKey m] \<rparr>"
  have "snd (cache_addMessage i m c) = evict_oldest MAX_CACHED_CONVERSATIONS (touch i ?e c)"
    using None by (simp add: cache_addMessage_def Let_def touch_fresh)
  moreover have "jm_get (evict_oldest MAX_CACHED_CONVERSATIONS (touch i ?e c)) i = Some ?e"
    by (rule jm_get_evict_touch) (simp add: MAX_CACHED_CONVERSATIONS_def)
  ultimately show ?thesis using assms(3) by (simp add: cache_addMessage_def)
next
  case (Some entry)
  let ?e = "normalizeEntry \<lparr> ce_messages = ce_messages entry @ [m], ce_hasOlderMessages = ce_hasOlderMessages entry \<rparr>"
  have "getMessageContentKey m \<in> set (ie_contentKeys ?e)"
    using assms(1) Some normalizeEntry_inv [of "\<lparr> ce_messages = ce_messages entry @ [m], ce_hasOlderMessages = ce_hasOlderMessages entry \<rparr>"]
    by (simp add: entry_inv_def normalizeEntry_messages)
  then show ?thesis using assms(2,3) Some by (simp add: cache_addMessage_def Let_def jm_get_touch)
qed

lemma observe_again:
  assumes "\<not> isActiveConversationMessage (hk_active hook) msg"
    and "case jm_get (hk_cache hook) (m_conversation_key msg) of
           None \<Rightarrow> True | Some entry \<Rightarrow> length (ce_messages entry) < MAX_MESSAGES_PER_ENTRY"
  shows "fst (observeMessage msg (snd (snd (observeMessage msg hook)))) = False
     \<and> hk_cache (snd (snd (observeMessage msg (snd (snd (observeMessage msg hook)))))) = hk_cache (snd (snd (observeMessage msg hook)))"
proof -
  let ?m = "fst (applyPendingAck msg (hk_pendingAcks hook))"
  let ?hook = "snd (snd (observeMessage msg hook))"
  let ?m' = "fst (applyPendingAck msg (hk_pendingAcks ?hook))"
  have open1: "\<not> isActiveConversationMessage (hk_active hook) (fst (applyPendingAck msg a))" for a
    using assms(1) by simp
  have cache: "hk_cache ?hook = snd (cache_addMessage (m_conversation_key msg) ?m (hk_cache hook))"
    using open1 by (simp add: observeMessage_def Let_def case_prod_unfold)
  have "cache_addMessage (m_conversation_key msg) ?m' (hk_cache ?hook) = (False, hk_cache ?hook)"
    unfolding cache by (rule cache_add_again [OF assms(2)]) (simp_all add: applyPendingAck_id)
  moreover have "observeMessage msg ?hook =
      (let (added, cache') = cache_addMessage (m_conversation_key msg) ?m' (hk_cache ?hook)
       in (added, False, ?hook\<lparr> hk_pendingAcks := snd (applyPendingAck msg (hk_pendingAcks ?hook)), hk_cache := cache' \<rparr>))"
    using open1 by (subst observeMessage_def) (simp add: Let_def case_prod_unfold)
  ultimately show ?thesis by simp
qed



section \<open>Resolving a placeholder into the open conversation\<close>

text \<open>When a placeholder with unread messages is resolved into a contact whose conversation is open, the
  unread messages move to the open conversation and stay there after the next render, since the effect that
  marks a conversation read only runs when the conversation changes.\<close>

theorem resolved_into_open:
  assumes "ap_active st = Some c" and "ur_active (ap_unread st) = Some c" and "ap_activeRef st = Some c"
    and "active_key (Some c) = Some (getStateKey Tr_contact (ct_public_key contact))"
    and "prev \<noteq> ct_public_key contact"
  shows "let st' = fst (app_render target (onContactResolved prev contact st));
             k = getStateKey Tr_contact (ct_public_key contact) in
     active_key (ur_active (ap_unread st')) = Some k
     \<and> unread_count (ap_unread st') k = unread_count (ap_unread st) k + unread_count (ap_unread st) (getStateKey Tr_contact prev)"
proof -
  have "\<not> is_open Cv_contact prev st"
    using assms(3-5) by (cases "cv_type c") (auto simp: is_open_def active_key_def)
  moreover have "unread_count (u\<lparr> ur_active := a \<rparr>) k = unread_count u k" for u a k
    by (simp add: unread_count_def)
  ultimately show ?thesis
    using assms
    by (simp add: app_render_def onContactResolved_def Let_def case_prod_unfold)
      (auto simp: renameConversationState_def Let_def unread_count_def jm_get_set jm_get_delete split: option.splits)
qed

lemma resolved_into_open_witness:
  "let c = \<lparr> cv_type = Cv_contact, cv_id = ct_public_key sample_contact, cv_name = ''Bob'', cv_mapFocusKey = None \<rparr>;
       st = (app_init 0)\<lparr> ap_active := Some c, ap_activeRef := Some c,
              ap_unread := empty_unread\<lparr> ur_active := Some c, ur_unreadCounts := [(''contact-3A40'', 2)] \<rparr> \<rparr>
   in unread_count (ap_unread (fst (app_render None (onContactResolved ''3A40'' sample_contact st))))
        (getStateKey Tr_contact (ct_public_key sample_contact)) = 2"
proof -
  let ?c = "\<lparr> cv_type = Cv_contact, cv_id = ct_public_key sample_contact, cv_name = ''Bob'', cv_mapFocusKey = None \<rparr>"
  let ?st = "(app_init 0)\<lparr> ap_active := Some ?c, ap_activeRef := Some ?c,
      ap_unread := empty_unread\<lparr> ur_active := Some ?c, ur_unreadCounts := [(''contact-3A40'', 2)] \<rparr> \<rparr>"
  have "active_key (Some ?c) = Some (getStateKey Tr_contact (ct_public_key sample_contact))" by (simp add: active_key_def)
  moreover have "''3A40'' \<noteq> ct_public_key sample_contact" by (simp add: sample_contact_def)
  ultimately show ?thesis
    using resolved_into_open [of ?st ?c sample_contact "''3A40''" None]
    by (simp add: Let_def unread_count_def sample_contact_def)
qed

end
