(* ===== verification/Web_Socket.thy ===== *)
theory Web_Socket
  imports Realtime_Events
begin

text \<open>
  The socket: parsing of its frames (\<^verbatim>\<open>wsEvents.ts\<close>), their dispatch to the handlers of
  \<open>Realtime_Events\<close>, and the life cycle of the connection with its reconnect timer (\<^verbatim>\<open>useWebSocket.ts\<close>).

  A frame is given as what \<^verbatim>\<open>JSON.parse\<close> makes of it, \<open>None\<close> where it throws. The type assertions of the
  source (\<^verbatim>\<open>msg.data as Message\<close>) have no effect at run time; the record \<open>ws_casts\<close> holds the functions that read
  the data of an event as a value of the asserted type.
\<close>

section \<open>Frames\<close>

datatype ws_error = Json_syntax | Invalid_envelope

datatype parsed_ws_event =
    Known_event string "json option"
  | Pong "json option"
  | Unknown_event string "json option"

definition known_ws_types :: "string list" where
  "known_ws_types = [''health'', ''message'', ''contact'', ''contact_resolved'', ''channel'', ''contact_deleted'',
     ''channel_deleted'', ''raw_packet'', ''message_acked'', ''error'', ''success'']"

definition parseWsEvent :: "json option \<Rightarrow> ws_error + parsed_ws_event" where
  "parseWsEvent parsed =
     (case parsed of
        None \<Rightarrow> Inl Json_syntax
      | Some (JObj members) \<Rightarrow>
          (case map_of members ''type'' of
             Some (JStr type) \<Rightarrow>
               (let data = map_of members ''data''
                in if type \<in> set known_ws_types then Inr (Known_event type data)
                   else if type = ''pong'' then Inr (Pong data)
                   else Inr (Unknown_event type data))
           | _ \<Rightarrow> Inl Invalid_envelope)
      | Some _ \<Rightarrow> Inl Invalid_envelope)"

section \<open>Dispatch\<close>

record ws_casts =
  as_health :: "json option \<Rightarrow> health_status"
  as_message :: "json option \<Rightarrow> message"
  as_contact :: "json option \<Rightarrow> contact"
  as_resolved :: "json option \<Rightarrow> string \<times> contact"
  as_channel :: "json option \<Rightarrow> channel"
  as_public_key :: "json option \<Rightarrow> string"
  as_key :: "json option \<Rightarrow> string"
  as_packet :: "json option \<Rightarrow> raw_packet"
  as_acked :: "json option \<Rightarrow> int \<times> nat \<times> message_path list option \<times> int opt"
  as_toast :: "json option \<Rightarrow> string \<times> string option"

text \<open>What the handlers take from their surroundings: the clock, the mention test, the locale's comparison and
  the decoder-based summary of a packet.\<close>

record ws_env =
  we_now :: int
  we_checkMention :: "string \<Rightarrow> bool"
  we_localeCompare :: "string \<Rightarrow> string \<Rightarrow> int"
  we_decode :: decoder
  we_payloadName :: "nat \<Rightarrow> string"
  we_routeName :: "nat \<Rightarrow> string"

definition ws_dispatch :: "ws_casts \<Rightarrow> ws_env \<Rightarrow> string \<Rightarrow> json option \<Rightarrow> app_state \<Rightarrow> app_state \<times> app_effect list" where
  "ws_dispatch casts env type data st =
     (if type = ''health'' then onHealth (as_health casts data) st
      else if type = ''message'' then onMessage (we_now env) (we_checkMention env) (as_message casts data) st
      else if type = ''contact'' then (onContact (as_contact casts data) st, [])
      else if type = ''contact_resolved'' then
        (let (previous, contact) = as_resolved casts data in (onContactResolved previous contact st, []))
      else if type = ''channel'' then (onChannel (we_localeCompare env) (as_channel casts data) st, [])
      else if type = ''contact_deleted'' then (onContactDeleted (as_public_key casts data) st, [])
      else if type = ''channel_deleted'' then (onChannelDeleted (as_key casts data) st, [])
      else if type = ''raw_packet'' then
        onRawPacket (summarizeRawPacketForStats (we_decode env) (we_payloadName env) (we_routeName env)) MAX_RAW_PACKETS
          (as_packet casts data) st
      else if type = ''message_acked'' then
        (let (messageId, ackCount, paths, packetId) = as_acked casts data
         in (onMessageAcked messageId ackCount paths packetId st, []))
      else if type = ''error'' then (let (message, details) = as_toast casts data in onError message details st)
      else if type = ''success'' then (let (message, details) = as_toast casts data in onSuccess message details st)
      else (st, []))"

text \<open>\<^verbatim>\<open>ws.onmessage\<close>: a frame that does not parse is logged and dropped by the \<^verbatim>\<open>catch\<close>.\<close>

definition ws_onmessage :: "ws_casts \<Rightarrow> ws_env \<Rightarrow> json option \<Rightarrow> app_state \<Rightarrow> app_state \<times> app_effect list" where
  "ws_onmessage casts env parsed st =
     (case parseWsEvent parsed of
        Inl _ \<Rightarrow> (st, [])
      | Inr (Known_event type data) \<Rightarrow> ws_dispatch casts env type data st
      | Inr (Pong _) \<Rightarrow> (st, [])
      | Inr (Unknown_event _ _) \<Rightarrow> (st, []))"

section \<open>The connection\<close>

datatype socket_phase = No_socket | Connecting | Open | Closing

record socket_state =
  sk_phase :: socket_phase
  sk_timer :: bool
  sk_shouldReconnect :: bool
  sk_hasConnected :: bool

definition ws_connect :: "socket_state \<Rightarrow> socket_state" where
  "ws_connect sk = sk\<lparr> sk_phase := Connecting \<rparr>"

text \<open>\<^verbatim>\<open>ws.onopen\<close>; the flag says whether \<^verbatim>\<open>onReconnect\<close> is called.\<close>

definition ws_onopen :: "socket_state \<Rightarrow> socket_state \<times> bool" where
  "ws_onopen sk =
     (sk\<lparr> sk_phase := Open, sk_timer := False, sk_hasConnected := True \<rparr>, sk_hasConnected sk)"

definition ws_onclose :: "socket_state \<Rightarrow> socket_state" where
  "ws_onclose sk =
     (let sk1 = sk\<lparr> sk_phase := No_socket \<rparr>
      in if \<not> sk_shouldReconnect sk1 then sk1 else sk1\<lparr> sk_timer := True \<rparr>)"

text \<open>The callback of the three-second timer.\<close>

definition ws_ontimer :: "socket_state \<Rightarrow> socket_state" where
  "ws_ontimer sk = ws_connect (sk\<lparr> sk_timer := False \<rparr>)"

definition ws_mount :: socket_state where
  "ws_mount = ws_connect \<lparr> sk_phase = No_socket, sk_timer = False, sk_shouldReconnect = True, sk_hasConnected = False \<rparr>"

definition ws_unmount :: "socket_state \<Rightarrow> socket_state" where
  "ws_unmount sk =
     (let sk1 = sk\<lparr> sk_shouldReconnect := False, sk_timer := False \<rparr>
      in if sk_phase sk1 \<noteq> No_socket then sk1\<lparr> sk_phase := Closing \<rparr> else sk1)"

section \<open>Runs\<close>

datatype ws_event = Ev_open | Ev_close | Ev_timer | Ev_frame "json option" | Ev_unmount

record live_state =
  lv_socket :: socket_state
  lv_app :: app_state

text \<open>Which events the browser can deliver: a socket opens once, closes once, and delivers frames while it is
  open; the timer fires while it is pending.\<close>

fun ws_enabled :: "ws_event \<Rightarrow> socket_state \<Rightarrow> bool" where
  "ws_enabled Ev_open sk \<longleftrightarrow> sk_phase sk = Connecting"
| "ws_enabled Ev_close sk \<longleftrightarrow> sk_phase sk \<noteq> No_socket"
| "ws_enabled Ev_timer sk \<longleftrightarrow> sk_timer sk"
| "ws_enabled (Ev_frame _) sk \<longleftrightarrow> sk_phase sk = Open"
| "ws_enabled Ev_unmount sk \<longleftrightarrow> sk_shouldReconnect sk"

fun live_event :: "ws_casts \<Rightarrow> ws_env \<Rightarrow> ws_event \<Rightarrow> live_state \<Rightarrow> live_state \<times> app_effect list" where
  "live_event casts env Ev_open lv =
     (let (sk, again) = ws_onopen (lv_socket lv);
          (app, effs) = (if again then onReconnect (lv_app lv) else (lv_app lv, []))
      in (\<lparr> lv_socket = sk, lv_app = app \<rparr>, effs))"
| "live_event casts env Ev_close lv = (lv\<lparr> lv_socket := ws_onclose (lv_socket lv) \<rparr>, [])"
| "live_event casts env Ev_timer lv = (lv\<lparr> lv_socket := ws_ontimer (lv_socket lv) \<rparr>, [])"
| "live_event casts env (Ev_frame parsed) lv =
     (let (app, effs) = ws_onmessage casts env parsed (lv_app lv) in (lv\<lparr> lv_app := app \<rparr>, effs))"
| "live_event casts env Ev_unmount lv = (lv\<lparr> lv_socket := ws_unmount (lv_socket lv) \<rparr>, [])"

fun live_run :: "ws_casts \<Rightarrow> ws_env \<Rightarrow> ws_event list \<Rightarrow> live_state \<Rightarrow> (live_state \<times> app_effect list) option" where
  "live_run casts env [] lv = Some (lv, [])"
| "live_run casts env (e # es) lv =
     (if ws_enabled e (lv_socket lv)
      then (let (lv1, effs) = live_event casts env e lv
            in map_option (\<lambda>(lv2, effs'). (lv2, effs @ effs')) (live_run casts env es lv1))
      else None)"

definition live_start :: "app_state \<Rightarrow> live_state" where
  "live_start app = \<lparr> lv_socket = ws_mount, lv_app = app \<rparr>"

section \<open>The connection is never stuck\<close>

definition socket_ok :: "socket_state \<Rightarrow> bool" where
  "socket_ok sk \<longleftrightarrow>
     (if sk_shouldReconnect sk then sk_phase sk \<noteq> Closing \<and> (sk_phase sk = No_socket \<longleftrightarrow> sk_timer sk)
      else \<not> sk_timer sk \<and> sk_phase sk \<in> {No_socket, Closing})
     \<and> (sk_phase sk = Open \<longrightarrow> sk_hasConnected sk)"

lemmas socket_defs = ws_onopen_def ws_onclose_def ws_ontimer_def ws_connect_def ws_unmount_def Let_def

lemma socket_ok_mount: "socket_ok ws_mount"
  by (simp add: socket_ok_def ws_mount_def ws_connect_def)

lemma socket_ok_event:
  "socket_ok (lv_socket lv) \<Longrightarrow> ws_enabled e (lv_socket lv) \<Longrightarrow> socket_ok (lv_socket (fst (live_event casts env e lv)))"
  by (cases e) (auto simp: socket_ok_def socket_defs case_prod_unfold split: if_splits)

lemma live_run_ConsD:
  assumes "live_run casts env (e # es) lv = Some (lv', effs)"
  shows "ws_enabled e (lv_socket lv) \<and> (\<exists>effs'. live_run casts env es (fst (live_event casts env e lv)) = Some (lv', effs')
     \<and> effs = snd (live_event casts env e lv) @ effs')"
  using assms by (auto simp: Let_def case_prod_unfold split: if_splits)

lemma socket_ok_run:
  "live_run casts env es lv = Some (lv', effs) \<Longrightarrow> socket_ok (lv_socket lv) \<Longrightarrow> socket_ok (lv_socket lv')"
proof (induction es arbitrary: lv effs)
  case (Cons e es)
  from live_run_ConsD [OF Cons.prems(1)] Cons.IH socket_ok_event [OF Cons.prems(2)] show ?case by blast
qed simp

lemma unmounted_event:
  "socket_ok (lv_socket lv) \<Longrightarrow> \<not> sk_shouldReconnect (lv_socket lv) \<Longrightarrow> ws_enabled e (lv_socket lv) \<Longrightarrow>
     e = Ev_close \<and> \<not> sk_shouldReconnect (lv_socket (fst (live_event casts env e lv)))
     \<and> lv_app (fst (live_event casts env e lv)) = lv_app lv"
  by (cases e) (auto simp: socket_ok_def socket_defs split: if_splits)

lemma unmounted_run:
  "live_run casts env es lv = Some (lv', effs) \<Longrightarrow> socket_ok (lv_socket lv) \<Longrightarrow> \<not> sk_shouldReconnect (lv_socket lv) \<Longrightarrow>
     set es \<subseteq> {Ev_close} \<and> lv_app lv' = lv_app lv"
proof (induction es arbitrary: lv effs)
  case (Cons e es)
  note r = live_run_ConsD [OF Cons.prems(1)]
  note e = unmounted_event [OF Cons.prems(2,3) conjunct1 [OF r], of casts env]
  from r obtain effs' where "live_run casts env es (fst (live_event casts env e lv)) = Some (lv', effs')" by blast
  from Cons.IH [OF this socket_ok_event [OF Cons.prems(2) conjunct1 [OF r]]] e show ?case by auto
qed simp

text \<open>C13. However the connection opens, drops and delivers frames, it is never stuck: while the hook is mounted the
  socket is open or becomes open after at most the reconnect timer and the opening, and then a reconnect is
  handled if the connection had been open before. Once unmounted it never connects again, and nothing
  changes the application.\<close>

theorem socket_progress:
  assumes "live_run casts env es (live_start app) = Some (lv, effs)"
  shows "(sk_shouldReconnect (lv_socket lv) \<longrightarrow>
      (\<exists>es' lv' effs'. es' \<in> {[], [Ev_open], [Ev_timer, Ev_open]} \<and> live_run casts env es' lv = Some (lv', effs')
         \<and> sk_phase (lv_socket lv') = Open
         \<and> lv_app lv' = (if es' \<noteq> [] \<and> sk_hasConnected (lv_socket lv) then fst (onReconnect (lv_app lv)) else lv_app lv)))
     \<and> (\<not> sk_shouldReconnect (lv_socket lv) \<longrightarrow>
      (\<forall>es' lv' effs'. live_run casts env es' lv = Some (lv', effs') \<longrightarrow> set es' \<subseteq> {Ev_close} \<and> lv_app lv' = lv_app lv))"
proof (intro conjI impI allI)
  have ok: "socket_ok (lv_socket lv)"
    by (rule socket_ok_run [OF assms]) (simp add: live_start_def socket_ok_mount)
  { fix es' lv' effs'
    assume "\<not> sk_shouldReconnect (lv_socket lv)" and "live_run casts env es' lv = Some (lv', effs')"
    with ok show "set es' \<subseteq> {Ev_close}" and "lv_app lv' = lv_app lv" using unmounted_run by blast+ }
  assume mounted: "sk_shouldReconnect (lv_socket lv)"
  define reopen where "reopen =
    (if sk_phase (lv_socket lv) = Open then [] else if sk_phase (lv_socket lv) = Connecting then [Ev_open] else [Ev_timer, Ev_open])"
  have "\<exists>lv' effs'. live_run casts env reopen lv = Some (lv', effs') \<and> sk_phase (lv_socket lv') = Open
      \<and> lv_app lv' = (if reopen \<noteq> [] \<and> sk_hasConnected (lv_socket lv) then fst (onReconnect (lv_app lv)) else lv_app lv)"
    using ok mounted
    by (cases "sk_phase (lv_socket lv)") (auto simp: reopen_def socket_ok_def socket_defs case_prod_unfold)
  then show "\<exists>es' lv' effs'. es' \<in> {[], [Ev_open], [Ev_timer, Ev_open]} \<and> live_run casts env es' lv = Some (lv', effs')
         \<and> sk_phase (lv_socket lv') = Open
         \<and> lv_app lv' = (if es' \<noteq> [] \<and> sk_hasConnected (lv_socket lv) then fst (onReconnect (lv_app lv)) else lv_app lv)"
    by (intro exI [of _ reopen]) (auto simp: reopen_def)
qed

lemma socket_progress_witness:
  "\<forall>casts env. \<exists>es' lv' effs'. es' \<in> {[], [Ev_open], [Ev_timer, Ev_open]}
     \<and> live_run casts env es' (live_start (app_init 0)) = Some (lv', effs') \<and> sk_phase (lv_socket lv') = Open"
proof (intro allI)
  fix casts env
  have "live_run casts env [] (live_start (app_init 0)) = Some (live_start (app_init 0), [])" by simp
  from socket_progress [OF this]
  show "\<exists>es' lv' effs'. es' \<in> {[], [Ev_open], [Ev_timer, Ev_open]}
     \<and> live_run casts env es' (live_start (app_init 0)) = Some (lv', effs') \<and> sk_phase (lv_socket lv') = Open"
    by (auto simp: live_start_def ws_mount_def ws_connect_def)
qed

section \<open>Reconnects\<close>

lemma effects_without_refresh:
  "ws_enabled e sk \<Longrightarrow> e \<noteq> Ev_open \<Longrightarrow> Refresh_unreads \<notin> set (snd (live_event casts env e lv))"
  by (cases e)
    (auto simp: ws_onmessage_def ws_dispatch_def onHealth_def onMessage_def onRawPacket_def onError_def onSuccess_def
      Let_def case_prod_unfold split: sum.splits parsed_ws_event.splits option.splits if_splits)

lemma effects_of_open:
  "count_list (snd (live_event casts env Ev_open lv)) Refresh_unreads = (if sk_hasConnected (lv_socket lv) then 1 else 0)"
  by (simp add: ws_onopen_def onReconnect_def Let_def case_prod_unfold split: option.split)

lemma hasConnected_event:
  "sk_hasConnected (lv_socket (fst (live_event casts env e lv))) \<longleftrightarrow> sk_hasConnected (lv_socket lv) \<or> e = Ev_open"
  by (cases e) (auto simp: socket_defs case_prod_unfold)

lemma refresh_count:
  "live_run casts env es lv = Some (lv', effs) \<Longrightarrow>
     count_list effs Refresh_unreads = count_list es Ev_open - (if sk_hasConnected (lv_socket lv) then 0 else 1)"
proof (induction es arbitrary: lv effs)
  case (Cons e es)
  from live_run_ConsD [OF Cons.prems] obtain effs' where
    run: "live_run casts env es (fst (live_event casts env e lv)) = Some (lv', effs')"
    and effs: "effs = snd (live_event casts env e lv) @ effs'" and en: "ws_enabled e (lv_socket lv)" by blast
  show ?case
  proof (cases "e = Ev_open")
    case True
    then show ?thesis
      using Cons.IH [OF run] by (simp add: effs effects_of_open hasConnected_event del: live_event.simps)
  next
    case False
    then have "count_list (snd (live_event casts env e lv)) Refresh_unreads = 0"
      using effects_without_refresh [OF en, of casts env lv] by (simp add: count_list_0_iff)
    then show ?thesis using Cons.IH [OF run] False by (simp add: effs hasConnected_event del: live_event.simps)
  qed
qed simp

text \<open>Each time the connection opens again, and never the first time, the unread counts are fetched anew exactly
  once; no frame and no other event of the connection does so.\<close>

theorem reconnect_refreshes:
  assumes "live_run casts env es (live_start app) = Some (lv, effs)"
  shows "count_list effs Refresh_unreads = count_list es Ev_open - 1"
  using refresh_count [OF assms] by (simp add: live_start_def ws_mount_def ws_connect_def)

lemma reconnect_refreshes_witness:
  "\<forall>casts env. \<exists>lv effs. live_run casts env [Ev_open, Ev_close, Ev_timer, Ev_open] (live_start (app_init 0)) = Some (lv, effs)
     \<and> count_list effs Refresh_unreads = 1"
proof (intro allI)
  fix casts env
  obtain lv effs where run: "live_run casts env [Ev_open, Ev_close, Ev_timer, Ev_open] (live_start (app_init 0)) = Some (lv, effs)"
    by (simp add: live_start_def ws_mount_def socket_defs case_prod_unfold)
  from reconnect_refreshes [OF run] have "count_list effs Refresh_unreads = 1" by simp
  with run show "\<exists>lv effs. live_run casts env [Ev_open, Ev_close, Ev_timer, Ev_open] (live_start (app_init 0)) = Some (lv, effs)
     \<and> count_list effs Refresh_unreads = 1" by blast
qed

section \<open>Frames\<close>

text \<open>A frame that is not JSON, is not an object with a string \<^verbatim>\<open>type\<close>, or carries a type that is not known
  changes nothing and starts nothing. The parser fails exactly for the first two, and returns a known event
  exactly for the eleven types.\<close>

theorem ws_bad_frame:
  "((\<exists>e. parseWsEvent parsed = Inl e) \<longleftrightarrow> \<not> (\<exists>members t. parsed = Some (JObj members) \<and> map_of members ''type'' = Some (JStr t)))
   \<and> ((\<exists>t d. parseWsEvent parsed = Inr (Known_event t d)) \<or> ws_onmessage casts env parsed st = (st, []))
   \<and> (\<forall>t d. parseWsEvent parsed = Inr (Known_event t d) \<longleftrightarrow>
        (\<exists>members. parsed = Some (JObj members) \<and> map_of members ''type'' = Some (JStr t) \<and> map_of members ''data'' = d
           \<and> t \<in> set known_ws_types))"
proof (cases "\<exists>members t. parsed = Some (JObj members) \<and> map_of members ''type'' = Some (JStr t)")
  case True
  then obtain members t where p: "parsed = Some (JObj members)" "map_of members ''type'' = Some (JStr t)" by blast
  then have "parseWsEvent parsed =
      (if t \<in> set known_ws_types then Inr (Known_event t (map_of members ''data''))
       else if t = ''pong'' then Inr (Pong (map_of members ''data'')) else Inr (Unknown_event t (map_of members ''data'')))"
    by (simp add: parseWsEvent_def Let_def)
  with p show ?thesis by (auto simp: ws_onmessage_def)
next
  case False
  then have "\<exists>e. parseWsEvent parsed = Inl e"
    by (auto simp: parseWsEvent_def split: option.split json.split)
  with False show ?thesis by (auto simp: ws_onmessage_def)
qed

section \<open>The socket drives the application\<close>

definition resolves_well :: "ws_casts \<Rightarrow> ws_event \<Rightarrow> app_state \<Rightarrow> bool" where
  "resolves_well casts e st \<longleftrightarrow>
     (\<forall>parsed d. e = Ev_frame parsed \<longrightarrow> parseWsEvent parsed = Inr (Known_event ''contact_resolved'' d) \<longrightarrow>
        (let (prev, contact) = as_resolved casts d in ct_public_key contact \<noteq> [] \<and>
           (active_key (ur_active (ap_unread st)) \<noteq> Some (getStateKey Tr_contact (ct_public_key contact))
            \<or> jm_get (ur_unreadCounts (ap_unread st)) (getStateKey Tr_contact prev) = None
              \<and> jm_get (ur_mentions (ap_unread st)) (getStateKey Tr_contact prev) = None)))"

lemma if_fst: "(b \<Longrightarrow> P (fst x)) \<Longrightarrow> (\<not> b \<Longrightarrow> P (fst y)) \<Longrightarrow> P (fst (if b then x else y))"
  by simp

lemma dispatch_step:
  assumes "t = ''contact_resolved'' \<Longrightarrow> ct_public_key (snd (as_resolved casts d)) \<noteq> [] \<and>
     (active_key (ur_active (ap_unread st)) \<noteq> Some (getStateKey Tr_contact (ct_public_key (snd (as_resolved casts d))))
      \<or> jm_get (ur_unreadCounts (ap_unread st)) (getStateKey Tr_contact (fst (as_resolved casts d))) = None
        \<and> jm_get (ur_mentions (ap_unread st)) (getStateKey Tr_contact (fst (as_resolved casts d))) = None)"
  shows "fst (ws_dispatch casts env t d st) = st \<or> app_step st (fst (ws_dispatch casts env t d st))"
  unfolding ws_dispatch_def Let_def case_prod_unfold
  by (intro if_fst [where P = "\<lambda>s. s = st \<or> app_step st s"])
    (use assms in \<open>simp_all add: ev_health ev_message ev_contact ev_resolved ev_channel ev_contact_deleted ev_channel_deleted
      ev_packet ev_acked onError_def onSuccess_def del: getStateKey.simps\<close>)



end
