(* ===== verification/Url_Hash.thy ===== *)
theory Url_Hash
  imports Realtime_Events
begin

text \<open>
  The URL hash as the address of a conversation: \<^verbatim>\<open>utils/urlHash.ts\<close>, \<^verbatim>\<open>utils/publicChannel.ts\<close> and
  \<^verbatim>\<open>utils/lastViewedConversation.ts\<close>, with \<^verbatim>\<open>encodeURIComponent\<close> and \<^verbatim>\<open>decodeURIComponent\<close> of the language.

  \<open>window.location.hash\<close> is an argument or a field of the state. A \<^typ>\<open>char\<close> stands for a code unit below 256;
  \<open>decodeURIComponent\<close> is undefined on an escape sequence of a character above that, like on a malformed one.
\<close>

section \<open>Percent encoding\<close>

definition uri_unreserved :: "char \<Rightarrow> bool" where
  "uri_unreserved c \<longleftrightarrow>
     (let n = of_char c :: nat in (65 \<le> n \<and> n \<le> 90) \<or> (97 \<le> n \<and> n \<le> 122) \<or> (48 \<le> n \<and> n \<le> 57))
     \<or> c \<in> set ''-_.!~*()'' \<or> of_char c = (39 :: nat)"

definition hex_upper :: "nat \<Rightarrow> char" where
  "hex_upper d = (if d < 10 then char_of (48 + d) else char_of (55 + d))"

definition percent :: "nat \<Rightarrow> string" where
  "percent b = [CHR ''%'', hex_upper (b div 16), hex_upper (b mod 16)]"

definition encode_char :: "char \<Rightarrow> string" where
  "encode_char c =
     (let n = of_char c :: nat in
      if uri_unreserved c then [c]
      else if n < 128 then percent n
      else percent (192 + n div 64) @ percent (128 + n mod 64))"

definition encodeURIComponent :: "string \<Rightarrow> string" where
  "encodeURIComponent s = concat (map encode_char s)"

fun percent_byte :: "string \<Rightarrow> (nat \<times> string) option" where
  "percent_byte (p # a # b # s) =
     (if p = CHR ''%'' then
        (case (digit_val a, digit_val b) of (Some x, Some y) \<Rightarrow> Some (16 * x + y, s) | _ \<Rightarrow> None)
      else None)"
| "percent_byte _ = None"

text \<open>A byte below 128 stands for itself; the lead bytes 194 and 195 start a two-byte sequence for a code between
  128 and 255.\<close>

function decodeURIComponent :: "string \<Rightarrow> string option" where
  "decodeURIComponent [] = Some []"
| "decodeURIComponent (c # s) =
     (if c \<noteq> CHR ''%'' then map_option ((#) c) (decodeURIComponent s)
      else (case percent_byte (c # s) of
              None \<Rightarrow> None
            | Some (b, s1) \<Rightarrow>
                if b < 128 then map_option ((#) (char_of b)) (decodeURIComponent s1)
                else if b = 194 \<or> b = 195 then
                  (case percent_byte s1 of
                     None \<Rightarrow> None
                   | Some (b2, s2) \<Rightarrow>
                       if 128 \<le> b2 \<and> b2 < 192
                       then map_option ((#) (char_of ((b - 192) * 64 + (b2 - 128)))) (decodeURIComponent s2)
                       else None)
                else None))"
  by pat_completeness auto

lemma percent_byte_length: "percent_byte s = Some (b, s') \<Longrightarrow> length s = length s' + 3"
  by (cases s rule: percent_byte.cases) (auto split: if_splits option.splits)

termination decodeURIComponent
  by (relation "measure length") (auto dest!: percent_byte_length)

section \<open>The public channel\<close>

definition PUBLIC_CHANNEL_KEY :: string where "PUBLIC_CHANNEL_KEY = ''8B3387E9C5CDEA6AC9E5EDBAA115CD72''"
definition PUBLIC_CHANNEL_NAME :: string where "PUBLIC_CHANNEL_NAME = ''Public''"

definition isPublicChannelKey :: "string \<Rightarrow> bool" where
  "isPublicChannelKey key \<longleftrightarrow> to_upper key = PUBLIC_CHANNEL_KEY"

definition findPublicChannel :: "channel list \<Rightarrow> channel option" where
  "findPublicChannel channels = find (\<lambda>channel. isPublicChannelKey (ch_key channel)) channels"

section \<open>Parsing\<close>

record parsed_hash =
  ph_type :: conversation_type
  ph_name :: string
  ph_label :: "string option"
  ph_mapFocusKey :: "string option"

datatype uri_error = URIError

definition hash_view :: "conversation_type \<Rightarrow> string \<Rightarrow> parsed_hash" where
  "hash_view type name = \<lparr> ph_type = type, ph_name = name, ph_label = None, ph_mapFocusKey = None \<rparr>"

text \<open>\<^verbatim>\<open>parseHashConversation\<close>: an uncaught \<^verbatim>\<open>URIError\<close>, no conversation, or a conversation.\<close>

definition parseHashConversation :: "string \<Rightarrow> uri_error + parsed_hash option" where
  "parseHashConversation location_hash =
     (let hash = drop 1 location_hash in
      if hash = [] then Inr None
      else if hash = ''raw'' then Inr (Some (hash_view Cv_raw ''raw''))
      else if hash = ''map'' then Inr (Some (hash_view Cv_map ''map''))
      else if hash = ''visualizer'' then Inr (Some (hash_view Cv_visualizer ''visualizer''))
      else if hash = ''search'' then Inr (Some (hash_view Cv_search ''search''))
      else if hash = ''mentions'' then Inr (Some (hash_view Cv_mentions ''mentions''))
      else if hash = ''trace'' then Inr (Some (hash_view Cv_trace ''trace''))
      else if starts_with hash ''map/focus/'' then
        (let focusKey = drop (length ''map/focus/'') hash in
         if focusKey \<noteq> [] then
           (case decodeURIComponent focusKey of
              None \<Rightarrow> Inl URIError
            | Some k \<Rightarrow> Inr (Some ((hash_view Cv_map ''map'')\<lparr> ph_mapFocusKey := Some k \<rparr>)))
         else Inr (Some (hash_view Cv_map ''map'')))
      else
        (case index_of hash ''/'' of
           None \<Rightarrow> Inr None
         | Some slashIndex \<Rightarrow>
             (let type = take slashIndex hash; value = drop (slashIndex + 1) hash in
              if \<not> (type = ''channel'' \<or> type = ''contact'') \<or> value = [] then Inr None
              else
                (let (tokenRaw, labelRaw) =
                       (case index_of value ''/'' of
                          None \<Rightarrow> (value, [])
                        | Some i \<Rightarrow> (take i value, drop (i + 1) value))
                 in case decodeURIComponent tokenRaw of
                      None \<Rightarrow> Inl URIError
                    | Some token \<Rightarrow>
                        if token = [] then Inr None
                        else if labelRaw = [] then
                          Inr (Some (hash_view (if type = ''channel'' then Cv_channel else Cv_contact) token))
                        else
                          (case decodeURIComponent labelRaw of
                             None \<Rightarrow> Inl URIError
                           | Some label \<Rightarrow>
                               Inr (Some ((hash_view (if type = ''channel'' then Cv_channel else Cv_contact) token)
                                            \<lparr> ph_label := Some label \<rparr>)))))))"

definition SETTINGS_SECTIONS :: "string list" where
  "SETTINGS_SECTIONS = [''radio'', ''local'', ''radio-app'', ''fanout'', ''database'', ''statistics'', ''about'']"

definition parseHashSettingsSection :: "string \<Rightarrow> uri_error + string option" where
  "parseHashSettingsSection location_hash =
     (let hash = drop 1 location_hash in
      if \<not> starts_with hash ''settings/'' then Inr None
      else (case decodeURIComponent (drop (length ''settings/'') hash) of
              None \<Rightarrow> Inl URIError
            | Some section \<Rightarrow> Inr (if section \<in> set SETTINGS_SECTIONS then Some section else None)))"

definition getSettingsHash :: "string \<Rightarrow> string" where
  "getSettingsHash section = ''#settings/'' @ encodeURIComponent section"

section \<open>Resolving\<close>

definition resolveChannelFromHashToken :: "string \<Rightarrow> channel list \<Rightarrow> channel option" where
  "resolveChannelFromHashToken token channels =
     (let normalizedToken = trim token;
          byName = find (\<lambda>c. ch_name c = normalizedToken \<or> ch_name c = CHR ''#'' # normalizedToken) channels
      in if normalizedToken = [] then None
         else case find (\<lambda>c. to_lower (ch_key c) = to_lower normalizedToken) channels of
                Some c \<Rightarrow> Some c
              | None \<Rightarrow>
                  if to_lower normalizedToken = to_lower PUBLIC_CHANNEL_NAME
                  then (case findPublicChannel channels of Some c \<Rightarrow> Some c | None \<Rightarrow> byName)
                  else byName)"

definition resolveContactFromHashToken :: "string \<Rightarrow> contact list \<Rightarrow> contact option" where
  "resolveContactFromHashToken token contacts =
     (let normalizedToken = trim token; lowerToken = to_lower normalizedToken
      in if normalizedToken = [] then None
         else case find (\<lambda>c. to_lower (ct_public_key c) = lowerToken) contacts of
                Some c \<Rightarrow> Some c
              | None \<Rightarrow>
                  find (\<lambda>c. getContactDisplayName (ct_name c) (ct_public_key c) (ct_last_advert c) = normalizedToken
                            \<or> starts_with (to_lower (ct_public_key c)) lowerToken) contacts)"

section \<open>Building\<close>

definition getMapFocusHash :: "string \<Rightarrow> string" where
  "getMapFocusHash publicKeyPrefix = ''#map/focus/'' @ encodeURIComponent publicKeyPrefix"

fun getConversationHash :: "conversation option \<Rightarrow> string" where
  "getConversationHash None = []"
| "getConversationHash (Some conv) =
     (case cv_type conv of
        Cv_raw \<Rightarrow> ''#raw'' | Cv_map \<Rightarrow> ''#map'' | Cv_visualizer \<Rightarrow> ''#visualizer'' | Cv_search \<Rightarrow> ''#search''
      | Cv_mentions \<Rightarrow> ''#mentions'' | Cv_trace \<Rightarrow> ''#trace''
      | Cv_channel \<Rightarrow>
          (let label = (if starts_with (cv_name conv) ''#'' then drop 1 (cv_name conv) else cv_name conv)
           in ''#channel/'' @ encodeURIComponent (cv_id conv) @ ''/'' @ encodeURIComponent label)
      | Cv_contact \<Rightarrow> ''#contact/'' @ encodeURIComponent (cv_id conv) @ ''/'' @ encodeURIComponent (cv_name conv))"

section \<open>The last viewed conversation\<close>

definition conversation_type_str :: "conversation_type \<Rightarrow> string" where
  "conversation_type_str t = (case t of Cv_contact \<Rightarrow> ''contact'' | Cv_channel \<Rightarrow> ''channel'' | Cv_raw \<Rightarrow> ''raw'' | Cv_map \<Rightarrow> ''map''
     | Cv_visualizer \<Rightarrow> ''visualizer'' | Cv_search \<Rightarrow> ''search'' | Cv_mentions \<Rightarrow> ''mentions'' | Cv_trace \<Rightarrow> ''trace'')"

definition SUPPORTED_TYPES :: "conversation_type list" where
  "SUPPORTED_TYPES = [Cv_contact, Cv_channel, Cv_raw, Cv_map, Cv_visualizer, Cv_mentions, Cv_trace]"

definition supported_type :: "string \<Rightarrow> conversation_type option" where
  "supported_type s = find (\<lambda>t. conversation_type_str t = s) SUPPORTED_TYPES"

text \<open>The stored item is kept as the value \<^verbatim>\<open>JSON.parse\<close> makes of it; \<^const>\<open>None\<close> stands for no item, an item that does not
  parse and an unavailable storage, on all of which the source returns \<^verbatim>\<open>null\<close>.\<close>

record local_storage =
  ls_available :: bool
  ls_reopenLast :: bool
  ls_lastViewed :: "json option"

definition getReopenLastConversationEnabled :: "local_storage \<Rightarrow> bool" where
  "getReopenLastConversationEnabled ls \<longleftrightarrow> ls_available ls \<and> ls_reopenLast ls"

definition setReopenLastConversationEnabled :: "bool \<Rightarrow> local_storage \<Rightarrow> local_storage" where
  "setReopenLastConversationEnabled enabled ls =
     (if \<not> ls_available ls then ls
      else if enabled then ls\<lparr> ls_reopenLast := True \<rparr>
      else ls\<lparr> ls_reopenLast := False, ls_lastViewed := None \<rparr>)"

definition conversation_json :: "conversation \<Rightarrow> json" where
  "conversation_json conv =
     JObj ([(''type'', JStr (conversation_type_str (cv_type conv))), (''id'', JStr (cv_id conv)), (''name'', JStr (cv_name conv))]
       @ (case cv_mapFocusKey conv of None \<Rightarrow> [] | Some k \<Rightarrow> [(''mapFocusKey'', JStr k)]))"

definition saveLastViewedConversation :: "conversation \<Rightarrow> local_storage \<Rightarrow> local_storage" where
  "saveLastViewedConversation conv ls =
     (if ls_available ls then ls\<lparr> ls_lastViewed := Some (conversation_json conv) \<rparr> else ls)"

definition getLastViewedConversation :: "local_storage \<Rightarrow> conversation option" where
  "getLastViewedConversation ls =
     (case (if ls_available ls then ls_lastViewed ls else None) of
        Some (JObj members) \<Rightarrow>
          (case (map_of members ''type'', map_of members ''id'', map_of members ''name'') of
             (Some (JStr t), Some (JStr i), Some (JStr n)) \<Rightarrow>
               map_option (\<lambda>type. \<lparr> cv_type = type, cv_id = i, cv_name = n,
                   cv_mapFocusKey = (if type \<noteq> Cv_map then None
                     else (case map_of members ''mapFocusKey'' of Some (JStr k) \<Rightarrow> Some k | _ \<Rightarrow> None)) \<rparr>)
                 (supported_type t)
           | _ \<Rightarrow> None)
      | _ \<Rightarrow> None)"

definition plain_conversation :: "conversation_type \<Rightarrow> string \<Rightarrow> string \<Rightarrow> conversation" where
  "plain_conversation type i n = \<lparr> cv_type = type, cv_id = i, cv_name = n, cv_mapFocusKey = None \<rparr>"

definition captureLastViewedConversationFromHash :: "string \<Rightarrow> local_storage \<Rightarrow> uri_error + local_storage" where
  "captureLastViewedConversationFromHash location_hash ls =
     (case parseHashConversation location_hash of
        Inl e \<Rightarrow> Inl e
      | Inr None \<Rightarrow> Inr ls
      | Inr (Some h) \<Rightarrow>
          Inr (saveLastViewedConversation
            (case ph_type h of
               Cv_raw \<Rightarrow> plain_conversation Cv_raw ''raw'' ''Raw Packet Feed''
             | Cv_map \<Rightarrow> (plain_conversation Cv_map ''map'' ''Node Map'')\<lparr> cv_mapFocusKey := or_null (ph_mapFocusKey h) \<rparr>
             | Cv_visualizer \<Rightarrow> plain_conversation Cv_visualizer ''visualizer'' ''Mesh Visualizer''
             | Cv_trace \<Rightarrow> plain_conversation Cv_trace ''trace'' ''Trace''
             | t \<Rightarrow> plain_conversation t (ph_name h) (or_else (ph_label h) (ph_name h))) ls))"

section \<open>Encoding and decoding\<close>

lemma digit_val_hex_upper: "d < 16 \<Longrightarrow> digit_val (hex_upper d) = Some d"
  by (auto simp: digit_val_def hex_upper_def Let_def)

lemma percent_byte_percent [simp]: "b < 256 \<Longrightarrow> percent_byte (percent b @ s) = Some (b, s)"
  by (simp add: percent_def digit_val_hex_upper)

lemma percent_Cons: "percent b = CHR ''%'' # tl (percent b)"
  by (simp add: percent_def)

lemma uri_unreserved_ascii: "uri_unreserved c \<Longrightarrow> of_char c < (128 :: nat) \<and> c \<noteq> CHR ''%'' \<and> c \<noteq> CHR ''/''"
  by (auto simp: uri_unreserved_def Let_def)

lemma decode_percent:
  assumes "b < 256"
  shows "decodeURIComponent (percent b @ s) =
     (if b < 128 then map_option ((#) (char_of b)) (decodeURIComponent s)
      else if b = 194 \<or> b = 195 then
        (case percent_byte s of
           None \<Rightarrow> None
         | Some (b2, s2) \<Rightarrow>
             if 128 \<le> b2 \<and> b2 < 192
             then map_option ((#) (char_of ((b - 192) * 64 + (b2 - 128)))) (decodeURIComponent s2) else None)
      else None)"
  using percent_byte_percent [OF assms, of s] by (simp add: percent_def)

lemma decode_encode_char: "decodeURIComponent (encode_char c @ s) = map_option ((#) c) (decodeURIComponent s)"
proof -
  define n where "n = (of_char c :: nat)"
  have c: "char_of n = c" and n: "n < 256" by (simp_all add: n_def)
  consider "uri_unreserved c" | "\<not> uri_unreserved c" "n < 128" | "\<not> uri_unreserved c" "128 \<le> n" by linarith
  then show ?thesis
  proof cases
    case 1
    then show ?thesis using uri_unreserved_ascii by (simp add: encode_char_def)
  next
    case 2
    then have "encode_char c = percent n" by (simp add: encode_char_def Let_def n_def)
    with 2 n show ?thesis by (simp add: decode_percent c)
  next
    case 3
    have "2 \<le> n div 64" "n div 64 < 4"
      using 3 n by (simp_all add: less_eq_div_iff_mult_less_eq less_mult_imp_div_less)
    then have "192 + n div 64 = 194 \<or> 192 + n div 64 = 195" by linarith
    moreover have "n div 64 * 64 + n mod 64 = n" by simp
    moreover have "encode_char c = percent (192 + n div 64) @ percent (128 + n mod 64)"
      using 3 by (simp add: encode_char_def Let_def n_def)
    ultimately show ?thesis
      using 3 n by (auto simp: decode_percent c)
  qed
qed

lemma decode_encode_append: "decodeURIComponent (encodeURIComponent s @ t) = map_option ((@) s) (decodeURIComponent t)"
  by (induction s) (simp_all add: encodeURIComponent_def decode_encode_char option.map_comp comp_def option.map_ident)

lemma decode_encode [simp]: "decodeURIComponent (encodeURIComponent s) = Some s"
  using decode_encode_append [of s "[]"] by simp

lemma hex_upper_no_slash: "d < 16 \<Longrightarrow> hex_upper d \<noteq> CHR ''/''"
  using digit_val_hex_upper [of d] by (auto simp: digit_val_def Let_def)

lemma percent_no_slash: "b < 256 \<Longrightarrow> CHR ''/'' \<notin> set (percent b)"
proof -
  assume "b < 256"
  then have "b div 16 < 16" "b mod 16 < 16" by (simp_all add: less_mult_imp_div_less)
  then have "hex_upper (b div 16) \<noteq> CHR ''/''" "hex_upper (b mod 16) \<noteq> CHR ''/''" by (simp_all add: hex_upper_no_slash)
  then show ?thesis by (simp add: percent_def eq_commute)
qed

lemma slash_not_encoded [simp]: "CHR ''/'' \<notin> set (encodeURIComponent s)"
proof -
  have "CHR ''/'' \<notin> set (encode_char c)" for c
  proof -
    have "(of_char c :: nat) div 64 < 4" by (simp add: less_mult_imp_div_less)
    moreover have "(of_char c :: nat) mod 64 < 64" by simp
    ultimately have "CHR ''/'' \<notin> set (percent (192 + of_char c div 64))" "CHR ''/'' \<notin> set (percent (128 + of_char c mod 64))"
      by (simp_all add: percent_no_slash del: of_char_mod_256)
    then show ?thesis
      using uri_unreserved_ascii [of c] percent_no_slash [of "of_char c"] by (auto simp: encode_char_def Let_def)
  qed
  then show ?thesis by (auto simp: encodeURIComponent_def)
qed

lemma index_of_slash: "CHR ''/'' \<notin> set x \<Longrightarrow> index_of (x @ ''/'' @ y) ''/'' = Some (length x)"
  by (induction x) (auto simp: starts_with_def)

section \<open>Round trips\<close>

lemma encode_char_nonempty [simp]: "encode_char c \<noteq> []"
  by (simp add: encode_char_def percent_def Let_def)

lemma encode_Nil_iff [simp]: "encodeURIComponent s = [] \<longleftrightarrow> s = []"
  by (cases s) (simp_all add: encodeURIComponent_def)

lemma parse_data_hash:
  assumes "i \<noteq> []" and "type = ''channel'' \<or> type = ''contact''"
  shows "parseHashConversation (''#'' @ type @ ''/'' @ encodeURIComponent i @ ''/'' @ encodeURIComponent n) =
     Inr (Some ((hash_view (if type = ''channel'' then Cv_channel else Cv_contact) i)
       \<lparr> ph_label := (if n = [] then None else Some n) \<rparr>))"
proof -
  have "CHR ''/'' \<notin> set type" using assms(2) by auto
  then have 1: "index_of (type @ ''/'' @ encodeURIComponent i @ ''/'' @ encodeURIComponent n) ''/'' = Some (length type)"
    by (rule index_of_slash)
  have 2: "index_of (encodeURIComponent i @ ''/'' @ encodeURIComponent n) ''/'' = Some (length (encodeURIComponent i))"
    by (rule index_of_slash) simp
  from assms(2) show ?thesis
    using 1 2 assms(1) by (auto simp: parseHashConversation_def Let_def starts_with_def hash_view_def)
qed

text \<open>C33. The address of a conversation can be read back: parsing its hash never fails and gives its type, and for a
  channel or contact its identifier and (without the leading \<^verbatim>\<open>#\<close> of a channel) its name.\<close>

theorem conversation_hash_roundtrip:
  assumes "cv_id conv \<noteq> []"
  shows "\<exists>h. parseHashConversation (getConversationHash (Some conv)) = Inr (Some h) \<and> ph_type h = cv_type conv
     \<and> (cv_type conv \<in> {Cv_channel, Cv_contact} \<longrightarrow> ph_name h = cv_id conv)
     \<and> (cv_type conv = Cv_contact \<longrightarrow> coalesce (ph_label h) [] = cv_name conv)
     \<and> (cv_type conv = Cv_channel \<longrightarrow>
          coalesce (ph_label h) [] = (if starts_with (cv_name conv) ''#'' then drop 1 (cv_name conv) else cv_name conv))"
proof (cases "cv_type conv")
  case Cv_channel
  then show ?thesis using parse_data_hash [OF assms, of "''channel''"] by (simp add: Let_def hash_view_def coalesce_def)
next
  case Cv_contact
  then show ?thesis using parse_data_hash [OF assms, of "''contact''"] by (simp add: Let_def hash_view_def coalesce_def)
qed (simp_all add: parseHashConversation_def hash_view_def Let_def)

lemma conversation_hash_roundtrip_witness:
  "\<exists>h. parseHashConversation (getConversationHash (Some (plain_conversation Cv_channel ''8B33/2'' ''#a b''))) = Inr (Some h)
     \<and> ph_name h = ''8B33/2''"
  using conversation_hash_roundtrip [of "plain_conversation Cv_channel ''8B33/2'' ''#a b''"]
  by (auto simp: plain_conversation_def)

text \<open>What is saved as the last viewed conversation is what is read back, whenever storage is available and the
  conversation is not the search view.\<close>

theorem last_viewed_roundtrip:
  assumes "ls_available ls" and "cv_type conv \<noteq> Cv_search" and "cv_type conv \<noteq> Cv_map \<Longrightarrow> cv_mapFocusKey conv = None"
  shows "getLastViewedConversation (saveLastViewedConversation conv ls) = Some conv"
proof -
  have "supported_type (conversation_type_str (cv_type conv)) = Some (cv_type conv)"
    using assms(2) by (cases "cv_type conv") (simp_all add: supported_type_def SUPPORTED_TYPES_def conversation_type_str_def)
  then show ?thesis
    using assms(1,3) by (cases "cv_type conv = Cv_map")
      (auto simp: getLastViewedConversation_def saveLastViewedConversation_def conversation_json_def split: option.split)
qed

lemma last_viewed_roundtrip_witness:
  "getLastViewedConversation (saveLastViewedConversation (plain_conversation Cv_contact ''ab'' ''Bob'')
     \<lparr> ls_available = True, ls_reopenLast = True, ls_lastViewed = None \<rparr>) = Some (plain_conversation Cv_contact ''ab'' ''Bob'')"
  by (rule last_viewed_roundtrip) (simp_all add: plain_conversation_def)

end
