(* ===== verification/Conversation_Router.thy ===== *)
theory Conversation_Router
  imports Url_Hash
begin

text \<open>
  The hook \<^verbatim>\<open>useConversationRouter\<close> (\<^verbatim>\<open>hooks/useConversationRouter.ts\<close>): which conversation is open at the start, how
  the URL hash and the history follow it, how the back button and deletions change it.

  One definition per effect or callback over \<open>router_state\<close>; effects run in the order of the source after a
  render. An effect that parses the hash can throw, which is the left injection. The refs that only mirror
  the lists are the lists. A history entry is its hash.
\<close>

section \<open>State\<close>

datatype router_toast =
    Channel_not_found string bool
  | Contact_not_found string bool

record router_state =
  rt_channels :: "channel list"
  rt_contacts :: "contact list"
  rt_contactsLoaded :: bool
  rt_suspendHashSync :: bool
  rt_active :: "conversation option"
  rt_activeRef :: "conversation option"
  rt_hashSyncEnabled :: bool
  rt_shouldPushHistory :: bool
  rt_handlingPopstate :: bool
  rt_hasSetDefault :: bool
  rt_pendingDeleteFallback :: bool
  rt_sidebarOpen :: bool
  rt_hash :: string
  rt_history :: "string list"
  rt_storage :: local_storage
  rt_toasts :: "router_toast list"

section \<open>Hash and history\<close>

definition updateUrlHash :: "conversation option \<Rightarrow> router_state \<Rightarrow> router_state" where
  "updateUrlHash conv st =
     (let newHash = getConversationHash conv in
      if newHash \<noteq> rt_hash st
      then st\<lparr> rt_hash := newHash, rt_history := (if rt_history st = [] then [newHash] else newHash # tl (rt_history st)) \<rparr>
      else st)"

definition pushUrlHash :: "conversation option \<Rightarrow> router_state \<Rightarrow> router_state" where
  "pushUrlHash conv st =
     (let newHash = getConversationHash conv in
      if newHash \<noteq> rt_hash st then st\<lparr> rt_hash := newHash, rt_history := newHash # rt_history st \<rparr> else st)"

section \<open>Resolving\<close>

definition channel_conversation :: "channel \<Rightarrow> conversation" where
  "channel_conversation c = plain_conversation Cv_channel (ch_key c) (ch_name c)"

definition contact_conversation :: "contact \<Rightarrow> conversation" where
  "contact_conversation c = plain_conversation Cv_contact (ct_public_key c)
     (getContactDisplayName (ct_name c) (ct_public_key c) (ct_last_advert c))"

definition resolvePublicFromChannels :: "channel list \<Rightarrow> conversation option" where
  "resolvePublicFromChannels channels = map_option channel_conversation (findPublicChannel channels)"

definition view_conversation_of :: "parsed_hash \<Rightarrow> conversation option" where
  "view_conversation_of h =
     (case ph_type h of
        Cv_raw \<Rightarrow> Some (plain_conversation Cv_raw ''raw'' ''Raw Packet Feed'')
      | Cv_map \<Rightarrow> Some ((plain_conversation Cv_map ''map'' ''Node Map'')\<lparr> cv_mapFocusKey := ph_mapFocusKey h \<rparr>)
      | Cv_visualizer \<Rightarrow> Some (plain_conversation Cv_visualizer ''visualizer'' ''Mesh Visualizer'')
      | Cv_search \<Rightarrow> Some (plain_conversation Cv_search ''search'' ''Message Search'')
      | Cv_mentions \<Rightarrow> Some (plain_conversation Cv_mentions ''mentions'' ''Mentions'')
      | Cv_trace \<Rightarrow> Some (plain_conversation Cv_trace ''trace'' ''Trace'')
      | _ \<Rightarrow> None)"

definition resolveConversationFromHash :: "string \<Rightarrow> channel list \<Rightarrow> contact list \<Rightarrow> uri_error + conversation option" where
  "resolveConversationFromHash location_hash channels contacts =
     (case parseHashConversation location_hash of
        Inl e \<Rightarrow> Inl e
      | Inr None \<Rightarrow> Inr None
      | Inr (Some h) \<Rightarrow>
          Inr (case ph_type h of
                 Cv_channel \<Rightarrow> map_option channel_conversation (resolveChannelFromHashToken (ph_name h) channels)
               | Cv_contact \<Rightarrow> map_option contact_conversation (resolveContactFromHashToken (ph_name h) contacts)
               | _ \<Rightarrow> view_conversation_of h))"

text \<open>\<^verbatim>\<open>parseHashSettingsSection() ? null : parseHashConversation()\<close>\<close>

definition hash_conversation :: "string \<Rightarrow> uri_error + parsed_hash option" where
  "hash_conversation location_hash =
     (case parseHashSettingsSection location_hash of
        Inl e \<Rightarrow> Inl e
      | Inr (Some _) \<Rightarrow> Inr None
      | Inr None \<Rightarrow> parseHashConversation location_hash)"

section \<open>The initial conversation\<close>

definition setDefault :: "conversation \<Rightarrow> router_state \<Rightarrow> router_state" where
  "setDefault conv st = st\<lparr> rt_active := Some conv, rt_hasSetDefault := True \<rparr>"

definition shown_token :: "string \<Rightarrow> string \<times> bool" where
  "shown_token name = (if 16 < length name then (take 16 name, True) else (name, False))"

definition restorable_view :: "conversation option \<Rightarrow> conversation option" where
  "restorable_view lastViewed =
     (case lastViewed of
        Some c \<Rightarrow> if cv_type c \<in> {Cv_raw, Cv_map, Cv_visualizer, Cv_mentions, Cv_trace} then Some c else None
      | None \<Rightarrow> None)"

text \<open>The last step of phase 1: the public channel, with a notice when a channel hash did not resolve.\<close>

definition default_public :: "parsed_hash option \<Rightarrow> router_state \<Rightarrow> router_state" where
  "default_public hashConv st =
     (case resolvePublicFromChannels (rt_channels st) of
        None \<Rightarrow> st
      | Some publicConversation \<Rightarrow>
          setDefault publicConversation
            (case hashConv of
               Some h \<Rightarrow> if ph_type h = Cv_channel
                 then st\<lparr> rt_toasts := rt_toasts st @ [case_prod Channel_not_found (shown_token (ph_name h))] \<rparr> else st
             | None \<Rightarrow> st))"

definition phase1_restore :: "router_state \<Rightarrow> router_state" where
  "phase1_restore st =
     (if getReopenLastConversationEnabled (rt_storage st) then
        (case getLastViewedConversation (rt_storage st) of
           Some lastViewed \<Rightarrow>
             (let byKey = find (\<lambda>c. to_lower (ch_key c) = to_lower (cv_id lastViewed)) (rt_channels st);
                  channel = (case byKey of Some c \<Rightarrow> Some c
                             | None \<Rightarrow> resolveChannelFromHashToken (cv_id lastViewed) (rt_channels st))
              in case (cv_type lastViewed, channel) of
                   (Cv_channel, Some c) \<Rightarrow> setDefault (channel_conversation c) st
                 | (Cv_contact, _) \<Rightarrow> st
                 | _ \<Rightarrow> default_public None st)
         | None \<Rightarrow> default_public None st)
      else default_public None st)"

definition router_phase1 :: "router_state \<Rightarrow> uri_error + router_state" where
  "router_phase1 st =
     (if rt_hasSetDefault st \<or> rt_active st \<noteq> None then Inr st
      else case hash_conversation (rt_hash st) of
             Inl e \<Rightarrow> Inl e
           | Inr (Some h) \<Rightarrow>
               Inr (case view_conversation_of h of
                      Some view \<Rightarrow> setDefault view st
                    | None \<Rightarrow>
                        if rt_channels st = [] then st
                        else if ph_type h = Cv_channel then
                          (case resolveChannelFromHashToken (ph_name h) (rt_channels st) of
                             Some c \<Rightarrow> setDefault (channel_conversation c) st
                           | None \<Rightarrow> default_public (Some h) st)
                        else st)
           | Inr None \<Rightarrow>
               Inr (case (if getReopenLastConversationEnabled (rt_storage st)
                          then restorable_view (getLastViewedConversation (rt_storage st)) else None) of
                      Some view \<Rightarrow> setDefault view st
                    | None \<Rightarrow> if rt_channels st = [] then st else phase1_restore st))"

definition phase2_public :: "router_state \<Rightarrow> router_state" where
  "phase2_public st =
     (case resolvePublicFromChannels (rt_channels st) of None \<Rightarrow> st | Some conv \<Rightarrow> setDefault conv st)"

definition phase2_restore :: "router_state \<Rightarrow> router_state" where
  "phase2_restore st =
     (case getLastViewedConversation (rt_storage st) of
        None \<Rightarrow> st
      | Some lastViewed \<Rightarrow>
          if cv_type lastViewed \<noteq> Cv_contact \<or> \<not> rt_contactsLoaded st then st
          else (case (case find (\<lambda>c. to_lower (ct_public_key c) = to_lower (cv_id lastViewed)) (rt_contacts st) of
                        Some c \<Rightarrow> Some c
                      | None \<Rightarrow> resolveContactFromHashToken (cv_id lastViewed) (rt_contacts st)) of
                  Some c \<Rightarrow> setDefault (contact_conversation c) st
                | None \<Rightarrow> phase2_public st))"

definition router_phase2 :: "router_state \<Rightarrow> uri_error + router_state" where
  "router_phase2 st =
     (if rt_hasSetDefault st \<or> rt_active st \<noteq> None then Inr st
      else case hash_conversation (rt_hash st) of
             Inl e \<Rightarrow> Inl e
           | Inr hashConv \<Rightarrow>
               Inr (case hashConv of
                      Some h \<Rightarrow>
                        if ph_type h \<noteq> Cv_contact \<or> \<not> rt_contactsLoaded st then st
                        else (case resolveContactFromHashToken (ph_name h) (rt_contacts st) of
                                Some c \<Rightarrow> setDefault (contact_conversation c) st
                              | None \<Rightarrow> phase2_public
                                  (st\<lparr> rt_toasts := rt_toasts st @ [case_prod Contact_not_found (shown_token (ph_name h))] \<rparr>))
                    | None \<Rightarrow> if getReopenLastConversationEnabled (rt_storage st) then phase2_restore st else st))"

section \<open>Following the conversation\<close>

definition router_sync :: "router_state \<Rightarrow> router_state" where
  "router_sync st =
     (let st1 = st\<lparr> rt_activeRef := rt_active st \<rparr>;
          st2 = (if rt_handlingPopstate st1 then st1\<lparr> rt_handlingPopstate := False \<rparr>
                 else if rt_active st1 \<noteq> None \<and> rt_hashSyncEnabled st1 \<and> \<not> rt_suspendHashSync st1 then
                   (if rt_shouldPushHistory st1
                    then pushUrlHash (rt_active st1) (st1\<lparr> rt_shouldPushHistory := False \<rparr>)
                    else updateUrlHash (rt_active st1) st1)
                 else st1)
      in case rt_active st2 of
           Some conv \<Rightarrow> if cv_type conv \<noteq> Cv_search
             then st2\<lparr> rt_storage := saveLastViewedConversation conv (rt_storage st2) \<rparr> else st2
         | None \<Rightarrow> st2)"

text \<open>The back and forward buttons: the browser has set the hash.\<close>

definition handlePopstate :: "string \<Rightarrow> router_state \<Rightarrow> uri_error + router_state" where
  "handlePopstate location_hash st0 =
     (let st = st0\<lparr> rt_hash := location_hash \<rparr> in
      case parseHashSettingsSection location_hash of
        Inl e \<Rightarrow> Inl e
      | Inr (Some _) \<Rightarrow> Inr st
      | Inr None \<Rightarrow>
          (case resolveConversationFromHash location_hash (rt_channels st) (rt_contacts st) of
             Inl e \<Rightarrow> Inl e
           | Inr resolved \<Rightarrow>
               Inr (case (case resolved of Some c \<Rightarrow> Some c | None \<Rightarrow> resolvePublicFromChannels (rt_channels st)) of
                      None \<Rightarrow> st
                    | Some conv \<Rightarrow> st\<lparr> rt_hashSyncEnabled := True, rt_handlingPopstate := True, rt_active := Some conv \<rparr>)))"

definition delete_fallback :: "router_state \<Rightarrow> router_state" where
  "delete_fallback st =
     (if \<not> rt_pendingDeleteFallback st then st
      else if rt_active st \<noteq> None then st\<lparr> rt_pendingDeleteFallback := False \<rparr>
      else case findPublicChannel (rt_channels st) of
             None \<Rightarrow> st
           | Some c \<Rightarrow> st\<lparr> rt_hasSetDefault := True, rt_pendingDeleteFallback := False,
                          rt_active := Some (channel_conversation c) \<rparr>)"

definition setActiveConversation :: "conversation option \<Rightarrow> router_state \<Rightarrow> router_state" where
  "setActiveConversation conv st = st\<lparr> rt_hashSyncEnabled := True, rt_shouldPushHistory := True, rt_active := conv \<rparr>"

definition handleSelectConversation :: "conversation \<Rightarrow> router_state \<Rightarrow> router_state" where
  "handleSelectConversation conv st = (setActiveConversation (Some conv) st)\<lparr> rt_sidebarOpen := False \<rparr>"

section \<open>The application always starts somewhere\<close>

lemma public_found: "findPublicChannel channels \<noteq> None \<Longrightarrow> channels \<noteq> []"
  by (auto simp: findPublicChannel_def)

lemma default_public_set:
  "findPublicChannel (rt_channels st) \<noteq> None \<Longrightarrow> rt_active (default_public h st) \<noteq> None \<and> rt_hasSetDefault (default_public h st)"
  by (auto simp: default_public_def resolvePublicFromChannels_def setDefault_def)

lemma phase2_public_set:
  "findPublicChannel (rt_channels st) \<noteq> None \<Longrightarrow> rt_active (phase2_public st) \<noteq> None \<and> rt_hasSetDefault (phase2_public st)"
  by (auto simp: phase2_public_def resolvePublicFromChannels_def setDefault_def)

lemma setDefault_set [simp]: "rt_active (setDefault conv st) = Some conv" "rt_hasSetDefault (setDefault conv st)"
  by (simp_all add: setDefault_def)

lemma view_conversation_of_None: "view_conversation_of h = None \<longleftrightarrow> ph_type h = Cv_channel \<or> ph_type h = Cv_contact"
  by (cases "ph_type h") (simp_all add: view_conversation_of_def)

lemma phase1_hash:
  assumes "findPublicChannel (rt_channels st) \<noteq> None" and "hash_conversation (rt_hash st) = Inr (Some h)"
    and "\<not> rt_hasSetDefault st" and "rt_active st = None" and "router_phase1 st = Inr st1"
  shows "rt_active st1 \<noteq> None \<and> rt_hasSetDefault st1 \<or> ph_type h = Cv_contact \<and> st1 = st"
  using assms default_public_set [OF assms(1)] public_found [OF assms(1)] view_conversation_of_None [of h]
  by (auto simp: router_phase1_def split: option.splits)

lemma phase1_no_hash:
  assumes "findPublicChannel (rt_channels st) \<noteq> None" and "hash_conversation (rt_hash st) = Inr None"
    and "\<not> rt_hasSetDefault st" and "rt_active st = None" and "router_phase1 st = Inr st1"
  shows "rt_active st1 \<noteq> None \<and> rt_hasSetDefault st1
    \<or> getReopenLastConversationEnabled (rt_storage st) \<and> st1 = st
      \<and> (\<exists>c. getLastViewedConversation (rt_storage st) = Some c \<and> cv_type c = Cv_contact)"
  using assms default_public_set [OF assms(1)] public_found [OF assms(1)]
  by (auto simp: router_phase1_def phase1_restore_def Let_def split: option.splits conversation_type.splits if_splits)

text \<open>C10. Once the contacts and a channel list with the public channel are loaded, the two phases of the start open a
  conversation whatever the hash says and whatever was viewed last, provided the hash decodes; nothing is left
  waiting.\<close>

theorem router_starts:
  assumes "findPublicChannel (rt_channels st) \<noteq> None" and "rt_contactsLoaded st"
    and "hash_conversation (rt_hash st) = Inr hashConv"
  shows "\<exists>st1 st2. router_phase1 st = Inr st1 \<and> router_phase2 st1 = Inr st2
     \<and> (rt_active st2 \<noteq> None \<or> rt_hasSetDefault st)"
proof (cases "rt_hasSetDefault st \<or> rt_active st \<noteq> None")
  case True
  then show ?thesis by (auto simp: router_phase1_def router_phase2_def)
next
  case False
  then have fresh: "\<not> rt_hasSetDefault st" "rt_active st = None" by auto
  then obtain st1 where 1: "router_phase1 st = Inr st1"
    using assms(3) by (cases hashConv) (auto simp: router_phase1_def)
  show ?thesis
  proof (cases hashConv)
    case None
    from phase1_no_hash [OF assms(1) _ fresh 1] assms(3) None
    show ?thesis
      using 1 fresh assms phase2_public_set [OF assms(1)]
      by (auto simp: router_phase2_def phase2_restore_def split: option.split)
  next
    case (Some h)
    from phase1_hash [OF assms(1) _ fresh 1] assms(3) Some
    show ?thesis
      using 1 fresh assms phase2_public_set [of "st\<lparr> rt_toasts := ts \<rparr>" for ts]
      by (auto simp: router_phase2_def split: option.split)
  qed
qed

definition sample_public :: channel where
  "sample_public = \<lparr> ch_key = PUBLIC_CHANNEL_KEY, ch_name = ''Public'', ch_is_hashtag = False, ch_on_radio = True,
     ch_flood_scope_override = Absent, ch_path_hash_mode_override = Absent, ch_last_read_at = None, ch_favorite = False,
     ch_muted = False \<rparr>"

definition sample_router :: "string \<Rightarrow> router_state" where
  "sample_router location_hash =
     \<lparr> rt_channels = [sample_public], rt_contacts = [sample_contact], rt_contactsLoaded = True, rt_suspendHashSync = False,
       rt_active = None, rt_activeRef = None, rt_hashSyncEnabled = False, rt_shouldPushHistory = False,
       rt_handlingPopstate = False, rt_hasSetDefault = False, rt_pendingDeleteFallback = False, rt_sidebarOpen = False,
       rt_hash = location_hash, rt_history = [location_hash],
       rt_storage = \<lparr> ls_available = True, ls_reopenLast = False, ls_lastViewed = None \<rparr>, rt_toasts = [] \<rparr>"

lemma router_starts_witness:
  "\<exists>st1 st2. router_phase1 (sample_router ''#contact/zz'') = Inr st1 \<and> router_phase2 st1 = Inr st2 \<and> rt_active st2 \<noteq> None"
proof -
  have "findPublicChannel (rt_channels (sample_router ''#contact/zz'')) \<noteq> None" by code_simp
  moreover have "hash_conversation (rt_hash (sample_router ''#contact/zz'')) = Inr (Some (hash_view Cv_contact ''zz''))" by code_simp
  ultimately show ?thesis using router_starts [of "sample_router ''#contact/zz''"] by (simp add: sample_router_def)
qed

section \<open>The back button\<close>

text \<open>The conversations that can be reopened from their hash: those of the lists and the views.\<close>

definition listed :: "router_state \<Rightarrow> conversation \<Rightarrow> bool" where
  "listed st conv \<longleftrightarrow> (\<exists>c \<in> set (rt_channels st). conv = channel_conversation c)
     \<or> (\<exists>c \<in> set (rt_contacts st). conv = contact_conversation c)
     \<or> (\<exists>h. ph_mapFocusKey h = None \<and> view_conversation_of h = Some conv)"

definition keys_resolve :: "string list \<Rightarrow> bool" where
  "keys_resolve ks \<longleftrightarrow> distinct (map to_lower ks) \<and> (\<forall>k \<in> set ks. k \<noteq> [] \<and> trim k = k)"

lemma find_by_key:
  assumes "distinct (map to_lower (map key xs))" and "x \<in> set xs"
  shows "find (\<lambda>c. to_lower (key c) = to_lower (key x)) xs = Some x"
  using assms by (induction xs) (auto simp: image_iff)

lemma resolve_listed_channel:
  assumes "keys_resolve (map ch_key channels)" and "c \<in> set channels"
  shows "resolveChannelFromHashToken (ch_key c) channels = Some c"
  using assms find_by_key [of ch_key channels c] by (auto simp: resolveChannelFromHashToken_def keys_resolve_def Let_def)

lemma resolve_listed_contact:
  assumes "keys_resolve (map ct_public_key contacts)" and "c \<in> set contacts"
  shows "resolveContactFromHashToken (ct_public_key c) contacts = Some c"
  using assms find_by_key [of ct_public_key contacts c] by (auto simp: resolveContactFromHashToken_def keys_resolve_def Let_def)

lemma parse_view_hashes:
  "parseHashConversation ''#raw'' = Inr (Some (hash_view Cv_raw ''raw''))"
  "parseHashConversation ''#map'' = Inr (Some (hash_view Cv_map ''map''))"
  "parseHashConversation ''#visualizer'' = Inr (Some (hash_view Cv_visualizer ''visualizer''))"
  "parseHashConversation ''#search'' = Inr (Some (hash_view Cv_search ''search''))"
  "parseHashConversation ''#mentions'' = Inr (Some (hash_view Cv_mentions ''mentions''))"
  "parseHashConversation ''#trace'' = Inr (Some (hash_view Cv_trace ''trace''))"
  by (simp_all add: parseHashConversation_def Let_def)

lemma resolve_listed:
  assumes "listed st conv" and "keys_resolve (map ch_key (rt_channels st))" and "keys_resolve (map ct_public_key (rt_contacts st))"
  shows "resolveConversationFromHash (getConversationHash (Some conv)) (rt_channels st) (rt_contacts st) = Inr (Some conv)"
proof -
  consider c where "c \<in> set (rt_channels st)" "conv = channel_conversation c"
    | c where "c \<in> set (rt_contacts st)" "conv = contact_conversation c"
    | h where "ph_mapFocusKey h = None" "view_conversation_of h = Some conv"
    using assms(1) by (auto simp: listed_def)
  then show ?thesis
  proof cases
    case 1
    then have "ch_key c \<noteq> []" using assms(2) by (auto simp: keys_resolve_def)
    then show ?thesis
      using parse_data_hash [of "ch_key c" "''channel''"] resolve_listed_channel [OF assms(2) 1(1)] 1(2)
      by (simp add: resolveConversationFromHash_def channel_conversation_def plain_conversation_def Let_def hash_view_def)
  next
    case 2
    then have "ct_public_key c \<noteq> []" using assms(3) by (auto simp: keys_resolve_def)
    then show ?thesis
      using parse_data_hash [of "ct_public_key c" "''contact''"] resolve_listed_contact [OF assms(3) 2(1)] 2(2)
      by (simp add: resolveConversationFromHash_def contact_conversation_def plain_conversation_def hash_view_def)
  next
    case 3
    then show ?thesis
      by (cases "ph_type h")
        (simp_all add: view_conversation_of_def resolveConversationFromHash_def plain_conversation_def parse_view_hashes,
         auto simp: parse_view_hashes hash_view_def view_conversation_of_def plain_conversation_def)
  qed
qed

lemma no_settings_hash: "parseHashSettingsSection (getConversationHash (Some conv)) = Inr None"
  by (cases "cv_type conv") (simp_all add: parseHashSettingsSection_def starts_with_def Let_def)

text \<open>C37. Selecting a conversation puts its address on the history, and coming back to that address opens it again,
  for every listed channel and contact and every view without a focused node; the back button itself adds no history
  entry.\<close>

theorem select_and_return:
  assumes "listed st conv" and "keys_resolve (map ch_key (rt_channels st))" and "keys_resolve (map ct_public_key (rt_contacts st))"
    and "\<not> rt_suspendHashSync st" and "\<not> rt_handlingPopstate st" and "rt_hash st \<noteq> getConversationHash (Some conv)"
  shows "let st1 = router_sync (handleSelectConversation conv st) in
     rt_history st1 = getConversationHash (Some conv) # rt_history st \<and> rt_hash st1 = getConversationHash (Some conv)
     \<and> (\<exists>st2. handlePopstate (rt_hash st1) st = Inr st2 \<and> rt_active st2 = Some conv
          \<and> rt_history (router_sync st2) = rt_history st)"
proof -
  have "rt_history (router_sync (handleSelectConversation conv st)) = getConversationHash (Some conv) # rt_history st
      \<and> rt_hash (router_sync (handleSelectConversation conv st)) = getConversationHash (Some conv)"
    using assms(4-6) by (simp add: router_sync_def handleSelectConversation_def setActiveConversation_def pushUrlHash_def Let_def
        del: getConversationHash.simps)
  moreover have "\<exists>st2. handlePopstate (getConversationHash (Some conv)) st = Inr st2 \<and> rt_active st2 = Some conv
      \<and> rt_history (router_sync st2) = rt_history st"
    using resolve_listed [OF assms(1-3)]
    by (simp add: handlePopstate_def no_settings_hash router_sync_def Let_def del: getConversationHash.simps)
  ultimately show ?thesis by (simp add: Let_def del: getConversationHash.simps)
qed

lemma select_and_return_witness:
  "\<exists>st2. handlePopstate (getConversationHash (Some (channel_conversation sample_public))) (sample_router ''#raw'') = Inr st2
     \<and> rt_active st2 = Some (channel_conversation sample_public)"
proof -
  let ?st = "sample_router ''#raw''" and ?conv = "channel_conversation sample_public"
  have "listed ?st ?conv" by (simp add: listed_def sample_router_def)
  moreover have "keys_resolve (map ch_key (rt_channels ?st))" "keys_resolve (map ct_public_key (rt_contacts ?st))" by code_simp+
  moreover have "\<not> rt_suspendHashSync ?st" "\<not> rt_handlingPopstate ?st" by (simp_all add: sample_router_def)
  moreover have "rt_hash ?st \<noteq> getConversationHash (Some ?conv)" by code_simp
  ultimately show ?thesis using select_and_return [of ?st ?conv] by (auto simp: Let_def simp del: getConversationHash.simps)
qed

section \<open>Malformed addresses\<close>

text \<open>A channel address whose token does not decode makes the start and the back button throw: no conversation is
  opened and the public channel is not used either.\<close>

theorem malformed_hash_throws:
  assumes "decodeURIComponent token = None" and "CHR ''/'' \<notin> set token"
    and "rt_hash st = ''#channel/'' @ token" and "\<not> rt_hasSetDefault st" and "rt_active st = None"
  shows "router_phase1 st = Inl URIError \<and> router_phase2 st = Inl URIError \<and> handlePopstate (rt_hash st) st = Inl URIError"
proof -
  have "token \<noteq> []" using assms(1) by auto
  moreover have "index_of token ''/'' = None"
    using assms(2) by (induction token) (auto simp: starts_with_def)
  moreover have "index_of (''channel/'' @ token) ''/'' = Some 7"
    using index_of_slash [of "''channel''" token] by simp
  ultimately have "parseHashConversation (rt_hash st) = Inl URIError"
    using assms(1) by (simp add: assms(3) parseHashConversation_def Let_def starts_with_def)
  moreover have "parseHashSettingsSection (rt_hash st) = Inr None"
    by (simp add: assms(3) parseHashSettingsSection_def starts_with_def)
  ultimately show ?thesis
    using assms(4,5)
    by (simp add: router_phase1_def router_phase2_def hash_conversation_def handlePopstate_def resolveConversationFromHash_def)
qed

lemma malformed_hash_throws_witness: "router_phase1 (sample_router ''#channel/50%'') = Inl URIError"
proof -
  have "decodeURIComponent ''50%'' = None" by code_simp
  from malformed_hash_throws [OF this, of "sample_router ''#channel/50%''"] show ?thesis by (simp add: sample_router_def)
qed

end
