(* ===== verification/Open_Payloads.thy ===== *)
theory Open_Payloads
  imports Js_Strings "HOL-Library.Word"
begin

unbundle bit_operations_syntax

text \<open>
  Reactions, GIFs and reply prefixes of MeshCore Open (\<^verbatim>\<open>utils/meshcoreOpenPayloads.ts\<close>): the table of emoji and their
  index on the wire, the Dart string hash that names the target of a reaction, and the parsers.

  An emoji is the list of its code points. The regular expressions of the source are written out; none of them
  needs more than one step of backtracking, which the definitions spell out. The dialect of MeshCore One,
  whose messages contain emoji, is in \<open>Message_Text\<close>.
\<close>

section \<open>The emoji table\<close>

type_synonym emoji = "nat list"

definition QUICK_EMOJIS :: "emoji list" where
  "QUICK_EMOJIS =
    [[128077], [10084, 65039], [128514], [127881], [128079], [128293]]"

definition SMILEYS :: "emoji list" where
  "SMILEYS =
    [[128512], [128515], [128516], [128513], [128517], [128514], [129315], [128522], [128519], [128578],
     [128579], [128521], [128524], [128525], [129392], [128536], [128535], [128537], [128538], [128523],
     [128539], [128541], [128540], [129322], [129320], [129488], [129299], [128526], [129400], [129321],
     [129395], [128527], [128530], [128542], [128532], [128543], [128533], [128577], [128547], [128534],
     [128555], [128553], [129402], [128546], [128557], [128548], [128544], [128545], [129324], [129327],
     [128563], [129397], [129398], [128561], [128552], [128560], [128549], [128531], [129303], [129300],
     [129325], [129323], [129317], [128566]]"

definition GESTURES :: "emoji list" where
  "GESTURES =
    [[128077], [128078], [128074], [9994], [129307], [129308], [129310], [9996, 65039], [129311], [129304],
     [128076], [129292], [129295], [128072], [128073], [128070], [128071], [9757, 65039], [128075], [129306],
     [128400, 65039], [9995], [128406], [128079], [128588], [128080], [129330], [129309], [128591],
     [9997, 65039], [128133], [129331], [128170]]"

definition HEARTS :: "emoji list" where
  "HEARTS =
    [[10084, 65039], [129505], [128155], [128154], [128153], [128156], [128420], [129293], [129294], [128148],
     [10084, 65039, 8205, 128293], [10084, 65039, 8205, 129657], [128149], [128158], [128147], [128151],
     [128150], [128152], [128157], [128159], [128140], [128162], [128165], [128171], [128166], [128168],
     [128371, 65039], [128172], [128065, 65039, 8205, 128488, 65039], [128488, 65039], [128495, 65039],
     [128173]]"

definition OBJECTS :: "emoji list" where
  "OBJECTS =
    [[127881], [127882], [127880], [127873], [127872], [129669], [129670], [127942], [129351], [129352],
     [129353], [9917], [9918], [129358], [127936], [127952], [127944], [127945], [127934], [129359],
     [127923], [127951], [127953], [127954], [129357], [127955], [127992], [129354], [129355], [129349],
     [9971], [128293], [11088], [127775], [10024], [9889], [128161], [128294], [127982], [129684], [128241],
     [128187], [8986], [128247], [128250], [128251], [127925], [127926], [128640]]"

definition REACTION_EMOJIS :: "emoji list" where
  "REACTION_EMOJIS = QUICK_EMOJIS @ SMILEYS @ GESTURES @ HEARTS @ OBJECTS"

section \<open>GIFs\<close>

text \<open>\<^verbatim>\<open>[A-Za-z0-9_-]\<close>\<close>

definition gif_char :: "char \<Rightarrow> bool" where
  "gif_char c \<longleftrightarrow> (let n = of_char c :: nat in (65 \<le> n \<and> n \<le> 90) \<or> (97 \<le> n \<and> n \<le> 122) \<or> (48 \<le> n \<and> n \<le> 57) \<or> n = 95 \<or> n = 45)"

definition parseGif :: "string \<Rightarrow> string option" where
  "parseGif text =
     (let t = trim text; i = drop 2 t in
      if starts_with t ''g:'' \<and> i \<noteq> [] \<and> list_all gif_char i then Some i else None)"

definition giphyUrlForId :: "string \<Rightarrow> string" where
  "giphyUrlForId gifId = ''https://media.giphy.com/media/'' @ gifId @ ''/giphy.gif''"

section \<open>Reactions\<close>

text \<open>\<^verbatim>\<open>[0-9a-f]\<close>\<close>

definition lower_hex :: "char \<Rightarrow> bool" where
  "lower_hex c \<longleftrightarrow> (let n = of_char c :: nat in (48 \<le> n \<and> n \<le> 57) \<or> (97 \<le> n \<and> n \<le> 102))"

record parsed_reaction =
  pr_emoji :: emoji
  pr_targetHash :: string

definition parseReaction :: "string \<Rightarrow> parsed_reaction option" where
  "parseReaction text =
     (let t = trim text; hash = take 4 (drop 2 t); digits = drop 7 t in
      if length t = 9 \<and> starts_with t ''r:'' \<and> list_all lower_hex hash \<and> t ! 6 = CHR '':'' \<and> list_all lower_hex digits
      then (case parse_int16 digits of
              None \<Rightarrow> None
            | Some index \<Rightarrow>
                if index < 0 \<or> int (length REACTION_EMOJIS) \<le> index then None
                else Some \<lparr> pr_emoji = REACTION_EMOJIS ! nat index, pr_targetHash = hash \<rparr>)
      else None)"

section \<open>Reply prefix\<close>

record split_reply =
  sr_mention :: string
  sr_body :: string

definition splitReplyMention :: "string \<Rightarrow> split_reply option" where
  "splitReplyMention text =
     (let t = trim text; name = takeWhile (\<lambda>c. c \<noteq> CHR '']'') (drop 2 t); rest = drop (2 + length name) t;
          body = dropWhile is_ws (drop 1 rest)
      in if starts_with t ''@['' \<and> name \<noteq> [] \<and> rest \<noteq> [] \<and> length body < length (drop 1 rest) \<and> body \<noteq> []
         then Some \<lparr> sr_mention = ''@['' @ name @ '']'', sr_body = body \<rparr> else None)"

section \<open>The Dart hash\<close>

text \<open>JavaScript's bitwise operators on numbers: operands are taken modulo \<open>2 ^ 32\<close> as signed integers, and
  \<^verbatim>\<open>>>> 0\<close> reads the result as an unsigned one.\<close>

definition js_int32 :: "int \<Rightarrow> int" where
  "js_int32 x = signed_take_bit 31 x"

definition js_uint32 :: "int \<Rightarrow> int" where
  "js_uint32 x = take_bit 32 x"

definition js_shl :: "int \<Rightarrow> nat \<Rightarrow> int" where
  "js_shl x n = js_int32 (push_bit n (js_int32 x))"

definition js_ushr :: "int \<Rightarrow> nat \<Rightarrow> int" where
  "js_ushr x n = drop_bit n (js_uint32 x)"

definition js_xor :: "int \<Rightarrow> int \<Rightarrow> int" where
  "js_xor x y = js_int32 x XOR js_int32 y"

definition js_band :: "int \<Rightarrow> int \<Rightarrow> int" where
  "js_band x y = js_int32 x AND js_int32 y"

definition dart_step :: "int \<Rightarrow> char \<Rightarrow> int" where
  "dart_step hash c =
     (let h1 = js_uint32 (hash + of_char c);
          h2 = js_uint32 (h1 + js_shl h1 10)
      in js_uint32 (js_xor h2 (js_ushr h2 6)))"

definition dartStringHash :: "string \<Rightarrow> int" where
  "dartStringHash s =
     (let hash = foldl dart_step 0 s;
          h1 = js_uint32 (hash + js_shl hash 3);
          h2 = js_uint32 (js_xor h1 (js_ushr h1 11));
          h3 = js_uint32 (h2 + js_shl h2 15);
          h4 = js_band h3 0x3fffffff
      in if h4 = 0 then 1 else h4)"

definition computeReactionHash :: "nat \<Rightarrow> string option \<Rightarrow> string \<Rightarrow> string" where
  "computeReactionHash timestampSeconds senderName text =
     (let input = show_nat timestampSeconds @ coalesce senderName [] @ take 5 text
      in pad_start 4 CHR ''0'' (show_base 16 (nat (js_band (dartStringHash input) 0xffff))))"

definition encodeReaction :: "emoji \<Rightarrow> nat \<Rightarrow> string option \<Rightarrow> string \<Rightarrow> string option" where
  "encodeReaction emoji timestampSeconds senderName text =
     map_option (\<lambda>index. ''r:'' @ computeReactionHash timestampSeconds senderName text @ '':''
         @ pad_start 2 CHR ''0'' (show_base 16 index))
       (find_index (\<lambda>e. e = emoji) REACTION_EMOJIS)"

section \<open>Pasted links\<close>

definition strip_prefix :: "string \<Rightarrow> string \<Rightarrow> string option" where
  "strip_prefix p s = (if starts_with s p then Some (drop (length p) s) else None)"

definition strip_optional :: "string list \<Rightarrow> string \<Rightarrow> string" where
  "strip_optional ps s = (case find (starts_with s) ps of Some p \<Rightarrow> drop (length p) s | None \<Rightarrow> s)"

definition is_digit :: "char \<Rightarrow> bool" where
  "is_digit c \<longleftrightarrow> (let n = of_char c :: nat in 48 \<le> n \<and> n \<le> 57)"

text \<open>\<^verbatim>\<open>(?:[A-Za-z0-9_-]+\/)?([A-Za-z0-9_-]+)\/giphy\.gif\<close>: with the optional segment first, then without it.\<close>

definition media_id :: "string \<Rightarrow> string option" where
  "media_id s =
     (let first_seg = takeWhile gif_char s; rest1 = dropWhile gif_char s;
          second_seg = takeWhile gif_char (drop 1 rest1); rest2 = dropWhile gif_char (drop 1 rest1)
      in if first_seg \<noteq> [] \<and> starts_with rest1 ''/'' \<and> second_seg \<noteq> [] \<and> starts_with rest2 ''/giphy.gif'' then Some second_seg
         else if first_seg \<noteq> [] \<and> starts_with rest1 ''/giphy.gif'' then Some first_seg else None)"

definition giphy_media :: "string \<Rightarrow> string option" where
  "giphy_media text =
     (case strip_prefix ''media'' (strip_optional [''https://'', ''http://''] text) of
        None \<Rightarrow> None
      | Some s \<Rightarrow> (case strip_prefix ''.giphy.com/media/'' (dropWhile is_digit s) of None \<Rightarrow> None | Some r \<Rightarrow> media_id r))"

text \<open>\<^verbatim>\<open>(?:[A-Za-z0-9_-]*-)?([A-Za-z0-9_-]+)\/?$\<close>: the greedy prefix ends at the last dash that leaves something.\<close>

definition after_last_dash :: "string \<Rightarrow> string" where
  "after_last_dash run = rev (last run # takeWhile (\<lambda>c. c \<noteq> CHR ''-'') (tl (rev run)))"

definition giphy_page :: "string \<Rightarrow> string option" where
  "giphy_page text =
     (case strip_prefix ''giphy.com/gifs/'' (strip_optional [''www.''] (strip_optional [''https://'', ''http://''] text)) of
        None \<Rightarrow> None
      | Some s \<Rightarrow>
          (let run = takeWhile gif_char s; rest = dropWhile gif_char s
           in if run \<noteq> [] \<and> (rest = [] \<or> rest = ''/'') then Some (after_last_dash run) else None))"

definition gifIdFromInput :: "string \<Rightarrow> string option" where
  "gifIdFromInput text =
     (let trimmed = trim text in
      case parseGif trimmed of
        Some i \<Rightarrow> Some i
      | None \<Rightarrow> (case giphy_media trimmed of Some i \<Rightarrow> Some i | None \<Rightarrow> giphy_page trimmed))"

section \<open>The hash on machine words\<close>

text \<open>The Dart VM computes the hash on 32-bit words (Jenkins one-at-a-time): the reference the port has to meet.\<close>

definition jenkins_step :: "32 word \<Rightarrow> char \<Rightarrow> 32 word" where
  "jenkins_step hash c = (let h1 = hash + of_nat (of_char c); h2 = h1 + push_bit 10 h1 in h2 XOR drop_bit 6 h2)"

definition jenkins_final :: "32 word \<Rightarrow> 32 word" where
  "jenkins_final hash = (let h1 = hash + push_bit 3 hash; h2 = h1 XOR drop_bit 11 h1 in h2 + push_bit 15 h2)"

definition dart_hash :: "string \<Rightarrow> 32 word" where
  "dart_hash s = (let h = jenkins_final (foldl jenkins_step 0 s) AND 0x3fffffff in if h = 0 then 1 else h)"

lemma js_uint32_word: "js_uint32 x = uint (word_of_int x :: 32 word)"
  by (simp add: js_uint32_def unsigned_of_int)

lemma bit_js_int32: "n < 32 \<Longrightarrow> bit (js_int32 x) n \<longleftrightarrow> bit x n"
proof -
  assume "n < 32"
  then have "min n 31 = n" by simp
  then show ?thesis by (simp add: js_int32_def bit_signed_take_bit_iff)
qed

lemma word_js_int32 [simp]: "(word_of_int (js_int32 x) :: 32 word) = word_of_int x"
  by (rule bit_word_eqI) (simp add: bit_word_of_int_iff bit_js_int32)

lemma word_js_shl: "(word_of_int (js_shl x n) :: 32 word) = push_bit n (word_of_int x)"
  by (rule bit_word_eqI) (auto simp: js_shl_def bit_word_of_int_iff bit_js_int32 bit_push_bit_iff)

lemma word_js_xor: "(word_of_int (js_xor x y) :: 32 word) = word_of_int x XOR word_of_int y"
  by (rule bit_word_eqI) (simp add: js_xor_def bit_word_of_int_iff bit_js_int32 bit_xor_iff)

lemma word_js_band: "(word_of_int (js_band x y) :: 32 word) = word_of_int x AND word_of_int y"
  by (rule bit_word_eqI) (simp add: js_band_def bit_word_of_int_iff bit_js_int32 bit_and_iff)

lemma word_js_ushr: "(word_of_int (js_ushr (uint w) n) :: 32 word) = drop_bit n w"
  by (rule bit_word_eqI)
    (auto simp: js_ushr_def js_uint32_def bit_word_of_int_iff bit_drop_bit_eq bit_take_bit_iff bit_uint_iff dest: bit_imp_le_length)

lemma word_of_char: "(word_of_int (of_char c) :: 32 word) = of_nat (of_char c)"
  by (metis of_int_of_nat_eq of_nat_of_char)

lemma dart_step_word: "dart_step (uint h) c = uint (jenkins_step h c)"
proof -
  have "js_uint32 (uint h + of_char c) = uint (h + of_nat (of_char c))"
    by (simp add: js_uint32_word word_of_char)
  then show ?thesis
    by (simp add: dart_step_def jenkins_step_def Let_def js_uint32_word word_js_xor word_js_ushr word_js_shl)
qed

lemma dart_fold_word: "foldl dart_step (uint h) s = uint (foldl jenkins_step h s)"
  by (induction s arbitrary: h) (simp_all add: dart_step_word)

lemma js_band_mask:
  assumes "0 \<le> m" and "m < 2 ^ 31"
  shows "js_band x m = uint ((word_of_int x :: 32 word) AND word_of_int m)" and "0 \<le> js_band x m" and "js_band x m \<le> m"
proof -
  have m: "js_int32 m = m" using assms by (simp add: js_int32_def signed_take_bit_int_eq_self)
  show b: "0 \<le> js_band x m" "js_band x m \<le> m" using assms(1) by (simp_all add: js_band_def m)
  have "take_bit 32 (js_band x m) = js_band x m"
    using b assms(2) by (simp add: take_bit_int_eq_self)
  with b show "js_band x m = uint ((word_of_int x :: 32 word) AND word_of_int m)"
    by (simp add: word_js_band [symmetric] unsigned_of_int)
qed

text \<open>C34. The port of the Dart string hash on JavaScript numbers, with its mix of signed shifts and unsigned reads, computes
  the hash of the Dart virtual machine on 32-bit words, and a positive number below \<open>2 ^ 30\<close>.\<close>

theorem dartStringHash_eq:
  "dartStringHash s = uint (dart_hash s) \<and> 0 < dartStringHash s \<and> dartStringHash s < 2 ^ 30"
proof -
  define w where "w = jenkins_final (foldl jenkins_step 0 s)"
  have fold: "foldl dart_step 0 s = uint (foldl jenkins_step 0 s)" using dart_fold_word [of 0 s] by simp
  define h3 where "h3 = uint w"
  have body: "dartStringHash s = (let h4 = js_band h3 0x3fffffff in if h4 = 0 then 1 else h4)"
    by (simp add: dartStringHash_def fold h3_def w_def jenkins_final_def Let_def js_uint32_word word_js_xor word_js_ushr word_js_shl)
  have mask: "js_band h3 0x3fffffff = uint (w AND 0x3fffffff)" "0 \<le> js_band h3 0x3fffffff" "js_band h3 0x3fffffff \<le> 0x3fffffff"
    using js_band_mask [of "0x3fffffff" h3] by (simp_all add: h3_def)
  moreover have "0 < uint v" if "v \<noteq> 0" for v :: "32 word"
    using that by (metis order_le_less uint_0_iff unsigned_greater_eq)
  ultimately show ?thesis
    unfolding body dart_hash_def w_def [symmetric] by (auto simp: Let_def uint_0_iff)
qed

section \<open>Reactions\<close>

lemma digit_char_lower_hex: "d < 16 \<Longrightarrow> lower_hex (digit_char d) \<and> \<not> is_ws (digit_char d) \<and> digit_val (digit_char d) = Some d"
  by (auto simp: digit_val_digit_char) (auto simp: lower_hex_def digit_char_def is_ws_def Let_def split: if_splits)

lemma show_hex_lower: "list_all lower_hex (show_base 16 n)" "\<not> list_ex is_ws (show_base 16 n)"
  using show_base_digits [of 16 _ n] digit_char_lower_hex by (fastforce simp: list_all_iff list_ex_iff)+

lemma length_show_hex: "n < 16 ^ Suc k \<Longrightarrow> length (show_base 16 n) \<le> Suc k"
proof (induction k arbitrary: n)
  case 0
  then show ?case by (subst show_base.simps) simp
next
  case (Suc k)
  show ?case
  proof (cases "n < 16")
    case True
    then show ?thesis by (subst show_base.simps) simp
  next
    case False
    from Suc.prems have "n div 16 < 16 ^ Suc k" by (simp add: less_mult_imp_div_less mult.commute)
    from Suc.IH [OF this] False show ?thesis by (subst show_base.simps) simp
  qed
qed

lemma pad_hex_lower: "list_all lower_hex (pad_start k CHR ''0'' (show_base 16 n))"
  using show_hex_lower(1) [of n] by (auto simp: pad_start_def list_all_iff lower_hex_def)

lemma length_pad_hex: "n < 16 ^ k \<Longrightarrow> 0 < k \<Longrightarrow> length (pad_start k c (show_base 16 n)) = k"
  using length_show_hex [of n "k - 1"] by (simp add: pad_start_def)

lemma digits_val_zero: "digits_val b (CHR ''0'' # s) = digits_val b s"
  by (simp add: digits_val.simps digit_val_def)

lemma digits_val_pad: "digits_val 16 (pad_start k CHR ''0'' (show_base 16 n)) = n"
proof -
  have "digits_val 16 (replicate j CHR ''0'' @ s) = digits_val 16 s" for j s
    by (induction j) (simp_all add: digits_val_zero)
  then show ?thesis by (simp add: pad_start_def digits_val_show_base)
qed

lemma lower_hex_val: "lower_hex c \<Longrightarrow> digit_val c \<noteq> None \<and> \<not> is_ws c \<and> c \<noteq> CHR ''-'' \<and> c \<noteq> CHR ''+'' \<and> c \<noteq> CHR ''x'' \<and> c \<noteq> CHR ''X''"
  by (auto simp: lower_hex_def digit_val_def is_ws_def Let_def)

lemma parse_hex_digits:
  assumes "list_all lower_hex s" and "s \<noteq> []"
  shows "parse_int16 s = Some (int (digits_val 16 s))"
proof -
  obtain c t where s: "s = c # t" using assms(2) by (cases s) auto
  have c: "\<not> is_ws c" "c \<noteq> CHR ''-''" "c \<noteq> CHR ''+''" using assms(1) lower_hex_val [of c] by (auto simp: s)
  have "\<not> starts_with s ''0x'' \<and> \<not> starts_with s ''0X''"
    using assms(1) lower_hex_val by (cases t) (auto simp: s starts_with_def)
  moreover have "takeWhile (\<lambda>c. digit_val c \<noteq> None) s = s"
    using assms(1) lower_hex_val by (intro takeWhile_eq_all_conv [THEN iffD2]) (auto simp: list_all_iff)
  ultimately show ?thesis using c by (simp add: parse_int16_def Let_def s)
qed

lemma trim_id: "s \<noteq> [] \<Longrightarrow> \<not> is_ws (hd s) \<Longrightarrow> \<not> is_ws (last s) \<Longrightarrow> trim s = s"
  by (cases s) (auto simp: trim_def hd_rev [symmetric] dropWhile_eq_self_iff)

lemma length_reaction_emojis: "length REACTION_EMOJIS = 184"
  by (simp add: REACTION_EMOJIS_def QUICK_EMOJIS_def SMILEYS_def GESTURES_def HEARTS_def OBJECTS_def)

lemma reaction_hash_shape:
  "length (computeReactionHash ts sender text) = 4 \<and> list_all lower_hex (computeReactionHash ts sender text)"
proof -
  define h where "h = dartStringHash (show_nat ts @ coalesce sender [] @ take 5 text)"
  have "nat (js_band h 0xffff) < 16 ^ 4" using js_band_mask(2,3) [of "0xffff" h] by simp
  from length_pad_hex [OF this] show ?thesis
    by (simp add: computeReactionHash_def Let_def h_def [symmetric] pad_hex_lower)
qed

text \<open>C35. A reaction that is sent is read back as the same emoji with the same target hash, for every emoji of the table; other
  emoji cannot be sent. The payload is always nine characters long.\<close>

theorem reaction_roundtrip:
  "(case encodeReaction emoji ts sender text of
      None \<Rightarrow> emoji \<notin> set REACTION_EMOJIS
    | Some payload \<Rightarrow> length payload = 9 \<and> emoji \<in> set REACTION_EMOJIS
        \<and> parseReaction payload = Some \<lparr> pr_emoji = emoji, pr_targetHash = computeReactionHash ts sender text \<rparr>)"
proof (cases "find_index (\<lambda>e. e = emoji) REACTION_EMOJIS")
  case None
  then have "emoji \<notin> set REACTION_EMOJIS" by (auto simp: find_index_None)
  with None show ?thesis by (simp add: encodeReaction_def)
next
  case (Some i)
  from find_index_Some [OF Some] have i: "i < 184" "REACTION_EMOJIS ! i = emoji"
    by (simp_all add: length_reaction_emojis)
  define hash digits where "hash = computeReactionHash ts sender text" and "digits = pad_start 2 CHR ''0'' (show_base 16 i)"
  have hash: "length hash = 4" "list_all lower_hex hash" using reaction_hash_shape by (simp_all add: hash_def)
  have digits: "length digits = 2" "list_all lower_hex digits"
    using length_pad_hex [of i 2] i(1) by (simp_all add: digits_def pad_hex_lower)
  then have digits': "digits \<noteq> []" by auto
  define payload where "payload = ''r:'' @ hash @ '':'' @ digits"
  have "\<not> is_ws (last payload)" "\<not> is_ws (hd payload)"
    using digits digits' lower_hex_val by (auto simp: payload_def list_all_iff is_ws_def)
  then have "trim payload = payload" by (intro trim_id) (simp_all add: payload_def)
  moreover have "payload ! 6 = CHR '':''" "take 4 (drop 2 payload) = hash" "drop 7 payload = digits" "length payload = 9"
    using hash(1) digits(1) by (simp_all add: payload_def nth_append)
  moreover have "parse_int16 digits = Some (int i)"
    using parse_hex_digits [OF digits(2) digits'] by (simp add: digits_def digits_val_pad)
  ultimately have "parseReaction payload = Some \<lparr> pr_emoji = emoji, pr_targetHash = hash \<rparr>"
    using hash(2) digits(2) i by (simp add: parseReaction_def Let_def starts_with_def payload_def length_reaction_emojis)
  moreover have "emoji \<in> set REACTION_EMOJIS" using i length_reaction_emojis nth_mem by force
  ultimately show ?thesis
    using \<open>length payload = 9\<close> Some by (simp add: encodeReaction_def payload_def hash_def digits_def)
qed

end
