(* ===== verification/Text_Replace.thy ===== *)
theory Text_Replace
  imports Js_Strings
begin

text \<open>
  Text replacement while typing (\<^verbatim>\<open>utils/textReplace.ts\<close>): the validation of a replacement map and the scan that replaces
  the longest matching key at each position and moves the cursor along.

  A map is given as the value \<^verbatim>\<open>JSON.parse\<close> makes of its text; the entries of an object come in the order of
  \<^verbatim>\<open>Object.entries\<close>.
\<close>

section \<open>Validation\<close>

datatype replace_error =
    Not_object
  | Not_strings
  | Re_expands string string
  | Invalid_json

fun string_entries :: "(string \<times> json) list \<Rightarrow> (string \<times> string) list option" where
  "string_entries [] = Some []"
| "string_entries ((k, v) # es) =
     (case v of JStr s \<Rightarrow> map_option ((#) (k, s)) (string_entries es) | _ \<Rightarrow> None)"

text \<open>The first key that occurs in a replacement, with that replacement.\<close>

definition re_expansion :: "(string \<times> string) list \<Rightarrow> (string \<times> string) option" where
  "re_expansion entries =
     find (\<lambda>(needle, replacement). needle \<noteq> [] \<and> str_includes replacement needle)
       (concat (map (\<lambda>(needle, _). map (\<lambda>(_, replacement). (needle, replacement)) entries) entries))"

text \<open>The error that is returned (\<^verbatim>\<open>null\<close>, here \<open>None\<close>, for success) and the map that is stored afterwards. A storage that
  throws ends in the same \<^verbatim>\<open>catch\<close> as a text that does not parse.\<close>

definition setTextReplaceMapJson :: "bool \<Rightarrow> json option \<Rightarrow> json option \<Rightarrow> replace_error option \<times> json option" where
  "setTextReplaceMapJson available parsed stored =
     (case parsed of
        None \<Rightarrow> (Some Invalid_json, stored)
      | Some (JObj members) \<Rightarrow>
          (case string_entries members of
             None \<Rightarrow> (Some Not_strings, stored)
           | Some entries \<Rightarrow>
               (case re_expansion entries of
                  Some (needle, replacement) \<Rightarrow> (Some (Re_expands needle replacement), stored)
                | None \<Rightarrow> if available then (None, parsed) else (Some Invalid_json, stored)))
      | Some _ \<Rightarrow> (Some Not_object, stored))"

section \<open>Replacement\<close>

definition buildReplacements :: "(string \<times> string) list \<Rightarrow> (string \<times> string) list" where
  "buildReplacements entries =
     sort_by (\<lambda>a b. length (fst b) \<le> length (fst a)) (filter (\<lambda>(k, _). k \<noteq> []) entries)"

record scan_state =
  sc_i :: nat
  sc_result :: string
  sc_newCursor :: int

definition match_at :: "(string \<times> string) list \<Rightarrow> string \<Rightarrow> nat \<Rightarrow> (string \<times> string) option" where
  "match_at replacements text i = find (\<lambda>(needle, _). starts_with (drop i text) needle) replacements"

text \<open>One round of the loop.\<close>

definition scan_step :: "(string \<times> string) list \<Rightarrow> string \<Rightarrow> nat \<Rightarrow> scan_state \<Rightarrow> scan_state" where
  "scan_step replacements text cursorPos s =
     (case match_at replacements text (sc_i s) of
        Some (needle, replacement) \<Rightarrow>
          (let result = sc_result s @ replacement in
           \<lparr> sc_i = sc_i s + length needle, sc_result = result,
             sc_newCursor =
               (if sc_i s + length needle \<le> cursorPos then sc_newCursor s + (int (length replacement) - int (length needle))
                else if sc_i s < cursorPos then int (length result)
                else sc_newCursor s) \<rparr>)
      | None \<Rightarrow> s\<lparr> sc_i := sc_i s + 1, sc_result := sc_result s @ [text ! sc_i s] \<rparr>)"

partial_function (option) scan_loop :: "(string \<times> string) list \<Rightarrow> string \<Rightarrow> nat \<Rightarrow> scan_state \<Rightarrow> scan_state option" where
  "scan_loop replacements text cursorPos s =
     (if sc_i s < length text then scan_loop replacements text cursorPos (scan_step replacements text cursorPos s) else Some s)"

declare scan_loop.simps [code]

text \<open>The outer option is whether the loop ends, the inner one the \<^verbatim>\<open>null\<close> of the source. The entries are those of a stored map,
  which has passed the validation; \<open>None\<close> is a map that does not parse.\<close>

definition applyTextReplacements :: "(string \<times> string) list option \<Rightarrow> string \<Rightarrow> nat \<Rightarrow> (string \<times> int) option option" where
  "applyTextReplacements entries text cursorPos =
     (let replacements = (case entries of Some es \<Rightarrow> buildReplacements es | None \<Rightarrow> []) in
      if replacements = [] then Some None
      else map_option (\<lambda>s. if sc_result s = text then None else Some (sc_result s, sc_newCursor s))
             (scan_loop replacements text cursorPos \<lparr> sc_i = 0, sc_result = [], sc_newCursor = int cursorPos \<rparr>))"

section \<open>Segments of a text\<close>

text \<open>The reference: the text is cut from the left into the longest keys that match and single characters, each with what
  replaces it.\<close>

type_synonym segment = "string \<times> string"

abbreviation seg_in :: "segment list \<Rightarrow> string" where "seg_in segs \<equiv> concat (map fst segs)"
abbreviation seg_out :: "segment list \<Rightarrow> string" where "seg_out segs \<equiv> concat (map snd segs)"

definition longest_match :: "(string \<times> string) list \<Rightarrow> segment \<Rightarrow> string \<Rightarrow> bool" where
  "longest_match entries seg text \<longleftrightarrow>
     (if \<exists>(k, _) \<in> set entries. k \<noteq> [] \<and> prefix k text
      then seg \<in> set entries \<and> fst seg \<noteq> [] \<and> prefix (fst seg) text
        \<and> (\<forall>(k, _) \<in> set entries. prefix k text \<longrightarrow> length k \<le> length (fst seg))
      else seg = ([hd text], [hd text]))"

inductive segmented :: "(string \<times> string) list \<Rightarrow> string \<Rightarrow> segment list \<Rightarrow> bool" for entries where
  seg_end: "segmented entries [] []"
| seg_next: "text \<noteq> [] \<Longrightarrow> longest_match entries seg text \<Longrightarrow> segmented entries (drop (length (fst seg)) text) segs \<Longrightarrow>
    segmented entries text (seg # segs)"

lemma longest_match_prefix: "text \<noteq> [] \<Longrightarrow> longest_match entries seg text \<Longrightarrow> prefix (fst seg) text \<and> fst seg \<noteq> []"
  by (cases "text") (auto simp: longest_match_def split: if_splits)

lemma segmented_in: "segmented entries text segs \<Longrightarrow> seg_in segs = text"
proof (induction rule: segmented.induct)
  case (seg_next "text" seg segs)
  then show ?case using longest_match_prefix [of "text" entries seg] by (auto simp: prefix_def)
qed simp

text \<open>Where the cursor goes: behind the first segment that reaches it.\<close>

fun cursor_after :: "nat \<Rightarrow> segment list \<Rightarrow> nat" where
  "cursor_after cursor [] = cursor"
| "cursor_after cursor (seg # segs) =
     (if cursor = 0 then 0
      else if cursor \<le> length (fst seg) then length (snd seg)
      else length (snd seg) + cursor_after (cursor - length (fst seg)) segs)"

section \<open>The scan\<close>

lemma sorted_build: "sorted_wrt (\<lambda>a b. length (fst b) \<le> length (fst a)) (buildReplacements entries)"
  unfolding buildReplacements_def by (rule sorted_sort_by) (auto simp: transp_def)

lemma set_build: "set (buildReplacements entries) = {e \<in> set entries. fst e \<noteq> []}"
  by (auto simp: buildReplacements_def)

lemma find_sorted_longest:
  assumes "sorted_wrt (\<lambda>a b. length (fst b) \<le> length (fst a)) es" and "find P es = Some e"
  shows "\<forall>e' \<in> set es. P e' \<longrightarrow> length (fst e') \<le> length (fst e)"
  using assms by (induction es) (auto split: if_splits)

lemma match_at_longest:
  assumes "i < length text"
  shows "case match_at (buildReplacements entries) text i of
      Some seg \<Rightarrow> longest_match entries seg (drop i text)
    | None \<Rightarrow> longest_match entries ([text ! i], [text ! i]) (drop i text)"
proof (cases "match_at (buildReplacements entries) text i")
  case None
  then have "\<forall>e \<in> set entries. fst e \<noteq> [] \<longrightarrow> \<not> prefix (fst e) (drop i text)"
    by (auto simp: match_at_def find_None_iff set_build starts_with_iff)
  with None assms show ?thesis by (auto simp: longest_match_def hd_drop_conv_nth)
next
  case (Some seg)
  then have seg: "seg \<in> set entries" "fst seg \<noteq> []" "prefix (fst seg) (drop i text)"
    by (auto simp: match_at_def find_Some_iff set_build starts_with_iff dest: nth_mem)
  moreover have "length k \<le> length (fst seg)" if "(k, v) \<in> set entries" "prefix k (drop i text)" for k v
  proof (cases "k = []")
    case False
    with that have "(k, v) \<in> set (buildReplacements entries)" by (simp add: set_build)
    with find_sorted_longest [OF sorted_build Some [unfolded match_at_def]] that(2) show ?thesis
      by (force simp: starts_with_iff)
  qed simp
  ultimately show ?thesis using Some by (auto simp: longest_match_def)
qed

lemma cursor_after_zero [simp]: "cursor_after 0 segs = 0"
  by (cases segs) simp_all

text \<open>What one round does: it takes the next segment.\<close>

lemma scan_step_segment:
  assumes "sc_i s < length text"
  obtains seg where "longest_match entries seg (drop (sc_i s) text)"
    and "sc_i (scan_step (buildReplacements entries) text cursorPos s) = sc_i s + length (fst seg)"
    and "sc_result (scan_step (buildReplacements entries) text cursorPos s) = sc_result s @ snd seg"
    and "sc_newCursor (scan_step (buildReplacements entries) text cursorPos s) =
      (if sc_i s + length (fst seg) \<le> cursorPos then sc_newCursor s + (int (length (snd seg)) - int (length (fst seg)))
       else if sc_i s < cursorPos then int (length (sc_result s) + length (snd seg)) else sc_newCursor s)"
proof (cases "match_at (buildReplacements entries) text (sc_i s)")
  case None
  with match_at_longest [OF assms, of entries] that [of "([text ! sc_i s], [text ! sc_i s])"] show ?thesis
    by (simp add: scan_step_def)
next
  case (Some seg)
  with match_at_longest [OF assms, of entries] that [of seg] show ?thesis
    by (simp add: scan_step_def Let_def case_prod_unfold)
qed

lemma scan_loop_segments:
  "sc_i s \<le> length text \<Longrightarrow>
     \<exists>segs s'. segmented entries (drop (sc_i s) text) segs
       \<and> scan_loop (buildReplacements entries) text cursorPos s = Some s' \<and> sc_result s' = sc_result s @ seg_out segs
       \<and> (cursorPos < sc_i s \<longrightarrow> sc_newCursor s' = sc_newCursor s)
       \<and> (sc_i s \<le> cursorPos \<longrightarrow> sc_newCursor s = int (length (sc_result s)) + int (cursorPos - sc_i s) \<longrightarrow>
            sc_newCursor s' = int (length (sc_result s)) + int (cursor_after (cursorPos - sc_i s) segs))"
proof (induction "length text - sc_i s" arbitrary: s rule: less_induct)
  case less
  show ?case
  proof (cases "sc_i s < length text")
    case False
    with less.prems show ?thesis
      by (intro exI [of _ "[]"] exI [of _ s]) (simp add: scan_loop.simps seg_end)
  next
    case True
    let ?s = "scan_step (buildReplacements entries) text cursorPos s"
    obtain seg where seg: "longest_match entries seg (drop (sc_i s) text)" "sc_i ?s = sc_i s + length (fst seg)"
        "sc_result ?s = sc_result s @ snd seg"
      and cur: "sc_newCursor ?s =
      (if sc_i s + length (fst seg) \<le> cursorPos then sc_newCursor s + (int (length (snd seg)) - int (length (fst seg)))
       else if sc_i s < cursorPos then int (length (sc_result s) + length (snd seg)) else sc_newCursor s)"
      using scan_step_segment [OF True, of entries cursorPos] by blast
    from True have rest: "drop (sc_i s) text \<noteq> []" by simp
    from longest_match_prefix [OF rest seg(1)] have pos: "0 < length (fst seg)" and le: "sc_i ?s \<le> length text"
      using True by (auto simp: seg(2) dest: prefix_length_le)
    with True have "length text - sc_i ?s < length text - sc_i s" unfolding seg(2) by linarith
    from less.hyps [OF this le] obtain segs s' where
      IH: "segmented entries (drop (sc_i ?s) text) segs" "scan_loop (buildReplacements entries) text cursorPos ?s = Some s'"
        "sc_result s' = sc_result ?s @ seg_out segs" "cursorPos < sc_i ?s \<longrightarrow> sc_newCursor s' = sc_newCursor ?s"
        "sc_i ?s \<le> cursorPos \<longrightarrow> sc_newCursor ?s = int (length (sc_result ?s)) + int (cursorPos - sc_i ?s) \<longrightarrow>
            sc_newCursor s' = int (length (sc_result ?s)) + int (cursor_after (cursorPos - sc_i ?s) segs)" by blast
    have "segmented entries (drop (sc_i s) text) (seg # segs)"
      using seg_next [OF rest seg(1)] IH(1) by (simp add: seg(2) add.commute)
    moreover have "scan_loop (buildReplacements entries) text cursorPos s = Some s'"
      using True IH(2) by (subst scan_loop.simps) simp
    ultimately show ?thesis
      using IH(3-5) pos cur by (intro exI [of _ "seg # segs"] exI [of _ s']) (auto simp: seg(2,3) of_nat_diff)
  qed
qed

lemma replacements_segmented:
  "\<exists>segs. segmented entries text segs \<and>
     applyTextReplacements (Some entries) text cursorPos =
       Some (if seg_out segs = text then None else Some (seg_out segs, int (cursor_after cursorPos segs)))"
proof -
  let ?s = "\<lparr> sc_i = 0, sc_result = [], sc_newCursor = int cursorPos \<rparr>"
  obtain segs s' where s': "segmented entries text segs"
      "scan_loop (buildReplacements entries) text cursorPos ?s = Some s'" "sc_result s' = seg_out segs"
      "sc_newCursor s' = int (cursor_after cursorPos segs)"
    using scan_loop_segments [of ?s "text" entries cursorPos] by auto
  have "seg_out segs = text" if "buildReplacements entries = []"
  proof -
    from that have "\<forall>e \<in> set entries. fst e = []" using set_build [of entries] by auto
    then have none: "longest_match entries seg u \<longleftrightarrow> seg = ([hd u], [hd u])" for seg u
      by (auto simp: longest_match_def)
    from s'(1) show ?thesis
      by (induction rule: segmented.induct) (auto simp: none neq_Nil_conv)
  qed
  with s' show ?thesis by (intro exI [of _ segs]) (auto simp: applyTextReplacements_def Let_def)
qed

text \<open>C11. The scan always ends. Its result is the text cut from the left into the longest keys that match and single
  characters, with every key replaced; the cursor moves behind the replacement of the first segment that reaches
  it; and nothing is reported exactly when nothing changed or there is no key.\<close>

theorem applyTextReplacements_spec:
  "\<exists>segs. segmented entries text segs \<and> seg_in segs = text \<and>
     applyTextReplacements (Some entries) text cursorPos =
       Some (if seg_out segs = text then None else Some (seg_out segs, int (cursor_after cursorPos segs)))"
  using replacements_segmented [of entries "text" cursorPos] segmented_in by blast

section \<open>What the validation prevents\<close>

lemma accepted_no_key:
  assumes "setTextReplaceMapJson available (Some (JObj members)) stored = (None, stored')"
    and "string_entries members = Some entries" and "(k, v) \<in> set entries" "k \<noteq> []" "(k', r) \<in> set entries"
  shows "\<not> str_includes r k"
proof -
  from assms(1,2) have "re_expansion entries = None" by (auto simp: setTextReplaceMapJson_def split: option.splits if_splits)
  with assms(3-5) show ?thesis by (fastforce simp: re_expansion_def find_None_iff)
qed

lemma str_includes_single: "c \<in> set s \<Longrightarrow> str_includes s [c]"
  by (induction s) (auto simp: starts_with_iff)

lemma singles_longest:
  assumes singles: "\<forall>(k, _) \<in> set entries. length k \<le> 1" and m: "longest_match entries seg text" "text \<noteq> []"
  shows "seg = ([hd text], [hd text]) \<and> (\<forall>(k, _) \<in> set entries. k \<noteq> [hd text])
    \<or> seg \<in> set entries \<and> fst seg = [hd text]"
proof (cases "seg \<in> set entries \<and> fst seg \<noteq> []")
  case True
  with singles have "length (fst seg) = 1" by (cases "fst seg") auto
  with longest_match_prefix [OF m(2,1)] m(2) have "fst seg = [hd text]"
    by (cases "text"; cases "fst seg") auto
  with True show ?thesis by blast
next
  case False
  with m show ?thesis by (cases "text") (auto simp: longest_match_def split: if_splits)
qed

lemma singles_no_key_left:
  assumes singles: "\<forall>(k, _) \<in> set entries. length k \<le> 1"
    and clean: "\<forall>(k, _) \<in> set entries. \<forall>(_, r) \<in> set entries. k \<noteq> [] \<longrightarrow> \<not> str_includes r k"
  shows "segmented entries text segs \<Longrightarrow> \<forall>c \<in> set (seg_out segs). \<forall>(k, _) \<in> set entries. k \<noteq> [c]"
proof (induction rule: segmented.induct)
  case (seg_next "text" seg segs)
  have own: "\<forall>(k, _) \<in> set entries. k \<noteq> [c]" if "c \<in> set (snd seg)" for c
    using singles_longest [OF singles seg_next.hyps(2,1)]
  proof
    assume "seg \<in> set entries \<and> fst seg = [hd text]"
    with clean have "\<forall>(k, _) \<in> set entries. k \<noteq> [] \<longrightarrow> \<not> str_includes (snd seg) k" by (cases seg) fastforce
    moreover have "str_includes (snd seg) [c]" using that by (rule str_includes_single)
    ultimately show ?thesis by fastforce
  qed (use that in auto)
  show ?case
  proof (rule ballI)
    fix c assume "c \<in> set (seg_out (seg # segs))"
    then have "c \<in> set (snd seg) \<or> c \<in> set (seg_out segs)" by simp
    then show "\<forall>(k, _) \<in> set entries. k \<noteq> [c]" using own seg_next.IH by blast
  qed
qed simp

lemma singles_identity:
  assumes singles: "\<forall>(k, _) \<in> set entries. length k \<le> 1"
  shows "segmented entries text segs \<Longrightarrow> \<forall>c \<in> set text. \<forall>(k, _) \<in> set entries. k \<noteq> [c] \<Longrightarrow> seg_out segs = text"
proof (induction rule: segmented.induct)
  case (seg_next "text" seg segs)
  then have "seg = ([hd text], [hd text])"
    using singles_longest [OF singles seg_next.hyps(2,1)] by (cases "text"; cases seg) fastforce+
  with seg_next show ?case by (cases "text") auto
qed simp

text \<open>With a stored map whose keys are single characters, such as the default one, a text that has been replaced is
  stable: replacing it again, with the cursor anywhere, reports no change.\<close>

theorem single_keys_stable:
  assumes "setTextReplaceMapJson available (Some (JObj members)) stored = (None, stored')"
    and "string_entries members = Some entries" and "\<forall>(k, _) \<in> set entries. length k \<le> 1"
    and "applyTextReplacements (Some entries) text cursorPos = Some (Some (text', cursor'))"
  shows "applyTextReplacements (Some entries) text' d = Some None"
proof -
  obtain segs where segs: "segmented entries text segs" "text' = seg_out segs"
    using replacements_segmented [of entries "text" cursorPos] assms(4) by (auto split: if_splits)
  have "\<forall>(k, _) \<in> set entries. \<forall>(_, r) \<in> set entries. k \<noteq> [] \<longrightarrow> \<not> str_includes r k"
    using accepted_no_key [OF assms(1,2)] by blast
  from singles_no_key_left [OF assms(3) this segs(1)]
  have "\<forall>c \<in> set text'. \<forall>(k, _) \<in> set entries. k \<noteq> [c]" by (simp add: segs(2))
  with singles_identity [OF assms(3)] replacements_segmented [of entries text' d] show ?thesis by fastforce
qed

theorem single_keys_stable_witness:
  "setTextReplaceMapJson True (Some (JObj [(''a'', JStr ''b'')])) None = (None, Some (JObj [(''a'', JStr ''b'')]))
   \<and> applyTextReplacements (Some [(''a'', ''b'')]) ''aca'' 1 = Some (Some (''bcb'', 1))
   \<and> applyTextReplacements (Some [(''a'', ''b'')]) ''bcb'' 0 = Some None"
proof -
  have 1: "setTextReplaceMapJson True (Some (JObj [(''a'', JStr ''b'')])) None = (None, Some (JObj [(''a'', JStr ''b'')]))"
    by code_simp
  have 2: "applyTextReplacements (Some [(''a'', ''b'')]) ''aca'' 1 = Some (Some (''bcb'', 1))" by code_simp
  show ?thesis using 1 2 single_keys_stable [OF 1 _ _ 2, of 0] by simp
qed

text \<open>A key of two characters escapes the validation: the map below is accepted, no key occurs in a replacement, and
  still the text that one keystroke leaves is replaced again at the next.\<close>

theorem accepted_map_re_expands:
  "setTextReplaceMapJson True (Some (JObj [(''a'', JStr ''x''), (''xy'', JStr ''z'')])) None
     = (None, Some (JObj [(''a'', JStr ''x''), (''xy'', JStr ''z'')]))
   \<and> applyTextReplacements (Some [(''a'', ''x''), (''xy'', ''z'')]) ''ay'' 2 = Some (Some (''xy'', 2))
   \<and> applyTextReplacements (Some [(''a'', ''x''), (''xy'', ''z'')]) ''xy'' 2 = Some (Some (''z'', 1))"
  by (intro conjI; code_simp)

end
