(* ===== verification/Api_Client.thy ===== *)
theory Api_Client
  imports Js_Strings
begin

text \<open>
  The transport of the API client (\<^verbatim>\<open>api.ts\<close>: \<^verbatim>\<open>ApiError\<close>, \<^verbatim>\<open>fetchJson\<close>, \<^verbatim>\<open>isAbortError\<close>) and the startup prefetch
  (\<^verbatim>\<open>prefetch.ts\<close>). A response is what the server and the network make of a request; what the client makes of a
  response is the model.
\<close>

section \<open>Errors\<close>

text \<open>What a \<^verbatim>\<open>catch\<close> can receive: the client's own error, another \<^verbatim>\<open>Error\<close> by name, a \<^verbatim>\<open>DOMException\<close>, or a value that is
  no error.\<close>

datatype thrown =
    Api_error string nat
  | Js_error string string
  | Dom_exception string string
  | Thrown_value

text \<open>\<^verbatim>\<open>err instanceof Error ? err.message : fallback\<close>; the prototype of a \<^verbatim>\<open>DOMException\<close> inherits from \<^verbatim>\<open>Error\<close>.\<close>

fun error_message :: "string \<Rightarrow> thrown \<Rightarrow> string" where
  "error_message fallback (Api_error message _) = message"
| "error_message fallback (Js_error _ message) = message"
| "error_message fallback (Dom_exception _ message) = message"
| "error_message fallback Thrown_value = fallback"

definition client_error :: "thrown \<Rightarrow> bool" where
  "client_error err \<longleftrightarrow> (case err of Api_error _ status \<Rightarrow> 400 \<le> status \<and> status < 500 | _ \<Rightarrow> False)"

fun isAbortError :: "thrown \<Rightarrow> bool" where
  "isAbortError (Dom_exception name _) \<longleftrightarrow> name = ''AbortError''"
| "isAbortError (Js_error name _) \<longleftrightarrow> name = ''AbortError''"
| "isAbortError (Api_error _ _) \<longleftrightarrow> False"
| "isAbortError Thrown_value \<longleftrightarrow> False"

section \<open>Responses\<close>

text \<open>\<^verbatim>\<open>String(value)\<close>, which \<^verbatim>\<open>Error\<close> applies to its message; the printing of numbers is a parameter.\<close>

fun js_to_string :: "(real \<Rightarrow> string) \<Rightarrow> json \<Rightarrow> string"
  and js_elements :: "(real \<Rightarrow> string) \<Rightarrow> json list \<Rightarrow> string list" where
  "js_to_string num JNull = ''null''"
| "js_to_string num (JBool b) = (if b then ''true'' else ''false'')"
| "js_to_string num (JNum r) = num r"
| "js_to_string num (JStr s) = s"
| "js_to_string num (JArr xs) = join '','' (js_elements num xs)"
| "js_to_string num (JObj _) = ''[object Object]''"
| "js_elements num [] = []"
| "js_elements num (x # xs) = (if x = JNull then [] else js_to_string num x) # js_elements num xs"

fun json_truthy :: "json \<Rightarrow> bool" where
  "json_truthy JNull \<longleftrightarrow> False"
| "json_truthy (JBool b) \<longleftrightarrow> b"
| "json_truthy (JNum r) \<longleftrightarrow> r \<noteq> 0"
| "json_truthy (JStr s) \<longleftrightarrow> s \<noteq> []"
| "json_truthy (JArr _) \<longleftrightarrow> True"
| "json_truthy (JObj _) \<longleftrightarrow> True"

text \<open>What \<^verbatim>\<open>fetch\<close> gives: it rejects, or a response arrives with its status, its status text, its body and what
  \<^verbatim>\<open>JSON.parse\<close> makes of the body.\<close>

record http_response =
  rs_status :: nat
  rs_statusText :: string
  rs_body :: string
  rs_parsed :: "json option"

definition rs_ok :: "http_response \<Rightarrow> bool" where
  "rs_ok res \<longleftrightarrow> 200 \<le> rs_status res \<and> rs_status res \<le> 299"

definition response_error :: "(real \<Rightarrow> string) \<Rightarrow> http_response \<Rightarrow> thrown" where
  "response_error num res =
     (let errorMessage = (if rs_body res \<noteq> [] then rs_body res else rs_statusText res) in
      case rs_parsed res of
        Some (JObj members) \<Rightarrow>
          (case map_of members ''detail'' of
             Some detail \<Rightarrow>
               Api_error (if json_truthy detail then js_to_string num detail else errorMessage) (rs_status res)
           | None \<Rightarrow> Api_error errorMessage (rs_status res))
      | _ \<Rightarrow> Api_error errorMessage (rs_status res))"

definition fetchJson :: "(real \<Rightarrow> string) \<Rightarrow> (thrown + http_response) \<Rightarrow> thrown + json" where
  "fetchJson num answer =
     (case answer of
        Inl err \<Rightarrow> Inl err
      | Inr res \<Rightarrow>
          if \<not> rs_ok res then Inl (response_error num res)
          else (case rs_parsed res of Some j \<Rightarrow> Inr j | None \<Rightarrow> Inl (Js_error ''SyntaxError'' ''Unexpected token'')))"



section \<open>Prefetched promises\<close>

text \<open>The store holds one settled promise per key; a key is consumed by the first caller.\<close>

type_synonym 'a prefetch_store = "(string, thrown + 'a) jsmap"

definition takePrefetch :: "string \<Rightarrow> 'a prefetch_store \<Rightarrow> (thrown + 'a) option \<times> 'a prefetch_store" where
  "takePrefetch key store = (jm_get store key, jm_delete key store)"

definition takePrefetchOrFetch :: "string \<Rightarrow> (thrown + 'a) \<Rightarrow> 'a prefetch_store \<Rightarrow> (thrown + 'a) \<times> 'a prefetch_store" where
  "takePrefetchOrFetch key fallback store =
     (case takePrefetch key store of
        (None, store') \<Rightarrow> (fallback, store')
      | (Some (Inr v), store') \<Rightarrow> (Inr v, store')
      | (Some (Inl _), store') \<Rightarrow> (fallback, store'))"

text \<open>The latest page prefetched for the conversation of the startup address; any opened conversation consumes it.\<close>

definition takePrefetchedMessages :: "string \<Rightarrow> (string \<times> 'p) option \<Rightarrow> 'p option \<times> (string \<times> 'p) option" where
  "takePrefetchedMessages conversationKey entry =
     (case entry of
        Some (k, promise) \<Rightarrow> (if k = conversationKey then Some promise else None, None)
      | None \<Rightarrow> (None, None))"

lemma prefetch_once: "fst (takePrefetchOrFetch key fallback (snd (takePrefetchOrFetch key fb store))) = fallback"
  by (auto simp: takePrefetchOrFetch_def takePrefetch_def jm_get_delete split: option.splits sum.splits)

end
