(* ===== verification/Repeater_Dashboard.thy ===== *)
theory Repeater_Dashboard
  imports App_Types Api_Client Recency
begin

text \<open>
  The repeater dashboard (\<^verbatim>\<open>hooks/useRepeaterDashboard.ts\<close>) with the login attempts of \<^verbatim>\<open>utils/serverLoginState.ts\<close>: nine
  panes fetched on request with bounded retries, the login, the console, and the module-level cache that lets a
  dashboard be reopened.

  An \<^verbatim>\<open>async\<close> function is cut at its \<^verbatim>\<open>await\<close>s. A call in flight is a task that holds what the rest of the function
  needs; an answer or a timer resumes it. Tasks of several calls interleave in any order, and a component that
  has been unmounted leaves its tasks behind.
\<close>

section \<open>Data\<close>

datatype pane_name =
  P_status | P_nodeInfo | P_neighbors | P_acl | P_radioSettings | P_advertIntervals | P_ownerInfo | P_lppTelemetry | P_regions

record pane_state =
  ps_loading :: bool
  ps_attempt :: nat
  ps_error :: "string option"
  ps_fetched_at :: "nat option"

definition INITIAL_PANE_STATE :: pane_state where
  "INITIAL_PANE_STATE = \<lparr> ps_loading = False, ps_attempt = 0, ps_error = None, ps_fetched_at = None \<rparr>"

record console_entry =
  ce_command :: string
  ce_response :: string
  ce_timestamp :: nat
  ce_outgoing :: bool

text \<open>A record over the nine panes is a function of the pane; the data of a pane is the JSON the server sent.\<close>

type_synonym pane_data = "pane_name \<Rightarrow> json option"
type_synonym pane_states = "pane_name \<Rightarrow> pane_state"

definition createInitialPaneStates :: pane_states where
  "createInitialPaneStates = (\<lambda>_. INITIAL_PANE_STATE)"

definition createInitialPaneData :: pane_data where
  "createInitialPaneData = (\<lambda>_. None)"

definition normalizePaneStates :: "pane_states \<Rightarrow> pane_states" where
  "normalizePaneStates states = (\<lambda>p. (states p)\<lparr> ps_loading := False \<rparr>)"

section \<open>Login attempts\<close>

datatype login_method = Method_password | Method_blank
datatype login_outcome = Confirmed | Not_confirmed | Request_failed
datatype login_tone = Tone_success | Tone_warning | Tone_destructive | Tone_muted

record login_attempt =
  la_method :: login_method
  la_outcome :: login_outcome
  la_summary :: string
  la_details :: "string option"
  la_heardBack :: bool
  la_at :: nat

record login_response =
  lr_status :: string
  lr_authenticated :: bool
  lr_message :: "string option"

definition getServerLoginMethodLabel :: "login_method \<Rightarrow> string" where
  "getServerLoginMethodLabel method = (if method = Method_password then ''password'' else ''existing-access'')"

definition getServerLoginAttemptTone :: "login_attempt option \<Rightarrow> login_tone" where
  "getServerLoginAttemptTone attempt =
     (case attempt of
        None \<Rightarrow> Tone_muted
      | Some a \<Rightarrow>
          (case la_outcome a of Confirmed \<Rightarrow> Tone_success | Not_confirmed \<Rightarrow> Tone_warning | Request_failed \<Rightarrow> Tone_destructive))"

definition buildServerLoginAttemptFromResponse :: "login_method \<Rightarrow> login_response \<Rightarrow> string \<Rightarrow> nat \<Rightarrow> login_attempt" where
  "buildServerLoginAttemptFromResponse method result entityLabel now =
     (let methodLabel = getServerLoginMethodLabel method; target = ''the '' @ entityLabel in
      if lr_authenticated result then
        \<lparr> la_method = method, la_outcome = Confirmed, la_summary = ''Login confirmed by '' @ target @ ''.'',
          la_details = None, la_heardBack = True, la_at = now \<rparr>
      else if lr_status result = ''timeout'' then
        \<lparr> la_method = method, la_outcome = Not_confirmed, la_summary = ''We couldn't confirm the login.'',
          la_details = Some (coalesce (lr_message result)
            (''No confirmation came back from '' @ target @ '' after the '' @ methodLabel @ '' login attempt.'')),
          la_heardBack = False, la_at = now \<rparr>
      else
        \<lparr> la_method = method, la_outcome = Not_confirmed, la_summary = ''Login was not confirmed.'',
          la_details = Some (coalesce (lr_message result)
            (target @ '' responded, but did not confirm the '' @ methodLabel @ '' login attempt.'')),
          la_heardBack = True, la_at = now \<rparr>)"

definition buildServerLoginAttemptFromError :: "login_method \<Rightarrow> string \<Rightarrow> string \<Rightarrow> nat \<Rightarrow> login_attempt" where
  "buildServerLoginAttemptFromError method message entityLabel now =
     (let methodLabel = getServerLoginMethodLabel method; target = ''the '' @ entityLabel in
      \<lparr> la_method = method, la_outcome = Request_failed, la_summary = ''We couldn't send the login request.'',
        la_details = Some (target @ '' never acknowledged the '' @ methodLabel @ '' login attempt. '' @ message),
        la_heardBack = False, la_at = now \<rparr>)"

definition getLoginToastTitle :: "string \<Rightarrow> string" where
  "getLoginToastTitle status =
     (if status = ''timeout'' then ''Login confirmation not heard''
      else if status = ''error'' then ''Login not confirmed''
      else ''Repeater login not confirmed'')"

section \<open>The dashboard cache\<close>

definition MAX_RETRIES :: nat where "MAX_RETRIES = 3"
definition MAX_CACHED_REPEATERS :: nat where "MAX_CACHED_REPEATERS = 20"

record dash_entry =
  de_loggedIn :: bool
  de_loginError :: "string option"
  de_lastLoginAttempt :: "login_attempt option"
  de_paneData :: pane_data
  de_paneStates :: pane_states
  de_consoleHistory :: "console_entry list"

type_synonym dash_cache = "(string, dash_entry) jsmap"

text \<open>The copies that the source makes are values here.\<close>

definition normalize_entry :: "dash_entry \<Rightarrow> dash_entry" where
  "normalize_entry e = e\<lparr> de_paneStates := normalizePaneStates (de_paneStates e) \<rparr>"

definition getCachedState :: "string option \<Rightarrow> dash_cache \<Rightarrow> dash_entry option \<times> dash_cache" where
  "getCachedState publicKey cache =
     (case or_null publicKey of
        None \<Rightarrow> (None, cache)
      | Some k \<Rightarrow>
          (case jm_get cache k of
             None \<Rightarrow> (None, cache)
           | Some cached \<Rightarrow> (Some (normalize_entry cached), touch k cached cache)))"

text \<open>The least recently used key is the first of the iteration. An empty key is falsy and would not be evicted; the
  hook never stores one.\<close>

definition cacheState :: "string \<Rightarrow> dash_entry \<Rightarrow> dash_cache \<Rightarrow> dash_cache" where
  "cacheState publicKey entry cache =
     (let m = touch publicKey (normalize_entry entry) cache in
      if MAX_CACHED_REPEATERS < length m then
        (let lruKey = fst (hd m) in if lruKey \<noteq> [] then jm_delete lruKey m else m)
      else m)"

section \<open>The hook\<close>

record dash =
  d_conversation :: "conversation option"
  d_hasAdvertLocation :: bool
  d_activeIdRef :: "string option"
  d_mounted :: bool
  d_loggedIn :: bool
  d_loginLoading :: bool
  d_loginError :: "string option"
  d_lastLoginAttempt :: "login_attempt option"
  d_paneData :: pane_data
  d_paneStates :: pane_states
  d_paneDataRef :: pane_data
  d_paneStatesRef :: pane_states
  d_consoleHistory :: "console_entry list"
  d_consoleLoading :: bool
  d_toasts :: "(string \<times> string) list"
  d_requests :: "pane_name list"

text \<open>The last two fields are a log: the error toasts shown and the pane requests sent.\<close>

definition contact_id :: "conversation option \<Rightarrow> string option" where
  "contact_id conv = (case conv of Some c \<Rightarrow> if cv_type c = Cv_contact then Some (cv_id c) else None | None \<Rightarrow> None)"

definition getPublicKey :: "dash \<Rightarrow> string option" where
  "getPublicKey d = contact_id (d_conversation d)"

text \<open>The first render of a dashboard, from what the cache holds, and its mount effects.\<close>

definition dash_open :: "conversation option \<Rightarrow> bool \<Rightarrow> dash_cache \<Rightarrow> dash \<times> dash_cache" where
  "dash_open conv located cache =
     (let (cached, cache') = getCachedState (contact_id conv) cache;
          dat = (case cached of Some e \<Rightarrow> de_paneData e | None \<Rightarrow> createInitialPaneData);
          states = (case cached of Some e \<Rightarrow> de_paneStates e | None \<Rightarrow> createInitialPaneStates) in
      (\<lparr> d_conversation = conv, d_hasAdvertLocation = located, d_activeIdRef = contact_id conv, d_mounted = True,
         d_loggedIn = (case cached of Some e \<Rightarrow> de_loggedIn e | None \<Rightarrow> False), d_loginLoading = False,
         d_loginError = (case cached of Some e \<Rightarrow> de_loginError e | None \<Rightarrow> None),
         d_lastLoginAttempt = (case cached of Some e \<Rightarrow> de_lastLoginAttempt e | None \<Rightarrow> None),
         d_paneData = dat, d_paneStates = states, d_paneDataRef = dat, d_paneStatesRef = states,
         d_consoleHistory = (case cached of Some e \<Rightarrow> de_consoleHistory e | None \<Rightarrow> []), d_consoleLoading = False,
         d_toasts = [], d_requests = [] \<rparr>, cache'))"

definition dash_entry_of :: "dash \<Rightarrow> dash_entry" where
  "dash_entry_of d = \<lparr> de_loggedIn = d_loggedIn d, de_loginError = d_loginError d,
     de_lastLoginAttempt = d_lastLoginAttempt d, de_paneData = d_paneData d, de_paneStates = d_paneStates d,
     de_consoleHistory = d_consoleHistory d \<rparr>"

text \<open>A render reads the cache, and its effect stores the state when there is a contact.\<close>

definition dash_render :: "dash \<Rightarrow> dash_cache \<Rightarrow> dash_cache" where
  "dash_render d cache =
     (if \<not> d_mounted d then cache
      else (let cache' = snd (getCachedState (getPublicKey d) cache) in
            case or_null (getPublicKey d) of
              None \<Rightarrow> cache'
            | Some k \<Rightarrow> cacheState k (dash_entry_of d) cache'))"

definition dash_toast :: "string \<Rightarrow> string \<Rightarrow> dash \<Rightarrow> dash" where
  "dash_toast title description d = d\<lparr> d_toasts := d_toasts d @ [(title, description)] \<rparr>"

subsection \<open>Panes\<close>

definition set_pane_state :: "pane_name \<Rightarrow> pane_state \<Rightarrow> dash \<Rightarrow> dash" where
  "set_pane_state p st d =
     d\<lparr> d_paneStatesRef := (d_paneStatesRef d)(p := st), d_paneStates := (d_paneStates d)(p := st) \<rparr>"

definition set_pane_data :: "pane_name \<Rightarrow> json \<Rightarrow> dash \<Rightarrow> dash" where
  "set_pane_data p data d =
     d\<lparr> d_paneDataRef := (d_paneDataRef d)(p := Some data), d_paneData := (d_paneData d)(p := Some data) \<rparr>"

definition alive :: "string \<Rightarrow> dash \<Rightarrow> bool" where
  "alive conversationId d \<longleftrightarrow> d_mounted d \<and> d_activeIdRef d = Some conversationId"

text \<open>Where a \<^verbatim>\<open>refreshPane\<close> returns to: the \<^verbatim>\<open>refreshPane('neighbors')\<close> that prefetches the node info, or the loop of
  \<^verbatim>\<open>loadAll\<close> with the panes that are left.\<close>

datatype frame = Resume_neighbors | Resume_load "pane_name list"

datatype task_phase = Fetching | Waiting

text \<open>A \<^verbatim>\<open>refreshPane\<close> in flight: it waits for the answer of an attempt, or for the retry delay after one.\<close>

record pane_task =
  pt_key :: string
  pt_located :: bool
  pt_pane :: pane_name
  pt_attempt :: nat
  pt_phase :: task_phase
  pt_frames :: "frame list"

text \<open>One round of the retry loop up to the request.\<close>

definition attempt_pane :: "string \<Rightarrow> bool \<Rightarrow> pane_name \<Rightarrow> nat \<Rightarrow> frame list \<Rightarrow> dash \<Rightarrow> dash \<times> pane_task option" where
  "attempt_pane key located p attempt frames d =
     (let d' = set_pane_state p
           \<lparr> ps_loading = True, ps_attempt = attempt, ps_error = None, ps_fetched_at = ps_fetched_at (d_paneStatesRef d p) \<rparr> d in
      (d'\<lparr> d_requests := d_requests d' @ [p] \<rparr>,
       Some \<lparr> pt_key = key, pt_located = located, pt_pane = p, pt_attempt = attempt, pt_phase = Fetching, pt_frames = frames \<rparr>))"

definition needsNodeInfoPrefetch :: "dash \<Rightarrow> bool" where
  "needsNodeInfoPrefetch d \<longleftrightarrow>
     ps_error (d_paneStatesRef d P_nodeInfo) \<noteq> None
     \<or> ps_fetched_at (d_paneStatesRef d P_nodeInfo) = None \<and> d_paneDataRef d P_nodeInfo = None"

text \<open>\<^verbatim>\<open>refreshPane\<close> up to its first request, on a dashboard that is alive.\<close>

definition start_pane :: "string \<Rightarrow> bool \<Rightarrow> pane_name \<Rightarrow> frame list \<Rightarrow> dash \<Rightarrow> dash \<times> pane_task option" where
  "start_pane key located p frames d =
     (if p = P_neighbors \<and> \<not> located \<and> needsNodeInfoPrefetch d
      then attempt_pane key located P_nodeInfo 1 (Resume_neighbors # frames) d
      else attempt_pane key located p 1 frames d)"

text \<open>A \<^verbatim>\<open>refreshPane\<close> has returned. On a dashboard that is no longer alive every further call returns at once.\<close>

fun resume :: "string \<Rightarrow> bool \<Rightarrow> frame list \<Rightarrow> dash \<Rightarrow> dash \<times> pane_task option" where
  "resume key located [] d = (d, None)"
| "resume key located (Resume_neighbors # frames) d =
     (if alive key d then attempt_pane key located P_neighbors 1 frames d else resume key located frames d)"
| "resume key located (Resume_load [] # frames) d = resume key located frames d"
| "resume key located (Resume_load (p # ps) # frames) d =
     (if alive key d then start_pane key located p (Resume_load ps # frames) d else resume key located frames d)"

definition refreshPane :: "pane_name \<Rightarrow> dash \<Rightarrow> dash \<times> pane_task option" where
  "refreshPane p d =
     (case or_null (getPublicKey d) of
        None \<Rightarrow> (d, None)
      | Some key \<Rightarrow> resume key (d_hasAdvertLocation d) [Resume_load [p]] d)"

definition all_panes :: "pane_name list" where
  "all_panes = [P_status, P_nodeInfo, P_neighbors, P_radioSettings, P_acl, P_advertIntervals, P_ownerInfo, P_lppTelemetry, P_regions]"

definition loadAll :: "dash \<Rightarrow> dash \<times> pane_task option" where
  "loadAll d =
     (case or_null (getPublicKey d) of
        None \<Rightarrow> (d, None)
      | Some key \<Rightarrow> resume key (d_hasAdvertLocation d) [Resume_load all_panes] d)"

text \<open>The answer of an attempt, and the end of the retry delay.\<close>

definition pane_name_str :: "pane_name \<Rightarrow> string" where
  "pane_name_str p =
     (case p of P_status \<Rightarrow> ''status'' | P_nodeInfo \<Rightarrow> ''nodeInfo'' | P_neighbors \<Rightarrow> ''neighbors'' | P_acl \<Rightarrow> ''acl''
      | P_radioSettings \<Rightarrow> ''radioSettings'' | P_advertIntervals \<Rightarrow> ''advertIntervals'' | P_ownerInfo \<Rightarrow> ''ownerInfo''
      | P_lppTelemetry \<Rightarrow> ''lppTelemetry'' | P_regions \<Rightarrow> ''regions'')"

definition pane_answer :: "thrown + json \<Rightarrow> nat \<Rightarrow> pane_task \<Rightarrow> dash \<Rightarrow> dash \<times> pane_task option" where
  "pane_answer answer now t d =
     (if \<not> alive (pt_key t) d then resume (pt_key t) (pt_located t) (pt_frames t) d
      else case answer of
        Inr data \<Rightarrow>
          resume (pt_key t) (pt_located t) (pt_frames t)
            (set_pane_state (pt_pane t)
               \<lparr> ps_loading = False, ps_attempt = pt_attempt t, ps_error = None, ps_fetched_at = Some now \<rparr>
               (set_pane_data (pt_pane t) data d))
      | Inl err \<Rightarrow>
          (let msg = error_message ''Request failed'' err in
           if pt_attempt t = MAX_RETRIES \<or> client_error err then
             resume (pt_key t) (pt_located t) (pt_frames t)
               (dash_toast (''Failed to fetch '' @ pane_name_str (pt_pane t)) msg
                  (set_pane_state (pt_pane t)
                     \<lparr> ps_loading = False, ps_attempt = pt_attempt t, ps_error = Some msg,
                       ps_fetched_at = ps_fetched_at (d_paneStatesRef d (pt_pane t)) \<rparr> d))
           else (d, Some (t\<lparr> pt_phase := Waiting \<rparr>))))"

definition pane_timer :: "pane_task \<Rightarrow> dash \<Rightarrow> dash \<times> pane_task option" where
  "pane_timer t d =
     (if Suc (pt_attempt t) \<le> MAX_RETRIES \<and> alive (pt_key t) d
      then attempt_pane (pt_key t) (pt_located t) (pt_pane t) (Suc (pt_attempt t)) (pt_frames t) d
      else resume (pt_key t) (pt_located t) (pt_frames t) d)"

subsection \<open>Login\<close>

datatype dash_task =
    Pane_call pane_task
  | Login_call string login_method
  | Console_call string string nat

definition login :: "string \<Rightarrow> dash \<Rightarrow> dash \<times> dash_task option" where
  "login password d =
     (case or_null (getPublicKey d) of
        None \<Rightarrow> (d, None)
      | Some key \<Rightarrow>
          (d\<lparr> d_loginLoading := True, d_loginError := None \<rparr>,
           Some (Login_call key (if trim password \<noteq> [] then Method_password else Method_blank))))"

abbreviation loginAsGuest :: "dash \<Rightarrow> dash \<times> dash_task option" where
  "loginAsGuest \<equiv> login []"

definition login_answer :: "thrown + login_response \<Rightarrow> nat \<Rightarrow> string \<Rightarrow> login_method \<Rightarrow> dash \<Rightarrow> dash" where
  "login_answer answer now key method d =
     (if d_activeIdRef d \<noteq> Some key then d
      else (case answer of
          Inr result \<Rightarrow>
            (let d1 = d\<lparr> d_lastLoginAttempt := Some (buildServerLoginAttemptFromResponse method result ''repeater'' now),
                         d_loggedIn := True \<rparr> in
             if lr_authenticated result then d1
             else (let msg = coalesce (lr_message result) ''Repeater login was not confirmed'' in
                   dash_toast (getLoginToastTitle (lr_status result)) msg (d1\<lparr> d_loginError := Some msg \<rparr>)))
        | Inl err \<Rightarrow>
            (let msg = error_message ''Login failed'' err in
             dash_toast ''Login request failed''
               (msg @ ''. The dashboard is still available, but repeater operations may fail until a login succeeds.'')
               (d\<lparr> d_lastLoginAttempt := Some (buildServerLoginAttemptFromError method msg ''repeater'' now),
                   d_loggedIn := True, d_loginError := Some msg \<rparr>)))\<lparr> d_loginLoading := False \<rparr>)"

definition resetLogin :: "dash \<Rightarrow> dash" where
  "resetLogin d = d\<lparr> d_loggedIn := False, d_loginError := None, d_lastLoginAttempt := None \<rparr>"

subsection \<open>Console\<close>

record command_response =
  cr_command :: string
  cr_response :: string
  cr_sender_timestamp :: "nat option"

definition sendConsoleCommand :: "string \<Rightarrow> nat \<Rightarrow> dash \<Rightarrow> dash \<times> dash_task option" where
  "sendConsoleCommand command now_ms d =
     (case or_null (getPublicKey d) of
        None \<Rightarrow> (d, None)
      | Some key \<Rightarrow>
          (let now = now_ms div 1000 in
           (d\<lparr> d_consoleHistory := d_consoleHistory d @
                 [\<lparr> ce_command = command, ce_response = [], ce_timestamp = now, ce_outgoing = True \<rparr>],
               d_consoleLoading := True \<rparr>, Some (Console_call key command now))))"

definition command_answer :: "thrown + command_response \<Rightarrow> string \<Rightarrow> string \<Rightarrow> nat \<Rightarrow> dash \<Rightarrow> dash" where
  "command_answer answer key command now d =
     (if d_activeIdRef d \<noteq> Some key then d
      else d\<lparr> d_consoleHistory := d_consoleHistory d @
             [case answer of
                Inr result \<Rightarrow> \<lparr> ce_command = command, ce_response = cr_response result,
                  ce_timestamp = coalesce (cr_sender_timestamp result) now, ce_outgoing = False \<rparr>
              | Inl err \<Rightarrow> \<lparr> ce_command = command, ce_response = ''Error: '' @ error_message ''Command failed'' err,
                  ce_timestamp = now, ce_outgoing = False \<rparr>],
           d_consoleLoading := False \<rparr>)"

definition sendZeroHopAdvert :: "nat \<Rightarrow> dash \<Rightarrow> dash \<times> dash_task option" where
  "sendZeroHopAdvert = sendConsoleCommand ''advert.zerohop''"

definition sendFloodAdvert :: "nat \<Rightarrow> dash \<Rightarrow> dash \<times> dash_task option" where
  "sendFloodAdvert = sendConsoleCommand ''advert''"

definition rebootRepeater :: "nat \<Rightarrow> dash \<Rightarrow> dash \<times> dash_task option" where
  "rebootRepeater = sendConsoleCommand ''reboot''"

definition syncClock :: "nat \<Rightarrow> dash \<Rightarrow> dash \<times> dash_task option" where
  "syncClock now_ms = sendConsoleCommand (''time '' @ show_nat (now_ms div 1000)) now_ms"

section \<open>The running dashboard\<close>

text \<open>The mounted hook, the cache of the module and the calls in flight, by number. A dashboard that replaces another
  one starts without calls: the answers to the calls of the component that is gone change nothing that is shown or
  cached (a late login answer still shows its toast, which is left out).\<close>

record dash_sys =
  ds_hook :: dash
  ds_cache :: dash_cache
  ds_tasks :: "(nat, dash_task) jsmap"
  ds_next :: nat

datatype dash_event =
    Open_dash "conversation option" bool
  | Close_dash
  | Locate bool
  | Refresh pane_name
  | Load_all
  | Pane_answered nat "thrown + json" nat
  | Pane_delay_over nat
  | Log_in string
  | Login_answered nat "thrown + login_response" nat
  | Reset_login
  | Send_command string nat
  | Command_answered nat "thrown + command_response"

text \<open>The hook after a piece of a function, and the call it leaves in flight.\<close>

definition install :: "dash \<times> dash_task option \<Rightarrow> dash_sys \<Rightarrow> dash_sys" where
  "install r s =
     (case snd r of
        None \<Rightarrow> s\<lparr> ds_hook := fst r \<rparr>
      | Some t \<Rightarrow> s\<lparr> ds_hook := fst r, ds_tasks := jm_set (ds_next s) t (ds_tasks s), ds_next := Suc (ds_next s) \<rparr>)"

definition drop_task :: "nat \<Rightarrow> dash_sys \<Rightarrow> dash_sys" where
  "drop_task i s = s\<lparr> ds_tasks := jm_delete i (ds_tasks s) \<rparr>"

abbreviation pane_result :: "dash \<times> pane_task option \<Rightarrow> dash \<times> dash_task option" where
  "pane_result r \<equiv> map_prod id (map_option Pane_call) r"

fun dash_act :: "dash_event \<Rightarrow> dash_sys \<Rightarrow> dash_sys" where
  "dash_act (Open_dash conv located) s =
     (let (d, cache) = dash_open conv located (ds_cache s) in
      s\<lparr> ds_hook := d, ds_cache := cache, ds_tasks := [] \<rparr>)"
| "dash_act Close_dash s = s\<lparr> ds_hook := (ds_hook s)\<lparr> d_mounted := False \<rparr> \<rparr>"
| "dash_act (Locate located) s = s\<lparr> ds_hook := (ds_hook s)\<lparr> d_hasAdvertLocation := located \<rparr> \<rparr>"
| "dash_act (Refresh p) s = install (pane_result (refreshPane p (ds_hook s))) s"
| "dash_act Load_all s = install (pane_result (loadAll (ds_hook s))) s"
| "dash_act (Pane_answered i answer now) s =
     (case jm_get (ds_tasks s) i of
        Some (Pane_call t) \<Rightarrow>
          if pt_phase t = Fetching then install (pane_result (pane_answer answer now t (ds_hook s))) (drop_task i s) else s
      | _ \<Rightarrow> s)"
| "dash_act (Pane_delay_over i) s =
     (case jm_get (ds_tasks s) i of
        Some (Pane_call t) \<Rightarrow>
          if pt_phase t = Waiting then install (pane_result (pane_timer t (ds_hook s))) (drop_task i s) else s
      | _ \<Rightarrow> s)"
| "dash_act (Log_in password) s = install (login password (ds_hook s)) s"
| "dash_act (Login_answered i answer now) s =
     (case jm_get (ds_tasks s) i of
        Some (Login_call key method) \<Rightarrow> install (login_answer answer now key method (ds_hook s), None) (drop_task i s)
      | _ \<Rightarrow> s)"
| "dash_act Reset_login s = s\<lparr> ds_hook := resetLogin (ds_hook s) \<rparr>"
| "dash_act (Send_command command now_ms) s = install (sendConsoleCommand command now_ms (ds_hook s)) s"
| "dash_act (Command_answered i answer) s =
     (case jm_get (ds_tasks s) i of
        Some (Console_call key command now) \<Rightarrow> install (command_answer answer key command now (ds_hook s), None) (drop_task i s)
      | _ \<Rightarrow> s)"

definition dash_step :: "dash_event \<Rightarrow> dash_sys \<Rightarrow> dash_sys" where
  "dash_step ev s = (let s' = dash_act ev s in s'\<lparr> ds_cache := dash_render (ds_hook s') (ds_cache s') \<rparr>)"

definition dash_start :: "conversation option \<Rightarrow> bool \<Rightarrow> dash_sys" where
  "dash_start conv located =
     (let s = \<lparr> ds_hook = fst (dash_open conv located []), ds_cache = [], ds_tasks = [], ds_next = 0 \<rparr> in
      s\<lparr> ds_cache := dash_render (ds_hook s) (ds_cache s) \<rparr>)"

inductive dash_reachable :: "dash_sys \<Rightarrow> bool" where
  dash_first: "dash_reachable (dash_start conv located)"
| dash_next: "dash_reachable s \<Longrightarrow> dash_reachable (dash_step ev s)"

section \<open>Control flow of the retry loop\<close>

lemma resume_dead: "\<not> alive key d \<Longrightarrow> resume key located frames d = (d, None)"
  by (induction key located frames d rule: resume.induct) auto

lemma resume_shape:
  "resume key located frames d = (d, None)
   \<or> alive key d \<and> (\<exists>p frames'. resume key located frames d = attempt_pane key located p 1 frames' d)"
  by (induction key located frames d rule: resume.induct) (auto simp: start_pane_def)

section \<open>The invariant\<close>

definition hook_ok :: "dash \<Rightarrow> bool" where
  "hook_ok d \<longleftrightarrow> d_paneStatesRef d = d_paneStates d \<and> d_paneDataRef d = d_paneData d
     \<and> d_activeIdRef d = getPublicKey d
     \<and> (\<forall>p. ps_attempt (d_paneStates d p) \<le> MAX_RETRIES
          \<and> (ps_loading (d_paneStates d p) \<longrightarrow> ps_error (d_paneStates d p) = None))"

fun task_ok :: "dash \<Rightarrow> dash_task \<Rightarrow> bool" where
  "task_ok d (Pane_call t) \<longleftrightarrow> or_null (getPublicKey d) = Some (pt_key t) \<and> 1 \<le> pt_attempt t \<and> pt_attempt t \<le> MAX_RETRIES
     \<and> (pt_phase t = Waiting \<longrightarrow> pt_attempt t < MAX_RETRIES)"
| "task_ok d (Login_call key _) \<longleftrightarrow> or_null (getPublicKey d) = Some key"
| "task_ok d (Console_call key _ _) \<longleftrightarrow> or_null (getPublicKey d) = Some key"

text \<open>Everything that is shown as loading waits for a call in flight.\<close>

definition covered :: "dash \<Rightarrow> dash_task set \<Rightarrow> bool" where
  "covered d T \<longleftrightarrow>
     (d_mounted d \<longrightarrow> (\<forall>p. ps_loading (d_paneStates d p) \<longrightarrow> (\<exists>t. Pane_call t \<in> T \<and> pt_pane t = p)))
     \<and> (d_loginLoading d \<longrightarrow> (\<exists>k m. Login_call k m \<in> T))
     \<and> (d_consoleLoading d \<longrightarrow> (\<exists>k c n. Console_call k c n \<in> T))"

definition dash_ok :: "dash \<Rightarrow> dash_task set \<Rightarrow> bool" where
  "dash_ok d T \<longleftrightarrow> hook_ok d \<and> (\<forall>t \<in> T. task_ok d t) \<and> covered d T"

definition cache_ok :: "dash_cache \<Rightarrow> bool" where
  "cache_ok cache \<longleftrightarrow> jm_wf cache \<and> length cache \<le> MAX_CACHED_REPEATERS
     \<and> (\<forall>(k, e) \<in> set cache. k \<noteq> [] \<and> (\<forall>p. \<not> ps_loading (de_paneStates e p)))"

definition cache_attempts :: "dash_cache \<Rightarrow> bool" where
  "cache_attempts cache \<longleftrightarrow> (\<forall>(k, e) \<in> set cache. \<forall>p. ps_attempt (de_paneStates e p) \<le> MAX_RETRIES)"

definition dash_inv :: "dash_sys \<Rightarrow> bool" where
  "dash_inv s \<longleftrightarrow> dash_ok (ds_hook s) (ran (jm_get (ds_tasks s)))
     \<and> cache_ok (ds_cache s) \<and> cache_attempts (ds_cache s)
     \<and> (\<forall>i t. jm_get (ds_tasks s) i = Some t \<longrightarrow> i < ds_next s)"

lemmas dash_simps = dash_ok_def hook_ok_def covered_def getPublicKey_def

text \<open>The set of calls that a piece of a function leaves.\<close>

abbreviation left_by :: "dash \<times> pane_task option \<Rightarrow> dash_task set" where
  "left_by r \<equiv> set_option (map_option Pane_call (snd r))"

lemma alive_iff: "dash_ok d (insert (Pane_call t) T) \<Longrightarrow> alive (pt_key t) d \<longleftrightarrow> d_mounted d"
  by (auto simp: dash_ok_def hook_ok_def alive_def or_null_def split: if_splits)

lemma attempt_ok:
  assumes "dash_ok d T" and "or_null (getPublicKey d) = Some key" and "1 \<le> n" "n \<le> MAX_RETRIES"
  shows "dash_ok (fst (attempt_pane key located p n frames d)) (T \<union> left_by (attempt_pane key located p n frames d))"
proof -
  have "task_ok (fst (attempt_pane key located p n frames d)) t = task_ok d t" for t
    by (cases t) (simp_all add: attempt_pane_def set_pane_state_def getPublicKey_def Let_def)
  with assms show ?thesis
    by (auto simp: dash_simps attempt_pane_def set_pane_state_def Let_def)
qed

lemma resume_ok:
  assumes "dash_ok d T" and "or_null (getPublicKey d) = Some key"
  shows "dash_ok (fst (resume key located frames d)) (T \<union> left_by (resume key located frames d))"
  using resume_shape [of key located frames d] attempt_ok [OF assms, of 1] assms(1)
  by (auto simp: MAX_RETRIES_def)

text \<open>A pane whose call has ended and that is no longer loading.\<close>

lemma ended_ok:
  assumes "dash_ok d (insert (Pane_call t) T)" and "\<not> ps_loading st" "ps_attempt st \<le> MAX_RETRIES"
  shows "dash_ok (set_pane_state (pt_pane t) st d) T"
proof -
  have "task_ok (set_pane_state (pt_pane t) st d) t' = task_ok d t'" for t'
    by (cases t') (simp_all add: set_pane_state_def getPublicKey_def)
  with assms show ?thesis
    by (auto simp: dash_simps set_pane_state_def)
qed

lemma task_ok_cong: "getPublicKey d' = getPublicKey d \<Longrightarrow> task_ok d' t = task_ok d t"
  by (cases t) simp_all

lemma dash_ok_data: "dash_ok d T \<Longrightarrow> dash_ok (set_pane_data p data d) T"
  using task_ok_cong [of "set_pane_data p data d" d] by (auto simp: dash_simps set_pane_data_def)

lemma dash_ok_toast: "dash_ok d T \<Longrightarrow> dash_ok (dash_toast a b d) T"
  using task_ok_cong [of "dash_toast a b d" d] by (auto simp: dash_simps dash_toast_def)

lemma dead_ok:
  assumes "dash_ok d (insert (Pane_call t) T)" and "\<not> d_mounted d"
  shows "dash_ok d T"
  using assms by (auto simp: dash_simps)

lemma key_kept [simp]:
  "getPublicKey (set_pane_state p st d) = getPublicKey d" "getPublicKey (set_pane_data p data d) = getPublicKey d"
  "getPublicKey (dash_toast a b d) = getPublicKey d"
  by (simp_all add: getPublicKey_def set_pane_state_def set_pane_data_def dash_toast_def)

lemma covered_replace:
  assumes "covered d (insert (Pane_call t) T)" and "pt_pane t' = pt_pane t"
  shows "covered d (insert (Pane_call t') T)"
proof -
  have swap: "\<exists>t''. Pane_call t'' \<in> insert (Pane_call t') T \<and> pt_pane t'' = p"
    if "\<exists>u. Pane_call u \<in> insert (Pane_call t) T \<and> pt_pane u = p" for p
    using that assms(2) by (elim exE, case_tac "u = t") auto
  have "\<exists>t''. Pane_call t'' \<in> insert (Pane_call t') T \<and> pt_pane t'' = p"
    if "d_mounted d" "ps_loading (d_paneStates d p)" for p
    using assms(1) that by (intro swap) (simp add: covered_def)
  with assms(1) show ?thesis by (simp add: covered_def)
qed

lemma pane_answer_ok:
  assumes ok: "dash_ok d (insert (Pane_call t) T)"
  shows "dash_ok (fst (pane_answer answer now t d)) (T \<union> left_by (pane_answer answer now t d))"
proof (cases "alive (pt_key t) d")
  case False
  with ok have "\<not> d_mounted d" by (simp add: alive_iff)
  with ok have "dash_ok d T" by (rule dead_ok)
  with False show ?thesis by (simp add: pane_answer_def resume_dead)
next
  case True
  have key: "or_null (getPublicKey d) = Some (pt_key t)" and att: "1 \<le> pt_attempt t" "pt_attempt t \<le> MAX_RETRIES"
    using ok by (simp_all add: dash_ok_def)
  show ?thesis
  proof (cases answer)
    case (Inr data)
    with True att show ?thesis
      using ok by (simp add: pane_answer_def) (intro resume_ok ended_ok dash_ok_data; simp add: key)
  next
    case (Inl err)
    show ?thesis
    proof (cases "pt_attempt t = MAX_RETRIES \<or> client_error err")
      case True
      with \<open>alive (pt_key t) d\<close> Inl att show ?thesis
        using ok by (simp add: pane_answer_def Let_def) (intro resume_ok dash_ok_toast ended_ok; simp add: key)
    next
      case False
      from ok have "covered d (insert (Pane_call t) T)" by (simp add: dash_ok_def)
      then have "covered d (insert (Pane_call (t\<lparr> pt_phase := Waiting \<rparr>)) T)" by (rule covered_replace) simp
      then have "dash_ok d (insert (Pane_call (t\<lparr> pt_phase := Waiting \<rparr>)) T)"
        using ok False att by (simp add: dash_ok_def)
      with False True Inl show ?thesis by (simp add: pane_answer_def Let_def)
    qed
  qed
qed

lemma pane_timer_ok:
  assumes ok: "dash_ok d (insert (Pane_call t) T)" and "pt_phase t = Waiting"
  shows "dash_ok (fst (pane_timer t d)) (T \<union> left_by (pane_timer t d))"
proof (cases "alive (pt_key t) d")
  case False
  with ok have "\<not> d_mounted d" by (simp add: alive_iff)
  with ok have "dash_ok d T" by (rule dead_ok)
  with False show ?thesis by (simp add: pane_timer_def resume_dead)
next
  case True
  with assms have "pane_timer t d =
      attempt_pane (pt_key t) (pt_located t) (pt_pane t) (Suc (pt_attempt t)) (pt_frames t) d"
    by (simp add: pane_timer_def dash_ok_def)
  moreover have "task_ok (fst (attempt_pane key located p n frames d)) t' = task_ok d t'" for key located p n frames t'
    by (intro task_ok_cong) (simp add: attempt_pane_def set_pane_state_def getPublicKey_def Let_def)
  ultimately show ?thesis
    using assms by (auto simp: dash_simps attempt_pane_def set_pane_state_def Let_def)
qed

section \<open>The cache as a recency store\<close>

lemma normalize_not_loading [simp]: "\<not> ps_loading (de_paneStates (normalize_entry e) p)"
  by (simp add: normalize_entry_def normalizePaneStates_def)

lemma normalize_attempt [simp]: "ps_attempt (de_paneStates (normalize_entry e) p) = ps_attempt (de_paneStates e p)"
  by (simp add: normalize_entry_def normalizePaneStates_def)

lemma normalize_idem [simp]: "normalize_entry (normalize_entry e) = normalize_entry e"
  by (simp add: normalize_entry_def normalizePaneStates_def)

lemma cacheState_evict:
  assumes "cache_ok cache"
  shows "cacheState k e cache = evict_oldest MAX_CACHED_REPEATERS (touch k (normalize_entry e) cache)"
proof (cases "MAX_CACHED_REPEATERS < length (touch k (normalize_entry e) cache)")
  case True
  then have "jm_delete k cache \<noteq> []" by (auto simp: touch_append MAX_CACHED_REPEATERS_def)
  then have "hd (touch k (normalize_entry e) cache) \<in> set cache"
    using hd_in_set [of "jm_delete k cache"] by (auto simp: touch_append set_jm_delete)
  with assms have "fst (hd (touch k (normalize_entry e) cache)) \<noteq> []"
    by (cases "hd (touch k (normalize_entry e) cache)") (auto simp: cache_ok_def)
  with True show ?thesis by (simp add: cacheState_def evict_oldest_def Let_def)
next
  case False
  then show ?thesis by (simp add: cacheState_def evict_oldest_def Let_def)
qed

lemma set_touch: "set (touch k v m) \<subseteq> insert (k, v) (set m)"
  by (auto simp: touch_append set_jm_delete)

lemma cache_ok_put:
  assumes "cache_ok cache" and "k \<noteq> []"
  shows "cache_ok (cacheState k e cache)"
proof -
  have "length (touch k (normalize_entry e) cache) \<le> Suc MAX_CACHED_REPEATERS"
    using assms(1) length_touch_le [of k "normalize_entry e" cache] by (simp add: cache_ok_def)
  moreover have "set (cacheState k e cache) \<subseteq> insert (k, normalize_entry e) (set cache)"
    using assms(1) set_evict_subset set_touch by (fastforce simp: cacheState_evict)
  moreover have "\<forall>(k', e') \<in> insert (k, normalize_entry e) (set cache). k' \<noteq> [] \<and> (\<forall>p. \<not> ps_loading (de_paneStates e' p))"
    using assms by (simp add: cache_ok_def)
  ultimately have "\<forall>(k', e') \<in> set (cacheState k e cache). k' \<noteq> [] \<and> (\<forall>p. \<not> ps_loading (de_paneStates e' p))"
    and "length (cacheState k e cache) \<le> MAX_CACHED_REPEATERS"
    using assms by (blast, simp add: cache_ok_def cacheState_evict [OF assms(1)] length_evict)
  then show ?thesis using assms(1) unfolding cache_ok_def by (simp add: cacheState_evict [OF assms(1)])
qed

text \<open>The keys of the store are the non-empty ones, as pairs of a first character and the rest.\<close>

abbreviation store_keys :: "dash_cache \<Rightarrow> (char \<times> string) list" where
  "store_keys cache \<equiv> map (\<lambda>k. (hd k, tl k)) (jm_keys cache)"

lemma hd_tl_inj: "inj_on (\<lambda>k. (hd k, tl k)) {k. k \<noteq> []}"
  by (rule inj_onI) (metis (mono_tags, lifting) list.collapse mem_Collect_eq prod.inject)

interpretation dash_store: recency_store cache_ok store_keys "\<lambda>(c, cs). cacheState (c # cs)" MAX_CACHED_REPEATERS
proof unfold_locales
  fix cache :: dash_cache and k :: "char \<times> string" and e :: dash_entry
  assume ok: "cache_ok cache"
  then have ne: "set (jm_keys cache) \<subseteq> {k. k \<noteq> []}" by (auto simp: cache_ok_def)
  from ok show "distinct (store_keys cache)"
    using inj_on_subset [OF hd_tl_inj ne] by (simp add: distinct_map cache_ok_def comp_inj_on del: map_map)
  from ok show "length (store_keys cache) \<le> MAX_CACHED_REPEATERS" by (simp add: cache_ok_def)
  obtain c cs where k: "k = (c, cs)" by fastforce
  have "jm_keys (cacheState (c # cs) e cache) = lastn MAX_CACHED_REPEATERS (filter (\<lambda>a. a \<noteq> c # cs) (jm_keys cache) @ [c # cs])"
    using ok by (simp add: cacheState_evict evict_touch_keys cache_ok_def)
  moreover have "map (\<lambda>k. (hd k, tl k)) (filter (\<lambda>a. a \<noteq> c # cs) ks) = filter (\<lambda>a. a \<noteq> (c, cs)) (map (\<lambda>k. (hd k, tl k)) ks)"
    if "set ks \<subseteq> {k. k \<noteq> []}" for ks
    using that by (induction ks) (auto simp: neq_Nil_conv)
  ultimately show "store_keys ((case k of (c, cs) \<Rightarrow> cacheState (c # cs)) e cache)
      = lastn MAX_CACHED_REPEATERS (filter (\<lambda>a. a \<noteq> k) (store_keys cache) @ [k])"
    using ne by (simp add: k map_lastn del: map_map)
  from ok show "cache_ok ((case k of (c, cs) \<Rightarrow> cacheState (c # cs)) e cache)"
    by (simp add: k cache_ok_put)
qed (simp add: MAX_CACHED_REPEATERS_def)

text \<open>Every entry of the cache after an operation is an old one or the one stored.\<close>

lemma getCachedState_set: "set (snd (getCachedState k cache)) \<subseteq> set cache"
  using set_touch by (fastforce simp: getCachedState_def split: option.splits dest: map_of_SomeD)

lemma cacheState_set:
  "cache_ok cache \<Longrightarrow> set (cacheState k e cache) \<subseteq> insert (k, normalize_entry e) (set cache)"
  using set_evict_subset set_touch by (fastforce simp: cacheState_evict)

lemma getCachedState_ok:
  assumes "cache_ok cache"
  shows "cache_ok (snd (getCachedState k cache))"
proof -
  have "length (snd (getCachedState k cache)) = length cache" "jm_wf (snd (getCachedState k cache))"
    using assms by (auto simp: getCachedState_def cache_ok_def length_touch_old split: option.splits)
  moreover have "\<forall>(k', e') \<in> set (snd (getCachedState k cache)). k' \<noteq> [] \<and> (\<forall>p. \<not> ps_loading (de_paneStates e' p))"
    using assms getCachedState_set [of k cache] unfolding cache_ok_def by blast
  ultimately show ?thesis using assms unfolding cache_ok_def by simp
qed

lemma dash_render_ok:
  assumes "cache_ok cache" "cache_attempts cache" and "\<forall>p. ps_attempt (d_paneStates d p) \<le> MAX_RETRIES"
  shows "cache_ok (dash_render d cache) \<and> cache_attempts (dash_render d cache)"
proof (cases "d_mounted d")
  case True
  let ?c = "snd (getCachedState (getPublicKey d) cache)"
  have c: "cache_ok ?c" "cache_attempts ?c"
    using getCachedState_ok [OF assms(1)] getCachedState_set [of "getPublicKey d" cache] assms(2)
    unfolding cache_attempts_def by blast+
  show ?thesis
  proof (cases "or_null (getPublicKey d)")
    case None
    with True c show ?thesis by (simp add: dash_render_def Let_def)
  next
    case (Some k)
    then have "k \<noteq> []" by (auto simp: or_null_def truthy_iff split: if_splits)
    moreover have "cache_attempts (cacheState k (dash_entry_of d) ?c)"
      using cacheState_set [OF c(1), of k "dash_entry_of d"] c(2) assms(3)
      unfolding cache_attempts_def by (fastforce simp: dash_entry_of_def)
    ultimately show ?thesis using True Some c(1) by (simp add: dash_render_def Let_def cache_ok_put)
  qed
qed (use assms in \<open>simp add: dash_render_def\<close>)

lemma dash_open_ok:
  assumes "cache_ok cache" "cache_attempts cache"
  shows "dash_ok (fst (dash_open conv located cache)) {}"
    and "snd (dash_open conv located cache) = snd (getCachedState (contact_id conv) cache)"
proof -
  have "\<forall>p. ps_attempt (de_paneStates e p) \<le> MAX_RETRIES" if "fst (getCachedState k cache) = Some e" for e k
    using that assms(2) by (auto simp: getCachedState_def cache_attempts_def split: option.splits dest!: map_of_SomeD)
  moreover have "\<not> ps_loading (de_paneStates e p)" if "fst (getCachedState k cache) = Some e" for e k p
    using that by (auto simp: getCachedState_def split: option.splits)
  ultimately show "dash_ok (fst (dash_open conv located cache)) {}"
    by (cases "fst (getCachedState (contact_id conv) cache)")
      (simp_all add: dash_simps dash_open_def case_prod_unfold Let_def createInitialPaneStates_def INITIAL_PANE_STATE_def)
  show "snd (dash_open conv located cache) = snd (getCachedState (contact_id conv) cache)"
    by (simp add: dash_open_def case_prod_unfold Let_def)
qed

section \<open>Every event keeps the invariant\<close>

text \<open>All of the invariant but the cache, which only a render and an opening touch.\<close>

definition calls_inv :: "dash_sys \<Rightarrow> bool" where
  "calls_inv s \<longleftrightarrow> dash_ok (ds_hook s) (ran (jm_get (ds_tasks s))) \<and> (\<forall>i t. jm_get (ds_tasks s) i = Some t \<longrightarrow> i < ds_next s)"

lemma install_inv:
  assumes "dash_ok (fst r) (ran (jm_get (ds_tasks s)) \<union> set_option (snd r))"
    and "\<forall>i t. jm_get (ds_tasks s) i = Some t \<longrightarrow> i < ds_next s"
  shows "calls_inv (install r s)"
proof (cases "snd r")
  case None
  with assms show ?thesis by (simp add: calls_inv_def install_def)
next
  case (Some t)
  have "jm_get (ds_tasks s) (ds_next s) = None" using assms(2) by (cases "jm_get (ds_tasks s) (ds_next s)") auto
  then have "ran (jm_get (jm_set (ds_next s) t (ds_tasks s))) = insert t (ran (jm_get (ds_tasks s)))"
    by (simp add: update_conv' ran_map_upd)
  moreover have "\<forall>i t'. jm_get (jm_set (ds_next s) t (ds_tasks s)) i = Some t' \<longrightarrow> i < Suc (ds_next s)"
    using assms(2) by (simp add: jm_get_set less_Suc_eq)
  ultimately show ?thesis using assms(1) Some by (simp add: calls_inv_def install_def)
qed

lemma drop_task_calls:
  assumes "calls_inv s" and "jm_get (ds_tasks s) i = Some t"
  shows "dash_ok (ds_hook s) (insert t (ran (jm_get (ds_tasks (drop_task i s)))))"
    and "\<forall>j u. jm_get (ds_tasks (drop_task i s)) j = Some u \<longrightarrow> j < ds_next (drop_task i s)"
proof -
  have "jm_get (ds_tasks s) = (jm_get (ds_tasks (drop_task i s)))(i \<mapsto> t)"
    using assms(2) by (auto simp: drop_task_def delete_conv')
  moreover have "jm_get (ds_tasks (drop_task i s)) i = None" by (simp add: drop_task_def delete_conv')
  ultimately have "insert t (ran (jm_get (ds_tasks (drop_task i s)))) = ran (jm_get (ds_tasks s))"
    by (simp only: ran_map_upd)
  with assms(1) show "dash_ok (ds_hook s) (insert t (ran (jm_get (ds_tasks (drop_task i s)))))"
    by (simp add: calls_inv_def)
  from assms(1) show "\<forall>j u. jm_get (ds_tasks (drop_task i s)) j = Some u \<longrightarrow> j < ds_next (drop_task i s)"
    by (simp add: calls_inv_def drop_task_def jm_get_delete)
qed

text \<open>The parts of the hook that the panes depend on.\<close>

lemma dash_ok_same_panes:
  assumes "dash_ok d T" and "d_paneStates d' = d_paneStates d" "d_paneStatesRef d' = d_paneStatesRef d"
    "d_paneData d' = d_paneData d" "d_paneDataRef d' = d_paneDataRef d" "d_activeIdRef d' = d_activeIdRef d"
    "d_conversation d' = d_conversation d" "d_mounted d' \<longrightarrow> d_mounted d"
    and "d_loginLoading d' \<longrightarrow> (\<exists>k m. Login_call k m \<in> T')" "d_consoleLoading d' \<longrightarrow> (\<exists>k c n. Console_call k c n \<in> T')"
    and "T \<subseteq> T' \<or> (\<exists>u. T = insert u T' \<and> (\<forall>t. u \<noteq> Pane_call t))" and "\<forall>t \<in> T' - T. task_ok d t"
  shows "dash_ok d' T'"
proof -
  have pk: "getPublicKey d' = getPublicKey d" using assms(7) by (simp add: getPublicKey_def)
  have "Pane_call t \<in> T'" if "Pane_call t \<in> T" for t using assms(11) that by auto
  moreover have "\<forall>t \<in> T'. task_ok d' t"
    using assms(1,12) task_ok_cong [OF pk] by (auto simp: dash_ok_def)
  ultimately show ?thesis
    using assms(1-10) pk unfolding dash_ok_def hook_ok_def covered_def by simp blast
qed

lemma covered_calls:
  assumes "dash_ok d T"
  shows "d_loginLoading d \<Longrightarrow> \<exists>k m. Login_call k m \<in> T" and "d_consoleLoading d \<Longrightarrow> \<exists>k c n. Console_call k c n \<in> T"
  using assms by (simp_all add: dash_ok_def covered_def)

lemma login_ok:
  assumes "dash_ok d T"
  shows "dash_ok (fst (login password d)) (T \<union> set_option (snd (login password d)))"
proof (cases "or_null (getPublicKey d)")
  case (Some key)
  then show ?thesis
    using covered_calls [OF assms] by (simp add: login_def) (intro conjI impI; rule dash_ok_same_panes [OF assms]; fastforce)
qed (use assms in \<open>simp add: login_def\<close>)

lemma console_ok:
  assumes "dash_ok d T"
  shows "dash_ok (fst (sendConsoleCommand c n d)) (T \<union> set_option (snd (sendConsoleCommand c n d)))"
proof (cases "or_null (getPublicKey d)")
  case (Some key)
  then show ?thesis
    using covered_calls [OF assms]
    by (simp add: sendConsoleCommand_def Let_def) (rule dash_ok_same_panes [OF assms]; fastforce)
qed (use assms in \<open>simp add: sendConsoleCommand_def\<close>)

lemma login_answer_fields:
  "d_paneStates (login_answer a n k m d) = d_paneStates d" "d_paneStatesRef (login_answer a n k m d) = d_paneStatesRef d"
  "d_paneData (login_answer a n k m d) = d_paneData d" "d_paneDataRef (login_answer a n k m d) = d_paneDataRef d"
  "d_activeIdRef (login_answer a n k m d) = d_activeIdRef d" "d_conversation (login_answer a n k m d) = d_conversation d"
  "d_mounted (login_answer a n k m d) = d_mounted d" "d_consoleLoading (login_answer a n k m d) = d_consoleLoading d"
  "d_activeIdRef d = Some k \<Longrightarrow> \<not> d_loginLoading (login_answer a n k m d)"
  by (simp_all add: login_answer_def dash_toast_def Let_def split: sum.split)

lemma login_answer_ok:
  assumes "dash_ok d (insert (Login_call k m) T)"
  shows "dash_ok (login_answer a n k m d) T"
proof -
  have "d_activeIdRef d = Some k" using assms by (auto simp: dash_ok_def hook_ok_def or_null_def split: if_splits)
  then show ?thesis
    using covered_calls [OF assms] by (intro dash_ok_same_panes [OF assms]) (auto simp: login_answer_fields)
qed

lemma command_answer_ok:
  assumes "dash_ok d (insert (Console_call k c n) T)"
  shows "dash_ok (command_answer a k c n d) T"
proof -
  have "d_activeIdRef d = Some k" using assms by (auto simp: dash_ok_def hook_ok_def or_null_def split: if_splits)
  then show ?thesis
    using covered_calls [OF assms] by (intro dash_ok_same_panes [OF assms]) (auto simp: command_answer_def)
qed

lemma refresh_ok:
  assumes "dash_ok d T"
  shows "dash_ok (fst (refreshPane p d)) (T \<union> left_by (refreshPane p d))"
    and "dash_ok (fst (loadAll d)) (T \<union> left_by (loadAll d))"
  using assms resume_ok [OF assms]
  by (cases "or_null (getPublicKey d)"; simp add: refreshPane_def loadAll_def del: resume.simps)+

lemma dash_act_calls:
  assumes inv: "calls_inv s" and cache: "cache_ok (ds_cache s)" "cache_attempts (ds_cache s)"
  shows "calls_inv (dash_act ev s)"
proof -
  have ok: "dash_ok (ds_hook s) (ran (jm_get (ds_tasks s)))" and fresh: "\<forall>i t. jm_get (ds_tasks s) i = Some t \<longrightarrow> i < ds_next s"
    using inv by (simp_all add: calls_inv_def)
  show ?thesis
  proof (cases ev)
    case (Open_dash conv located)
    show ?thesis
      using dash_open_ok(1) [OF cache, of conv located]
      by (simp add: Open_dash calls_inv_def case_prod_unfold Let_def)
  next
    case Close_dash
    have "dash_ok (ds_hook s\<lparr>d_mounted := False\<rparr>) (ran (jm_get (ds_tasks s)))"
      using covered_calls [OF ok] by (intro dash_ok_same_panes [OF ok]) auto
    with inv show ?thesis by (simp add: Close_dash calls_inv_def)
  next
    case (Locate located)
    have "dash_ok (ds_hook s\<lparr>d_hasAdvertLocation := located\<rparr>) (ran (jm_get (ds_tasks s)))"
      using covered_calls [OF ok] by (intro dash_ok_same_panes [OF ok]) auto
    with inv show ?thesis by (simp add: Locate calls_inv_def)
  next
    case Reset_login
    have "dash_ok (resetLogin (ds_hook s)) (ran (jm_get (ds_tasks s)))"
      using covered_calls [OF ok] unfolding resetLogin_def by (intro dash_ok_same_panes [OF ok]) auto
    with inv show ?thesis by (simp add: Reset_login calls_inv_def)
  next
    case (Pane_answered i answer now)
    then show ?thesis
      using inv drop_task_calls [OF inv, of i] pane_answer_ok [of "ds_hook s"]
      by (auto split: option.split dash_task.split intro!: install_inv)
  next
    case (Pane_delay_over i)
    then show ?thesis
      using inv drop_task_calls [OF inv, of i] pane_timer_ok [of "ds_hook s"]
      by (auto split: option.split dash_task.split intro!: install_inv)
  next
    case (Login_answered i answer now)
    then show ?thesis
      using inv drop_task_calls [OF inv, of i] login_answer_ok [of "ds_hook s"]
      by (auto split: option.split dash_task.split intro!: install_inv)
  next
    case (Command_answered i answer)
    then show ?thesis
      using inv drop_task_calls [OF inv, of i] command_answer_ok [of "ds_hook s"]
      by (auto split: option.split dash_task.split intro!: install_inv)
  qed (use fresh refresh_ok [OF ok] login_ok [OF ok] console_ok [OF ok] in \<open>auto intro!: install_inv\<close>)
qed

lemma dash_step_inv:
  assumes "dash_inv s"
  shows "dash_inv (dash_step ev s)"
proof -
  have inv: "calls_inv s" and cache: "cache_ok (ds_cache s)" "cache_attempts (ds_cache s)"
    using assms by (simp_all add: dash_inv_def calls_inv_def)
  have "ds_cache (dash_act ev s) = ds_cache s \<or> (\<exists>k. ds_cache (dash_act ev s) = snd (getCachedState k (ds_cache s)))"
    using dash_open_ok(2) [OF cache]
    by (cases ev) (auto simp: install_def drop_task_def Let_def case_prod_unfold split: option.splits dash_task.splits if_splits)
  then have "cache_ok (ds_cache (dash_act ev s))" "cache_attempts (ds_cache (dash_act ev s))"
    using cache getCachedState_ok getCachedState_set unfolding cache_attempts_def by (metis, metis subsetD)
  moreover from dash_act_calls [OF inv cache] have calls: "calls_inv (dash_act ev s)" .
  ultimately have "cache_ok (ds_cache (dash_step ev s)) \<and> cache_attempts (ds_cache (dash_step ev s))"
    unfolding dash_step_def Let_def by (simp add: calls_inv_def dash_ok_def hook_ok_def dash_render_ok)
  with calls show ?thesis by (simp add: dash_inv_def calls_inv_def dash_step_def Let_def)
qed

lemma dash_start_inv: "dash_inv (dash_start conv located)"
proof -
  have "cache_ok []" "cache_attempts []" by (simp_all add: cache_ok_def cache_attempts_def)
  then show ?thesis
    using dash_open_ok(1) [of "[]" conv located] dash_render_ok [of "[]" "fst (dash_open conv located [])"]
    by (simp add: dash_start_def dash_inv_def Let_def dash_ok_def hook_ok_def)
qed

text \<open>C4. In every interleaving of openings, refreshes, logins, commands, answers and timers: a pane, the login or the
  console of the mounted dashboard is shown as loading only while a call for it is in flight; no pane is on more than
  its third attempt, or loading and failed at once; the references the callbacks read agree with the state that is
  rendered; and the cache holds at most twenty dashboards, none of them loading.\<close>

theorem dash_reachable_inv:
  assumes "dash_reachable s"
  shows "dash_inv s"
  using assms by induction (simp_all add: dash_start_inv dash_step_inv)

definition contact_conv :: "string \<Rightarrow> conversation" where
  "contact_conv k = \<lparr> cv_type = Cv_contact, cv_id = k, cv_name = k, cv_mapFocusKey = None \<rparr>"

theorem dash_reachable_inv_witness:
  "dash_inv (dash_step Close_dash (dash_step (Refresh P_neighbors) (dash_start (Some (contact_conv ''ab'')) False)))"
  by (intro dash_reachable_inv dash_next dash_first)

section \<open>A refresh settles\<close>

text \<open>A call that is answered again and again, with the retry delays running out, and nothing else going on.\<close>

definition answer_round :: "thrown + json \<Rightarrow> nat \<Rightarrow> pane_task \<Rightarrow> dash \<Rightarrow> dash \<times> pane_task option" where
  "answer_round answer now t d =
     (case pane_answer answer now t d of
        (d', Some t') \<Rightarrow> if pt_phase t' = Waiting then pane_timer t' d' else (d', Some t')
      | r \<Rightarrow> r)"

fun drive :: "(thrown + json) list \<Rightarrow> nat \<Rightarrow> dash \<times> pane_task option \<Rightarrow> dash \<times> pane_task option" where
  "drive (a # as) now (d, Some t) = drive as now (answer_round a now t d)"
| "drive as now r = r"

text \<open>The requests a call may still make.\<close>

fun frame_budget :: "bool \<Rightarrow> frame \<Rightarrow> nat" where
  "frame_budget located Resume_neighbors = MAX_RETRIES"
| "frame_budget located (Resume_load ps) =
     sum_list (map (\<lambda>p. if p = P_neighbors \<and> \<not> located then 2 * MAX_RETRIES else MAX_RETRIES) ps)"

abbreviation frames_budget :: "bool \<Rightarrow> frame list \<Rightarrow> nat" where
  "frames_budget located frames \<equiv> sum_list (map (frame_budget located) frames)"

definition call_budget :: "pane_task option \<Rightarrow> nat" where
  "call_budget r = (case r of None \<Rightarrow> 0 | Some t \<Rightarrow> (MAX_RETRIES - pt_attempt t) + frames_budget (pt_located t) (pt_frames t))"

text \<open>The panes a call still has to settle.\<close>

fun frame_panes :: "frame \<Rightarrow> pane_name set" where
  "frame_panes Resume_neighbors = {P_neighbors}"
| "frame_panes (Resume_load ps) = set ps"

definition call_panes :: "pane_task option \<Rightarrow> pane_name set" where
  "call_panes r = (case r of None \<Rightarrow> {} | Some t \<Rightarrow> insert (pt_pane t) (\<Union> (frame_panes ` set (pt_frames t))))"

definition pane_settled :: "dash \<Rightarrow> pane_name \<Rightarrow> bool" where
  "pane_settled d p \<longleftrightarrow> \<not> ps_loading (d_paneStates d p)
     \<and> (ps_error (d_paneStates d p) = None \<longrightarrow> d_paneData d p \<noteq> None \<and> ps_fetched_at (d_paneStates d p) \<noteq> None)"

definition call_ok :: "dash \<Rightarrow> pane_task option \<Rightarrow> bool" where
  "call_ok d r \<longleftrightarrow>
     (case r of None \<Rightarrow> True
      | Some t \<Rightarrow> alive (pt_key t) d \<and> 1 \<le> pt_attempt t \<and> pt_attempt t \<le> MAX_RETRIES \<and> pt_phase t = Fetching)"

text \<open>What one piece of a call may do: it keeps the dashboard alive, its requests are paid from the budget, and a pane
  outside what is left to settle stays as it is.\<close>

definition piece :: "dash \<Rightarrow> nat \<Rightarrow> pane_name set \<Rightarrow> dash \<times> pane_task option \<Rightarrow> bool" where
  "piece d budget panes r \<longleftrightarrow>
     call_ok (fst r) (snd r)
     \<and> length (d_requests (fst r)) + call_budget (snd r) \<le> length (d_requests d) + budget
     \<and> (\<forall>p. p \<in> panes \<or> pane_settled d p \<longrightarrow> p \<in> call_panes (snd r) \<or> pane_settled (fst r) p)"

lemma attempt_piece:
  assumes "alive key d" and "1 \<le> n" "n \<le> MAX_RETRIES"
  shows "piece d (Suc (MAX_RETRIES - n) + frames_budget located frames) (insert p (\<Union> (frame_panes ` set frames)))
     (attempt_pane key located p n frames d)"
  using assms
  by (auto simp: piece_def attempt_pane_def Let_def call_ok_def call_budget_def call_panes_def alive_def
      set_pane_state_def pane_settled_def)

lemma piece_mono: "piece d b P r \<Longrightarrow> b \<le> b' \<Longrightarrow> P' \<subseteq> P \<Longrightarrow> piece d b' P' r"
  by (auto simp: piece_def)

lemma resume_piece:
  "alive key d \<Longrightarrow> piece d (frames_budget located frames) (\<Union> (frame_panes ` set frames)) (resume key located frames d)"
proof (induction key located frames d rule: resume.induct)
  case (2 key located frames d)
  then show ?case using attempt_piece [of key d 1 located frames P_neighbors] by (simp add: MAX_RETRIES_def)
next
  case (4 key located p ps frames d)
  have "piece d (frame_budget located (Resume_load [p]) + frames_budget located (Resume_load ps # frames))
      (insert p (\<Union> (frame_panes ` set (Resume_load ps # frames)))) (start_pane key located p (Resume_load ps # frames) d)"
    using attempt_piece [OF 4(2), of 1 located "Resume_neighbors # Resume_load ps # frames" P_nodeInfo]
      attempt_piece [OF 4(2), of 1 located "Resume_load ps # frames" p]
    by (auto simp: start_pane_def MAX_RETRIES_def elim!: piece_mono)
  with 4 show ?case by (auto simp: algebra_simps elim!: piece_mono)
qed (auto simp: piece_def call_ok_def call_budget_def call_panes_def)

lemma attempt_requests [simp]: "d_requests (fst (attempt_pane key located p n frames d)) = d_requests d @ [p]"
  by (simp add: attempt_pane_def set_pane_state_def Let_def)

lemma resume_requests:
  "snd (resume key located frames d) \<noteq> None \<Longrightarrow> length (d_requests d) < length (d_requests (fst (resume key located frames d)))"
  using resume_shape [of key located frames d] by auto

lemma settle_piece:
  assumes "alive (pt_key t) d" and "alive (pt_key t) d'" "d_requests d' = d_requests d" "pane_settled d' (pt_pane t)"
    and "\<And>p. p \<noteq> pt_pane t \<Longrightarrow> pane_settled d' p = pane_settled d p"
  shows "piece d (call_budget (Some t)) (call_panes (Some t)) (resume (pt_key t) (pt_located t) (pt_frames t) d')"
  using resume_piece [OF assms(2), of "pt_located t" "pt_frames t"] assms(3-5)
  unfolding piece_def call_budget_def call_panes_def by (auto, metis)

lemma answer_round_piece:
  assumes "call_ok d (Some t)"
  shows "piece d (call_budget (Some t)) (call_panes (Some t)) (answer_round a now t d)
    \<and> (snd (answer_round a now t d) \<noteq> None \<longrightarrow> length (d_requests d) < length (d_requests (fst (answer_round a now t d))))"
proof -
  let ?resume = "resume (pt_key t) (pt_located t) (pt_frames t)"
  have alive: "alive (pt_key t) d" and att: "1 \<le> pt_attempt t" "pt_attempt t \<le> MAX_RETRIES"
    using assms by (simp_all add: call_ok_def)
  have resumed: ?thesis if "answer_round a now t d = ?resume d'" "alive (pt_key t) d'" "d_requests d' = d_requests d"
      "pane_settled d' (pt_pane t)" "\<And>p. p \<noteq> pt_pane t \<Longrightarrow> pane_settled d' p = pane_settled d p" for d'
    using settle_piece [OF alive that(2-5)] resume_requests [of "pt_key t" "pt_located t" "pt_frames t" d'] that(1,3) by simp
  have fetching: "answer_round a now t d = ?resume d'" if "pane_answer a now t d = ?resume d'" for d'
    using that resume_shape [of "pt_key t" "pt_located t" "pt_frames t" d']
    by (auto simp: answer_round_def attempt_pane_def Let_def)
  show ?thesis
  proof (cases a)
    case (Inr data)
    have "pane_answer a now t d = ?resume (set_pane_state (pt_pane t)
        \<lparr> ps_loading = False, ps_attempt = pt_attempt t, ps_error = None, ps_fetched_at = Some now \<rparr> (set_pane_data (pt_pane t) data d))"
      using alive by (simp add: Inr pane_answer_def)
    from resumed [OF fetching [OF this]] alive show ?thesis
      by (simp add: alive_def set_pane_state_def set_pane_data_def pane_settled_def)
  next
    case (Inl err)
    show ?thesis
    proof (cases "pt_attempt t = MAX_RETRIES \<or> client_error err")
      case True
      let ?msg = "error_message ''Request failed'' err"
      from True alive have "pane_answer a now t d = ?resume (dash_toast (''Failed to fetch '' @ pane_name_str (pt_pane t)) ?msg
          (set_pane_state (pt_pane t) \<lparr> ps_loading = False, ps_attempt = pt_attempt t, ps_error = Some ?msg,
             ps_fetched_at = ps_fetched_at (d_paneStatesRef d (pt_pane t)) \<rparr> d))"
        by (simp add: Inl pane_answer_def Let_def)
      from resumed [OF fetching [OF this]] alive show ?thesis
        by (simp add: alive_def set_pane_state_def dash_toast_def pane_settled_def)
    next
      case False
      with alive att have "answer_round a now t d
          = attempt_pane (pt_key t) (pt_located t) (pt_pane t) (Suc (pt_attempt t)) (pt_frames t) d"
        by (simp add: Inl answer_round_def pane_answer_def pane_timer_def Let_def)
      moreover have "Suc (MAX_RETRIES - Suc (pt_attempt t)) = MAX_RETRIES - pt_attempt t"
        using False att by (intro Suc_diff_Suc) auto
      ultimately show ?thesis
        using attempt_piece [OF alive, of "Suc (pt_attempt t)" "pt_located t" "pt_frames t" "pt_pane t"] False att
        by (simp add: call_budget_def call_panes_def)
    qed
  qed
qed

lemma drive_settles:
  assumes "call_ok d r" and "call_budget r < length as"
  shows "snd (drive as now (d, r)) = None
    \<and> length (d_requests (fst (drive as now (d, r)))) \<le> length (d_requests d) + call_budget r
    \<and> (\<forall>p. p \<in> call_panes r \<or> pane_settled d p \<longrightarrow> pane_settled (fst (drive as now (d, r))) p)"
  using assms
proof (induction as arbitrary: d r)
  case (Cons a as)
  show ?case
  proof (cases r)
    case None
    then show ?thesis by (simp add: call_panes_def)
  next
    case (Some t)
    obtain d' r' where ar: "answer_round a now t d = (d', r')" by fastforce
    from answer_round_piece [of d t a now] Cons.prems(1) have p: "piece d (call_budget r) (call_panes r) (d', r')"
      and more: "r' \<noteq> None \<longrightarrow> length (d_requests d) < length (d_requests d')" by (simp_all add: Some ar)
    have "call_budget r' < length as \<or> r' = None"
      using p more Cons.prems(2) by (auto simp: piece_def)
    then show ?thesis
    proof
      assume "call_budget r' < length as"
      from Cons.IH [OF _ this, of d'] p show ?thesis by (fastforce simp: Some ar piece_def)
    next
      assume "r' = None"
      with p show ?thesis by (auto simp: Some ar piece_def call_panes_def call_budget_def)
    qed
  qed
qed simp

text \<open>C9. Loading the whole dashboard always comes to an end, whatever the server answers and however often it fails:
  after at most thirty requests no call is left, and every pane is settled, with its data or with an error to show,
  and none of them loading.\<close>

theorem loadAll_settles:
  assumes "d_mounted d" "d_activeIdRef d = Some k" "getPublicKey d = Some k" "k \<noteq> []" and "30 \<le> length as"
  shows "snd (drive as now (loadAll d)) = None
    \<and> length (d_requests (fst (drive as now (loadAll d)))) \<le> length (d_requests d) + 30
    \<and> (\<forall>p. pane_settled (fst (drive as now (loadAll d))) p)"
proof -
  obtain d' r where la: "loadAll d = (d', r)" by fastforce
  have "alive k d" using assms by (simp add: alive_def)
  have eq: "loadAll d = resume k (d_hasAdvertLocation d) [Resume_load all_panes] d"
    using assms(3,4) by (simp add: loadAll_def or_null_def del: resume.simps)
  have piece: "piece d (frames_budget (d_hasAdvertLocation d) [Resume_load all_panes]) (set all_panes) (d', r)"
    using resume_piece [OF \<open>alive k d\<close>, of "d_hasAdvertLocation d" "[Resume_load all_panes]"] la eq by simp
  have "frames_budget (d_hasAdvertLocation d) [Resume_load all_panes] \<le> 30"
    by (simp add: all_panes_def MAX_RETRIES_def)
  with piece have budget: "length (d_requests d') + call_budget r \<le> length (d_requests d) + 30"
    and ok: "call_ok d' r" by (simp_all add: piece_def)
  have "r \<noteq> None \<longrightarrow> length (d_requests d) < length (d_requests d')"
    using resume_requests [of k "d_hasAdvertLocation d" "[Resume_load all_panes]" d] unfolding eq [symmetric] la by simp
  with budget assms(5) have "call_budget r < length as" by (cases r) (auto simp: call_budget_def)
  from drive_settles [OF ok this, of now] piece budget
  have "snd (drive as now (d', r)) = None" "length (d_requests (fst (drive as now (d', r)))) \<le> length (d_requests d) + 30"
    "\<forall>p. p \<in> set all_panes \<longrightarrow> pane_settled (fst (drive as now (d', r))) p" by (auto simp: piece_def)
  moreover have "p \<in> set all_panes" for p by (cases p) (simp_all add: all_panes_def)
  ultimately show ?thesis by (simp add: la)
qed

theorem loadAll_settles_witness:
  "snd (drive (replicate 30 (Inl (Api_error ''down'' 503))) 7
     (loadAll (fst (dash_open (Some (contact_conv ''ab'')) False [])))) = None"
  using loadAll_settles [of "fst (dash_open (Some (contact_conv ''ab'')) False [])" "''ab''"
      "replicate 30 (Inl (Api_error ''down'' 503))" 7]
  by (simp add: dash_open_def getCachedState_def or_null_def contact_id_def contact_conv_def getPublicKey_def)

section \<open>The outcome of one refresh\<close>

text \<open>The answer that decides: the first success or client error, or the answer to the last attempt.\<close>

fun deciding :: "nat \<Rightarrow> (thrown + json) list \<Rightarrow> (nat \<times> (thrown + json)) option" where
  "deciding n [] = None"
| "deciding n (a # as) =
     (case a of
        Inr _ \<Rightarrow> Some (n, a)
      | Inl err \<Rightarrow> if client_error err \<or> n = MAX_RETRIES then Some (n, a) else deciding (Suc n) as)"

definition pane_outcome :: "nat \<Rightarrow> pane_name \<Rightarrow> nat \<Rightarrow> thrown + json \<Rightarrow> dash \<Rightarrow> dash" where
  "pane_outcome now p n a d =
     (case a of
        Inr data \<Rightarrow>
          set_pane_state p \<lparr> ps_loading = False, ps_attempt = n, ps_error = None, ps_fetched_at = Some now \<rparr> (set_pane_data p data d)
      | Inl err \<Rightarrow>
          dash_toast (''Failed to fetch '' @ pane_name_str p) (error_message ''Request failed'' err)
            (set_pane_state p \<lparr> ps_loading = False, ps_attempt = n, ps_error = Some (error_message ''Request failed'' err),
               ps_fetched_at = ps_fetched_at (d_paneStatesRef d p) \<rparr> d))"

lemma deciding_ge: "deciding n as = Some (m, a) \<Longrightarrow> n \<le> m"
  by (induction n as rule: deciding.induct) (auto split: sum.splits if_splits)

lemma outcome_attempt:
  "pane_outcome now p m a (fst (attempt_pane key located p n frames d))
   = (pane_outcome now p m a d)\<lparr> d_requests := d_requests d @ [p] \<rparr>"
  by (cases a) (simp_all add: pane_outcome_def attempt_pane_def set_pane_state_def set_pane_data_def dash_toast_def Let_def)

lemma attempt_fst_snd:
  "attempt_pane key located p n frames d = (fst (attempt_pane key located p n frames d),
     Some \<lparr> pt_key = key, pt_located = located, pt_pane = p, pt_attempt = n, pt_phase = Fetching, pt_frames = frames \<rparr>)"
  by (simp add: attempt_pane_def Let_def)

lemma attempt_alive [simp]: "alive key' (fst (attempt_pane key located p n frames d)) = alive key' d"
  by (simp add: attempt_pane_def alive_def set_pane_state_def Let_def)

lemma drive_None [simp]: "drive as now (d, None) = (d, None)"
  by (cases as) simp_all

lemma drive_attempt:
  assumes "alive key d" and "n \<le> MAX_RETRIES" and "deciding n as = Some (m, a)"
  shows "drive as now (attempt_pane key located p n [Resume_load []] d)
    = ((pane_outcome now p m a d)\<lparr> d_requests := d_requests d @ replicate (Suc m - n) p \<rparr>, None)"
  using assms
proof (induction as arbitrary: n d)
  case (Cons b as)
  let ?d = "fst (attempt_pane key located p n [Resume_load []] d)"
  have alive: "alive key ?d" using Cons.prems(1) by simp
  show ?case
  proof (cases "\<exists>err. b = Inl err \<and> \<not> client_error err \<and> n \<noteq> MAX_RETRIES")
    case True
    then obtain err where b: "b = Inl err" "\<not> client_error err" "n \<noteq> MAX_RETRIES" by blast
    with Cons.prems have dec: "deciding (Suc n) as = Some (m, a)" and n: "Suc n \<le> MAX_RETRIES" by simp_all
    have "drive (b # as) now (attempt_pane key located p n [Resume_load []] d)
        = drive as now (attempt_pane key located p (Suc n) [Resume_load []] ?d)"
      using alive b n by (subst attempt_fst_snd) (simp add: answer_round_def pane_answer_def pane_timer_def Let_def)
    also have "\<dots> = ((pane_outcome now p m a ?d)\<lparr> d_requests := d_requests ?d @ replicate (Suc m - Suc n) p \<rparr>, None)"
      by (rule Cons.IH [OF alive n dec])
    also have "\<dots> = ((pane_outcome now p m a d)\<lparr> d_requests := d_requests d @ replicate (Suc m - n) p \<rparr>, None)"
      using deciding_ge [OF dec] by (simp add: outcome_attempt Suc_diff_le flip: replicate_Suc)
    finally show ?thesis .
  next
    case False
    with Cons.prems(3) have ma: "m = n" "a = b" by (auto split: sum.splits if_splits)
    have "answer_round b now \<lparr> pt_key = key, pt_located = located, pt_pane = p, pt_attempt = n, pt_phase = Fetching,
        pt_frames = [Resume_load []] \<rparr> ?d = (pane_outcome now p n b ?d, None)"
      using alive False by (cases b) (auto simp: answer_round_def pane_answer_def pane_outcome_def Let_def)
    then show ?thesis
      by (subst attempt_fst_snd) (simp add: ma outcome_attempt Suc_diff_le)
  qed
qed simp

text \<open>C32. What one refresh does to its pane, when no node info has to be fetched first: the first success or client error
  among at most three attempts decides, or the third failure; exactly as many requests are sent as attempts were
  needed, so a client error is never retried; a failure keeps the data and the time of the last success and shows one
  toast.\<close>

theorem refreshPane_outcome:
  assumes "d_mounted d" "d_activeIdRef d = Some k" "getPublicKey d = Some k" "k \<noteq> []"
    and "p = P_neighbors \<longrightarrow> d_hasAdvertLocation d \<or> \<not> needsNodeInfoPrefetch d" and "deciding 1 as = Some (n, a)"
  shows "drive as now (refreshPane p d) = ((pane_outcome now p n a d)\<lparr> d_requests := d_requests d @ replicate n p \<rparr>, None)"
proof -
  have "alive k d" using assms by (simp add: alive_def)
  then have "refreshPane p d = attempt_pane k (d_hasAdvertLocation d) p 1 [Resume_load []] d"
    using assms(3-5) by (auto simp: refreshPane_def or_null_def start_pane_def)
  with drive_attempt [OF \<open>alive k d\<close> _ assms(6), of now "d_hasAdvertLocation d" p] show ?thesis
    by (simp add: MAX_RETRIES_def)
qed

theorem refreshPane_outcome_witness:
  "d_requests (fst (drive [Inl (Api_error ''busy'' 503), Inl (Api_error ''timeout'' 422), Inr JNull] 7
     (refreshPane P_status (fst (dash_open (Some (contact_conv ''ab'')) False []))))) = [P_status, P_status]"
  using refreshPane_outcome [of "fst (dash_open (Some (contact_conv ''ab'')) False [])" "''ab''" P_status
      "[Inl (Api_error ''busy'' 503), Inl (Api_error ''timeout'' 422), Inr JNull]" 2 "Inl (Api_error ''timeout'' 422)" 7]
  by (simp add: dash_open_def getCachedState_def or_null_def contact_id_def contact_conv_def getPublicKey_def
      client_error_def MAX_RETRIES_def numeral_2_eq_2)

section \<open>Reopening a dashboard\<close>

text \<open>The stores of other dashboards, as a run of the recency store.\<close>

abbreviation visit :: "(string \<times> dash_entry) list \<Rightarrow> dash_cache \<Rightarrow> dash_cache" where
  "visit visits cache \<equiv> fold (\<lambda>(k, e). cacheState k e) visits cache"

lemma visit_puts:
  assumes "\<forall>(k, _) \<in> set visits. k \<noteq> []"
  shows "visit visits cache = dash_store.puts (map (\<lambda>(k, e). ((hd k, tl k), e)) visits) cache"
  using assms by (induction visits arbitrary: cache) (auto simp: dash_store.puts_def)

lemma store_key_in:
  assumes "k \<noteq> []" and "cache_ok cache"
  shows "(hd k, tl k) \<in> set (store_keys cache) \<longleftrightarrow> jm_get cache k \<noteq> None"
proof -
  have "set (jm_keys cache) \<subseteq> {k. k \<noteq> []}" using assms(2) by (auto simp: cache_ok_def)
  from inj_on_image_mem_iff [OF hd_tl_inj _ this, of k] assms(1) show ?thesis
    by (simp add: map_of_eq_None_iff del: map_map)
qed

lemma cacheState_other:
  assumes "cache_ok cache" and "k' \<noteq> k"
  shows "jm_get (cacheState k' e cache) k \<in> {None, jm_get cache k}"
  by (auto simp: cacheState_evict [OF assms(1)] evict_oldest_def jm_get_delete jm_get_touch assms(2) [symmetric])

lemma visit_other:
  assumes "cache_ok cache" and "\<forall>(k', _) \<in> set visits. k' \<noteq> [] \<and> k' \<noteq> k"
  shows "jm_get (visit visits cache) k \<in> {None, jm_get cache k}"
  using assms
proof (induction visits arbitrary: cache)
  case (Cons v visits)
  obtain k' e' where v: "v = (k', e')" by fastforce
  have "jm_get (visit visits (cacheState k' e' cache)) k \<in> {None, jm_get (cacheState k' e' cache) k}"
    using Cons.prems by (intro Cons.IH) (auto simp: v cache_ok_put)
  with cacheState_other [of cache k' k e'] Cons.prems show ?case by (auto simp: v)
qed simp

text \<open>A repeater whose dashboard has been left is shown again as it was, with what was loading stopped, as long as
  fewer than twenty other dashboards have been opened in between.\<close>

theorem dash_reopen:
  assumes "cache_ok cache" and "cv_type conv = Cv_contact" "cv_id conv \<noteq> []"
    and "\<forall>(k, _) \<in> set visits. k \<noteq> [] \<and> k \<noteq> cv_id conv" and "card (fst ` set visits) < MAX_CACHED_REPEATERS"
  shows "dash_entry_of (fst (dash_open (Some conv) located (visit visits (cacheState (cv_id conv) e cache)))) = normalize_entry e"
proof -
  let ?k = "cv_id conv" and ?puts = "map (\<lambda>(k, e). ((hd k, tl k), e)) visits"
  let ?c = "cacheState ?k e cache"
  have ok: "cache_ok ?c" using assms(1,3) by (rule cache_ok_put)
  have "visit visits ?c = dash_store.puts ?puts ((case (hd ?k, tl ?k) of (c, cs) \<Rightarrow> cacheState (c # cs)) e cache)"
    using assms(3,4) by (subst visit_puts) auto
  moreover have "fst ` set ?puts - {(hd ?k, tl ?k)} \<subseteq> (\<lambda>k. (hd k, tl k)) ` fst ` set visits" by force
  then have "card (fst ` set ?puts - {(hd ?k, tl ?k)}) \<le> card (fst ` set visits)"
    by (intro order.trans [OF card_mono card_image_le]) simp_all
  ultimately have "(hd ?k, tl ?k) \<in> set (store_keys (visit visits ?c))"
    using dash_store.put_survives [OF assms(1), of ?puts "(hd ?k, tl ?k)" e] assms(5) by simp
  moreover have "cache_ok (visit visits ?c)"
    using dash_store.puts_invar [OF ok, of ?puts] visit_puts [of visits ?c] assms(4) by force
  ultimately have "jm_get (visit visits ?c) ?k \<noteq> None" using store_key_in [OF assms(3)] by blast
  moreover have "jm_get ?c ?k = Some (normalize_entry e)"
    by (simp add: cacheState_evict [OF assms(1)] jm_get_evict_touch MAX_CACHED_REPEATERS_def)
  ultimately have "jm_get (visit visits ?c) ?k = Some (normalize_entry e)"
    using visit_other [OF ok assms(4)] by auto
  then show ?thesis
    using assms(2,3) by (simp add: dash_open_def contact_id_def getCachedState_def or_null_def dash_entry_of_def Let_def)
qed

theorem dash_reopen_witness:
  "\<forall>e e'. dash_entry_of (fst (dash_open (Some (contact_conv ''ab'')) False
     (visit [(''cd'', e')] (cacheState ''ab'' e [])))) = normalize_entry e"
  using dash_reopen [of "[]" "contact_conv ''ab''" "[(''cd'', _)]" False]
  by (simp add: cache_ok_def contact_conv_def MAX_CACHED_REPEATERS_def)

end
