(* ===== verification/Contacts_Channels.thy ===== *)
theory Contacts_Channels
  imports Conversation_Router Api_Client
begin

text \<open>
  The contact and channel lists (\<^verbatim>\<open>hooks/useContactsAndChannels.ts\<close>): the paged fetch of all contacts, and the handlers that
  create and delete contacts and channels and move the user on. They work on the router's state, whose lists
  they own, and on the conversation hook, whose cache a deletion clears.

  What the server answers to each request of a handler is an argument; a handler stops at the first request that
  fails.
\<close>

section \<open>Fetching all contacts\<close>

text \<open>The route serves one page of a given size at an offset.\<close>

type_synonym contacts_route = "nat \<Rightarrow> nat \<Rightarrow> thrown + contact list"

definition pageSize :: nat where "pageSize = 1000"
definition wave_size :: nat where "wave_size = 4"

text \<open>\<^verbatim>\<open>Promise.all\<close> over the pages of a wave.\<close>

fun all_pages :: "(thrown + 'a) list \<Rightarrow> thrown + 'a list" where
  "all_pages [] = Inr []"
| "all_pages (Inl err # rs) = Inl err"
| "all_pages (Inr x # rs) = (case all_pages rs of Inl err \<Rightarrow> Inl err | Inr xs \<Rightarrow> Inr (x # xs))"

definition fetch_wave :: "contacts_route \<Rightarrow> nat \<Rightarrow> thrown + contact list list" where
  "fetch_wave route offset = all_pages (map (\<lambda>i. route pageSize (offset + i * pageSize)) [0..<wave_size])"

partial_function (option) fetch_waves :: "contacts_route \<Rightarrow> nat \<Rightarrow> contact list \<Rightarrow> (thrown + contact list) option" where
  "fetch_waves route offset acc =
     (case fetch_wave route offset of
        Inl err \<Rightarrow> Some (Inl err)
      | Inr pages \<Rightarrow>
          if length (pages ! (wave_size - 1)) < pageSize then Some (Inr (acc @ concat pages))
          else fetch_waves route (offset + wave_size * pageSize) (acc @ concat pages))"

text \<open>The outer option is whether the paging ends. The first page may have been prefetched.\<close>

definition fetchAllContacts ::
  "contacts_route \<Rightarrow> contact list prefetch_store \<Rightarrow> (thrown + contact list) option \<times> contact list prefetch_store" where
  "fetchAllContacts route store =
     (case takePrefetchOrFetch ''contacts'' (route pageSize 0) store of
        (Inl err, store') \<Rightarrow> (Some (Inl err), store')
      | (Inr first, store') \<Rightarrow>
          (if length first < pageSize then Some (Inr first) else fetch_waves route pageSize first, store'))"

text \<open>A route over a list: a page is the slice at its offset.\<close>

definition serves :: "contacts_route \<Rightarrow> contact list \<Rightarrow> bool" where
  "serves route contacts \<longleftrightarrow> (\<forall>n offset. route n offset = Inr (take n (drop offset contacts)))"

lemma fetch_wave_serves:
  assumes "serves route contacts"
  shows "fetch_wave route offset = Inr (map (\<lambda>i. take pageSize (drop (offset + i * pageSize) contacts)) [0..<wave_size])"
proof -
  have "all_pages (map (\<lambda>x. Inr (f x)) xs) = Inr (map f xs)" for f :: "nat \<Rightarrow> contact list" and xs
    by (induction xs) auto
  with assms show ?thesis by (simp add: fetch_wave_def serves_def)
qed

lemma concat_slices: "concat (map (\<lambda>i. take n (drop (offset + i * n) xs)) [0..<k]) = take (k * n) (drop offset xs)"
proof (induction k)
  case (Suc k)
  have "take (k * n + n) (drop offset xs) = take (k * n) (drop offset xs) @ take n (drop (offset + k * n) xs)"
    by (simp only: take_add drop_drop add.commute [of offset])
  with Suc show ?case by (simp add: add.commute [of n])
qed simp

lemma last_slice: "map (\<lambda>i. take n (drop (offset + i * n) xs)) [0..<wave_size] ! (wave_size - 1) = take n (drop (offset + 3 * n) xs)"
  by (simp add: wave_size_def)

lemma fetch_waves_serves:
  assumes "serves route contacts" and "acc = take offset contacts"
  shows "fetch_waves route offset acc = Some (Inr contacts)"
  using assms(2)
proof (induction "length contacts - offset" arbitrary: offset acc rule: less_induct)
  case less
  let ?pages = "map (\<lambda>i. take pageSize (drop (offset + i * pageSize) contacts)) [0..<wave_size]"
  have acc: "acc @ concat ?pages = take (offset + wave_size * pageSize) contacts"
    by (simp only: concat_slices less.prems take_add)
  show ?case
  proof (cases "length (?pages ! (wave_size - 1)) < pageSize")
    case True
    then have "length contacts < offset + wave_size * pageSize"
      by (simp only: last_slice) (simp add: pageSize_def wave_size_def)
    with True acc show ?thesis
      by (subst fetch_waves.simps) (simp add: fetch_wave_serves [OF assms(1)] del: upt_conv_Cons)
  next
    case False
    then have "length contacts - (offset + wave_size * pageSize) < length contacts - offset"
      by (simp only: last_slice) (simp add: pageSize_def wave_size_def)
    from less.hyps [OF this acc] False show ?thesis
      by (subst fetch_waves.simps) (simp add: fetch_wave_serves [OF assms(1)])
  qed
qed

text \<open>C14. The paged fetch ends and returns every contact exactly once and in order, for a list of any length, also
  when it fills its last page or its last wave exactly.\<close>

theorem fetchAllContacts_complete:
  assumes "serves route contacts" and "jm_get store ''contacts'' \<in> {None, Some (route pageSize 0), Some (Inl err)}"
  shows "fst (fetchAllContacts route store) = Some (Inr contacts)"
proof -
  have "takePrefetchOrFetch ''contacts'' (route pageSize 0) store = (route pageSize 0, jm_delete ''contacts'' store)"
    using assms by (auto simp: takePrefetchOrFetch_def takePrefetch_def serves_def)
  moreover have "fetch_waves route pageSize (take pageSize contacts) = Some (Inr contacts)"
    by (rule fetch_waves_serves [OF assms(1) refl])
  ultimately show ?thesis using assms(1) by (auto simp: fetchAllContacts_def serves_def)
qed

theorem fetchAllContacts_complete_witness:
  "fst (fetchAllContacts (\<lambda>n offset. Inr (take n (drop offset (replicate 6001 sample_contact)))) [])
   = Some (Inr (replicate 6001 sample_contact))"
  by (rule fetchAllContacts_complete) (simp_all add: serves_def)

section \<open>Creating and deleting\<close>

record lists_state =
  li_router :: router_state
  li_messages :: hook_state
  li_undecrypted :: nat
  li_successes :: "string list"
  li_errors :: "(string \<times> string option) list"

text \<open>\<^verbatim>\<open>err instanceof Error ? err.message : undefined\<close>\<close>

definition error_description :: "thrown \<Rightarrow> string option" where
  "error_description err = (if err = Thrown_value then None else Some (error_message [] err))"

definition setContacts :: "(contact list \<Rightarrow> contact list) \<Rightarrow> lists_state \<Rightarrow> lists_state" where
  "setContacts f st = st\<lparr> li_router := (li_router st)\<lparr> rt_contacts := f (rt_contacts (li_router st)) \<rparr> \<rparr>"

definition setChannels :: "channel list \<Rightarrow> lists_state \<Rightarrow> lists_state" where
  "setChannels channels st = st\<lparr> li_router := (li_router st)\<lparr> rt_channels := channels \<rparr> \<rparr>"

definition activate :: "conversation \<Rightarrow> lists_state \<Rightarrow> lists_state" where
  "activate conv st = st\<lparr> li_router := setActiveConversation (Some conv) (li_router st) \<rparr>"

definition fetchUndecryptedCount :: "thrown + nat \<Rightarrow> lists_state \<Rightarrow> lists_state" where
  "fetchUndecryptedCount answer st = (case answer of Inr n \<Rightarrow> st\<lparr> li_undecrypted := n \<rparr> | Inl _ \<Rightarrow> st)"

text \<open>A create handler does not catch: what it throws is the first component.\<close>

definition handleCreateContact ::
  "thrown + contact \<Rightarrow> thrown + contact list \<Rightarrow> lists_state \<Rightarrow> thrown option \<times> lists_state" where
  "handleCreateContact created_answer contacts_answer st =
     (case created_answer of
        Inl err \<Rightarrow> (Some err, st)
      | Inr created \<Rightarrow>
          (case contacts_answer of
             Inl err \<Rightarrow> (Some err, st)
           | Inr data \<Rightarrow> (None, activate (contact_conversation created) (setContacts (\<lambda>_. data) st))))"

text \<open>Creating a channel by its key, or by its name as a hashtag channel: the rest of the handler is the same.\<close>

definition create_channel ::
  "string \<Rightarrow> bool \<Rightarrow> thrown + channel \<Rightarrow> thrown + channel list \<Rightarrow> thrown + unit \<Rightarrow> thrown + nat \<Rightarrow> lists_state
    \<Rightarrow> thrown option \<times> lists_state" where
  "create_channel name tryHistorical created_answer channels_answer decrypt_answer count_answer st =
     (case created_answer of
        Inl err \<Rightarrow> (Some err, st)
      | Inr created \<Rightarrow>
          (case channels_answer of
             Inl err \<Rightarrow> (Some err, st)
           | Inr data \<Rightarrow>
               (let st' = activate (plain_conversation Cv_channel (ch_key created) name) (setChannels data st) in
                if \<not> tryHistorical then (None, st')
                else (case decrypt_answer of
                        Inl err \<Rightarrow> (Some err, st')
                      | Inr _ \<Rightarrow> (None, fetchUndecryptedCount count_answer st')))))"

definition handleCreateChannel ::
  "string \<Rightarrow> bool \<Rightarrow> thrown + channel \<Rightarrow> thrown + channel list \<Rightarrow> thrown + unit \<Rightarrow> thrown + nat \<Rightarrow> lists_state
    \<Rightarrow> thrown option \<times> lists_state" where
  "handleCreateChannel = create_channel"

definition hashtag_name :: "string \<Rightarrow> string" where
  "hashtag_name name = (if starts_with name ''#'' then name else ''#'' @ name)"

definition handleCreateHashtagChannel ::
  "string \<Rightarrow> bool \<Rightarrow> thrown + channel \<Rightarrow> thrown + channel list \<Rightarrow> thrown + unit \<Rightarrow> thrown + nat \<Rightarrow> lists_state
    \<Rightarrow> thrown option \<times> lists_state" where
  "handleCreateHashtagChannel name = create_channel (hashtag_name name)"

definition handleBulkCreateHashtagChannels ::
  "bool \<Rightarrow> thrown + bool \<Rightarrow> thrown + channel list \<Rightarrow> thrown + nat \<Rightarrow> lists_state \<Rightarrow> thrown option \<times> lists_state" where
  "handleBulkCreateHashtagChannels tryHistorical bulk_answer channels_answer count_answer st =
     (case bulk_answer of
        Inl err \<Rightarrow> (Some err, st)
      | Inr decrypt_started \<Rightarrow>
          (case channels_answer of
             Inl err \<Rightarrow> (Some err, st)
           | Inr data \<Rightarrow>
               (let st' = setChannels data st in
                (None, if tryHistorical \<and> decrypt_started then fetchUndecryptedCount count_answer st' else st'))))"

text \<open>Where a deletion leads: the public channel of the refreshed list, or its well-known key.\<close>

definition public_fallback :: "channel list \<Rightarrow> conversation" where
  "public_fallback channels =
     plain_conversation Cv_channel
       (or_else (map_option ch_key (findPublicChannel channels)) PUBLIC_CHANNEL_KEY)
       (or_else (map_option ch_name (findPublicChannel channels)) PUBLIC_CHANNEL_NAME)"

definition error_toast :: "string \<Rightarrow> thrown \<Rightarrow> lists_state \<Rightarrow> lists_state" where
  "error_toast title err st = st\<lparr> li_errors := li_errors st @ [(title, error_description err)] \<rparr>"

definition begin_delete :: "lists_state \<Rightarrow> lists_state" where
  "begin_delete st = st\<lparr> li_router := (li_router st)\<lparr> rt_pendingDeleteFallback := True \<rparr> \<rparr>"

text \<open>What follows a deletion on the server: the refreshed channels, and the way to the public channel.\<close>

definition after_delete :: "string \<Rightarrow> string \<Rightarrow> thrown + channel list \<Rightarrow> lists_state \<Rightarrow> lists_state" where
  "after_delete success failure channels_answer st =
     (case channels_answer of
        Inl err \<Rightarrow> error_toast failure err st
      | Inr refreshed \<Rightarrow>
          (let st1 = setChannels refreshed st;
               st2 = st1\<lparr> li_router := (li_router st1)\<lparr> rt_hasSetDefault := True \<rparr> \<rparr>;
               st3 = activate (public_fallback refreshed) st2
           in st3\<lparr> li_successes := li_successes st3 @ [success] \<rparr>))"

definition handleDeleteChannel ::
  "string \<Rightarrow> bool \<Rightarrow> thrown + unit \<Rightarrow> thrown + channel list \<Rightarrow> lists_state \<Rightarrow> lists_state" where
  "handleDeleteChannel key confirmed delete_answer channels_answer st =
     (if \<not> confirmed then st
      else (let st1 = begin_delete st in
            case delete_answer of
              Inl err \<Rightarrow> error_toast ''Failed to delete channel'' err st1
            | Inr _ \<Rightarrow> after_delete ''Channel deleted'' ''Failed to delete channel'' channels_answer
                (st1\<lparr> li_messages := removeConversationMessages key (li_messages st1) \<rparr>)))"

definition handleDeleteContact ::
  "string \<Rightarrow> bool \<Rightarrow> thrown + unit \<Rightarrow> thrown + channel list \<Rightarrow> lists_state \<Rightarrow> lists_state" where
  "handleDeleteContact publicKey confirmed delete_answer channels_answer st =
     (if \<not> confirmed then st
      else (let st1 = begin_delete st in
            case delete_answer of
              Inl err \<Rightarrow> error_toast ''Failed to delete contact'' err st1
            | Inr _ \<Rightarrow> after_delete ''Contact deleted'' ''Failed to delete contact'' channels_answer
                (setContacts (filter (\<lambda>c. ct_public_key c \<noteq> publicKey))
                   (st1\<lparr> li_messages := removeConversationMessages publicKey (li_messages st1) \<rparr>))))"

lemmas delete_simps = handleDeleteChannel_def handleDeleteContact_def after_delete_def begin_delete_def error_toast_def
  setContacts_def setChannels_def activate_def setActiveConversation_def removeConversationMessages_def Let_def

text \<open>A deletion that the server carries out leaves no trace of the contact in the list or in the message cache,
  whatever the refresh of the channels then gives, and with the refreshed channels it leads to the public one; one that is not confirmed or that the server refuses leaves both as
  they were.\<close>

theorem delete_contact_spec:
  "k \<notin> ct_public_key ` set (rt_contacts (li_router (handleDeleteContact k True (Inr ()) channels st)))
   \<and> rt_active (li_router (handleDeleteContact k True (Inr ()) (Inr refreshed) st)) = Some (public_fallback refreshed)
   \<and> jm_get (hk_cache (li_messages (handleDeleteContact k True (Inr ()) channels st))) k = None
   \<and> handleDeleteContact k False answer channels st = st
   \<and> rt_contacts (li_router (handleDeleteContact k True (Inl err) channels st)) = rt_contacts (li_router st)
   \<and> li_messages (handleDeleteContact k True (Inl err) channels st) = li_messages st
   \<and> rt_active (li_router (handleDeleteContact k True (Inl err) channels st)) = rt_active (li_router st)"
  by (auto simp: delete_simps cache_remove_def jm_get_delete split: sum.splits)

text \<open>When the server deletes the contact and the refresh of the channels fails, the contact is gone from the list,
  but the user is told that the deletion failed and stays in the conversation of the deleted contact.\<close>

theorem delete_contact_misreports:
  "li_errors (handleDeleteContact k True (Inr ()) (Inl err) st)
     = li_errors st @ [(''Failed to delete contact'', error_description err)]
   \<and> k \<notin> ct_public_key ` set (rt_contacts (li_router (handleDeleteContact k True (Inr ()) (Inl err) st)))
   \<and> rt_active (li_router (handleDeleteContact k True (Inr ()) (Inl err) st)) = rt_active (li_router st)"
  by (auto simp: delete_simps)

end
