(* ===== verification/Sidebar.thy ===== *)
theory Sidebar
  imports Url_Hash
begin

text \<open>
  The sidebar (\<^verbatim>\<open>components/Sidebar.tsx\<close>) without its markup: which conversations it lists, in which section and in
  which order, what each row shows, the sort orders of \<^verbatim>\<open>utils/conversationState.ts\<close> with their storage, and the
  collapsing of sections around a search.

  A comparison of the source is an integer as JavaScript's is; \<^verbatim>\<open>localeCompare\<close> and \<^verbatim>\<open>Intl.Collator().compare\<close> are one
  parameter \<open>lc\<close>.
\<close>

section \<open>Sort orders\<close>

datatype sort_order = Recent | Alpha | Type_recent | Type_alpha

datatype sortable_section = Sec_favorites | Sec_channels | Sec_contacts | Sec_rooms | Sec_repeaters

record section_sort_orders =
  so_favorites :: sort_order
  so_channels :: sort_order
  so_contacts :: sort_order
  so_rooms :: sort_order
  so_repeaters :: sort_order

definition FAVORITES_SORT_CYCLE :: "sort_order list" where
  "FAVORITES_SORT_CYCLE = [Recent, Alpha, Type_recent, Type_alpha]"

definition sort_order_str :: "sort_order \<Rightarrow> string" where
  "sort_order_str order =
     (case order of Recent \<Rightarrow> ''recent'' | Alpha \<Rightarrow> ''alpha'' | Type_recent \<Rightarrow> ''type-recent'' | Type_alpha \<Rightarrow> ''type-alpha'')"

definition coerceFavoritesSortOrder :: "json option \<Rightarrow> sort_order" where
  "coerceFavoritesSortOrder v =
     (case find (\<lambda>order. v = Some (JStr (sort_order_str order))) FAVORITES_SORT_CYCLE of Some order \<Rightarrow> order | None \<Rightarrow> Recent)"

definition coerceBasicSortOrder :: "json option \<Rightarrow> sort_order" where
  "coerceBasicSortOrder v = (if v = Some (JStr ''alpha'') then Alpha else Recent)"

definition buildSidebarSectionSortOrders :: "sort_order \<Rightarrow> section_sort_orders" where
  "buildSidebarSectionSortOrders order =
     \<lparr> so_favorites = order, so_channels = order, so_contacts = order, so_rooms = order, so_repeaters = order \<rparr>"

text \<open>What storage holds for the two keys: the legacy order as a text, the orders as the value they parse to (\<open>None\<close> for a
  text that does not parse).\<close>

record sidebar_storage =
  ss_available :: bool
  ss_legacyOrder :: "string option"
  ss_sectionOrders :: "json option option"
  ss_collapsed :: "json option option"

definition loadLegacyLocalStorageSortOrder :: "sidebar_storage \<Rightarrow> sort_order option" where
  "loadLegacyLocalStorageSortOrder ss =
     (if \<not> ss_available ss \<or> \<not> truthy (ss_legacyOrder ss) then None
      else Some (if ss_legacyOrder ss = Some ''alpha'' then Alpha else Recent))"

definition loadLocalStorageSidebarSectionSortOrders :: "sidebar_storage \<Rightarrow> section_sort_orders option" where
  "loadLocalStorageSidebarSectionSortOrders ss =
     (if \<not> ss_available ss then None
      else case ss_sectionOrders ss of
        None \<Rightarrow> None
      | Some None \<Rightarrow> None
      | Some (Some parsed) \<Rightarrow>
          if parsed = JNull then None
          else Some \<lparr> so_favorites = coerceFavoritesSortOrder (json_member parsed ''favorites''),
                      so_channels = coerceBasicSortOrder (json_member parsed ''channels''),
                      so_contacts = coerceBasicSortOrder (json_member parsed ''contacts''),
                      so_rooms = coerceBasicSortOrder (json_member parsed ''rooms''),
                      so_repeaters = coerceBasicSortOrder (json_member parsed ''repeaters'') \<rparr>)"

definition sort_orders_json :: "section_sort_orders \<Rightarrow> json" where
  "sort_orders_json orders =
     JObj [(''favorites'', JStr (sort_order_str (so_favorites orders))), (''channels'', JStr (sort_order_str (so_channels orders))),
           (''contacts'', JStr (sort_order_str (so_contacts orders))), (''rooms'', JStr (sort_order_str (so_rooms orders))),
           (''repeaters'', JStr (sort_order_str (so_repeaters orders)))]"

definition saveLocalStorageSidebarSectionSortOrders :: "section_sort_orders \<Rightarrow> sidebar_storage \<Rightarrow> sidebar_storage" where
  "saveLocalStorageSidebarSectionSortOrders orders ss =
     (if ss_available ss then ss\<lparr> ss_sectionOrders := Some (Some (sort_orders_json orders)) \<rparr> else ss)"

definition loadInitialSectionSortOrders :: "sidebar_storage \<Rightarrow> section_sort_orders \<times> sidebar_storage" where
  "loadInitialSectionSortOrders ss =
     (case loadLocalStorageSidebarSectionSortOrders ss of
        Some orders \<Rightarrow> (orders, ss)
      | None \<Rightarrow>
          (let orders = buildSidebarSectionSortOrders (coalesce (loadLegacyLocalStorageSortOrder ss) Recent) in
           (orders, saveLocalStorageSidebarSectionSortOrders orders ss)))"

definition cycle_index :: "sort_order \<Rightarrow> nat" where
  "cycle_index order = (case order of Recent \<Rightarrow> 0 | Alpha \<Rightarrow> 1 | Type_recent \<Rightarrow> 2 | Type_alpha \<Rightarrow> 3)"

definition nextSortOrder :: "sortable_section \<Rightarrow> sort_order \<Rightarrow> sort_order" where
  "nextSortOrder s current =
     (if s = Sec_favorites then FAVORITES_SORT_CYCLE ! ((cycle_index current + 1) mod length FAVORITES_SORT_CYCLE)
      else if current = Alpha then Recent else Alpha)"

fun section_order :: "section_sort_orders \<Rightarrow> sortable_section \<Rightarrow> sort_order" where
  "section_order orders Sec_favorites = so_favorites orders"
| "section_order orders Sec_channels = so_channels orders"
| "section_order orders Sec_contacts = so_contacts orders"
| "section_order orders Sec_rooms = so_rooms orders"
| "section_order orders Sec_repeaters = so_repeaters orders"

fun set_section_order :: "sortable_section \<Rightarrow> sort_order \<Rightarrow> section_sort_orders \<Rightarrow> section_sort_orders" where
  "set_section_order Sec_favorites order orders = orders\<lparr> so_favorites := order \<rparr>"
| "set_section_order Sec_channels order orders = orders\<lparr> so_channels := order \<rparr>"
| "set_section_order Sec_contacts order orders = orders\<lparr> so_contacts := order \<rparr>"
| "set_section_order Sec_rooms order orders = orders\<lparr> so_rooms := order \<rparr>"
| "set_section_order Sec_repeaters order orders = orders\<lparr> so_repeaters := order \<rparr>"

definition handleSortToggle ::
  "sortable_section \<Rightarrow> section_sort_orders \<times> sidebar_storage \<Rightarrow> section_sort_orders \<times> sidebar_storage" where
  "handleSortToggle s st =
     (let updated = set_section_order s (nextSortOrder s (section_order (fst st) s)) (fst st) in
      (updated, saveLocalStorageSidebarSectionSortOrders updated (snd st)))"

section \<open>Which conversations, in which order\<close>

record sidebar_props =
  sb_contacts :: "contact list"
  sb_channels :: "channel list"
  sb_lastMessageTimes :: conversation_times
  sb_unreadCounts :: "(string, nat) jsmap"
  sb_mentions :: "(string, bool) jsmap"
  sb_blockedKeys :: "string list"
  sb_blockedNames :: "string list"

text \<open>An array sorted by a comparison.\<close>

definition js_sort :: "('a \<Rightarrow> 'a \<Rightarrow> int) \<Rightarrow> 'a list \<Rightarrow> 'a list" where
  "js_sort cmp = sort_by (\<lambda>a b. cmp a b \<le> 0)"

definition isContactBlocked :: "sidebar_props \<Rightarrow> contact \<Rightarrow> bool" where
  "isContactBlocked sb c \<longleftrightarrow> to_lower (ct_public_key c) \<in> set (sb_blockedKeys sb)
     \<or> (\<exists>n \<in> set_option (ct_name c). n \<in> set (sb_blockedNames sb))"

definition getUnreadCount :: "sidebar_props \<Rightarrow> tracked_type \<Rightarrow> string \<Rightarrow> nat" where
  "getUnreadCount sb t i = coalesce (jm_get (sb_unreadCounts sb) (getStateKey t i)) 0"

definition hasMention :: "sidebar_props \<Rightarrow> tracked_type \<Rightarrow> string \<Rightarrow> bool" where
  "hasMention sb t i \<longleftrightarrow> coalesce (jm_get (sb_mentions sb) (getStateKey t i)) False"

definition getLastMessageTime :: "sidebar_props \<Rightarrow> tracked_type \<Rightarrow> string \<Rightarrow> int" where
  "getLastMessageTime sb t i = coalesce (jm_get (sb_lastMessageTimes sb) (getStateKey t i)) 0"

definition getContactHeardTime :: "contact \<Rightarrow> int" where
  "getContactHeardTime c =
     (if coalesce (ct_last_seen c) 0 \<noteq> 0 then the (ct_last_seen c) else coalesce (ct_last_advert c) 0)"

definition getContactRecentTime :: "sidebar_props \<Rightarrow> contact \<Rightarrow> int" where
  "getContactRecentTime sb c =
     (if ct_type c = CONTACT_TYPE_REPEATER then getContactHeardTime c
      else if getLastMessageTime sb Tr_contact (ct_public_key c) \<noteq> 0 then getLastMessageTime sb Tr_contact (ct_public_key c)
      else getContactHeardTime c)"

fun dedupe :: "('a \<Rightarrow> 'k) \<Rightarrow> 'k list \<Rightarrow> 'a list \<Rightarrow> 'a list" where
  "dedupe key seen [] = []"
| "dedupe key seen (x # xs) = (if key x \<in> set seen then dedupe key seen xs else x # dedupe key (key x # seen) xs)"

definition uniqueChannels :: "sidebar_props \<Rightarrow> channel list" where
  "uniqueChannels sb = dedupe ch_key [] (sb_channels sb)"

definition named_first :: "(string \<Rightarrow> string \<Rightarrow> int) \<Rightarrow> contact \<Rightarrow> contact \<Rightarrow> int" where
  "named_first lc a b =
     (if truthy (ct_name a) \<and> \<not> truthy (ct_name b) then -1
      else if \<not> truthy (ct_name a) \<and> truthy (ct_name b) then 1
      else lc (or_else (ct_name a) []) (or_else (ct_name b) []))"

definition uniqueContacts :: "(string \<Rightarrow> string \<Rightarrow> int) \<Rightarrow> sidebar_props \<Rightarrow> contact list" where
  "uniqueContacts lc sb =
     dedupe ct_public_key [] (js_sort (named_first lc) (filter (\<lambda>c. ct_public_key c \<noteq> []) (sb_contacts sb)))"

text \<open>The comparison by two times, where a time of 0 is a missing one and comes last; two missing times are left to the
  comparison that follows.\<close>

definition by_recency :: "int \<Rightarrow> int \<Rightarrow> int \<Rightarrow> int" where
  "by_recency timeA timeB rest =
     (if timeA \<noteq> 0 \<and> timeB \<noteq> 0 then timeB - timeA
      else if timeA \<noteq> 0 then -1
      else if timeB \<noteq> 0 then 1
      else rest)"

definition channel_cmp :: "(string \<Rightarrow> string \<Rightarrow> int) \<Rightarrow> sidebar_props \<Rightarrow> sort_order \<Rightarrow> channel \<Rightarrow> channel \<Rightarrow> int" where
  "channel_cmp lc sb order a b =
     (if isPublicChannelKey (ch_key a) then -1
      else if isPublicChannelKey (ch_key b) then 1
      else if ch_muted a \<and> \<not> ch_muted b then 1
      else if \<not> ch_muted a \<and> ch_muted b then -1
      else (let rest = lc (ch_name a) (ch_name b) in
            if order = Recent
            then by_recency (getLastMessageTime sb Tr_channel (ch_key a)) (getLastMessageTime sb Tr_channel (ch_key b)) rest
            else rest))"

definition sortedChannels :: "(string \<Rightarrow> string \<Rightarrow> int) \<Rightarrow> sidebar_props \<Rightarrow> section_sort_orders \<Rightarrow> channel list" where
  "sortedChannels lc sb orders = js_sort (channel_cmp lc sb (so_channels orders)) (uniqueChannels sb)"

definition contact_label :: "contact \<Rightarrow> string" where
  "contact_label c = or_else (ct_name c) (ct_public_key c)"

definition contact_cmp :: "(string \<Rightarrow> string \<Rightarrow> int) \<Rightarrow> sidebar_props \<Rightarrow> sort_order \<Rightarrow> contact \<Rightarrow> contact \<Rightarrow> int" where
  "contact_cmp lc sb order a b =
     (let unreadA = getUnreadCount sb Tr_contact (ct_public_key a); unreadB = getUnreadCount sb Tr_contact (ct_public_key b) in
      if 0 < unreadA \<and> unreadB = 0 then -1
      else if unreadA = 0 \<and> 0 < unreadB then 1
      else (let rest = lc (contact_label a) (contact_label b) in
            if order = Recent then by_recency (getContactRecentTime sb a) (getContactRecentTime sb b) rest else rest))"

definition sortContactsByOrder ::
  "(string \<Rightarrow> string \<Rightarrow> int) \<Rightarrow> sidebar_props \<Rightarrow> contact list \<Rightarrow> sort_order \<Rightarrow> contact list" where
  "sortContactsByOrder lc sb items order = js_sort (contact_cmp lc sb order) items"

definition repeater_cmp :: "(string \<Rightarrow> string \<Rightarrow> int) \<Rightarrow> sort_order \<Rightarrow> contact \<Rightarrow> contact \<Rightarrow> int" where
  "repeater_cmp lc order a b =
     (let rest = lc (contact_label a) (contact_label b) in
      if order = Recent then by_recency (getContactHeardTime a) (getContactHeardTime b) rest else rest)"

definition sortRepeatersByOrder :: "(string \<Rightarrow> string \<Rightarrow> int) \<Rightarrow> contact list \<Rightarrow> sort_order \<Rightarrow> contact list" where
  "sortRepeatersByOrder lc items order = js_sort (repeater_cmp lc order) items"

datatype favorite_item = Fav_channel channel | Fav_contact contact

fun favoriteTypeRank :: "favorite_item \<Rightarrow> int" where
  "favoriteTypeRank (Fav_channel _) = 0"
| "favoriteTypeRank (Fav_contact c) =
     (if ct_type c = CONTACT_TYPE_ROOM then 2 else if ct_type c = CONTACT_TYPE_REPEATER then 3 else 1)"

fun getFavoriteItemName :: "favorite_item \<Rightarrow> string" where
  "getFavoriteItemName (Fav_channel c) = ch_name c"
| "getFavoriteItemName (Fav_contact c) = getContactDisplayName (ct_name c) (ct_public_key c) (ct_last_advert c)"

fun favorite_time :: "sidebar_props \<Rightarrow> favorite_item \<Rightarrow> int" where
  "favorite_time sb (Fav_channel c) = getLastMessageTime sb Tr_channel (ch_key c)"
| "favorite_time sb (Fav_contact c) = getContactRecentTime sb c"

definition favorite_cmp :: "(string \<Rightarrow> string \<Rightarrow> int) \<Rightarrow> sidebar_props \<Rightarrow> sort_order \<Rightarrow> favorite_item \<Rightarrow> favorite_item \<Rightarrow> int" where
  "favorite_cmp lc sb order a b =
     (let typeGrouped = order = Type_recent \<or> order = Type_alpha;
          byRecent = order = Recent \<or> order = Type_recent;
          rankDiff = favoriteTypeRank a - favoriteTypeRank b;
          rest = lc (getFavoriteItemName a) (getFavoriteItemName b)
      in if typeGrouped \<and> rankDiff \<noteq> 0 then rankDiff
         else if byRecent then by_recency (favorite_time sb a) (favorite_time sb b) rest else rest)"

definition sortFavoriteItemsByOrder ::
  "(string \<Rightarrow> string \<Rightarrow> int) \<Rightarrow> sidebar_props \<Rightarrow> favorite_item list \<Rightarrow> sort_order \<Rightarrow> favorite_item list" where
  "sortFavoriteItemsByOrder lc sb items order = js_sort (favorite_cmp lc sb order) items"

section \<open>Sections\<close>

record sidebar_sections =
  sc_favorites :: "favorite_item list"
  sc_channels :: "channel list"
  sc_contacts :: "contact list"
  sc_rooms :: "contact list"
  sc_repeaters :: "contact list"

definition channel_matches :: "string \<Rightarrow> channel \<Rightarrow> bool" where
  "channel_matches query c \<longleftrightarrow> query = [] \<or> str_includes (to_lower (ch_name c)) query \<or> starts_with (to_lower (ch_key c)) query"

definition contact_matches :: "string \<Rightarrow> contact \<Rightarrow> bool" where
  "contact_matches query c \<longleftrightarrow> query = []
     \<or> (case ct_name c of Some n \<Rightarrow> str_includes (to_lower n) query | None \<Rightarrow> False)
     \<or> starts_with (to_lower (ct_public_key c)) query"

definition visible_contacts :: "sidebar_props \<Rightarrow> string \<Rightarrow> contact list \<Rightarrow> contact list" where
  "visible_contacts sb query cs = filter (contact_matches query) (filter (\<lambda>c. \<not> isContactBlocked sb c) cs)"

definition sidebar_query :: "string \<Rightarrow> string" where
  "sidebar_query searchQuery = trim (to_lower searchQuery)"

definition sidebar_sections ::
  "(string \<Rightarrow> string \<Rightarrow> int) \<Rightarrow> sidebar_props \<Rightarrow> section_sort_orders \<Rightarrow> string \<Rightarrow> sidebar_sections" where
  "sidebar_sections lc sb orders query =
     (let unique = uniqueContacts lc sb;
          filteredChannels = filter (channel_matches query) (sortedChannels lc sb orders);
          filteredNonRepeaterContacts = visible_contacts sb query
            (sortContactsByOrder lc sb (filter (\<lambda>c. ct_type c \<noteq> CONTACT_TYPE_REPEATER \<and> ct_type c \<noteq> CONTACT_TYPE_ROOM) unique)
               (so_contacts orders));
          filteredRooms = visible_contacts sb query
            (sortContactsByOrder lc sb (filter (\<lambda>c. ct_type c = CONTACT_TYPE_ROOM) unique) (so_rooms orders));
          filteredRepeaters = visible_contacts sb query
            (sortRepeatersByOrder lc (filter (\<lambda>c. ct_type c = CONTACT_TYPE_REPEATER) unique) (so_repeaters orders));
          favChannels = filter ch_favorite filteredChannels;
          favContacts = filter ct_favorite (filteredNonRepeaterContacts @ filteredRooms @ filteredRepeaters)
      in \<lparr> sc_favorites = sortFavoriteItemsByOrder lc sb (map Fav_channel favChannels @ map Fav_contact favContacts) (so_favorites orders),
           sc_channels = filter (\<lambda>c. \<not> ch_favorite c) filteredChannels,
           sc_contacts = filter (\<lambda>c. \<not> ct_favorite c) filteredNonRepeaterContacts,
           sc_rooms = filter (\<lambda>c. \<not> ct_favorite c) filteredRooms,
           sc_repeaters = filter (\<lambda>c. \<not> ct_favorite c) filteredRepeaters \<rparr>)"

section \<open>Rows\<close>

record conversation_row =
  rw_key :: string
  rw_type :: tracked_type
  rw_id :: string
  rw_name :: string
  rw_unreadCount :: nat
  rw_isMention :: bool
  rw_notificationsEnabled :: bool
  rw_muted :: "bool option"
  rw_contact :: "contact option"

definition buildChannelRow :: "(tracked_type \<Rightarrow> string \<Rightarrow> bool) \<Rightarrow> sidebar_props \<Rightarrow> channel \<Rightarrow> string \<Rightarrow> conversation_row" where
  "buildChannelRow notify sb c keyPrefix =
     \<lparr> rw_key = keyPrefix @ ''-'' @ ch_key c, rw_type = Tr_channel, rw_id = ch_key c, rw_name = ch_name c,
       rw_unreadCount = (if ch_muted c then 0 else getUnreadCount sb Tr_channel (ch_key c)),
       rw_isMention = (if ch_muted c then False else hasMention sb Tr_channel (ch_key c)),
       rw_notificationsEnabled = notify Tr_channel (ch_key c), rw_muted = Some (ch_muted c), rw_contact = None \<rparr>"

definition buildContactRow :: "(tracked_type \<Rightarrow> string \<Rightarrow> bool) \<Rightarrow> sidebar_props \<Rightarrow> contact \<Rightarrow> string \<Rightarrow> conversation_row" where
  "buildContactRow notify sb c keyPrefix =
     \<lparr> rw_key = keyPrefix @ ''-'' @ ct_public_key c, rw_type = Tr_contact, rw_id = ct_public_key c,
       rw_name = getContactDisplayName (ct_name c) (ct_public_key c) (ct_last_advert c),
       rw_unreadCount = getUnreadCount sb Tr_contact (ct_public_key c), rw_isMention = hasMention sb Tr_contact (ct_public_key c),
       rw_notificationsEnabled = notify Tr_contact (ct_public_key c), rw_muted = None, rw_contact = Some c \<rparr>"

definition highlightUnread :: "conversation_row \<Rightarrow> bool" where
  "highlightUnread row \<longleftrightarrow> rw_isMention row
     \<or> rw_type row = Tr_contact \<and> map_option ct_type (rw_contact row) \<noteq> Some CONTACT_TYPE_REPEATER
       \<and> map_option ct_type (rw_contact row) \<noteq> Some CONTACT_TYPE_ROOM \<and> 0 < rw_unreadCount row"

definition getSectionUnreadCount :: "conversation_row list \<Rightarrow> nat" where
  "getSectionUnreadCount rows = foldl (\<lambda>acc row. acc + rw_unreadCount row) 0 rows"

definition sectionHasMention :: "conversation_row list \<Rightarrow> bool" where
  "sectionHasMention rows \<longleftrightarrow> list_ex rw_isMention rows"

record sidebar_rows =
  sr_favorites :: "conversation_row list"
  sr_channels :: "conversation_row list"
  sr_contacts :: "conversation_row list"
  sr_rooms :: "conversation_row list"
  sr_repeaters :: "conversation_row list"

definition favorite_row :: "(tracked_type \<Rightarrow> string \<Rightarrow> bool) \<Rightarrow> sidebar_props \<Rightarrow> favorite_item \<Rightarrow> conversation_row" where
  "favorite_row notify sb item =
     (case item of Fav_channel c \<Rightarrow> buildChannelRow notify sb c ''fav-chan'' | Fav_contact c \<Rightarrow> buildContactRow notify sb c ''fav-contact'')"

definition sidebar_rows :: "(tracked_type \<Rightarrow> string \<Rightarrow> bool) \<Rightarrow> sidebar_props \<Rightarrow> sidebar_sections \<Rightarrow> sidebar_rows" where
  "sidebar_rows notify sb sec =
     \<lparr> sr_favorites = map (favorite_row notify sb) (sc_favorites sec),
       sr_channels = map (\<lambda>c. buildChannelRow notify sb c ''chan'') (sc_channels sec),
       sr_contacts = map (\<lambda>c. buildContactRow notify sb c ''contact'') (sc_contacts sec),
       sr_rooms = map (\<lambda>c. buildContactRow notify sb c ''room'') (sc_rooms sec),
       sr_repeaters = map (\<lambda>c. buildContactRow notify sb c ''repeater'') (sc_repeaters sec) \<rparr>"

text \<open>A section shows a first page of its rows, and one page more for each click.\<close>

definition SECTION_ROW_PAGE_SIZE :: nat where "SECTION_ROW_PAGE_SIZE = 100"

type_synonym row_limits = "(string, nat) jsmap"

definition section_limit :: "row_limits \<Rightarrow> string \<Rightarrow> nat" where
  "section_limit limits s = coalesce (jm_get limits s) SECTION_ROW_PAGE_SIZE"

definition shown_rows :: "row_limits \<Rightarrow> string \<Rightarrow> 'a list \<Rightarrow> 'a list" where
  "shown_rows limits s rows = take (section_limit limits s) rows"

definition show_more :: "string \<Rightarrow> row_limits \<Rightarrow> row_limits" where
  "show_more s limits = jm_set s (section_limit limits s + SECTION_ROW_PAGE_SIZE) limits"

section \<open>Collapsing around a search\<close>

record collapse_state =
  co_tools :: bool
  co_favorites :: bool
  co_channels :: bool
  co_contacts :: bool
  co_rooms :: bool
  co_repeaters :: bool

definition DEFAULT_COLLAPSE_STATE :: collapse_state where
  "DEFAULT_COLLAPSE_STATE = \<lparr> co_tools = False, co_favorites = False, co_channels = False, co_contacts = False,
     co_rooms = False, co_repeaters = False \<rparr>"

text \<open>A member that is missing or \<^verbatim>\<open>null\<close> is false; anything else is read for its truth by the render.\<close>

definition collapse_member :: "json \<Rightarrow> string \<Rightarrow> bool" where
  "collapse_member parsed k =
     (case json_member parsed k of Some (JBool b) \<Rightarrow> b | Some JNull \<Rightarrow> False | None \<Rightarrow> False
      | Some (JNum r) \<Rightarrow> r \<noteq> 0 | Some (JStr s) \<Rightarrow> s \<noteq> [] | Some (JArr _) \<Rightarrow> True | Some (JObj _) \<Rightarrow> True)"

definition loadCollapsedState :: "sidebar_storage \<Rightarrow> collapse_state" where
  "loadCollapsedState ss =
     (if \<not> ss_available ss then DEFAULT_COLLAPSE_STATE
      else case ss_collapsed ss of
        Some (Some parsed) \<Rightarrow>
          if parsed = JNull then DEFAULT_COLLAPSE_STATE
          else \<lparr> co_tools = collapse_member parsed ''tools'', co_favorites = collapse_member parsed ''favorites'',
                 co_channels = collapse_member parsed ''channels'', co_contacts = collapse_member parsed ''contacts'',
                 co_rooms = collapse_member parsed ''rooms'', co_repeaters = collapse_member parsed ''repeaters'' \<rparr>
      | _ \<Rightarrow> DEFAULT_COLLAPSE_STATE)"

definition collapse_json :: "collapse_state \<Rightarrow> json" where
  "collapse_json co =
     JObj [(''tools'', JBool (co_tools co)), (''favorites'', JBool (co_favorites co)), (''channels'', JBool (co_channels co)),
           (''contacts'', JBool (co_contacts co)), (''rooms'', JBool (co_rooms co)), (''repeaters'', JBool (co_repeaters co))]"

record collapse_view =
  cv_query :: string
  cv_collapsed :: collapse_state
  cv_snapshot :: "collapse_state option"
  cv_storage :: sidebar_storage

definition isSearching :: "collapse_view \<Rightarrow> bool" where
  "isSearching v \<longleftrightarrow> sidebar_query (cv_query v) \<noteq> []"

text \<open>The two effects after a render; both see the state of that render, and what the first sets is rendered next.\<close>

definition search_effect :: "collapse_view \<Rightarrow> collapse_view" where
  "search_effect v =
     (if isSearching v then
        v\<lparr> cv_snapshot := (case cv_snapshot v of Some s \<Rightarrow> Some s | None \<Rightarrow> Some (cv_collapsed v)),
           cv_collapsed := (if cv_collapsed v \<noteq> DEFAULT_COLLAPSE_STATE then DEFAULT_COLLAPSE_STATE else cv_collapsed v) \<rparr>
      else case cv_snapshot v of
        Some prev \<Rightarrow> v\<lparr> cv_snapshot := None, cv_collapsed := prev \<rparr>
      | None \<Rightarrow> v)"

definition persist_effect :: "collapse_view \<Rightarrow> sidebar_storage" where
  "persist_effect v =
     (if isSearching v \<or> \<not> ss_available (cv_storage v) then cv_storage v
      else (cv_storage v)\<lparr> ss_collapsed := Some (Some (collapse_json (cv_collapsed v))) \<rparr>)"

definition collapse_render :: "collapse_view \<Rightarrow> collapse_view" where
  "collapse_render v = (search_effect v)\<lparr> cv_storage := persist_effect v \<rparr>"

text \<open>Renders until nothing is set any more: at most one more.\<close>

definition collapse_settle :: "collapse_view \<Rightarrow> collapse_view" where
  "collapse_settle v = collapse_render (collapse_render v)"

definition set_query :: "string \<Rightarrow> collapse_view \<Rightarrow> collapse_view" where
  "set_query query v = collapse_settle (v\<lparr> cv_query := query \<rparr>)"

definition toggle_section :: "(collapse_state \<Rightarrow> collapse_state) \<Rightarrow> collapse_view \<Rightarrow> collapse_view" where
  "toggle_section f v = (if isSearching v then v else collapse_settle (v\<lparr> cv_collapsed := f (cv_collapsed v) \<rparr>))"

section \<open>Every conversation is listed once\<close>

lemma dedupe_keys: "distinct (map key (dedupe key seen xs)) \<and> key ` set (dedupe key seen xs) = key ` set xs - set seen"
  by (induction xs arbitrary: seen) auto

lemma distinct_unique:
  "distinct (map ch_key (uniqueChannels sb))" "distinct (map ct_public_key (uniqueContacts lc sb))"
  by (simp_all add: uniqueChannels_def uniqueContacts_def dedupe_keys)

lemma keys_unique:
  "ch_key ` set (uniqueChannels sb) = ch_key ` set (sb_channels sb)"
  "ct_public_key ` set (uniqueContacts lc sb) = ct_public_key ` set (sb_contacts sb) - {[]}"
  by (auto simp: uniqueChannels_def uniqueContacts_def dedupe_keys js_sort_def)

definition all_rows :: "sidebar_rows \<Rightarrow> conversation_row list" where
  "all_rows rows = sr_favorites rows @ sr_channels rows @ sr_contacts rows @ sr_rooms rows @ sr_repeaters rows"

definition row_ref :: "conversation_row \<Rightarrow> tracked_type \<times> string" where
  "row_ref row = (rw_type row, rw_id row)"

definition item_ref :: "favorite_item \<Rightarrow> tracked_type \<times> string" where
  "item_ref item = (case item of Fav_channel c \<Rightarrow> (Tr_channel, ch_key c) | Fav_contact c \<Rightarrow> (Tr_contact, ct_public_key c))"

lemma row_refs [simp]:
  "row_ref (favorite_row notify sb item) = item_ref item"
  "row_ref (buildChannelRow notify sb c p) = (Tr_channel, ch_key c)"
  "row_ref (buildContactRow notify sb d p) = (Tr_contact, ct_public_key d)"
  by (simp_all add: row_ref_def item_ref_def favorite_row_def buildChannelRow_def buildContactRow_def split: favorite_item.split)

text \<open>The rows of all sections together are, up to their order, the visible channels and contacts.\<close>

lemma filter_favorite_mset: "mset (filter P xs) + mset (filter (\<lambda>x. \<not> P x) xs) = mset xs"
  by (induction xs) auto

lemma mset_js_sort [simp]: "mset (js_sort cmp xs) = mset xs"
  by (simp add: js_sort_def)

lemma item_ref_maps: "map item_ref (map Fav_channel cs @ map Fav_contact ds)
    = map (\<lambda>c. (Tr_channel, ch_key c)) cs @ map (\<lambda>d. (Tr_contact, ct_public_key d)) ds"
  by (simp add: item_ref_def)

lemma mset_contact_kinds:
  "mset (filter (\<lambda>c. ct_type c \<noteq> CONTACT_TYPE_REPEATER \<and> ct_type c \<noteq> CONTACT_TYPE_ROOM) cs)
   + mset (filter (\<lambda>c. ct_type c = CONTACT_TYPE_ROOM) cs) + mset (filter (\<lambda>c. ct_type c = CONTACT_TYPE_REPEATER) cs) = mset cs"
  by (induction cs) (auto simp: CONTACT_TYPE_REPEATER_def CONTACT_TYPE_ROOM_def)

lemma mset_visible: "mset (visible_contacts sb query cs) = filter_mset (\<lambda>c. contact_matches query c \<and> \<not> isContactBlocked sb c) (mset cs)"
  by (simp add: visible_contacts_def filter_filter_mset conj_commute)

lemma image_part: "image_mset f (filter_mset P M) + image_mset f (filter_mset (\<lambda>x. \<not> P x) M) = image_mset f M"
  by (metis image_mset_union multiset_partition)

abbreviation channel_ref :: "channel \<Rightarrow> tracked_type \<times> string" where "channel_ref c \<equiv> (Tr_channel, ch_key c)"
abbreviation contact_ref :: "contact \<Rightarrow> tracked_type \<times> string" where "contact_ref c \<equiv> (Tr_contact, ct_public_key c)"

lemma image_item_ref:
  "image_mset item_ref (image_mset Fav_channel M) = image_mset channel_ref M"
  "image_mset item_ref (image_mset Fav_contact N) = image_mset contact_ref N"
  by (simp_all add: image_mset.compositionality comp_def item_ref_def)

lemma image_row_ref:
  "image_mset row_ref (image_mset (favorite_row notify sb) K) = image_mset item_ref K"
  "image_mset row_ref (image_mset (\<lambda>c. buildChannelRow notify sb c p) M) = image_mset channel_ref M"
  "image_mset row_ref (image_mset (\<lambda>c. buildContactRow notify sb c p) N) = image_mset contact_ref N"
  by (simp_all add: image_mset.compositionality comp_def)

lemma split_favorites:
  "image_mset f (filter_mset P C) + image_mset g (filter_mset Q (A + (R + T))) +
     (image_mset f (filter_mset (\<lambda>x. \<not> P x) C) + (image_mset g (filter_mset (\<lambda>x. \<not> Q x) A) +
       (image_mset g (filter_mset (\<lambda>x. \<not> Q x) R) + image_mset g (filter_mset (\<lambda>x. \<not> Q x) T))))
   = image_mset f C + image_mset g (A + R + T)"
  unfolding image_part [of f P C, symmetric] image_part [of g Q "A + R + T", symmetric] by (simp add: ac_simps)

text \<open>The conversations of all rows, section after section.\<close>

abbreviation sidebar_refs ::
  "(tracked_type \<Rightarrow> string \<Rightarrow> bool) \<Rightarrow> (string \<Rightarrow> string \<Rightarrow> int) \<Rightarrow> sidebar_props \<Rightarrow> section_sort_orders \<Rightarrow> string
    \<Rightarrow> (tracked_type \<times> string) list" where
  "sidebar_refs notify lc sb orders query \<equiv> map row_ref (all_rows (sidebar_rows notify sb (sidebar_sections lc sb orders query)))"

lemma rows_mset:
  "mset (sidebar_refs notify lc sb orders query)
   = image_mset channel_ref (filter_mset (channel_matches query) (mset (uniqueChannels sb)))
     + image_mset contact_ref (filter_mset (\<lambda>c. contact_matches query c \<and> \<not> isContactBlocked sb c) (mset (uniqueContacts lc sb)))"
proof -
  let ?vis = "\<lambda>c. contact_matches query c \<and> \<not> isContactBlocked sb c"
  let ?u = "uniqueContacts lc sb"
  let ?A = "filter (\<lambda>c. ct_type c \<noteq> CONTACT_TYPE_REPEATER \<and> ct_type c \<noteq> CONTACT_TYPE_ROOM) ?u"
  let ?R = "filter (\<lambda>c. ct_type c = CONTACT_TYPE_ROOM) ?u"
  let ?T = "filter (\<lambda>c. ct_type c = CONTACT_TYPE_REPEATER) ?u"
  have "mset (map row_ref (all_rows (sidebar_rows notify sb (sidebar_sections lc sb orders query))))
      = image_mset channel_ref (filter_mset (channel_matches query) (mset (uniqueChannels sb)))
        + image_mset contact_ref (filter_mset ?vis (mset ?A) + filter_mset ?vis (mset ?R) + filter_mset ?vis (mset ?T))"
    unfolding split_favorites [of channel_ref ch_favorite _ contact_ref ct_favorite, symmetric]
    by (simp add: all_rows_def sidebar_rows_def sidebar_sections_def Let_def image_item_ref image_row_ref
        sortFavoriteItemsByOrder_def sortContactsByOrder_def sortRepeatersByOrder_def sortedChannels_def mset_visible
        image_mset.compositionality comp_def item_ref_def filter_filter_mset conj_ac)
  also have "filter_mset ?vis (mset ?A) + filter_mset ?vis (mset ?R) + filter_mset ?vis (mset ?T) = filter_mset ?vis (mset ?u)"
    using mset_contact_kinds [of ?u] by (metis filter_union_mset)
  finally show ?thesis .
qed


section \<open>The order within a section\<close>

text \<open>A criterion is a total preorder whose sign turns around with its arguments; this is what is relied on of
  \<^verbatim>\<open>localeCompare\<close>.\<close>

definition collates :: "('a \<Rightarrow> 'a \<Rightarrow> int) \<Rightarrow> bool" where
  "collates r \<longleftrightarrow> (\<forall>a b. r a b < 0 \<longleftrightarrow> 0 < r b a) \<and> (\<forall>a b c. r a b \<le> 0 \<longrightarrow> r b c \<le> 0 \<longrightarrow> r a c \<le> 0)"

text \<open>A comparison that sorts: transitive and total.\<close>

definition comparison :: "('a \<Rightarrow> 'a \<Rightarrow> int) \<Rightarrow> bool" where
  "comparison cmp \<longleftrightarrow> (\<forall>a b c. cmp a b \<le> 0 \<longrightarrow> cmp b c \<le> 0 \<longrightarrow> cmp a c \<le> 0) \<and> (\<forall>a b. cmp a b \<le> 0 \<or> cmp b a \<le> 0)"

lemma sorted_js_sort:
  assumes "comparison cmp"
  shows "sorted_wrt (\<lambda>a b. cmp a b \<le> 0) (js_sort cmp xs)"
  unfolding js_sort_def
proof (rule sorted_sort_by)
  show "transp (\<lambda>a b. cmp a b \<le> 0)" using assms unfolding comparison_def by (blast intro: transpI)
  show "\<And>a b. cmp a b \<le> 0 \<or> cmp b a \<le> 0" using assms unfolding comparison_def by blast
qed

lemma collates_comparison: "collates r \<Longrightarrow> comparison r"
  unfolding collates_def comparison_def by (meson linorder_not_le order_less_imp_le)

lemma collates_key: "collates (\<lambda>a b. f a - f b)" for f :: "'a \<Rightarrow> int"
  by (auto simp: collates_def)

text \<open>One criterion before another: equal elements of the first are left to the second.\<close>

lemma collates_then:
  assumes "collates r" and "collates q"
  shows "collates (\<lambda>a b. if r a b \<noteq> 0 then r a b else q a b)"
proof -
  have r: "r a b < 0 \<longleftrightarrow> 0 < r b a" "r a b \<le> 0 \<Longrightarrow> r b c \<le> 0 \<Longrightarrow> r a c \<le> 0"
    and q: "q a b < 0 \<longleftrightarrow> 0 < q b a" "q a b \<le> 0 \<Longrightarrow> q b c \<le> 0 \<Longrightarrow> q a c \<le> 0" for a b c
    using assms by (auto simp: collates_def)
  have eq: "r a b = 0 \<longleftrightarrow> r b a = 0" for a b using r(1) [of a b] r(1) [of b a] by linarith
  have strict: "r a c < 0" if "r a b < 0" "r b c \<le> 0" for a b c
    using that r(1) [of a b] r(1) [of a c] r(2) [of b c a] r(2) [of a b c] by (metis le_less not_le eq)
  have strict': "r a c < 0" if "r a b \<le> 0" "r b c < 0" for a b c
    using that r(1) [of b c] r(1) [of a c] r(2) [of c a b] r(2) [of a b c] by (metis le_less not_le eq)
  show ?thesis
    unfolding collates_def
  proof (intro conjI allI impI)
    fix a b
    show "(if r a b \<noteq> 0 then r a b else q a b) < 0 \<longleftrightarrow> 0 < (if r b a \<noteq> 0 then r b a else q b a)"
      using r(1) [of a b] q(1) [of a b] eq [of a b] by auto
  next
    fix a b c
    assume ab: "(if r a b \<noteq> 0 then r a b else q a b) \<le> 0" and bc: "(if r b c \<noteq> 0 then r b c else q b c) \<le> 0"
    then have "r a b \<le> 0" "r b c \<le> 0" by (auto split: if_splits)
    then have le: "r a c \<le> 0" by (rule r(2))
    show "(if r a c \<noteq> 0 then r a c else q a c) \<le> 0"
    proof (cases "r a c = 0")
      case True
      then have "r a b = 0" "r b c = 0"
        using strict [of a b c] strict' [of a b c] \<open>r a b \<le> 0\<close> \<open>r b c \<le> 0\<close> by linarith+
      with ab bc True q(2) show ?thesis by simp
    qed (use le in simp)
  qed
qed

lemma collates_map: "collates r \<Longrightarrow> collates (\<lambda>a b. r (f a) (f b))"
  by (simp add: collates_def)

lemma collates_recency:
  assumes "collates q"
  shows "collates (\<lambda>a b. by_recency (t a) (t b) (q a b))"
proof -
  have q: "q a b < 0 \<longleftrightarrow> 0 < q b a" "q a b \<le> 0 \<Longrightarrow> q b c \<le> 0 \<Longrightarrow> q a c \<le> 0" for a b c
    using assms by (auto simp: collates_def)
  show ?thesis
    unfolding collates_def by_recency_def by (auto simp: q(1) split: if_splits intro: q(2))
qed

lemma collates_contact: "collates lc \<Longrightarrow> collates (contact_cmp lc sb order)"
proof -
  assume lc: "collates lc"
  let ?u = "\<lambda>c. if 0 < getUnreadCount sb Tr_contact (ct_public_key c) then 0 else (1 :: int)"
  let ?q = "\<lambda>a b. let rest = lc (contact_label a) (contact_label b) in
    if order = Recent then by_recency (getContactRecentTime sb a) (getContactRecentTime sb b) rest else rest"
  have "collates ?q"
    using collates_recency [OF collates_map [OF lc, of contact_label]] collates_map [OF lc, of contact_label]
    by (cases "order = Recent") (simp_all add: Let_def)
  from collates_then [OF collates_key [of ?u] this] show ?thesis
    by (rule back_subst [of collates]) (auto simp: fun_eq_iff contact_cmp_def Let_def)
qed

lemma collates_favorite: "collates lc \<Longrightarrow> collates (favorite_cmp lc sb order)"
proof -
  assume lc: "collates lc"
  let ?r = "\<lambda>item. if order = Type_recent \<or> order = Type_alpha then favoriteTypeRank item else 0"
  let ?q = "\<lambda>a b. let rest = lc (getFavoriteItemName a) (getFavoriteItemName b) in
    if order = Recent \<or> order = Type_recent then by_recency (favorite_time sb a) (favorite_time sb b) rest else rest"
  have "collates ?q"
    using collates_recency [OF collates_map [OF lc, of getFavoriteItemName]] collates_map [OF lc, of getFavoriteItemName]
    by (cases "order = Recent \<or> order = Type_recent") (simp_all add: Let_def)
  from collates_then [OF collates_key [of ?r] this] show ?thesis
    by (rule back_subst [of collates]) (auto simp: fun_eq_iff favorite_cmp_def Let_def)
qed

text \<open>Elements that come first whatever they are compared with.\<close>

lemma comparison_top:
  assumes "comparison c"
  shows "comparison (\<lambda>a b. if P a then -1 else if P b then 1 else c a b)"
proof -
  have trans: "c a b \<le> 0 \<Longrightarrow> c b d \<le> 0 \<Longrightarrow> c a d \<le> 0" and total: "c a b \<le> 0 \<or> c b a \<le> 0" for a b d
    using assms by (auto simp: comparison_def)
  show ?thesis
    unfolding comparison_def
  proof (intro conjI allI impI)
    fix a b d
    assume "(if P a then -1 else if P b then 1 else c a b) \<le> 0" "(if P b then -1 else if P d then 1 else c b d) \<le> 0"
    then show "(if P a then -1 else if P d then 1 else c a d) \<le> 0"
      using trans [of a b d] by (cases "P a"; cases "P b"; cases "P d") simp_all
  next
    fix a b
    show "(if P a then -1 else if P b then 1 else c a b) \<le> 0 \<or> (if P b then -1 else if P a then 1 else c b a) \<le> 0"
      using total [of a b] by (cases "P a"; cases "P b") simp_all
  qed
qed

lemma comparison_channel:
  assumes lc: "collates lc"
  shows "comparison (channel_cmp lc sb order)"
proof -
  let ?m = "\<lambda>c. if ch_muted c then (1 :: int) else 0"
  let ?q = "\<lambda>a b. let rest = lc (ch_name a) (ch_name b) in
    if order = Recent
    then by_recency (getLastMessageTime sb Tr_channel (ch_key a)) (getLastMessageTime sb Tr_channel (ch_key b)) rest else rest"
  let ?c = "\<lambda>a b. if ?m a - ?m b \<noteq> 0 then ?m a - ?m b else ?q a b"
  have "collates ?q"
    using collates_recency [OF collates_map [OF lc, of ch_name]] collates_map [OF lc, of ch_name]
    by (cases "order = Recent") (simp_all add: Let_def)
  from collates_comparison [OF collates_then [OF collates_key [of ?m] this]] have c: "comparison ?c" .
  have eq: "channel_cmp lc sb order a b =
      (if isPublicChannelKey (ch_key a) then -1 else if isPublicChannelKey (ch_key b) then 1 else ?c a b)" for a b
    by (simp add: channel_cmp_def Let_def)
  from comparison_top [OF c, of "\<lambda>c. isPublicChannelKey (ch_key c)"] show ?thesis
    by (rule back_subst [of comparison]) (simp add: fun_eq_iff eq)
qed

lemma comparison_repeater: "collates lc \<Longrightarrow> comparison (repeater_cmp lc order)"
  using collates_comparison [OF collates_recency [OF collates_map [of lc contact_label], of getContactHeardTime]]
    collates_comparison [OF collates_map [of lc contact_label]]
  by (cases "order = Recent") (simp_all add: repeater_cmp_def [abs_def] Let_def)

lemma sorted_by:
  assumes "comparison cmp" and "\<And>a b. cmp a b \<le> 0 \<Longrightarrow> Q a b"
  shows "sorted_wrt Q (js_sort cmp xs)"
  using sorted_js_sort [OF assms(1)] by (rule sorted_wrt_mono_rel [rotated]) (rule assms(2))


text \<open>Comparing by code units is such a collation.\<close>

definition code_unit_compare :: "string \<Rightarrow> string \<Rightarrow> int" where
  "code_unit_compare a b = (if a < b then -1 else if b < a then 1 else 0)"

lemma collates_code_units: "collates code_unit_compare"
  by (auto simp: collates_def code_unit_compare_def split: if_splits)

definition sample_sidebar :: sidebar_props where
  "sample_sidebar = \<lparr> sb_contacts = [sample_contact], sb_channels = [], sb_lastMessageTimes = [], sb_unreadCounts = [],
     sb_mentions = [], sb_blockedKeys = [], sb_blockedNames = [] \<rparr>"


section \<open>Sort orders are kept\<close>

definition orders_ok :: "section_sort_orders \<Rightarrow> bool" where
  "orders_ok orders \<longleftrightarrow> (\<forall>s. s \<noteq> Sec_favorites \<longrightarrow> section_order orders s \<in> {Recent, Alpha})"

inductive orders_reachable :: "section_sort_orders \<times> sidebar_storage \<Rightarrow> bool" where
  orders_first: "orders_reachable (loadInitialSectionSortOrders ss)"
| orders_toggle: "orders_reachable st \<Longrightarrow> orders_reachable (handleSortToggle s st)"

lemma orders_ok_iff: "orders_ok orders \<longleftrightarrow> {so_channels orders, so_contacts orders, so_rooms orders, so_repeaters orders} \<subseteq> {Recent, Alpha}"
proof -
  have "(\<forall>s. s \<noteq> Sec_favorites \<longrightarrow> P s) \<longleftrightarrow> P Sec_channels \<and> P Sec_contacts \<and> P Sec_rooms \<and> P Sec_repeaters" for P
    by (metis sortable_section.distinct(1,3,5,7) sortable_section.exhaust)
  then show ?thesis by (simp add: orders_ok_def)
qed

lemma coerce_str [simp]: "coerceFavoritesSortOrder (Some (JStr (sort_order_str order))) = order"
  "order \<in> {Recent, Alpha} \<Longrightarrow> coerceBasicSortOrder (Some (JStr (sort_order_str order))) = order"
  by (cases order; simp add: coerceFavoritesSortOrder_def coerceBasicSortOrder_def sort_order_str_def FAVORITES_SORT_CYCLE_def)+

lemma load_saved:
  assumes "orders_ok orders" and "ss_available ss"
  shows "loadLocalStorageSidebarSectionSortOrders (saveLocalStorageSidebarSectionSortOrders orders ss) = Some orders"
  using assms by (simp add: orders_ok_iff loadLocalStorageSidebarSectionSortOrders_def saveLocalStorageSidebarSectionSortOrders_def
      sort_orders_json_def)

lemma load_ok: "loadLocalStorageSidebarSectionSortOrders ss = Some orders \<Longrightarrow> orders_ok orders"
  by (auto simp: loadLocalStorageSidebarSectionSortOrders_def orders_ok_iff coerceBasicSortOrder_def split: if_splits option.splits)

lemma toggle_ok: "orders_ok orders \<Longrightarrow> orders_ok (set_section_order s (nextSortOrder s (section_order orders s)) orders)"
  by (cases s) (auto simp: orders_ok_iff nextSortOrder_def)

text \<open>C39. Only the favourites are ever grouped by kind, whatever was stored and however often the orders are toggled; and
  a sidebar that is loaded again finds the orders as they were left.\<close>

theorem sort_orders_kept:
  assumes "orders_reachable (orders, ss)"
  shows "orders_ok orders \<and> (ss_available ss \<longrightarrow> fst (loadInitialSectionSortOrders ss) = orders)"
  using assms
proof (induction "(orders, ss)" arbitrary: orders ss)
  case (orders_first ss0)
  show ?case
  proof (cases "loadLocalStorageSidebarSectionSortOrders ss0")
    case (Some stored)
    with orders_first load_ok [OF Some] show ?thesis by (auto simp: loadInitialSectionSortOrders_def)
  next
    case None
    let ?built = "buildSidebarSectionSortOrders (coalesce (loadLegacyLocalStorageSortOrder ss0) Recent)"
    have "orders_ok ?built"
      by (auto simp: orders_ok_iff buildSidebarSectionSortOrders_def loadLegacyLocalStorageSortOrder_def)
    moreover have "orders = ?built" "ss = saveLocalStorageSidebarSectionSortOrders ?built ss0"
      using orders_first None by (auto simp: loadInitialSectionSortOrders_def Let_def)
    moreover have "ss_available ss = ss_available ss0"
      using calculation(3) by (simp add: saveLocalStorageSidebarSectionSortOrders_def)
    ultimately show ?thesis using load_saved [of ?built ss0] by (auto simp: loadInitialSectionSortOrders_def)
  qed
next
  case (orders_toggle st s)
  obtain o0 s0 where st: "st = (o0, s0)" by fastforce
  let ?o = "set_section_order s (nextSortOrder s (section_order o0 s)) o0"
  from orders_toggle.hyps(2) [OF st] have "orders_ok ?o" by (simp add: toggle_ok)
  moreover have "orders = ?o" "ss = saveLocalStorageSidebarSectionSortOrders ?o s0"
    using orders_toggle.hyps(3) by (auto simp: st handleSortToggle_def Let_def)
  moreover have "ss_available ss = ss_available s0"
    using calculation(3) by (simp add: saveLocalStorageSidebarSectionSortOrders_def)
  ultimately show ?case using load_saved [of ?o s0] by (auto simp: loadInitialSectionSortOrders_def)
qed

theorem sort_orders_kept_witness:
  "orders_ok (fst (handleSortToggle Sec_favorites (loadInitialSectionSortOrders
     \<lparr> ss_available = True, ss_legacyOrder = Some ''alpha'', ss_sectionOrders = None, ss_collapsed = None \<rparr>)))"
proof -
  let ?st = "handleSortToggle Sec_favorites (loadInitialSectionSortOrders
     \<lparr> ss_available = True, ss_legacyOrder = Some ''alpha'', ss_sectionOrders = None, ss_collapsed = None \<rparr>)"
  have "orders_reachable (fst ?st, snd ?st)" by (simp add: orders_first orders_toggle)
  from sort_orders_kept [OF this] show ?thesis by blast
qed

section \<open>A search leaves no trace\<close>

text \<open>A sidebar that is not searching and has settled: nothing is remembered, and what is stored is what is shown.\<close>

definition at_rest :: "collapse_view \<Rightarrow> bool" where
  "at_rest v \<longleftrightarrow> \<not> isSearching v \<and> cv_snapshot v = None
     \<and> (ss_available (cv_storage v) \<longrightarrow> ss_collapsed (cv_storage v) = Some (Some (collapse_json (cv_collapsed v))))"

definition searches :: "string list \<Rightarrow> collapse_view \<Rightarrow> collapse_view" where
  "searches queries v = fold set_query queries v"

lemma collapse_loaded:
  "ss_available ss \<Longrightarrow> ss_collapsed ss = Some (Some (collapse_json co)) \<Longrightarrow> loadCollapsedState ss = co"
  by (simp add: loadCollapsedState_def collapse_json_def collapse_member_def)

lemma set_query_search:
  assumes "sidebar_query query \<noteq> []" and "cv_snapshot v = Some prev \<or> cv_snapshot v = None \<and> cv_collapsed v = prev"
  shows "set_query query v = v\<lparr> cv_query := query, cv_snapshot := Some prev, cv_collapsed := DEFAULT_COLLAPSE_STATE \<rparr>"
  using assms by (auto simp: set_query_def collapse_settle_def collapse_render_def search_effect_def persist_effect_def isSearching_def)

lemma set_query_end:
  assumes "sidebar_query query = []" and "cv_snapshot v = Some prev"
    and "ss_available (cv_storage v) \<longrightarrow> ss_collapsed (cv_storage v) = Some (Some (collapse_json prev))"
  shows "set_query query v = v\<lparr> cv_query := query, cv_snapshot := None, cv_collapsed := prev \<rparr>"
  using assms by (simp add: set_query_def collapse_settle_def collapse_render_def search_effect_def persist_effect_def isSearching_def)

lemma searches_keep:
  assumes "\<forall>q \<in> set queries. sidebar_query q \<noteq> []" and "cv_snapshot v = Some prev" and "cv_collapsed v = DEFAULT_COLLAPSE_STATE"
  shows "\<exists>q. searches queries v = v\<lparr> cv_query := q \<rparr>"
  using assms
proof (induction queries arbitrary: v)
  case Nil
  then show ?case by (intro exI [of _ "cv_query v"]) (simp add: searches_def)
next
  case (Cons q queries)
  have "set_query q v = v\<lparr> cv_query := q \<rparr>"
    using set_query_search [of q v prev] Cons.prems by simp
  moreover obtain q' where "searches queries (v\<lparr> cv_query := q \<rparr>) = v\<lparr> cv_query := q' \<rparr>"
    using Cons.IH [of "v\<lparr> cv_query := q \<rparr>"] Cons.prems by auto
  ultimately show ?case by (auto simp: searches_def)
qed

text \<open>While a search goes on every section is open and what is stored does not change; when the search ends, however
  often its text was changed, every section is as it was before, and so is what is stored.\<close>

theorem search_restores:
  assumes "at_rest v" and "\<forall>q \<in> set (query # queries). sidebar_query q \<noteq> []" and "sidebar_query blank = []"
  shows "cv_collapsed (searches (query # queries) v) = DEFAULT_COLLAPSE_STATE
    \<and> cv_storage (searches (query # queries) v) = cv_storage v
    \<and> set_query blank (searches (query # queries) v) = v\<lparr> cv_query := blank \<rparr>"
proof -
  let ?v = "v\<lparr> cv_query := query, cv_snapshot := Some (cv_collapsed v), cv_collapsed := DEFAULT_COLLAPSE_STATE \<rparr>"
  have "set_query query v = ?v" using assms by (intro set_query_search) (simp_all add: at_rest_def)
  then obtain q where q: "searches (query # queries) v = ?v\<lparr> cv_query := q \<rparr>"
    using searches_keep [of queries ?v "cv_collapsed v"] assms(2) by (auto simp: searches_def)
  have "set_query blank (?v\<lparr> cv_query := q \<rparr>) = v\<lparr> cv_query := blank \<rparr>"
    using assms by (subst set_query_end [of blank _ "cv_collapsed v"]) (simp_all add: at_rest_def)
  with q show ?thesis by simp
qed

theorem search_restores_witness:
  "\<forall>ss. set_query [] (searches [''bo'', ''bob''] \<lparr> cv_query = [], cv_collapsed = DEFAULT_COLLAPSE_STATE\<lparr> co_rooms := True \<rparr>,
      cv_snapshot = None, cv_storage = ss\<lparr> ss_available := False \<rparr> \<rparr>)
    = \<lparr> cv_query = [], cv_collapsed = DEFAULT_COLLAPSE_STATE\<lparr> co_rooms := True \<rparr>,
        cv_snapshot = None, cv_storage = ss\<lparr> ss_available := False \<rparr> \<rparr>"
proof
  fix ss :: sidebar_storage
  have q: "sidebar_query ''bo'' \<noteq> []" "sidebar_query ''bob'' \<noteq> []" "sidebar_query [] = []" by code_simp+
  show "set_query [] (searches [''bo'', ''bob''] \<lparr> cv_query = [], cv_collapsed = DEFAULT_COLLAPSE_STATE\<lparr> co_rooms := True \<rparr>,
      cv_snapshot = None, cv_storage = ss\<lparr> ss_available := False \<rparr> \<rparr>)
    = \<lparr> cv_query = [], cv_collapsed = DEFAULT_COLLAPSE_STATE\<lparr> co_rooms := True \<rparr>,
        cv_snapshot = None, cv_storage = ss\<lparr> ss_available := False \<rparr> \<rparr>"
    using q search_restores [of "\<lparr> cv_query = [], cv_collapsed = DEFAULT_COLLAPSE_STATE\<lparr> co_rooms := True \<rparr>,
      cv_snapshot = None, cv_storage = ss\<lparr> ss_available := False \<rparr> \<rparr>" "''bo''" "[''bob'']" "[]"]
    by (simp add: at_rest_def isSearching_def)
qed

end
