(* ===== verification/Text_Display.thy ===== *)
theory Text_Display
  imports Js_Strings
begin

text \<open>
  Reading and showing short texts: \<^verbatim>\<open>utils/messageParser.ts\<close> (the sender in front of a channel message, links to hashtag
  channels, ages, mentions), \<^verbatim>\<open>utils/batteryDisplay.ts\<close>, \<^verbatim>\<open>utils/regionScope.ts\<close> and the formats of
  \<^verbatim>\<open>components/repeater/repeaterPaneShared.tsx\<close>.
\<close>

section \<open>The sender of a channel message\<close>

definition parseSenderFromText :: "string \<Rightarrow> string option \<times> string" where
  "parseSenderFromText text =
     (case index_of text '': '' of
        Some colonIndex \<Rightarrow>
          if 0 < colonIndex \<and> colonIndex < 50 then
            (let potentialSender = take colonIndex text in
             if \<not> str_includes potentialSender '':'' then (Some potentialSender, drop (colonIndex + 2) text) else (None, text))
          else (None, text)
      | None \<Rightarrow> (None, text))"

section \<open>Links to hashtag channels\<close>

definition label_char :: "char \<Rightarrow> bool" where
  "label_char c \<longleftrightarrow> CHR ''a'' \<le> c \<and> c \<le> CHR ''z'' \<or> CHR ''0'' \<le> c \<and> c \<le> CHR ''9''"

definition ends_label :: "string \<Rightarrow> bool" where
  "ends_label s \<longleftrightarrow> s = [] \<or> is_ws (hd s) \<or> hd s \<in> set ''.,;:''"

text \<open>The longest \<^verbatim>\<open>[a-z0-9]+(?:-[a-z0-9]+)*\<close> that a text starts with. No shorter one can satisfy the pattern's look-ahead, since what
  follows it would be a letter, a digit or a dash.\<close>

function munch_label :: "string \<Rightarrow> string option" where
  "munch_label s =
     (let run = takeWhile label_char s; rest = drop (length run) s in
      if run = [] then None
      else if rest \<noteq> [] \<and> hd rest = CHR ''-''
        then (case munch_label (tl rest) of Some more \<Rightarrow> Some (run @ CHR ''-'' # more) | None \<Rightarrow> Some run)
      else Some run)"
  by pat_completeness auto

termination
proof (relation "measure length")
  fix s run rest
  assume "run = takeWhile label_char s" "rest = drop (length run) s" "run \<noteq> []" "rest \<noteq> [] \<and> hd rest = CHR ''-''"
  then have "length rest \<le> length s" "rest \<noteq> []" by simp_all
  then show "(tl rest, s) \<in> measure length" by (cases rest) auto
qed simp

declare munch_label.simps [simp del]

text \<open>The label at a position, with its hash, when what follows it ends it.\<close>

definition label_at :: "string \<Rightarrow> string option" where
  "label_at s =
     (if s = [] \<or> hd s \<noteq> CHR ''#'' then None
      else case munch_label (tl s) of
        Some body \<Rightarrow> if ends_label (drop (length body) (tl s)) then Some (CHR ''#'' # body) else None
      | None \<Rightarrow> None)"

record channel_reference =
  hr_label :: string
  hr_start :: nat
  hr_end :: nat

text \<open>The pattern at a position of the text: at the start, or behind a white space that it takes along.\<close>

definition match_reference :: "nat \<Rightarrow> string \<Rightarrow> (nat \<times> string) option" where
  "match_reference pos s =
     (case (if pos = 0 then label_at s else None) of
        Some label \<Rightarrow> Some (0, label)
      | None \<Rightarrow>
          (case s of
             c # t \<Rightarrow> if is_ws c then map_option (Pair 1) (label_at t) else None
           | [] \<Rightarrow> None))"

function references_from :: "nat \<Rightarrow> string \<Rightarrow> channel_reference list" where
  "references_from pos s =
     (case match_reference pos s of
        Some (skip, label) \<Rightarrow>
          \<lparr> hr_label = label, hr_start = pos + skip, hr_end = pos + skip + length label \<rparr>
            # references_from (pos + skip + length label) (drop (skip + length label) s)
      | None \<Rightarrow> (case s of [] \<Rightarrow> [] | _ # t \<Rightarrow> references_from (Suc pos) t))"
  by pat_completeness auto

lemma label_at_nonempty: "label_at s = Some label \<Longrightarrow> label \<noteq> [] \<and> s \<noteq> []"
  by (auto simp: label_at_def split: option.splits if_splits)

lemma match_reference_nonempty: "match_reference pos s = Some (skip, label) \<Longrightarrow> label \<noteq> [] \<and> s \<noteq> []"
  by (auto simp: match_reference_def dest: label_at_nonempty split: option.splits list.splits if_splits)

termination references_from
  by (relation "measure (\<lambda>(_, s). length s)") (auto dest: match_reference_nonempty)

declare references_from.simps [simp del]

definition findLinkedChannelReferences :: "string \<Rightarrow> channel_reference list" where
  "findLinkedChannelReferences text = references_from 0 text"

section \<open>Ages, mentions\<close>

text \<open>The short date format is a parameter; ages are whole seconds.\<close>

definition formatShortAgo :: "(nat \<Rightarrow> string) \<Rightarrow> nat \<Rightarrow> nat \<Rightarrow> string" where
  "formatShortAgo short_date timestamp nowMs =
     (let seconds = nat (max 0 \<lfloor>real nowMs / 1000 - real timestamp\<rfloor>) in
      if seconds < 60 then ''now''
      else if seconds < 3600 then show_nat (seconds div 60) @ ''m''
      else if seconds < 86400 then show_nat (seconds div 3600) @ ''h''
      else if seconds < 7 * 86400 then show_nat (seconds div 86400) @ ''d''
      else short_date timestamp)"

text \<open>\<^verbatim>\<open>name.replace(/[.*+?^${}()|[\]\\]/g, '\\$&')\<close>\<close>

definition regex_special :: "char \<Rightarrow> bool" where
  "regex_special c \<longleftrightarrow> c \<in> set ''.*+?^${}()|[]'' \<or> c = CHR 0x5C"

definition escape_regex :: "string \<Rightarrow> string" where
  "escape_regex name = concat (map (\<lambda>c. if regex_special c then [CHR 0x5C, c] else [c]) name)"

text \<open>A pattern in which every special character is escaped stands for a text; any other pattern is outside this function.\<close>

fun regex_literal :: "string \<Rightarrow> string option" where
  "regex_literal [] = Some []"
| "regex_literal [c] = (if regex_special c then None else Some [c])"
| "regex_literal (c # d # p) =
     (if c = CHR 0x5C then (if regex_special d then map_option ((#) d) (regex_literal p) else None)
      else if regex_special c then None
      else map_option ((#) c) (regex_literal (d # p)))"

text \<open>The flag \<^verbatim>\<open>i\<close> compares without case.\<close>

definition messageContainsMention :: "string \<Rightarrow> string option \<Rightarrow> bool" where
  "messageContainsMention text name \<longleftrightarrow>
     (case or_null name of
        None \<Rightarrow> False
      | Some n \<Rightarrow>
          (case regex_literal (''@'' @ [CHR 0x5C, CHR ''[''] @ escape_regex n @ [CHR 0x5C, CHR '']'']) of
             Some literal \<Rightarrow> str_includes (to_lower text) (to_lower literal)
           | None \<Rightarrow> False))"

section \<open>Battery\<close>

definition OCV_TABLE :: "(int \<times> int) list" where
  "OCV_TABLE = [(4190, 100), (4050, 90), (3990, 80), (3890, 70), (3800, 60), (3720, 50), (3630, 40), (3530, 30),
     (3420, 20), (3300, 10), (3100, 0)]"

definition js_round :: "real \<Rightarrow> int" where
  "js_round x = \<lfloor>x + 1 / 2\<rfloor>"

fun ocv_scan :: "(int \<times> int) list \<Rightarrow> int \<Rightarrow> int" where
  "ocv_scan ((highMv, highPct) # (lowMv, lowPct) # rest) mv =
     (if lowMv \<le> mv
      then js_round (real_of_int lowPct + (real_of_int (mv - lowMv) / real_of_int (highMv - lowMv)) * real_of_int (highPct - lowPct))
      else ocv_scan ((lowMv, lowPct) # rest) mv)"
| "ocv_scan _ mv = 0"

definition mvToPercent :: "int \<Rightarrow> int" where
  "mvToPercent mv =
     (if fst (hd OCV_TABLE) \<le> mv then 100
      else if mv \<le> fst (last OCV_TABLE) then 0
      else ocv_scan OCV_TABLE mv)"

definition formatBatteryLabel :: "int \<Rightarrow> bool \<Rightarrow> bool \<Rightarrow> string option" where
  "formatBatteryLabel mv showPercent showVoltage =
     (if \<not> showPercent \<and> \<not> showVoltage then None
      else (let pct = mvToPercent mv in
            if showPercent \<and> showVoltage then Some (show_int pct @ ''% ('' @ show_int mv @ ''mV)'')
            else if showPercent then Some (show_int pct @ ''%'')
            else Some (show_int mv @ ''mV'')))"

section \<open>Region scopes\<close>

definition UNSCOPED_OVERRIDE_MARKER :: string where "UNSCOPED_OVERRIDE_MARKER = ''*''"

definition isUnscopedMarker :: "string option \<Rightarrow> bool" where
  "isUnscopedMarker scope \<longleftrightarrow> scope = Some UNSCOPED_OVERRIDE_MARKER"

definition stripRegionScopePrefix :: "string option \<Rightarrow> string" where
  "stripRegionScopePrefix scope =
     (case or_null scope of None \<Rightarrow> [] | Some s \<Rightarrow> if starts_with s ''#'' then drop 1 s else s)"

definition floodScopeOverrideLabel :: "string option \<Rightarrow> string option" where
  "floodScopeOverrideLabel scope =
     (case or_null scope of None \<Rightarrow> None | Some s \<Rightarrow> if isUnscopedMarker scope then Some ''unscoped'' else Some s)"

section \<open>Durations\<close>

definition formatDuration :: "nat \<Rightarrow> string" where
  "formatDuration seconds =
     (if seconds < 60 then show_nat seconds @ ''s''
      else (let days = seconds div 86400; hours = seconds mod 86400 div 3600; mins = seconds mod 3600 div 60 in
            if 0 < days then
              (if 0 < hours \<and> 0 < mins then show_nat days @ ''d'' @ show_nat hours @ ''h'' @ show_nat mins @ ''m''
               else if 0 < hours then show_nat days @ ''d'' @ show_nat hours @ ''h''
               else if 0 < mins then show_nat days @ ''d'' @ show_nat mins @ ''m''
               else show_nat days @ ''d'')
            else if 0 < hours then (if 0 < mins then show_nat hours @ ''h'' @ show_nat mins @ ''m'' else show_nat hours @ ''h'')
            else show_nat mins @ ''m''))"

definition formatFetchedRelative :: "nat \<Rightarrow> nat \<Rightarrow> string" where
  "formatFetchedRelative fetchedAt now =
     (let elapsedSeconds = (now - fetchedAt) div 1000 in
      if elapsedSeconds < 60 then ''Just now''
      else (let elapsedMinutes = elapsedSeconds div 60 in
            if elapsedMinutes < 60 then show_nat elapsedMinutes @ '' minute'' @ (if elapsedMinutes = 1 then [] else ''s'') @ '' ago''
            else (let elapsedHours = elapsedMinutes div 60 in
                  show_nat elapsedHours @ '' hour'' @ (if elapsedHours = 1 then [] else ''s'') @ '' ago'')))"

section \<open>What the sender and the mention are\<close>

lemma index_of_first: "c \<notin> set s \<Longrightarrow> index_of (s @ c # p @ t) (c # p) = Some (length s)"
  by (induction s) (auto simp: starts_with_def)

lemma str_includes_singleton: "str_includes s [c] \<longleftrightarrow> c \<in> set s"
  by (induction s) (auto simp: starts_with_def)

text \<open>A sender with a name of at most 49 characters and no colon is read back from the text its message is sent as; and
  whenever a sender is read, the text is its name, a colon, a blank and the content.\<close>

theorem parseSender_roundtrip:
  "(0 < length sender \<and> length sender < 50 \<and> CHR '':'' \<notin> set sender \<longleftrightarrow>
      parseSenderFromText (sender @ '': '' @ content) = (Some sender, content) \<and> CHR '':'' \<notin> set sender)
   \<and> (case parseSenderFromText text of
        (Some s, c) \<Rightarrow> text = s @ '': '' @ c \<and> CHR '':'' \<notin> set s \<and> 0 < length s \<and> length s < 50
      | (None, c) \<Rightarrow> c = text)"
proof
  have first: "index_of (sender @ '': '' @ content) '': '' = Some (length sender)" if "CHR '':'' \<notin> set sender"
    using index_of_first [OF that, of "'' ''" content] by simp
  show "0 < length sender \<and> length sender < 50 \<and> CHR '':'' \<notin> set sender \<longleftrightarrow>
      parseSenderFromText (sender @ '': '' @ content) = (Some sender, content) \<and> CHR '':'' \<notin> set sender"
    using first by (auto simp: parseSenderFromText_def str_includes_singleton Let_def split: if_splits)
  show "case parseSenderFromText text of
        (Some s, c) \<Rightarrow> text = s @ '': '' @ c \<and> CHR '':'' \<notin> set s \<and> 0 < length s \<and> length s < 50
      | (None, c) \<Rightarrow> c = text"
  proof (cases "index_of text '': ''")
    case (Some i)
    from index_of_Some [OF Some] have "take 2 (drop i text) = '': ''" by (simp add: numeral_2_eq_2)
    then have "text = take i text @ '': '' @ drop (i + 2) text" and "i \<le> length text"
      using index_of_Some [OF Some] by (metis append_take_drop_id drop_drop add.commute, simp)
    with Some show ?thesis by (auto simp: parseSenderFromText_def str_includes_singleton Let_def)
  qed (simp add: parseSenderFromText_def)
qed

lemma regex_literal_escape: "regex_literal (escape_regex n @ p) = map_option ((@) n) (regex_literal p)"
proof (induction n)
  case Nil
  then show ?case by (simp add: escape_regex_def option.map_ident)
next
  case (Cons c n)
  show ?case
  proof (cases "regex_special c")
    case True
    then have "escape_regex (c # n) @ p = CHR 0x5C # c # (escape_regex n @ p)" by (simp add: escape_regex_def)
    with True Cons.IH show ?thesis by (simp add: option.map_comp comp_def)
  next
    case False
    then have e: "escape_regex (c # n) @ p = c # (escape_regex n @ p)" by (simp add: escape_regex_def)
    have "regex_literal (c # q) = map_option ((#) c) (regex_literal q)" for q
      using False by (cases q) (auto simp: regex_special_def)
    with e Cons.IH show ?thesis by (simp add: option.map_comp comp_def)
  qed
qed

text \<open>A message mentions a name exactly when the name stands in it between the mention brackets, in any case, whatever
  characters that mean something in a regular expression the name has; nobody is mentioned under an empty name.\<close>

theorem messageContainsMention_iff:
  "messageContainsMention text name \<longleftrightarrow>
     (\<exists>n. name = Some n \<and> n \<noteq> [] \<and> str_includes (to_lower text) (to_lower (''@['' @ n @ '']'')))"
proof -
  have "regex_literal (''@'' @ [CHR 0x5C, CHR ''[''] @ escape_regex n @ [CHR 0x5C, CHR '']'']) = Some (''@['' @ n @ '']'')" for n
    using regex_literal_escape [of n "[CHR 0x5C, CHR '']'']"] by (simp add: regex_special_def)
  then show ?thesis by (auto simp: messageContainsMention_def or_null_def truthy_iff split: option.split)
qed

section \<open>All links are found\<close>

lemma label_char_not_ws: "label_char c \<Longrightarrow> \<not> is_ws c"
  by (auto simp: label_char_def is_ws_def less_eq_char_def)

lemma munch_label_Some: "munch_label s = Some body \<Longrightarrow> prefix body s \<and> (\<forall>c \<in> set body. \<not> is_ws c)"
proof (induction s arbitrary: body rule: munch_label.induct)
  case (1 s)
  let ?run = "takeWhile label_char s" and ?rest = "drop (length (takeWhile label_char s)) s"
  have run: "\<forall>c \<in> set ?run. \<not> is_ws c" "s = ?run @ ?rest"
    using label_char_not_ws by (auto dest: set_takeWhileD) (metis append_take_drop_id takeWhile_eq_take)
  from 1(2) have ne: "?run \<noteq> []" by (auto simp: munch_label.simps [of s] Let_def split: if_splits)
  show ?case
  proof (cases "?rest \<noteq> [] \<and> hd ?rest = CHR ''-'' \<and> munch_label (tl ?rest) \<noteq> None")
    case True
    then obtain more where more: "munch_label (tl ?rest) = Some more" by auto
    with True ne 1(2) have body: "body = ?run @ CHR ''-'' # more" by (simp add: munch_label.simps [of s] Let_def)
    from 1(1) [OF refl refl ne _ more] True have IH: "prefix more (tl ?rest)" "\<forall>c \<in> set more. \<not> is_ws c" by auto
    from True have "?rest = CHR ''-'' # tl ?rest" by (metis list.collapse)
    then have "prefix (CHR ''-'' # more) ?rest" using IH(1) by (metis Cons_prefix_Cons)
    then have "prefix body s" using run(2) body by (metis same_prefix_prefix)
    with run(1) IH(2) body show ?thesis by (auto simp: is_ws_def)
  next
    case False
    with ne 1(2) have "body = ?run" by (auto simp: munch_label.simps [of s] Let_def split: if_splits)
    with run show ?thesis by (metis prefixI)
  qed
qed

lemma label_at_Some:
  assumes "label_at s = Some label"
  shows "prefix label s" "\<forall>c \<in> set label. \<not> is_ws c" "label \<noteq> []"
proof -
  from assms obtain body where b: "s \<noteq> []" "hd s = CHR ''#''" "munch_label (tl s) = Some body" "label = CHR ''#'' # body"
    by (auto simp: label_at_def split: option.splits if_splits)
  then have "s = CHR ''#'' # tl s" by (metis list.collapse)
  with munch_label_Some [OF b(3)] b(4) show "prefix label s" by (metis Cons_prefix_Cons)
  show "\<forall>c \<in> set label. \<not> is_ws c" "label \<noteq> []"
    using munch_label_Some [OF b(3)] b(4) by (auto simp: is_ws_def)
qed

text \<open>The reference: a label at the start of the text or behind a white space.\<close>

definition is_reference :: "string \<Rightarrow> nat \<Rightarrow> bool" where
  "is_reference text p \<longleftrightarrow> (p = 0 \<or> is_ws (text ! (p - 1))) \<and> label_at (drop p text) \<noteq> None"

definition reference_at :: "string \<Rightarrow> nat \<Rightarrow> channel_reference" where
  "reference_at text p =
     (let label = the (label_at (drop p text)) in \<lparr> hr_label = label, hr_start = p, hr_end = p + length label \<rparr>)"

text \<open>No link starts inside another one, nor right behind it.\<close>

lemma no_reference_inside:
  assumes "label_at (drop p text) = Some label" and "p < q" "q \<le> p + length label"
  shows "\<not> is_reference text q"
proof -
  from label_at_Some [OF assms(1)] have pre: "prefix label (drop p text)" and no: "\<forall>c \<in> set label. \<not> is_ws c" by auto
  have "q - 1 - p < length label" using assms(2,3) by linarith
  then have "label ! (q - 1 - p) = drop p text ! (q - 1 - p)" using pre by (metis nth_append prefixE)
  moreover have "drop p text ! (q - 1 - p) = text ! (q - 1)"
    using pre \<open>q - 1 - p < length label\<close> assms(2) by (subst nth_drop) (auto dest: prefix_length_le)
  ultimately have "\<not> is_ws (text ! (q - 1))" using no \<open>q - 1 - p < length label\<close> by (metis nth_mem)
  with assms(2) show ?thesis by (simp add: is_reference_def)
qed

lemma match_reference_Some:
  assumes "match_reference pos (drop pos text) = Some (skip, label)" and "pos \<le> length text" and "pos = 0 \<or> \<not> is_reference text pos"
  shows "label_at (drop (pos + skip) text) = Some label" "is_reference text (pos + skip)"
    "filter (is_reference text) [pos..<pos + skip] = []"
proof -
  consider "skip = 0" "pos = 0" "label_at text = Some label"
    | c t where "drop pos text = c # t" "is_ws c" "label_at t = Some label" "skip = 1" "pos = 0 \<longrightarrow> label_at text = None"
    using assms(1) by (auto simp: match_reference_def split: option.splits list.splits if_splits)
  then have "label_at (drop (pos + skip) text) = Some label \<and> is_reference text (pos + skip)
      \<and> filter (is_reference text) [pos..<pos + skip] = []"
  proof cases
    case 1
    then show ?thesis by (simp add: is_reference_def)
  next
    case 2
    then have "text ! pos = c" "drop (Suc pos) text = t"
      using assms(2) by (metis drop_eq_Nil hd_drop_conv_nth list.distinct(1) list.sel(1) not_le, metis drop_Suc list.sel(3) tl_drop)
    with 2 assms(3) show ?thesis by (auto simp: is_reference_def)
  qed
  then show "label_at (drop (pos + skip) text) = Some label" "is_reference text (pos + skip)"
    "filter (is_reference text) [pos..<pos + skip] = []" by blast+
qed

lemma match_reference_None:
  assumes "match_reference pos (drop pos text) = None" and "pos < length text" and "pos = 0 \<or> \<not> is_reference text pos"
  shows "\<not> is_reference text pos" "\<not> is_reference text (Suc pos)"
proof -
  have "drop pos text = text ! pos # drop (Suc pos) text" using assms(2) by (simp add: Cons_nth_drop_Suc)
  with assms show "\<not> is_reference text pos" "\<not> is_reference text (Suc pos)"
    by (auto simp: match_reference_def is_reference_def split: option.splits if_splits)
qed

lemma filter_upt_split:
  "a \<le> b \<Longrightarrow> b \<le> c \<Longrightarrow> filter P [a..<c] = filter P [a..<b] @ filter P [b..<c]"
  by (metis filter_append le_iff_add upt_add_eq_append)

lemma references_from_spec:
  assumes "pos \<le> length text" and "pos = 0 \<or> \<not> is_reference text pos"
  shows "references_from pos (drop pos text) = map (reference_at text) (filter (is_reference text) [pos..<length text])"
  using assms
proof (induction "length text - pos" arbitrary: pos rule: less_induct)
  case less
  show ?case
  proof (cases "match_reference pos (drop pos text)")
    case None
    show ?thesis
    proof (cases "pos < length text")
      case True
      note no = match_reference_None [OF None True less.prems(2)]
      have "references_from pos (drop pos text) = references_from (Suc pos) (drop (Suc pos) text)"
        using None True by (subst references_from.simps) (simp add: Cons_nth_drop_Suc [symmetric])
      also have "\<dots> = map (reference_at text) (filter (is_reference text) [Suc pos..<length text])"
        using True no by (intro less.hyps) auto
      finally show ?thesis using True no(1) by (simp add: upt_conv_Cons)
    qed (use None less.prems in \<open>simp add: references_from.simps\<close>)
  next
    case (Some m)
    obtain skip label where m: "m = (skip, label)" by fastforce
    note match = match_reference_Some [OF Some [unfolded m] less.prems]
    let ?p = "pos + skip" and ?q = "pos + skip + length label"
    from label_at_Some [OF match(1)] have pre: "prefix label (drop ?p text)" and ne: "label \<noteq> []" by auto
    from prefix_length_le [OF pre] have "length label \<le> length text - ?p" by simp
    moreover have "0 < length label" using ne by simp
    ultimately have q: "?p < ?q" "?q \<le> length text" by linarith+
    have inside: "\<not> is_reference text r" if "?p < r" "r \<le> ?q" for r using no_reference_inside [OF match(1) that] .
    have "filter (is_reference text) [?p..<?q] = [?p]"
      using q(1) match(2) inside by (subst upt_conv_Cons) (auto intro!: filter_False)
    then have "filter (is_reference text) [pos..<length text] = ?p # filter (is_reference text) [?q..<length text]"
      using filter_upt_split [of pos ?p "length text" "is_reference text"] filter_upt_split [of ?p ?q "length text" "is_reference text"]
        match(3) q by simp
    moreover have "references_from ?q (drop ?q text) = map (reference_at text) (filter (is_reference text) [?q..<length text])"
    proof (rule less.hyps)
      show "length text - ?q < length text - pos" using q by linarith
      show "?q \<le> length text" "?q = 0 \<or> \<not> is_reference text ?q" using q inside [of ?q] by auto
    qed
    moreover have "references_from pos (drop pos text) = reference_at text ?p # references_from ?q (drop ?q text)"
      using Some m match(1) by (subst references_from.simps) (simp add: reference_at_def add.commute add.left_commute)
    ultimately show ?thesis by simp
  qed
qed

text \<open>C38. The links found in a text are, in order, exactly the labels that stand at its start or behind a white space; the
  scan with the global pattern skips none of them.\<close>

theorem channel_references_all:
  "findLinkedChannelReferences text = map (reference_at text) (filter (is_reference text) [0..<length text])"
  unfolding findLinkedChannelReferences_def using references_from_spec [of 0 "text"] by simp

section \<open>The battery curve\<close>

lemma js_round_mono: "x \<le> y \<Longrightarrow> js_round x \<le> js_round y"
  unfolding js_round_def by (rule floor_mono) simp

lemma js_round_int [simp]: "js_round (real_of_int i) = i"
  by (simp add: js_round_def floor_add_int)

text \<open>A table whose voltages and percentages both fall.\<close>

fun falling :: "(int \<times> int) list \<Rightarrow> bool" where
  "falling ((m, p) # (m', p') # rest) \<longleftrightarrow> m' < m \<and> p' \<le> p \<and> falling ((m', p') # rest)"
| "falling _ \<longleftrightarrow> True"

abbreviation interpolate :: "int \<Rightarrow> int \<Rightarrow> int \<Rightarrow> int \<Rightarrow> int \<Rightarrow> real" where
  "interpolate hm hp lm lp mv \<equiv>
     real_of_int lp + (real_of_int (mv - lm) / real_of_int (hm - lm)) * real_of_int (hp - lp)"

lemma interpolate_mono: "lm < hm \<Longrightarrow> lp \<le> hp \<Longrightarrow> a \<le> b \<Longrightarrow> interpolate hm hp lm lp a \<le> interpolate hm hp lm lp b"
  by (intro add_left_mono mult_right_mono divide_right_mono) auto

lemma interpolate_ends: "lm < hm \<Longrightarrow> interpolate hm hp lm lp hm = real_of_int hp" "interpolate hm hp lm lp lm = real_of_int lp"
  by simp_all

lemma falling_last: "falling ((m, p) # t) \<Longrightarrow> snd (last ((m, p) # t)) \<le> p"
proof (induction t arbitrary: m p)
  case (Cons e t)
  obtain m' p' where e: "e = (m', p')" by fastforce
  with Cons.IH [of m' p'] Cons.prems show ?case by simp
qed simp

lemma ocv_scan_mono:
  assumes "falling ((hm, hp) # t)" and "t \<noteq> []" and "a \<le> b" "b \<le> hm" "fst (last t) \<le> a"
  shows "ocv_scan ((hm, hp) # t) a \<le> ocv_scan ((hm, hp) # t) b \<and> snd (last t) \<le> ocv_scan ((hm, hp) # t) a
    \<and> ocv_scan ((hm, hp) # t) b \<le> hp"
  using assms
proof (induction t arbitrary: hm hp b)
  case (Cons e t)
  obtain lm lp where e: "e = (lm, lp)" by fastforce
  from Cons.prems have lt: "lm < hm" "lp \<le> hp" and fall: "falling ((lm, lp) # t)" by (auto simp: e)
  let ?f = "\<lambda>mv. js_round (interpolate hm hp lm lp mv)"
  have f: "?f x \<le> ?f y" if "x \<le> y" for x y using interpolate_mono [OF lt that] by (rule js_round_mono)
  have ends: "?f hm = hp" "?f lm = lp" unfolding interpolate_ends(1) [OF lt(1)] interpolate_ends(2) by simp_all
  have last_le: "snd (last (e # t)) \<le> lp" using falling_last [OF fall] by (simp add: e)
  show ?case
  proof (cases "t = []")
    case True
    with Cons.prems e f [of a b] f [of b hm] f [of lm a] ends show ?thesis by simp
  next
    case False
    have IH: "ocv_scan ((lm, lp) # t) a \<le> ocv_scan ((lm, lp) # t) b' \<and> snd (last t) \<le> ocv_scan ((lm, lp) # t) a
        \<and> ocv_scan ((lm, lp) # t) b' \<le> lp" if "a \<le> b'" "b' \<le> lm" for b'
      using Cons.IH [OF fall False that] Cons.prems(5) False by simp
    consider "lm \<le> a" | "a < lm" "lm \<le> b" | "b < lm" using Cons.prems(3) by linarith
    then show ?thesis
    proof cases
      case 1
      with Cons.prems e f [of a b] f [of b hm] f [of lm a] ends last_le show ?thesis by simp
    next
      case 2
      with IH [of lm] Cons.prems e f [of lm b] f [of b hm] ends last_le False show ?thesis by auto
    next
      case 3
      with IH [of b] Cons.prems e lt False show ?thesis by auto
    qed
  qed
qed simp

text \<open>The battery percentage stays between 0 and 100 and never falls when the voltage rises.\<close>

theorem mvToPercent_mono:
  assumes "a \<le> b"
  shows "0 \<le> mvToPercent a \<and> mvToPercent a \<le> mvToPercent b \<and> mvToPercent b \<le> 100"
proof -
  let ?t = "tl OCV_TABLE"
  have table: "OCV_TABLE = (4190, 100) # ?t" "falling ((4190, 100) # ?t)" "?t \<noteq> []" "last ?t = (3100, 0)"
    by (simp_all add: OCV_TABLE_def)
  have scan: "0 \<le> ocv_scan OCV_TABLE x \<and> ocv_scan OCV_TABLE x \<le> ocv_scan OCV_TABLE y \<and> ocv_scan OCV_TABLE y \<le> 100"
    if "3100 \<le> x" "x \<le> y" "y \<le> 4190" for x y
    using ocv_scan_mono [OF table(2,3) that(2,3)] that(1) table(1,4) by simp
  have "hd OCV_TABLE = (4190, 100)" "last OCV_TABLE = (3100, 0)" by (simp_all add: OCV_TABLE_def)
  then show ?thesis using scan [of a b] scan [of a a] scan [of b b] assms by (simp add: mvToPercent_def)
qed

theorem mvToPercent_mono_witness: "0 \<le> mvToPercent 3700 \<and> mvToPercent 3700 \<le> mvToPercent 3800 \<and> mvToPercent 3800 \<le> 100"
  by (rule mvToPercent_mono) simp

end
