(* ===== verification/Conversation_Actions.thy ===== *)
theory Conversation_Actions
  imports Realtime_Events Api_Client
begin

text \<open>
  The actions on the open conversation (\<^verbatim>\<open>hooks/useConversationActions.ts\<close>): sending through a chain that keeps one request
  in flight, resending, overrides of a channel or contact, traces, path discovery.

  The chain of promises is the list of the sends that have not settled: a send is requested when it reaches the head,
  and the next one when that has settled, whether it failed or not. The application the actions work on is the one
  of the socket events.
\<close>

section \<open>State\<close>

record send_call =
  sd_id :: int
  sd_isChannel :: bool
  sd_conversation :: string
  sd_text :: string

datatype action_toast = Toast_info string | Toast_success string | Toast_error string string

text \<open>The last two fields are a log: what was shown, and the sends requested from the server, in order.\<close>

record actions_state =
  ac_app :: app_state
  ac_pending :: "message list"
  ac_chain :: "send_call list"
  ac_nextId :: int
  ac_toasts :: "action_toast list"
  ac_requested :: "send_call list"

definition actions_init :: "app_state \<Rightarrow> actions_state" where
  "actions_init app =
     \<lparr> ac_app = app, ac_pending = [], ac_chain = [], ac_nextId = - 1000000000, ac_toasts = [], ac_requested = [] \<rparr>"

definition action_toast :: "action_toast \<Rightarrow> actions_state \<Rightarrow> actions_state" where
  "action_toast t s = s\<lparr> ac_toasts := ac_toasts s @ [t] \<rparr>"

section \<open>Sending\<close>

definition pending_message :: "int \<Rightarrow> bool \<Rightarrow> string \<Rightarrow> string option \<Rightarrow> string \<Rightarrow> nat \<Rightarrow> message" where
  "pending_message i isChannel conversationId senderName text now_ms =
     \<lparr> m_id = i, m_type = (if isChannel then CHAN else PRIV), m_conversation_key = conversationId,
       m_text = (if isChannel \<and> truthy senderName then the senderName @ '': '' @ text else text),
       m_sender_timestamp = None, m_received_at = now_ms div 1000, m_paths = None, m_txt_type = 0, m_signature = None,
       m_sender_key = None, m_outgoing = True, m_acked = 0, m_sender_name = None, m_channel_name = Absent,
       m_packet_id = Absent, m_transport_code = Absent, m_region = Absent, m_pending = Some True \<rparr>"

text \<open>The part before the request; the request follows at once when nothing is in flight.\<close>

definition handleSendMessage :: "string \<Rightarrow> string option \<Rightarrow> nat \<Rightarrow> actions_state \<Rightarrow> actions_state" where
  "handleSendMessage text senderName now_ms s =
     (case ap_active (ac_app s) of
        None \<Rightarrow> s
      | Some conv \<Rightarrow>
          (let isChannel = cv_type conv = Cv_channel;
               call = \<lparr> sd_id = ac_nextId s, sd_isChannel = isChannel, sd_conversation = cv_id conv, sd_text = text \<rparr>
           in s\<lparr> ac_nextId := ac_nextId s + 1,
                 ac_pending := ac_pending s @ [pending_message (ac_nextId s) isChannel (cv_id conv) senderName text now_ms],
                 ac_chain := ac_chain s @ [call],
                 ac_requested := (if ac_chain s = [] then ac_requested s @ [call] else ac_requested s) \<rparr>))"

definition observe_in :: "message \<Rightarrow> app_state \<Rightarrow> app_state" where
  "observe_in msg app = app\<lparr> ap_messages := snd (snd (observeMessage msg (ap_messages app))) \<rparr>"

text \<open>The request at the head settles: a sent message is observed when its conversation is still open, the pending one goes,
  and the next send is requested. A failure is thrown to the caller.\<close>

definition send_settled :: "thrown + message \<Rightarrow> actions_state \<Rightarrow> thrown option \<times> actions_state" where
  "send_settled answer s =
     (case ac_chain s of
        [] \<Rightarrow> (None, s)
      | call # rest \<Rightarrow>
          (let s1 = s\<lparr> ac_chain := rest,
                       ac_requested := (case rest of [] \<Rightarrow> ac_requested s | next # _ \<Rightarrow> ac_requested s @ [next]),
                       ac_pending := filter (\<lambda>m. m_id m \<noteq> sd_id call) (ac_pending s) \<rparr>
           in case answer of
                Inl err \<Rightarrow> (Some err, s1)
              | Inr sent \<Rightarrow>
                  (None, if map_option cv_id (ap_activeRef (ac_app s)) = Some (sd_conversation call)
                         then s1\<lparr> ac_app := observe_in sent (ac_app s1) \<rparr> else s1)))"

section \<open>Other actions\<close>

definition handleResendChannelMessage :: "bool \<Rightarrow> thrown + message option \<Rightarrow> actions_state \<Rightarrow> actions_state" where
  "handleResendChannelMessage newTimestamp answer s =
     (case answer of
        Inl err \<Rightarrow> action_toast (Toast_error ''Failed to resend'' (error_message ''Unknown error'' err)) s
      | Inr resent \<Rightarrow>
          (let s1 = (case (ap_activeRef (ac_app s), resent) of
                       (Some active, Some msg) \<Rightarrow>
                         if newTimestamp \<and> cv_type active = Cv_channel \<and> cv_id active = m_conversation_key msg
                         then s\<lparr> ac_app := observe_in msg (ac_app s) \<rparr> else s
                     | _ \<Rightarrow> s)
           in action_toast (Toast_success (if newTimestamp then ''Message resent with new timestamp'' else ''Message resent'')) s1))"

definition merge_channel :: "(string \<Rightarrow> string \<Rightarrow> int) \<Rightarrow> channel \<Rightarrow> actions_state \<Rightarrow> actions_state" where
  "merge_channel localeCompare updated s =
     s\<lparr> ac_app := (ac_app s)\<lparr> ap_channels := mergeChannelIntoList localeCompare updated (ap_channels (ac_app s)) \<rparr> \<rparr>"

definition merge_contact :: "contact \<Rightarrow> actions_state \<Rightarrow> actions_state" where
  "merge_contact updated s = s\<lparr> ac_app := (ac_app s)\<lparr> ap_contacts := mergeContactIntoList (ap_contacts (ac_app s)) updated \<rparr> \<rparr>"

definition handleSetChannelFloodScopeOverride ::
  "(string \<Rightarrow> string \<Rightarrow> int) \<Rightarrow> thrown + channel \<Rightarrow> actions_state \<Rightarrow> actions_state" where
  "handleSetChannelFloodScopeOverride localeCompare answer s =
     (case answer of
        Inl err \<Rightarrow> action_toast (Toast_error ''Failed to update regional override'' (error_message ''Unknown error'' err)) s
      | Inr updated \<Rightarrow>
          action_toast (Toast_success (if truthy (nullish (ch_flood_scope_override updated))
              then ''Regional override saved'' else ''Regional override cleared''))
            (merge_channel localeCompare updated s))"

definition handleSetContactFloodScopeOverride :: "thrown + contact \<Rightarrow> actions_state \<Rightarrow> actions_state" where
  "handleSetContactFloodScopeOverride answer s =
     (case answer of
        Inl err \<Rightarrow> action_toast (Toast_error ''Failed to update regional override'' (error_message ''Unknown error'' err)) s
      | Inr updated \<Rightarrow>
          action_toast (Toast_success (if truthy (nullish (ct_flood_scope_override updated))
              then ''Regional override saved'' else ''Regional override cleared''))
            (merge_contact updated s))"

definition handleSetChannelPathHashModeOverride ::
  "(string \<Rightarrow> string \<Rightarrow> int) \<Rightarrow> thrown + channel \<Rightarrow> actions_state \<Rightarrow> actions_state" where
  "handleSetChannelPathHashModeOverride localeCompare answer s =
     (case answer of
        Inl err \<Rightarrow> action_toast (Toast_error ''Failed to update path hop width override'' (error_message ''Unknown error'' err)) s
      | Inr updated \<Rightarrow>
          action_toast (Toast_success (if nullish (ch_path_hash_mode_override updated) \<noteq> None
              then ''Path hop width override saved'' else ''Path hop width override cleared''))
            (merge_channel localeCompare updated s))"

text \<open>What a click on a sender appends to the input.\<close>

definition handleSenderClick :: "string \<Rightarrow> string" where
  "handleSenderClick sender = ''@['' @ sender @ ''] ''"

record trace_response =
  tr_remote_snr :: "real option"
  tr_local_snr :: "real option"

definition trace_detail :: "(real \<Rightarrow> string) \<Rightarrow> trace_response \<Rightarrow> string" where
  "trace_detail fixed1 result =
     join '', '' ((case tr_remote_snr result of Some r \<Rightarrow> [''Remote SNR: '' @ fixed1 r @ '' dB''] | None \<Rightarrow> [])
       @ (case tr_local_snr result of Some r \<Rightarrow> [''Local SNR: '' @ fixed1 r @ '' dB''] | None \<Rightarrow> []))"

text \<open>Up to the request, which goes to the contact returned.\<close>

definition handleTrace :: "actions_state \<Rightarrow> string option \<times> actions_state" where
  "handleTrace s =
     (case ap_active (ac_app s) of
        Some conv \<Rightarrow>
          if cv_type conv \<noteq> Cv_contact then (None, s)
          else (Some (cv_id conv), action_toast (Toast_info ''Trace started...'') s)
      | None \<Rightarrow> (None, s))"

definition trace_settled :: "(real \<Rightarrow> string) \<Rightarrow> thrown + trace_response \<Rightarrow> actions_state \<Rightarrow> actions_state" where
  "trace_settled fixed1 answer s =
     (case answer of
        Inr result \<Rightarrow>
          (let detail = trace_detail fixed1 result in
           action_toast (Toast_success (if detail \<noteq> [] then ''Trace complete! '' @ detail else ''Trace complete!'')) s)
      | Inl err \<Rightarrow> action_toast (Toast_error ''Trace failed'' (error_message ''Unknown error'' err)) s)"

definition handlePathDiscovery :: "thrown + contact \<Rightarrow> actions_state \<Rightarrow> thrown option \<times> actions_state" where
  "handlePathDiscovery answer s = (case answer of Inl err \<Rightarrow> (Some err, s) | Inr updated \<Rightarrow> (None, merge_contact updated s))"

section \<open>The actions refine the application\<close>

text \<open>Any action, any answer, and any step of the application in between.\<close>

inductive actions_step :: "actions_state \<Rightarrow> actions_state \<Rightarrow> bool" where
  act_send: "actions_step s (handleSendMessage text senderName now_ms s)"
| act_settled: "actions_step s (snd (send_settled answer s))"
| act_resend: "actions_step s (handleResendChannelMessage newTimestamp answer' s)"
| act_channel_scope: "actions_step s (handleSetChannelFloodScopeOverride localeCompare channel_answer s)"
| act_contact_scope: "actions_step s (handleSetContactFloodScopeOverride contact_answer s)"
| act_channel_mode: "actions_step s (handleSetChannelPathHashModeOverride localeCompare channel_answer s)"
| act_trace: "actions_step s (snd (handleTrace s))"
| act_traced: "actions_step s (trace_settled fixed1 trace_answer s)"
| act_discovery: "actions_step s (snd (handlePathDiscovery contact_answer s))"
| act_app: "app_step (ac_app s) app \<Longrightarrow> actions_step s (s\<lparr> ac_app := app \<rparr>)"

inductive actions_reachable :: "actions_state \<Rightarrow> bool" where
  actions_start: "actions_reachable (actions_init (app_init now))"
| actions_more: "actions_reachable s \<Longrightarrow> actions_step s s' \<Longrightarrow> actions_reachable s'"

lemma observe_app_step: "app_step app (observe_in msg app)"
  unfolding observe_in_def by (intro ev_hook h_observe) (simp add: observe_flag)

lemma merge_app_step:
  "app_step (ac_app s) (ac_app (merge_channel lc channel s))"
  "app_step (ac_app s) (ac_app (merge_contact contact s))"
  using ev_channel [of "ac_app s" lc channel] ev_contact [of "ac_app s" contact]
  by (simp_all add: merge_channel_def merge_contact_def onChannel_def onContact_def)

lemma app_toast [simp]: "ac_app (action_toast t s) = ac_app s"
  by (simp add: action_toast_def)

lemma action_is_app_step: "actions_step s s' \<Longrightarrow> ac_app s' = ac_app s \<or> app_step (ac_app s) (ac_app s')"
proof (induction rule: actions_step.induct)
  case (act_send s "text" senderName now_ms)
  then show ?case by (simp add: handleSendMessage_def Let_def split: option.split)
next
  case (act_settled s answer)
  then show ?case using observe_app_step by (auto simp: send_settled_def Let_def split: list.split sum.split)
next
  case (act_resend s newTimestamp answer')
  then show ?case using observe_app_step by (auto simp: handleResendChannelMessage_def Let_def split: sum.split option.split)
next
  case (act_channel_scope s localeCompare channel_answer)
  then show ?case using merge_app_step by (auto simp: handleSetChannelFloodScopeOverride_def split: sum.split)
next
  case (act_contact_scope s contact_answer)
  then show ?case using merge_app_step by (auto simp: handleSetContactFloodScopeOverride_def split: sum.split)
next
  case (act_channel_mode s localeCompare channel_answer)
  then show ?case using merge_app_step by (auto simp: handleSetChannelPathHashModeOverride_def split: sum.split)
next
  case (act_trace s)
  then show ?case by (simp add: handleTrace_def split: option.split)
next
  case (act_traced s fixed1 trace_answer)
  then show ?case by (simp add: trace_settled_def Let_def split: sum.split)
next
  case (act_discovery s contact_answer)
  then show ?case using merge_app_step by (auto simp: handlePathDiscovery_def split: sum.split)
next
  case (act_app s app)
  then show ?case by simp
qed

text \<open>C3. Whatever the user does and the server answers, and however it interleaves with the socket, the application goes
  only through states it could reach by socket events, navigation and responses alone; all its invariants hold while
  messages are sent and settings of channels and contacts change.\<close>

theorem actions_refine_app:
  assumes "actions_reachable s"
  shows "app_reachable (ac_app s)"
  using assms
proof induction
  case (actions_start now)
  then show ?case by (simp add: actions_init_def app_start)
next
  case (actions_more s s')
  from action_is_app_step [OF actions_more.hyps(2)] actions_more.IH show ?case by (auto intro: app_more)
qed

text \<open>A run that opens a channel and sends to it.\<close>

definition sample_open :: actions_state where
  "sample_open = (actions_init (app_init 0))\<lparr>
     ac_app := (app_init 0)\<lparr> ap_active := Some \<lparr> cv_type = Cv_channel, cv_id = ''AB'', cv_name = ''Public'', cv_mapFocusKey = None \<rparr> \<rparr> \<rparr>"

definition sample_sent :: actions_state where
  "sample_sent = handleSendMessage ''hi'' (Some ''Me'') 5000 sample_open"

lemma sample_sent_reachable: "actions_reachable sample_sent"
proof -
  have "actions_step (actions_init (app_init 0)) sample_open"
    using act_app [of "actions_init (app_init 0)" "(app_init 0)\<lparr> ap_active := Some \<lparr> cv_type = Cv_channel, cv_id = ''AB'', cv_name = ''Public'', cv_mapFocusKey = None \<rparr> \<rparr>"]
      ev_navigate [of "Some \<lparr> cv_type = Cv_channel, cv_id = ''AB'', cv_name = ''Public'', cv_mapFocusKey = None \<rparr>" "app_init 0"]
    by (simp add: sample_open_def actions_init_def)
  from actions_more [OF actions_start this] show ?thesis
    unfolding sample_sent_def by (rule actions_more) (rule act_send)
qed

theorem actions_refine_app_witness: "app_reachable (ac_app sample_sent) \<and> map m_text (ac_pending sample_sent) = [''Me: hi'']"
  using actions_refine_app [OF sample_sent_reachable]
  by (simp add: sample_sent_def sample_open_def handleSendMessage_def pending_message_def actions_init_def app_init_def
      Let_def)

section \<open>Sends go out one at a time and in order\<close>

text \<open>The sends typed so far have the numbers from the first one to the last.\<close>

definition send_inv :: "actions_state \<Rightarrow> bool" where
  "send_inv s \<longleftrightarrow> map m_id (ac_pending s) = map sd_id (ac_chain s)
     \<and> map sd_id (ac_requested s @ tl (ac_chain s)) = [- 1000000000..ac_nextId s - 1] \<and> - 1000000000 \<le> ac_nextId s
     \<and> (ac_chain s \<noteq> [] \<longrightarrow> ac_requested s \<noteq> [] \<and> last (ac_requested s) = hd (ac_chain s))"

lemma upto_snoc: "i \<le> j + 1 \<Longrightarrow> [i..j] @ [j + 1] = [i..j + 1]" for i j :: int
  using upto_rec2 [of i "j + 1"] by simp

lemma send_inv_send: "send_inv s \<Longrightarrow> send_inv (handleSendMessage text senderName now_ms s)"
proof (cases "ap_active (ac_app s)")
  case (Some conv)
  assume inv: "send_inv s"
  then have "map sd_id (ac_requested s @ tl (ac_chain s)) @ [ac_nextId s] = [- 1000000000..ac_nextId s]"
    using upto_snoc [of "- 1000000000" "ac_nextId s - 1"] by (simp add: send_inv_def)
  then have typed: "map sd_id (ac_requested s) @ map sd_id (tl (ac_chain s)) @ [ac_nextId s] = [- 1000000000..ac_nextId s]"
    by simp
  show ?thesis
  proof (cases "ac_chain s")
    case Nil
    with inv Some typed show ?thesis by (simp add: send_inv_def handleSendMessage_def pending_message_def Let_def)
  next
    case (Cons call rest)
    with inv Some typed show ?thesis by (simp add: send_inv_def handleSendMessage_def pending_message_def Let_def)
  qed
qed (simp add: handleSendMessage_def)

lemma filter_head:
  assumes "map m_id ms = i # is" and "i \<notin> set is"
  shows "map m_id (filter (\<lambda>m. m_id m \<noteq> i) ms) = is"
proof -
  from assms obtain m ms' where ms: "ms = m # ms'" "m_id m = i" "map m_id ms' = is" by (cases ms) auto
  with assms(2) have "filter (\<lambda>m. m_id m \<noteq> i) ms' = ms'" by (auto intro!: filter_True simp: rev_image_eqI)
  with ms show ?thesis by simp
qed

lemma send_inv_settled:
  assumes inv: "send_inv s"
  shows "send_inv (snd (send_settled answer s))"
proof (cases "ac_chain s")
  case Nil
  then show ?thesis using inv by (simp add: send_settled_def)
next
  case (Cons call rest)
  from inv have chain: "map m_id (ac_pending s) = sd_id call # map sd_id rest"
    and typed: "map sd_id (ac_requested s @ rest) = [- 1000000000..ac_nextId s - 1]"
    and last: "ac_requested s \<noteq> []" "last (ac_requested s) = call" by (simp_all add: send_inv_def Cons)
  have "distinct (map sd_id (ac_requested s @ rest))" unfolding typed by (rule distinct_upto)
  then have "sd_id call \<notin> set (map sd_id rest)" using last by (auto, metis image_eqI last_in_set disjoint_iff)
  from filter_head [OF chain this] have "map m_id (filter (\<lambda>m. m_id m \<noteq> sd_id call) (ac_pending s)) = map sd_id rest" .
  with inv typed show ?thesis
    by (cases rest) (auto simp: send_settled_def Cons send_inv_def Let_def split: sum.split)
qed

lemma send_inv_step: "actions_step s s' \<Longrightarrow> send_inv s \<Longrightarrow> send_inv s'"
proof (induction rule: actions_step.induct)
  case (act_send s "text" senderName now_ms)
  then show ?case by (simp add: send_inv_send)
next
  case (act_settled s answer)
  then show ?case by (simp add: send_inv_settled)
qed (auto simp: send_inv_def action_toast_def merge_channel_def merge_contact_def handleResendChannelMessage_def
    handleSetChannelFloodScopeOverride_def handleSetContactFloodScopeOverride_def handleSetChannelPathHashModeOverride_def
    handleTrace_def trace_settled_def handlePathDiscovery_def Let_def split: sum.splits option.splits if_splits)

text \<open>C8. Messages are requested from the server in the order they were typed, each exactly once and only when the one
  before it has settled, failed or not; and those shown as pending are exactly the ones that have not settled.\<close>

theorem sends_in_order:
  assumes "actions_reachable s"
  shows "map sd_id (ac_requested s @ tl (ac_chain s)) = [- 1000000000..ac_nextId s - 1]
    \<and> (ac_chain s \<noteq> [] \<longrightarrow> last (ac_requested s) = hd (ac_chain s))
    \<and> map m_id (ac_pending s) = map sd_id (ac_chain s)"
proof -
  have "send_inv s"
    using assms
  proof induction
    case (actions_start now)
    then show ?case by (simp add: actions_init_def send_inv_def)
  next
    case (actions_more s s')
    then show ?case using send_inv_step by blast
  qed
  then show ?thesis by (simp add: send_inv_def)
qed

theorem sends_in_order_witness:
  "length (ac_chain sample_sent) = 1 \<and> map m_id (ac_pending sample_sent) = map sd_id (ac_chain sample_sent)"
  using sends_in_order [OF sample_sent_reachable]
  by (simp add: sample_sent_def sample_open_def handleSendMessage_def actions_init_def app_init_def Let_def)

end
