(* ===== verification/Preferences.thy ===== *)
theory Preferences
  imports Text_Display
begin

text \<open>
  What the browser remembers for its user: \<^verbatim>\<open>utils/boolPreference.ts\<close> and the flags kept through it,
  \<^verbatim>\<open>autoFocusInput.ts\<close>, \<^verbatim>\<open>distanceUnits.ts\<close>, \<^verbatim>\<open>fontScale.ts\<close>, \<^verbatim>\<open>localLabel.ts\<close>, \<^verbatim>\<open>visualizerSettings.ts\<close>,
  \<^verbatim>\<open>repeaterSidebarTelemetry.ts\<close>, \<^verbatim>\<open>theme.ts\<close> and \<^verbatim>\<open>hooks/useRememberedServerPassword.ts\<close>.

  The storage of a page holds a value per key, and every access throws when it is disabled. Under a key that holds JSON the
  value is what it parses to (\<open>None\<close> for a text that does not parse), under the font scale the number it reads as
  (\<open>None\<close> for none).
\<close>

section \<open>Storage\<close>

record 'a web_storage =
  ws_available :: bool
  ws_items :: "(string, 'a) jsmap"

datatype storage_error = SecurityError

definition getItem :: "string \<Rightarrow> 'a web_storage \<Rightarrow> storage_error + 'a option" where
  "getItem k ws = (if ws_available ws then Inr (jm_get (ws_items ws) k) else Inl SecurityError)"

text \<open>A write or removal whose error is caught and dropped.\<close>

definition setItem :: "string \<Rightarrow> 'a \<Rightarrow> 'a web_storage \<Rightarrow> 'a web_storage" where
  "setItem k v ws = (if ws_available ws then ws\<lparr> ws_items := jm_set k v (ws_items ws) \<rparr> else ws)"

definition removeItem :: "string \<Rightarrow> 'a web_storage \<Rightarrow> 'a web_storage" where
  "removeItem k ws = (if ws_available ws then ws\<lparr> ws_items := jm_delete k (ws_items ws) \<rparr> else ws)"

lemma ws_available_set [simp]:
  "ws_available (setItem k v ws) = ws_available ws" "ws_available (removeItem k ws) = ws_available ws"
  by (simp_all add: setItem_def removeItem_def)

lemma getItem_set [simp]:
  "getItem k (setItem k' v ws) = (if k = k' \<and> ws_available ws then Inr (Some v) else getItem k ws)"
  by (simp add: getItem_def setItem_def jsmap)

lemma getItem_remove [simp]:
  "getItem k (removeItem k' ws) = (if k = k' \<and> ws_available ws then Inr None else getItem k ws)"
  by (simp add: getItem_def removeItem_def jsmap)

lemma getItem_unavailable [simp]: "\<not> ws_available ws \<Longrightarrow> getItem k ws = Inl SecurityError"
  by (simp add: getItem_def)

lemma set_unavailable [simp]: "\<not> ws_available ws \<Longrightarrow> setItem k v ws = ws" "\<not> ws_available ws \<Longrightarrow> removeItem k ws = ws"
  by (simp_all add: setItem_def removeItem_def)

section \<open>Flags and choices\<close>

definition getBoolPreference :: "string \<Rightarrow> string web_storage \<Rightarrow> bool" where
  "getBoolPreference key ws = (case getItem key ws of Inr raw \<Rightarrow> raw = Some ''true'' | Inl _ \<Rightarrow> False)"

definition setBoolPreference :: "string \<Rightarrow> bool \<Rightarrow> string web_storage \<Rightarrow> string web_storage" where
  "setBoolPreference key enabled ws = (if enabled then setItem key ''true'' ws else removeItem key ws)"

definition PERCENT_KEY :: string where "PERCENT_KEY = ''remoteterm-show-battery-percent''"
definition VOLTAGE_KEY :: string where "VOLTAGE_KEY = ''remoteterm-show-battery-voltage''"
definition TEMPERATURE_KEY :: string where "TEMPERATURE_KEY = ''remoteterm-sidebar-repeater-temperature''"
definition PULSE_KEY :: string where "PULSE_KEY = ''remoteterm-status-dot-pulse''"

definition AUTO_FOCUS_KEY :: string where "AUTO_FOCUS_KEY = ''remoteterm-auto-focus-input''"

definition getAutoFocusInputEnabled :: "string web_storage \<Rightarrow> bool" where
  "getAutoFocusInputEnabled ws = (case getItem AUTO_FOCUS_KEY ws of Inr raw \<Rightarrow> raw = None \<or> raw \<noteq> Some ''false'' | Inl _ \<Rightarrow> True)"

definition setAutoFocusInputEnabled :: "bool \<Rightarrow> string web_storage \<Rightarrow> string web_storage" where
  "setAutoFocusInputEnabled enabled ws = (if enabled then removeItem AUTO_FOCUS_KEY ws else setItem AUTO_FOCUS_KEY ''false'' ws)"

definition shouldAutoFocusInput :: "nat \<Rightarrow> string web_storage \<Rightarrow> bool" where
  "shouldAutoFocusInput innerWidth ws \<longleftrightarrow> getAutoFocusInputEnabled ws \<and> 768 \<le> innerWidth"

definition DISTANCE_UNIT_KEY :: string where "DISTANCE_UNIT_KEY = ''remoteterm-distance-unit''"
definition DISTANCE_UNITS :: "string list" where "DISTANCE_UNITS = [''imperial'', ''metric'', ''smoots'']"

definition getSavedDistanceUnit :: "string web_storage \<Rightarrow> string" where
  "getSavedDistanceUnit ws =
     (case getItem DISTANCE_UNIT_KEY ws of Inr (Some raw) \<Rightarrow> if raw \<in> set DISTANCE_UNITS then raw else ''metric'' | _ \<Rightarrow> ''metric'')"

definition setSavedDistanceUnit :: "string \<Rightarrow> string web_storage \<Rightarrow> string web_storage" where
  "setSavedDistanceUnit u ws = setItem DISTANCE_UNIT_KEY u ws"

definition REPEATER_POWER_MODES :: "string list" where "REPEATER_POWER_MODES = [''off'', ''volts'', ''percent'']"
definition POWER_MODE_KEY :: string where "POWER_MODE_KEY = ''remoteterm-sidebar-repeater-power''"

definition getRepeaterPowerMode :: "string web_storage \<Rightarrow> string" where
  "getRepeaterPowerMode ws =
     (case getItem POWER_MODE_KEY ws of Inr (Some raw) \<Rightarrow> if raw \<in> set REPEATER_POWER_MODES then raw else ''off'' | _ \<Rightarrow> ''off'')"

definition setRepeaterPowerMode :: "string \<Rightarrow> string web_storage \<Rightarrow> string web_storage" where
  "setRepeaterPowerMode mode ws = setItem POWER_MODE_KEY mode ws"

section \<open>The readings beside a repeater\<close>

text \<open>\<open>fixed1\<close> is \<^verbatim>\<open>toFixed(1)\<close>.\<close>

definition formatRepeaterPower :: "(real \<Rightarrow> string) \<Rightarrow> real option \<Rightarrow> string \<Rightarrow> string option" where
  "formatRepeaterPower fixed1 volts mode =
     (case volts of
        None \<Rightarrow> None
      | Some v \<Rightarrow>
          if mode = ''off'' \<or> v \<le> 0 then None
          else if mode = ''percent'' \<and> v \<le> 4.5 then Some (show_int (mvToPercent (js_round (v * 1000))) @ ''%'')
          else Some (fixed1 v @ ''V''))"

record lpp_sensor =
  lpp_type_name :: string
  lpp_value :: "real option"

definition degree :: string where "degree = [char_of (176 :: nat)]"

text \<open>A sensor whose value is not a number has none.\<close>

definition formatRepeaterTemperature :: "lpp_sensor list option \<Rightarrow> string \<Rightarrow> string option" where
  "formatRepeaterTemperature lpp_sensors u =
     (case find (\<lambda>s. lpp_type_name s = ''temperature'') (coalesce lpp_sensors []) of
        None \<Rightarrow> None
      | Some sensor \<Rightarrow>
          (case lpp_value sensor of
             None \<Rightarrow> None
           | Some v \<Rightarrow>
               Some (if u = ''imperial'' then show_int (js_round ((v * 9) / 5 + 32)) @ degree @ ''F''
                     else show_int (js_round v) @ degree @ ''C'')))"

section \<open>The font scale\<close>

definition FONT_SCALE_KEY :: string where "FONT_SCALE_KEY = ''remoteterm-font-scale''"
definition DEFAULT_FONT_SCALE :: real where "DEFAULT_FONT_SCALE = 100"
definition MIN_FONT_SCALE :: real where "MIN_FONT_SCALE = 25"
definition MAX_FONT_SCALE :: real where "MAX_FONT_SCALE = 400"

text \<open>\<^verbatim>\<open>Number.parseFloat(x.toFixed(2))\<close>; a scale that is not finite is \<open>None\<close>.\<close>

definition round_hundredths :: "real \<Rightarrow> real" where
  "round_hundredths x = real_of_int (js_round (x * 100)) / 100"

definition normalizeFontScale :: "real option \<Rightarrow> real" where
  "normalizeFontScale scale =
     (case scale of
        None \<Rightarrow> DEFAULT_FONT_SCALE
      | Some x \<Rightarrow> round_hundredths (min MAX_FONT_SCALE (max MIN_FONT_SCALE x)))"

definition getSavedFontScale :: "real option web_storage \<Rightarrow> real" where
  "getSavedFontScale ws =
     (case getItem FONT_SCALE_KEY ws of Inr (Some parsed) \<Rightarrow> normalizeFontScale parsed | _ \<Rightarrow> DEFAULT_FONT_SCALE)"

definition setSavedFontScale :: "real option \<Rightarrow> real option web_storage \<Rightarrow> real \<times> real option web_storage" where
  "setSavedFontScale scale ws =
     (let normalized = normalizeFontScale scale in
      (normalized, if normalized = DEFAULT_FONT_SCALE then removeItem FONT_SCALE_KEY ws
                   else setItem FONT_SCALE_KEY (Some normalized) ws))"

section \<open>Values kept as JSON\<close>

type_synonym json_storage = "json option web_storage"

text \<open>The value under a key: \<open>None\<close> where there is none, it does not parse or reading a member of it throws.\<close>

definition stored_object :: "string \<Rightarrow> json_storage \<Rightarrow> json option" where
  "stored_object k ws =
     (case getItem k ws of Inr (Some (Some parsed)) \<Rightarrow> if parsed = JNull then None else Some parsed | _ \<Rightarrow> None)"

definition json_bool :: "json option \<Rightarrow> bool \<Rightarrow> bool" where
  "json_bool v d = (case v of Some (JBool b) \<Rightarrow> b | _ \<Rightarrow> d)"

definition json_num :: "json option \<Rightarrow> real \<Rightarrow> real" where
  "json_num v d = (case v of Some (JNum x) \<Rightarrow> x | _ \<Rightarrow> d)"

definition json_str :: "json option \<Rightarrow> string \<Rightarrow> string" where
  "json_str v d = (case v of Some (JStr s) \<Rightarrow> s | _ \<Rightarrow> d)"

record local_label =
  lb_text :: string
  lb_color :: string

definition LOCAL_LABEL_KEY :: string where "LOCAL_LABEL_KEY = ''remoteterm-local-label''"
definition DEFAULT_LABEL :: local_label where "DEFAULT_LABEL = \<lparr> lb_text = [], lb_color = ''#062d60'' \<rparr>"

definition getLocalLabel :: "json_storage \<Rightarrow> local_label" where
  "getLocalLabel ws =
     (case stored_object LOCAL_LABEL_KEY ws of
        None \<Rightarrow> DEFAULT_LABEL
      | Some parsed \<Rightarrow>
          \<lparr> lb_text = json_str (json_member parsed ''text'') [],
            lb_color = json_str (json_member parsed ''color'') (lb_color DEFAULT_LABEL) \<rparr>)"

definition setLocalLabel :: "local_label \<Rightarrow> json_storage \<Rightarrow> json_storage" where
  "setLocalLabel label ws =
     setItem LOCAL_LABEL_KEY (Some (JObj [(''text'', JStr (lb_text label)), (''color'', JStr (lb_color label))])) ws"

section \<open>Settings of the visualizer\<close>

record visualizer_settings =
  vs_showAmbiguousPaths :: bool
  vs_showAmbiguousNodes :: bool
  vs_useAdvertPathHints :: bool
  vs_collapseLikelyKnownSiblingRepeaters :: bool
  vs_splitAmbiguousByTraffic :: bool
  vs_chargeStrength :: real
  vs_observationWindowSec :: real
  vs_letEmDrift :: bool
  vs_particleSpeedMultiplier :: real
  vs_pruneStaleNodes :: bool
  vs_pruneStaleMinutes :: real
  vs_autoOrbit :: bool
  vs_showControls :: bool
  vs_hidePacketFeed :: bool

definition VISUALIZER_SETTINGS_KEY :: string where "VISUALIZER_SETTINGS_KEY = ''remoteterm-visualizer-settings''"

definition VISUALIZER_DEFAULTS :: visualizer_settings where
  "VISUALIZER_DEFAULTS =
     \<lparr> vs_showAmbiguousPaths = True,
       vs_showAmbiguousNodes = False,
       vs_useAdvertPathHints = True,
       vs_collapseLikelyKnownSiblingRepeaters = True,
       vs_splitAmbiguousByTraffic = True,
       vs_chargeStrength = - 200,
       vs_observationWindowSec = 15,
       vs_letEmDrift = True,
       vs_particleSpeedMultiplier = 2,
       vs_pruneStaleNodes = True,
       vs_pruneStaleMinutes = 5,
       vs_autoOrbit = False,
       vs_showControls = True,
       vs_hidePacketFeed = False \<rparr>"

definition getVisualizerSettings :: "json_storage \<Rightarrow> visualizer_settings" where
  "getVisualizerSettings ws =
     (case stored_object VISUALIZER_SETTINGS_KEY ws of
        None \<Rightarrow> VISUALIZER_DEFAULTS
      | Some parsed \<Rightarrow>
          (let bool = (\<lambda>k f. json_bool (json_member parsed k) (f VISUALIZER_DEFAULTS));
               num = (\<lambda>k f. json_num (json_member parsed k) (f VISUALIZER_DEFAULTS));
               minutes = num ''pruneStaleMinutes'' vs_pruneStaleMinutes
           in \<lparr> vs_showAmbiguousPaths = bool ''showAmbiguousPaths'' vs_showAmbiguousPaths,
                vs_showAmbiguousNodes = bool ''showAmbiguousNodes'' vs_showAmbiguousNodes,
                vs_useAdvertPathHints = bool ''useAdvertPathHints'' vs_useAdvertPathHints,
                vs_collapseLikelyKnownSiblingRepeaters = bool ''collapseLikelyKnownSiblingRepeaters'' vs_collapseLikelyKnownSiblingRepeaters,
                vs_splitAmbiguousByTraffic = bool ''splitAmbiguousByTraffic'' vs_splitAmbiguousByTraffic,
                vs_chargeStrength = num ''chargeStrength'' vs_chargeStrength,
                vs_observationWindowSec = num ''observationWindowSec'' vs_observationWindowSec,
                vs_letEmDrift = bool ''letEmDrift'' vs_letEmDrift,
                vs_particleSpeedMultiplier = num ''particleSpeedMultiplier'' vs_particleSpeedMultiplier,
                vs_pruneStaleNodes = bool ''pruneStaleNodes'' vs_pruneStaleNodes,
                vs_pruneStaleMinutes = (if 1 \<le> minutes then minutes else vs_pruneStaleMinutes VISUALIZER_DEFAULTS),
                vs_autoOrbit = bool ''autoOrbit'' vs_autoOrbit,
                vs_showControls = bool ''showControls'' vs_showControls,
                vs_hidePacketFeed = bool ''hidePacketFeed'' vs_hidePacketFeed \<rparr>))"

definition visualizer_json :: "visualizer_settings \<Rightarrow> json" where
  "visualizer_json vs =
     JObj [(''showAmbiguousPaths'', JBool (vs_showAmbiguousPaths vs)),
           (''showAmbiguousNodes'', JBool (vs_showAmbiguousNodes vs)),
           (''useAdvertPathHints'', JBool (vs_useAdvertPathHints vs)),
           (''collapseLikelyKnownSiblingRepeaters'', JBool (vs_collapseLikelyKnownSiblingRepeaters vs)),
           (''splitAmbiguousByTraffic'', JBool (vs_splitAmbiguousByTraffic vs)),
           (''chargeStrength'', JNum (vs_chargeStrength vs)),
           (''observationWindowSec'', JNum (vs_observationWindowSec vs)),
           (''letEmDrift'', JBool (vs_letEmDrift vs)),
           (''particleSpeedMultiplier'', JNum (vs_particleSpeedMultiplier vs)),
           (''pruneStaleNodes'', JBool (vs_pruneStaleNodes vs)),
           (''pruneStaleMinutes'', JNum (vs_pruneStaleMinutes vs)),
           (''autoOrbit'', JBool (vs_autoOrbit vs)),
           (''showControls'', JBool (vs_showControls vs)),
           (''hidePacketFeed'', JBool (vs_hidePacketFeed vs))]"

definition saveVisualizerSettings :: "visualizer_settings \<Rightarrow> json_storage \<Rightarrow> json_storage" where
  "saveVisualizerSettings vs ws = setItem VISUALIZER_SETTINGS_KEY (Some (visualizer_json vs)) ws"

section \<open>Themes\<close>

record theme =
  th_id :: string
  th_name :: string
  th_swatches :: "string list"
  th_metaThemeColor :: string

definition THEMES :: "theme list" where
  "THEMES =
     [\<lparr> th_id = ''original'', th_name = ''Original'',
        th_swatches = [''#111419'', ''#181b21'', ''#27a05c'', ''#282c33'', ''#f59e0b'', ''#3b82f6''], th_metaThemeColor = ''#111419'' \<rparr>,
      \<lparr> th_id = ''light'', th_name = ''Light'',
        th_swatches = [''#F8F7F4'', ''#FFFFFF'', ''#1B7D4E'', ''#EDEBE7'', ''#D97706'', ''#3B82F6''], th_metaThemeColor = ''#F8F7F4'' \<rparr>,
      \<lparr> th_id = ''follow-os'', th_name = ''OS Light/Dark Mode'',
        th_swatches = [''#F8F7F4'', ''#FFFFFF'', ''#1B7D4E'', ''#111419'', ''#181b21'', ''#27a05c''], th_metaThemeColor = ''#111419'' \<rparr>,
      \<lparr> th_id = ''ios'', th_name = ''iPhone'',
        th_swatches = [''#F2F2F7'', ''#FFFFFF'', ''#007AFF'', ''#E5E5EA'', ''#FF9F0A'', ''#34C759''], th_metaThemeColor = ''#F2F2F7'' \<rparr>,
      \<lparr> th_id = ''paper-grove'', th_name = ''Paper Grove'',
        th_swatches = [''#F7F1E4'', ''#FFF9EE'', ''#2F9E74'', ''#E7DEC8'', ''#E76F51'', ''#5C7CFA''], th_metaThemeColor = ''#F7F1E4'' \<rparr>,
      \<lparr> th_id = ''cyberpunk'', th_name = ''Cyberpunk'',
        th_swatches = [''#07080A'', ''#0D1112'', ''#00FF41'', ''#141E17'', ''#FAFF00'', ''#FF2E6C''], th_metaThemeColor = ''#07080A'' \<rparr>,
      \<lparr> th_id = ''obsidian-glass'', th_name = ''Obsidian Glass'',
        th_swatches = [''#0C0E12'', ''#151821'', ''#D4A070'', ''#1E2230'', ''#D4924A'', ''#5B82B4''], th_metaThemeColor = ''#0C0E12'' \<rparr>,
      \<lparr> th_id = ''solar-flare'', th_name = ''Solar Flare'',
        th_swatches = [''#0D0607'', ''#151012'', ''#FF0066'', ''#2D1D22'', ''#FF8C1A'', ''#30ACD4''], th_metaThemeColor = ''#0D0607'' \<rparr>,
      \<lparr> th_id = ''lagoon-pop'', th_name = ''Lagoon Pop'',
        th_swatches = [''#081A22'', ''#0F2630'', ''#23D7C6'', ''#173844'', ''#FF7A66'', ''#7C83FF''], th_metaThemeColor = ''#081A22'' \<rparr>,
      \<lparr> th_id = ''candy-dusk'', th_name = ''Candy Dusk'',
        th_swatches = [''#140F24'', ''#201736'', ''#FF79C9'', ''#2A2144'', ''#FFC857'', ''#8BE9FD''], th_metaThemeColor = ''#140F24'' \<rparr>,
      \<lparr> th_id = ''high-contrast'', th_name = ''High Contrast'',
        th_swatches = [''#000000'', ''#141414'', ''#3B9EFF'', ''#1E1E1E'', ''#FFB800'', ''#FF4757''], th_metaThemeColor = ''#000000'' \<rparr>,
      \<lparr> th_id = ''monochrome'', th_name = ''Monochrome'',
        th_swatches = [''#FAFAFA'', ''#FFFFFF'', ''#111111'', ''#EAEAEA'', ''#8A8A8A'', ''#4A4A4A''], th_metaThemeColor = ''#FAFAFA'' \<rparr>,
      \<lparr> th_id = ''windows-95'', th_name = ''Windows 95'',
        th_swatches = [''#008080'', ''#C0C0C0'', ''#000080'', ''#DFDFDF'', ''#FFDE59'', ''#000000''], th_metaThemeColor = ''#008080'' \<rparr>]"

definition THEME_KEY :: string where "THEME_KEY = ''remoteterm-theme''"
definition FOLLOW_OS_THEME_ID :: string where "FOLLOW_OS_THEME_ID = ''follow-os''"

definition getSavedTheme :: "string web_storage \<Rightarrow> string" where
  "getSavedTheme ws = (case getItem THEME_KEY ws of Inr raw \<Rightarrow> coalesce raw ''original'' | Inl _ \<Rightarrow> ''original'')"

definition setSavedTheme :: "string \<Rightarrow> string web_storage \<Rightarrow> string web_storage" where
  "setSavedTheme themeId ws = setItem THEME_KEY themeId ws"

text \<open>The page: its storage, whether the system prefers light colours (\<open>None\<close> where that cannot be asked), the theme on the
  document (\<open>None\<close> for the original one) and the colour for the browser's frame.\<close>

record themed_page =
  tp_storage :: "string web_storage"
  tp_prefersLight :: "bool option"
  tp_theme :: "string option"
  tp_meta :: "string option"

definition resolveFollowOS :: "themed_page \<Rightarrow> string" where
  "resolveFollowOS p = (if tp_prefersLight p = Some True then ''light'' else ''original'')"

definition effective_theme :: "string \<Rightarrow> themed_page \<Rightarrow> string" where
  "effective_theme themeId p = (if themeId = FOLLOW_OS_THEME_ID then resolveFollowOS p else themeId)"

definition getEffectiveTheme :: "themed_page \<Rightarrow> string" where
  "getEffectiveTheme p = effective_theme (getSavedTheme (tp_storage p)) p"

definition applyTheme :: "string \<Rightarrow> themed_page \<Rightarrow> themed_page" where
  "applyTheme themeId p =
     (let effective = effective_theme themeId p in
      p\<lparr> tp_storage := setSavedTheme themeId (tp_storage p),
         tp_theme := (if effective = ''original'' then None else Some effective),
         tp_meta := (case (find (\<lambda>t. th_id t = effective) THEMES, tp_meta p) of
                       (Some t, Some _) \<Rightarrow> Some (th_metaThemeColor t) | _ \<Rightarrow> tp_meta p) \<rparr>)"

text \<open>The listener on the system's preference.\<close>

definition os_theme_changed :: "bool \<Rightarrow> themed_page \<Rightarrow> themed_page" where
  "os_theme_changed light p =
     (let p1 = p\<lparr> tp_prefersLight := Some light \<rparr> in
      if getSavedTheme (tp_storage p1) = FOLLOW_OS_THEME_ID then applyTheme FOLLOW_OS_THEME_ID p1 else p1)"

section \<open>Passwords of servers\<close>

datatype server_kind = Sv_repeater | Sv_room

definition getStorageKey :: "server_kind \<Rightarrow> string \<Rightarrow> string" where
  "getStorageKey kind publicKey =
     ''remoteterm-server-password:'' @ (case kind of Sv_repeater \<Rightarrow> ''repeater'' | Sv_room \<Rightarrow> ''room'') @ '':'' @ publicKey"

definition loadStoredPassword :: "server_kind \<Rightarrow> string \<Rightarrow> json_storage \<Rightarrow> string option" where
  "loadStoredPassword kind publicKey ws =
     (case stored_object (getStorageKey kind publicKey) ws of
        None \<Rightarrow> None
      | Some parsed \<Rightarrow>
          (case json_member parsed ''password'' of Some (JStr p) \<Rightarrow> if p = [] then None else Some p | _ \<Rightarrow> None))"

text \<open>What is stored, what is remembered until the page is left, and the fields of the open login form.\<close>

record password_state =
  pw_storage :: json_storage
  pw_inMemory :: "(string, string) jsmap"
  pw_password :: string
  pw_rememberPassword :: bool
  pw_storedPassword :: string

definition loadInitialPassword :: "server_kind \<Rightarrow> string \<Rightarrow> password_state \<Rightarrow> string \<times> bool" where
  "loadInitialPassword kind publicKey s =
     (case loadStoredPassword kind publicKey (pw_storage s) of
        Some stored \<Rightarrow> (stored, True)
      | None \<Rightarrow> (coalesce (jm_get (pw_inMemory s) (getStorageKey kind publicKey)) [], False))"

text \<open>The effect on the server shown, which also runs when it is mounted.\<close>

definition show_login :: "server_kind \<Rightarrow> string \<Rightarrow> password_state \<Rightarrow> password_state" where
  "show_login kind publicKey s =
     (case loadStoredPassword kind publicKey (pw_storage s) of
        Some stored \<Rightarrow> s\<lparr> pw_password := stored, pw_storedPassword := stored, pw_rememberPassword := True \<rparr>
      | None \<Rightarrow>
          (case jm_get (pw_inMemory s) (getStorageKey kind publicKey) of
             Some remembered \<Rightarrow> s\<lparr> pw_password := remembered, pw_storedPassword := remembered, pw_rememberPassword := False \<rparr>
           | None \<Rightarrow> s\<lparr> pw_password := [], pw_storedPassword := [], pw_rememberPassword := False \<rparr>))"

definition persistAfterLogin :: "server_kind \<Rightarrow> string \<Rightarrow> string \<Rightarrow> password_state \<Rightarrow> password_state" where
  "persistAfterLogin kind publicKey submittedPassword s =
     (let trimmedPassword = trim submittedPassword; storageKey = getStorageKey kind publicKey in
      if trimmedPassword = [] then s
      else s\<lparr> pw_inMemory := jm_set storageKey trimmedPassword (pw_inMemory s),
              pw_storage := (if \<not> pw_rememberPassword s then removeItem storageKey (pw_storage s)
                             else setItem storageKey (Some (JObj [(''password'', JStr trimmedPassword)])) (pw_storage s)),
              pw_password := trimmedPassword \<rparr>)"

definition forgetPassword :: "server_kind \<Rightarrow> string \<Rightarrow> password_state \<Rightarrow> password_state" where
  "forgetPassword kind publicKey s =
     s\<lparr> pw_inMemory := jm_delete (getStorageKey kind publicKey) (pw_inMemory s),
        pw_storage := removeItem (getStorageKey kind publicKey) (pw_storage s),
        pw_password := [], pw_storedPassword := [], pw_rememberPassword := False \<rparr>"

section \<open>A preference\<close>

text \<open>What every preference promises: under one key of the storage it keeps the last valid value that was set, loading it
  gives a valid value whatever the key holds, and a storage that is disabled is left alone.\<close>

locale preference =
  fixes load :: "'a web_storage \<Rightarrow> 'v"
    and save :: "'v \<Rightarrow> 'a web_storage \<Rightarrow> 'a web_storage"
    and key :: string
    and valid :: "'v \<Rightarrow> bool"
  assumes load_save: "ws_available ws \<Longrightarrow> valid v \<Longrightarrow> load (save v ws) = v"
    and load_valid: "valid (load ws)"
    and load_item: "getItem key ws = getItem key ws' \<Longrightarrow> load ws = load ws'"
    and save_other: "k \<noteq> key \<Longrightarrow> getItem k (save v ws) = getItem k ws"
    and save_available: "ws_available (save v ws) = ws_available ws"
    and save_unavailable: "\<not> ws_available ws \<Longrightarrow> save v ws = ws"
begin

lemma available_saves: "ws_available (fold save vs ws) = ws_available ws"
  by (induction vs arbitrary: ws) (simp_all add: save_available)

lemma load_saves:
  assumes "ws_available ws" and "vs \<noteq> []" and "valid (last vs)"
  shows "load (fold save vs ws) = last vs"
proof -
  have "fold save vs ws = save (last vs) (fold save (butlast vs) ws)"
    by (subst append_butlast_last_id [OF assms(2), symmetric]) simp
  with assms show ?thesis by (simp add: load_save available_saves)
qed

lemma saves_other: "k \<noteq> key \<Longrightarrow> getItem k (fold save vs ws) = getItem k ws"
  by (induction vs arbitrary: ws) (simp_all add: save_other)

lemma saves_unavailable: "\<not> ws_available ws \<Longrightarrow> fold save vs ws = ws"
  by (induction vs) (simp_all add: save_unavailable)

lemma save_load: "load (save (load ws) ws) = load ws"
  by (cases "ws_available ws") (simp_all add: load_save load_valid save_unavailable)

end

text \<open>Two preferences in one storage under different keys do not touch each other.\<close>

locale preference_pair = one: preference load save key valid + other: preference load' save' key' valid'
  for load :: "'a web_storage \<Rightarrow> 'v" and save key valid and load' :: "'a web_storage \<Rightarrow> 'w" and save' key' valid' +
  assumes keys: "key \<noteq> key'"
begin

lemma independent: "load (save' w ws) = load ws" "load' (save v ws) = load' ws"
  using keys by (simp_all add: one.load_item [OF other.save_other] other.load_item [OF one.save_other])

lemma both: "ws_available ws \<Longrightarrow> valid v \<Longrightarrow> valid' w \<Longrightarrow>
  load (save' w (save v ws)) = v \<and> load' (save' w (save v ws)) = w"
  by (simp add: independent one.load_save other.load_save one.save_available)

end

text \<open>Every preference of the client is one.\<close>

lemma bool_preference: "preference (getBoolPreference k) (setBoolPreference k) k (\<lambda>_. True)"
  by unfold_locales (auto simp: getBoolPreference_def setBoolPreference_def)

interpretation battery: preference_pair "getBoolPreference PERCENT_KEY" "setBoolPreference PERCENT_KEY" PERCENT_KEY "\<lambda>_. True"
    "getBoolPreference VOLTAGE_KEY" "setBoolPreference VOLTAGE_KEY" VOLTAGE_KEY "\<lambda>_. True"
  by (intro preference_pair.intro preference_pair_axioms.intro bool_preference) (simp add: PERCENT_KEY_def VOLTAGE_KEY_def)

interpretation repeater_temperature: preference "getBoolPreference TEMPERATURE_KEY" "setBoolPreference TEMPERATURE_KEY" TEMPERATURE_KEY "\<lambda>_. True"
  by (rule bool_preference)

interpretation dot_pulse: preference "getBoolPreference PULSE_KEY" "setBoolPreference PULSE_KEY" PULSE_KEY "\<lambda>_. True"
  by (rule bool_preference)

interpretation auto_focus: preference getAutoFocusInputEnabled setAutoFocusInputEnabled AUTO_FOCUS_KEY "\<lambda>_. True"
  by unfold_locales (auto simp: getAutoFocusInputEnabled_def setAutoFocusInputEnabled_def)

interpretation distance_unit: preference getSavedDistanceUnit setSavedDistanceUnit DISTANCE_UNIT_KEY "\<lambda>u. u \<in> set DISTANCE_UNITS"
  by unfold_locales
    (auto simp: getSavedDistanceUnit_def setSavedDistanceUnit_def DISTANCE_UNITS_def split: sum.split option.split)

interpretation repeater_power: preference getRepeaterPowerMode setRepeaterPowerMode POWER_MODE_KEY "\<lambda>m. m \<in> set REPEATER_POWER_MODES"
  by unfold_locales
    (auto simp: getRepeaterPowerMode_def setRepeaterPowerMode_def REPEATER_POWER_MODES_def split: sum.split option.split)

interpretation saved_theme: preference getSavedTheme setSavedTheme THEME_KEY "\<lambda>_. True"
  by unfold_locales (simp_all add: getSavedTheme_def setSavedTheme_def)

lemma stored_object_set [simp]: "ws_available ws \<Longrightarrow> stored_object k (setItem k (Some (JObj members)) ws) = Some (JObj members)"
  by (simp add: stored_object_def)

lemma stored_object_item: "getItem k ws = getItem k ws' \<Longrightarrow> stored_object k ws = stored_object k ws'"
  by (simp add: stored_object_def)

interpretation local_label: preference getLocalLabel setLocalLabel LOCAL_LABEL_KEY "\<lambda>_. True"
proof unfold_locales
  fix ws ws' :: json_storage
  assume "getItem LOCAL_LABEL_KEY ws = getItem LOCAL_LABEL_KEY ws'"
  from stored_object_item [OF this] show "getLocalLabel ws = getLocalLabel ws'" by (simp add: getLocalLabel_def)
qed (simp_all add: getLocalLabel_def setLocalLabel_def json_str_def)

definition settings_valid :: "visualizer_settings \<Rightarrow> bool" where
  "settings_valid vs \<longleftrightarrow> 1 \<le> vs_pruneStaleMinutes vs"

lemma json_values [simp]: "json_bool (Some (JBool b)) d = b" "json_num (Some (JNum x)) e = x" "json_str (Some (JStr s)) f = s"
  by (simp_all add: json_bool_def json_num_def json_str_def)

lemma settings_loaded:
  "ws_available ws \<Longrightarrow> settings_valid vs \<Longrightarrow> getVisualizerSettings (saveVisualizerSettings vs ws) = vs"
  by (simp add: getVisualizerSettings_def saveVisualizerSettings_def visualizer_json_def settings_valid_def)

lemma settings_load_valid: "settings_valid (getVisualizerSettings ws)"
  by (simp add: getVisualizerSettings_def settings_valid_def VISUALIZER_DEFAULTS_def Let_def split: option.split)

interpretation visualizer: preference getVisualizerSettings saveVisualizerSettings VISUALIZER_SETTINGS_KEY settings_valid
proof unfold_locales
  fix ws ws' :: json_storage
  assume "getItem VISUALIZER_SETTINGS_KEY ws = getItem VISUALIZER_SETTINGS_KEY ws'"
  from stored_object_item [OF this] show "getVisualizerSettings ws = getVisualizerSettings ws'"
    by (simp add: getVisualizerSettings_def)
qed (rule settings_loaded settings_load_valid | simp add: saveVisualizerSettings_def)+

interpretation label_and_settings: preference_pair getLocalLabel setLocalLabel LOCAL_LABEL_KEY "\<lambda>_. True"
    getVisualizerSettings saveVisualizerSettings VISUALIZER_SETTINGS_KEY settings_valid
  by (intro preference_pair.intro preference_pair_axioms.intro local_label.preference_axioms visualizer.preference_axioms)
    (simp add: LOCAL_LABEL_KEY_def VISUALIZER_SETTINGS_KEY_def)

text \<open>A font scale that is stored: in its bounds, in hundredths.\<close>

definition scale_valid :: "real \<Rightarrow> bool" where
  "scale_valid x \<longleftrightarrow> MIN_FONT_SCALE \<le> x \<and> x \<le> MAX_FONT_SCALE \<and> round_hundredths x = x"

lemma round_hundredths_bounds:
  assumes "real_of_int a \<le> x" and "x \<le> real_of_int b"
  shows "real_of_int a \<le> round_hundredths x" and "round_hundredths x \<le> real_of_int b"
proof -
  have "js_round (real_of_int (100 * a)) \<le> js_round (x * 100)" "js_round (x * 100) \<le> js_round (real_of_int (100 * b))"
    using assms by (intro js_round_mono; simp)+
  then have "100 * a \<le> js_round (x * 100)" "js_round (x * 100) \<le> 100 * b" by (simp_all only: js_round_int)
  then have "real_of_int (100 * a) \<le> real_of_int (js_round (x * 100))" "real_of_int (js_round (x * 100)) \<le> real_of_int (100 * b)"
    by (simp_all only: of_int_le_iff)
  then show "real_of_int a \<le> round_hundredths x" "round_hundredths x \<le> real_of_int b"
    by (simp_all add: round_hundredths_def field_simps)
qed

lemma round_hundredths_idem [simp]: "round_hundredths (round_hundredths x) = round_hundredths x"
  by (simp add: round_hundredths_def)

lemma normalize_valid: "scale_valid (normalizeFontScale scale)"
proof (cases scale)
  case None
  have "round_hundredths 100 = 100" using js_round_int [of 10000] by (simp add: round_hundredths_def)
  then show ?thesis by (simp add: None normalizeFontScale_def scale_valid_def DEFAULT_FONT_SCALE_def MIN_FONT_SCALE_def MAX_FONT_SCALE_def)
next
  case (Some x)
  show ?thesis
    using round_hundredths_bounds [of 25 "min 400 (max 25 x)" 400]
    by (simp add: Some normalizeFontScale_def scale_valid_def MIN_FONT_SCALE_def MAX_FONT_SCALE_def)
qed

lemma normalize_fix: "scale_valid x \<Longrightarrow> normalizeFontScale (Some x) = x"
  by (simp add: normalizeFontScale_def scale_valid_def)

interpretation font_scale: preference getSavedFontScale "\<lambda>x ws. snd (setSavedFontScale (Some x) ws)" FONT_SCALE_KEY scale_valid
proof unfold_locales
  fix ws :: "real option web_storage"
  show "scale_valid (getSavedFontScale ws)"
    using normalize_valid normalize_valid [of None]
    by (simp add: getSavedFontScale_def normalizeFontScale_def [of None] split: sum.split option.split)
qed (simp_all add: getSavedFontScale_def setSavedFontScale_def normalize_fix Let_def)

section \<open>The theme follows the choice and the system\<close>

text \<open>The start of \<^verbatim>\<open>main.tsx\<close>, then choices and changes of the system's preference, where it can be listened to.\<close>

inductive themed :: "themed_page \<Rightarrow> bool" where
  themed_start: "themed (applyTheme (getSavedTheme (tp_storage p)) p)"
| themed_choice: "themed p \<Longrightarrow> themed (applyTheme themeId p)"
| themed_system: "themed p \<Longrightarrow> tp_prefersLight p \<noteq> None \<Longrightarrow> themed (os_theme_changed light p)"

definition theme_shown :: "themed_page \<Rightarrow> bool" where
  "theme_shown p \<longleftrightarrow> tp_theme p = (if getEffectiveTheme p = ''original'' then None else Some (getEffectiveTheme p))
     \<and> (case (find (\<lambda>t. th_id t = getEffectiveTheme p) THEMES, tp_meta p) of
          (Some t, Some colour) \<Rightarrow> colour = th_metaThemeColor t | _ \<Rightarrow> True)"

lemma apply_keeps [simp]:
  "tp_prefersLight (applyTheme t p) = tp_prefersLight p" "ws_available (tp_storage (applyTheme t p)) = ws_available (tp_storage p)"
  by (simp_all add: applyTheme_def setSavedTheme_def Let_def)

lemma effective_cong: "tp_prefersLight p = tp_prefersLight p' \<Longrightarrow> effective_theme t p = effective_theme t p'"
  by (simp add: effective_theme_def resolveFollowOS_def)

lemma effective_applied:
  assumes "ws_available (tp_storage p)"
  shows "getEffectiveTheme (applyTheme t p) = effective_theme t p"
proof -
  have "getSavedTheme (tp_storage (applyTheme t p)) = t"
    using assms by (simp add: applyTheme_def Let_def saved_theme.load_save)
  then show ?thesis by (simp add: getEffectiveTheme_def effective_cong [of "applyTheme t p" p])
qed

lemma apply_shows: "ws_available (tp_storage p) \<Longrightarrow> theme_shown (applyTheme t p)"
  unfolding theme_shown_def effective_applied by (simp add: applyTheme_def Let_def split: option.split)

lemma os_unchanged: "getSavedTheme (tp_storage p) \<noteq> FOLLOW_OS_THEME_ID \<Longrightarrow> theme_shown p \<Longrightarrow> theme_shown (p\<lparr> tp_prefersLight := l \<rparr>)"
  by (simp add: theme_shown_def getEffectiveTheme_def effective_theme_def)

text \<open>While the storage works the document wears the theme the user chose, or the one the system asks for when the choice
  is to follow it, and the frame of the browser has that theme's colour, at every moment.\<close>

theorem theme_follows:
  assumes "themed p" and "ws_available (tp_storage p)"
  shows "theme_shown p"
  using assms
proof induction
  case (themed_system p light)
  have "ws_available (tp_storage p)" using themed_system.prems by (simp add: os_theme_changed_def Let_def split: if_splits)
  with themed_system show ?case by (simp add: os_theme_changed_def Let_def apply_shows os_unchanged)
qed (simp_all add: apply_shows)

definition sample_page :: themed_page where
  "sample_page = \<lparr> tp_storage = \<lparr> ws_available = True, ws_items = [] \<rparr>, tp_prefersLight = Some False, tp_theme = None,
     tp_meta = Some ''#111419'' \<rparr>"

theorem theme_follows_witness:
  "theme_shown (os_theme_changed True (applyTheme FOLLOW_OS_THEME_ID (applyTheme ''original'' sample_page)))"
proof -
  have "getSavedTheme (tp_storage sample_page) = ''original''" by (simp add: sample_page_def getSavedTheme_def getItem_def)
  then have start: "themed (applyTheme ''original'' sample_page)" by (metis themed_start)
  show ?thesis
    by (rule theme_follows [OF themed_system [OF themed_choice [OF start]]])
      (simp_all add: sample_page_def os_theme_changed_def Let_def)
qed

section \<open>Passwords are remembered as asked\<close>

lemma getStorageKey_inj [simp]: "getStorageKey kind k = getStorageKey kind' k' \<longleftrightarrow> kind = kind' \<and> k = k'"
  by (auto simp: getStorageKey_def split: server_kind.splits)

lemma loadStored_item:
  "getItem (getStorageKey kind k) ws = getItem (getStorageKey kind k) ws' \<Longrightarrow> loadStoredPassword kind k ws = loadStoredPassword kind k ws'"
  by (simp add: loadStoredPassword_def stored_object_item [of "getStorageKey kind k" ws ws'])

lemma loadStored_gone: "getItem (getStorageKey kind k) ws \<in> {Inl e, Inr None} \<Longrightarrow> loadStoredPassword kind k ws = None"
  by (auto simp: loadStoredPassword_def stored_object_def)

lemma show_login_initial:
  "(pw_password (show_login kind k s), pw_rememberPassword (show_login kind k s)) = loadInitialPassword kind k s"
  by (simp add: show_login_def loadInitialPassword_def split: option.split)

text \<open>After a login the form of that server has the password that was accepted, trimmed; it is offered as remembered, and
  kept beyond the page, exactly when that was asked and the storage works; nothing is kept of it in storage otherwise.
  Forgetting it empties the form. The other servers keep theirs.\<close>

theorem login_remembered:
  assumes "trim p \<noteq> []"
  shows "loadInitialPassword kind k (persistAfterLogin kind k p s)
        = (trim p, pw_rememberPassword s \<and> ws_available (pw_storage s))
    \<and> loadStoredPassword kind k (pw_storage (persistAfterLogin kind k p s))
        = (if pw_rememberPassword s \<and> ws_available (pw_storage s) then Some (trim p) else None)
    \<and> loadInitialPassword kind k (forgetPassword kind k s) = ([], False)
    \<and> ((kind', k') \<noteq> (kind, k) \<longrightarrow> loadInitialPassword kind' k' (persistAfterLogin kind k p s) = loadInitialPassword kind' k' s
          \<and> loadInitialPassword kind' k' (forgetPassword kind k s) = loadInitialPassword kind' k' s)"
proof -
  let ?s = "persistAfterLogin kind k p s"
  have stored: "loadStoredPassword kind k (pw_storage ?s) = (if pw_rememberPassword s \<and> ws_available (pw_storage s) then Some (trim p) else None)"
    using assms by (cases "ws_available (pw_storage s)") (simp_all add: persistAfterLogin_def Let_def loadStoredPassword_def stored_object_def)
  moreover have "jm_get (pw_inMemory ?s) (getStorageKey kind k) = Some (trim p)"
    using assms by (simp add: persistAfterLogin_def Let_def jsmap)
  moreover have "loadStoredPassword kind k (pw_storage (forgetPassword kind k s)) = None"
    by (cases "ws_available (pw_storage s)") (simp_all add: forgetPassword_def loadStoredPassword_def stored_object_def)
  moreover have "jm_get (pw_inMemory (forgetPassword kind k s)) (getStorageKey kind k) = None"
    by (simp add: forgetPassword_def jsmap)
  moreover have "loadInitialPassword kind' k' ?s = loadInitialPassword kind' k' s
      \<and> loadInitialPassword kind' k' (forgetPassword kind k s) = loadInitialPassword kind' k' s" if "(kind', k') \<noteq> (kind, k)"
  proof -
    have "loadStoredPassword kind' k' (pw_storage ?s) = loadStoredPassword kind' k' (pw_storage s)"
      "loadStoredPassword kind' k' (pw_storage (forgetPassword kind k s)) = loadStoredPassword kind' k' (pw_storage s)"
      using that by (auto intro!: loadStored_item simp: persistAfterLogin_def forgetPassword_def Let_def)
    moreover have "jm_get (pw_inMemory ?s) (getStorageKey kind' k') = jm_get (pw_inMemory s) (getStorageKey kind' k')"
      "jm_get (pw_inMemory (forgetPassword kind k s)) (getStorageKey kind' k') = jm_get (pw_inMemory s) (getStorageKey kind' k')"
      using that by (auto simp: persistAfterLogin_def forgetPassword_def Let_def jsmap)
    ultimately show ?thesis by (simp only: loadInitialPassword_def)
  qed
  ultimately show ?thesis by (simp add: loadInitialPassword_def)
qed

theorem login_remembered_witness:
  "loadInitialPassword Sv_room ''ab'' (persistAfterLogin Sv_room ''ab'' '' pw ''
     \<lparr> pw_storage = \<lparr> ws_available = False, ws_items = [] \<rparr>, pw_inMemory = [], pw_password = [], pw_rememberPassword = True,
       pw_storedPassword = [] \<rparr>) = (''pw'', False)"
proof -
  have t: "trim '' pw '' = ''pw''" by code_simp
  show ?thesis
    using login_remembered [of "'' pw ''" Sv_room "''ab''" "\<lparr> pw_storage = \<lparr> ws_available = False, ws_items = [] \<rparr>,
      pw_inMemory = [], pw_password = [], pw_rememberPassword = True, pw_storedPassword = [] \<rparr>"] by (simp add: t)
qed

text \<open>Whatever is stored, the settings of the visualizer and the font scale load to values in their ranges; of any
  sequence of changes, those of the local label and the battery flags in between, the last one is loaded.\<close>

theorem preferences_kept:
  assumes "ws_available ws" and "ws_available wt" and "settings_valid (last (vs # changes))"
  shows "settings_valid (getVisualizerSettings wu) \<and> 25 \<le> getSavedFontScale wv \<and> getSavedFontScale wv \<le> 400
    \<and> getVisualizerSettings (setLocalLabel label (fold saveVisualizerSettings (vs # changes) ws)) = last (vs # changes)
    \<and> getLocalLabel (fold saveVisualizerSettings (vs # changes) (setLocalLabel label ws)) = label
    \<and> getBoolPreference PERCENT_KEY (setBoolPreference VOLTAGE_KEY on (setBoolPreference PERCENT_KEY off wt)) = off
    \<and> getBoolPreference VOLTAGE_KEY (setBoolPreference VOLTAGE_KEY on (setBoolPreference PERCENT_KEY off wt)) = on"
proof -
  have label: "getLocalLabel (fold saveVisualizerSettings ss wx) = getLocalLabel wx" for ss wx
    by (rule local_label.load_item, rule visualizer.saves_other) (simp add: LOCAL_LABEL_KEY_def VISUALIZER_SETTINGS_KEY_def)
  have "getVisualizerSettings (fold saveVisualizerSettings (vs # changes) ws) = last (vs # changes)"
    by (rule visualizer.load_saves [OF assms(1) _ assms(3)]) simp
  then have "getVisualizerSettings (setLocalLabel label (fold saveVisualizerSettings (vs # changes) ws)) = last (vs # changes)"
    by (simp only: label_and_settings.independent)
  moreover have "getLocalLabel (fold saveVisualizerSettings (vs # changes) (setLocalLabel label ws)) = label"
    unfolding label by (rule local_label.load_save [OF assms(1) TrueI])
  ultimately show ?thesis
    using font_scale.load_valid [of wv] battery.both [OF assms(2) TrueI TrueI, of on off]
    by (simp add: settings_load_valid scale_valid_def MIN_FONT_SCALE_def MAX_FONT_SCALE_def)
qed

theorem preferences_kept_witness:
  "getVisualizerSettings (setLocalLabel \<lparr> lb_text = ''lab'', lb_color = ''#fff'' \<rparr>
     (saveVisualizerSettings VISUALIZER_DEFAULTS \<lparr> ws_available = True, ws_items = [] \<rparr>)) = VISUALIZER_DEFAULTS"
proof -
  have "settings_valid VISUALIZER_DEFAULTS" by (simp add: settings_valid_def VISUALIZER_DEFAULTS_def)
  then show ?thesis
    using preferences_kept [of "\<lparr> ws_available = True, ws_items = [] \<rparr>" "\<lparr> ws_available = True, ws_items = [] \<rparr>" VISUALIZER_DEFAULTS "[]"]
    by simp
qed

end
