(* ===== verification/App_Shell.thy ===== *)
theory App_Shell
  imports Conversation_Router Preferences
begin

text \<open>
  The frame around the conversations: \<^verbatim>\<open>hooks/useAppShell.ts\<close> (the settings view and its place in the browser history,
  the dialogs beside it) and \<^verbatim>\<open>hooks/useConversationNavigation.ts\<close> (the ways to a conversation and the message to
  scroll to).

  The browser is its entries behind, the hash of the entry shown and the entries ahead. \<^verbatim>\<open>history.back()\<close> only asks for
  a traversal, which the browser makes later. The view is set in a transition: what is set (\<open>sh_showSettings\<close>) and what is
  rendered (\<open>sh_rendered\<close>) differ until the transition commits, and the handlers see what is rendered.
\<close>

section \<open>The browser history\<close>

record browser =
  br_back :: "string list"
  br_hash :: string
  br_forward :: "string list"
  br_traversals :: nat

definition pushState :: "string \<Rightarrow> browser \<Rightarrow> browser" where
  "pushState h b = b\<lparr> br_back := br_hash b # br_back b, br_hash := h, br_forward := [] \<rparr>"

definition replaceState :: "string \<Rightarrow> browser \<Rightarrow> browser" where
  "replaceState h b = b\<lparr> br_hash := h \<rparr>"

definition history_back :: "browser \<Rightarrow> browser" where
  "history_back b = b\<lparr> br_traversals := br_traversals b + 1 \<rparr>"

text \<open>The traversals within the page; there is none at either end.\<close>

definition go_back :: "browser \<Rightarrow> browser option" where
  "go_back b =
     (case br_back b of [] \<Rightarrow> None | h # hs \<Rightarrow> Some (b\<lparr> br_back := hs, br_hash := h, br_forward := br_hash b # br_forward b \<rparr>))"

definition go_forward :: "browser \<Rightarrow> browser option" where
  "go_forward b =
     (case br_forward b of [] \<Rightarrow> None | h # hs \<Rightarrow> Some (b\<lparr> br_back := br_hash b # br_back b, br_hash := h, br_forward := hs \<rparr>))"

definition updateSettingsHash :: "string \<Rightarrow> browser \<Rightarrow> browser" where
  "updateSettingsHash section_name b =
     (let newHash = getSettingsHash section_name in if newHash \<noteq> br_hash b then replaceState newHash b else b)"

definition pushSettingsHash :: "string \<Rightarrow> browser \<Rightarrow> browser" where
  "pushSettingsHash section_name b =
     (let newHash = getSettingsHash section_name in if newHash \<noteq> br_hash b then pushState newHash b else b)"

section \<open>The shell\<close>

record app_shell =
  sh_showNewMessage :: bool
  sh_showSettings :: bool
  sh_settingsSection :: string
  sh_sidebarOpen :: bool
  sh_showCracker :: bool
  sh_crackerRunning :: bool
  sh_localLabel :: local_label
  sh_previousHash :: string
  sh_isOpeningSettings :: bool
  sh_pushedSettingsEntry :: bool
  sh_rendered :: "bool \<times> string"
  sh_browser :: browser

text \<open>The effect on the settings section, which runs after a render that changed it or the view.\<close>

definition shell_effect :: "app_shell \<Rightarrow> app_shell" where
  "shell_effect s =
     (if sh_showSettings s then
        (if sh_isOpeningSettings s
         then s\<lparr> sh_browser := pushSettingsHash (sh_settingsSection s) (sh_browser s), sh_isOpeningSettings := False \<rparr>
         else s\<lparr> sh_browser := updateSettingsHash (sh_settingsSection s) (sh_browser s) \<rparr>)
      else s)"

definition shell_commit :: "app_shell \<Rightarrow> app_shell" where
  "shell_commit s =
     (let deps = (sh_showSettings s, sh_settingsSection s) in
      if sh_rendered s = deps then s else shell_effect (s\<lparr> sh_rendered := deps \<rparr>))"

text \<open>The first render, whose effect always runs; a hash that does not decode throws.\<close>

definition shell_init :: "json_storage \<Rightarrow> browser \<Rightarrow> uri_error + app_shell" where
  "shell_init ws b =
     (case parseHashSettingsSection (br_hash b) of
        Inl err \<Rightarrow> Inl err
      | Inr initialSettingsSection \<Rightarrow>
          (let shows = (initialSettingsSection \<noteq> None); section_name = coalesce initialSettingsSection ''radio'' in
           Inr (shell_effect
             \<lparr> sh_showNewMessage = False, sh_showSettings = shows, sh_settingsSection = section_name, sh_sidebarOpen = False,
               sh_showCracker = False, sh_crackerRunning = False, sh_localLabel = getLocalLabel ws, sh_previousHash = [], sh_isOpeningSettings = False,
               sh_pushedSettingsEntry = False, sh_rendered = (shows, section_name), sh_browser = b \<rparr>)))"

definition handleCloseSettingsView :: "app_shell \<Rightarrow> app_shell" where
  "handleCloseSettingsView s =
     (let s1 = s\<lparr> sh_showSettings := False, sh_sidebarOpen := False \<rparr> in
      if sh_pushedSettingsEntry s1
      then s1\<lparr> sh_pushedSettingsEntry := False, sh_browser := history_back (sh_browser s1) \<rparr>
      else case parseHashSettingsSection (br_hash (sh_browser s1)) of
        Inr (Some _) \<Rightarrow> s1\<lparr> sh_browser := replaceState (sh_previousHash s1) (sh_browser s1) \<rparr>
      | _ \<Rightarrow> s1)"

text \<open>An undecodable hash throws before anything is set.\<close>

definition handleToggleSettingsView :: "app_shell \<Rightarrow> app_shell" where
  "handleToggleSettingsView s =
     (if fst (sh_rendered s) then handleCloseSettingsView s
      else case parseHashSettingsSection (br_hash (sh_browser s)) of
        Inl _ \<Rightarrow> s
      | Inr section_name \<Rightarrow>
          s\<lparr> sh_previousHash := (if section_name = None then br_hash (sh_browser s) else sh_previousHash s),
             sh_isOpeningSettings := True, sh_pushedSettingsEntry := True, sh_showSettings := True,
             sh_sidebarOpen := False \<rparr>)"

definition setSettingsSection :: "string \<Rightarrow> app_shell \<Rightarrow> app_shell" where
  "setSettingsSection section_name s = s\<lparr> sh_settingsSection := section_name \<rparr>"

text \<open>\<^verbatim>\<open>handleOpenSettings\<close> of \<^verbatim>\<open>App.tsx\<close>.\<close>

definition handleOpenSettings :: "string \<Rightarrow> app_shell \<Rightarrow> app_shell" where
  "handleOpenSettings section_name s =
     (let s1 = setSettingsSection section_name s in if \<not> fst (sh_rendered s) then handleToggleSettingsView s1 else s1)"

definition shell_popstate :: "app_shell \<Rightarrow> app_shell" where
  "shell_popstate s =
     (case parseHashSettingsSection (br_hash (sh_browser s)) of
        Inl _ \<Rightarrow> s
      | Inr (Some section_name) \<Rightarrow> s\<lparr> sh_showSettings := True, sh_settingsSection := section_name \<rparr>
      | Inr None \<Rightarrow> s\<lparr> sh_showSettings := False \<rparr>)"

definition handleOpenNewMessage :: "app_shell \<Rightarrow> app_shell" where
  "handleOpenNewMessage s = s\<lparr> sh_showNewMessage := True, sh_sidebarOpen := False \<rparr>"

definition handleCloseNewMessage :: "app_shell \<Rightarrow> app_shell" where
  "handleCloseNewMessage s = s\<lparr> sh_showNewMessage := False \<rparr>"

definition handleToggleCracker :: "app_shell \<Rightarrow> app_shell" where
  "handleToggleCracker s = s\<lparr> sh_showCracker := \<not> sh_showCracker s \<rparr>"

text \<open>A traversal the browser makes: one the user asked for, or the next one that was asked of it.\<close>

definition traverse :: "(browser \<Rightarrow> browser option) \<Rightarrow> app_shell \<Rightarrow> app_shell" where
  "traverse go s = (case go (sh_browser s) of None \<Rightarrow> s | Some b \<Rightarrow> shell_popstate (s\<lparr> sh_browser := b \<rparr>))"

definition traverse_asked :: "app_shell \<Rightarrow> app_shell" where
  "traverse_asked s =
     (if br_traversals (sh_browser s) = 0 then s
      else traverse go_back (s\<lparr> sh_browser := (sh_browser s)\<lparr> br_traversals := br_traversals (sh_browser s) - 1 \<rparr> \<rparr>))"

text \<open>A hash the user types into the address is a new entry.\<close>

definition visit :: "string \<Rightarrow> app_shell \<Rightarrow> app_shell" where
  "visit h s = shell_popstate (s\<lparr> sh_browser := pushState h (sh_browser s) \<rparr>)"

section \<open>The address follows the view\<close>

text \<open>A render is done when what is set is rendered. A section is chosen in a view that is rendered, and rendered at once; the
  view is closed where it is shown; the router writes hashes of its own while the view is not. Every hash that is visited
  decodes.\<close>

abbreviation settled :: "app_shell \<Rightarrow> bool" where
  "settled s \<equiv> sh_rendered s = (sh_showSettings s, sh_settingsSection s)"

abbreviation plain_hash :: "string \<Rightarrow> bool" where
  "plain_hash h \<equiv> parseHashSettingsSection h = Inr None"

abbreviation with_browser :: "(browser \<Rightarrow> browser) \<Rightarrow> app_shell \<Rightarrow> app_shell" where
  "with_browser f s \<equiv> s\<lparr> sh_browser := f (sh_browser s) \<rparr>"

inductive shell_step :: "app_shell \<Rightarrow> app_shell \<Rightarrow> bool" where
  st_commit: "shell_step s (shell_commit s)"
| st_close: "fst (sh_rendered s) \<Longrightarrow> shell_step s (handleCloseSettingsView s)"
| st_toggle: "shell_step s (handleToggleSettingsView s)"
| st_open: "settled s \<Longrightarrow> section_name \<in> set SETTINGS_SECTIONS \<Longrightarrow> shell_step s (shell_commit (handleOpenSettings section_name s))"
| st_section: "settled s \<Longrightarrow> section_name \<in> set SETTINGS_SECTIONS \<Longrightarrow>
    shell_step s (shell_commit (setSettingsSection section_name s))"
| st_back: "shell_step s (traverse go_back s)"
| st_forward: "shell_step s (traverse go_forward s)"
| st_asked: "shell_step s (traverse_asked s)"
| st_visit: "\<not> isl (parseHashSettingsSection h) \<Longrightarrow> shell_step s (visit h s)"
| st_router_push: "\<not> fst (sh_rendered s) \<Longrightarrow> plain_hash h \<Longrightarrow> shell_step s (with_browser (pushState h) s)"
| st_router_replace: "\<not> fst (sh_rendered s) \<Longrightarrow> plain_hash h \<Longrightarrow> shell_step s (with_browser (replaceState h) s)"
| st_new_message: "shell_step s (handleOpenNewMessage s)"
| st_no_message: "shell_step s (handleCloseNewMessage s)"
| st_cracker: "shell_step s (handleToggleCracker s)"
| st_running: "shell_step s (s\<lparr> sh_crackerRunning := running \<rparr>)"
| st_sidebar: "shell_step s (s\<lparr> sh_sidebarOpen := opened \<rparr>)"
| st_label: "shell_step s (s\<lparr> sh_localLabel := label \<rparr>)"

inductive shell_reachable :: "app_shell \<Rightarrow> bool" where
  shell_start: "list_all (\<lambda>h. \<not> isl (parseHashSettingsSection h)) (br_back b @ br_forward b) \<Longrightarrow> shell_init ws b = Inr s \<Longrightarrow>
    shell_reachable s"
| shell_more: "shell_reachable s \<Longrightarrow> shell_step s s' \<Longrightarrow> shell_reachable s'"

definition entries_ok :: "browser \<Rightarrow> bool" where
  "entries_ok b \<longleftrightarrow> list_all (\<lambda>h. \<not> isl (parseHashSettingsSection h)) (br_hash b # br_back b @ br_forward b)"

definition shell_inv :: "app_shell \<Rightarrow> bool" where
  "shell_inv s \<longleftrightarrow> sh_settingsSection s \<in> set SETTINGS_SECTIONS \<and> plain_hash (sh_previousHash s) \<and> entries_ok (sh_browser s)
     \<and> (settled s \<and> sh_showSettings s \<longrightarrow> parseHashSettingsSection (br_hash (sh_browser s)) = Inr (Some (sh_settingsSection s)))"

lemma parse_settings_hash [simp]:
  "section_name \<in> set SETTINGS_SECTIONS \<Longrightarrow> parseHashSettingsSection (getSettingsHash section_name) = Inr (Some section_name)"
  by (simp add: parseHashSettingsSection_def getSettingsHash_def starts_with_def)

lemma parsed_section: "parseHashSettingsSection h = Inr (Some section_name) \<Longrightarrow> section_name \<in> set SETTINGS_SECTIONS"
  by (auto simp: parseHashSettingsSection_def Let_def split: if_splits option.splits)

lemma plain_empty [simp]: "plain_hash []" by (simp add: parseHashSettingsSection_def starts_with_def)

lemma entries_push [simp]: "entries_ok b \<Longrightarrow> entries_ok (pushState h b) \<longleftrightarrow> \<not> isl (parseHashSettingsSection h)"
  by (simp add: entries_ok_def pushState_def)

lemma entries_replace [simp]: "entries_ok b \<Longrightarrow> entries_ok (replaceState h b) \<longleftrightarrow> \<not> isl (parseHashSettingsSection h)"
  by (simp add: entries_ok_def replaceState_def)

lemma entries_back [simp]: "entries_ok (history_back b) \<longleftrightarrow> entries_ok b" "entries_ok (b\<lparr> br_traversals := n \<rparr>) \<longleftrightarrow> entries_ok b"
  by (simp_all add: entries_ok_def history_back_def)

lemma hash_moves [simp]: "br_hash (pushState h b) = h" "br_hash (replaceState h b) = h" "br_hash (history_back b) = br_hash b"
  by (simp_all add: pushState_def replaceState_def history_back_def)

lemma entries_go: "entries_ok b \<Longrightarrow> go \<in> {go_back, go_forward} \<Longrightarrow> go b = Some b' \<Longrightarrow> entries_ok b'"
  by (auto simp: entries_ok_def go_back_def go_forward_def split: list.splits)

lemma popstate_inv:
  assumes "sh_settingsSection s \<in> set SETTINGS_SECTIONS" and "plain_hash (sh_previousHash s)" and "entries_ok (sh_browser s)"
  shows "shell_inv (shell_popstate s)"
  using assms parsed_section
  by (cases "parseHashSettingsSection (br_hash (sh_browser s))")
    (auto simp: shell_inv_def shell_popstate_def entries_ok_def split: option.splits)

lemma traverse_inv: "shell_inv s \<Longrightarrow> go \<in> {go_back, go_forward} \<Longrightarrow> shell_inv (traverse go s)"
  using entries_go [of "sh_browser s" go]
  by (auto simp: traverse_def shell_inv_def [of s] intro!: popstate_inv split: option.splits)

lemma settings_hash_written [simp]:
  "br_hash (pushSettingsHash section_name b) = getSettingsHash section_name"
  "br_hash (updateSettingsHash section_name b) = getSettingsHash section_name"
  by (simp_all add: pushSettingsHash_def updateSettingsHash_def Let_def)

lemma entries_written [simp]:
  assumes "entries_ok b" and "section_name \<in> set SETTINGS_SECTIONS"
  shows "entries_ok (pushSettingsHash section_name b)" "entries_ok (updateSettingsHash section_name b)"
  using assms by (simp_all add: pushSettingsHash_def updateSettingsHash_def Let_def)

lemma commit_inv: "shell_inv s \<Longrightarrow> shell_inv (shell_commit s)"
  by (auto simp: shell_inv_def shell_commit_def shell_effect_def Let_def)

lemma hash_decodes: "entries_ok b \<Longrightarrow> parseHashSettingsSection (br_hash b) \<noteq> Inl e"
  by (auto simp: entries_ok_def)

lemma close_inv: "shell_inv s \<Longrightarrow> shell_inv (handleCloseSettingsView s)"
  by (auto simp: shell_inv_def handleCloseSettingsView_def Let_def split: sum.split option.split)

lemma toggle_inv: "shell_inv s \<Longrightarrow> shell_inv (handleToggleSettingsView s)"
  by (auto simp: handleToggleSettingsView_def close_inv) (auto simp: shell_inv_def split: sum.split)

lemma shell_step_inv: "shell_step s s' \<Longrightarrow> shell_inv s \<Longrightarrow> shell_inv s'"
proof (induction rule: shell_step.induct)
  case (st_open s section_name)
  then have "shell_inv (handleOpenSettings section_name s)"
    by (auto simp: handleOpenSettings_def Let_def handleToggleSettingsView_def setSettingsSection_def shell_inv_def split: sum.split)
  then show ?case by (rule commit_inv)
next
  case (st_section s section_name)
  then show ?case by (auto simp: shell_commit_def shell_effect_def setSettingsSection_def shell_inv_def Let_def)
next
  case (st_asked s)
  then show ?case by (auto simp: traverse_asked_def intro!: traverse_inv) (auto simp: shell_inv_def)
next
  case (st_visit h s)
  then show ?case unfolding visit_def by (intro popstate_inv) (auto simp: shell_inv_def)
qed (auto simp: commit_inv close_inv toggle_inv traverse_inv, auto simp: shell_inv_def handleOpenNewMessage_def handleCloseNewMessage_def
    handleToggleCracker_def)

lemma init_inv:
  assumes "list_all (\<lambda>h. \<not> isl (parseHashSettingsSection h)) (br_back b @ br_forward b)" and "shell_init ws b = Inr s"
  shows "shell_inv s"
proof (cases "parseHashSettingsSection (br_hash b)")
  case (Inl e)
  with assms show ?thesis by (simp add: shell_init_def)
next
  case (Inr start)
  then have "entries_ok b" using assms(1) by (simp add: entries_ok_def)
  moreover have "coalesce start ''radio'' \<in> set SETTINGS_SECTIONS"
    using Inr parsed_section by (cases start) (auto simp: SETTINGS_SECTIONS_def)
  ultimately show ?thesis using assms(2) by (auto simp: Inr shell_init_def shell_effect_def shell_inv_def Let_def split: if_splits)
qed

text \<open>C25. Whenever what is set is rendered and the settings are shown, the address names the section that is shown, however the
  user got there: by opening, choosing sections, going back and forth or typing an address. The hash the settings
  return to is never one of theirs, and the section is always one there is.\<close>

theorem shell_address:
  assumes "shell_reachable s"
  shows "sh_settingsSection s \<in> set SETTINGS_SECTIONS \<and> parseHashSettingsSection (sh_previousHash s) = Inr None
    \<and> (sh_rendered s = (True, sh_settingsSection s) \<and> sh_showSettings s \<longrightarrow>
        parseHashSettingsSection (br_hash (sh_browser s)) = Inr (Some (sh_settingsSection s)))"
proof -
  have "shell_inv s"
    using assms
  proof induction
    case (shell_start b ws s)
    then show ?case by (rule init_inv)
  next
    case (shell_more s s')
    then show ?case using shell_step_inv by blast
  qed
  then show ?thesis by (simp add: shell_inv_def)
qed

definition sample_browser :: "string \<Rightarrow> browser" where
  "sample_browser h = \<lparr> br_back = [], br_hash = h, br_forward = [], br_traversals = 0 \<rparr>"

definition sample_shell :: "string \<Rightarrow> app_shell" where
  "sample_shell h = projr (shell_init \<lparr> ws_available = False, ws_items = [] \<rparr> (sample_browser h))"

lemma sample_shell_reachable: "\<not> isl (parseHashSettingsSection h) \<Longrightarrow> shell_reachable (sample_shell h)"
  by (rule shell_start [of "sample_browser h" "\<lparr> ws_available = False, ws_items = [] \<rparr>"])
    (auto simp: sample_browser_def sample_shell_def shell_init_def Let_def split: sum.splits)

theorem shell_address_witness:
  "sh_rendered (shell_commit (handleToggleSettingsView (sample_shell ''#raw''))) = (True, ''radio'')
    \<and> parseHashSettingsSection (br_hash (sh_browser (shell_commit (handleToggleSettingsView (sample_shell ''#raw''))))) = Inr (Some ''radio'')"
proof -
  let ?s = "shell_commit (handleToggleSettingsView (sample_shell ''#raw''))"
  have "\<not> isl (parseHashSettingsSection ''#raw'')" by code_simp
  from shell_address [OF shell_more [OF shell_more [OF sample_shell_reachable [OF this] st_toggle] st_commit]]
  have "sh_rendered ?s = (True, sh_settingsSection ?s) \<and> sh_showSettings ?s \<longrightarrow>
        parseHashSettingsSection (br_hash (sh_browser ?s)) = Inr (Some (sh_settingsSection ?s))" by blast
  moreover have "sh_rendered ?s = (True, ''radio'')" "sh_settingsSection ?s = ''radio''" "sh_showSettings ?s" by code_simp+
  ultimately show ?thesis by simp
qed

section \<open>The settings return where they were opened\<close>

definition choose_sections :: "string list \<Rightarrow> app_shell \<Rightarrow> app_shell" where
  "choose_sections names s = fold (\<lambda>section_name s. shell_commit (setSettingsSection section_name s)) names s"

text \<open>The settings while they are shown, opened from the hash \<open>h\<close> on top of the entries \<open>hs\<close>.\<close>

definition open_over :: "string \<Rightarrow> string list \<Rightarrow> app_shell \<Rightarrow> bool" where
  "open_over h hs s \<longleftrightarrow> sh_rendered s = (True, sh_settingsSection s) \<and> sh_showSettings s \<and> sh_pushedSettingsEntry s
     \<and> \<not> sh_isOpeningSettings s \<and> br_back (sh_browser s) = h # hs
     \<and> br_forward (sh_browser s) = [] \<and> br_traversals (sh_browser s) = 0"

lemma opened_over:
  assumes "\<not> sh_showSettings s" and "settled s" and "plain_hash (br_hash (sh_browser s))"
    and "br_traversals (sh_browser s) = 0" and "sh_settingsSection s \<in> set SETTINGS_SECTIONS"
  shows "open_over (br_hash (sh_browser s)) (br_back (sh_browser s)) (shell_commit (handleToggleSettingsView s))"
proof -
  have "getSettingsHash (sh_settingsSection s) \<noteq> br_hash (sh_browser s)"
    using assms(3,5) by (metis parse_settings_hash sum.inject(2) option.distinct(1))
  with assms show ?thesis
    by (simp add: open_over_def handleToggleSettingsView_def shell_commit_def shell_effect_def pushSettingsHash_def pushState_def Let_def)
qed

lemma section_over: "open_over h hs s \<Longrightarrow> open_over h hs (shell_commit (setSettingsSection section_name s))"
  by (auto simp: open_over_def setSettingsSection_def shell_commit_def shell_effect_def updateSettingsHash_def replaceState_def Let_def)

lemma choose_over: "open_over h hs s \<Longrightarrow> open_over h hs (choose_sections names s)"
  by (induction names arbitrary: s) (simp_all add: choose_sections_def section_over)

text \<open>C26. Opening the settings, looking through any of their sections and closing them leads back to the entry they were
  opened from, with the same entries behind it, whether or not the router writes the hash of the conversation over the
  entry of the settings before the browser has gone back.\<close>

theorem settings_return:
  assumes "\<not> sh_showSettings s" and "sh_rendered s = (False, sh_settingsSection s)" and "plain_hash (br_hash (sh_browser s))"
    and "br_traversals (sh_browser s) = 0" and "sh_settingsSection s \<in> set SETTINGS_SECTIONS"
    and "router \<in> {id, with_browser (replaceState h)}"
  shows "let s' = shell_commit (traverse_asked (router (shell_commit (handleCloseSettingsView
             (choose_sections names (shell_commit (handleToggleSettingsView s)))))))
    in br_hash (sh_browser s') = br_hash (sh_browser s) \<and> br_back (sh_browser s') = br_back (sh_browser s)
      \<and> \<not> sh_showSettings s' \<and> \<not> fst (sh_rendered s') \<and> br_traversals (sh_browser s') = 0 \<and> \<not> sh_pushedSettingsEntry s'"
proof -
  let ?o = "choose_sections names (shell_commit (handleToggleSettingsView s))"
  have o: "open_over (br_hash (sh_browser s)) (br_back (sh_browser s)) ?o"
    using assms(1-5) by (intro choose_over opened_over) simp_all
  have r: "router x = x \<or> router x = x\<lparr> sh_browser := (sh_browser x)\<lparr> br_hash := h \<rparr> \<rparr>" for x
    using assms(6) by (auto simp: replaceState_def)
  let ?c = "shell_commit (handleCloseSettingsView ?o)"
  have c: "?c = ?o\<lparr> sh_showSettings := False, sh_sidebarOpen := False, sh_pushedSettingsEntry := False,
      sh_browser := history_back (sh_browser ?o), sh_rendered := (False, sh_settingsSection ?o) \<rparr>"
    using o by (simp add: open_over_def handleCloseSettingsView_def shell_commit_def shell_effect_def Let_def)
  show ?thesis
    unfolding Let_def c using o r [of "?o\<lparr> sh_showSettings := False, sh_sidebarOpen := False, sh_pushedSettingsEntry := False,
      sh_browser := history_back (sh_browser ?o), sh_rendered := (False, sh_settingsSection ?o) \<rparr>"] assms(3)
    by (auto simp: open_over_def history_back_def traverse_asked_def traverse_def go_back_def shell_popstate_def shell_commit_def Let_def)
qed

theorem settings_return_witness:
  "br_hash (sh_browser (shell_commit (traverse_asked (shell_commit (handleCloseSettingsView
     (choose_sections [''fanout'', ''about''] (shell_commit (handleToggleSettingsView (sample_shell ''#raw'')))))))))
   = ''#raw''"
proof -
  let ?s = "sample_shell ''#raw''"
  have s: "\<not> sh_showSettings ?s" "sh_rendered ?s = (False, sh_settingsSection ?s)" "plain_hash (br_hash (sh_browser ?s))"
    "br_traversals (sh_browser ?s) = 0" "sh_settingsSection ?s \<in> set SETTINGS_SECTIONS" "br_hash (sh_browser ?s) = ''#raw''"
    by code_simp+
  show ?thesis using settings_return [OF s(1-5), of id "[]" "[''fanout'', ''about'']"] s(6) by (simp add: Let_def)
qed

text \<open>The flag set when the settings are opened outlives a return by the browser's own button. Whoever then goes back to an
  entry of the settings and closes them is sent one entry further back, and at the first entry of the page out of it:
  here the settings are closed while the address still names them.\<close>

lemma stale_settings_entry:
  "let s = fold (\<lambda>f. f) [visit ''#raw'', shell_commit, handleToggleSettingsView, shell_commit, traverse go_back, shell_commit,
       traverse go_back, shell_commit] (sample_shell ''#settings/radio'');
       s' = shell_commit (traverse_asked (handleCloseSettingsView s))
   in sh_rendered s = (True, ''radio'') \<and> br_back (sh_browser s) = []
      \<and> sh_rendered s' = (False, ''radio'') \<and> br_hash (sh_browser s') = ''#settings/radio''"
  by code_simp

section \<open>Ways to a conversation\<close>

record search_target =
  tg_id :: int
  tg_type :: message_type
  tg_conversation_key :: string
  tg_conversation_name :: string

record navigation =
  nv_targetMessageId :: "int option"
  nv_infoPaneContactKey :: "string option"
  nv_infoPaneFromChannel :: bool
  nv_infoPaneChannelKey :: "string option"
  nv_searchPrefill :: "(string \<times> nat) option"
  nv_router :: router_state

definition handleOpenContactInfo :: "string \<Rightarrow> bool option \<Rightarrow> navigation \<Rightarrow> navigation" where
  "handleOpenContactInfo publicKey fromChannel nv =
     nv\<lparr> nv_infoPaneContactKey := Some publicKey, nv_infoPaneFromChannel := coalesce fromChannel False \<rparr>"

definition handleCloseContactInfo :: "navigation \<Rightarrow> navigation" where
  "handleCloseContactInfo nv = nv\<lparr> nv_infoPaneContactKey := None \<rparr>"

definition handleOpenChannelInfo :: "string \<Rightarrow> navigation \<Rightarrow> navigation" where
  "handleOpenChannelInfo channelKey nv = nv\<lparr> nv_infoPaneChannelKey := Some channelKey \<rparr>"

definition handleCloseChannelInfo :: "navigation \<Rightarrow> navigation" where
  "handleCloseChannelInfo nv = nv\<lparr> nv_infoPaneChannelKey := None \<rparr>"

definition handleSelectConversationWithTargetReset :: "bool \<Rightarrow> conversation \<Rightarrow> navigation \<Rightarrow> navigation" where
  "handleSelectConversationWithTargetReset preserveTarget conv nv =
     (let nv1 = (if cv_type conv \<noteq> Cv_search \<and> \<not> preserveTarget then nv\<lparr> nv_targetMessageId := None \<rparr> else nv) in
      nv1\<lparr> nv_router := handleSelectConversation conv (nv_router nv1) \<rparr>)"

definition handleNavigateToChannel :: "string \<Rightarrow> navigation \<Rightarrow> navigation" where
  "handleNavigateToChannel channelKey nv =
     (case find (\<lambda>item. ch_key item = channelKey) (rt_channels (nv_router nv)) of
        None \<Rightarrow> nv
      | Some channel \<Rightarrow>
          (handleSelectConversationWithTargetReset False (plain_conversation Cv_channel (ch_key channel) (ch_name channel)) nv)
            \<lparr> nv_infoPaneContactKey := None \<rparr>)"

definition handleNavigateToMessage :: "search_target \<Rightarrow> navigation \<Rightarrow> navigation" where
  "handleNavigateToMessage target nv =
     handleSelectConversationWithTargetReset True
       (plain_conversation (if tg_type target = CHAN then Cv_channel else Cv_contact) (tg_conversation_key target) (tg_conversation_name target))
       (nv\<lparr> nv_targetMessageId := Some (tg_id target) \<rparr>)"

definition handleOpenSearchWithQuery :: "string \<Rightarrow> navigation \<Rightarrow> navigation" where
  "handleOpenSearchWithQuery query nv =
     (let nv1 = handleSelectConversationWithTargetReset False (plain_conversation Cv_search ''search'' ''Message Search'')
                  (nv\<lparr> nv_targetMessageId := None, nv_infoPaneContactKey := None \<rparr>)
      in nv1\<lparr> nv_searchPrefill := Some (query, (case nv_searchPrefill nv1 of Some (_, nonce) \<Rightarrow> nonce | None \<Rightarrow> 0) + 1) \<rparr>)"

lemma target_reset [simp]:
  "nv_targetMessageId (handleSelectConversationWithTargetReset p conv nv) = (if cv_type conv \<noteq> Cv_search \<and> \<not> p then None else nv_targetMessageId nv)"
  "rt_active (nv_router (handleSelectConversationWithTargetReset p conv nv)) = Some conv"
  "nv_searchPrefill (handleSelectConversationWithTargetReset p conv nv) = nv_searchPrefill nv"
  by (simp_all add: handleSelectConversationWithTargetReset_def handleSelectConversation_def setActiveConversation_def Let_def)

lemma plain_fields [simp]: "cv_type (plain_conversation t i n) = t" "cv_id (plain_conversation t i n) = i"
  by (simp_all add: plain_conversation_def)

lemma open_search:
  "nv_targetMessageId (handleOpenSearchWithQuery query nv) = None"
  "nv_searchPrefill (handleOpenSearchWithQuery query nv) \<noteq> nv_searchPrefill nv"
  "map_option cv_type (rt_active (nv_router (handleOpenSearchWithQuery query nv))) = Some Cv_search"
  by (simp_all add: handleOpenSearchWithQuery_def Let_def split: option.split)

lemma navigate_to_channel:
  "handleNavigateToChannel channelKey nv = nv \<and> channelKey \<notin> ch_key ` set (rt_channels (nv_router nv))
    \<or> nv_targetMessageId (handleNavigateToChannel channelKey nv) = None
      \<and> map_option cv_id (rt_active (nv_router (handleNavigateToChannel channelKey nv))) = Some channelKey"
proof (cases "find (\<lambda>item. ch_key item = channelKey) (rt_channels (nv_router nv))")
  case None
  then have "channelKey \<notin> ch_key ` set (rt_channels (nv_router nv))" by (auto simp: find_None_iff)
  with None show ?thesis by (simp add: handleNavigateToChannel_def)
next
  case (Some channel)
  then have "ch_key channel = channelKey" by (auto simp: find_Some_iff)
  with Some show ?thesis by (simp add: handleNavigateToChannel_def)
qed

text \<open>A result of the search opens the conversation of its message and scrolls to it; every other way to a conversation
  forgets the message to scroll to. Each request to search is a new one, even with the same words.\<close>

theorem navigation_targets:
  "nv_targetMessageId (handleNavigateToMessage target nv) = Some (tg_id target)
    \<and> map_option cv_id (rt_active (nv_router (handleNavigateToMessage target nv))) = Some (tg_conversation_key target)
    \<and> nv_targetMessageId (handleOpenSearchWithQuery query nv) = None
    \<and> nv_searchPrefill (handleOpenSearchWithQuery query nv) \<noteq> nv_searchPrefill nv
    \<and> map_option cv_type (rt_active (nv_router (handleOpenSearchWithQuery query nv))) = Some Cv_search
    \<and> (cv_type conv = Cv_search \<or> nv_targetMessageId (handleSelectConversationWithTargetReset False conv nv) = None)
    \<and> (handleNavigateToChannel channelKey nv = nv \<and> channelKey \<notin> ch_key ` set (rt_channels (nv_router nv))
       \<or> nv_targetMessageId (handleNavigateToChannel channelKey nv) = None
         \<and> map_option cv_id (rt_active (nv_router (handleNavigateToChannel channelKey nv))) = Some channelKey)"
  using open_search navigate_to_channel [of channelKey nv] by (simp add: handleNavigateToMessage_def)

end
