(* ===== verification/Js_Regex.thy ===== *)
theory Js_Regex
  imports Js_Strings "HOL-Library.Monad_Syntax"
begin

text \<open>
  Regular expressions of ECMAScript as the program writes them, with the backtracking matcher of the language: a match at
  a position is the first of a list of ends, in the order in which the matcher tries them (greedy repetitions first). A
  pattern with the global flag is searched from where the last match ended, which is how the program cuts texts into pieces.
\<close>

section \<open>Patterns\<close>

text \<open>A repetition has a least and a greatest number of turns; a group of the language is its body. In the patterns of the
  program no body of a repetition matches the empty text, a turn that matches nothing ends the repetition.\<close>

datatype regex =
    RSet "char \<Rightarrow> bool"
  | RSeq regex regex
  | RAlt regex regex
  | RRep nat "nat option" regex
  | RBoundary
  | REnd

definition RLit :: "string \<Rightarrow> regex \<Rightarrow> regex" where
  "RLit s r = foldr (\<lambda>c r. RSeq (RSet (\<lambda>d. d = c)) r) s r"

definition ROpt :: "regex \<Rightarrow> regex" where
  "ROpt r = RRep 0 (Some 1) r"

definition RPlus :: "regex \<Rightarrow> regex" where
  "RPlus r = RRep 1 None r"

definition RStar :: "regex \<Rightarrow> regex" where
  "RStar r = RRep 0 None r"

definition RDigit :: regex where
  "RDigit = RSet (\<lambda>c. CHR ''0'' \<le> c \<and> c \<le> CHR ''9'')"

section \<open>The matcher\<close>

definition word_char :: "char \<Rightarrow> bool" where
  "word_char c \<longleftrightarrow> (let n = of_char c :: nat in (48 \<le> n \<and> n \<le> 57) \<or> (65 \<le> n \<and> n \<le> 90) \<or> n = 95 \<or> (97 \<le> n \<and> n \<le> 122))"

definition word_at :: "string \<Rightarrow> nat \<Rightarrow> bool" where
  "word_at s i \<longleftrightarrow> i < length s \<and> word_char (s ! i)"

text \<open>The turns of a repetition. Every turn takes a character, so that the length of the rest bounds their number; \<open>turns\<close>
  below shows that this many are enough.\<close>

fun repeat :: "nat \<Rightarrow> (nat \<Rightarrow> nat list) \<Rightarrow> nat \<Rightarrow> nat option \<Rightarrow> nat \<Rightarrow> nat list" where
  "repeat 0 m lo hi i = (if lo = 0 then [i] else [])"
| "repeat (Suc n) m lo hi i =
     (if hi = Some 0 then []
      else concat (map (\<lambda>j. if i < j then repeat n m (lo - 1) (map_option (\<lambda>h. h - 1) hi) j else []) (m i)))
     @ (if lo = 0 then [i] else [])"

fun rmatch :: "string \<Rightarrow> regex \<Rightarrow> nat \<Rightarrow> nat list" where
  "rmatch s (RSet p) i = (if i < length s \<and> p (s ! i) then [Suc i] else [])"
| "rmatch s (RSeq a b) i = concat (map (rmatch s b) (rmatch s a i))"
| "rmatch s (RAlt a b) i = rmatch s a i @ rmatch s b i"
| "rmatch s (RRep lo hi a) i = repeat (length s - i) (rmatch s a) lo hi i"
| "rmatch s RBoundary i = (if (0 < i \<and> word_at s (i - 1)) \<noteq> word_at s i then [i] else [])"
| "rmatch s REnd i = (if i = length s then [i] else [])"

text \<open>The search for the first position with a match.\<close>

definition regex_exec :: "regex \<Rightarrow> string \<Rightarrow> nat \<Rightarrow> (nat \<times> nat) option" where
  "regex_exec r s i =
     map_option (\<lambda>a. (a, hd (rmatch s r a))) (find (\<lambda>a. rmatch s r a \<noteq> []) [i..<Suc (length s)])"

lemma repeat_bounds:
  assumes "\<And>i j. j \<in> set (m i) \<Longrightarrow> i \<le> n \<Longrightarrow> i \<le> j \<and> j \<le> n"
  shows "j \<in> set (repeat k m lo hi i) \<Longrightarrow> i \<le> n \<Longrightarrow> i \<le> j \<and> j \<le> n"
proof (induction k arbitrary: i lo hi)
  case (Suc k)
  then show ?case using assms by (auto split: if_splits) (meson assms le_trans less_imp_le Suc.IH)+
qed (auto split: if_splits)

lemma rmatch_bounds: "j \<in> set (rmatch s r i) \<Longrightarrow> i \<le> length s \<Longrightarrow> i \<le> j \<and> j \<le> length s"
proof (induction r arbitrary: i j)
  case (RSeq a b)
  then show ?case by (auto, meson le_trans)
next
  case (RRep lo hi a)
  from repeat_bounds [of "rmatch s a" "length s" j "length s - i" lo hi i] RRep show ?case by auto
qed (auto split: if_splits)

text \<open>Patterns that take at least one character.\<close>

fun consumes :: "regex \<Rightarrow> bool" where
  "consumes (RSet p) \<longleftrightarrow> True"
| "consumes (RSeq a b) \<longleftrightarrow> consumes a \<or> consumes b"
| "consumes (RAlt a b) \<longleftrightarrow> consumes a \<and> consumes b"
| "consumes (RRep lo hi a) \<longleftrightarrow> 0 < lo"
| "consumes RBoundary \<longleftrightarrow> False"
| "consumes REnd \<longleftrightarrow> False"

lemma repeat_consumes:
  assumes "\<And>i j. j \<in> set (m i) \<Longrightarrow> i \<le> n \<Longrightarrow> i \<le> j \<and> j \<le> n" and "0 < lo" and "i \<le> n"
  shows "j \<in> set (repeat k m lo hi i) \<Longrightarrow> i < j"
  using assms repeat_bounds [of m n, OF assms(1)] by (cases k) (auto split: if_splits, meson assms(1) less_le_trans)

lemma rmatch_consumes: "consumes r \<Longrightarrow> j \<in> set (rmatch s r i) \<Longrightarrow> i \<le> length s \<Longrightarrow> i < j"
proof (induction r arbitrary: i j)
  case (RSeq a b)
  then obtain k where k: "k \<in> set (rmatch s a i)" "j \<in> set (rmatch s b k)" by auto
  with rmatch_bounds [OF k(1) RSeq.prems(3)] rmatch_bounds [OF k(2)] RSeq show ?case
    by (auto, meson le_less_trans less_le_trans)+
next
  case (RRep lo hi a)
  then show ?case using repeat_consumes [of "rmatch s a" "length s" lo i j] rmatch_bounds by auto
qed (auto split: if_splits)

text \<open>More turns than there are characters change nothing.\<close>

lemma repeat_end:
  assumes "\<And>j. j \<in> set (m n) \<Longrightarrow> j \<le> n"
  shows "repeat k m lo hi n = (if lo = 0 then [n] else [])"
  using assms by (cases k) (auto dest: leD)

lemma repeat_enough:
  assumes m: "\<And>i j. j \<in> set (m i) \<Longrightarrow> i \<le> n \<Longrightarrow> j \<le> n"
  shows "i \<le> n \<Longrightarrow> n - i \<le> k \<Longrightarrow> n - i \<le> l \<Longrightarrow> repeat k m lo hi i = repeat l m lo hi i"
proof (induction k arbitrary: i l lo hi)
  case 0
  then have "i = n" by simp
  then show ?case by (simp add: repeat_end m)
next
  case (Suc k)
  show ?case
  proof (cases l)
    case 0
    with Suc.prems have "i = n" by simp
    then show ?thesis by (simp only: repeat_end m)
  next
    case l: (Suc l')
    have "repeat k m lo' hi' j = repeat l' m lo' hi' j" if "j \<in> set (m i)" "i < j" for j lo' hi'
      using Suc.prems that m [OF that(1)] by (intro Suc.IH) (simp_all add: l)
    then show ?thesis by (simp add: l cong: map_cong if_cong)
  qed
qed

text \<open>The turns of a repetition are a choice, in order, between one more turn and none.\<close>

lemma turns:
  assumes "i \<le> length s"
  shows "rmatch s (RRep lo hi a) i =
    (if hi = Some 0 then []
     else concat (map (\<lambda>j. if i < j then rmatch s (RRep (lo - 1) (map_option (\<lambda>h. h - 1) hi) a) j else []) (rmatch s a i)))
    @ (if lo = 0 then [i] else [])"
proof (cases "length s - i")
  case 0
  then have i: "i = length s" using assms by simp
  have "\<not> i < j" if "j \<in> set (rmatch s a i)" for j using rmatch_bounds [OF that] by (simp add: i)
  then show ?thesis by (simp add: i cong: map_cong if_cong)
next
  case (Suc k)
  have m: "\<And>i j. j \<in> set (rmatch s a i) \<Longrightarrow> i \<le> length s \<Longrightarrow> j \<le> length s" using rmatch_bounds by blast
  have "repeat k (rmatch s a) lo' hi' j = repeat (length s - j) (rmatch s a) lo' hi' j" if "j \<in> set (rmatch s a i)" "i < j" for j lo' hi'
    proof (rule repeat_enough)
      show "\<And>i j. j \<in> set (rmatch s a i) \<Longrightarrow> i \<le> length s \<Longrightarrow> j \<le> length s" by (rule m)
    qed (use that Suc m [OF that(1) assms] in simp_all)
  then show ?thesis by (simp add: Suc cong: map_cong if_cong)
qed

lemma regex_exec_Some:
  assumes "regex_exec r s i = Some (a, b)"
  shows "i \<le> a \<and> a \<le> b \<and> b \<le> length s \<and> b \<in> set (rmatch s r a)"
proof -
  from assms have a: "find (\<lambda>a. rmatch s r a \<noteq> []) [i..<Suc (length s)] = Some a" and b: "b = hd (rmatch s r a)"
    by (auto simp: regex_exec_def)
  from a obtain n where "n < length [i..<Suc (length s)]" "rmatch s r a \<noteq> []" "a = [i..<Suc (length s)] ! n"
    by (auto simp: find_Some_iff)
  then have "rmatch s r a \<noteq> []" "a \<in> set [i..<Suc (length s)]" using nth_mem by blast+
  with b rmatch_bounds [of b s r a] show ?thesis by auto
qed

lemma regex_exec_consumes: "consumes r \<Longrightarrow> regex_exec r s i = Some (a, b) \<Longrightarrow> i \<le> a \<and> a < b \<and> b \<le> length s"
  using regex_exec_Some [of r s i a b] rmatch_consumes [of r b s a] by auto

section \<open>Cutting a text at the matches of a pattern\<close>

text \<open>\<^verbatim>\<open>while ((match = PATTERN.exec(text)) !== null)\<close> with \<^verbatim>\<open>lastIndex\<close>, a gap or a match at a time: \<open>Inl\<close> the text in front of
  a match or behind the last one, \<open>Inr\<close> a match. A pattern that matches the empty text would not come to an end.\<close>

definition substr :: "string \<Rightarrow> nat \<Rightarrow> nat \<Rightarrow> string" where
  "substr s a b = drop a (take b s)"

lemma substr_Cons: "a < b \<Longrightarrow> b \<le> length s \<Longrightarrow> substr s a b = s ! a # substr s (Suc a) b"
  by (simp add: substr_def) (metis Cons_nth_drop_Suc length_take less_le_trans min.absorb2 nth_take)

lemma substr_snoc: "a \<le> b \<Longrightarrow> b < length s \<Longrightarrow> substr s a (Suc b) = substr s a b @ [s ! b]"
  by (simp add: substr_def take_Suc_conv_app_nth)

partial_function (option) cut_text :: "(string \<Rightarrow> nat \<Rightarrow> (nat \<times> nat) option) \<Rightarrow> string \<Rightarrow> nat \<Rightarrow> (string + string) list option" where
  "cut_text exec s lastIndex =
     (case exec s lastIndex of
        None \<Rightarrow> Some (if lastIndex < length s then [Inl (drop lastIndex s)] else [])
      | Some (a, b) \<Rightarrow>
          do { rest \<leftarrow> cut_text exec s b;
               Some ((if lastIndex < a then [Inl (substr s lastIndex a)] else []) @ Inr (substr s a b) # rest) })"

text \<open>A search promises to look ahead and to take something.\<close>

locale searcher =
  fixes exec :: "string \<Rightarrow> nat \<Rightarrow> (nat \<times> nat) option"
  assumes progress: "i \<le> length s \<Longrightarrow> exec s i = Some (a, b) \<Longrightarrow> i \<le> a \<and> a < b \<and> b \<le> length s"
begin

lemma cut_complete:
  "i \<le> length s \<Longrightarrow> \<exists>pieces. cut_text exec s i = Some pieces \<and> concat (map (case_sum id id) pieces) = drop i s"
proof (induction "length s - i" arbitrary: i rule: less_induct)
  case less
  show ?case
  proof (cases "exec s i")
    case None
    then show ?thesis by (simp add: cut_text.simps)
  next
    case (Some m)
    obtain a b where m: "m = (a, b)" by fastforce
    from progress [OF less.prems] Some m have ab: "i \<le> a" "a < b" "b \<le> length s" by auto
    have "length s - b < length s - i" using ab by simp
    from less.hyps [OF this ab(3)] obtain rest where rest: "cut_text exec s b = Some rest" "concat (map (case_sum id id) rest) = drop b s"
      by auto
    have "drop i s = substr s i a @ substr s a b @ drop b s"
      using ab by (simp add: substr_def) (metis append_take_drop_id drop_take le_add_diff_inverse drop_drop add.commute le_trans less_imp_le_nat)
    moreover have "substr s i a = []" if "\<not> i < a" using that by (simp add: substr_def)
    ultimately show ?thesis using Some m rest by (subst cut_text.simps) auto
  qed
qed

lemma cut_matches:
  "i \<le> length s \<Longrightarrow> cut_text exec s i = Some pieces \<Longrightarrow> Inr x \<in> set pieces \<Longrightarrow> \<exists>j a b. exec s j = Some (a, b) \<and> x = substr s a b"
proof (induction "length s - i" arbitrary: i pieces rule: less_induct)
  case less
  show ?case
  proof (cases "exec s i")
    case None
    with less.prems show ?thesis by (auto simp: cut_text.simps split: if_splits)
  next
    case (Some m)
    obtain a b where m: "m = (a, b)" by fastforce
    from progress [OF less.prems(1)] Some m have ab: "i \<le> a" "a < b" "b \<le> length s" by auto
    from less.prems(2) obtain rest where rest: "cut_text exec s b = Some rest"
        "pieces = (if i < a then [Inl (substr s i a)] else []) @ Inr (substr s a b) # rest"
      by (subst (asm) cut_text.simps) (auto simp: Some m bind_eq_Some_conv)
    have "x = substr s a b \<or> Inr x \<in> set rest" using less.prems(3) rest by (auto split: if_splits)
    with less.hyps [of b rest] ab rest(1) Some m show ?thesis by auto
  qed
qed

end

lemma searcher_regex: "consumes r \<Longrightarrow> searcher (regex_exec r)"
  by unfold_locales (rule regex_exec_consumes)

end
