(* ===== verification/Message_Text.thy ===== *)
theory Message_Text
  imports Js_Regex Text_Display Open_Payloads
begin

text \<open>
  How the text of a message is shown: the upper half of \<^verbatim>\<open>components/MessageList.tsx\<close>, which cuts a text into mentions,
  links, references to channels and plain text, and recognises the payloads of the other clients; and the dialect of
  MeshCore One in \<^verbatim>\<open>utils/meshcoreOpenPayloads.ts\<close>. A part is what a node shows, without its markup.
\<close>

section \<open>Parts of a text\<close>

datatype part =
    Part_text string
  | Part_channel string
  | Part_link string
  | Part_mention string bool

text \<open>The text that a part shows.\<close>

fun part_text :: "part \<Rightarrow> string" where
  "part_text (Part_text t) = t"
| "part_text (Part_channel label) = label"
| "part_text (Part_link url) = url"
| "part_text (Part_mention name own) = ''@['' @ name @ '']''"

section \<open>References to channels\<close>

fun place_references :: "string \<Rightarrow> channel_reference list \<Rightarrow> nat \<Rightarrow> part list" where
  "place_references text [] lastIndex = (if lastIndex < length text then [Part_text (drop lastIndex text)] else [])"
| "place_references text (r # rs) lastIndex =
     (if lastIndex < hr_start r then [Part_text (substr text lastIndex (hr_start r))] else [])
     @ Part_channel (hr_label r) # place_references text rs (hr_end r)"

definition renderChannelReferences :: "string \<Rightarrow> part list" where
  "renderChannelReferences text =
     (let references = findLinkedChannelReferences text in
      if references = [] then [Part_text text] else place_references text references 0)"

section \<open>Links\<close>

definition ascii_alnum :: "char \<Rightarrow> bool" where
  "ascii_alnum c \<longleftrightarrow> word_char c \<and> c \<noteq> CHR ''_''"

definition URL_PATTERN :: regex where
  "URL_PATTERN =
     RLit ''http'' (RSeq (ROpt (RSet (\<lambda>c. c = CHR ''s''))) (RLit ''://''
       (RSeq (ROpt (RLit ''www'' (RSet (\<lambda>c. c = CHR ''.''))))
         (RSeq (RRep 1 (Some 256) (RSet (\<lambda>c. ascii_alnum c \<or> c \<in> set ''-@:%._+~#='')))
           (RSeq (RSet (\<lambda>c. c = CHR ''.''))
             (RSeq (RRep 1 (Some 6) (RSet (\<lambda>c. ascii_alnum c \<or> c \<in> set ''()'')))
               (RSeq RBoundary (RStar (RSet (\<lambda>c. ascii_alnum c \<or> c \<in> set ''-()@:%_+.~#?&/=''))))))))))"

text \<open>\<^verbatim>\<open>lastIndex\<close> is still 0 behind the loop exactly when nothing matched.\<close>

definition linkifyText :: "string \<Rightarrow> part list option" where
  "linkifyText text =
     do { pieces \<leftarrow> cut_text (regex_exec URL_PATTERN) text 0;
          Some (if list_all isl pieces then renderChannelReferences text
                else concat (map (\<lambda>p. case p of Inl t \<Rightarrow> renderChannelReferences t | Inr url \<Rightarrow> [Part_link url]) pieces)) }"

section \<open>Mentions\<close>

definition MENTION_PATTERN :: regex where
  "MENTION_PATTERN = RLit ''@['' (RSeq (RPlus (RSet (\<lambda>c. c \<noteq> CHR '']''))) (RSet (\<lambda>c. c = CHR '']'')))"

text \<open>The group of the pattern is the match without its brackets.\<close>

definition mention_part :: "string option \<Rightarrow> string \<Rightarrow> part" where
  "mention_part radioName match =
     (let mentionedName = butlast (drop 2 match)
      in Part_mention mentionedName (if truthy radioName then radioName = Some mentionedName else False))"

definition renderTextWithMentions :: "string \<Rightarrow> string option \<Rightarrow> part list option" where
  "renderTextWithMentions text radioName =
     do { pieces \<leftarrow> cut_text (regex_exec MENTION_PATTERN) text 0;
          nodes \<leftarrow> those (map (\<lambda>p. case p of Inl t \<Rightarrow> linkifyText t | Inr m \<Rightarrow> Some [mention_part radioName m]) pieces);
          Some (if concat nodes \<noteq> [] then concat nodes else [Part_text text]) }"

fun split_lines :: "string \<Rightarrow> string list" where
  "split_lines [] = [[]]"
| "split_lines (c # s) =
     (if of_char c = (10 :: nat) then [] # split_lines s
      else case split_lines s of line # lines \<Rightarrow> (c # line) # lines | [] \<Rightarrow> [[c]])"

text \<open>A message without a payload: its lines, with breaks between them.\<close>

definition render_lines :: "string \<Rightarrow> string option \<Rightarrow> part list list option" where
  "render_lines content radioName = those (map (\<lambda>line. renderTextWithMentions line radioName) (split_lines content))"

section \<open>Reactions of MeshCore One\<close>

text \<open>\<^verbatim>\<open>\p{Extended_Pictographic}\<close> among the characters below code 256.\<close>

definition pictographic :: "char \<Rightarrow> bool" where
  "pictographic c \<longleftrightarrow> of_char c \<in> {169, 174 :: nat}"

text \<open>\<^verbatim>\<open>[0-9a-tv-z]\<close>, in any case\<close>

definition mc1_hash_char :: "char \<Rightarrow> bool" where
  "mc1_hash_char c \<longleftrightarrow> ascii_alnum c \<and> lower_char c \<noteq> CHR ''u''"

text \<open>The first line: an emoji and perhaps whom it is for, or the other way round. The classes of the pattern leave one way to
  match each alternative, and \<^verbatim>\<open>.\<close> is any character that does not end a line.\<close>

definition mc1_head :: "string \<Rightarrow> (string \<times> string option) option" where
  "mc1_head line =
     (let first = takeWhile (\<lambda>c. c \<notin> set ''@[]'') line; rest = drop (length first) line;
          name = takeWhile (\<lambda>c. c \<noteq> CHR '']'') (drop 2 rest); behind = drop (2 + length name) rest
      in if first \<noteq> [] then
           (if rest = [] then Some (first, None)
            else if starts_with rest ''@['' \<and> name \<noteq> [] \<and> behind = '']'' then Some (first, Some name)
            else None)
         else if starts_with rest ''@['' \<and> name \<noteq> [] \<and> 1 < length behind
                \<and> list_all (\<lambda>c. of_char c \<notin> {10, 13 :: nat}) (tl behind)
           then Some (tl behind, Some name)
         else None)"

record mc1_reaction =
  mc_emoji :: string
  mc_targetHash :: string
  mc_targetSender :: "string option"

definition parseMeshCoreOneReaction :: "string \<Rightarrow> mc1_reaction option" where
  "parseMeshCoreOneReaction text =
     (case split_lines (trim text) of
        [line, code] \<Rightarrow>
          (let hash = trim code in
           if \<not> (length hash = 8 \<and> list_all mc1_hash_char hash) then None
           else case mc1_head (trim line) of
             None \<Rightarrow> None
           | Some (emoji0, targetSender) \<Rightarrow>
               (let emoji = trim emoji0 in
                if emoji = [] \<or> \<not> pictographic (hd emoji) then None
                else Some \<lparr> mc_emoji = emoji, mc_targetHash = hash, mc_targetSender = targetSender \<rparr>))
      | _ \<Rightarrow> None)"

section \<open>Payloads\<close>

datatype payload =
    Gif_payload string
  | Reaction_payload emoji "string option"

definition renderPayloadBody :: "string \<Rightarrow> payload option" where
  "renderPayloadBody body =
     (case parseGif body of
        Some gifId \<Rightarrow> Some (Gif_payload gifId)
      | None \<Rightarrow>
          (case parseReaction body of
             Some reaction \<Rightarrow> Some (Reaction_payload (pr_emoji reaction) None)
           | None \<Rightarrow>
               (case parseMeshCoreOneReaction body of
                  Some reaction \<Rightarrow> Some (Reaction_payload (map of_char (mc_emoji reaction)) (mc_targetSender reaction))
                | None \<Rightarrow> None)))"

text \<open>The mention in front of a payload that answers someone, and the payload.\<close>

definition renderMeshcoreOpenPayload :: "string \<Rightarrow> string option \<Rightarrow> (part list \<times> payload) option option" where
  "renderMeshcoreOpenPayload content radioName =
     (case renderPayloadBody content of
        Some whole \<Rightarrow> Some (Some ([], whole))
      | None \<Rightarrow>
          (case splitReplyMention content of
             None \<Rightarrow> Some None
           | Some split \<Rightarrow>
               (case renderPayloadBody (sr_body split) of
                  None \<Rightarrow> Some None
                | Some body \<Rightarrow>
                    map_option (\<lambda>mention. Some (mention, body)) (renderTextWithMentions (sr_mention split) radioName))))"

section \<open>Nothing is lost\<close>

interpretation urls: searcher "regex_exec URL_PATTERN"
  by (rule searcher_regex) (simp add: URL_PATTERN_def RLit_def)

interpretation mentions: searcher "regex_exec MENTION_PATTERN"
  by (rule searcher_regex) (simp add: MENTION_PATTERN_def RLit_def)

abbreviation parts_text :: "part list \<Rightarrow> string" where
  "parts_text parts \<equiv> concat (map part_text parts)"

lemma substr_join: "a \<le> b \<Longrightarrow> b \<le> length s \<Longrightarrow> substr s a b @ drop b s = drop a s"
  by (simp add: substr_def) (metis drop_append append_take_drop_id diff_is_0_eq drop0 length_take min.absorb2)

lemma label_there:
  assumes "match_reference pos s = Some (skip, label)"
  shows "prefix label (drop skip s) \<and> label \<noteq> []"
  using assms label_at_Some by (fastforce simp: match_reference_def split: option.splits list.splits if_splits)

lemma place_complete:
  "lst \<le> pos \<Longrightarrow> pos \<le> length text \<Longrightarrow>
    parts_text (place_references text (references_from pos (drop pos text)) lst) = drop lst text"
proof (induction "length text - pos" arbitrary: pos lst rule: less_induct)
  case less
  show ?case
  proof (cases "match_reference pos (drop pos text)")
    case None
    show ?thesis
    proof (cases "pos < length text")
      case True
      then have "drop pos text = text ! pos # drop (Suc pos) text" by (simp add: Cons_nth_drop_Suc)
      then have "references_from pos (drop pos text) = references_from (Suc pos) (drop (Suc pos) text)"
        using None by (subst references_from.simps) simp
      then show ?thesis using less.hyps [of "Suc pos" lst] True less.prems by simp
    next
      case False
      then show ?thesis using None less.prems by (simp add: references_from.simps)
    qed
  next
    case (Some m)
    obtain skip label where m: "m = (skip, label)" by fastforce
    let ?p = "pos + skip" and ?q = "pos + skip + length label"
    from label_there [OF Some [unfolded m]] obtain rest where rest: "drop ?p text = label @ rest" and ne: "label \<noteq> []"
      by (auto simp: add.commute elim: prefixE)
    then have "?p < length text" by (metis Nil_is_append_conv drop_eq_Nil not_le)
    moreover have "length (drop ?p text) = length label + length rest" by (simp add: rest)
    ultimately have q: "pos < ?q" "?q \<le> length text" "?p \<le> length text" using ne by auto
    have "drop ?q text = rest" using arg_cong [OF rest, of "drop (length label)"] by (simp add: add.commute add.left_commute)
    then have tail: "label @ drop ?q text = drop ?p text" by (simp add: rest)
    have refs: "references_from pos (drop pos text)
        = \<lparr> hr_label = label, hr_start = ?p, hr_end = ?q \<rparr> # references_from ?q (drop ?q text)"
      using Some m by (subst references_from.simps) (simp add: add.commute add.left_commute)
    have "parts_text (place_references text (references_from ?q (drop ?q text)) ?q) = drop ?q text"
    proof (rule less.hyps)
      have "0 < length label" using ne by simp
      then show "length text - ?q < length text - pos" using q by linarith
    qed (use q in auto)
    then have "parts_text (place_references text (references_from pos (drop pos text)) lst)
        = (if lst < ?p then substr text lst ?p else []) @ drop ?p text"
      using tail by (simp add: refs)
    also have "\<dots> = drop lst text"
    proof (cases "lst < ?p")
      case True
      then show ?thesis using substr_join [of lst ?p "text"] q(3) by simp
    next
      case False
      then have "lst = ?p" using less.prems(1) by simp
      then show ?thesis by simp
    qed
    finally show ?thesis .
  qed
qed

lemma channel_parts_text: "parts_text (renderChannelReferences s) = s"
  using place_complete [of 0 0 s] by (simp add: renderChannelReferences_def findLinkedChannelReferences_def Let_def)

lemma parts_text_concat: "parts_text (concat ps) = concat (map parts_text ps)"
  by (induction ps) auto

lemma piece_texts:
  "concat (map (\<lambda>p. parts_text (case p of Inl t \<Rightarrow> renderChannelReferences t | Inr url \<Rightarrow> [Part_link url])) pieces)
    = concat (map (case_sum id id) pieces)"
  by (induction pieces) (auto simp: channel_parts_text split: sum.split)

lemma linkify_complete: "\<exists>parts. linkifyText s = Some parts \<and> parts_text parts = s"
proof -
  from urls.cut_complete [of 0 s] obtain pieces where
    pieces: "cut_text (regex_exec URL_PATTERN) s 0 = Some pieces" "concat (map (case_sum id id) pieces) = s" by auto
  then show ?thesis
    using piece_texts [of pieces] by (simp add: linkifyText_def channel_parts_text parts_text_concat comp_def)
qed

text \<open>A class repeated from a position: every character up to the end is in it.\<close>

lemma class_repeated:
  "i \<le> length s \<Longrightarrow> j \<in> set (rmatch s (RRep lo hi (RSet p)) i) \<Longrightarrow> list_all p (substr s i j) \<and> i \<le> j \<and> j \<le> length s"
proof (induction "length s - i" arbitrary: i lo hi rule: less_induct)
  case less
  note j = less.prems(2)
  from rmatch_bounds [OF j less.prems(1)] have b: "i \<le> j" "j \<le> length s" by auto
  from j turns [OF less.prems(1), of lo hi "RSet p"]
  have "j = i \<or> (i < length s \<and> p (s ! i) \<and> (\<exists>lo' hi'. j \<in> set (rmatch s (RRep lo' hi' (RSet p)) (Suc i))))"
    by (auto split: if_splits)
  then show ?case
  proof
    assume "j = i"
    with b show ?thesis by (simp add: substr_def)
  next
    assume "i < length s \<and> p (s ! i) \<and> (\<exists>lo' hi'. j \<in> set (rmatch s (RRep lo' hi' (RSet p)) (Suc i)))"
    then obtain lo' hi' where i: "i < length s" "p (s ! i)" and j': "j \<in> set (rmatch s (RRep lo' hi' (RSet p)) (Suc i))" by auto
    have IH: "list_all p (substr s (Suc i) j)" "Suc i \<le> j" using less.hyps [OF _ _ j'] i(1) by auto
    have "substr s i j = s ! i # substr s (Suc i) j" using IH(2) b(2) by (intro substr_Cons) auto
    with IH i b show ?thesis by simp
  qed
qed

lemma mention_shape:
  assumes "regex_exec MENTION_PATTERN s i = Some (a, b)"
  shows "\<exists>name. substr s a b = ''@['' @ name @ '']'' \<and> name \<noteq> [] \<and> CHR '']'' \<notin> set name"
proof -
  from regex_exec_Some [OF assms] have b: "a \<le> b" "b \<le> length s" and m: "b \<in> set (rmatch s MENTION_PATTERN a)" by auto
  from m obtain j where at: "a < length s" "s ! a = CHR ''@''" "Suc a < length s" "s ! Suc a = CHR ''[''"
    and j: "j \<in> set (rmatch s (RPlus (RSet (\<lambda>c. c \<noteq> CHR '']''))) (Suc (Suc a)))" and e: "j < length s" "s ! j = CHR '']''" "b = Suc j"
    by (auto simp: MENTION_PATTERN_def RLit_def split: if_splits)
  from class_repeated [OF _ j [unfolded RPlus_def]] at(3)
  have name: "list_all (\<lambda>c. c \<noteq> CHR '']'') (substr s (Suc (Suc a)) j)" "Suc (Suc a) \<le> j" "j \<le> length s" by auto
  have "Suc (Suc a) < j" using rmatch_consumes [OF _ j] at(3) by (simp add: RPlus_def)
  have "substr s a b = s ! a # s ! Suc a # substr s (Suc (Suc a)) b"
    using b(2) e(3) name(2) by (simp add: substr_Cons)
  moreover have "substr s (Suc (Suc a)) b = substr s (Suc (Suc a)) j @ [s ! j]"
    using e name(2) by (simp add: substr_snoc)
  moreover have "substr s (Suc (Suc a)) j \<noteq> []" using \<open>Suc (Suc a) < j\<close> name(3) by (simp add: substr_def)
  moreover have "CHR '']'' \<notin> set (substr s (Suc (Suc a)) j)" using name(1) by (auto simp: list_all_iff)
  ultimately show ?thesis using at e by simp
qed

lemma those_map: "(\<And>x. x \<in> set xs \<Longrightarrow> f x = Some (g x)) \<Longrightarrow> those (map f xs) = Some (map g xs)"
  by (induction xs) auto

text \<open>A mention stands highlighted exactly when it names the radio.\<close>

fun part_ok :: "string option \<Rightarrow> part \<Rightarrow> bool" where
  "part_ok radioName (Part_mention name own) \<longleftrightarrow> name \<noteq> [] \<and> CHR '']'' \<notin> set name \<and> (own \<longleftrightarrow> radioName = Some name)"
| "part_ok radioName (Part_text t) \<longleftrightarrow> True"
| "part_ok radioName (Part_channel label) \<longleftrightarrow> True"
| "part_ok radioName (Part_link url) \<longleftrightarrow> True"

lemma place_ok: "list_all (part_ok r) (place_references s refs i)"
  by (induction s refs i rule: place_references.induct) auto

lemma channel_ok: "list_all (part_ok r) (renderChannelReferences s)"
  by (simp add: renderChannelReferences_def Let_def place_ok)

lemma piece_ok: "list_all (part_ok r) (case p of Inl t \<Rightarrow> renderChannelReferences t | Inr url \<Rightarrow> [Part_link url])"
  by (cases p) (simp_all add: channel_ok)

lemma list_all_concat: "list_all P (concat xss) \<longleftrightarrow> list_all (list_all P) xss"
  by (induction xss) auto

lemma linkify_ok: "linkifyText s = Some parts \<Longrightarrow> list_all (part_ok r) parts"
  using channel_ok [of r s] piece_ok [of r]
  by (auto simp: linkifyText_def bind_eq_Some_conv list_all_concat list.pred_map comp_def list.pred_True split: if_splits)

lemma mention_part_eq:
  assumes "m = ''@['' @ name @ '']''" and "name \<noteq> []"
  shows "mention_part r m = Part_mention name (r = Some name)"
  using assms by (cases r) (auto simp: mention_part_def Let_def truthy_iff butlast_append)

text \<open>Showing a line always comes to an end and loses nothing: the mentions, links, references to channels and stretches of
  plain text it is cut into spell the whole text again in order, whatever the text holds; every mention has a name without a
  closing bracket, and it is highlighted exactly when that name is the radio's.\<close>

lemma line_complete:
  "\<exists>parts. renderTextWithMentions s r = Some parts \<and> parts_text parts = s \<and> list_all (part_ok r) parts"
proof -
  from mentions.cut_complete [of 0 s] obtain pieces where
    pieces: "cut_text (regex_exec MENTION_PATTERN) s 0 = Some pieces" "concat (map (case_sum id id) pieces) = s" by auto
  let ?f = "\<lambda>p. case p of Inl t \<Rightarrow> linkifyText t | Inr m \<Rightarrow> Some [mention_part r m]"
  have piece: "\<exists>parts. ?f p = Some parts \<and> parts_text parts = case_sum id id p \<and> list_all (part_ok r) parts"
    if p: "p \<in> set pieces" for p
  proof (cases p)
    case (Inl t)
    then show ?thesis using linkify_complete [of t] linkify_ok [of t _ r] by auto
  next
    case (Inr m)
    with mentions.cut_matches [OF _ pieces(1)] p obtain j a b where
      "regex_exec MENTION_PATTERN s j = Some (a, b)" "m = substr s a b" by blast
    with mention_shape obtain name where "m = ''@['' @ name @ '']''" "name \<noteq> []" "CHR '']'' \<notin> set name" by metis
    then show ?thesis using Inr mention_part_eq [of m name r] by simp
  qed
  then obtain g where g: "\<And>p. p \<in> set pieces \<Longrightarrow> ?f p = Some (g p) \<and> parts_text (g p) = case_sum id id p \<and> list_all (part_ok r) (g p)"
    by metis
  have nodes: "those (map ?f pieces) = Some (map g pieces)" using g by (intro those_map) simp
  have "map (\<lambda>p. parts_text (g p)) pieces = map (case_sum id id) pieces" using g by (intro map_cong) auto
  moreover have "parts_text (concat (map g pieces)) = concat (map (\<lambda>p. parts_text (g p)) pieces)"
    by (simp add: parts_text_concat comp_def)
  ultimately have "parts_text (concat (map g pieces)) = s" using pieces(2) by metis
  moreover have "list_all (part_ok r) (concat (map g pieces))" using g by (auto simp: list_all_iff)
  ultimately show ?thesis using pieces(1) nodes by (auto simp: renderTextWithMentions_def)
qed

lemma newline_iff: "of_char c = (10 :: nat) \<longleftrightarrow> c = CHR 0x0A"
proof -
  have "(of_char c = (of_char (CHR 0x0A) :: nat)) \<longleftrightarrow> c = CHR 0x0A" by (rule of_char_eq_iff)
  then show ?thesis by simp
qed

lemma split_lines_not_Nil: "split_lines s \<noteq> []"
  by (induction s) (auto split: list.splits)

lemma split_lines_join: "join [CHR 0x0A] (split_lines s) = s"
proof (induction s)
  case (Cons c s)
  obtain x xs where "split_lines s = x # xs" using split_lines_not_Nil [of s] by (cases "split_lines s") auto
  with Cons show ?case by (cases xs) (auto simp: newline_iff)
qed simp

lemma render_lines_complete:
  "\<exists>lines. render_lines content r = Some lines \<and> join [CHR 0x0A] (map parts_text lines) = content
    \<and> list_all (list_all (part_ok r)) lines"
proof -
  obtain g where g: "\<And>s. renderTextWithMentions s r = Some (g s) \<and> parts_text (g s) = s \<and> list_all (part_ok r) (g s)"
    using line_complete [of _ r] by metis
  then have "render_lines content r = Some (map g (split_lines content))"
    by (simp add: render_lines_def those_map)
  moreover have "map parts_text (map g (split_lines content)) = split_lines content"
    using g by (simp add: comp_def map_idI)
  moreover have "list_all (list_all (part_ok r)) (map g (split_lines content))" using g by (simp add: list_all_iff)
  ultimately show ?thesis by (metis split_lines_join)
qed

text \<open>A mention that counts need not be shown as one's own: counting looks away from case, highlighting does not.\<close>

lemma mention_highlight_gap:
  "messageContainsMention ''@[bob]'' (Some ''Bob'') \<and>
   renderTextWithMentions ''@[bob]'' (Some ''Bob'') = Some [Part_mention ''bob'' False]"
proof -
  have "messageContainsMention ''@[bob]'' (Some ''Bob'')" by code_simp
  moreover have "regex_exec MENTION_PATTERN ''@[bob]'' 0 = Some (0, 6)" "regex_exec MENTION_PATTERN ''@[bob]'' 6 = None"
    by code_simp+
  then have "cut_text (regex_exec MENTION_PATTERN) ''@[bob]'' 0 = Some [Inr ''@[bob]'']"
    by (simp add: cut_text.simps substr_def)
  ultimately show ?thesis by (simp add: renderTextWithMentions_def mention_part_def)
qed

section \<open>A reaction of MeshCore One is read back\<close>

lemma split_lines_two:
  assumes "CHR 0x0A \<notin> set s" and "CHR 0x0A \<notin> set t"
  shows "split_lines (s @ CHR 0x0A # t) = [s, t]"
proof -
  have "split_lines t = [t]" using assms(2) by (induction t) (auto simp: newline_iff)
  then show ?thesis using assms(1) by (induction s) (auto simp: newline_iff)
qed

definition mc1_hash_ok :: "string \<Rightarrow> bool" where
  "mc1_hash_ok hash \<longleftrightarrow> length hash = 8 \<and> list_all mc1_hash_char hash"

lemma mc1_char_plain: "mc1_hash_char c \<Longrightarrow> \<not> is_ws c \<and> c \<noteq> CHR 0x0A"
  by (auto simp: mc1_hash_char_def ascii_alnum_def word_char_def is_ws_def)

lemma mc1_hash_trim:
  assumes "mc1_hash_ok hash"
  shows "trim hash = hash \<and> CHR 0x0A \<notin> set hash \<and> hash \<noteq> [] \<and> \<not> is_ws (last hash)"
proof -
  have ne: "hash \<noteq> []" using assms by (auto simp: mc1_hash_ok_def)
  moreover have "\<forall>c \<in> set hash. \<not> is_ws c \<and> c \<noteq> CHR 0x0A"
    using assms mc1_char_plain by (auto simp: mc1_hash_ok_def list_all_iff)
  ultimately show ?thesis using trim_id [of hash] by auto
qed

lemma mc1_lines:
  assumes "line \<noteq> []" and "\<not> is_ws (hd line)" and "CHR 0x0A \<notin> set line" and "mc1_hash_ok hash"
  shows "split_lines (trim (line @ CHR 0x0A # hash)) = [line, hash]"
proof -
  have "trim (line @ CHR 0x0A # hash) = line @ CHR 0x0A # hash"
    using assms mc1_hash_trim [OF assms(4)] by (intro trim_id) auto
  then show ?thesis using split_lines_two assms(3) mc1_hash_trim [OF assms(4)] by simp
qed

lemma mc1_takeWhile: "\<forall>c \<in> set xs. P c \<Longrightarrow> \<not> P y \<Longrightarrow> takeWhile P (xs @ y # ys) = xs"
  by (induction xs) auto

lemma mc1_head_emoji:
  assumes "emoji \<noteq> []" and "set emoji \<inter> set ''@[]'' = {}" and "name \<noteq> []" and "CHR '']'' \<notin> set name"
  shows "mc1_head (emoji @ ''@['' @ name @ '']'') = Some (emoji, Some name)"
    and "mc1_head emoji = Some (emoji, None)"
proof -
  have "takeWhile (\<lambda>c. c \<notin> set ''@[]'') (emoji @ CHR ''@'' # CHR ''['' # name @ '']'') = emoji"
    using assms(2) by (intro mc1_takeWhile) auto
  moreover have "takeWhile (\<lambda>c. c \<noteq> CHR '']'') (name @ CHR '']'' # []) = name"
    using assms(4) by (intro mc1_takeWhile) auto
  ultimately show "mc1_head (emoji @ ''@['' @ name @ '']'') = Some (emoji, Some name)"
    using assms(1,3) by (simp add: mc1_head_def Let_def starts_with_def)
  have "takeWhile (\<lambda>c. c \<notin> set ''@[]'') emoji = emoji" using assms(2) by (auto simp: takeWhile_eq_all_conv)
  then show "mc1_head emoji = Some (emoji, None)" using assms(1)
    by (simp add: mc1_head_def Let_def del: takeWhile_eq_all_conv)
qed

lemma mc1_head_name:
  assumes "emoji \<noteq> []" and "\<forall>c \<in> set emoji. of_char c \<notin> {10, 13 :: nat}" and "name \<noteq> []" and "CHR '']'' \<notin> set name"
  shows "mc1_head (''@['' @ name @ '']'' @ emoji) = Some (emoji, Some name)"
proof -
  have "takeWhile (\<lambda>c. c \<noteq> CHR '']'') (name @ CHR '']'' # emoji) = name"
    using assms(4) by (intro mc1_takeWhile) auto
  then show ?thesis using assms by (auto simp: mc1_head_def Let_def starts_with_def list_all_iff)
qed

text \<open>A reaction of MeshCore One is read back as it was written: the emoji, the eight characters of the hash, and in both
  orders of the first line the sender it answers; without a sender in a direct message.\<close>

theorem meshcore_one_read_back:
  assumes "emoji \<noteq> []" and "pictographic (hd emoji)" and "\<not> is_ws (last emoji)" and "CHR 0x0A \<notin> set emoji" and "CHR 0x0D \<notin> set emoji"
    and "set emoji \<inter> set ''@[]'' = {}" and "name \<noteq> []" and "CHR '']'' \<notin> set name" and "CHR 0x0A \<notin> set name" and "mc1_hash_ok hash"
  shows "parseMeshCoreOneReaction (emoji @ ''@['' @ name @ '']'' @ CHR 0x0A # hash)
          = Some \<lparr> mc_emoji = emoji, mc_targetHash = hash, mc_targetSender = Some name \<rparr>
       \<and> parseMeshCoreOneReaction (''@['' @ name @ '']'' @ emoji @ CHR 0x0A # hash)
          = Some \<lparr> mc_emoji = emoji, mc_targetHash = hash, mc_targetSender = Some name \<rparr>
       \<and> parseMeshCoreOneReaction (emoji @ CHR 0x0A # hash)
          = Some \<lparr> mc_emoji = emoji, mc_targetHash = hash, mc_targetSender = None \<rparr>"
proof -
  have ws: "\<not> is_ws (hd emoji)" using assms(2) by (auto simp: pictographic_def is_ws_def)
  have cr: "of_char c = (13 :: nat) \<longleftrightarrow> c = CHR 0x0D" for c :: char
    using of_char_eq_iff [of c "CHR 0x0D", where 'a = nat] by simp
  have plain: "\<forall>c \<in> set emoji. of_char c \<notin> {10, 13 :: nat}" using assms(4,5) cr by (auto simp: newline_iff)
  have emoji: "trim emoji = emoji" using assms(1,3) ws by (intro trim_id)
  have read: "parseMeshCoreOneReaction (line @ CHR 0x0A # hash) = Some \<lparr> mc_emoji = emoji, mc_targetHash = hash, mc_targetSender = sender \<rparr>"
    if "line \<noteq> []" "\<not> is_ws (hd line)" "\<not> is_ws (last line)" "CHR 0x0A \<notin> set line" "mc1_head line = Some (emoji, sender)" for line sender
    using that assms(1,2,10) emoji mc1_hash_trim [OF assms(10)] mc1_lines [OF that(1,2,4) assms(10)] trim_id [of line]
    by (simp add: parseMeshCoreOneReaction_def mc1_hash_ok_def)
  have "parseMeshCoreOneReaction ((emoji @ ''@['' @ name @ '']'') @ CHR 0x0A # hash)
      = Some \<lparr> mc_emoji = emoji, mc_targetHash = hash, mc_targetSender = Some name \<rparr>"
    using assms ws mc1_head_emoji(1) [of emoji name] by (intro read) (auto simp: is_ws_def)
  moreover have "parseMeshCoreOneReaction ((''@['' @ name @ '']'' @ emoji) @ CHR 0x0A # hash)
      = Some \<lparr> mc_emoji = emoji, mc_targetHash = hash, mc_targetSender = Some name \<rparr>"
    using assms ws mc1_head_name [OF assms(1) plain assms(7,8)] by (intro read) (auto simp: is_ws_def)
  moreover have "parseMeshCoreOneReaction (emoji @ CHR 0x0A # hash)
      = Some \<lparr> mc_emoji = emoji, mc_targetHash = hash, mc_targetSender = None \<rparr>"
    using assms ws mc1_head_emoji(2) [of emoji name] by (intro read) auto
  ultimately show ?thesis by simp
qed

lemma meshcore_one_read_back_witness:
  "parseMeshCoreOneReaction (CHR 0xA9 # ''@[Bob]'' @ CHR 0x0A # ''0abcdefg'')
    = Some \<lparr> mc_emoji = [CHR 0xA9], mc_targetHash = ''0abcdefg'', mc_targetSender = Some ''Bob'' \<rparr>"
proof -
  have "pictographic (CHR 0xA9)" "\<not> is_ws (CHR 0xA9)" "mc1_hash_ok ''0abcdefg''" by code_simp+
  then show ?thesis using meshcore_one_read_back [of "[CHR 0xA9]" "''Bob''" "''0abcdefg''"] by simp
qed

end
