(* ===== verification/Message_Rows.thy ===== *)
theory Message_Rows
  imports Message_Text Path_Utils Message_Cache
begin

text \<open>
  A row of the message list (the middle of \<^verbatim>\<open>components/MessageList.tsx\<close>): who is shown as its sender, which contact
  the path modal takes for it, the groups of rows, the avatar, the marks behind a message, and the reaction picker.
  Markup is left out; a row is the data that its nodes show and the calls that its buttons make.
\<close>

section \<open>Contacts by key and by name\<close>

definition hasUnexpectedControlChars :: "string \<Rightarrow> bool" where
  "hasUnexpectedControlChars text \<longleftrightarrow>
     list_ex (\<lambda>c. let code = of_char c :: nat in code \<le> 8 \<or> code = 11 \<or> code = 12 \<or> (14 \<le> code \<and> code \<le> 31) \<or> code = 127) text"

record contact_lookup =
  cl_byKey :: "(string, contact) jsmap"
  cl_byName :: "(string, contact) jsmap"

definition lookup_step :: "contact_lookup \<Rightarrow> contact \<Rightarrow> contact_lookup" where
  "lookup_step lookup c =
     (let l1 = (if jm_has (cl_byKey lookup) (ct_public_key c) then lookup
                else lookup \<lparr> cl_byKey := jm_set (ct_public_key c) c (cl_byKey lookup) \<rparr>)
      in case or_null (ct_name c) of
           None \<Rightarrow> l1
         | Some n \<Rightarrow> if jm_has (cl_byName l1) n then l1 else l1 \<lparr> cl_byName := jm_set n c (cl_byName l1) \<rparr>)"

definition buildContactLookup :: "contact list \<Rightarrow> contact_lookup" where
  "buildContactLookup contacts = foldl lookup_step \<lparr> cl_byKey = [], cl_byName = [] \<rparr> contacts"

definition getDmContact :: "message \<Rightarrow> contact_lookup \<Rightarrow> contact option" where
  "getDmContact msg lookup =
     (if m_type msg \<noteq> PRIV \<or> m_conversation_key msg = [] then None
      else jm_get (cl_byKey lookup) (m_conversation_key msg))"

definition isCorruptUnnamedChannelMessage :: "message \<Rightarrow> string option \<Rightarrow> bool" where
  "isCorruptUnnamedChannelMessage msg parsedSender \<longleftrightarrow>
     m_type msg = CHAN \<and> \<not> m_outgoing msg \<and> \<not> truthy (m_sender_name msg) \<and> \<not> truthy (m_sender_key msg)
     \<and> \<not> truthy parsedSender \<and> hasUnexpectedControlChars (m_text msg)"

text \<open>\<^verbatim>\<open>a || b\<close> of two nullable strings\<close>

abbreviation or_value :: "string option \<Rightarrow> string option \<Rightarrow> string option" where
  "or_value a b \<equiv> (if truthy a then a else b)"

section \<open>Groups\<close>

definition getSenderGroupKey :: "message \<Rightarrow> contact_lookup \<Rightarrow> string" where
  "getSenderGroupKey msg lookup =
     (if m_outgoing msg then ''__outgoing__''
      else
        (let parsedSender = (if m_type msg = CHAN then fst (parseSenderFromText (m_text msg)) else None);
             senderName =
               (if m_type msg = PRIV
                then (if map_option ct_type (getDmContact msg lookup) = Some CONTACT_TYPE_ROOM then or_null (m_sender_name msg) else None)
                else or_value (m_sender_name msg) parsedSender)
         in if m_type msg = PRIV \<and> truthy (m_sender_key msg) then ''key:'' @ the (m_sender_key msg)
            else if m_type msg = PRIV \<and> truthy senderName then ''name:'' @ the senderName
            else if m_type msg = PRIV \<and> m_conversation_key msg \<noteq> [] then m_conversation_key msg
            else if truthy (m_sender_key msg) then ''key:'' @ the (m_sender_key msg)
            else if truthy senderName then ''name:'' @ the senderName
            else if isCorruptUnnamedChannelMessage msg parsedSender then ''corrupt:'' @ show_int (m_id msg)
            else ''__unknown__''))"

text \<open>One pass over the rows: \<open>prevKey\<close> is the key of the row before.\<close>

fun group_scan :: "contact_lookup \<Rightarrow> string option \<Rightarrow> message list \<Rightarrow> bool list" where
  "group_scan lookup prevKey [] = []"
| "group_scan lookup prevKey (msg # msgs) =
     (let key = getSenderGroupKey msg lookup in (Some key \<noteq> prevKey) # group_scan lookup (Some key) msgs)"

definition groupStarts :: "message list \<Rightarrow> contact_lookup \<Rightarrow> bool list" where
  "groupStarts msgs lookup = group_scan lookup None msgs"

section \<open>The sender in the path modal\<close>

definition senderInfoFromContact :: "contact \<Rightarrow> string \<Rightarrow> sender_info" where
  "senderInfoFromContact contact name =
     \<lparr> si_name = name, si_publicKeyOrPrefix = ct_public_key contact, si_lat = ct_lat contact, si_lon = ct_lon contact,
       si_pathHashMode = (case getDirectContactRoute contact of Some r \<Rightarrow> Val (cr_path_hash_mode r) | None \<Rightarrow> Null) \<rparr>"

definition unknownSenderInfo :: "string \<Rightarrow> string \<Rightarrow> sender_info" where
  "unknownSenderInfo name publicKeyOrPrefix =
     \<lparr> si_name = name, si_publicKeyOrPrefix = publicKeyOrPrefix, si_lat = None, si_lon = None, si_pathHashMode = Null \<rparr>"

definition find_sender :: "message \<Rightarrow> contact_lookup \<Rightarrow> string option \<Rightarrow> contact option" where
  "find_sender msg lookup name =
     (case (if truthy (m_sender_key msg) then jm_get (cl_byKey lookup) (the (m_sender_key msg)) else None) of
        Some c \<Rightarrow> Some c
      | None \<Rightarrow> if truthy name then jm_get (cl_byName lookup) (the name) else None)"

text \<open>The last resort: the name in the text, and then the conversation.\<close>

definition parsed_sender_info :: "message \<Rightarrow> string option \<Rightarrow> contact_lookup \<Rightarrow> sender_info" where
  "parsed_sender_info msg parsedSender lookup =
     (case (if truthy parsedSender then jm_get (cl_byName lookup) (the parsedSender) else None) of
        Some c \<Rightarrow> senderInfoFromContact c (the parsedSender)
      | None \<Rightarrow> unknownSenderInfo (or_else parsedSender ''Unknown'') (m_conversation_key msg))"

definition channel_sender_info :: "message \<Rightarrow> string option \<Rightarrow> contact_lookup \<Rightarrow> sender_info" where
  "channel_sender_info msg parsedSender lookup =
     (let senderName = or_value (m_sender_name msg) parsedSender in
      case find_sender msg lookup senderName of
        Some c \<Rightarrow> senderInfoFromContact c (or_else (ct_name c) (or_else senderName (take 12 (ct_public_key c))))
      | None \<Rightarrow>
          if truthy senderName \<or> truthy (m_sender_key msg)
          then unknownSenderInfo (or_else senderName (or_else (m_sender_key msg) ''Unknown''))
                 (or_else (m_sender_key msg) (m_conversation_key msg))
          else parsed_sender_info msg parsedSender lookup)"

definition getSenderInfo :: "message \<Rightarrow> contact option \<Rightarrow> string option \<Rightarrow> contact_lookup \<Rightarrow> sender_info" where
  "getSenderInfo msg contact parsedSender lookup =
     (case contact of
        Some c \<Rightarrow>
          if m_type msg = PRIV \<and> ct_type c = CONTACT_TYPE_ROOM \<and> (truthy (m_sender_key msg) \<or> truthy (m_sender_name msg)) then
            (case find_sender msg lookup (m_sender_name msg) of
               Some author \<Rightarrow>
                 senderInfoFromContact author
                   (or_else (ct_name author) (or_else (m_sender_name msg) (take 12 (ct_public_key author))))
             | None \<Rightarrow>
                 unknownSenderInfo (or_else (m_sender_name msg) (or_else (m_sender_key msg) ''Unknown'')) (or_else (m_sender_key msg) []))
          else if m_type msg = PRIV then senderInfoFromContact c (or_else (ct_name c) (take 12 (ct_public_key c)))
          else channel_sender_info msg parsedSender lookup
      | None \<Rightarrow>
          if m_type msg = CHAN then channel_sender_info msg parsedSender lookup
          else parsed_sender_info msg parsedSender lookup)"

definition resolveSenderInfo :: "contact_lookup \<Rightarrow> message \<Rightarrow> string option \<Rightarrow> sender_info" where
  "resolveSenderInfo lookup msg parsedSender = getSenderInfo msg (getDmContact msg lookup) parsedSender lookup"

section \<open>What a row shows\<close>

record row_contact =
  rp_dmContactName :: "string option"
  rp_isRoomServer :: bool
  rp_channelSenderKey :: "string option"

definition rowContactProps :: "message \<Rightarrow> contact_lookup \<Rightarrow> row_contact" where
  "rowContactProps msg lookup =
     (let dm = getDmContact msg lookup;
          channelSender = (if m_type msg = CHAN \<and> \<not> truthy (m_sender_key msg)
                           then or_value (m_sender_name msg) (fst (parseSenderFromText (m_text msg))) else None)
      in \<lparr> rp_dmContactName = (case dm of Some c \<Rightarrow> ct_name c | None \<Rightarrow> None),
           rp_isRoomServer = (map_option ct_type dm = Some CONTACT_TYPE_ROOM),
           rp_channelSenderKey =
             or_null (if truthy channelSender then map_option ct_public_key (jm_get (cl_byName lookup) (the channelSender)) else None) \<rparr>)"

definition CORRUPT_SENDER_LABEL :: string where
  "CORRUPT_SENDER_LABEL = ''<No name -- corrupt packet?>''"

text \<open>The name in front of a channel message is split off; a direct message carries none.\<close>

definition row_sender :: "message \<Rightarrow> string option \<times> string" where
  "row_sender msg = (if m_type msg = PRIV then (None, m_text msg) else parseSenderFromText (m_text msg))"

definition directSenderName :: "message \<Rightarrow> row_contact \<Rightarrow> string option" where
  "directSenderName msg props = (if m_type msg = PRIV \<and> rp_isRoomServer props then or_null (m_sender_name msg) else None)"

definition channelSenderName :: "message \<Rightarrow> string option" where
  "channelSenderName msg = (if m_type msg = CHAN then or_value (m_sender_name msg) (fst (row_sender msg)) else None)"

definition displaySender :: "message \<Rightarrow> row_contact \<Rightarrow> string" where
  "displaySender msg props =
     (if m_outgoing msg then ''You''
      else or_else (directSenderName msg props)
        (or_else (if rp_isRoomServer props \<and> truthy (m_sender_key msg) then map_option (take 8) (m_sender_key msg) else None)
          (or_else (rp_dmContactName props)
            (or_else (channelSenderName msg)
              (if isCorruptUnnamedChannelMessage msg (fst (row_sender msg)) then CORRUPT_SENDER_LABEL
               else or_else (Some (take 8 (m_conversation_key msg))) ''Unknown'')))))"

definition canClickSender :: "message \<Rightarrow> row_contact \<Rightarrow> bool \<Rightarrow> bool" where
  "canClickSender msg props hasHandler \<longleftrightarrow>
     \<not> m_outgoing msg \<and> hasHandler \<and> displaySender msg props \<noteq> ''Unknown'' \<and> displaySender msg props \<noteq> CORRUPT_SENDER_LABEL"

definition showAvatar :: "message \<Rightarrow> bool \<Rightarrow> bool" where
  "showAvatar msg isFirstInGroup \<longleftrightarrow> \<not> m_outgoing msg \<and> isFirstInGroup"

record avatar =
  av_name :: "string option"
  av_key :: string
  av_corrupt :: bool

definition row_avatar :: "message \<Rightarrow> row_contact \<Rightarrow> avatar" where
  "row_avatar msg props =
     (if m_outgoing msg then \<lparr> av_name = None, av_key = [], av_corrupt = False \<rparr>
      else if m_type msg = PRIV \<and> m_conversation_key msg \<noteq> [] then
        (if rp_isRoomServer props then
           (let avatarName = directSenderName msg props
            in \<lparr> av_name = avatarName,
                 av_key = or_else (m_sender_key msg)
                            (if truthy avatarName then ''name:'' @ the avatarName else m_conversation_key msg),
                 av_corrupt = False \<rparr>)
         else \<lparr> av_name = rp_dmContactName props, av_key = m_conversation_key msg, av_corrupt = False \<rparr>)
      else if isCorruptUnnamedChannelMessage msg (fst (row_sender msg)) then
        \<lparr> av_name = Some CORRUPT_SENDER_LABEL, av_key = ''corrupt:'' @ show_int (m_id msg), av_corrupt = True \<rparr>
      else
        (let avatarName = or_value (channelSenderName msg)
                            (if displaySender msg props \<noteq> ''Unknown'' then Some (displaySender msg props) else None)
         in \<lparr> av_name = avatarName,
              av_key = or_else (m_sender_key msg) (or_else (rp_channelSenderKey props)
                         (if truthy avatarName then ''name:'' @ the avatarName else ''message:'' @ show_int (m_id msg))),
              av_corrupt = False \<rparr>))"

definition avatarActionLabel :: "avatar \<Rightarrow> string" where
  "avatarActionLabel a =
     ''View info for '' @ (if truthy (av_name a) \<and> av_name a \<noteq> Some ''Unknown'' then the (av_name a) else take 12 (av_key a))"

text \<open>A press on the avatar opens the contact: its key, and whether one comes from a channel.\<close>

definition avatar_click :: "message \<Rightarrow> row_contact \<Rightarrow> string \<times> bool" where
  "avatar_click msg props = (av_key (row_avatar msg props), m_type msg = CHAN \<or> (m_type msg = PRIV \<and> rp_isRoomServer props))"

section \<open>The text, the badges and the marks of a row\<close>

datatype row_nodes =
    Rich_body "part list" payload
  | Text_body "part list list"

definition row_body :: "message \<Rightarrow> string option \<Rightarrow> bool \<Rightarrow> row_nodes option" where
  "row_body msg radioName renderRichPayloads =
     (let content = snd (row_sender msg) in
      case (if renderRichPayloads then renderMeshcoreOpenPayload content radioName else Some None) of
        None \<Rightarrow> None
      | Some (Some (mention, body)) \<Rightarrow> Some (Rich_body mention body)
      | Some None \<Rightarrow> map_option Text_body (render_lines content radioName))"

definition hop_badge_shown :: "message \<Rightarrow> bool" where
  "hop_badge_shown msg \<longleftrightarrow> \<not> m_outgoing msg \<and> (case m_paths msg of Some paths \<Rightarrow> 0 < length paths | None \<Rightarrow> False)"

text \<open>\<^verbatim>\<open>HopCountBadge\<close>: its label, its title and its accessible name. The middle dot has code 183.\<close>

definition hop_badge :: "message_path list \<Rightarrow> bool \<Rightarrow> string \<times> string \<times> string" where
  "hop_badge paths showPathHopWidth =
     (let hopInfo = formatHopCounts (Some paths);
          widthLabel = (if showPathHopWidth then formatPathHopWidths (Some paths) else None)
      in (if truthy widthLabel then ''('' @ hc_display hopInfo @ '' '' @ [CHR 0xB7] @ '' '' @ the widthLabel @ '')''
          else ''('' @ hc_display hopInfo @ '')'',
          if truthy widthLabel then ''View message path ('' @ the widthLabel @ '' per hop)'' else ''View message path'',
          hc_display hopInfo @ (if truthy widthLabel then '', '' @ the widthLabel @ '' per hop'' else []) @ '', view path''))"

record selected_path =
  sp_paths :: "message_path list"
  sp_senderInfo :: sender_info
  sp_messageId :: "int option"
  sp_packetId :: "int opt"
  sp_isOutgoingChan :: "bool option"

definition openIncomingPath :: "message \<Rightarrow> row_contact \<Rightarrow> contact_lookup \<Rightarrow> selected_path" where
  "openIncomingPath msg props lookup =
     \<lparr> sp_paths = coalesce (m_paths msg) [],
       sp_senderInfo = resolveSenderInfo lookup msg (or_value (directSenderName msg props) (fst (row_sender msg))),
       sp_messageId = Some (m_id msg), sp_packetId = m_packet_id msg, sp_isOutgoingChan = None \<rparr>"

definition selfSenderInfo :: "radio_config option \<Rightarrow> sender_info" where
  "selfSenderInfo config =
     (case config of
        None \<Rightarrow> unknownSenderInfo ''Unknown'' []
      | Some cfg \<Rightarrow>
          \<lparr> si_name = or_else (Some (rc_name cfg)) ''Unknown'', si_publicKeyOrPrefix = rc_public_key cfg,
            si_lat = Some (rc_lat cfg), si_lon = Some (rc_lon cfg), si_pathHashMode = Val (rc_path_hash_mode cfg) \<rparr>)"

text \<open>The marks behind a message of one's own. A mark that can be pressed carries what it opens; the
  tick has the number of echoes behind it where there are several.\<close>

datatype row_mark =
    Mark_pending
  | Mark_acked "nat option" "selected_path option"
  | Mark_unheard "selected_path option"

definition row_marks :: "message \<Rightarrow> sender_info \<Rightarrow> bool \<Rightarrow> row_mark list" where
  "row_marks msg self canResendChannel =
     (let pending = (m_pending msg = Some True);
          acked = (if 1 < m_acked msg then Some (m_acked msg) else None)
      in (if pending then [Mark_pending] else [])
         @ (if m_outgoing msg \<and> \<not> pending then
              [if 0 < m_acked msg then
                 (case m_paths msg of
                    Some paths \<Rightarrow>
                      if 0 < length paths
                      then Mark_acked acked (Some \<lparr> sp_paths = paths, sp_senderInfo = self, sp_messageId = Some (m_id msg),
                             sp_packetId = m_packet_id msg, sp_isOutgoingChan = Some (m_type msg = CHAN \<and> canResendChannel) \<rparr>)
                      else Mark_acked acked None
                  | None \<Rightarrow> Mark_acked acked None)
               else if canResendChannel \<and> m_type msg = CHAN
               then Mark_unheard (Some \<lparr> sp_paths = [], sp_senderInfo = self, sp_messageId = Some (m_id msg),
                      sp_packetId = m_packet_id msg, sp_isOutgoingChan = Some True \<rparr>)
               else Mark_unheard None]
            else []))"

section \<open>Reactions\<close>

definition picker_shown :: "message \<Rightarrow> bool \<Rightarrow> bool \<Rightarrow> bool" where
  "picker_shown msg canReact renderRichPayloads \<longleftrightarrow> canReact \<and> renderRichPayloads \<and> m_sender_timestamp msg \<noteq> None"

definition reaction_payload :: "message \<Rightarrow> string option \<Rightarrow> emoji \<Rightarrow> string option" where
  "reaction_payload msg radioName emoji =
     (let targetSender = (if m_type msg = CHAN then (case m_sender_name msg of Some n \<Rightarrow> Some n | None \<Rightarrow> radioName) else None)
      in encodeReaction emoji (the (m_sender_timestamp msg)) targetSender (m_text msg))"

text \<open>\<^verbatim>\<open>react\<close>: the picker closes, and a payload is sent; a failure is reported with the text of the error.\<close>

definition react :: "message \<Rightarrow> string option \<Rightarrow> emoji \<Rightarrow> bool \<times> string option" where
  "react msg radioName emoji = (False, or_null (reaction_payload msg radioName emoji))"

definition react_failure :: "string option \<Rightarrow> string \<times> string" where
  "react_failure errorMessage = (''Failed to send reaction'', coalesce errorMessage ''Check radio connection'')"

section \<open>The lookup is the search it replaces\<close>

lemma lookup_step_simps:
  "jm_get (cl_byKey (lookup_step l c)) k
    = (case jm_get (cl_byKey l) k of Some d \<Rightarrow> Some d | None \<Rightarrow> if ct_public_key c = k then Some c else None)"
  "jm_get (cl_byName (lookup_step l c)) n
    = (case jm_get (cl_byName l) n of Some d \<Rightarrow> Some d | None \<Rightarrow> if n \<noteq> [] \<and> ct_name c = Some n then Some c else None)"
  by (auto simp: lookup_step_def Let_def or_null_def truthy_iff jm_get_set jm_has_def split: option.splits)

lemma lookup_foldl:
  "jm_get (cl_byKey (foldl lookup_step l cs)) k
    = (case jm_get (cl_byKey l) k of Some d \<Rightarrow> Some d | None \<Rightarrow> find (\<lambda>c. ct_public_key c = k) cs)"
  "jm_get (cl_byName (foldl lookup_step l cs)) n
    = (case jm_get (cl_byName l) n of Some d \<Rightarrow> Some d | None \<Rightarrow> find (\<lambda>c. n \<noteq> [] \<and> ct_name c = Some n) cs)"
  by (induction cs arbitrary: l) (auto simp: lookup_step_simps split: option.splits)

lemma find_False: "find (\<lambda>x. False) xs = None"
  by (induction xs) auto

lemma lookup_byKey: "jm_get (cl_byKey (buildContactLookup cs)) k = find (\<lambda>c. ct_public_key c = k) cs"
  and lookup_byName: "jm_get (cl_byName (buildContactLookup cs)) n = (if n = [] then None else find (\<lambda>c. ct_name c = Some n) cs)"
  by (auto simp: buildContactLookup_def lookup_foldl find_False)

lemma find_in: "find P xs = Some x \<Longrightarrow> x \<in> set xs \<and> P x"
  by (auto simp: find_Some_iff)

lemma find_sender_in:
  assumes "find_sender msg (buildContactLookup cs) name = Some c"
  shows "c \<in> set cs \<and> (m_sender_key msg = Some (ct_public_key c) \<or> name = ct_name c)"
  using assms by (auto simp: find_sender_def lookup_byKey lookup_byName truthy_iff split: option.splits if_splits dest!: find_in)

section \<open>Groups hold one sender\<close>

lemma group_scan_length [simp]: "length (group_scan l k ms) = length ms"
  by (induction ms arbitrary: k) (auto simp: Let_def)

lemma group_scan_nth:
  "i < length ms \<Longrightarrow> group_scan l k ms ! i
    \<longleftrightarrow> Some (getSenderGroupKey (ms ! i) l) \<noteq> (if i = 0 then k else Some (getSenderGroupKey (ms ! (i - 1)) l))"
proof (induction ms arbitrary: i k)
  case (Cons m ms)
  show ?case
  proof (cases i)
    case (Suc j)
    with Cons.prems Cons.IH [of j "Some (getSenderGroupKey m l)"] show ?thesis by (cases j) (auto simp: Let_def)
  qed (simp add: Let_def)
qed simp

text \<open>Who sent a message of a channel, as far as it can be told: by key, by name, or only as this one message.\<close>

datatype identity = By_key string | By_name string | By_message int | Nobody | Oneself

definition channel_identity :: "message \<Rightarrow> identity" where
  "channel_identity msg =
     (if m_outgoing msg then Oneself
      else if truthy (m_sender_key msg) then By_key (the (m_sender_key msg))
      else if truthy (channelSenderName msg) then By_name (the (channelSenderName msg))
      else if isCorruptUnnamedChannelMessage msg (fst (row_sender msg)) then By_message (m_id msg)
      else Nobody)"

fun identity_key :: "identity \<Rightarrow> string" where
  "identity_key (By_key k) = ''key:'' @ k"
| "identity_key (By_name n) = ''name:'' @ n"
| "identity_key (By_message i) = ''corrupt:'' @ show_int i"
| "identity_key Nobody = ''__unknown__''"
| "identity_key Oneself = ''__outgoing__''"

lemma group_key_identity: "m_type msg = CHAN \<Longrightarrow> getSenderGroupKey msg l = identity_key (channel_identity msg)"
  by (auto simp: getSenderGroupKey_def channel_identity_def channelSenderName_def row_sender_def Let_def)

lemma show_int_inj:
  assumes "show_int i = show_int j"
  shows "i = j"
proof -
  have minus: "show_nat n \<noteq> CHR ''-'' # s" for n s
    using show_nat_no_dash [of n] by (metis list.set_intros(1))
  show ?thesis
    using assms minus [of "nat i"] minus [of "nat j"] minus [symmetric] by (auto simp: show_int_def split: if_splits)
qed

lemma identity_key_inj: "identity_key a = identity_key b \<Longrightarrow> a = b"
  by (cases a; cases b) (auto dest: show_int_inj)

lemma identity_key_inject: "identity_key a = identity_key b \<longleftrightarrow> a = b"
  by (auto intro: identity_key_inj simp del: identity_key.simps)

text \<open>The rows of a channel are grouped by their senders: a row starts a group, and so shows who sent it, exactly when it is
  the first or when its sender is another than that of the row above, told by key, else by name, else as one corrupt message. A
  message is never put under the name of someone else.\<close>

theorem group_starts_iff:
  assumes "list_all (\<lambda>m. m_type m = CHAN) ms" and "i < length ms"
  shows "groupStarts ms lookup ! i \<longleftrightarrow> i = 0 \<or> channel_identity (ms ! i) \<noteq> channel_identity (ms ! (i - 1))"
proof -
  have chan: "m_type (ms ! j) = CHAN" if "j < length ms" for j using assms(1) that unfolding list_all_length by blast
  have key: "getSenderGroupKey (ms ! j) lookup = identity_key (channel_identity (ms ! j))" if "j \<le> i" for j
    by (rule group_key_identity [OF chan]) (use that assms(2) in linarith)
  have "groupStarts ms lookup ! i \<longleftrightarrow> i = 0 \<or> getSenderGroupKey (ms ! i) lookup \<noteq> getSenderGroupKey (ms ! (i - 1)) lookup"
    unfolding groupStarts_def group_scan_nth [OF assms(2)] by (cases "i = 0") simp_all
  also have "\<dots> \<longleftrightarrow> i = 0 \<or> channel_identity (ms ! i) \<noteq> channel_identity (ms ! (i - 1))"
    by (simp only: key [OF order_refl] key [OF diff_le_self] identity_key_inject)
  finally show ?thesis .
qed

lemma group_starts_iff_witness:
  "groupStarts [sample_message, sample_message] (buildContactLookup []) ! 1 \<longleftrightarrow> False"
proof -
  have "list_all (\<lambda>m. m_type m = CHAN) [sample_message, sample_message]" by (simp add: sample_message_def)
  from group_starts_iff [OF this, of 1 "buildContactLookup []"] show ?thesis by simp
qed

section \<open>A row tells who wrote what\<close>

lemma sender_at_colon:
  assumes "parseSenderFromText s = (Some name, content)"
  shows "s = name @ '': '' @ content"
proof -
  from assms obtain i where i: "index_of s '': '' = Some i" "name = take i s" "content = drop (i + 2) s"
    by (auto simp: parseSenderFromText_def Let_def split: option.splits if_splits)
  from index_of_Some [OF i(1)] have "take 2 (drop i s) = '': ''" by (simp add: numeral_2_eq_2)
  then have "drop i s = '': '' @ drop (i + 2) s" by (metis append_take_drop_id drop_drop add.commute)
  then show ?thesis using i(2,3) by (metis append_take_drop_id)
qed



text \<open>Coordinates, and how wide the hops are, come from a contact or are absent.\<close>

definition honest :: "contact list \<Rightarrow> sender_info \<Rightarrow> bool" where
  "honest cs info \<longleftrightarrow>
     (si_lat info = None \<and> si_lon info = None \<and> si_pathHashMode info = Null)
     \<or> (\<exists>c \<in> set cs. info = senderInfoFromContact c (si_name info))"

lemma honest_unknown [simp]: "honest cs (unknownSenderInfo name k)"
  by (simp add: honest_def unknownSenderInfo_def)

lemma honest_contact [simp]: "c \<in> set cs \<Longrightarrow> honest cs (senderInfoFromContact c name)"
  by (auto simp: honest_def senderInfoFromContact_def)

lemma byName_in: "jm_get (cl_byName (buildContactLookup cs)) n = Some c \<Longrightarrow> c \<in> set cs"
  by (auto simp: lookup_byName dest: find_in split: if_splits)

lemma honest_parsed: "honest cs (parsed_sender_info msg p (buildContactLookup cs))"
  by (auto simp: parsed_sender_info_def dest: byName_in split: option.split)

lemma honest_channel: "honest cs (channel_sender_info msg p (buildContactLookup cs))"
  by (auto simp: channel_sender_info_def Let_def honest_parsed dest: find_sender_in split: option.split)

lemma dm_contact_in: "getDmContact msg (buildContactLookup cs) = Some c \<Longrightarrow> c \<in> set cs \<and> ct_public_key c = m_conversation_key msg"
  by (auto simp: getDmContact_def lookup_byKey dest: find_in split: if_splits)

lemma honest_sender: "honest cs (resolveSenderInfo (buildContactLookup cs) msg p)"
  by (auto simp: resolveSenderInfo_def getSenderInfo_def honest_parsed honest_channel
      dest: find_sender_in dm_contact_in split: option.split)

lemma channel_key_wins:
  assumes "m_type msg = CHAN" and "m_sender_key msg = Some (ct_public_key c)" and "ct_public_key c \<noteq> []" and "c \<in> set cs"
  shows "si_publicKeyOrPrefix (resolveSenderInfo (buildContactLookup cs) msg p) = ct_public_key c"
proof -
  from assms(4) obtain d where d: "find (\<lambda>e. ct_public_key e = ct_public_key c) cs = Some d"
    by (cases "find (\<lambda>e. ct_public_key e = ct_public_key c) cs") (auto simp: find_None_iff)
  then have "find_sender msg (buildContactLookup cs) n = Some d" for n using assms(2,3) by (simp add: find_sender_def lookup_byKey)
  moreover have "ct_public_key d = ct_public_key c" using find_in [OF d] by simp
  ultimately show ?thesis using assms(1)
    by (simp add: resolveSenderInfo_def getSenderInfo_def channel_sender_info_def senderInfoFromContact_def getDmContact_def Let_def
        split: option.split)
qed

text \<open>The sender that the path window takes for a message is not made up: where coordinates or a hop width are shown, they
  and the key are those of one listed contact; and where the message of a channel carries the key of a contact, that key is shown,
  whatever name stands in the text.\<close>

theorem sender_not_made_up:
  "honest contacts (resolveSenderInfo (buildContactLookup contacts) msg parsedSender) \<and>
   (\<forall>c \<in> set contacts. m_type msg = CHAN \<and> m_sender_key msg = Some (ct_public_key c) \<and> ct_public_key c \<noteq> [] \<longrightarrow>
      si_publicKeyOrPrefix (resolveSenderInfo (buildContactLookup contacts) msg parsedSender) = ct_public_key c)"
  using honest_sender channel_key_wins by blast

lemma sender_not_made_up_witness:
  "si_publicKeyOrPrefix (resolveSenderInfo (buildContactLookup [sample_contact])
     (sample_message \<lparr> m_sender_key := Some (ct_public_key sample_contact) \<rparr>) (Some ''Eve'')) = ct_public_key sample_contact"
proof -
  have "m_type (sample_message \<lparr> m_sender_key := k \<rparr>) = CHAN" for k by (simp add: sample_message_def)
  moreover have "ct_public_key sample_contact \<noteq> []" by (simp add: sample_contact_def)
  ultimately show ?thesis
    using sender_not_made_up [of "[sample_contact]" "sample_message \<lparr> m_sender_key := Some (ct_public_key sample_contact) \<rparr>" "Some ''Eve''"]
    by simp
qed

text \<open>An avatar that is shown can be pressed: its key is not empty.\<close>

lemma or_else_nonempty: "d \<noteq> [] \<Longrightarrow> or_else s d \<noteq> []"
  by (cases s) (auto simp: or_else_def)

lemma avatar_key_nonempty: "\<not> m_outgoing msg \<Longrightarrow> av_key (row_avatar msg props) \<noteq> []"
  by (simp add: row_avatar_def Let_def or_else_nonempty)

section \<open>What a reaction is hashed from\<close>

text \<open>The picker hashes the text as it is stored. In a channel that begins with the sender's name, so that the five characters come
  from the name, whatever was written; the other client hashes the first five characters of what was written.\<close>

lemma reaction_hashes_name:
  assumes "m_type msg = CHAN" and "m_sender_name msg = Some name" and "m_sender_timestamp msg = Some ts"
    and "m_text msg = name @ '': '' @ content" and "5 \<le> length name"
  shows "reaction_payload msg radioName emoji = encodeReaction emoji ts (Some name) name"
  using assms by (simp add: reaction_payload_def encodeReaction_def computeReactionHash_def Let_def)

end
