(* ===== verification/Message_List.thy ===== *)
theory Message_List
  imports Message_Rows "HOL-Library.Product_Lexorder"
begin

text \<open>
  The message list itself (\<^verbatim>\<open>components/MessageList.tsx\<close> from \<^verbatim>\<open>isPrependOf\<close> on): the order of the rows, where the view is
  scrolled to when the list changes, the jump to a message and to the first unread one, paging at the edges, the window in which
  a message of a channel can be sent again, and the analysis of stored packets. The virtualizer and the sizes of the page are
  arguments; what the code asks the virtualizer to do is a list of scroll commands.
\<close>

section \<open>Order and change\<close>

definition message_le :: "message \<Rightarrow> message \<Rightarrow> bool" where
  "message_le a b \<longleftrightarrow>
     (let d = int (m_received_at a) - int (m_received_at b) in (if d \<noteq> 0 then d else m_id a - m_id b) \<le> 0)"

definition sortedMessages :: "bool \<Rightarrow> message list \<Rightarrow> message list" where
  "sortedMessages preSorted messages = (if preSorted then messages else sort_by message_le messages)"

definition isPrependOf :: "message list \<Rightarrow> message list \<Rightarrow> bool" where
  "isPrependOf prev next \<longleftrightarrow>
     (let added = int (length next) - int (length prev) in
      0 < added \<and> 0 < length prev \<and> m_id (next ! nat added) = m_id (prev ! 0)
      \<and> m_id (next ! (length next - 1)) = m_id (prev ! (length prev - 1)))"

section \<open>Scrolling\<close>

definition TOP_SLOT_HEIGHT :: real where "TOP_SLOT_HEIGHT = 40"
definition BOTTOM_PADDING :: real where "BOTTOM_PADDING = 16"
definition EDGE_THRESHOLD :: real where "EDGE_THRESHOLD = 100"

datatype align = Align_start | Align_center | Align_end

record scroll_command =
  sc_index :: nat
  sc_align :: align
  sc_offset :: real

definition scrollToIndex :: "bool \<Rightarrow> int \<Rightarrow> align \<Rightarrow> real \<Rightarrow> scroll_command list" where
  "scrollToIndex virtualizer index align offset =
     (if index < 0 then []
      else if virtualizer then [\<lparr> sc_index = nat index, sc_align = align, sc_offset = offset \<rparr>] else [])"

definition scrollToEnd :: "bool \<Rightarrow> int \<Rightarrow> scroll_command list" where
  "scrollToEnd virtualizer lst = scrollToIndex virtualizer lst Align_end BOTTOM_PADDING"

record viewport =
  vp_scrollHeight :: real
  vp_scrollTop :: real
  vp_clientHeight :: real

definition isNearBottom :: "viewport option \<Rightarrow> bool" where
  "isNearBottom list =
     (case list of None \<Rightarrow> True | Some v \<Rightarrow> vp_scrollHeight v - vp_scrollTop v - vp_clientHeight v < EDGE_THRESHOLD)"

record list_state =
  ls_committed :: "message list"
  ls_atBottom :: bool
  ls_anchor :: "(int \<times> real) option"
  ls_scrolledTarget :: "int option"
  ls_highlighted :: "int option"
  ls_showScrollToBottom :: bool

definition list_init :: list_state where
  "list_init = \<lparr> ls_committed = [], ls_atBottom = True, ls_anchor = None, ls_scrolledTarget = None, ls_highlighted = None,
     ls_showScrollToBottom = False \<rparr>"

text \<open>An id of 0 counts as none, as \<^verbatim>\<open>!targetMessageId\<close> has it.\<close>

definition target_set :: "int option \<Rightarrow> bool" where
  "target_set target \<longleftrightarrow> target \<noteq> None \<and> target \<noteq> Some 0"

text \<open>The effect that keeps the view in place when the list has changed.\<close>

definition list_changed :: "bool \<Rightarrow> bool \<Rightarrow> int option \<Rightarrow> message list \<Rightarrow> list_state \<Rightarrow> scroll_command list \<times> list_state" where
  "list_changed virtualizer hasNewerMessages target rows st =
     (let prev = ls_committed st; st1 = st \<lparr> ls_committed := rows \<rparr>; lst = int (length rows) - 1 in
      if \<not> virtualizer \<or> lst < 0 then ([], st1)
      else
        (let targetPending = (target_set target \<and> ls_scrolledTarget st \<noteq> target) in
         if length prev = 0 then
           (if \<not> targetPending then (scrollToEnd virtualizer lst, st1 \<lparr> ls_atBottom := True \<rparr>) else ([], st1))
         else if isPrependOf prev rows then ([], st1)
         else if ls_atBottom st \<and> \<not> hasNewerMessages \<and> \<not> targetPending then
           (if m_id (rows ! nat lst) \<noteq> m_id (prev ! (length prev - 1)) \<or> lst \<noteq> int (length prev) - 1
            then scrollToEnd virtualizer lst else [], st1)
         else
           (case ls_anchor st of
              None \<Rightarrow> ([], st1)
            | Some (anchor, delta) \<Rightarrow>
                (case find_index (\<lambda>msg. m_id msg = anchor) rows of
                   None \<Rightarrow> ([], st1)
                 | Some nextIndex \<Rightarrow>
                     (if find_index (\<lambda>msg. m_id msg = anchor) prev \<noteq> Some nextIndex
                      then scrollToIndex virtualizer (int nextIndex) Align_start delta else [], st1)))))"

text \<open>The effect that jumps to a message; the second component tells whether \<^verbatim>\<open>onTargetReached\<close> was called.\<close>

definition target_effect :: "bool \<Rightarrow> int option \<Rightarrow> message list \<Rightarrow> list_state \<Rightarrow> scroll_command list \<times> bool \<times> list_state" where
  "target_effect virtualizer target rows st =
     (if \<not> target_set target then ([], False, st \<lparr> ls_scrolledTarget := None \<rparr>)
      else if ls_scrolledTarget st = target \<or> length rows = 0 then ([], False, st)
      else
        (case find_index (\<lambda>msg. Some (m_id msg) = target) rows of
           None \<Rightarrow> ([], False, st)
         | Some targetIndex \<Rightarrow>
             (scrollToIndex virtualizer (int targetIndex) Align_center 0, True,
              st \<lparr> ls_atBottom := False, ls_highlighted := target, ls_scrolledTarget := target \<rparr>)))"

text \<open>A commit with a new list runs both, in the order in which they are declared.\<close>

definition list_commit :: "bool \<Rightarrow> bool \<Rightarrow> int option \<Rightarrow> message list \<Rightarrow> list_state \<Rightarrow> scroll_command list \<times> list_state" where
  "list_commit virtualizer hasNewerMessages target rows st =
     (let (c1, st1) = list_changed virtualizer hasNewerMessages target rows st;
          (c2, _, st2) = target_effect virtualizer target rows st1
      in (c1 @ c2, st2))"

section \<open>The scroll handler\<close>

text \<open>The handle of the virtualizer: which row stands at an offset, and where a row begins.\<close>

record virtualizer =
  vz_findItemIndex :: "real \<Rightarrow> nat"
  vz_getItemOffset :: "nat \<Rightarrow> real"

record paging =
  pg_onLoadOlder :: bool
  pg_loadingOlder :: bool
  pg_hasOlder :: bool
  pg_onLoadNewer :: bool
  pg_loadingNewer :: bool
  pg_hasNewer :: bool

datatype page_call = Load_older | Load_newer

definition handleScroll :: "virtualizer option \<Rightarrow> viewport option \<Rightarrow> paging \<Rightarrow> real \<Rightarrow> message list \<Rightarrow> list_state \<Rightarrow> page_call list \<times> list_state" where
  "handleScroll handle list pg offset rows st =
     (let st1 = (case handle of
                   None \<Rightarrow> st
                 | Some h \<Rightarrow>
                     (let index = vz_findItemIndex h offset in
                      st \<lparr> ls_anchor := (if index < length rows
                              then Some (m_id (rows ! index), offset - TOP_SLOT_HEIGHT - vz_getItemOffset h index) else None) \<rparr>));
          nearBottom = isNearBottom list
      in ((if pg_onLoadOlder pg \<and> \<not> pg_loadingOlder pg \<and> pg_hasOlder pg \<and> offset < EDGE_THRESHOLD then [Load_older] else [])
          @ (if pg_onLoadNewer pg \<and> \<not> pg_loadingNewer pg \<and> pg_hasNewer pg \<and> nearBottom then [Load_newer] else []),
          st1 \<lparr> ls_atBottom := nearBottom, ls_showScrollToBottom := \<not> nearBottom \<rparr>))"

text \<open>The first component tells whether \<^verbatim>\<open>onJumpToBottom\<close> was called.\<close>

definition scrollToBottom :: "bool \<Rightarrow> bool \<Rightarrow> bool \<Rightarrow> message list \<Rightarrow> list_state \<Rightarrow> bool \<times> scroll_command list \<times> list_state" where
  "scrollToBottom virtualizer hasNewerMessages onJumpToBottom rows st =
     (if hasNewerMessages \<and> onJumpToBottom then (True, [], st)
      else (False, scrollToEnd virtualizer (int (length rows) - 1), st \<lparr> ls_atBottom := True \<rparr>))"

section \<open>The first unread message\<close>

definition unreadMarkerIndex :: "int option \<Rightarrow> message list \<Rightarrow> nat option" where
  "unreadMarkerIndex marker rows =
     (case marker of None \<Rightarrow> None | Some i \<Rightarrow> find_index (\<lambda>msg. m_id msg = i) rows)"

definition boundaryOutsideWindow :: "int option \<Rightarrow> message list \<Rightarrow> bool" where
  "boundaryOutsideWindow marker rows \<longleftrightarrow> marker \<noteq> None \<and> unreadMarkerIndex marker rows = None"

record rect =
  rt_top :: real
  rt_bottom :: real
  rt_left :: real
  rt_right :: real
  rt_width :: real
  rt_height :: real

text \<open>Whether the button is offered: the boxes of the marker and the list, where both are on the page.\<close>

definition syncJumpToUnreadVisibility :: "bool \<Rightarrow> int option \<Rightarrow> message list \<Rightarrow> (rect \<times> rect) option \<Rightarrow> bool" where
  "syncJumpToUnreadVisibility dismissed marker rows boxes =
     (if dismissed then False
      else if boundaryOutsideWindow marker rows then True
      else if unreadMarkerIndex marker rows = None then False
      else
        (case boxes of
           None \<Rightarrow> True
         | Some (m, l) \<Rightarrow>
             if rt_width m = 0 \<or> rt_height m = 0 \<or> rt_width l = 0 \<or> rt_height l = 0 then True
             else \<not> (rt_top l \<le> rt_top m \<and> rt_bottom m \<le> rt_bottom l \<and> rt_left l \<le> rt_left m \<and> rt_right m \<le> rt_right l)))"

datatype jump =
    Navigate_to int
  | Into_view
  | Scroll_by_index "scroll_command list"

text \<open>A press on the button: what it does, and that the button is dismissed and hidden. \<^verbatim>\<open>rendered\<close> tells whether the marker
  is on the page; without a handler \<^verbatim>\<open>onNavigateToUnread?.\<close> does nothing.\<close>

definition jump_to_unread :: "bool \<Rightarrow> bool \<Rightarrow> bool \<Rightarrow> int option \<Rightarrow> message list \<Rightarrow> jump option \<times> bool \<times> bool" where
  "jump_to_unread virtualizer onNavigateToUnread rendered marker rows =
     (if boundaryOutsideWindow marker rows then (if onNavigateToUnread then Some (Navigate_to (the marker)) else None)
      else if rendered then Some Into_view
      else Some (Scroll_by_index (scrollToIndex virtualizer
             (case unreadMarkerIndex marker rows of Some i \<Rightarrow> int i | None \<Rightarrow> -1) Align_center 0)),
      True, False)"

text \<open>The other button only dismisses it; a marker at another index brings the offer back.\<close>

definition dismiss_jump :: "bool \<times> bool" where
  "dismiss_jump = (True, False)"

definition jump_reset :: "nat option \<Rightarrow> nat option \<Rightarrow> bool \<Rightarrow> bool" where
  "jump_reset old new dismissed = (if new \<noteq> old then False else dismissed)"

section \<open>Sending again\<close>

definition RESEND_WINDOW_SECONDS :: int where "RESEND_WINDOW_SECONDS = 30"

text \<open>The clock counts milliseconds. A timer is kept with the time at which it is due.\<close>

record resend_state =
  rs_ids :: "int jsset"
  rs_timers :: "(int, int) jsmap"

definition resend_remaining :: "int \<Rightarrow> message \<Rightarrow> int option" where
  "resend_remaining now msg =
     (if \<not> m_outgoing msg \<or> m_type msg \<noteq> CHAN then None
      else case m_sender_timestamp msg of
             None \<Rightarrow> None
           | Some ts \<Rightarrow>
               (let remaining = RESEND_WINDOW_SECONDS - (now div 1000 - int ts) in if remaining \<le> 0 then None else Some remaining))"

definition resend_scan :: "int \<Rightarrow> int jsset \<times> (int, int) jsmap \<Rightarrow> message \<Rightarrow> int jsset \<times> (int, int) jsmap" where
  "resend_scan now acc msg =
     (case resend_remaining now msg of
        None \<Rightarrow> acc
      | Some remaining \<Rightarrow>
          (js_add (m_id msg) (fst acc),
           if jm_has (snd acc) (m_id msg) then snd acc else jm_set (m_id msg) (now + remaining * 1000) (snd acc)))"

definition resend_effect :: "bool \<Rightarrow> int \<Rightarrow> message list \<Rightarrow> resend_state \<Rightarrow> resend_state" where
  "resend_effect canResend now messages st =
     (if \<not> canResend then st
      else
        (let (newResendable, timers) = foldl (resend_scan now) ([], rs_timers st) messages
         in \<lparr> rs_ids = (if length (rs_ids st) = length newResendable \<and> list_all (\<lambda>i. i \<in> set (rs_ids st)) newResendable
                         then rs_ids st else newResendable),
              rs_timers = timers \<rparr>))"

definition resend_cleanup :: "resend_state \<Rightarrow> resend_state" where
  "resend_cleanup st = st \<lparr> rs_timers := [] \<rparr>"

definition resend_expired :: "int \<Rightarrow> resend_state \<Rightarrow> resend_state" where
  "resend_expired i st = st \<lparr> rs_ids := filter (\<lambda>j. j \<noteq> i) (rs_ids st), rs_timers := jm_delete i (rs_timers st) \<rparr>"

definition isSelectedMessageResendable :: "selected_path option \<Rightarrow> resend_state \<Rightarrow> bool" where
  "isSelectedMessageResendable selected st \<longleftrightarrow>
     (case selected of
        None \<Rightarrow> False
      | Some sp \<Rightarrow> (case sp_messageId sp of None \<Rightarrow> False | Some i \<Rightarrow> i \<in> set (rs_ids st)))"

section \<open>Analysis of a stored packet\<close>

datatype inspector_source =
    Source_packet raw_packet
  | Source_loading string
  | Source_unavailable string

record analysis_state =
  an_cache :: "(int, raw_packet) jsmap"
  an_source :: "inspector_source option"
  an_signal :: "(int option \<times> real option) option"

definition first_signal :: "message \<Rightarrow> (int option \<times> real option) option" where
  "first_signal msg =
     (case m_paths msg of
        Some (p # ps) \<Rightarrow>
          (if nullish (mp_rssi p) \<noteq> None \<or> nullish (mp_snr p) \<noteq> None
           then Some (nullish (mp_rssi p), nullish (mp_snr p)) else None)
      | _ \<Rightarrow> None)"

definition NO_PACKET :: string where
  "NO_PACKET = ''No archival raw packet is available for this message, so packet analysis cannot be shown.''"

definition PURGED_PACKET :: string where
  "PURGED_PACKET = ''The archival raw packet for this message is no longer available. It may have been purged from Settings > Database, so only the stored message and merged route history remain.''"

text \<open>The second component is the packet that is asked for.\<close>

definition handleAnalyzePacket :: "message \<Rightarrow> analysis_state \<Rightarrow> analysis_state \<times> int option" where
  "handleAnalyzePacket msg st =
     (let st1 = st \<lparr> an_signal := first_signal msg \<rparr> in
      case nullish (m_packet_id msg) of
        None \<Rightarrow> (st1 \<lparr> an_source := Some (Source_unavailable NO_PACKET) \<rparr>, None)
      | Some p \<Rightarrow>
          (case jm_get (an_cache st) p of
             Some packet \<Rightarrow> (st1 \<lparr> an_source := Some (Source_packet packet) \<rparr>, None)
           | None \<Rightarrow> (st1 \<lparr> an_source := Some (Source_loading ''Loading packet analysis...'') \<rparr>, Some p)))"

definition packet_arrived :: "int \<Rightarrow> raw_packet \<Rightarrow> analysis_state \<Rightarrow> analysis_state" where
  "packet_arrived p packet st = st \<lparr> an_cache := jm_set p packet (an_cache st), an_source := Some (Source_packet packet) \<rparr>"

text \<open>A failure; the argument is the message where the failure is an error, and the toast, if any, comes second.\<close>

definition packet_failed :: "string option \<Rightarrow> analysis_state \<Rightarrow> analysis_state \<times> (string \<times> string) option" where
  "packet_failed errorMessage st =
     (let description = coalesce errorMessage ''Unknown error'';
          isMissing = (case errorMessage of Some m \<Rightarrow> str_includes (to_lower m) ''not found'' | None \<Rightarrow> False)
      in (st \<lparr> an_source := Some (Source_unavailable
                 (if isMissing then PURGED_PACKET else ''Could not load the archival raw packet for this message: '' @ description)) \<rparr>,
          if isMissing then None else Some (''Failed to load raw packet'', description)))"

definition inspector_closed :: "analysis_state \<Rightarrow> analysis_state" where
  "inspector_closed st = st \<lparr> an_source := None, an_signal := None \<rparr>"

text \<open>The button of the path window: the message is looked up again among those that are loaded.\<close>

definition analyze_selected :: "message list \<Rightarrow> selected_path \<Rightarrow> analysis_state \<Rightarrow> (analysis_state \<times> int option) option" where
  "analyze_selected messages sp st =
     (if nullish (sp_packetId sp) = None then None
      else Some (case find (\<lambda>entry. Some (m_id entry) = sp_messageId sp) messages of
                   Some msg \<Rightarrow> handleAnalyzePacket msg st
                 | None \<Rightarrow> (st, None)))"

section \<open>The view\<close>

record row_flag =
  rf_isFirstMessage :: bool
  rf_isFirstInGroup :: bool
  rf_showUnreadMarker :: bool
  rf_isHighlighted :: bool

definition row_flags :: "contact_lookup \<Rightarrow> int option \<Rightarrow> list_state \<Rightarrow> message list \<Rightarrow> nat \<Rightarrow> row_flag" where
  "row_flags lookup marker st rows index =
     \<lparr> rf_isFirstMessage = (index = 0), rf_isFirstInGroup = groupStarts rows lookup ! index,
       rf_showUnreadMarker = (unreadMarkerIndex marker rows = Some index),
       rf_isHighlighted = (ls_highlighted st = Some (m_id (rows ! index))) \<rparr>"

datatype list_shape =
    List_loading
  | List_empty
  | List_rows "string option" "message list" "string option"

definition list_view :: "bool \<Rightarrow> paging \<Rightarrow> message list \<Rightarrow> message list \<Rightarrow> list_shape" where
  "list_view loading pg messages rows =
     (if loading then List_loading
      else if length messages = 0 then List_empty
      else List_rows
        (if pg_loadingOlder pg then Some ''Loading older messages...''
         else if pg_hasOlder pg then Some ''Scroll up for older messages'' else None)
        rows
        (if pg_loadingNewer pg then Some ''Loading newer messages...''
         else if pg_hasNewer pg then Some ''Scroll down for newer messages'' else None))"

section \<open>The rows are in order\<close>

abbreviation row_key :: "message \<Rightarrow> nat \<times> int" where
  "row_key m \<equiv> (m_received_at m, m_id m)"

lemma message_le_key: "message_le a b \<longleftrightarrow> row_key a \<le> row_key b"
  by (auto simp: message_le_def Let_def)

lemma rows_sorted: "sorted (map row_key (sortedMessages False messages))"
proof -
  have "transp message_le" by (intro transpI) (auto simp: message_le_key)
  then have "sorted_wrt message_le (sort_by message_le messages)"
    by (rule sorted_sort_by) (simp only: message_le_key linear)
  moreover have "message_le = (\<lambda>a b. row_key a \<le> row_key b)" by (intro ext) (rule message_le_key)
  ultimately show ?thesis by (simp only: sortedMessages_def sorted_map if_False)
qed

lemma sorted_key_nth:
  assumes "sorted_wrt (<) (map row_key xs)" and "i < j" and "j < length xs"
  shows "row_key (xs ! i) < row_key (xs ! j)"
proof -
  have "map row_key xs ! i < map row_key xs ! j" by (rule sorted_wrt_nth_less [OF assms(1,2)]) (simp add: assms(3))
  moreover have "i < length xs" using assms(2,3) by simp
  ultimately show ?thesis using assms(3) by (simp only: nth_map)
qed

text \<open>Older history that was put in front is recognised.\<close>

lemma prepend_recognised: "older \<noteq> [] \<Longrightarrow> prev \<noteq> [] \<Longrightarrow> isPrependOf prev (older @ prev)"
  by (cases prev) (simp_all add: isPrependOf_def Let_def nth_append)

lemma map_id_key: "map m_id xs = map snd (map row_key xs)"
  by (simp add: comp_def)

text \<open>Recognising older history by its two ends is enough: between lists that are in strict order, where the new one still
  has every message of the old one and no id stands for two messages, the answer is yes exactly when the new list is the old one
  with rows in front; this is when the view must be left alone.\<close>

theorem isPrependOf_iff:
  assumes "sorted_wrt (<) (map row_key prev)" and "sorted_wrt (<) (map row_key next)" and "set prev \<subseteq> set next"
    and "distinct (map m_id next)" and "prev \<noteq> []"
  shows "isPrependOf prev next \<longleftrightarrow> (\<exists>older. older \<noteq> [] \<and> next = older @ prev)"
proof
  assume p: "isPrependOf prev next"
  define n where "n = length next - length prev"
  from p have n: "length prev < length next" "m_id (next ! n) = m_id (prev ! 0)"
    by (auto simp: isPrependOf_def Let_def n_def nat_diff_distrib)
  let ?tail = "drop n next"
  have tail: "length ?tail = length prev" using n(1) by (simp add: n_def)
  have d: "distinct next" using assms(4) by (simp add: distinct_map)
  have head: "next ! n = prev ! 0"
  proof -
    have "prev ! 0 \<in> set next" using assms(3,5) by (meson length_greater_0_conv nth_mem subsetD)
    moreover have "next ! n \<in> set next" using n(1) assms(5) by (intro nth_mem) (cases prev; simp add: n_def)
    ultimately show ?thesis using n(2) assms(4) by (meson distinct_map inj_onD)
  qed
  have "set prev \<subseteq> set ?tail"
  proof
    fix x assume x: "x \<in> set prev"
    then obtain i where i: "i < length prev" "prev ! i = x" by (meson in_set_conv_nth)
    from x assms(3) obtain j where j: "j < length next" "next ! j = x" by (meson in_set_conv_nth subsetD)
    have "row_key (prev ! 0) \<le> row_key x"
    proof (cases "i = 0")
      case False
      then have "row_key (prev ! 0) < row_key (prev ! i)"
        using sorted_key_nth [OF assms(1), of 0 i] i(1) by blast
      then show ?thesis unfolding i(2) by (rule less_imp_le)
    qed (use i in auto)
    moreover have "row_key (next ! j) < row_key (next ! n)" if "j < n"
      by (rule sorted_key_nth [OF assms(2) that]) (use n(1) assms(5) in \<open>cases prev; simp add: n_def\<close>)
    ultimately have "\<not> j < n" using j(2) head leD by metis
    then have "n \<le> j" by simp
    then have "?tail ! (j - n) = x" "j - n < length ?tail" using j by auto
    then show "x \<in> set ?tail" using nth_mem by blast
  qed
  moreover have "distinct prev" using assms(1) by (metis distinct_map strict_sorted_iff)
  moreover have "distinct ?tail" using d by simp
  ultimately have "set prev = set ?tail" using tail by (metis card_subset_eq distinct_card List.finite_set)
  then have "set (map row_key prev) = set (map row_key ?tail)" by simp
  moreover have "sorted_wrt (<) (map row_key ?tail)" using assms(2) by (metis drop_map sorted_wrt_drop)
  ultimately have "map row_key prev = map row_key ?tail" using assms(1) strict_sorted_equal by metis
  then have "map m_id prev = map m_id ?tail" by (simp only: map_id_key)
  moreover have "inj_on m_id (set prev \<union> set ?tail)"
    using assms(3,4) by (meson distinct_map inj_on_subset set_drop_subset Un_least)
  ultimately have "prev = ?tail" by (meson inj_on_map_eq_map)
  then have "next = take n next @ prev" by (metis append_take_drop_id)
  moreover have "take n next \<noteq> []" using n(1) assms(5) by (auto simp: n_def)
  ultimately show "\<exists>older. older \<noteq> [] \<and> next = older @ prev" by blast
next
  assume "\<exists>older. older \<noteq> [] \<and> next = older @ prev"
  then show "isPrependOf prev next" using prepend_recognised assms(5) by blast
qed

lemma isPrependOf_iff_witness:
  "isPrependOf [sample_message] [sample_message \<lparr> m_id := 3 \<rparr>, sample_message]"
proof -
  let ?a = "sample_message \<lparr> m_id := 3 \<rparr>" and ?b = sample_message
  have "isPrependOf [?b] [?a, ?b] \<longleftrightarrow> (\<exists>older. older \<noteq> [] \<and> [?a, ?b] = older @ [?b])"
    by (rule isPrependOf_iff) (auto simp: sample_message_def)
  then show ?thesis by (metis append_Cons append_Nil list.distinct(1))
qed

section \<open>Where the view stands\<close>

lemma find_index_in: "find_index P xs = Some i \<Longrightarrow> i < length xs"
  using find_index_Some [of P xs i] by simp

lemma scroll_in_range:
  assumes "rows \<noteq> []" and "c \<in> set (fst (list_commit virt newer target rows st))"
  shows "sc_index c < length rows"
  using assms
  by (auto simp: list_commit_def list_changed_def target_effect_def scrollToEnd_def scrollToIndex_def Let_def nat_less_iff
      split: if_splits option.splits prod.splits dest!: find_index_in)

definition viewing :: "int \<Rightarrow> message list \<Rightarrow> nat option" where
  "viewing anchor rows = find_index (\<lambda>msg. m_id msg = anchor) rows"

lemma list_changed_elsewhere:
  assumes "ls_committed st \<noteq> []" and "rows \<noteq> []" and "\<not> isPrependOf (ls_committed st) rows"
    and "\<not> (ls_atBottom st \<and> \<not> newer \<and> \<not> (target_set target \<and> ls_scrolledTarget st \<noteq> target))"
    and "ls_anchor st = Some (anchor, delta)"
  shows "list_changed True newer target rows st =
    ((case viewing anchor rows of
        Some i \<Rightarrow> if viewing anchor (ls_committed st) \<noteq> Some i then [\<lparr> sc_index = i, sc_align = Align_start, sc_offset = delta \<rparr>] else []
      | None \<Rightarrow> []), st \<lparr> ls_committed := rows \<rparr>)"
  using assms by (auto simp: list_changed_def Let_def viewing_def scrollToIndex_def split: option.split)



section \<open>A jump is made once\<close>

text \<open>What happens to a mounted list.\<close>

datatype list_event =
    Commit bool "message list"
  | Target_rerun "message list"
  | Scrolled "virtualizer option" "viewport option" paging real
  | To_bottom bool bool

definition list_step :: "int option \<Rightarrow> list_event \<Rightarrow> list_state \<Rightarrow> bool \<times> list_state" where
  "list_step target e st =
     (case e of
        Commit newer rows \<Rightarrow>
          (let (_, st1) = list_changed True newer target rows st; (_, reached, st2) = target_effect True target rows st1 in (reached, st2))
      | Target_rerun rows \<Rightarrow> (let (_, reached, st2) = target_effect True target rows st in (reached, st2))
      | Scrolled h v pg offset \<Rightarrow> (False, snd (handleScroll h v pg offset (ls_committed st) st))
      | To_bottom newer canJump \<Rightarrow> (False, snd (snd (scrollToBottom True newer canJump (ls_committed st) st))))"

fun jumps :: "int option \<Rightarrow> list_event list \<Rightarrow> list_state \<Rightarrow> nat" where
  "jumps target [] st = 0"
| "jumps target (e # es) st = (let (reached, st') = list_step target e st in (if reached then 1 else 0) + jumps target es st')"

lemma list_changed_target: "ls_scrolledTarget (snd (list_changed v newer target rows st)) = ls_scrolledTarget st"
  by (simp add: list_changed_def Let_def split: option.split)

lemma target_effect_once:
  assumes "target_set target"
  shows "fst (snd (target_effect v target rows st)) \<longrightarrow>
      ls_scrolledTarget st \<noteq> target \<and> ls_scrolledTarget (snd (snd (target_effect v target rows st))) = target"
    and "ls_scrolledTarget st = target \<longrightarrow> ls_scrolledTarget (snd (snd (target_effect v target rows st))) = target"
  using assms by (auto simp: target_effect_def split: option.split)

lemma handleScroll_target: "ls_scrolledTarget (snd (handleScroll h v pg offset rows st)) = ls_scrolledTarget st"
  by (simp add: handleScroll_def Let_def split: option.split)

lemma scrollToBottom_target: "ls_scrolledTarget (snd (snd (scrollToBottom v newer j rows st))) = ls_scrolledTarget st"
  by (simp add: scrollToBottom_def)

lemma list_step_once:
  assumes "target_set target" and "list_step target e st = (reached, st')"
  shows "reached \<Longrightarrow> ls_scrolledTarget st \<noteq> target \<and> ls_scrolledTarget st' = target"
    and "ls_scrolledTarget st = target \<Longrightarrow> \<not> reached \<and> ls_scrolledTarget st' = target"
proof -
  note once = target_effect_once [OF assms(1)]
  show "reached \<Longrightarrow> ls_scrolledTarget st \<noteq> target \<and> ls_scrolledTarget st' = target"
  proof (cases e)
    case (Commit newer rows)
    assume "reached"
    with assms(2) Commit once(1) [of True rows "snd (list_changed True newer target rows st)"] show ?thesis
      by (auto simp: list_step_def list_changed_target split: prod.splits)
  next
    case (Target_rerun rows)
    assume "reached"
    with assms(2) Target_rerun once(1) [of True rows st] show ?thesis by (auto simp: list_step_def split: prod.splits)
  qed (use assms(2) in \<open>auto simp: list_step_def\<close>)
  show "ls_scrolledTarget st = target \<Longrightarrow> \<not> reached \<and> ls_scrolledTarget st' = target"
  proof (cases e)
    case (Commit newer rows)
    assume "ls_scrolledTarget st = target"
    with assms(2) Commit once(1) [of True rows "snd (list_changed True newer target rows st)"]
      once(2) [of "snd (list_changed True newer target rows st)" True rows] show ?thesis
      by (auto simp: list_step_def list_changed_target split: prod.splits)
  next
    case (Target_rerun rows)
    assume "ls_scrolledTarget st = target"
    with assms(2) Target_rerun once(1) [of True rows st] once(2) [of st True rows] show ?thesis by (auto simp: list_step_def split: prod.splits)
  qed (use assms(2) in \<open>auto simp: list_step_def handleScroll_target scrollToBottom_target\<close>)
qed

lemma jumps_none: "target_set target \<Longrightarrow> ls_scrolledTarget st = target \<Longrightarrow> jumps target es st = 0"
proof (induction es arbitrary: st)
  case (Cons e es)
  obtain reached st' where e: "list_step target e st = (reached, st')" by fastforce
  from list_step_once(2) [OF Cons.prems(1) e Cons.prems(2)] Cons.IH [of st'] Cons.prems(1) e show ?case by simp
qed simp

text \<open>The jump to a message is made at most once for as long as it is the target, whatever the list, the reader and the
  handlers do in between: no later change of the list pulls the reader back to it.\<close>

theorem jump_at_most_once:
  assumes "target_set target"
  shows "jumps target es st \<le> 1"
proof (induction es arbitrary: st)
  case (Cons e es)
  obtain reached st' where e: "list_step target e st = (reached, st')" by fastforce
  show ?case
  proof (cases reached)
    case True
    then have "ls_scrolledTarget st' = target" using list_step_once(1) [OF assms e] by simp
    then have "jumps target es st' = 0" by (rule jumps_none [OF assms])
    then show ?thesis using e by simp
  qed (use e Cons.IH [of st'] in simp)
qed simp

lemma jump_at_most_once_witness:
  "jumps (Some 7) [Commit False [sample_message], Commit False [sample_message, sample_message]] list_init \<le> 1"
  by (rule jump_at_most_once) (simp add: target_set_def)

section \<open>The window in which a message can be sent again\<close>

definition in_channel :: "message \<Rightarrow> nat \<Rightarrow> bool" where
  "in_channel m t \<longleftrightarrow> m_outgoing m \<and> m_type m = CHAN \<and> m_sender_timestamp m = Some t"

lemma resend_remaining_Some:
  "resend_remaining now m = Some r \<longleftrightarrow> (\<exists>t. in_channel m t \<and> r = 30 - (now div 1000 - int t) \<and> 0 < r)"
  by (auto simp: resend_remaining_def in_channel_def Let_def RESEND_WINDOW_SECONDS_def split: option.splits)

lemma due_bounds:
  assumes "resend_remaining now m = Some r" and "in_channel m t"
  shows "(int t + 30) * 1000 \<le> now + r * 1000 \<and> now + r * 1000 < (int t + 31) * 1000"
proof -
  from assms have r: "r = 30 - (now div 1000 - int t)" by (auto simp: resend_remaining_Some in_channel_def)
  define q k where "q = now div 1000" and "k = now mod 1000"
  then have "now = 1000 * q + k" "0 \<le> k" "k < 1000" by simp_all
  then show ?thesis unfolding r q_def [symmetric] by (simp add: algebra_simps)
qed

lemma scan_ids:
  "set (fst (foldl (resend_scan now) acc ms)) = set (fst acc) \<union> {m_id m |m. m \<in> set ms \<and> resend_remaining now m \<noteq> None}"
  by (induction ms arbitrary: acc) (auto simp: resend_scan_def js_add_def split: option.splits if_splits)

lemma scan_distinct: "distinct (fst acc) \<Longrightarrow> distinct (fst (foldl (resend_scan now) acc ms))"
  by (induction ms arbitrary: acc) (auto simp: resend_scan_def js_add_def split: option.split)

lemma scan_timers:
  "jm_get (snd (foldl (resend_scan now) acc ms)) i =
    (case jm_get (snd acc) i of
       Some due \<Rightarrow> Some due
     | None \<Rightarrow> map_option (\<lambda>m. now + the (resend_remaining now m) * 1000)
                 (find (\<lambda>m. m_id m = i \<and> resend_remaining now m \<noteq> None) ms))"
proof (induction ms arbitrary: acc)
  case (Cons m ms)
  have "jm_get (snd (resend_scan now acc m)) i =
      (case jm_get (snd acc) i of
         Some due \<Rightarrow> Some due
       | None \<Rightarrow> if m_id m = i \<and> resend_remaining now m \<noteq> None then Some (now + the (resend_remaining now m) * 1000) else None)"
    by (auto simp: resend_scan_def jm_get_set jm_has_def split: option.splits)
  then show ?case by (auto simp: Cons.IH split: option.split)
qed (simp split: option.split)

lemma same_size_subset: "length xs = length ys \<Longrightarrow> distinct ys \<Longrightarrow> set ys \<subseteq> set xs \<Longrightarrow> set xs = set ys"
  by (metis List.finite_set card_length card_seteq distinct_card)

lemma effect_ids:
  "set (rs_ids (resend_effect True now ms st)) = {m_id m |m. m \<in> set ms \<and> resend_remaining now m \<noteq> None}"
proof -
  let ?new = "fst (foldl (resend_scan now) ([], rs_timers st) ms)"
  have "distinct ?new" by (rule scan_distinct) simp
  then have "set (if length (rs_ids st) = length ?new \<and> list_all (\<lambda>i. i \<in> set (rs_ids st)) ?new then rs_ids st else ?new) = set ?new"
    using same_size_subset [of "rs_ids st" ?new] by (auto simp: list_all_iff)
  then show ?thesis using scan_ids [of now "([], rs_timers st)" ms] by (simp add: resend_effect_def case_prod_unfold Let_def)
qed

lemma effect_timers:
  "jm_get (rs_timers (resend_effect True now ms (resend_cleanup st))) i =
    map_option (\<lambda>m. now + the (resend_remaining now m) * 1000) (find (\<lambda>m. m_id m = i \<and> resend_remaining now m \<noteq> None) ms)"
  using scan_timers [of now "([], [])" ms i] by (simp add: resend_effect_def resend_cleanup_def case_prod_unfold Let_def)

record resend_world =
  rw_now :: int
  rw_messages :: "message list"
  rw_state :: resend_state

text \<open>The list of a channel as time passes. The browser runs a timer when it is due or at most \<open>late\<close> milliseconds later.\<close>

inductive resend_reachable :: "nat \<Rightarrow> resend_world \<Rightarrow> bool" for late where
  resend_start: "distinct (map m_id ms) \<Longrightarrow>
    resend_reachable late \<lparr> rw_now = now, rw_messages = ms,
      rw_state = resend_effect True now ms (resend_cleanup \<lparr> rs_ids = [], rs_timers = [] \<rparr>) \<rparr>"
| resend_rerun: "resend_reachable late w \<Longrightarrow> distinct (map m_id ms) \<Longrightarrow>
    resend_reachable late (w \<lparr> rw_messages := ms, rw_state := resend_effect True (rw_now w) ms (resend_cleanup (rw_state w)) \<rparr>)"
| resend_tick: "resend_reachable late w \<Longrightarrow> 0 \<le> d \<Longrightarrow>
    (\<And>i due. jm_get (rs_timers (rw_state w)) i = Some due \<Longrightarrow> rw_now w + d \<le> due + int late) \<Longrightarrow>
    resend_reachable late (w \<lparr> rw_now := rw_now w + d \<rparr>)"
| resend_fire: "resend_reachable late w \<Longrightarrow> jm_get (rs_timers (rw_state w)) i = Some due \<Longrightarrow> due \<le> rw_now w \<Longrightarrow>
    resend_reachable late (w \<lparr> rw_state := resend_expired i (rw_state w) \<rparr>)"

definition timer_of :: "message list \<Rightarrow> int \<Rightarrow> int \<Rightarrow> bool" where
  "timer_of ms i due \<longleftrightarrow>
     (\<exists>m \<in> set ms. \<exists>t. m_id m = i \<and> in_channel m t \<and> (int t + 30) * 1000 \<le> due \<and> due < (int t + 31) * 1000)"

definition resend_inv :: "nat \<Rightarrow> resend_world \<Rightarrow> bool" where
  "resend_inv late w \<longleftrightarrow>
     distinct (map m_id (rw_messages w)) \<and>
     (\<forall>i \<in> set (rs_ids (rw_state w)). \<exists>due. jm_get (rs_timers (rw_state w)) i = Some due) \<and>
     (\<forall>i due. jm_get (rs_timers (rw_state w)) i = Some due \<longrightarrow>
        timer_of (rw_messages w) i due \<and> rw_now w \<le> due + int late) \<and>
     (\<forall>m \<in> set (rw_messages w). \<forall>t. in_channel m t \<and> rw_now w < (int t + 30) * 1000 \<longrightarrow> m_id m \<in> set (rs_ids (rw_state w)))"

lemma resend_inv_effect:
  assumes "distinct (map m_id ms)"
  shows "resend_inv late \<lparr> rw_now = now, rw_messages = ms, rw_state = resend_effect True now ms (resend_cleanup st) \<rparr>"
proof -
  let ?st = "resend_effect True now ms (resend_cleanup st)"
  have "\<exists>due. jm_get (rs_timers ?st) i = Some due" if "i \<in> set (rs_ids ?st)" for i
  proof -
    from that obtain m where "m \<in> set ms" "m_id m = i" "resend_remaining now m \<noteq> None" by (auto simp: effect_ids)
    then have "find (\<lambda>m. m_id m = i \<and> resend_remaining now m \<noteq> None) ms \<noteq> None" by (auto simp: find_None_iff)
    then show ?thesis by (auto simp: effect_timers)
  qed
  moreover have "timer_of ms i due \<and> now \<le> due + int late" if due: "jm_get (rs_timers ?st) i = Some due" for i due
  proof -
    from due obtain m where m: "find (\<lambda>m. m_id m = i \<and> resend_remaining now m \<noteq> None) ms = Some m"
      "due = now + the (resend_remaining now m) * 1000" by (auto simp: effect_timers)
    with find_in [OF m(1)] obtain r where r: "m \<in> set ms" "m_id m = i" "resend_remaining now m = Some r" by auto
    then obtain t where t: "in_channel m t" "0 < r" by (auto simp: resend_remaining_Some)
    with due_bounds [OF r(3) t(1)] r m(2) show ?thesis by (auto simp: timer_of_def)
  qed
  moreover have "m_id m \<in> set (rs_ids ?st)" if "m \<in> set ms" "in_channel m t" "now < (int t + 30) * 1000" for m t
  proof -
    have "now div 1000 < int t + 30" using that(3) by (simp add: div_less_iff_less_mult)
    then have "0 < 30 - (now div 1000 - int t)" by simp
    then have "resend_remaining now m \<noteq> None"
      using that(2) resend_remaining_Some [of now m "30 - (now div 1000 - int t)"] by auto
    then show ?thesis using that(1) by (auto simp: effect_ids)
  qed
  ultimately show ?thesis using assms unfolding resend_inv_def by (simp only: resend_world.simps) blast
qed

lemma resend_inv_fire:
  assumes "resend_inv late w" and "jm_get (rs_timers (rw_state w)) i = Some due" and "due \<le> rw_now w"
  shows "resend_inv late (w \<lparr> rw_state := resend_expired i (rw_state w) \<rparr>)"
proof -
  from assms(1,2) have "timer_of (rw_messages w) i due" unfolding resend_inv_def by blast
  then obtain m t where m: "m \<in> set (rw_messages w)" "m_id m = i" "in_channel m t" "(int t + 30) * 1000 \<le> due"
    unfolding timer_of_def by blast
  have other: "m_id m' \<noteq> i" if "m' \<in> set (rw_messages w)" "in_channel m' t'" "rw_now w < (int t' + 30) * 1000" for m' t'
  proof
    assume "m_id m' = i"
    then have "m' = m" using m(1,2) that(1) assms(1) by (auto simp: resend_inv_def distinct_map inj_on_def)
    then have "t' = t" using m(3) that(2) by (simp add: in_channel_def)
    then show False using m(4) assms(3) that(3) by simp
  qed
  show ?thesis using assms(1) other by (auto simp: resend_inv_def resend_expired_def jm_get_delete)
qed

lemma resend_inv_reachable: "resend_reachable late w \<Longrightarrow> resend_inv late w"
proof (induction rule: resend_reachable.induct)
  case (resend_rerun w ms)
  have "w \<lparr> rw_messages := ms, rw_state := s \<rparr> = \<lparr> rw_now = rw_now w, rw_messages = ms, rw_state = s \<rparr>" for s
    by (cases w) simp
  then show ?case by (simp only: resend_inv_effect [OF resend_rerun.hyps(2)])
next
  case (resend_tick w d)
  have "m_id m \<in> set (rs_ids (rw_state w))"
    if "m \<in> set (rw_messages w)" "in_channel m t" "rw_now w + d < (int t + 30) * 1000" for m t
  proof -
    have "rw_now w < (int t + 30) * 1000" using that(3) resend_tick.hyps(2) by linarith
    then show ?thesis using resend_tick.IH that(1,2) unfolding resend_inv_def by blast
  qed
  moreover have "rw_now (w \<lparr> rw_now := x \<rparr>) = x" "rw_messages (w \<lparr> rw_now := x \<rparr>) = rw_messages w"
    "rw_state (w \<lparr> rw_now := x \<rparr>) = rw_state w" for x by simp_all
  ultimately show ?case using resend_tick.IH resend_tick.hyps(3) unfolding resend_inv_def by (simp only:) blast
qed (auto intro: resend_inv_effect resend_inv_fire)

text \<open>C16. A message of one's own in a channel can be sent again for thirty seconds after its time stamp, and for less than one
  second longer than the timers of the browser are late: the clock is rounded down to seconds. However often the list changes in
  between and the timers are set anew, the offer is there all through the window and is withdrawn behind it.\<close>

theorem resend_window:
  assumes "resend_reachable late w" and "m \<in> set (rw_messages w)"
    and "m_outgoing m" and "m_type m = CHAN" and "m_sender_timestamp m = Some t"
  shows "(rw_now w < (int t + 30) * 1000 \<longrightarrow> m_id m \<in> set (rs_ids (rw_state w))) \<and>
         (m_id m \<in> set (rs_ids (rw_state w)) \<longrightarrow> rw_now w < (int t + 31) * 1000 + int late)"
proof -
  note inv = resend_inv_reachable [OF assms(1)]
  have m: "in_channel m t" using assms(3-5) by (simp add: in_channel_def)
  have "rw_now w < (int t + 31) * 1000 + int late" if "m_id m \<in> set (rs_ids (rw_state w))"
  proof -
    from inv that obtain due m' t' where due: "rw_now w \<le> due + int late" "due < (int t' + 31) * 1000"
      "m' \<in> set (rw_messages w)" "m_id m' = m_id m" "in_channel m' t'"
      by (fastforce simp: resend_inv_def timer_of_def)
    then have "m' = m" using assms(2) inv by (auto simp: resend_inv_def distinct_map inj_on_def)
    then have "t' = t" using m due(5) by (simp add: in_channel_def)
    then show ?thesis using due(1,2) by auto
  qed
  then show ?thesis using inv assms(2) m by (auto simp: resend_inv_def)
qed

definition sample_own :: message where
  "sample_own = sample_message \<lparr> m_outgoing := True, m_sender_timestamp := Some 100 \<rparr>"

lemma resend_window_witness:
  "7 \<in> set (rs_ids (resend_effect True 129999 [sample_own] (resend_cleanup \<lparr> rs_ids = [], rs_timers = [] \<rparr>)))"
proof -
  have "resend_reachable 0 \<lparr> rw_now = 129999, rw_messages = [sample_own],
      rw_state = resend_effect True 129999 [sample_own] (resend_cleanup \<lparr> rs_ids = [], rs_timers = [] \<rparr>) \<rparr>"
    by (rule resend_start) simp
  from resend_window [OF this, of sample_own 100] show ?thesis by (simp add: sample_own_def sample_message_def)
qed

section \<open>Packets are fetched once\<close>

datatype analysis_event =
    Analyze message
  | Packet_arrived int raw_packet
  | Packet_failed "string option"
  | Inspector_closed

text \<open>The state behind an event, and the packet that it asks for.\<close>

definition analysis_step :: "analysis_event \<Rightarrow> analysis_state \<Rightarrow> analysis_state \<times> int option" where
  "analysis_step e st =
     (case e of
        Analyze msg \<Rightarrow> handleAnalyzePacket msg st
      | Packet_arrived p packet \<Rightarrow> (packet_arrived p packet st, None)
      | Packet_failed err \<Rightarrow> (fst (packet_failed err st), None)
      | Inspector_closed \<Rightarrow> (inspector_closed st, None))"

fun requests :: "analysis_event list \<Rightarrow> analysis_state \<Rightarrow> int list" where
  "requests [] st = []"
| "requests (e # es) st = (let (st', r) = analysis_step e st in (case r of Some p \<Rightarrow> [p] | None \<Rightarrow> []) @ requests es st')"

lemma analysis_keeps_cache:
  "jm_get (an_cache st) p \<noteq> None \<Longrightarrow> jm_get (an_cache (fst (analysis_step e st))) p \<noteq> None"
  by (cases e) (auto simp: analysis_step_def handleAnalyzePacket_def packet_arrived_def packet_failed_def inspector_closed_def
      Let_def jm_get_set split: option.splits)

lemma analysis_asks_uncached: "snd (analysis_step e st) = Some p \<Longrightarrow> jm_get (an_cache st) p = None"
  by (cases e) (auto simp: analysis_step_def handleAnalyzePacket_def Let_def split: option.splits)

text \<open>A stored packet that has arrived once is kept for as long as the list is mounted: whatever is opened, closed or fails
  afterwards, it is never asked for again.\<close>

theorem packet_asked_once:
  "p \<notin> set (requests es (packet_arrived p packet st))"
proof -
  have "p \<notin> set (requests es st)" if "jm_get (an_cache st) p \<noteq> None" for st
    using that
  proof (induction es arbitrary: st)
    case (Cons e es)
    obtain st' r where e: "analysis_step e st = (st', r)" by fastforce
    have "p \<notin> set (requests es st')"
      using Cons.IH [of st'] analysis_keeps_cache [OF Cons.prems, of e] e by simp
    moreover have "r \<noteq> Some p" using analysis_asks_uncached [of e st p] e Cons.prems by auto
    ultimately show ?case using e by (auto split: option.splits)
  qed simp
  then show ?thesis by (simp add: packet_arrived_def jm_get_set)
qed

text \<open>A response is shown even when another message has been opened since, under the signal of that other message, and it opens
  the window again when the reader has closed it.\<close>

lemma late_packet_shown:
  assumes "nullish (m_packet_id a) = Some p" and "nullish (m_packet_id b) = Some q" and "jm_get (an_cache st) q = Some other"
    and "st' = packet_arrived p packet (fst (handleAnalyzePacket b (fst (handleAnalyzePacket a st))))"
  shows "an_source st' = Some (Source_packet packet) \<and> an_signal st' = first_signal b"
  using assms by (auto simp: handleAnalyzePacket_def packet_arrived_def Let_def split: option.split)

lemma late_packet_reopens:
  "an_source (packet_arrived p packet (inspector_closed st)) = Some (Source_packet packet)"
  by (simp add: packet_arrived_def)

end
