(* ===== verification/Message_Input.thy ===== *)
theory Message_Input
  imports Conversation_Actions Open_Payloads Text_Replace
begin

text \<open>
  The box in which a message is written (\<^verbatim>\<open>components/MessageInput.tsx\<close>): how many bytes the radio takes, what is sent when
  the form is submitted, what comes back into the box when a send fails, and the replacements made while one types. The last
  section puts the box in front of the actions that send.
\<close>

section \<open>Limits in bytes\<close>

definition DM_HARD_LIMIT :: int where "DM_HARD_LIMIT = 156"
definition DM_WARNING_THRESHOLD :: int where "DM_WARNING_THRESHOLD = 140"
definition CHANNEL_HARD_LIMIT :: int where "CHANNEL_HARD_LIMIT = 156"
definition CHANNEL_WARNING_THRESHOLD :: int where "CHANNEL_WARNING_THRESHOLD = 120"
definition CHANNEL_DANGER_BUFFER :: int where "CHANNEL_DANGER_BUFFER = 8"

definition RADIO_NO_RESPONSE_SNIPPET :: string where
  "RADIO_NO_RESPONSE_SNIPPET = ''no response was heard back''"

text \<open>UTF-8 takes one byte for a character below code 128, and two below code 2048.\<close>

definition char_bytes :: "char \<Rightarrow> int" where
  "char_bytes c = (if (of_char c :: nat) < 128 then 1 else 2)"

definition byteLen :: "string \<Rightarrow> int" where
  "byteLen s = sum_list (map char_bytes s)"

datatype limit_state = Limit_normal | Limit_warning | Limit_danger | Limit_error

record limits =
  li_warningAt :: int
  li_dangerAt :: int
  li_hardLimit :: int

definition limits_for :: "conversation_type option \<Rightarrow> string option \<Rightarrow> limits option" where
  "limits_for conversationType senderName =
     (if conversationType = Some Cv_contact then
        Some \<lparr> li_warningAt = DM_WARNING_THRESHOLD, li_dangerAt = DM_HARD_LIMIT, li_hardLimit = DM_HARD_LIMIT \<rparr>
      else if conversationType = Some Cv_channel then
        (let nameByteLen = (if truthy senderName then byteLen (the senderName) else 10);
             hardLimit = max 1 (CHANNEL_HARD_LIMIT - nameByteLen - 2)
         in Some \<lparr> li_warningAt = CHANNEL_WARNING_THRESHOLD, li_dangerAt = max 1 (hardLimit - CHANNEL_DANGER_BUFFER),
                   li_hardLimit = hardLimit \<rparr>)
      else None)"

definition limit_state_of :: "limits option \<Rightarrow> int \<Rightarrow> limit_state \<times> string option" where
  "limit_state_of lims textByteLen =
     (case lims of
        None \<Rightarrow> (Limit_normal, None)
      | Some l \<Rightarrow>
          if li_hardLimit l \<le> textByteLen then (Limit_error, Some ''likely truncated by radio'')
          else if li_dangerAt l \<le> textByteLen then (Limit_danger, Some ''may impact multi-repeater hop delivery'')
          else if li_warningAt l \<le> textByteLen then (Limit_warning, Some ''may impact multi-repeater hop delivery'')
          else (Limit_normal, None))"

definition limit_remaining :: "limits option \<Rightarrow> int \<Rightarrow> int" where
  "limit_remaining lims textByteLen = (case lims of Some l \<Rightarrow> li_hardLimit l - textByteLen | None \<Rightarrow> 0)"

text \<open>The counter: used and allowed bytes, and how far the text is over.\<close>

definition counter_text :: "limits \<Rightarrow> int \<Rightarrow> string" where
  "counter_text l textByteLen =
     show_int textByteLen @ ''/'' @ show_int (li_hardLimit l)
     @ (if limit_remaining (Some l) textByteLen < 0 then '' ('' @ show_int (limit_remaining (Some l) textByteLen) @ '')'' else [])"

text \<open>The two places of the counter: always on a wide screen; the number above a hundred characters, and the warning, on a narrow one.\<close>

definition mobile_counter :: "limits \<Rightarrow> string \<Rightarrow> string option \<times> string option" where
  "mobile_counter l text =
     (if 100 < length text then Some (counter_text l (byteLen text)) else None, snd (limit_state_of (Some l) (byteLen text)))"

section \<open>Sending and typing\<close>

text \<open>What is sent, if anything: a pasted link to a GIF goes out in its short form.\<close>

definition submit_payload :: "string \<Rightarrow> bool \<Rightarrow> string option" where
  "submit_payload text disabled =
     (let trimmed = trim text in
      if trimmed = [] \<or> disabled then None
      else Some (case gifIdFromInput trimmed of Some gifId \<Rightarrow> (if gifId \<noteq> [] then ''g:'' @ gifId else trimmed) | None \<Rightarrow> trimmed))"

text \<open>The text of the box afterwards, and what \<^verbatim>\<open>onSend\<close> is called with.\<close>

definition handleSubmit :: "bool \<Rightarrow> string \<Rightarrow> string \<times> string option" where
  "handleSubmit disabled text =
     (case submit_payload text disabled of None \<Rightarrow> (text, None) | Some payload \<Rightarrow> ([], Some payload))"

definition send_failed_toast :: "string option \<Rightarrow> string \<times> string" where
  "send_failed_toast errorMessage =
     (let isRadioNoResponse =
            (case errorMessage of Some m \<Rightarrow> str_includes (to_lower m) RADIO_NO_RESPONSE_SNIPPET | None \<Rightarrow> False)
      in (if isRadioNoResponse then ''Radio did not confirm send'' else ''Failed to send message'',
          coalesce errorMessage ''Check radio connection''))"

definition send_failed :: "string \<Rightarrow> string \<Rightarrow> string" where
  "send_failed payload text = (if text \<noteq> [] then text else payload)"

definition appendText :: "string \<Rightarrow> string \<Rightarrow> string" where
  "appendText appended text = text @ appended"

text \<open>An edit of the box. The second component is where the cursor is put back; \<open>None\<close> as a whole is a scan that does not end.\<close>

definition handleChange ::
  "bool \<Rightarrow> bool \<Rightarrow> (string \<times> string) list option \<Rightarrow> string \<Rightarrow> nat option \<Rightarrow> (string \<times> int option) option" where
  "handleChange composing enabled entries raw selectionStart =
     (if composing then Some (raw, None)
      else if enabled then
        (case applyTextReplacements entries raw (coalesce selectionStart (length raw)) of
           None \<Rightarrow> None
         | Some (Some (t, pos)) \<Rightarrow> Some (t, Some pos)
         | Some None \<Rightarrow> Some (raw, None))
      else Some (raw, None))"

datatype input_key = Key_enter bool | Key_other

text \<open>A key: whether the form is submitted. Shift and Enter is a new line.\<close>

definition handleKeyDown :: "input_key \<Rightarrow> bool" where
  "handleKeyDown key = (case key of Key_enter shift \<Rightarrow> \<not> shift | Key_other \<Rightarrow> False)"

definition canSubmit :: "string \<Rightarrow> bool" where
  "canSubmit text \<longleftrightarrow> 0 < length (trim text)"

section \<open>The limits are those of the packet\<close>

lemma byteLen_append [simp]: "byteLen (s @ t) = byteLen s + byteLen t"
  by (simp add: byteLen_def)

lemma byteLen_nonneg: "0 \<le> byteLen s"
  by (induction s) (auto simp: byteLen_def char_bytes_def)

lemma byteLen_bounds: "int (length s) \<le> byteLen s \<and> byteLen s \<le> 2 * int (length s)"
  by (induction s) (auto simp: byteLen_def char_bytes_def)

fun limit_rank :: "limit_state \<Rightarrow> nat" where
  "limit_rank Limit_normal = 0"
| "limit_rank Limit_warning = 1"
| "limit_rank Limit_danger = 2"
| "limit_rank Limit_error = 3"

text \<open>The states in the order of their severity.\<close>

instantiation limit_state :: linorder
begin

definition less_eq_limit_state :: "limit_state \<Rightarrow> limit_state \<Rightarrow> bool" where
  "less_eq_limit_state a b \<longleftrightarrow> limit_rank a \<le> limit_rank b"

definition less_limit_state :: "limit_state \<Rightarrow> limit_state \<Rightarrow> bool" where
  "less_limit_state a b \<longleftrightarrow> limit_rank a < limit_rank b"

instance
proof
  fix a b :: limit_state
  assume "a \<le> b" "b \<le> a"
  then show "a = b" by (cases a; cases b) (simp_all add: less_eq_limit_state_def)
qed (auto simp: less_eq_limit_state_def less_limit_state_def)

end

lemma limit_state_mono: "a \<le> b \<Longrightarrow> fst (limit_state_of l a) \<le> fst (limit_state_of l b)"
  by (cases l) (auto simp: limit_state_of_def less_eq_limit_state_def)

text \<open>The counter turns to an error exactly when the packet would reach 156 bytes: in a direct chat the text alone, in a channel
  the text behind the sender's name and the separator, whose bytes are counted as well. Typing on never lowers the state.\<close>

theorem limit_is_packet:
  assumes "name \<noteq> []" and "byteLen name \<le> 153"
  shows "(fst (limit_state_of (limits_for (Some Cv_channel) (Some name)) (byteLen t)) = Limit_error \<longleftrightarrow> 156 \<le> byteLen (name @ '': '' @ t)) \<and>
         (fst (limit_state_of (limits_for (Some Cv_contact) sender) (byteLen t)) = Limit_error \<longleftrightarrow> 156 \<le> byteLen t) \<and>
         fst (limit_state_of (limits_for kind sender) (byteLen t)) \<le> fst (limit_state_of (limits_for kind sender) (byteLen (t @ u)))"
proof -
  have "byteLen '': '' = 2" by (simp add: byteLen_def char_bytes_def)
  then have "byteLen (name @ '': '' @ t) = byteLen name + 2 + byteLen t" by (simp only: byteLen_append)
  moreover have "limits_for (Some Cv_channel) (Some name)
      = Some \<lparr> li_warningAt = 120, li_dangerAt = max 1 (154 - byteLen name - 8), li_hardLimit = 154 - byteLen name \<rparr>"
    using assms by (simp add: limits_for_def Let_def CHANNEL_HARD_LIMIT_def CHANNEL_WARNING_THRESHOLD_def CHANNEL_DANGER_BUFFER_def)
  ultimately have "fst (limit_state_of (limits_for (Some Cv_channel) (Some name)) (byteLen t)) = Limit_error
      \<longleftrightarrow> 156 \<le> byteLen (name @ '': '' @ t)"
    by (simp add: limit_state_of_def split del: if_split) (auto split: if_splits)
  moreover have "fst (limit_state_of (limits_for (Some Cv_contact) sender) (byteLen t)) = Limit_error \<longleftrightarrow> 156 \<le> byteLen t"
    by (auto simp: limits_for_def limit_state_of_def DM_HARD_LIMIT_def)
  ultimately show ?thesis using limit_state_mono [of "byteLen t" "byteLen (t @ u)"] byteLen_nonneg [of u] by simp
qed

lemma limit_is_packet_witness:
  "fst (limit_state_of (limits_for (Some Cv_channel) (Some ''Bob'')) (byteLen (replicate 151 CHR ''x''))) = Limit_error"
proof -
  have "byteLen (replicate n CHR ''x'') = int n" for n by (induction n) (auto simp: byteLen_def char_bytes_def)
  moreover have "byteLen ''Bob: '' = 5" "byteLen ''Bob'' \<le> 153" by (simp_all add: byteLen_def char_bytes_def)
  ultimately show ?thesis
    using limit_is_packet [of "''Bob''" "replicate 151 CHR ''x''"] byteLen_append [of "''Bob: ''" "replicate 151 CHR ''x''"] by simp
qed

section \<open>A send that failed can be repeated\<close>

lemma trim_ends:
  assumes "trim s \<noteq> []"
  shows "\<not> is_ws (hd (trim s)) \<and> \<not> is_ws (last (trim s))"
proof -
  let ?a = "dropWhile is_ws s"
  let ?b = "dropWhile is_ws (rev ?a)"
  have b: "?b \<noteq> []" "trim s = rev ?b" using assms by (auto simp: trim_def)
  have "\<not> is_ws (hd ?b)" using b(1) by (rule hd_dropWhile)
  moreover have "\<not> is_ws (last ?b)"
  proof -
    have "?a \<noteq> []"
    proof
      assume "?a = []"
      with b(1) show False by (simp only: rev.simps dropWhile.simps)
    qed
    moreover have "last ?b = last (rev ?a)" using b(1) by (metis last_appendR takeWhile_dropWhile_id)
    ultimately show ?thesis using hd_dropWhile [of is_ws s] by (simp add: last_rev)
  qed
  ultimately show ?thesis using b by (simp add: hd_rev last_rev)
qed

lemma trim_trim [simp]: "trim (trim s) = trim s"
proof (cases "trim s = []")
  case True
  then show ?thesis unfolding True by (simp add: trim_def)
next
  case False
  then show ?thesis using trim_ends [OF False] by (intro trim_id) auto
qed

definition gif_id :: "string \<Rightarrow> bool" where
  "gif_id i \<longleftrightarrow> i \<noteq> [] \<and> list_all gif_char i"

lemma gif_run: "takeWhile gif_char s \<noteq> [] \<Longrightarrow> gif_id (takeWhile gif_char s)"
  by (auto simp: gif_id_def list_all_iff dest: set_takeWhileD)

lemma gif_parse: "parseGif t = Some i \<Longrightarrow> gif_id i"
  by (auto simp: parseGif_def Let_def gif_id_def split: if_splits)

lemma gif_media: "giphy_media t = Some i \<Longrightarrow> gif_id i"
  by (auto simp: giphy_media_def media_id_def Let_def intro: gif_run split: option.splits if_splits)

lemma gif_last_dash:
  assumes "gif_id run"
  shows "gif_id (after_last_dash run)"
proof -
  have "set (after_last_dash run) \<subseteq> set run"
    using assms by (auto simp: after_last_dash_def gif_id_def dest!: set_takeWhileD list.set_sel(2) [rotated])
  then show ?thesis using assms by (auto simp: gif_id_def list_all_iff after_last_dash_def)
qed

lemma gif_page: "giphy_page t = Some i \<Longrightarrow> gif_id i"
  by (auto simp: giphy_page_def Let_def intro!: gif_last_dash gif_run split: option.splits if_splits)

lemma gif_input: "gifIdFromInput t = Some i \<Longrightarrow> gif_id i"
  by (auto simp: gifIdFromInput_def Let_def dest: gif_parse gif_media gif_page split: option.splits)

lemma gif_char_plain: "gif_char c \<Longrightarrow> \<not> is_ws c"
  by (auto simp: gif_char_def is_ws_def Let_def)

lemma gif_short_form:
  assumes "gif_id i"
  shows "trim (''g:'' @ i) = ''g:'' @ i \<and> gifIdFromInput (''g:'' @ i) = Some i"
proof -
  have "\<not> is_ws (last i)" using assms gif_char_plain by (auto simp: gif_id_def list_all_iff)
  then have t: "trim (''g:'' @ i) = ''g:'' @ i" using assms by (intro trim_id) (auto simp: gif_id_def is_ws_def)
  then have "parseGif (''g:'' @ i) = Some i" using assms by (simp add: parseGif_def Let_def gif_id_def starts_with_def)
  then show ?thesis using t by (simp add: gifIdFromInput_def Let_def)
qed

text \<open>What is sent is what was written without the white space around it, or the short form of a GIF, and never nothing. When
  the send fails and nothing has been written since, the box holds it again, and submitting once more sends the very same text; what
  has been written since stays.\<close>

theorem retry_sends_same:
  assumes "handleSubmit False t = (rest, Some payload)"
  shows "rest = [] \<and> payload \<noteq> [] \<and> (payload = trim t \<or> (\<exists>i. gifIdFromInput t = Some i \<and> payload = ''g:'' @ i)) \<and>
    handleSubmit False (send_failed payload []) = ([], Some payload) \<and> (\<forall>u. u \<noteq> [] \<longrightarrow> send_failed payload u = u)"
proof -
  have sub: "submit_payload t False = Some payload" "rest = []"
    using assms by (auto simp: handleSubmit_def split: option.splits)
  have again: "payload \<noteq> [] \<and> (payload = trim t \<or> (\<exists>i. gifIdFromInput t = Some i \<and> payload = ''g:'' @ i)) \<and>
      submit_payload payload False = Some payload"
  proof (cases "gifIdFromInput (trim t)")
    case None
    then have "payload = trim t" "trim t \<noteq> []" using sub(1) by (auto simp: submit_payload_def Let_def split: if_splits)
    then show ?thesis using None by (simp add: submit_payload_def Let_def)
  next
    case (Some i)
    then have i: "gif_id i" by (rule gif_input)
    then have p: "payload = ''g:'' @ i" using sub(1) Some by (auto simp: submit_payload_def Let_def gif_id_def split: if_splits)
    have "gifIdFromInput t = Some i" using Some by (simp add: gifIdFromInput_def)
    moreover have "submit_payload payload False = Some payload"
      using gif_short_form [OF i] i by (simp add: p submit_payload_def Let_def gif_id_def)
    ultimately show ?thesis using p by simp
  qed
  then show ?thesis using sub(2) by (simp add: send_failed_def handleSubmit_def)
qed

lemma retry_sends_same_witness:
  "handleSubmit False (send_failed ''hi'' []) = ([], Some ''hi'')"
proof -
  have "handleSubmit False '' hi '' = ([], Some ''hi'')" by code_simp
  from retry_sends_same [OF this] show ?thesis by blast
qed

text \<open>A text that failed while the next one was being written is not put back.\<close>

lemma failed_text_dropped: "send_failed ''one'' ''two'' = ''two''"
  by (simp add: send_failed_def)

end
