(* ===== verification/App_Settings.thy ===== *)
theory App_Settings
  imports Realtime_Events Api_Client Preferences
begin

text \<open>
  The settings that the server keeps (\<^verbatim>\<open>hooks/useAppSettings.ts\<close>): loading and saving, the four lists that are changed on the
  page before the server has answered, and the move of the favourites that older versions kept in the browser. The endpoints that
  toggle an entry of a list (\<^verbatim>\<open>app/repository/settings.py\<close>, \<^verbatim>\<open>app/routers/settings.py\<close>) are modelled as well, so that what the
  page shows ahead of the answer can be compared with it.
\<close>

section \<open>The settings\<close>

record app_settings =
  as_max_radio_contacts :: int
  as_auto_decrypt_dm_on_advert :: bool
  as_last_message_times :: "(string, nat) jsmap"
  as_advert_interval :: int
  as_last_advert_time :: int
  as_flood_scope :: string
  as_known_regions :: "string list"
  as_blocked_keys :: "string list"
  as_blocked_names :: "string list"
  as_discovery_blocked_types :: "int list"
  as_tracked_telemetry_repeaters :: "string list"
  as_tracked_telemetry_contacts :: "string list"
  as_auto_resend_channel :: bool
  as_telemetry_interval_hours :: int
  as_telemetry_routed_hourly :: bool
  as_ollama_enabled :: bool
  as_ollama_base_url :: string
  as_ollama_model :: string
  as_send_gap_seconds :: real

definition settings_default :: app_settings where
  "settings_default =
     \<lparr> as_max_radio_contacts = 200, as_auto_decrypt_dm_on_advert = False, as_last_message_times = [], as_advert_interval = 0,
       as_last_advert_time = 0, as_flood_scope = [], as_known_regions = [], as_blocked_keys = [], as_blocked_names = [],
       as_discovery_blocked_types = [], as_tracked_telemetry_repeaters = [], as_tracked_telemetry_contacts = [],
       as_auto_resend_channel = False, as_telemetry_interval_hours = 8, as_telemetry_routed_hourly = False,
       as_ollama_enabled = False, as_ollama_base_url = [], as_ollama_model = [], as_send_gap_seconds = 0 \<rparr>"

text \<open>What the hook keeps: the settings, whether the favourites have been moved, and a log of the toasts.\<close>

record settings_state =
  se_settings :: "app_settings option"
  se_hasMigrated :: bool
  se_toasts :: "string list"

definition settings_toast :: "string \<Rightarrow> settings_state \<Rightarrow> settings_state" where
  "settings_toast t s = s\<lparr> se_toasts := se_toasts s @ [t] \<rparr>"

text \<open>The second component is what \<^verbatim>\<open>initLastMessageTimes\<close> is called with.\<close>

definition fetchAppSettings ::
  "thrown + app_settings \<Rightarrow> app_settings prefetch_store \<Rightarrow> settings_state \<Rightarrow>
     settings_state \<times> (string, nat) jsmap option \<times> app_settings prefetch_store" where
  "fetchAppSettings answer store s =
     (case takePrefetchOrFetch ''settings'' answer store of
        (Inr data, store') \<Rightarrow> (s\<lparr> se_settings := Some data \<rparr>, Some (as_last_message_times data), store')
      | (Inl err, store') \<Rightarrow> (s, None, store'))"

text \<open>Saving throws to the caller when the update fails; otherwise the settings are read again.\<close>

definition handleSaveAppSettings ::
  "thrown + unit \<Rightarrow> thrown + app_settings \<Rightarrow> app_settings prefetch_store \<Rightarrow> settings_state \<Rightarrow> thrown option \<times> settings_state" where
  "handleSaveAppSettings updated answer store s =
     (case updated of
        Inl err \<Rightarrow> (Some err, s)
      | Inr _ \<Rightarrow> (None, fst (fetchAppSettings answer store s)))"

section \<open>Toggles ahead of the answer\<close>

definition toggled :: "string \<Rightarrow> string list \<Rightarrow> string list" where
  "toggled k current = (let was = k \<in> set current in if was then filter (\<lambda>x. x \<noteq> k) current else current @ [k])"

definition blockedKey_optimistic :: "string \<Rightarrow> settings_state \<Rightarrow> settings_state" where
  "blockedKey_optimistic key s =
     s\<lparr> se_settings := map_option (\<lambda>prev. prev\<lparr> as_blocked_keys := toggled (to_lower key) (as_blocked_keys prev) \<rparr>) (se_settings s) \<rparr>"

definition blockedName_optimistic :: "string \<Rightarrow> settings_state \<Rightarrow> settings_state" where
  "blockedName_optimistic name s =
     s\<lparr> se_settings := map_option (\<lambda>prev. prev\<lparr> as_blocked_names := toggled name (as_blocked_names prev) \<rparr>) (se_settings s) \<rparr>"

definition trackedTelemetry_optimistic :: "string \<Rightarrow> settings_state \<Rightarrow> settings_state" where
  "trackedTelemetry_optimistic publicKey s =
     s\<lparr> se_settings := map_option (\<lambda>prev. prev\<lparr> as_tracked_telemetry_repeaters :=
          toggled (to_lower publicKey) (as_tracked_telemetry_repeaters prev) \<rparr>) (se_settings s) \<rparr>"

definition trackedContact_optimistic :: "string \<Rightarrow> settings_state \<Rightarrow> settings_state" where
  "trackedContact_optimistic publicKey s =
     s\<lparr> se_settings := map_option (\<lambda>prev. prev\<lparr> as_tracked_telemetry_contacts :=
          toggled (to_lower publicKey) (as_tracked_telemetry_contacts prev) \<rparr>) (se_settings s) \<rparr>"

text \<open>The answer to a block toggle is all settings. A failure is reported and the settings are read again; what is returned
  comes first.\<close>

definition block_settled ::
  "string \<Rightarrow> thrown + app_settings \<Rightarrow> thrown + app_settings \<Rightarrow> settings_state \<Rightarrow> app_settings option \<times> settings_state" where
  "block_settled failure answer refetch s =
     (case answer of
        Inr updated \<Rightarrow> (Some updated, s\<lparr> se_settings := Some updated \<rparr>)
      | Inl err \<Rightarrow>
          (let s1 = settings_toast failure s in
           case refetch of
             Inr settings \<Rightarrow> (Some settings, s1\<lparr> se_settings := Some settings \<rparr>)
           | Inl _ \<Rightarrow> (None, s1)))"

definition blockedKey_settled :: "thrown + app_settings \<Rightarrow> thrown + app_settings \<Rightarrow> settings_state \<Rightarrow> app_settings option \<times> settings_state" where
  "blockedKey_settled = block_settled ''Failed to update blocked key''"

definition blockedName_settled :: "thrown + app_settings \<Rightarrow> thrown + app_settings \<Rightarrow> settings_state \<Rightarrow> app_settings option \<times> settings_state" where
  "blockedName_settled = block_settled ''Failed to update blocked name''"

text \<open>\<^verbatim>\<open>(err as any)?.body?.detail\<close>: no error that the client throws has a \<^verbatim>\<open>body\<close>. Only
  messages that are strings are modelled.\<close>

fun thrown_body :: "thrown \<Rightarrow> json option" where
  "thrown_body (Api_error message status) = None"
| "thrown_body (Js_error name message) = None"
| "thrown_body (Dom_exception name message) = None"
| "thrown_body Thrown_value = None"

definition telemetry_error :: "string \<Rightarrow> thrown \<Rightarrow> string" where
  "telemetry_error fallback err =
     (case (case thrown_body err of Some body \<Rightarrow> json_member body ''detail'' | None \<Rightarrow> None) of
        Some (JObj members) \<Rightarrow>
          (case json_member (JObj members) ''message'' of
             Some (JStr m) \<Rightarrow> if m \<noteq> [] then m else fallback
           | _ \<Rightarrow> fallback)
      | _ \<Rightarrow> fallback)"

definition trackedTelemetry_settled :: "thrown + string list \<Rightarrow> thrown + app_settings \<Rightarrow> settings_state \<Rightarrow> settings_state" where
  "trackedTelemetry_settled answer refetch s =
     (case answer of
        Inr keys \<Rightarrow> s\<lparr> se_settings := map_option (\<lambda>prev. prev\<lparr> as_tracked_telemetry_repeaters := keys \<rparr>) (se_settings s) \<rparr>
      | Inl err \<Rightarrow>
          settings_toast (telemetry_error ''Failed to update tracked telemetry'' err)
            (case refetch of Inr settings \<Rightarrow> s\<lparr> se_settings := Some settings \<rparr> | Inl _ \<Rightarrow> s))"

definition trackedContact_settled :: "thrown + string list \<Rightarrow> thrown + app_settings \<Rightarrow> settings_state \<Rightarrow> settings_state" where
  "trackedContact_settled answer refetch s =
     (case answer of
        Inr keys \<Rightarrow> s\<lparr> se_settings := map_option (\<lambda>prev. prev\<lparr> as_tracked_telemetry_contacts := keys \<rparr>) (se_settings s) \<rparr>
      | Inl err \<Rightarrow>
          settings_toast (telemetry_error ''Failed to update tracked contact telemetry'' err)
            (case refetch of Inr settings \<Rightarrow> s\<lparr> se_settings := Some settings \<rparr> | Inl _ \<Rightarrow> s))"

section \<open>The endpoints\<close>

definition server_toggle_blocked_key :: "string \<Rightarrow> app_settings \<Rightarrow> app_settings" where
  "server_toggle_blocked_key key settings =
     (let normalized = to_lower key;
          new_keys = (if normalized \<in> set (as_blocked_keys settings) then filter (\<lambda>k. k \<noteq> normalized) (as_blocked_keys settings)
                      else as_blocked_keys settings @ [normalized])
      in settings\<lparr> as_blocked_keys := new_keys \<rparr>)"

definition server_toggle_blocked_name :: "string \<Rightarrow> app_settings \<Rightarrow> app_settings" where
  "server_toggle_blocked_name name settings =
     (let new_names = (if name \<in> set (as_blocked_names settings) then filter (\<lambda>n. n \<noteq> name) (as_blocked_names settings)
                       else as_blocked_names settings @ [name])
      in settings\<lparr> as_blocked_names := new_names \<rparr>)"

text \<open>The answer of a telemetry toggle: the new list, or the status of a refusal. The type of a stored contact is an argument.\<close>

definition MAX_TRACKED_TELEMETRY_REPEATERS :: nat where "MAX_TRACKED_TELEMETRY_REPEATERS = 8"
definition MAX_TRACKED_TELEMETRY_CONTACTS :: nat where "MAX_TRACKED_TELEMETRY_CONTACTS = 8"

definition server_toggle_tracked :: "(string \<Rightarrow> int option) \<Rightarrow> string \<Rightarrow> app_settings \<Rightarrow> nat + string list" where
  "server_toggle_tracked contact_type publicKey settings =
     (let key = to_lower publicKey; current = as_tracked_telemetry_repeaters settings in
      if key \<in> set current then Inr (filter (\<lambda>k. k \<noteq> key) current)
      else (case contact_type key of
              None \<Rightarrow> Inl 404
            | Some t \<Rightarrow>
                if t \<noteq> CONTACT_TYPE_REPEATER then Inl 400
                else if MAX_TRACKED_TELEMETRY_REPEATERS \<le> length current then Inl 409
                else Inr (current @ [key])))"

definition server_toggle_tracked_contact :: "(string \<Rightarrow> int option) \<Rightarrow> string \<Rightarrow> app_settings \<Rightarrow> nat + string list" where
  "server_toggle_tracked_contact contact_type publicKey settings =
     (let key = to_lower publicKey; current = as_tracked_telemetry_contacts settings in
      if key \<in> set current then Inr (filter (\<lambda>k. k \<noteq> key) current)
      else (case contact_type key of
              None \<Rightarrow> Inl 404
            | Some t \<Rightarrow>
                if t = CONTACT_TYPE_REPEATER then Inl 400
                else if MAX_TRACKED_TELEMETRY_CONTACTS \<le> length current then Inl 409
                else Inr (current @ [key])))"

section \<open>The favourites of older versions\<close>

definition FAVORITES_KEY :: string where "FAVORITES_KEY = ''remoteterm-favorites''"

text \<open>The effect on the first settings: which favourites are moved; \<open>None\<close> when nothing is. The storage holds the list, or nothing
  that can be read.\<close>

definition favorites_effect :: "('f list option) web_storage \<Rightarrow> settings_state \<Rightarrow> 'f list option \<times> settings_state" where
  "favorites_effect ws s =
     (if se_settings s = None \<or> se_hasMigrated s then (None, s)
      else
        (let localFavorites = (case getItem FAVORITES_KEY ws of Inr (Some (Some fs)) \<Rightarrow> fs | _ \<Rightarrow> []) in
         (if length localFavorites = 0 then None else Some localFavorites, s\<lparr> se_hasMigrated := True \<rparr>)))"

text \<open>\<^verbatim>\<open>migrate\<close> against a server that toggles: what it holds afterwards, how many were moved, the storage, and whether the page is
  loaded again. A toggle that is refused is skipped.\<close>

definition migrate :: "('f \<Rightarrow> 's \<Rightarrow> 's option) \<Rightarrow> 'f list \<Rightarrow> 'a web_storage \<Rightarrow> 's \<Rightarrow> 's \<times> 'a web_storage \<times> bool" where
  "migrate toggle localFavorites ws server =
     (let (server', migrated) =
        foldl (\<lambda>(sv, n) f. case toggle f sv of Some sv' \<Rightarrow> (sv', n + 1) | None \<Rightarrow> (sv, n)) (server, 0 :: nat) localFavorites
      in (server', removeItem FAVORITES_KEY ws, 0 < migrated))"

text \<open>The endpoint of a favourite, for a contact or channel that is known.\<close>

definition server_toggle_favorite :: "('f \<Rightarrow> bool) \<Rightarrow> 'f \<Rightarrow> ('f \<Rightarrow> bool) \<Rightarrow> ('f \<Rightarrow> bool) option" where
  "server_toggle_favorite known f favorite = (if known f then Some (favorite(f := \<not> favorite f)) else None)"

section \<open>One field at a time\<close>

datatype setting_toggle = Blocked_key | Blocked_name | Tracked_repeater | Tracked_contact

fun get_field :: "setting_toggle \<Rightarrow> app_settings \<Rightarrow> string list" where
  "get_field Blocked_key s = as_blocked_keys s"
| "get_field Blocked_name s = as_blocked_names s"
| "get_field Tracked_repeater s = as_tracked_telemetry_repeaters s"
| "get_field Tracked_contact s = as_tracked_telemetry_contacts s"

fun put_field :: "setting_toggle \<Rightarrow> string list \<Rightarrow> app_settings \<Rightarrow> app_settings" where
  "put_field Blocked_key l s = s\<lparr> as_blocked_keys := l \<rparr>"
| "put_field Blocked_name l s = s\<lparr> as_blocked_names := l \<rparr>"
| "put_field Tracked_repeater l s = s\<lparr> as_tracked_telemetry_repeaters := l \<rparr>"
| "put_field Tracked_contact l s = s\<lparr> as_tracked_telemetry_contacts := l \<rparr>"

fun toggle_key :: "setting_toggle \<Rightarrow> string \<Rightarrow> string" where
  "toggle_key Blocked_name k = k"
| "toggle_key Blocked_key k = to_lower k"
| "toggle_key Tracked_repeater k = to_lower k"
| "toggle_key Tracked_contact k = to_lower k"

fun optimistic :: "setting_toggle \<Rightarrow> string \<Rightarrow> settings_state \<Rightarrow> settings_state" where
  "optimistic Blocked_key k s = blockedKey_optimistic k s"
| "optimistic Blocked_name k s = blockedName_optimistic k s"
| "optimistic Tracked_repeater k s = trackedTelemetry_optimistic k s"
| "optimistic Tracked_contact k s = trackedContact_optimistic k s"

fun settled :: "setting_toggle \<Rightarrow> thrown + app_settings \<Rightarrow> thrown + app_settings \<Rightarrow> settings_state \<Rightarrow> settings_state" where
  "settled Blocked_key answer refetch s = snd (blockedKey_settled answer refetch s)"
| "settled Blocked_name answer refetch s = snd (blockedName_settled answer refetch s)"
| "settled Tracked_repeater answer refetch s = trackedTelemetry_settled (map_sum id as_tracked_telemetry_repeaters answer) refetch s"
| "settled Tracked_contact answer refetch s = trackedContact_settled (map_sum id as_tracked_telemetry_contacts answer) refetch s"

fun server_toggle :: "(string \<Rightarrow> int option) \<Rightarrow> setting_toggle \<Rightarrow> string \<Rightarrow> app_settings \<Rightarrow> app_settings option" where
  "server_toggle ct Blocked_key k s = Some (server_toggle_blocked_key k s)"
| "server_toggle ct Blocked_name k s = Some (server_toggle_blocked_name k s)"
| "server_toggle ct Tracked_repeater k s =
     (case server_toggle_tracked ct k s of Inr l \<Rightarrow> Some (s\<lparr> as_tracked_telemetry_repeaters := l \<rparr>) | Inl _ \<Rightarrow> None)"
| "server_toggle ct Tracked_contact k s =
     (case server_toggle_tracked_contact ct k s of Inr l \<Rightarrow> Some (s\<lparr> as_tracked_telemetry_contacts := l \<rparr>) | Inl _ \<Rightarrow> None)"

text \<open>The fields of the settings are independent of each other.\<close>

locale field_access =
  fixes get :: "'f \<Rightarrow> 's \<Rightarrow> 'v" and put :: "'f \<Rightarrow> 'v \<Rightarrow> 's \<Rightarrow> 's"
  assumes get_put: "get f (put f v s) = v"
    and put_get: "put f (get f s) s = s"
    and put_put: "put f v (put f w s) = put f v s"
    and put_swap: "f \<noteq> g \<Longrightarrow> put f v (put g w s) = put g w (put f v s)"
begin

text \<open>An answer is the whole state, or one field of it; \<open>None\<close> is a failure.\<close>

definition answer_effect :: "('f \<Rightarrow> bool) \<Rightarrow> 'f \<times> 's option \<Rightarrow> 's \<Rightarrow> 's" where
  "answer_effect whole a c =
     (case snd a of None \<Rightarrow> c | Some s \<Rightarrow> if whole (fst a) then s else put (fst a) (get (fst a) s) c)"

definition answers_effect :: "('f \<Rightarrow> bool) \<Rightarrow> ('f \<times> 's option) list \<Rightarrow> 's \<Rightarrow> 's" where
  "answers_effect whole as c = fold (answer_effect whole) as c"

definition failing :: "('f \<times> 's option) list \<Rightarrow> bool" where
  "failing as \<longleftrightarrow> (\<exists>a \<in> set as. snd a = None)"

lemma answer_agree: "put f v c = put f v d \<Longrightarrow> put f v (answer_effect whole a c) = put f v (answer_effect whole a d)"
proof (cases "fst a = f \<or> snd a = None \<or> whole (fst a)")
  case False
  assume "put f v c = put f v d"
  moreover have "put f v (put (fst a) x e) = put (fst a) x (put f v e)" for x e using False by (intro put_swap) auto
  ultimately show ?thesis using False by (auto simp: answer_effect_def)
qed (auto simp: answer_effect_def put_put split: option.split)

lemma answers_agree: "put f v c = put f v d \<Longrightarrow> put f v (answers_effect whole as c) = put f v (answers_effect whole as d)"
proof (induction as arbitrary: c d)
  case (Cons a as)
  have "put f v (answers_effect whole as (answer_effect whole a c)) = put f v (answers_effect whole as (answer_effect whole a d))"
    by (rule Cons.IH) (rule answer_agree [OF Cons.prems])
  then show ?case by (simp only: answers_effect_def fold.simps comp_apply)
qed (simp add: answers_effect_def)

text \<open>All answers that are under way, from any of them on, lead to what the server holds, unless one is a failure.\<close>

definition consistent :: "('f \<Rightarrow> bool) \<Rightarrow> ('f \<times> 's option) list \<Rightarrow> 's \<Rightarrow> bool" where
  "consistent whole as srv \<longleftrightarrow> (\<forall>n. failing (drop n as) \<or> answers_effect whole (drop n as) srv = srv)"

definition leads_to :: "('f \<Rightarrow> bool) \<Rightarrow> ('f \<times> 's option) list \<Rightarrow> 's \<Rightarrow> 's \<Rightarrow> bool" where
  "leads_to whole as c srv \<longleftrightarrow> failing as \<or> answers_effect whole as c = srv"

lemma leads_to_accepted:
  assumes "leads_to whole as c srv"
  shows "leads_to whole (as @ [(f, Some (put f v srv))]) (put f w c) (put f v srv)"
proof -
  have "put f v (answers_effect whole as (put f w c)) = put f v (answers_effect whole as c)"
    by (rule answers_agree) (simp add: put_put)
  then show ?thesis
    using assms by (auto simp: leads_to_def failing_def answers_effect_def answer_effect_def get_put)
qed

lemma leads_to_put:
  assumes "leads_to whole as srv srv"
  shows "leads_to whole (as @ [(f, Some (put f v srv))]) (put f v srv) (put f v srv)"
  using assms by (rule leads_to_accepted)

lemma consistent_leads: "consistent whole as srv \<longleftrightarrow> (\<forall>n. leads_to whole (drop n as) srv srv)"
  by (simp add: consistent_def leads_to_def)

lemma leads_to_Nil [simp]: "leads_to whole [] c srv \<longleftrightarrow> c = srv"
  by (auto simp: leads_to_def failing_def answers_effect_def)

lemma consistent_accepted:
  assumes "consistent whole as srv"
  shows "consistent whole (as @ [(f, Some (put f v srv))]) (put f v srv)"
  unfolding consistent_leads
proof
  fix n
  show "leads_to whole (drop n (as @ [(f, Some (put f v srv))])) (put f v srv) (put f v srv)"
  proof (cases "n \<le> length as")
    case True
    then show ?thesis using leads_to_put [of whole "drop n as" srv f v] assms by (simp add: consistent_leads)
  qed simp
qed

lemma leads_to_failed: "leads_to whole (as @ [(f, None)]) c srv"
  by (simp add: leads_to_def failing_def)

lemma consistent_failed: "consistent whole (as @ [(f, None)]) srv"
  unfolding consistent_leads
proof
  fix n
  show "leads_to whole (drop n (as @ [(f, None)])) srv srv"
    by (cases "n \<le> length as") (simp_all add: leads_to_failed)
qed

lemma consistent_tl: "consistent whole (a # as) srv \<Longrightarrow> consistent whole as srv"
  unfolding consistent_leads by (metis drop_Suc_Cons)

lemma answer_arrives:
  assumes "leads_to whole (a # as) c srv" and "consistent whole (a # as) srv"
  shows "leads_to whole as (case snd a of None \<Rightarrow> srv | Some _ \<Rightarrow> answer_effect whole a c) srv"
proof (cases "snd a")
  case None
  then show ?thesis using consistent_tl [OF assms(2)] by (simp add: consistent_leads) (metis drop0)
next
  case (Some s)
  then show ?thesis using assms(1) by (auto simp: leads_to_def failing_def answers_effect_def)
qed

end

interpretation settings_fields: field_access get_field put_field
proof
  show "put_field f v (put_field g w s) = put_field g w (put_field f v s)" if "f \<noteq> g" for f g v w s
    using that by (cases f; cases g) auto
  show "get_field f (put_field f v s) = v" for f v s by (cases f) auto
  show "put_field f (get_field f s) s = s" for f s by (cases f) auto
  show "put_field f v (put_field f w s) = put_field f v s" for f v w s by (cases f) auto
qed

section \<open>What is shown becomes what is stored\<close>

text \<open>The page and the server. An answer under way tells which toggle it belongs to and, unless the request or the answer was
  lost or refused, what the settings were when the request was served.\<close>

record settings_world =
  sw_client :: settings_state
  sw_server :: app_settings
  sw_answers :: "(setting_toggle \<times> app_settings option) list"

definition deliver :: "thrown \<Rightarrow> setting_toggle \<times> app_settings option \<Rightarrow> app_settings \<Rightarrow> settings_state \<Rightarrow> settings_state" where
  "deliver err a server client =
     settled (fst a) (case snd a of Some s \<Rightarrow> Inr s | None \<Rightarrow> Inl err) (Inr server) client"

inductive settings_reachable :: "(string \<Rightarrow> int option) \<Rightarrow> settings_world \<Rightarrow> bool" for contact_type where
  world_start: "se_settings client = Some server \<Longrightarrow>
    settings_reachable contact_type \<lparr> sw_client = client, sw_server = server, sw_answers = [] \<rparr>"
| world_toggle: "settings_reachable contact_type w \<Longrightarrow> server_toggle contact_type t k (sw_server w) = Some server' \<Longrightarrow>
    settings_reachable contact_type (w\<lparr> sw_client := optimistic t k (sw_client w), sw_server := server',
      sw_answers := sw_answers w @ [(t, Some server')] \<rparr>)"
| world_failed: "settings_reachable contact_type w \<Longrightarrow>
    server' = sw_server w \<or> server_toggle contact_type t k (sw_server w) = Some server' \<Longrightarrow>
    settings_reachable contact_type (w\<lparr> sw_client := optimistic t k (sw_client w), sw_server := server',
      sw_answers := sw_answers w @ [(t, None)] \<rparr>)"
| world_answer: "settings_reachable contact_type w \<Longrightarrow> sw_answers w = a # rest \<Longrightarrow>
    settings_reachable contact_type (w\<lparr> sw_client := deliver err a (sw_server w) (sw_client w), sw_answers := rest \<rparr>)"

definition whole_answer :: "setting_toggle \<Rightarrow> bool" where
  "whole_answer t \<longleftrightarrow> t = Blocked_key \<or> t = Blocked_name"

lemma optimistic_settings:
  "se_settings (optimistic t k s) = map_option (\<lambda>prev. put_field t (toggled (toggle_key t k) (get_field t prev)) prev) (se_settings s)"
  by (cases t) (auto simp: blockedKey_optimistic_def blockedName_optimistic_def trackedTelemetry_optimistic_def
      trackedContact_optimistic_def)

lemma settled_settings:
  "se_settings (settled t answer refetch s) =
    (case answer of
       Inr new \<Rightarrow> if whole_answer t then Some new else map_option (put_field t (get_field t new)) (se_settings s)
     | Inl err \<Rightarrow> (case refetch of Inr settings \<Rightarrow> Some settings | Inl _ \<Rightarrow> se_settings s))"
  by (cases t; cases "se_settings s") (auto simp: blockedKey_settled_def blockedName_settled_def block_settled_def trackedTelemetry_settled_def
      trackedContact_settled_def settings_toast_def whole_answer_def Let_def split: sum.splits)

lemma server_toggle_put: "server_toggle ct t k s = Some s' \<Longrightarrow> \<exists>v. s' = put_field t v s"
  by (cases t) (auto simp: server_toggle_blocked_key_def server_toggle_blocked_name_def Let_def split: sum.splits)

text \<open>What the page shows ahead of the answer is what the server makes of the same settings: an accepted toggle changes the list
  in the same way on both sides, keys in lower case and names as they are, and a toggle made twice leaves who is on the list.\<close>

theorem optimistic_is_server:
  assumes "server_toggle contact_type t k server = Some server'" and "se_settings s = Some server"
  shows "se_settings (optimistic t k s) = Some server' \<and>
    set (get_field t (the (se_settings (optimistic t k (optimistic t k s))))) = set (get_field t server)"
proof -
  have "server' = put_field t (toggled (toggle_key t k) (get_field t server)) server"
    using assms(1)
    by (cases t) (auto simp: server_toggle_blocked_key_def server_toggle_blocked_name_def server_toggle_tracked_def
        server_toggle_tracked_contact_def toggled_def Let_def split: sum.splits option.splits if_splits)
  moreover have "set (toggled x (toggled x l)) = set l" for x and l :: "string list" by (auto simp: toggled_def Let_def)
  ultimately show ?thesis using assms(2) by (simp add: optimistic_settings settings_fields.get_put)
qed

lemma lower_AB: "to_lower ''AB'' = ''ab''"
  by code_simp

lemma optimistic_is_server_witness:
  "as_blocked_keys (the (se_settings (optimistic Blocked_key ''AB''
     \<lparr> se_settings = Some settings_default, se_hasMigrated = False, se_toasts = [] \<rparr>))) = [''ab'']"
proof -
  have "server_toggle (\<lambda>k. None) Blocked_key ''AB'' settings_default = Some (settings_default\<lparr> as_blocked_keys := [''ab''] \<rparr>)"
    using lower_AB by (simp add: server_toggle_blocked_key_def settings_default_def Let_def)
  from optimistic_is_server [OF this, of "\<lparr> se_settings = Some settings_default, se_hasMigrated = False, se_toasts = [] \<rparr>"]
  show ?thesis by simp
qed

definition settings_inv :: "settings_world \<Rightarrow> bool" where
  "settings_inv w \<longleftrightarrow>
     (\<exists>c. se_settings (sw_client w) = Some c \<and> settings_fields.leads_to whole_answer (sw_answers w) c (sw_server w)) \<and>
     settings_fields.consistent whole_answer (sw_answers w) (sw_server w)"

lemma settings_inv_reachable: "settings_reachable contact_type w \<Longrightarrow> settings_inv w"
proof (induction rule: settings_reachable.induct)
  case (world_start client server)
  then show ?case by (simp add: settings_inv_def settings_fields.consistent_leads)
next
  case (world_toggle w t k server')
  from server_toggle_put [OF world_toggle.hyps(2)] obtain v where v: "server' = put_field t v (sw_server w)" by blast
  from world_toggle.IH obtain c where c: "se_settings (sw_client w) = Some c"
    "settings_fields.leads_to whole_answer (sw_answers w) c (sw_server w)"
    and "settings_fields.consistent whole_answer (sw_answers w) (sw_server w)" by (auto simp: settings_inv_def)
  then show ?case
    using settings_fields.leads_to_accepted [OF c(2)] settings_fields.consistent_accepted
    by (auto simp: settings_inv_def optimistic_settings v)
next
  case (world_failed w server' t k)
  then show ?case
    by (auto simp: settings_inv_def optimistic_settings settings_fields.leads_to_failed settings_fields.consistent_failed)
next
  case (world_answer w a rest err)
  from world_answer.IH obtain c where c: "se_settings (sw_client w) = Some c"
    "settings_fields.leads_to whole_answer (a # rest) c (sw_server w)"
    and k: "settings_fields.consistent whole_answer (a # rest) (sw_server w)"
    by (auto simp: settings_inv_def world_answer.hyps(2))
  have "se_settings (deliver err a (sw_server w) (sw_client w))
      = Some (case snd a of None \<Rightarrow> sw_server w | Some _ \<Rightarrow> settings_fields.answer_effect whole_answer a c)"
    by (auto simp: deliver_def settled_settings c(1) settings_fields.answer_effect_def split: option.split)
  then show ?case
    using settings_fields.answer_arrives [OF c(2) k] settings_fields.consistent_tl [OF k] by (simp add: settings_inv_def)
qed



text \<open>The reason of a refusal, such as the limit of eight, is never shown.\<close>

lemma telemetry_error_generic: "telemetry_error fallback err = fallback"
  by (cases err) (simp_all add: telemetry_error_def)

section \<open>Moving the favourites\<close>

lemma favorites_once:
  "fst (favorites_effect ws' (snd (favorites_effect ws s))) = None \<or> se_settings s = None"
  by (auto simp: favorites_effect_def Let_def)

lemma migrate_favorites:
  "fst (migrate (server_toggle_favorite known) fs ws favorite)
    = (\<lambda>f. if known f \<and> odd (count_list fs f) then \<not> favorite f else favorite f)"
proof -
  have "fst (foldl (\<lambda>(sv, n) f. case server_toggle_favorite known f sv of Some sv' \<Rightarrow> (sv', n + 1) | None \<Rightarrow> (sv, n)) (favorite, n) fs)
      = (\<lambda>f. if known f \<and> odd (count_list fs f) then \<not> favorite f else favorite f)" for n :: nat
    by (induction fs arbitrary: favorite n) (auto simp: server_toggle_favorite_def fun_eq_iff)
  then show ?thesis by (simp add: migrate_def case_prod_unfold)
qed

text \<open>The favourites of an older version are moved once per page: each that is known becomes a favourite of the server when none of
  them was one before, the others are left alone, and the browser forgets its list. One that the server already has is taken away.\<close>

theorem favorites_moved:
  assumes "distinct fs"
  shows "fst (migrate (server_toggle_favorite known) fs ws favorite)
      = (\<lambda>f. if known f \<and> f \<in> set fs then \<not> favorite f else favorite f) \<and>
    (ws_available ws \<longrightarrow> getItem FAVORITES_KEY (fst (snd (migrate (server_toggle_favorite known) fs ws favorite))) = Inr None) \<and>
    (fst (favorites_effect ws' (snd (favorites_effect ws s))) = None \<or> se_settings s = None)"
proof -
  have "odd (count_list fs f) \<longleftrightarrow> f \<in> set fs" for f
    using assms by (induction fs) (auto simp: count_notin)
  then show ?thesis using favorites_once [of ws' ws s] by (simp add: migrate_favorites) (simp add: migrate_def case_prod_unfold Let_def)
qed

lemma favorites_moved_witness:
  "fst (migrate (server_toggle_favorite (\<lambda>f. True)) [''a''] \<lparr> ws_available = True, ws_items = [(FAVORITES_KEY, Some [''a''])] \<rparr> (\<lambda>f. f = ''a'')) ''a'' = False"
  using favorites_moved [of "[''a'']" "\<lambda>f. True" "\<lparr> ws_available = True, ws_items = [(FAVORITES_KEY, Some [''a''])] \<rparr>" "\<lambda>f. f = ''a''"
      "\<lparr> ws_available = True, ws_items = [] \<rparr>" "\<lparr> se_settings = None, se_hasMigrated = False, se_toasts = [] \<rparr>"]
  by simp

end
