(* ===== verification/Radio_Control.thy ===== *)
theory Radio_Control
  imports Realtime_Events Api_Client
begin

text \<open>
  The radio behind the page (\<^verbatim>\<open>hooks/useRadioControl.ts\<close>) and the store of its health (\<^verbatim>\<open>stores/healthStore.ts\<close>): reading and
  saving its configuration, rebooting it and waiting until it is back, disconnecting and reconnecting, advertising, and looking
  for nodes and regions. A handler is cut where it waits; what the server answers is an argument.
\<close>

section \<open>State\<close>

text \<open>The loop of \<^verbatim>\<open>pollUntilReconnected\<close>: its token, its counter, and whether it waits for the timer or for the server.\<close>

record poll =
  pl_token :: nat
  pl_round :: nat
  pl_asking :: bool

datatype radio_toast =
    Radio_success string
  | Radio_info string
  | Radio_error string string

datatype discovery_target = Target_repeaters | Target_sensors | Target_all

record mesh_discovery =
  md_target :: discovery_target
  md_results :: "string list"

record region_discovery =
  rg_queried :: nat
  rg_answered :: nat
  rg_regions :: "string list"

text \<open>The last three fields are a log: the requests of the polls by their tokens, the requests for the configuration, the toasts.\<close>

record radio_control =
  rd_config :: "radio_config option"
  rd_health :: "health_status option"
  rd_meshDiscovery :: "mesh_discovery option"
  rd_meshLoading :: "discovery_target option"
  rd_regionDiscovery :: "region_discovery option"
  rd_regionLoading :: bool
  rd_token :: nat
  rd_polls :: "poll list"
  rd_asked :: "nat list"
  rd_fetches :: nat
  rd_toasts :: "radio_toast list"

definition radio_init :: radio_control where
  "radio_init =
     \<lparr> rd_config = None, rd_health = None, rd_meshDiscovery = None, rd_meshLoading = None, rd_regionDiscovery = None,
       rd_regionLoading = False, rd_token = 0, rd_polls = [], rd_asked = [], rd_fetches = 0, rd_toasts = [] \<rparr>"

definition radio_toast :: "radio_toast \<Rightarrow> radio_control \<Rightarrow> radio_control" where
  "radio_toast t s = s\<lparr> rd_toasts := rd_toasts s @ [t] \<rparr>"

section \<open>Health and configuration\<close>

definition setHealth :: "(health_status option \<Rightarrow> health_status option) \<Rightarrow> radio_control \<Rightarrow> radio_control" where
  "setHealth f s = (let value = f (rd_health s) in if value = rd_health s then s else s\<lparr> rd_health := value \<rparr>)"

definition radio_connected :: "radio_control \<Rightarrow> bool" where
  "radio_connected s = (case rd_health s of Some h \<Rightarrow> hs_radio_connected h | None \<Rightarrow> False)"

definition fetchConfig :: "radio_control \<Rightarrow> radio_control" where
  "fetchConfig s = s\<lparr> rd_fetches := rd_fetches s + 1 \<rparr>"

definition config_arrived :: "thrown + radio_config \<Rightarrow> radio_control \<Rightarrow> radio_control" where
  "config_arrived answer s = (case answer of Inr data \<Rightarrow> s\<lparr> rd_config := Some data \<rparr> | Inl _ \<Rightarrow> s)"

text \<open>\<^verbatim>\<open>handleSaveConfig\<close> and \<^verbatim>\<open>handleSetPrivateKey\<close>: a failure is thrown to the caller.\<close>

definition handleSaveConfig :: "thrown + unit \<Rightarrow> radio_control \<Rightarrow> thrown option \<times> radio_control" where
  "handleSaveConfig answer s = (case answer of Inl err \<Rightarrow> (Some err, s) | Inr _ \<Rightarrow> (None, fetchConfig s))"

definition handleSetPrivateKey :: "thrown + unit \<Rightarrow> radio_control \<Rightarrow> thrown option \<times> radio_control" where
  "handleSetPrivateKey answer s = (case answer of Inl err \<Rightarrow> (Some err, s) | Inr _ \<Rightarrow> (None, fetchConfig s))"

section \<open>Rebooting\<close>

definition POLL_ROUNDS :: nat where "POLL_ROUNDS = 30"

definition handleReboot :: "thrown + unit \<Rightarrow> radio_control \<Rightarrow> thrown option \<times> radio_control" where
  "handleReboot answer s =
     (case answer of
        Inl err \<Rightarrow> (Some err, s)
      | Inr _ \<Rightarrow>
          (let s1 = setHealth (map_option (\<lambda>prev. prev\<lparr> hs_radio_connected := False, hs_radio_initializing := False \<rparr>)) s;
               pollToken = rd_token s1 + 1
           in (None, s1\<lparr> rd_token := pollToken,
                         rd_polls := rd_polls s1 @ [\<lparr> pl_token = pollToken, pl_round = 0, pl_asking = False \<rparr>] \<rparr>)))"

definition control_unmounted :: "radio_control \<Rightarrow> radio_control" where
  "control_unmounted s = s\<lparr> rd_token := rd_token s + 1 \<rparr>"

definition next_round :: "poll \<Rightarrow> poll option" where
  "next_round p = (if pl_round p + 1 < POLL_ROUNDS then Some (p\<lparr> pl_round := pl_round p + 1, pl_asking := False \<rparr>) else None)"

text \<open>A poll goes on as given, or returns.\<close>

definition poll_continues :: "nat \<Rightarrow> poll option \<Rightarrow> radio_control \<Rightarrow> radio_control" where
  "poll_continues i p s =
     s\<lparr> rd_polls := (case p of Some q \<Rightarrow> (rd_polls s)[i := q] | None \<Rightarrow> take i (rd_polls s) @ drop (Suc i) (rd_polls s)) \<rparr>"

text \<open>The timer of the poll with a given index.\<close>

definition poll_timer :: "nat \<Rightarrow> radio_control \<Rightarrow> radio_control" where
  "poll_timer i s =
     (let p = rd_polls s ! i in
      if rd_token s \<noteq> pl_token p then poll_continues i None s
      else poll_continues i (Some (p\<lparr> pl_asking := True \<rparr>)) (s\<lparr> rd_asked := rd_asked s @ [pl_token p] \<rparr>))"

definition poll_answer :: "nat \<Rightarrow> thrown + health_status \<Rightarrow> radio_control \<Rightarrow> radio_control" where
  "poll_answer i answer s =
     (let p = rd_polls s ! i in
      case answer of
        Inl _ \<Rightarrow> poll_continues i (next_round p) s
      | Inr data \<Rightarrow>
          if rd_token s \<noteq> pl_token p then poll_continues i None s
          else
            (let s1 = setHealth (\<lambda>_. Some data) s in
             if hs_radio_connected data then poll_continues i None (fetchConfig s1)
             else poll_continues i (next_round p) s1))"

section \<open>Other actions\<close>

definition handleDisconnect :: "thrown + health_status \<Rightarrow> radio_control \<Rightarrow> thrown option \<times> radio_control" where
  "handleDisconnect answer s = (case answer of Inl err \<Rightarrow> (Some err, s) | Inr paused \<Rightarrow> (None, setHealth (\<lambda>_. Some paused) s))"

definition handleReconnect :: "thrown + health_status \<Rightarrow> radio_control \<Rightarrow> thrown option \<times> radio_control" where
  "handleReconnect answer s =
     (case answer of
        Inl err \<Rightarrow> (Some err, s)
      | Inr refreshed \<Rightarrow>
          (None, let s1 = setHealth (\<lambda>_. Some refreshed) s in if hs_radio_connected refreshed then fetchConfig s1 else s1))"

definition handleHealthRefresh :: "thrown + health_status \<Rightarrow> radio_control \<Rightarrow> radio_control" where
  "handleHealthRefresh answer s = (case answer of Inl _ \<Rightarrow> s | Inr data \<Rightarrow> setHealth (\<lambda>_. Some data) s)"

datatype advert_mode = Mode_flood | Mode_zero_hop

definition handleAdvertise :: "advert_mode \<Rightarrow> thrown + unit \<Rightarrow> radio_control \<Rightarrow> radio_control" where
  "handleAdvertise mode answer s =
     (case answer of
        Inr _ \<Rightarrow> radio_toast (Radio_success (if mode = Mode_zero_hop then ''Zero-hop advertisement sent'' else ''Advertisement sent'')) s
      | Inl err \<Rightarrow>
          (let label = (if mode = Mode_zero_hop then ''zero-hop advertisement'' else ''advertisement'')
           in radio_toast (Radio_error (''Failed to send '' @ label) (error_message ''Check radio connection'' err)) s))"

definition handleDiscoverMesh :: "discovery_target \<Rightarrow> radio_control \<Rightarrow> radio_control" where
  "handleDiscoverMesh target s = s\<lparr> rd_meshLoading := Some target \<rparr>"

definition mesh_discovered :: "thrown + mesh_discovery \<Rightarrow> radio_control \<Rightarrow> radio_control" where
  "mesh_discovered answer s =
     (case answer of
        Inr data \<Rightarrow>
          radio_toast (Radio_success
            (if length (md_results data) = 0 then ''No nearby nodes responded''
             else ''Found '' @ show_nat (length (md_results data)) @ '' nearby node'' @ (if length (md_results data) = 1 then [] else ''s'')))
            (s\<lparr> rd_meshDiscovery := Some data \<rparr>)
      | Inl err \<Rightarrow> radio_toast (Radio_error ''Failed to run mesh discovery'' (error_message ''Check radio connection'' err)) s)
     \<lparr> rd_meshLoading := None \<rparr>"

definition handleDiscoverRegions :: "radio_control \<Rightarrow> radio_control" where
  "handleDiscoverRegions s = s\<lparr> rd_regionLoading := True \<rparr>"

definition regions_discovered :: "thrown + region_discovery \<Rightarrow> radio_control \<Rightarrow> radio_control" where
  "regions_discovered answer s =
     (case answer of
        Inr data \<Rightarrow>
          radio_toast
            (if rg_queried data = 0 then Radio_info ''No repeaters available to query for regions''
             else if length (rg_regions data) = 0 then
               Radio_info (''No regions reported ('' @ show_nat (rg_answered data) @ ''/'' @ show_nat (rg_queried data) @ '' repeaters answered)'')
             else Radio_success (''Found '' @ show_nat (length (rg_regions data)) @ '' region''
                    @ (if length (rg_regions data) = 1 then [] else ''s'') @ '' from '' @ show_nat (rg_answered data) @ ''/''
                    @ show_nat (rg_queried data) @ '' repeaters''))
            (s\<lparr> rd_regionDiscovery := Some data \<rparr>)
      | Inl err \<Rightarrow> radio_toast (Radio_error ''Failed to discover regions'' (error_message ''Check radio connection'' err)) s)
     \<lparr> rd_regionLoading := False \<rparr>"

section \<open>Polls end, and only the newest counts\<close>

inductive radio_step :: "radio_control \<Rightarrow> radio_control \<Rightarrow> bool" where
  radio_reboot: "radio_step s (snd (handleReboot answer s))"
| radio_unmount: "radio_step s (control_unmounted s)"
| radio_timer: "i < length (rd_polls s) \<Longrightarrow> \<not> pl_asking (rd_polls s ! i) \<Longrightarrow> radio_step s (poll_timer i s)"
| radio_answer: "i < length (rd_polls s) \<Longrightarrow> pl_asking (rd_polls s ! i) \<Longrightarrow> radio_step s (poll_answer i ans s)"
| radio_health: "radio_step s (setHealth f s)"
| radio_config: "radio_step s (config_arrived cfg s)"
| radio_save: "radio_step s (snd (handleSaveConfig saved s))"
| radio_key: "radio_step s (snd (handleSetPrivateKey saved s))"
| radio_disconnect: "radio_step s (snd (handleDisconnect ans s))"
| radio_reconnect: "radio_step s (snd (handleReconnect ans s))"
| radio_refresh: "radio_step s (handleHealthRefresh ans s)"
| radio_advertise: "radio_step s (handleAdvertise mode sent s)"
| radio_mesh: "radio_step s (handleDiscoverMesh target s)"
| radio_meshed: "radio_step s (mesh_discovered mesh s)"
| radio_regions: "radio_step s (handleDiscoverRegions s)"
| radio_regioned: "radio_step s (regions_discovered regions s)"

inductive radio_reachable :: "radio_control \<Rightarrow> bool" where
  control_start: "radio_reachable radio_init"
| control_more: "radio_reachable s \<Longrightarrow> radio_step s s' \<Longrightarrow> radio_reachable s'"

definition poll_ok :: "radio_control \<Rightarrow> poll \<Rightarrow> bool" where
  "poll_ok s p \<longleftrightarrow> pl_token p \<le> rd_token s \<and> pl_round p < POLL_ROUNDS
     \<and> count_list (rd_asked s) (pl_token p) = pl_round p + (if pl_asking p then 1 else 0)"

definition polls_inv :: "radio_control \<Rightarrow> bool" where
  "polls_inv s \<longleftrightarrow> (\<forall>p \<in> set (rd_polls s). poll_ok s p) \<and> distinct (map pl_token (rd_polls s))
     \<and> (\<forall>t. count_list (rd_asked s) t \<le> POLL_ROUNDS) \<and> (\<forall>t \<in> set (rd_asked s). t \<le> rd_token s)"

text \<open>The fields that the polls work on.\<close>

definition poll_fields :: "radio_control \<Rightarrow> poll list \<times> nat list \<times> nat" where
  "poll_fields s = (rd_polls s, rd_asked s, rd_token s)"

lemma polls_inv_cong: "poll_fields s = poll_fields s' \<Longrightarrow> polls_inv s \<longleftrightarrow> polls_inv s'"
  by (simp add: polls_inv_def poll_ok_def poll_fields_def)

lemma unaffected: "poll_fields s' = poll_fields s \<Longrightarrow> polls_inv s \<Longrightarrow> polls_inv s'"
  by (rule polls_inv_cong [THEN iffD2])

lemma setHealth_fields [simp]: "poll_fields (setHealth f s) = poll_fields s"
  by (simp add: setHealth_def poll_fields_def Let_def)

lemma setHealth_simps [simp]:
  "rd_polls (setHealth f s) = rd_polls s" "rd_asked (setHealth f s) = rd_asked s" "rd_token (setHealth f s) = rd_token s"
  "rd_fetches (setHealth f s) = rd_fetches s" "rd_health (setHealth f s) = f (rd_health s)"
  by (simp_all add: setHealth_def Let_def)

lemma fetchConfig_fields [simp]: "poll_fields (fetchConfig s) = poll_fields s"
  by (simp add: fetchConfig_def poll_fields_def)

lemma polls_removed:
  assumes "polls_inv s"
  shows "polls_inv (poll_continues i None s)"
proof -
  have "set (take i (rd_polls s) @ drop (Suc i) (rd_polls s)) \<subseteq> set (rd_polls s)"
    by (auto dest: in_set_takeD in_set_dropD)
  moreover have "distinct (map pl_token (take i (rd_polls s) @ drop (Suc i) (rd_polls s)))"
  proof (cases "i < length (rd_polls s)")
    case True
    then have "map pl_token (rd_polls s)
        = map pl_token (take i (rd_polls s)) @ pl_token (rd_polls s ! i) # map pl_token (drop (Suc i) (rd_polls s))"
      by (metis id_take_nth_drop list.simps(9) map_append)
    then show ?thesis using assms by (simp add: polls_inv_def)
  qed (use assms in \<open>simp add: polls_inv_def\<close>)
  ultimately show ?thesis using assms by (auto simp: polls_inv_def poll_ok_def poll_continues_def)
qed

lemma map_update_same: "i < length xs \<Longrightarrow> f q = f (xs ! i) \<Longrightarrow> map f (xs[i := q]) = map f xs"
  by (metis list_update_id map_update nth_map)

lemma polls_replaced:
  assumes "polls_inv s" and "i < length (rd_polls s)" and "pl_token q = pl_token (rd_polls s ! i)" and "poll_ok s q"
  shows "polls_inv (poll_continues i (Some q) s)"
proof -
  have "map pl_token ((rd_polls s)[i := q]) = map pl_token (rd_polls s)" using assms(2,3) by (rule map_update_same)
  moreover have "set ((rd_polls s)[i := q]) \<subseteq> insert q (set (rd_polls s))" by (rule set_update_subset_insert)
  ultimately show ?thesis using assms(1,4) by (auto simp: polls_inv_def poll_ok_def poll_continues_def)
qed

lemma other_key:
  assumes "distinct (map f xs)" and "i < length xs" and "q \<in> set (xs[i := y])"
  shows "q = y \<or> (q \<in> set xs \<and> f q \<noteq> f (xs ! i))"
proof -
  have "set (xs[i := y]) = insert y (set xs - {xs ! i})"
    using assms(1,2) by (intro set_update_distinct) (auto simp: distinct_map)
  with assms(3) have "q = y \<or> (q \<in> set xs \<and> q \<noteq> xs ! i)" by blast
  moreover have "f q \<noteq> f (xs ! i)" if "q \<in> set xs" "q \<noteq> xs ! i"
    using that assms(1) nth_mem [OF assms(2)] by (meson distinct_map inj_onD)
  ultimately show ?thesis by blast
qed

lemma polls_inv_timer:
  assumes inv: "polls_inv s" and i: "i < length (rd_polls s)" "\<not> pl_asking (rd_polls s ! i)"
  shows "polls_inv (poll_timer i s)"
proof (cases "rd_token s = pl_token (rd_polls s ! i)")
  case True
  define p where "p = rd_polls s ! i"
  let ?q = "p\<lparr> pl_asking := True \<rparr>"
  let ?s = "s\<lparr> rd_asked := rd_asked s @ [pl_token p], rd_polls := (rd_polls s)[i := ?q] \<rparr>"
  have p: "poll_ok s p" "p \<in> set (rd_polls s)" using inv i(1) by (auto simp: polls_inv_def p_def)
  have d: "distinct (map pl_token (rd_polls s))" using inv by (simp add: polls_inv_def)
  have "poll_ok ?s q" if "q \<in> set ((rd_polls s)[i := ?q])" for q
  proof -
    from other_key [OF d i(1) that] consider "q = ?q" | "q \<in> set (rd_polls s)" "pl_token q \<noteq> pl_token p"
      by (auto simp: p_def)
    then show ?thesis
    proof cases
      case 1
      then show ?thesis using p(1) i(2) by (simp add: poll_ok_def p_def)
    next
      case 2
      then have "poll_ok s q" using inv by (simp add: polls_inv_def)
      with 2 show ?thesis by (simp add: poll_ok_def)
    qed
  qed
  moreover have "map pl_token ((rd_polls s)[i := ?q]) = map pl_token (rd_polls s)"
    using i(1) by (rule map_update_same) (simp add: p_def)
  moreover have "count_list (rd_asked s @ [pl_token p]) t \<le> POLL_ROUNDS" for t
  proof (cases "t = pl_token p")
    case True
    then show ?thesis using p(1) i(2) by (simp add: poll_ok_def p_def)
  next
    case False
    then show ?thesis using inv by (simp add: polls_inv_def)
  qed
  ultimately have "polls_inv ?s" using inv d True by (simp add: polls_inv_def p_def)
  moreover have "poll_timer i s = ?s" using True by (simp add: poll_timer_def poll_continues_def Let_def p_def)
  ultimately show ?thesis by simp
qed (use inv in \<open>simp add: poll_timer_def polls_removed Let_def\<close>)

lemma polls_next:
  assumes inv: "polls_inv s" and i: "i < length (rd_polls s)" "pl_asking (rd_polls s ! i)"
  shows "polls_inv (poll_continues i (next_round (rd_polls s ! i)) s)"
proof (cases "pl_round (rd_polls s ! i) + 1 < POLL_ROUNDS")
  case True
  have "poll_ok s (rd_polls s ! i)" using inv i(1) by (auto simp: polls_inv_def)
  with True i have "poll_ok s ((rd_polls s ! i)\<lparr> pl_round := pl_round (rd_polls s ! i) + 1, pl_asking := False \<rparr>)"
    by (simp add: poll_ok_def)
  then show ?thesis using True polls_replaced [OF inv i(1)] by (simp add: next_round_def)
qed (use inv in \<open>simp add: next_round_def polls_removed\<close>)

lemma polls_inv_answer:
  assumes inv: "polls_inv s" and i: "i < length (rd_polls s)" "pl_asking (rd_polls s ! i)"
  shows "polls_inv (poll_answer i ans s)"
proof (cases ans)
  case (Inl err)
  then show ?thesis using polls_next [OF inv i] by (simp add: poll_answer_def)
next
  case (Inr data)
  let ?h = "setHealth (\<lambda>_. Some data) s"
  have h: "polls_inv ?h" "polls_inv (fetchConfig ?h)"
    using inv polls_inv_cong [OF setHealth_fields] polls_inv_cong [OF fetchConfig_fields] by blast+
  have "polls_inv (poll_continues i (next_round (rd_polls s ! i)) ?h)" using polls_next [OF h(1), of i] i by simp
  with Inr polls_removed [OF inv] polls_removed [OF h(2)] show ?thesis by (simp add: poll_answer_def Let_def)
qed

lemma polls_inv_reboot: "polls_inv s \<Longrightarrow> polls_inv (snd (handleReboot answer s))"
  by (cases answer) (auto simp: handleReboot_def Let_def polls_inv_def poll_ok_def POLL_ROUNDS_def count_list_0_iff)

text \<open>The other actions leave the polls alone.\<close>

lemma control_fields:
  "poll_fields (config_arrived cfg s) = poll_fields s"
  "poll_fields (snd (handleSaveConfig saved s)) = poll_fields s"
  "poll_fields (snd (handleSetPrivateKey saved s)) = poll_fields s"
  "poll_fields (snd (handleDisconnect ans s)) = poll_fields s"
  "poll_fields (snd (handleReconnect ans s)) = poll_fields s"
  "poll_fields (handleHealthRefresh ans s) = poll_fields s"
  by (simp_all add: config_arrived_def handleSaveConfig_def handleSetPrivateKey_def handleDisconnect_def handleReconnect_def
      handleHealthRefresh_def Let_def split: sum.split) (simp_all add: poll_fields_def)

lemma discovery_fields:
  "poll_fields (handleAdvertise mode sent s) = poll_fields s"
  "poll_fields (handleDiscoverMesh target s) = poll_fields s"
  "poll_fields (mesh_discovered mesh s) = poll_fields s"
  "poll_fields (handleDiscoverRegions s) = poll_fields s"
  "poll_fields (regions_discovered regions s) = poll_fields s"
  by (simp_all add: handleAdvertise_def handleDiscoverMesh_def mesh_discovered_def handleDiscoverRegions_def
      regions_discovered_def radio_toast_def poll_fields_def Let_def split: sum.split)

lemma polls_inv_step: "radio_step s s' \<Longrightarrow> polls_inv s \<Longrightarrow> polls_inv s'"
proof (induction rule: radio_step.induct)
  case (radio_unmount s)
  then show ?case by (auto simp: control_unmounted_def polls_inv_def poll_ok_def)
next
  case (radio_timer i s)
  then show ?case using polls_inv_timer by blast
next
  case (radio_answer i s ans)
  then show ?case using polls_inv_answer by blast
next
  case (radio_reboot s answer)
  then show ?case by (rule polls_inv_reboot)
qed (erule unaffected [rotated], simp only: setHealth_fields control_fields discovery_fields)+

lemma polls_inv_reachable: "radio_reachable s \<Longrightarrow> polls_inv s"
proof (induction rule: radio_reachable.induct)
  case control_start
  then show ?case by (simp add: radio_init_def polls_inv_def POLL_ROUNDS_def)
qed (rule polls_inv_step)

text \<open>C18. Waiting for a radio to come back ends: a reboot asks for the health at most thirty times, however the answers, further
  reboots and the other actions interleave; and never do two polls belong to the same reboot, so that at most the newest one can
  still change what is shown.\<close>

theorem reboot_polls_bounded:
  assumes "radio_reachable s"
  shows "count_list (rd_asked s) t \<le> 30 \<and> length (filter (\<lambda>p. pl_token p = t) (rd_polls s)) \<le> 1 \<and>
    (\<forall>i < length (rd_polls s). pl_token (rd_polls s ! i) \<noteq> rd_token s \<longrightarrow>
       rd_health (poll_answer i ans s) = rd_health s \<and> rd_fetches (poll_answer i ans s) = rd_fetches s \<and>
       rd_asked (poll_timer i s) = rd_asked s)"
proof -
  have inv: "polls_inv s" using assms by (rule polls_inv_reachable)
  have "length (filter (\<lambda>p. f p = t) xs) \<le> 1" if "distinct (map f xs)" for f :: "poll \<Rightarrow> nat" and xs
    using that
  proof (induction xs)
    case (Cons x xs)
    then have "filter (\<lambda>p. f p = f x) xs = []" by (auto simp: filter_empty_conv image_iff)
    with Cons show ?case by auto
  qed simp
  then have "length (filter (\<lambda>p. pl_token p = t) (rd_polls s)) \<le> 1" using inv unfolding polls_inv_def by blast
  moreover have "count_list (rd_asked s) t \<le> 30" using inv unfolding polls_inv_def POLL_ROUNDS_def by blast
  moreover have "rd_health (poll_answer i ans s) = rd_health s \<and> rd_fetches (poll_answer i ans s) = rd_fetches s \<and>
      rd_asked (poll_timer i s) = rd_asked s" if "pl_token (rd_polls s ! i) \<noteq> rd_token s" for i
    using that by (auto simp: poll_answer_def poll_timer_def poll_continues_def Let_def split: sum.split)
  ultimately show ?thesis by blast
qed

lemma reboot_polls_bounded_witness:
  "length (rd_polls (snd (handleReboot (Inr ()) radio_init))) = 1 \<and>
   length (filter (\<lambda>p. pl_token p = 1) (rd_polls (snd (handleReboot (Inr ()) radio_init)))) \<le> 1"
proof -
  have "radio_reachable (snd (handleReboot (Inr ()) radio_init))" by (rule control_more [OF control_start radio_reboot])
  from reboot_polls_bounded [OF this, of 1] show ?thesis by (simp add: handleReboot_def radio_init_def setHealth_def)
qed

section \<open>A radio that comes back is noticed\<close>

text \<open>The poll at an index alone: the timer and the answer of each round.\<close>

fun poll_run :: "nat \<Rightarrow> (thrown + health_status) list \<Rightarrow> radio_control \<Rightarrow> radio_control" where
  "poll_run i [] s = s"
| "poll_run i (a # as) s = poll_run i as (poll_answer i a (poll_timer i s))"

definition not_back :: "thrown + health_status \<Rightarrow> bool" where
  "not_back a \<longleftrightarrow> (case a of Inl _ \<Rightarrow> True | Inr data \<Rightarrow> \<not> hs_radio_connected data)"

lemma poll_run_append: "poll_run i (as @ bs) s = poll_run i bs (poll_run i as s)"
  by (induction as arbitrary: s) auto

lemma poll_waits:
  assumes "rd_polls s = ps @ [\<lparr> pl_token = rd_token s, pl_round = r, pl_asking = False \<rparr>]" and "not_back a" and "r + 1 < POLL_ROUNDS"
  defines "s' \<equiv> poll_answer (length ps) a (poll_timer (length ps) s)"
  shows "rd_polls s' = ps @ [\<lparr> pl_token = rd_token s, pl_round = r + 1, pl_asking = False \<rparr>] \<and> rd_token s' = rd_token s
    \<and> rd_fetches s' = rd_fetches s"
  using assms(1-3) unfolding s'_def
  by (auto simp: poll_timer_def poll_answer_def poll_continues_def next_round_def not_back_def Let_def nth_append split: sum.splits)

lemma poll_runs:
  assumes "rd_polls s = ps @ [\<lparr> pl_token = rd_token s, pl_round = r, pl_asking = False \<rparr>]" and "list_all not_back as"
    and "r + length as < POLL_ROUNDS"
  shows "rd_polls (poll_run (length ps) as s) = ps @ [\<lparr> pl_token = rd_token s, pl_round = r + length as, pl_asking = False \<rparr>]
    \<and> rd_token (poll_run (length ps) as s) = rd_token s \<and> rd_fetches (poll_run (length ps) as s) = rd_fetches s"
  using assms
proof (induction as arbitrary: s r)
  case (Cons a as)
  let ?s = "poll_answer (length ps) a (poll_timer (length ps) s)"
  have w: "rd_polls ?s = ps @ [\<lparr> pl_token = rd_token s, pl_round = r + 1, pl_asking = False \<rparr>]" "rd_token ?s = rd_token s"
    "rd_fetches ?s = rd_fetches s"
    using poll_waits [OF Cons.prems(1), of a] Cons.prems(2,3) by simp_all
  from Cons.IH [of ?s "r + 1"] w Cons.prems(2,3) show ?case by simp
qed simp

text \<open>When a rebooted radio answers that it is connected within thirty polls, its health is shown and its configuration is read
  once, whatever failures and answers of a radio that is not yet back came before; and the poll is over.\<close>

theorem reboot_noticed:
  assumes "list_all not_back fails" and "length fails < 30" and "hs_radio_connected data"
    and "s = snd (handleReboot (Inr ()) s0)" and "s' = poll_run (length (rd_polls s0)) (fails @ [Inr data]) s"
  shows "rd_health s' = Some data \<and> rd_fetches s' = rd_fetches s0 + 1 \<and> rd_polls s' = rd_polls s0"
proof -
  let ?n = "length (rd_polls s0)"
  have s: "rd_polls s = rd_polls s0 @ [\<lparr> pl_token = rd_token s, pl_round = 0, pl_asking = False \<rparr>]" "rd_fetches s = rd_fetches s0"
    by (simp_all add: assms(4) handleReboot_def Let_def)
  let ?t = "poll_run ?n fails s"
  have t: "rd_polls ?t = rd_polls s0 @ [\<lparr> pl_token = rd_token s, pl_round = length fails, pl_asking = False \<rparr>]"
    "rd_token ?t = rd_token s" "rd_fetches ?t = rd_fetches s0"
    using poll_runs [OF s(1) assms(1)] assms(2) s(2) by (simp_all add: POLL_ROUNDS_def)
  have "s' = poll_answer ?n (Inr data) (poll_timer ?n ?t)" by (simp add: assms(5) poll_run_append)
  then show ?thesis
    using t assms(3)
    by (simp add: poll_timer_def poll_answer_def poll_continues_def fetchConfig_def Let_def nth_append)
qed

lemma reboot_noticed_witness:
  "rd_health (poll_run 0 [Inl Thrown_value,
     Inr \<lparr> hs_radio_connected = True, hs_radio_initializing = False, hs_radio_state = None, hs_connection_info = None \<rparr>]
     (snd (handleReboot (Inr ()) radio_init)))
    = Some \<lparr> hs_radio_connected = True, hs_radio_initializing = False, hs_radio_state = None, hs_connection_info = None \<rparr>"
proof -
  let ?d = "\<lparr> hs_radio_connected = True, hs_radio_initializing = False, hs_radio_state = None, hs_connection_info = None \<rparr>"
  have "list_all not_back [Inl Thrown_value]" by (simp add: not_back_def)
  from reboot_noticed [OF this, of ?d _ radio_init, OF _ _ refl refl] show ?thesis by (simp add: radio_init_def)
qed

end
