(* ===== verification/Notifications.thy ===== *)
theory Notifications
  imports Unread_Counts Url_Hash Preferences
begin

text \<open>
  What reaches a user who looks elsewhere: the desktop notifications of \<^verbatim>\<open>hooks/useBrowserNotifications.ts\<close>, and the
  title and icon of the tab, \<^verbatim>\<open>hooks/useFaviconBadge.ts\<close>.

  The permission prompt is awaited, so the toggle is cut there. A write of the stored map runs inside a state update
  and is not guarded: \<open>Inl\<close> is the exception that reaches React.
\<close>

section \<open>The stored choice\<close>

type_synonym conversation_notification_map = "(string, bool) jsmap"

datatype permission = Perm_granted | Perm_denied | Perm_default | Perm_unsupported

definition NOTIFICATIONS_KEY :: string where
  "NOTIFICATIONS_KEY = ''meshcore_browser_notifications_enabled_by_conversation''"

definition NOTIFICATION_ICON_PATH :: string where "NOTIFICATION_ICON_PATH = ''./favicon-256x256.png''"

text \<open>\<^verbatim>\<open>Object.entries\<close> of what \<^verbatim>\<open>typeof\<close> calls an object; anything else has been refused before.\<close>

fun object_entries :: "json \<Rightarrow> (string \<times> json) list" where
  "object_entries (JObj members) = members"
| "object_entries (JArr xs) = zip (map show_nat [0..<length xs]) xs"
| "object_entries _ = []"

definition readStoredEnabledMap :: "json_storage \<Rightarrow> conversation_notification_map" where
  "readStoredEnabledMap ws =
     (case stored_object NOTIFICATIONS_KEY ws of
        None \<Rightarrow> []
      | Some parsed \<Rightarrow>
          fold (\<lambda>(key, value) m. jm_set key True m) (filter (\<lambda>(key, value). value = JBool True) (object_entries parsed)) [])"

definition writeStoredEnabledMap :: "conversation_notification_map \<Rightarrow> json_storage \<Rightarrow> storage_error + json_storage" where
  "writeStoredEnabledMap m ws =
     (if ws_available ws
      then Inr (ws\<lparr> ws_items := jm_set NOTIFICATIONS_KEY (Some (JObj (map (\<lambda>(k, b). (k, JBool b)) m))) (ws_items ws) \<rparr>)
      else Inl SecurityError)"

section \<open>Titles and addresses\<close>

definition getMessageConversationNotificationKey :: "message \<Rightarrow> string option" where
  "getMessageConversationNotificationKey msg =
     (if m_type msg = PRIV \<and> m_conversation_key msg \<noteq> [] then Some (getStateKey Tr_contact (m_conversation_key msg))
      else if m_type msg = CHAN \<and> m_conversation_key msg \<noteq> [] then Some (getStateKey Tr_channel (m_conversation_key msg))
      else None)"

definition buildNotificationTitle :: "message \<Rightarrow> string" where
  "buildNotificationTitle msg =
     (if m_type msg = PRIV
      then (if truthy (m_sender_name msg) then ''New message from '' @ the (m_sender_name msg)
            else ''New message from '' @ take 12 (m_conversation_key msg))
      else ''New message in '' @ or_else (nullish (m_channel_name msg)) (take 8 (m_conversation_key msg)))"

definition buildPreviewNotificationTitle :: "tracked_type \<Rightarrow> string \<Rightarrow> string" where
  "buildPreviewNotificationTitle type label =
     (if type = Tr_contact then ''New message from '' @ label else ''New message in '' @ label)"

definition buildMessageNotificationHash :: "message \<Rightarrow> string option" where
  "buildMessageNotificationHash msg =
     (if m_type msg = PRIV \<and> m_conversation_key msg \<noteq> []
      then (let label = or_else (m_sender_name msg) (take 12 (m_conversation_key msg))
            in Some (''#contact/'' @ encodeURIComponent (m_conversation_key msg) @ ''/'' @ encodeURIComponent label))
      else if m_type msg = CHAN \<and> m_conversation_key msg \<noteq> []
      then (let label = or_else (nullish (m_channel_name msg)) (take 8 (m_conversation_key msg))
            in Some (''#channel/'' @ encodeURIComponent (m_conversation_key msg) @ ''/'' @ encodeURIComponent label))
      else None)"

section \<open>Toasts\<close>

datatype toast_level = Level_success | Level_warning | Level_error

record notification_toast =
  nt_level :: toast_level
  nt_title :: string
  nt_description :: "string option"

definition getNotificationEnableToastInfo :: "string \<Rightarrow> bool \<Rightarrow> notification_toast" where
  "getNotificationEnableToastInfo protocol isSecureContext =
     (if protocol = ''http:''
      then \<lparr> nt_level = Level_warning, nt_title = ''Notifications enabled with warning'',
             nt_description = Some ''Desktop notifications are on for this conversation, but you are using HTTP instead of HTTPS. Notifications will likely not work reliably.'' \<rparr>
      else if protocol = ''https:'' \<and> \<not> isSecureContext
      then \<lparr> nt_level = Level_warning, nt_title = ''Notifications enabled with warning'',
             nt_description = Some ''Desktop notifications are on for this conversation, but your HTTPS connection is untrusted, such as a self-signed certificate. Notification delivery may be inconsistent depending on your browser.'' \<rparr>
      else \<lparr> nt_level = Level_success, nt_title = ''Notifications enabled'', nt_description = None \<rparr>)"

section \<open>The hook\<close>

record desktop_notification =
  dn_title :: string
  dn_body :: string
  dn_icon :: string
  dn_tag :: string

record notification_state =
  nf_permission :: permission
  nf_enabled :: conversation_notification_map
  nf_storage :: json_storage
  nf_toasts :: "notification_toast list"
  nf_shown :: "desktop_notification list"

text \<open>The first render, on a page whose permission is \<open>p\<close>.\<close>

definition notifications_init :: "permission \<Rightarrow> json_storage \<Rightarrow> notification_state" where
  "notifications_init p ws =
     \<lparr> nf_permission = p, nf_enabled = readStoredEnabledMap ws, nf_storage = ws, nf_toasts = [], nf_shown = [] \<rparr>"

definition isConversationNotificationsEnabled :: "tracked_type \<Rightarrow> string \<Rightarrow> notification_state \<Rightarrow> bool" where
  "isConversationNotificationsEnabled type i st \<longleftrightarrow>
     nf_permission st = Perm_granted \<and> jm_get (nf_enabled st) (getStateKey type i) = Some True"

definition toast_message :: "toast_level \<Rightarrow> string \<Rightarrow> string \<Rightarrow> notification_state \<Rightarrow> notification_state" where
  "toast_message level title description st =
     st\<lparr> nf_toasts := nf_toasts st @ [\<lparr> nt_level = level, nt_title = title, nt_description = Some description \<rparr>] \<rparr>"

definition setEnabledByConversation ::
  "(conversation_notification_map \<Rightarrow> conversation_notification_map) \<Rightarrow> notification_state \<Rightarrow> storage_error + notification_state" where
  "setEnabledByConversation updater st =
     (let next = updater (nf_enabled st) in
      case writeStoredEnabledMap next (nf_storage st) of
        Inl e \<Rightarrow> Inl e
      | Inr ws \<Rightarrow> Inr (st\<lparr> nf_enabled := next, nf_storage := ws \<rparr>))"

text \<open>A toggle up to the prompt: the new state and whether the prompt is opened.\<close>

definition toggleConversationNotifications ::
  "tracked_type \<Rightarrow> string \<Rightarrow> string \<Rightarrow> notification_state \<Rightarrow> storage_error + notification_state \<times> bool" where
  "toggleConversationNotifications type i label st =
     (let conversationKey = getStateKey type i in
      if jm_get (nf_enabled st) conversationKey = Some True
      then (case setEnabledByConversation (jm_delete conversationKey) st of
              Inl e \<Rightarrow> Inl e
            | Inr st \<Rightarrow> Inr (toast_message Level_success ''Notifications disabled''
                                (''Desktop notifications are off for '' @ label @ ''.'') st, False))
      else if nf_permission st = Perm_unsupported
      then Inr (toast_message Level_error ''Notifications unavailable'' ''This browser does not support desktop notifications.'' st, False)
      else if nf_permission st = Perm_denied
      then Inr (toast_message Level_error ''Notifications blocked''
                  ''Desktop notifications are blocked by your browser. Allow notifications in browser settings, then try again. Non-HTTPS or untrusted HTTPS origins may also prevent notifications from working reliably.'' st, False)
      else Inr (st, True))"

text \<open>The prompt has been answered.\<close>

definition permission_answered ::
  "string \<Rightarrow> bool \<Rightarrow> tracked_type \<Rightarrow> string \<Rightarrow> string \<Rightarrow> permission \<Rightarrow> notification_state \<Rightarrow> storage_error + notification_state" where
  "permission_answered protocol secure type i label nextPermission st =
     (let conversationKey = getStateKey type i;
          st = st\<lparr> nf_permission := nextPermission \<rparr>
      in if nextPermission = Perm_granted
         then (case setEnabledByConversation (jm_set conversationKey True) st of
                 Inl e \<Rightarrow> Inl e
               | Inr st \<Rightarrow>
                   (let st = st\<lparr> nf_shown := nf_shown st @
                          [\<lparr> dn_title = buildPreviewNotificationTitle type label,
                             dn_body = ''Notifications will look like this. These require the tab to stay open, and will not be reliable on mobile.'',
                             dn_icon = NOTIFICATION_ICON_PATH,
                             dn_tag = ''meshcore-notification-preview-'' @ conversationKey \<rparr>] \<rparr>;
                        toastInfo = getNotificationEnableToastInfo protocol secure
                    in Inr (if nt_level toastInfo = Level_warning
                            then st\<lparr> nf_toasts := nf_toasts st @
                                   [\<lparr> nt_level = Level_warning, nt_title = nt_title toastInfo, nt_description = nt_description toastInfo \<rparr>] \<rparr>
                            else toast_message Level_success (nt_title toastInfo) (''Desktop notifications are on for '' @ label @ ''.'') st)))
         else Inr (toast_message Level_error ''Notifications not enabled''
                     (if nextPermission = Perm_denied
                      then ''Desktop notifications were denied by your browser. Allow notifications in browser settings, then try again.''
                      else ''The browser permission request was dismissed.'') st))"

definition shouldShowDesktopNotification :: "string \<Rightarrow> bool \<Rightarrow> bool" where
  "shouldShowDesktopNotification visibilityState hasFocus \<longleftrightarrow> visibilityState \<noteq> ''visible'' \<or> \<not> hasFocus"

definition notifyIncomingMessage :: "string \<Rightarrow> bool \<Rightarrow> message \<Rightarrow> notification_state \<Rightarrow> notification_state" where
  "notifyIncomingMessage visibilityState hasFocus msg st =
     (case getMessageConversationNotificationKey msg of
        None \<Rightarrow> st
      | Some conversationKey \<Rightarrow>
          if nf_permission st \<noteq> Perm_granted \<or> jm_get (nf_enabled st) conversationKey \<noteq> Some True
             \<or> \<not> shouldShowDesktopNotification visibilityState hasFocus
          then st
          else st\<lparr> nf_shown := nf_shown st @
                 [\<lparr> dn_title = buildNotificationTitle msg, dn_body = m_text msg, dn_icon = NOTIFICATION_ICON_PATH,
                    dn_tag = ''meshcore-message-'' @ show_int (m_id msg) \<rparr>] \<rparr>)"

text \<open>Where a click on the notification takes the tab.\<close>

definition notification_clicked :: "string \<Rightarrow> string \<Rightarrow> message \<Rightarrow> string option" where
  "notification_clicked origin pathname msg = map_option (\<lambda>hash. origin @ pathname @ hash) (buildMessageNotificationHash msg)"

section \<open>The choice is kept\<close>

datatype notification_action =
    Act_toggle tracked_type string string
  | Act_answer string bool tracked_type string string permission
  | Act_message string bool message

fun notification_act :: "notification_action \<Rightarrow> notification_state \<Rightarrow> storage_error + notification_state" where
  "notification_act (Act_toggle type i label) st = map_sum id fst (toggleConversationNotifications type i label st)"
| "notification_act (Act_answer protocol secure type i label p) st = permission_answered protocol secure type i label p st"
| "notification_act (Act_message vis focus msg) st = Inr (notifyIncomingMessage vis focus msg st)"

fun notification_run :: "notification_action list \<Rightarrow> notification_state \<Rightarrow> storage_error + notification_state" where
  "notification_run [] st = Inr st"
| "notification_run (a # as) st = (case notification_act a st of Inl e \<Rightarrow> Inl e | Inr st' \<Rightarrow> notification_run as st')"

definition enabled_ok :: "conversation_notification_map \<Rightarrow> bool" where
  "enabled_ok m \<longleftrightarrow> jm_wf m \<and> (\<forall>kv \<in> set m. snd kv)"

lemma enabled_ok_set: "enabled_ok m \<Longrightarrow> enabled_ok (jm_set k True m)"
  by (auto simp: enabled_ok_def jsmap set_jm_set)

lemma enabled_ok_delete: "enabled_ok m \<Longrightarrow> enabled_ok (jm_delete k m)"
  by (auto simp: enabled_ok_def jsmap set_jm_delete)

lemma enabled_ok_fold: "enabled_ok acc \<Longrightarrow> enabled_ok (fold (\<lambda>(k, v) m. jm_set k True m) kvs acc)"
  by (induction kvs arbitrary: acc) (auto simp: enabled_ok_set)

lemma enabled_ok_read: "enabled_ok (readStoredEnabledMap ws)"
proof -
  have "enabled_ok []" by (simp add: enabled_ok_def)
  then show ?thesis by (simp add: readStoredEnabledMap_def enabled_ok_fold split: option.split)
qed

lemma fold_jm_set_append:
  "jm_wf (acc @ m) \<Longrightarrow> (\<forall>kv \<in> set m. snd kv) \<Longrightarrow>
     fold (\<lambda>(k, v) a. jm_set k True a) (map (\<lambda>(k, b). (k, JBool b)) m) acc = acc @ m"
proof (induction m arbitrary: acc)
  case (Cons kv m)
  obtain k b where kv: "kv = (k, b)" by (cases kv)
  moreover have "k \<notin> set (jm_keys a) \<Longrightarrow> jm_set k True a = a @ [(k, True)]" for a by (induction a) auto
  ultimately have "jm_set k True acc = acc @ [(k, True)]" using Cons.prems by simp
  then show ?case using Cons.prems Cons.IH [of "acc @ [(k, True)]"] kv by simp
qed simp

lemma stored_read_back:
  assumes "enabled_ok m" and "writeStoredEnabledMap m ws = Inr ws'"
  shows "readStoredEnabledMap ws' = m"
proof -
  have "filter (\<lambda>(k, v). v = JBool True) (map (\<lambda>(k, b). (k, JBool b)) m) = map (\<lambda>(k, b). (k, JBool b)) m"
    using assms(1) by (auto simp: enabled_ok_def filter_id_conv)
  then show ?thesis
    using assms fold_jm_set_append [of "[]" m]
    by (auto simp: writeStoredEnabledMap_def readStoredEnabledMap_def stored_object_def getItem_def enabled_ok_def jsmap
        split: if_splits)
qed

definition notifications_ok :: "notification_state \<Rightarrow> bool" where
  "notifications_ok st \<longleftrightarrow> enabled_ok (nf_enabled st) \<and> readStoredEnabledMap (nf_storage st) = nf_enabled st"

lemma setEnabled_ok:
  "setEnabledByConversation f st = Inr st' \<Longrightarrow> enabled_ok (f (nf_enabled st)) \<Longrightarrow> notifications_ok st'"
  by (auto simp: setEnabledByConversation_def Let_def notifications_ok_def stored_read_back split: sum.splits)

lemma toast_ok [simp]: "notifications_ok (toast_message l t d st) = notifications_ok st"
  by (simp add: notifications_ok_def toast_message_def)

lemma notification_toggle_ok:
  "notifications_ok st \<Longrightarrow> toggleConversationNotifications type i label st = Inr (st', asks) \<Longrightarrow> notifications_ok st'"
proof -
  assume ok: "notifications_ok st" and st': "toggleConversationNotifications type i label st = Inr (st', asks)"
  then have "enabled_ok (jm_delete (getStateKey type i) (nf_enabled st))" by (simp add: notifications_ok_def enabled_ok_delete)
  with ok st' setEnabled_ok show ?thesis
    by (auto simp: toggleConversationNotifications_def Let_def split: if_splits sum.splits)
qed

lemma shown_ok [simp]:
  "notifications_ok (st\<lparr> nf_shown := n \<rparr>) = notifications_ok st" "notifications_ok (st\<lparr> nf_toasts := t \<rparr>) = notifications_ok st"
  "notifications_ok (st\<lparr> nf_permission := p \<rparr>) = notifications_ok st"
  by (simp_all add: notifications_ok_def)

lemma answered_ok:
  assumes "notifications_ok st" and "permission_answered protocol secure type i label p st = Inr st'"
  shows "notifications_ok st'"
proof (cases "setEnabledByConversation (jm_set (getStateKey type i) True) (st\<lparr> nf_permission := p \<rparr>)")
  case (Inl e)
  then show ?thesis using assms by (auto simp: permission_answered_def Let_def split: if_splits)
next
  case (Inr st1)
  have "enabled_ok (nf_enabled st)" using assms(1) by (simp add: notifications_ok_def)
  then have "notifications_ok st1" using setEnabled_ok [OF Inr] by (simp add: enabled_ok_set)
  then show ?thesis using assms Inr by (auto simp: permission_answered_def Let_def split: if_splits)
qed

lemma act_ok: "notifications_ok st \<Longrightarrow> notification_act a st = Inr st' \<Longrightarrow> notifications_ok st'"
proof (cases a)
  case (Act_toggle type i label)
  assume "notifications_ok st" "notification_act a st = Inr st'"
  with Act_toggle show ?thesis
    by (cases "toggleConversationNotifications type i label st") (auto simp: notification_toggle_ok)
next
  case (Act_answer protocol secure type i label p)
  assume "notifications_ok st" "notification_act a st = Inr st'"
  with Act_answer show ?thesis by (simp add: answered_ok)
next
  case (Act_message vis focus msg)
  assume "notifications_ok st" "notification_act a st = Inr st'"
  with Act_message show ?thesis by (auto simp: notifyIncomingMessage_def split: option.splits if_splits)
qed

text \<open>A reload finds the conversations as they were left, whatever was toggled, answered and shown.\<close>

theorem notifications_kept:
  assumes "notification_run acts (notifications_init p ws) = Inr st"
  shows "notifications_init (nf_permission st) (nf_storage st) = st\<lparr> nf_toasts := [], nf_shown := [] \<rparr>"
proof -
  have "notification_run acts s = Inr st \<Longrightarrow> notifications_ok s \<Longrightarrow> notifications_ok st" for s
    by (induction acts arbitrary: s) (auto simp: act_ok split: sum.splits)
  moreover have "notifications_ok (notifications_init p ws)"
    by (simp add: notifications_ok_def notifications_init_def enabled_ok_read)
  ultimately have "notifications_ok st" using assms by blast
  then show ?thesis by (simp add: notifications_init_def notifications_ok_def)
qed

text \<open>A click on a notification opens the conversation its message belongs to.\<close>

theorem notification_leads_home:
  assumes "buildMessageNotificationHash msg = Some hash"
  shows "parseHashConversation hash =
     Inr (Some ((hash_view (if m_type msg = CHAN then Cv_channel else Cv_contact) (m_conversation_key msg))
       \<lparr> ph_label := Some (if m_type msg = CHAN then or_else (nullish (m_channel_name msg)) (take 8 (m_conversation_key msg))
                           else or_else (m_sender_name msg) (take 12 (m_conversation_key msg))) \<rparr>))"
proof -
  define i where "i = m_conversation_key msg"
  have i: "i \<noteq> []" using assms by (auto simp: buildMessageNotificationHash_def i_def split: if_splits)
  have label: "or_else s (take (Suc k) i) \<noteq> []" for s k using i by (auto simp: or_else_def truthy_iff)
  have twelve: "or_else s (take 12 i) \<noteq> []" and eight: "or_else s (take 8 i) \<noteq> []" for s
    using label [of s 11] label [of s 7] by (simp_all add: eval_nat_numeral)
  show ?thesis
  proof (cases "m_type msg = CHAN")
    case True
    then show ?thesis
      using assms parse_data_hash [OF i, of "''channel''" "or_else (nullish (m_channel_name msg)) (take 8 i)"] eight
      by (simp add: buildMessageNotificationHash_def Let_def i_def split: if_splits)
  next
    case False
    then have "m_type msg = PRIV" by (cases "m_type msg") simp_all
    then show ?thesis
      using assms parse_data_hash [OF i, of "''contact''" "or_else (m_sender_name msg) (take 12 i)"] twelve
      by (simp add: buildMessageNotificationHash_def Let_def i_def split: if_splits)
  qed
qed

text \<open>A message is announced under the key its unread count is kept under.\<close>

lemma notification_key_is_unread_key: "getMessageConversationNotificationKey msg = message_state_key msg"
  by (cases "m_type msg") (simp_all add: getMessageConversationNotificationKey_def message_state_key_def)

text \<open>After the permission was taken back in the browser a conversation that was on is shown as off, and the first
  click turns it off once more instead of asking.\<close>

lemma revoked_toggle_disables:
  assumes "jm_get (nf_enabled st) (getStateKey type i) = Some True" and "nf_permission st \<noteq> Perm_granted"
    and "ws_available (nf_storage st)"
  shows "\<not> isConversationNotificationsEnabled type i st
     \<and> (\<exists>st'. toggleConversationNotifications type i label st = Inr (st', False)
          \<and> nt_title (last (nf_toasts st')) = ''Notifications disabled'')"
  using assms
  by (simp add: isConversationNotificationsEnabled_def toggleConversationNotifications_def Let_def setEnabledByConversation_def
      writeStoredEnabledMap_def toast_message_def)

text \<open>Where storage is disabled the permission is asked for, and granting it throws inside the update.\<close>

lemma grant_without_storage_throws:
  assumes "\<not> ws_available (nf_storage st)"
  shows "permission_answered protocol secure type i label Perm_granted st = Inl SecurityError"
  using assms by (simp add: permission_answered_def Let_def setEnabledByConversation_def writeStoredEnabledMap_def)

lemma run_with_storage:
  assumes "ws_available (nf_storage st)"
  shows "\<exists>st'. notification_run acts st = Inr st'"
proof -
  have set: "\<exists>st'. setEnabledByConversation f s = Inr st' \<and> ws_available (nf_storage st')"
    if "ws_available (nf_storage s)" for f s
    using that by (simp add: setEnabledByConversation_def Let_def writeStoredEnabledMap_def)
  have step: "\<exists>s'. notification_act a s = Inr s' \<and> ws_available (nf_storage s')" if "ws_available (nf_storage s)" for a s
  proof (cases a)
    case (Act_toggle type i label)
    then show ?thesis using that set [OF that, of "jm_delete (getStateKey type i)"]
      by (auto simp: toggleConversationNotifications_def Let_def toast_message_def)
  next
    case (Act_answer protocol secure type i label p)
    then show ?thesis using that set [of "s\<lparr> nf_permission := p \<rparr>" "jm_set (getStateKey type i) True"]
      by (auto simp: permission_answered_def Let_def toast_message_def)
  qed (use that in \<open>auto simp: notifyIncomingMessage_def split: option.splits\<close>)
  show ?thesis using assms
  proof (induction acts arbitrary: st)
    case (Cons a as)
    then show ?case using step [OF Cons.prems, of a] by auto
  qed simp
qed

section \<open>The title of the tab\<close>

definition APP_TITLE :: string where "APP_TITLE = ''RemoteTerm for MeshCore''"
definition UNREAD_APP_TITLE :: string where "UNREAD_APP_TITLE = ''RemoteTerm''"

type_synonym unread_map = "(string, nat) jsmap"

definition unread_of :: "unread_map \<Rightarrow> tracked_type \<Rightarrow> string \<Rightarrow> nat" where
  "unread_of unreadCounts type i = coalesce (jm_get unreadCounts (getStateKey type i)) 0"

definition getUnreadDirectMessageCount :: "unread_map \<Rightarrow> nat" where
  "getUnreadDirectMessageCount unreadCounts =
     fold (\<lambda>(stateKey, count) sum. sum + (if starts_with stateKey ''contact-'' then count else 0)) unreadCounts 0"

definition getUnreadFavoriteChannelCount :: "unread_map \<Rightarrow> channel list \<Rightarrow> nat" where
  "getUnreadFavoriteChannelCount unreadCounts channels =
     fold (\<lambda>channel sum. sum + (if ch_favorite channel then unread_of unreadCounts Tr_channel (ch_key channel) else 0)) channels 0"

definition getFavoriteUnreadCount :: "unread_map \<Rightarrow> contact list \<Rightarrow> channel list \<Rightarrow> nat" where
  "getFavoriteUnreadCount unreadCounts contacts channels =
     fold (\<lambda>channel sum. if ch_favorite channel then sum + unread_of unreadCounts Tr_channel (ch_key channel) else sum) channels
       (fold (\<lambda>contact sum. if ct_favorite contact then sum + unread_of unreadCounts Tr_contact (ct_public_key contact) else sum)
          contacts 0)"

definition getUnreadTitle :: "unread_map \<Rightarrow> contact list \<Rightarrow> channel list \<Rightarrow> string" where
  "getUnreadTitle unreadCounts contacts channels =
     (let unreadCount = getFavoriteUnreadCount unreadCounts contacts channels in
      if unreadCount \<le> 0 then APP_TITLE
      else ''('' @ (if unreadCount > 99 then ''99+'' else show_nat unreadCount) @ '') '' @ UNREAD_APP_TITLE)"

section \<open>The icon of the tab\<close>

datatype favicon_badge_state = Badge_none | Badge_green | Badge_red

definition GREEN_BADGE_FILL :: string where "GREEN_BADGE_FILL = ''#16a34a''"
definition RED_BADGE_FILL :: string where "RED_BADGE_FILL = ''#dc2626''"
definition BASE_FAVICON_PATH :: string where "BASE_FAVICON_PATH = ''./favicon.svg''"
definition BADGE_CENTER :: nat where "BADGE_CENTER = 750"
definition BADGE_OUTER_RADIUS :: nat where "BADGE_OUTER_RADIUS = 220"
definition BADGE_INNER_RADIUS :: nat where "BADGE_INNER_RADIUS = 180"

definition deriveFaviconBadgeState :: "unread_map \<Rightarrow> (string, bool) jsmap \<Rightarrow> channel list \<Rightarrow> favicon_badge_state" where
  "deriveFaviconBadgeState unreadCounts mentions channels =
     (if (\<exists>b \<in> set (map snd mentions). b) \<or> getUnreadDirectMessageCount unreadCounts > 0 then Badge_red
      else if getUnreadFavoriteChannelCount unreadCounts channels > 0 then Badge_green
      else Badge_none)"

fun last_index_of :: "string \<Rightarrow> string \<Rightarrow> nat option" where
  "last_index_of [] p = (if p = [] then Some 0 else None)"
| "last_index_of (c # cs) p =
     (case last_index_of cs p of
        Some i \<Rightarrow> Some (Suc i)
      | None \<Rightarrow> if starts_with (c # cs) p then Some 0 else None)"

definition newline :: string where "newline = [char_of (10 :: nat)]"

definition badge_circle :: "nat \<Rightarrow> string \<Rightarrow> string" where
  "badge_circle r fill =
     ''    <circle cx=\"'' @ show_nat BADGE_CENTER @ ''\" cy=\"'' @ show_nat BADGE_CENTER @ ''\" r=\"'' @ show_nat r
       @ ''\" fill=\"'' @ fill @ ''\"/>''"

definition buildBadgedFaviconSvg :: "string \<Rightarrow> string \<Rightarrow> string" where
  "buildBadgedFaviconSvg baseSvg badgeFill =
     (case last_index_of baseSvg ''</svg>'' of
        None \<Rightarrow> baseSvg
      | Some closingTagIndex \<Rightarrow>
          (let badge = newline @ badge_circle BADGE_OUTER_RADIUS ''#ffffff'' @ newline
                 @ badge_circle BADGE_INNER_RADIUS badgeFill @ newline @ ''  ''
           in take closingTagIndex baseSvg @ badge @ ''</svg>''))"

text \<open>The icon is the file or an object URL, of which the browser keeps the content until it is revoked. \<open>fv_pending\<close> holds the
  runs of the effect whose file is still loading with their colour; a run is cancelled when it is not \<open>fv_current\<close>.\<close>

datatype favicon_href = Href_base | Href_object nat

record favicon_state =
  fv_badge :: favicon_badge_state
  fv_objectUrl :: "nat option"
  fv_live :: "(nat \<times> string) list"
  fv_nextUrl :: nat
  fv_href :: favicon_href
  fv_current :: "nat option"
  fv_nextRun :: nat
  fv_pending :: "(nat \<times> string) list"

definition badge_fill :: "favicon_badge_state \<Rightarrow> string" where
  "badge_fill b = (if b = Badge_red then RED_BADGE_FILL else GREEN_BADGE_FILL)"

definition revoke_url :: "favicon_state \<Rightarrow> favicon_state" where
  "revoke_url st =
     (case fv_objectUrl st of
        None \<Rightarrow> st
      | Some u \<Rightarrow> st\<lparr> fv_live := filter (\<lambda>(v, _). v \<noteq> u) (fv_live st), fv_objectUrl := None \<rparr>)"

definition favicon_effect :: "favicon_state \<Rightarrow> favicon_state" where
  "favicon_effect st =
     (let st = revoke_url st in
      if fv_badge st = Badge_none then st\<lparr> fv_href := Href_base, fv_current := None \<rparr>
      else st\<lparr> fv_current := Some (fv_nextRun st), fv_nextRun := fv_nextRun st + 1,
               fv_pending := fv_pending st @ [(fv_nextRun st, badge_fill (fv_badge st))] \<rparr>)"

text \<open>The cleanup of a run; a run without a badge returned none, and then neither flag nor URL is left to it.\<close>

definition favicon_cleanup :: "favicon_state \<Rightarrow> favicon_state" where
  "favicon_cleanup st = (case fv_current st of None \<Rightarrow> st | Some _ \<Rightarrow> revoke_url (st\<lparr> fv_current := None \<rparr>))"

definition favicon_mount :: "favicon_badge_state \<Rightarrow> favicon_state" where
  "favicon_mount b = favicon_effect
     \<lparr> fv_badge = b, fv_objectUrl = None, fv_live = [], fv_nextUrl = 0, fv_href = Href_base, fv_current = None, fv_nextRun = 0,
       fv_pending = [] \<rparr>"

definition favicon_render :: "favicon_badge_state \<Rightarrow> favicon_state \<Rightarrow> favicon_state" where
  "favicon_render b st = (if b = fv_badge st then st else favicon_effect ((favicon_cleanup st)\<lparr> fv_badge := b \<rparr>))"

text \<open>The file of a run has loaded, or failed to load (\<open>None\<close>).\<close>

definition favicon_loaded :: "nat \<Rightarrow> string option \<Rightarrow> favicon_state \<Rightarrow> favicon_state" where
  "favicon_loaded run base st =
     (case jm_get (fv_pending st) run of
        None \<Rightarrow> st
      | Some fill \<Rightarrow>
          (let cancelled = fv_current st \<noteq> Some run;
               st = st\<lparr> fv_pending := jm_delete run (fv_pending st) \<rparr>
           in if cancelled then st
              else case base of
                     Some svg \<Rightarrow>
                       (let objectUrl = fv_nextUrl st
                        in st\<lparr> fv_nextUrl := objectUrl + 1,
                               fv_live := fv_live st @ [(objectUrl, buildBadgedFaviconSvg svg fill)],
                               fv_objectUrl := Some objectUrl, fv_href := Href_object objectUrl \<rparr>)
                   | None \<Rightarrow> st\<lparr> fv_href := Href_base \<rparr>))"

inductive favicon_reachable :: "favicon_state \<Rightarrow> bool" where
  mount: "favicon_reachable (favicon_mount b)"
| render: "favicon_reachable st \<Longrightarrow> favicon_reachable (favicon_render b st)"
| loaded: "favicon_reachable st \<Longrightarrow> favicon_reachable (favicon_loaded run base st)"

section \<open>What the tab shows\<close>

lemma fold_sum_pos: "fold (\<lambda>x sum. sum + f x) xs (a :: nat) > 0 \<longleftrightarrow> a > 0 \<or> (\<exists>x \<in> set xs. f x > 0)"
  by (induction xs arbitrary: a) auto

lemma direct_count_pos:
  "getUnreadDirectMessageCount m > 0 \<longleftrightarrow> (\<exists>(k, n) \<in> set m. starts_with k ''contact-'' \<and> n > 0)"
proof -
  have sum: "getUnreadDirectMessageCount m = fold (\<lambda>kv sum. sum + (if starts_with (fst kv) ''contact-'' then snd kv else 0)) m 0"
    by (simp add: getUnreadDirectMessageCount_def split_def)
  show ?thesis unfolding sum fold_sum_pos by (simp add: split_def) (rule bex_cong, auto)
qed

lemma favorite_channel_count_pos:
  "getUnreadFavoriteChannelCount m chs > 0 \<longleftrightarrow> (\<exists>c \<in> set chs. ch_favorite c \<and> unread_of m Tr_channel (ch_key c) > 0)"
  by (auto simp: getUnreadFavoriteChannelCount_def fold_sum_pos split: if_splits)

text \<open>The badge is red exactly when there is a mention or an unread direct message, and otherwise green exactly when a
  favourite channel has unread messages.\<close>

theorem badge_iff:
  "deriveFaviconBadgeState m mentions chs = Badge_red
     \<longleftrightarrow> (\<exists>k. (k, True) \<in> set mentions) \<or> (\<exists>(k, n) \<in> set m. starts_with k ''contact-'' \<and> n > 0)"
  "deriveFaviconBadgeState m mentions chs = Badge_none
     \<longleftrightarrow> (\<forall>(k, b) \<in> set mentions. \<not> b) \<and> (\<forall>(k, n) \<in> set m. starts_with k ''contact-'' \<longrightarrow> n = 0)
        \<and> (\<forall>c \<in> set chs. ch_favorite c \<longrightarrow> unread_of m Tr_channel (ch_key c) = 0)"
proof -
  have m: "(\<exists>b \<in> set (map snd mentions). b) \<longleftrightarrow> (\<exists>k. (k, True) \<in> set mentions)" by force
  show "deriveFaviconBadgeState m mentions chs = Badge_red
     \<longleftrightarrow> (\<exists>k. (k, True) \<in> set mentions) \<or> (\<exists>(k, n) \<in> set m. starts_with k ''contact-'' \<and> n > 0)"
    unfolding deriveFaviconBadgeState_def m direct_count_pos by simp
  show "deriveFaviconBadgeState m mentions chs = Badge_none
     \<longleftrightarrow> (\<forall>(k, b) \<in> set mentions. \<not> b) \<and> (\<forall>(k, n) \<in> set m. starts_with k ''contact-'' \<longrightarrow> n = 0)
        \<and> (\<forall>c \<in> set chs. ch_favorite c \<longrightarrow> unread_of m Tr_channel (ch_key c) = 0)"
    unfolding deriveFaviconBadgeState_def m direct_count_pos favorite_channel_count_pos by (auto split: prod.splits)
qed

lemma contact_key_not_channel [simp]:
  "starts_with (getStateKey Tr_contact i) ''contact-''" "\<not> starts_with (getStateKey Tr_channel i) ''contact-''"
  by (simp_all add: starts_with_def)

definition favicon_inv :: "favicon_state \<Rightarrow> bool" where
  "favicon_inv st \<longleftrightarrow>
     jm_wf (fv_pending st) \<and> (\<forall>n \<in> set (jm_keys (fv_pending st)). n < fv_nextRun st)
     \<and> (case fv_current st of
          None \<Rightarrow> fv_badge st = Badge_none \<and> fv_href st = Href_base \<and> fv_objectUrl st = None \<and> fv_live st = []
        | Some n \<Rightarrow> n < fv_nextRun st \<and> fv_badge st \<noteq> Badge_none
            \<and> (case jm_get (fv_pending st) n of
                 Some fill \<Rightarrow> fill = badge_fill (fv_badge st) \<and> fv_objectUrl st = None \<and> fv_live st = []
               | None \<Rightarrow>
                   (case fv_objectUrl st of
                      None \<Rightarrow> fv_live st = [] \<and> fv_href st = Href_base
                    | Some u \<Rightarrow> fv_href st = Href_object u
                        \<and> (\<exists>svg. fv_live st = [(u, buildBadgedFaviconSvg svg (badge_fill (fv_badge st)))]))))"

lemma favicon_effect_inv:
  assumes "jm_wf (fv_pending st)" and "\<forall>n \<in> set (jm_keys (fv_pending st)). n < fv_nextRun st"
    and "fv_objectUrl st = None" and "fv_live st = []"
  shows "favicon_inv (favicon_effect st)"
proof -
  have "fv_nextRun st \<notin> set (jm_keys (fv_pending st))" using assms(2) by blast
  then show ?thesis
    using assms by (auto simp: favicon_inv_def favicon_effect_def revoke_url_def Let_def map_add_def
        map_of_eq_None_iff split: option.split)
qed

lemma favicon_cleanup_clear:
  assumes "favicon_inv st"
  shows "fv_objectUrl (favicon_cleanup st) = None" "fv_live (favicon_cleanup st) = []"
    "fv_pending (favicon_cleanup st) = fv_pending st" "fv_nextRun (favicon_cleanup st) = fv_nextRun st"
  using assms by (auto simp: favicon_inv_def favicon_cleanup_def revoke_url_def split: option.splits)

lemma favicon_loaded_inv:
  assumes "favicon_inv st"
  shows "favicon_inv (favicon_loaded run base st)"
proof (cases "jm_get (fv_pending st) run")
  case None
  then show ?thesis using assms by (simp add: favicon_loaded_def)
next
  case (Some fill)
  show ?thesis
  proof (cases "fv_current st = Some run")
    case True
    then show ?thesis using assms Some
      by (cases base) (auto simp: favicon_inv_def favicon_loaded_def Let_def jsmap jm_wf_delete)
  next
    case False
    then show ?thesis using assms Some
      by (auto simp: favicon_inv_def favicon_loaded_def Let_def jsmap jm_wf_delete
          simp del: map_of_eq_Some_iff split: option.splits)
  qed
qed

lemma favicon_reachable_inv: "favicon_reachable st \<Longrightarrow> favicon_inv st"
proof (induction rule: favicon_reachable.induct)
  case (mount b)
  then show ?case unfolding favicon_mount_def by (rule favicon_effect_inv) simp_all
next
  case (render st b)
  have inv: "jm_wf (fv_pending st)" "\<forall>n \<in> set (jm_keys (fv_pending st)). n < fv_nextRun st"
    using render.IH by (simp_all add: favicon_inv_def)
  show ?case
  proof (cases "b = fv_badge st")
    case True
    then show ?thesis using render.IH by (simp add: favicon_render_def)
  next
    case False
    have "favicon_inv (favicon_effect ((favicon_cleanup st)\<lparr> fv_badge := b \<rparr>))"
      by (rule favicon_effect_inv) (simp_all add: favicon_cleanup_clear [OF render.IH] inv)
    then show ?thesis using False by (simp add: favicon_render_def)
  qed
next
  case (loaded st run base)
  then show ?case by (simp add: favicon_loaded_inv)
qed

text \<open>However renders and slow responses interleave, at most one object URL is alive, and once the file of the current badge
  has loaded the icon is the file or that URL, with the badge in the current colour; a run that was cancelled
  changes nothing.\<close>

theorem favicon_shows_badge:
  assumes "favicon_reachable st"
  shows "length (fv_live st) \<le> 1"
    and "fv_badge st = Badge_none \<Longrightarrow> fv_href st = Href_base \<and> fv_live st = []"
    and "fv_current st = Some n \<Longrightarrow> n \<notin> set (jm_keys (fv_pending st)) \<Longrightarrow>
       fv_href st = Href_base \<and> fv_live st = []
       \<or> (\<exists>u svg. fv_href st = Href_object u \<and> fv_live st = [(u, buildBadgedFaviconSvg svg (badge_fill (fv_badge st)))])"
    and "fv_current st \<noteq> Some r \<Longrightarrow> fv_href (favicon_loaded r base st) = fv_href st \<and> fv_live (favicon_loaded r base st) = fv_live st"
proof -
  note inv = favicon_reachable_inv [OF assms, unfolded favicon_inv_def]
  show "length (fv_live st) \<le> 1" using inv by (auto split: option.splits)
  show "fv_badge st = Badge_none \<Longrightarrow> fv_href st = Href_base \<and> fv_live st = []" using inv by (auto split: option.splits)
  show "fv_href st = Href_base \<and> fv_live st = []
       \<or> (\<exists>u svg. fv_href st = Href_object u \<and> fv_live st = [(u, buildBadgedFaviconSvg svg (badge_fill (fv_badge st)))])"
    if "fv_current st = Some n" "n \<notin> set (jm_keys (fv_pending st))"
  proof -
    have "jm_get (fv_pending st) n = None" using that(2) by (simp add: map_of_eq_None_iff)
    then show ?thesis using inv that(1) by (auto split: option.splits)
  qed
  show "fv_href (favicon_loaded r base st) = fv_href st \<and> fv_live (favicon_loaded r base st) = fv_live st" if "fv_current st \<noteq> Some r"
    using that by (simp add: favicon_loaded_def Let_def split: option.split)
qed

end
