(* ===== verification/Push_Subscription.thy ===== *)
theory Push_Subscription
  imports Js_Strings
begin

text \<open>
  Push messages to this browser: \<^verbatim>\<open>hooks/usePushSubscription.ts\<close>, with the endpoints of the server it calls
  (\<^verbatim>\<open>app/routers/push.py\<close>, \<^verbatim>\<open>app/repository/push_subscriptions.py\<close>) and the form in which \<^verbatim>\<open>app/push/vapid.py\<close> hands out its key.

  An \<^verbatim>\<open>async\<close> function is a value of \<open>async\<close>: a tree with a node per awaited call, whose branches are what the call may
  answer, and a node per state update. \<open>run_async\<close> runs one against a browser and a server, \<open>outcome\<close> against any
  answers at all.
\<close>

section \<open>Keys\<close>

text \<open>\<^verbatim>\<open>atob\<close>: blanks are dropped, up to two signs of padding, and what is left is read six bits at a time.\<close>

definition sextet :: "char \<Rightarrow> nat option" where
  "sextet c = (let n = of_char c in
     if 65 \<le> n \<and> n \<le> 90 then Some (n - 65)
     else if 97 \<le> n \<and> n \<le> 122 then Some (n - 71)
     else if 48 \<le> n \<and> n \<le> 57 then Some (n + 4)
     else if c = CHR ''+'' then Some 62
     else if c = CHR ''/'' then Some 63
     else None)"

fun unpack :: "nat list \<Rightarrow> nat list" where
  "unpack (a # b # c # d # r) = [a * 4 + b div 16, (b mod 16) * 16 + c div 4, (c mod 4) * 64 + d] @ unpack r"
| "unpack [a, b, c] = [a * 4 + b div 16, (b mod 16) * 16 + c div 4]"
| "unpack [a, b] = [a * 4 + b div 16]"
| "unpack _ = []"

definition ascii_blank :: "char \<Rightarrow> bool" where
  "ascii_blank c \<longleftrightarrow> of_char c \<in> {9, 10, 12, 13, 32 :: nat}"

definition strip_padding :: "string \<Rightarrow> string" where
  "strip_padding s =
     (if length s mod 4 \<noteq> 0 then s
      else let r = rev s in
        if take 2 r = ''=='' then rev (drop 2 r) else if take 1 r = ''='' then rev (drop 1 r) else s)"

definition atob :: "string \<Rightarrow> nat list option" where
  "atob s =
     (let s = strip_padding (filter (\<lambda>c. \<not> ascii_blank c) s) in
      if length s mod 4 = 1 \<or> (\<exists>c \<in> set s. sextet c = None) then None
      else Some (unpack (map (\<lambda>c. the (sextet c)) s)))"

definition replace_char :: "char \<Rightarrow> char \<Rightarrow> string \<Rightarrow> string" where
  "replace_char a b s = map (\<lambda>c. if c = a then b else c) s"

definition urlBase64ToUint8Array :: "string \<Rightarrow> nat list option" where
  "urlBase64ToUint8Array base64String =
     (let padding = replicate ((4 - (length base64String mod 4)) mod 4) (CHR ''='');
          base64 = replace_char (CHR ''_'') (CHR ''/'') (replace_char (CHR ''-'') (CHR ''+'') (base64String @ padding))
      in atob base64)"

definition uint8ArraysEqual :: "nat list option \<Rightarrow> nat list \<Rightarrow> bool" where
  "uint8ArraysEqual a b =
     (case a of None \<Rightarrow> False | Some a \<Rightarrow> length a = length b \<and> (\<forall>i \<in> set [0..<length a]. a ! i = b ! i))"

text \<open>The server's \<^verbatim>\<open>base64.urlsafe_b64encode(raw).rstrip(b"=")\<close>.\<close>

definition urlsafe_digit :: "nat \<Rightarrow> char" where
  "urlsafe_digit n =
     (if n < 26 then char_of (n + 65) else if n < 52 then char_of (n + 71) else if n < 62 then char_of (n - 4)
      else if n = 62 then CHR ''-'' else CHR ''_'')"

fun pack :: "nat list \<Rightarrow> nat list" where
  "pack (x # y # z # r) = [x div 4, (x mod 4) * 16 + y div 16, (y mod 16) * 4 + z div 64, z mod 64] @ pack r"
| "pack [x, y] = [x div 4, (x mod 4) * 16 + y div 16, (y mod 16) * 4]"
| "pack [x] = [x div 4, (x mod 4) * 16]"
| "pack [] = []"

definition vapid_key_text :: "nat list \<Rightarrow> string" where
  "vapid_key_text raw = map urlsafe_digit (pack raw)"

section \<open>The name of a device\<close>

definition generateLabel :: "string \<Rightarrow> string" where
  "generateLabel ua =
     (let has = (\<lambda>p. str_includes (to_lower ua) p) in
      if has ''firefox''
      then (if has ''android'' then ''Firefox on Android'' else if has ''mac'' then ''Firefox on macOS''
            else if has ''windows'' then ''Firefox on Windows'' else if has ''linux'' then ''Firefox on Linux''
            else ''Firefox'')
      else if has ''chrome'' \<and> \<not> has ''edg''
      then (if has ''android'' then ''Chrome on Android'' else if has ''cros'' then ''Chrome on ChromeOS''
            else if has ''mac'' then ''Chrome on macOS'' else if has ''windows'' then ''Chrome on Windows''
            else if has ''linux'' then ''Chrome on Linux'' else ''Chrome'')
      else if has ''edg'' then ''Edge''
      else if has ''safari''
      then (if has ''iphone'' \<or> has ''ipad'' then ''Safari on iOS'' else ''Safari on macOS'')
      else ''Browser'')"

section \<open>State\<close>

record push_subscription_info =
  ps_id :: string
  ps_endpoint :: string
  ps_p256dh :: string
  ps_auth :: string
  ps_label :: string
  ps_created_at :: int
  ps_last_success_at :: "int option"
  ps_failure_count :: int

text \<open>What the browser holds for this page.\<close>

record browser_subscription =
  bs_endpoint :: string
  bs_p256dh :: string
  bs_auth :: string
  bs_applicationServerKey :: "nat list option"

text \<open>What may be thrown: the error of \<^verbatim>\<open>withTimeout\<close> under its label, another error with its message, or a value that is none.\<close>

datatype thrown = Timed_out string | Js_error string | Not_an_error

datatype push_toast = Toast_ok string | Toast_fail string | Toast_reason string thrown

record push_state =
  pu_isSupported :: bool
  pu_currentSubscriptionId :: "string option"
  pu_allSubscriptions :: "push_subscription_info list"
  pu_pushConversations :: "string list"
  pu_loading :: bool
  pu_toasts :: "push_toast list"

definition push_init :: push_state where
  "push_init = \<lparr> pu_isSupported = False, pu_currentSubscriptionId = None, pu_allSubscriptions = [], pu_pushConversations = [],
     pu_loading = False, pu_toasts = [] \<rparr>"

definition push_toasted :: "push_toast \<Rightarrow> push_state \<Rightarrow> push_state" where
  "push_toasted t st = st\<lparr> pu_toasts := pu_toasts st @ [t] \<rparr>"

definition reconcileCurrentSubscription :: "push_subscription_info list \<Rightarrow> string option \<Rightarrow> push_state \<Rightarrow> push_state" where
  "reconcileCurrentSubscription subs endpoint st =
     (let st = st\<lparr> pu_allSubscriptions := subs \<rparr> in
      if \<not> truthy endpoint then st\<lparr> pu_currentSubscriptionId := None \<rparr>
      else st\<lparr> pu_currentSubscriptionId := map_option ps_id (find (\<lambda>sub. Some (ps_endpoint sub) = endpoint) subs) \<rparr>)"

definition isSubscribed :: "push_state \<Rightarrow> bool" where
  "isSubscribed st \<longleftrightarrow> truthy (pu_currentSubscriptionId st)"

definition isConversationPushEnabled :: "push_state \<Rightarrow> string \<Rightarrow> bool" where
  "isConversationPushEnabled st conversationKey \<longleftrightarrow> conversationKey \<in> set (pu_pushConversations st)"

section \<open>The key arrives\<close>

lemma pack_bound: "\<forall>x \<in> set raw. x < 256 \<Longrightarrow> n \<in> set (pack raw) \<Longrightarrow> n < 64"
proof (induction raw rule: pack.induct)
  case (1 x y z r)
  have "x div 4 < 64" "(x mod 4) * 16 + y div 16 < 64" "(y mod 16) * 4 + z div 64 < 64" "z mod 64 < 64"
  proof -
    have b: "x < 256" "y < 256" "z < 256" using 1 by auto
    show "x div 4 < 64" "z mod 64 < 64" using b by simp_all
    have "x mod 4 < 4" "y div 16 < 16" "y mod 16 < 16" "z div 64 < 4" using b by auto
    then show "(x mod 4) * 16 + y div 16 < 64" "(y mod 16) * 4 + z div 64 < 64" by linarith+
  qed
  then show ?case using 1 by auto
next
  case (2 x y)
  have b: "x < 256" "y < 256" using 2 by auto
  then have "x div 4 < 64" "x mod 4 < 4" "y div 16 < 16" "y mod 16 < 16" by auto
  then have "x div 4 < 64" "(x mod 4) * 16 + y div 16 < 64" "(y mod 16) * 4 < 64" by linarith+
  then show ?case using 2 by auto
next
  case (3 x)
  then have "x div 4 < 64" "x mod 4 < 4" by auto
  then show ?case using 3 by auto
qed simp

lemma digits_of_sum: "b < k \<Longrightarrow> (a * k + b) div k = a" "b < k \<Longrightarrow> (a * k + b) mod k = b" for a b k :: nat
  by (simp_all add: div_mult_self3)

lemma unpack_pack: "\<forall>x \<in> set raw. x < 256 \<Longrightarrow> unpack (pack raw) = raw"
proof (induction raw rule: pack.induct)
  case (1 x y z r)
  have "y div 16 < 16" "z div 64 < 4" using 1 by auto
  then show ?case using 1 by (simp add: digits_of_sum)
next
  case (2 x y)
  have "y div 16 < 16" using 2 by auto
  then show ?case using 2 by (simp add: digits_of_sum)
qed simp_all

lemma length_pack: "length (pack raw) mod 4 \<noteq> 1"
  by (induction raw rule: pack.induct) simp_all

definition to_base64 :: "string \<Rightarrow> string" where
  "to_base64 s = replace_char (CHR ''_'') (CHR ''/'') (replace_char (CHR ''-'') (CHR ''+'') s)"

lemma to_base64_char_of:
  assumes "m < (256 :: nat)" and "m \<noteq> 45" and "m \<noteq> 95"
  shows "hd (to_base64 [char_of m]) = char_of m"
proof -
  have "char_of m \<noteq> CHR ''-''" "char_of m \<noteq> CHR ''_''"
    using assms by (auto dest!: arg_cong [where f = "of_char :: char \<Rightarrow> nat"])
  then show ?thesis by (simp add: to_base64_def replace_char_def)
qed

lemma sextet_digit:
  assumes "n < 64"
  shows "sextet (hd (to_base64 [urlsafe_digit n])) = Some n"
proof -
  consider "n < 26" | "26 \<le> n" "n < 52" | "52 \<le> n" "n < 62" | "n = 62" | "n = 63" using assms by linarith
  then show ?thesis
  proof cases
    case 1
    then show ?thesis by (simp add: urlsafe_digit_def to_base64_char_of sextet_def Let_def)
  next
    case 2
    then show ?thesis by (simp add: urlsafe_digit_def to_base64_char_of sextet_def Let_def)
  next
    case 3
    then have "48 \<le> n - 4" "n - 4 \<le> 57" by linarith+
    moreover define m where "m = n - 4"
    ultimately have m: "48 \<le> m" "m \<le> 57" "n = m + 4" using 3 by linarith+
    then have "urlsafe_digit n = char_of m" by (simp add: urlsafe_digit_def)
    then show ?thesis using m by (simp add: to_base64_char_of sextet_def Let_def)
  qed (simp_all add: urlsafe_digit_def to_base64_def replace_char_def sextet_def Let_def)
qed

lemma sextet_plain: "sextet c = Some n \<Longrightarrow> \<not> ascii_blank c \<and> c \<noteq> CHR ''=''"
  by (auto simp: sextet_def ascii_blank_def Let_def split: if_splits)

lemma digit_plain: "n < 64 \<Longrightarrow> \<not> ascii_blank (hd (to_base64 [urlsafe_digit n])) \<and> hd (to_base64 [urlsafe_digit n]) \<noteq> CHR ''=''"
  using sextet_plain sextet_digit by blast

lemma strip_padding_added:
  assumes "length s mod 4 \<noteq> 1" and "CHR ''='' \<notin> set s"
  shows "strip_padding (s @ replicate ((4 - length s mod 4) mod 4) (CHR ''='')) = s"
proof -
  define r where "r = length s mod 4"
  have l: "length s = 4 * (length s div 4) + r" by (simp add: r_def)
  have eq: "CHR ''='' \<notin> set (rev s)" using assms(2) by simp
  have "r < 4" "r \<noteq> 1" using assms(1) by (simp_all add: r_def)
  then consider "r = 0" | "r = 2" | "r = 3" by linarith
  then show ?thesis
  proof cases
    case 1
    moreover have "take (Suc n) (rev s) \<noteq> CHR ''='' # t" for n t using eq by (cases "rev s") auto
    ultimately show ?thesis by (simp add: strip_padding_def Let_def numeral_2_eq_2 flip: r_def)
  next
    case 2
    moreover have "(length s + 2) mod 4 = 0" using 2 by (subst l) presburger
    ultimately show ?thesis by (simp add: strip_padding_def Let_def numeral_2_eq_2 flip: r_def)
  next
    case 3
    moreover have "(length s + 1) mod 4 = 0" using 3 by (subst l) presburger
    moreover have "take (Suc 0) (rev s) \<noteq> ''=''" using eq by (cases "rev s") auto
    ultimately show ?thesis by (simp add: strip_padding_def Let_def numeral_2_eq_2 flip: r_def)
  qed
qed

text \<open>The key the server hands out is decoded to the bytes it was made of, whatever their number.\<close>

theorem vapid_key_roundtrip:
  assumes "\<forall>x \<in> set raw. x < 256"
  shows "urlBase64ToUint8Array (vapid_key_text raw) = Some raw"
proof -
  define s where "s = map (\<lambda>n. hd (to_base64 [urlsafe_digit n])) (pack raw)"
  have small: "n < 64" if "n \<in> set (pack raw)" for n using pack_bound [OF assms that] .
  have plain: "\<not> ascii_blank c \<and> c \<noteq> CHR ''=''" if "c \<in> set s" for c
    using that digit_plain small by (auto simp: s_def)
  let ?pad = "replicate ((4 - length s mod 4) mod 4) (CHR ''='')"
  have "to_base64 (vapid_key_text raw @ replicate k (CHR ''='')) = s @ replicate k (CHR ''='')" for k
    by (simp add: s_def to_base64_def replace_char_def vapid_key_text_def)
  moreover have "length (vapid_key_text raw) = length s" by (simp add: s_def vapid_key_text_def)
  ultimately have "urlBase64ToUint8Array (vapid_key_text raw) = atob (s @ ?pad)"
    by (simp add: urlBase64ToUint8Array_def to_base64_def Let_def)
  also have "\<dots> =
      (if length s mod 4 = 1 \<or> (\<exists>c \<in> set s. sextet c = None) then None else Some (unpack (map (\<lambda>c. the (sextet c)) s)))"
  proof -
    have "filter (\<lambda>c. \<not> ascii_blank c) (s @ ?pad) = s @ ?pad"
      using plain by (auto simp: filter_id_conv ascii_blank_def)
    moreover have l: "length s mod 4 \<noteq> 1" "CHR ''='' \<notin> set s" using length_pack [of raw] plain by (auto simp: s_def)
    moreover from l have "strip_padding (s @ ?pad) = s" by (rule strip_padding_added)
    ultimately show ?thesis by (simp only: atob_def Let_def)
  qed
  also have "\<dots> = Some (unpack (map (\<lambda>c. the (sextet c)) s))"
    using length_pack [of raw] sextet_digit small by (auto simp: s_def)
  also have "map (\<lambda>c. the (sextet c)) s = pack raw"
    using sextet_digit small by (auto simp: s_def intro!: map_idI)
  finally show ?thesis by (simp add: unpack_pack [OF assms])
qed

lemma vapid_key_roundtrip_witness: "urlBase64ToUint8Array (vapid_key_text [251, 255, 0, 4]) = Some [251, 255, 0, 4]"
  using vapid_key_roundtrip [of "[251, 255, 0, 4]"] by (simp del: One_nat_def)

lemma uint8ArraysEqual_iff: "uint8ArraysEqual a b \<longleftrightarrow> a = Some b"
proof (cases a)
  case (Some x)
  have "(\<forall>i \<in> set [0..<length x]. x ! i = b ! i) \<longleftrightarrow> (\<forall>i < length x. x ! i = b ! i)" by auto
  with Some show ?thesis by (auto simp: uint8ArraysEqual_def list_eq_iff_nth_eq [of x b])
qed (simp add: uint8ArraysEqual_def)

section \<open>Asynchronous functions\<close>

text \<open>A call that is awaited answers with a value or throws. \<open>Worker_ready\<close> carries the deadline of \<^verbatim>\<open>withTimeout\<close>, if there is one.\<close>

datatype 'r async =
    Return 'r
  | Throw thrown
  | Update "push_state \<Rightarrow> push_state" "'r async"
  | Get_vapid "thrown + string \<Rightarrow> 'r async"
  | Worker_ready "nat option" "thrown + unit \<Rightarrow> 'r async"
  | Browser_get "thrown + browser_subscription option \<Rightarrow> 'r async"
  | Browser_drop "thrown + unit \<Rightarrow> 'r async"
  | Browser_make "nat list" "thrown + browser_subscription \<Rightarrow> 'r async"
  | Server_subscribe string string string string "thrown + push_subscription_info \<Rightarrow> 'r async"
  | Server_list "thrown + push_subscription_info list \<Rightarrow> 'r async"
  | Server_delete string "thrown + unit \<Rightarrow> 'r async"
  | Server_conversations "thrown + string list \<Rightarrow> 'r async"
  | Server_toggle string "thrown + string list \<Rightarrow> 'r async"
  | Server_test string "thrown + unit \<Rightarrow> 'r async"

definition settled :: "('a \<Rightarrow> 'r async) \<Rightarrow> thrown + 'a \<Rightarrow> 'r async" where
  "settled k a = (case a of Inl e \<Rightarrow> Throw e | Inr x \<Rightarrow> k x)"

primrec async_then :: "'a async \<Rightarrow> ('a \<Rightarrow> 'r async) \<Rightarrow> 'r async" where
  "async_then (Return x) f = f x"
| "async_then (Throw e) f = Throw e"
| "async_then (Update u t) f = Update u (async_then t f)"
| "async_then (Get_vapid k) f = Get_vapid (\<lambda>a. async_then (k a) f)"
| "async_then (Worker_ready ms k) f = Worker_ready ms (\<lambda>a. async_then (k a) f)"
| "async_then (Browser_get k) f = Browser_get (\<lambda>a. async_then (k a) f)"
| "async_then (Browser_drop k) f = Browser_drop (\<lambda>a. async_then (k a) f)"
| "async_then (Browser_make key k) f = Browser_make key (\<lambda>a. async_then (k a) f)"
| "async_then (Server_subscribe ep p au l k) f = Server_subscribe ep p au l (\<lambda>a. async_then (k a) f)"
| "async_then (Server_list k) f = Server_list (\<lambda>a. async_then (k a) f)"
| "async_then (Server_delete i k) f = Server_delete i (\<lambda>a. async_then (k a) f)"
| "async_then (Server_conversations k) f = Server_conversations (\<lambda>a. async_then (k a) f)"
| "async_then (Server_toggle c k) f = Server_toggle c (\<lambda>a. async_then (k a) f)"
| "async_then (Server_test i k) f = Server_test i (\<lambda>a. async_then (k a) f)"

primrec async_catch :: "'r async \<Rightarrow> (thrown \<Rightarrow> 'r async) \<Rightarrow> 'r async" where
  "async_catch (Return x) h = Return x"
| "async_catch (Throw e) h = h e"
| "async_catch (Update u t) h = Update u (async_catch t h)"
| "async_catch (Get_vapid k) h = Get_vapid (\<lambda>a. async_catch (k a) h)"
| "async_catch (Worker_ready ms k) h = Worker_ready ms (\<lambda>a. async_catch (k a) h)"
| "async_catch (Browser_get k) h = Browser_get (\<lambda>a. async_catch (k a) h)"
| "async_catch (Browser_drop k) h = Browser_drop (\<lambda>a. async_catch (k a) h)"
| "async_catch (Browser_make key k) h = Browser_make key (\<lambda>a. async_catch (k a) h)"
| "async_catch (Server_subscribe ep p au l k) h = Server_subscribe ep p au l (\<lambda>a. async_catch (k a) h)"
| "async_catch (Server_list k) h = Server_list (\<lambda>a. async_catch (k a) h)"
| "async_catch (Server_delete i k) h = Server_delete i (\<lambda>a. async_catch (k a) h)"
| "async_catch (Server_conversations k) h = Server_conversations (\<lambda>a. async_catch (k a) h)"
| "async_catch (Server_toggle c k) h = Server_toggle c (\<lambda>a. async_catch (k a) h)"
| "async_catch (Server_test i k) h = Server_test i (\<lambda>a. async_catch (k a) h)"

text \<open>\<^verbatim>\<open>finally\<close> with a state update.\<close>

definition async_finally :: "(push_state \<Rightarrow> push_state) \<Rightarrow> 'r async \<Rightarrow> 'r async" where
  "async_finally u t = async_then (async_catch (async_then t (\<lambda>x. Return (Inr x))) (\<lambda>e. Return (Inl e)))
     (\<lambda>r. Update u (case r of Inl e \<Rightarrow> Throw e | Inr x \<Rightarrow> Return x))"

section \<open>The hook\<close>

definition WORKER_LABEL :: string where "WORKER_LABEL = ''Service worker activation''"

definition set_loading :: "bool \<Rightarrow> push_state \<Rightarrow> push_state" where
  "set_loading b st = st\<lparr> pu_loading := b \<rparr>"

definition set_current :: "string option \<Rightarrow> push_state \<Rightarrow> push_state" where
  "set_current i st = st\<lparr> pu_currentSubscriptionId := i \<rparr>"

definition set_conversations :: "string list \<Rightarrow> push_state \<Rightarrow> push_state" where
  "set_conversations cs st = st\<lparr> pu_pushConversations := cs \<rparr>"

text \<open>The effect of the first render, its two chains. The list of devices is requested before the worker is asked for and awaited
  after it.\<close>

definition push_supported :: "bool \<Rightarrow> bool \<Rightarrow> bool \<Rightarrow> bool \<Rightarrow> push_state \<Rightarrow> push_state" where
  "push_supported secure worker push notification st = st\<lparr> pu_isSupported := secure \<and> worker \<and> push \<and> notification \<rparr>"

definition mount_devices :: "unit async" where
  "mount_devices =
     Server_list (\<lambda>subs. let subsPromise = (case subs of Inl _ \<Rightarrow> [] | Inr l \<Rightarrow> l) in
       async_catch
         (Worker_ready (Some 1000) (settled (\<lambda>_.
            Browser_get (settled (\<lambda>sub.
              Update (reconcileCurrentSubscription subsPromise (map_option bs_endpoint sub)) (Return ()))))))
         (\<lambda>_. Return ()))"

definition mount_conversations :: "unit async" where
  "mount_conversations =
     async_catch (Server_conversations (settled (\<lambda>convos. Update (set_conversations convos) (Return ())))) (\<lambda>_. Return ())"

definition refreshSubscriptions :: "push_subscription_info list async" where
  "refreshSubscriptions =
     async_catch
       (Server_list (settled (\<lambda>subs.
          Worker_ready (Some 10000) (settled (\<lambda>_.
            Browser_get (settled (\<lambda>sub.
              Update (reconcileCurrentSubscription subs (map_option bs_endpoint sub)) (Return subs))))))))
       (\<lambda>_. Return [])"

definition refreshConversations :: "unit async" where
  "refreshConversations =
     async_catch (Server_conversations (settled (\<lambda>convos. Update (set_conversations convos) (Return ())))) (\<lambda>_. Return ())"

text \<open>What follows the browser's subscription once there is one.\<close>

definition register_subscription :: "string \<Rightarrow> browser_subscription \<Rightarrow> string option async" where
  "register_subscription ua pushSub =
     Server_subscribe (bs_endpoint pushSub) (bs_p256dh pushSub) (bs_auth pushSub) (generateLabel ua) (settled (\<lambda>result.
       Update (set_current (Some (ps_id result)))
         (async_then refreshSubscriptions (\<lambda>_. Return (Some (ps_id result))))))"

definition obtain_subscription :: "nat list \<Rightarrow> browser_subscription option \<Rightarrow> (browser_subscription \<Rightarrow> 'r async) \<Rightarrow> 'r async" where
  "obtain_subscription vapidKeyBytes pushSub k =
     (let requiresRecreate =
            pushSub \<noteq> None \<and> \<not> uint8ArraysEqual (Option.bind pushSub bs_applicationServerKey) vapidKeyBytes;
          create = Browser_make vapidKeyBytes (settled k)
      in if requiresRecreate then Browser_drop (settled (\<lambda>_. create))
         else case pushSub of None \<Rightarrow> create | Some s \<Rightarrow> k s)"

text \<open>\<open>invalid\<close> is what the browser's \<^verbatim>\<open>atob\<close> throws for a key that is not Base64.\<close>

definition request_subscription :: "thrown \<Rightarrow> string \<Rightarrow> string option async" where
  "request_subscription invalid ua =
     Get_vapid (settled (\<lambda>public_key.
       case urlBase64ToUint8Array public_key of
         None \<Rightarrow> Throw invalid
       | Some vapidKeyBytes \<Rightarrow>
           Worker_ready (Some 3000) (settled (\<lambda>_.
             Browser_get (settled (\<lambda>pushSub.
               obtain_subscription vapidKeyBytes pushSub (register_subscription ua)))))))"

definition subscribe :: "thrown \<Rightarrow> string \<Rightarrow> bool \<Rightarrow> string option async" where
  "subscribe invalid ua isSupported =
     (if \<not> isSupported then Return None
      else Update (set_loading True) (async_finally (set_loading False)
        (async_catch (request_subscription invalid ua)
          (\<lambda>err. Update (push_toasted (Toast_reason ''Failed to enable push notifications'' err)) (Return None)))))"

text \<open>The part of \<open>unsubscribe\<close> and \<open>deleteSubscription\<close> that talks to the browser.\<close>

definition drop_browser :: "'r async \<Rightarrow> 'r async" where
  "drop_browser rest =
     Worker_ready None (settled (\<lambda>_. Browser_get (settled (\<lambda>pushSub.
       case pushSub of None \<Rightarrow> rest | Some _ \<Rightarrow> Browser_drop (settled (\<lambda>_. rest))))))"

definition unsubscribe :: "string option \<Rightarrow> unit async" where
  "unsubscribe currentSubscriptionId =
     (let rest = Update (set_current None) (async_then refreshSubscriptions (\<lambda>_. Return ())) in
      Update (set_loading True) (async_finally (set_loading False)
        (async_catch
          (drop_browser
            (if truthy currentSubscriptionId then Server_delete (the currentSubscriptionId) (\<lambda>_. rest) else rest))
          (\<lambda>err. Return ()))))"

definition push_toggleConversation :: "string \<Rightarrow> unit async" where
  "push_toggleConversation conversationKey =
     async_catch (Server_toggle conversationKey (settled (\<lambda>updated. Update (set_conversations updated) (Return ()))))
       (\<lambda>_. Update (push_toasted (Toast_fail ''Failed to update push preferences'')) (Return ()))"

definition deleteSubscription :: "string option \<Rightarrow> string \<Rightarrow> unit async" where
  "deleteSubscription currentSubscriptionId subscriptionId =
     (let rest = async_then refreshSubscriptions (\<lambda>_. Return ()) in
      Server_delete subscriptionId (settled (\<lambda>_.
        if Some subscriptionId = currentSubscriptionId
        then Update (set_current None)
               (async_then (async_catch (drop_browser (Return ())) (\<lambda>_. Return ())) (\<lambda>_. rest))
        else rest)))"

definition testPush :: "string \<Rightarrow> unit async" where
  "testPush subscriptionId =
     async_catch
       (Server_test subscriptionId (settled (\<lambda>_. Update (push_toasted (Toast_ok ''Test notification sent'')) (Return ()))))
       (\<lambda>_. Update (push_toasted (Toast_fail ''Test notification failed'')) (Return ()))"

section \<open>Any answers at all\<close>

text \<open>What holds of result and state however the calls are answered.\<close>

primrec always :: "(thrown + 'r \<Rightarrow> push_state \<Rightarrow> bool) \<Rightarrow> 'r async \<Rightarrow> push_state \<Rightarrow> bool" where
  "always Q (Return x) st = Q (Inr x) st"
| "always Q (Throw e) st = Q (Inl e) st"
| "always Q (Update u t) st = always Q t (u st)"
| "always Q (Get_vapid k) st = (\<forall>a. always Q (k a) st)"
| "always Q (Worker_ready ms k) st = (\<forall>a. always Q (k a) st)"
| "always Q (Browser_get k) st = (\<forall>a. always Q (k a) st)"
| "always Q (Browser_drop k) st = (\<forall>a. always Q (k a) st)"
| "always Q (Browser_make key k) st = (\<forall>a. always Q (k a) st)"
| "always Q (Server_subscribe ep p au l k) st = (\<forall>a. always Q (k a) st)"
| "always Q (Server_list k) st = (\<forall>a. always Q (k a) st)"
| "always Q (Server_delete i k) st = (\<forall>a. always Q (k a) st)"
| "always Q (Server_conversations k) st = (\<forall>a. always Q (k a) st)"
| "always Q (Server_toggle c k) st = (\<forall>a. always Q (k a) st)"
| "always Q (Server_test i k) st = (\<forall>a. always Q (k a) st)"

lemma always_mono:
  "always Q t st \<Longrightarrow> (\<And>r st. Q r st \<Longrightarrow> R r st) \<Longrightarrow> always R t st"
  by (induction t arbitrary: st) auto

lemma always_then:
  "always Q (async_then t f) st =
     always (\<lambda>r st'. case r of Inl e \<Rightarrow> Q (Inl e) st' | Inr x \<Rightarrow> always Q (f x) st') t st"
  by (induction t arbitrary: st) auto

lemma always_catch:
  "always Q (async_catch t h) st =
     always (\<lambda>r st'. case r of Inl e \<Rightarrow> always Q (h e) st' | Inr x \<Rightarrow> Q (Inr x) st') t st"
  by (induction t arbitrary: st) auto

lemma always_finally: "always Q (async_finally u t) st = always (\<lambda>r st'. Q r (u st')) t st"
  by (simp add: async_finally_def always_then always_catch sum.case_distrib cong: sum.case_cong)
     (rule arg_cong [where f = "\<lambda>Q. always Q t st"], auto simp: fun_eq_iff split: sum.split)

lemma always_settled:
  "always Q (settled k a) st = (case a of Inl e \<Rightarrow> Q (Inl e) st | Inr x \<Rightarrow> always Q (k x) st)"
  by (simp add: settled_def split: sum.split)

lemmas always_rules = always_then always_catch always_finally always_settled

lemma all_sum: "(\<forall>a. P (a :: 'a + 'b)) \<longleftrightarrow> (\<forall>e. P (Inl e)) \<and> (\<forall>x. P (Inr x))"
  by (metis sum.exhaust)

text \<open>Whatever is answered, enabling never throws and leaves the page with nothing loading; it gives no device only with a toast
  that says why.\<close>

lemma refresh_returns: "always (\<lambda>r st'. (\<exists>l. r = Inr l) \<and> pu_loading st' = pu_loading st \<and> pu_toasts st' = pu_toasts st) refreshSubscriptions st"
  by (simp add: refreshSubscriptions_def always_rules all_sum reconcileCurrentSubscription_def Let_def)

theorem subscribe_settles:
  "always (\<lambda>r st'. \<exists>i. r = Inr i \<and> (isSupported \<longrightarrow> \<not> pu_loading st')
       \<and> (i = None \<longrightarrow> isSupported \<longrightarrow> (\<exists>e. pu_toasts st' = pu_toasts st @ [Toast_reason ''Failed to enable push notifications'' e]))
       \<and> (i \<noteq> None \<longrightarrow> pu_toasts st' = pu_toasts st))
     (subscribe invalid ua isSupported) st"
proof -
  let ?Q = "\<lambda>r st'. (\<exists>i. r = Inr (Some i)) \<and> pu_toasts st' = pu_toasts st \<or> (\<exists>e. r = Inl e) \<and> pu_toasts st' = pu_toasts st"
  have register: "always ?Q (register_subscription ua s) st'" if "pu_toasts st' = pu_toasts st" for s st'
    using that by (simp add: register_subscription_def always_rules all_sum set_current_def)
      (auto intro!: always_mono [OF refresh_returns] split: sum.split)
  have obt: "always ?Q (obtain_subscription key pushSub (register_subscription ua)) st'"
    if "pu_toasts st' = pu_toasts st" for key pushSub st'
    using that register by (auto simp: obtain_subscription_def Let_def always_rules all_sum split: option.split)
  have body: "always ?Q (request_subscription invalid ua) (set_loading True st)"
    using obt by (auto simp: request_subscription_def always_rules all_sum set_loading_def split: option.split)
  show ?thesis
  proof (cases isSupported)
    case True
    then show ?thesis
      by (simp add: subscribe_def always_rules)
         (rule always_mono [OF body], auto simp: set_loading_def push_toasted_def)
  qed (simp add: subscribe_def)
qed

text \<open>The same of disabling, which says nothing.\<close>

lemma unsubscribe_settles: "always (\<lambda>r st'. r = Inr () \<and> \<not> pu_loading st') (unsubscribe current) st"
proof -
  have rest: "always (\<lambda>r st'. True) (async_then refreshSubscriptions (\<lambda>_. Return ())) st'" for st'
    by (rule always_mono [where Q = "\<lambda>_ _. True"]) (auto simp: always_rules all_sum refreshSubscriptions_def)
  show ?thesis
    by (auto simp: unsubscribe_def Let_def always_rules all_sum drop_browser_def set_loading_def refreshSubscriptions_def
        split: option.split)
qed

section \<open>The server\<close>

text \<open>The table of devices in the order of insertion. Rows of the same second keep it in the answer.\<close>

definition push_create :: "string \<Rightarrow> int \<Rightarrow> string \<Rightarrow> string \<Rightarrow> string \<Rightarrow> string \<Rightarrow> push_subscription_info list
    \<Rightarrow> push_subscription_info list \<times> push_subscription_info option" where
  "push_create sub_id now endpoint p256dh auth label rows =
     (let update = (\<lambda>row. if ps_endpoint row = endpoint
                          then row\<lparr> ps_p256dh := p256dh, ps_auth := auth,
                                    ps_label := (if label \<noteq> [] then label else ps_label row), ps_failure_count := 0 \<rparr>
                          else row);
          rows' = (if \<exists>row \<in> set rows. ps_endpoint row = endpoint then map update rows
                   else rows @ [\<lparr> ps_id = sub_id, ps_endpoint = endpoint, ps_p256dh = p256dh, ps_auth = auth, ps_label = label,
                                  ps_created_at = now, ps_last_success_at = None, ps_failure_count = 0 \<rparr>])
      in (rows', find (\<lambda>row. ps_endpoint row = endpoint) rows'))"

definition push_get_all :: "push_subscription_info list \<Rightarrow> push_subscription_info list" where
  "push_get_all rows = sort_key (\<lambda>row. - ps_created_at row) rows"

definition push_delete :: "string \<Rightarrow> push_subscription_info list \<Rightarrow> push_subscription_info list \<times> bool" where
  "push_delete i rows = (filter (\<lambda>row. ps_id row \<noteq> i) rows, \<exists>row \<in> set rows. ps_id row = i)"

definition server_toggle_conversation :: "string \<Rightarrow> string list \<Rightarrow> string list" where
  "server_toggle_conversation key current = (if key \<in> set current then filter (\<lambda>k. k \<noteq> key) current else current @ [key])"

text \<open>How the delivery of a test ended; the answer is \<open>Inl\<close> of a status where it is an error.\<close>

datatype delivery = Delivered | Delivery_timeout | Push_exception int | Delivery_exception

definition test_push :: "string \<Rightarrow> bool \<Rightarrow> delivery \<Rightarrow> push_subscription_info list \<Rightarrow> push_subscription_info list \<times> (nat + unit)" where
  "test_push i vapid_key d rows =
     (if \<not> (\<exists>row \<in> set rows. ps_id row = i) then (rows, Inl 404)
      else if \<not> vapid_key then (rows, Inl 423)
      else case d of
             Delivered \<Rightarrow> (rows, Inr ())
           | Delivery_timeout \<Rightarrow> (rows, Inl 408)
           | Push_exception status_code \<Rightarrow>
               if status_code \<in> {403, 404, 410} then (fst (push_delete i rows), Inl 410) else (rows, Inl 422)
           | Delivery_exception \<Rightarrow> (rows, Inl 422))"

section \<open>A page, a browser and a server\<close>

text \<open>\<open>pe_ready\<close> is when the worker is up, \<open>pe_mint\<close> the subscription the browser makes at its next count, \<open>pe_refused\<close> what the client
  throws for a status.\<close>

record push_env =
  pe_ready :: "nat option"
  pe_vapid :: string
  pe_mint :: "nat list \<Rightarrow> nat \<Rightarrow> browser_subscription"
  pe_uuid :: "nat \<Rightarrow> string"
  pe_now :: int
  pe_refused :: "nat \<Rightarrow> thrown"
  pe_delivery :: delivery

record push_world =
  pw_state :: push_state
  pw_browser :: "browser_subscription option"
  pw_rows :: "push_subscription_info list"
  pw_conversations :: "string list"
  pw_count :: nat

text \<open>\<open>None\<close> is a promise that never settles.\<close>

definition withTimeout :: "(nat \<times> (thrown + 'a)) option \<Rightarrow> nat \<Rightarrow> string \<Rightarrow> thrown + 'a" where
  "withTimeout promise ms label =
     (case promise of None \<Rightarrow> Inl (Timed_out label) | Some (t, r) \<Rightarrow> if t < ms then r else Inl (Timed_out label))"

definition vapid_answer :: "push_env \<Rightarrow> thrown + string" where
  "vapid_answer env = (if pe_vapid env = [] then Inl (pe_refused env 423) else Inr (pe_vapid env))"

primrec run_async :: "push_env \<Rightarrow> 'r async \<Rightarrow> push_world \<Rightarrow> (push_world \<times> (thrown + 'r)) option" where
  "run_async env (Return x) w = Some (w, Inr x)"
| "run_async env (Throw e) w = Some (w, Inl e)"
| "run_async env (Update u t) w = run_async env t (w\<lparr> pw_state := u (pw_state w) \<rparr>)"
| "run_async env (Get_vapid k) w = run_async env (k (vapid_answer env)) w"
| "run_async env (Worker_ready ms k) w =
     (let ready = map_option (\<lambda>t. (t, Inr ())) (pe_ready env) in
      case ms of
        Some ms \<Rightarrow> run_async env (k (withTimeout ready ms WORKER_LABEL)) w
      | None \<Rightarrow> if pe_ready env = None then None else run_async env (k (Inr ())) w)"
| "run_async env (Browser_get k) w = run_async env (k (Inr (pw_browser w))) w"
| "run_async env (Browser_drop k) w = run_async env (k (Inr ())) (w\<lparr> pw_browser := None \<rparr>)"
| "run_async env (Browser_make key k) w =
     (let s = pe_mint env key (pw_count w)
      in run_async env (k (Inr s)) (w\<lparr> pw_browser := Some s, pw_count := pw_count w + 1 \<rparr>))"
| "run_async env (Server_subscribe ep p au l k) w =
     (let (rows, row) = push_create (pe_uuid env (pw_count w)) (pe_now env) ep p au l (pw_rows w);
          w = w\<lparr> pw_rows := rows, pw_count := pw_count w + 1 \<rparr>
      in run_async env (k (case row of Some r \<Rightarrow> Inr r | None \<Rightarrow> Inl Not_an_error)) w)"
| "run_async env (Server_list k) w = run_async env (k (Inr (push_get_all (pw_rows w)))) w"
| "run_async env (Server_delete i k) w =
     (let (rows, deleted) = push_delete i (pw_rows w)
      in run_async env (k (if deleted then Inr () else Inl (pe_refused env 404))) (w\<lparr> pw_rows := rows \<rparr>))"
| "run_async env (Server_conversations k) w = run_async env (k (Inr (pw_conversations w))) w"
| "run_async env (Server_toggle c k) w =
     (let cs = server_toggle_conversation c (pw_conversations w)
      in run_async env (k (Inr cs)) (w\<lparr> pw_conversations := cs \<rparr>))"
| "run_async env (Server_test i k) w =
     (let (rows, r) = test_push i (pe_vapid env \<noteq> []) (pe_delivery env) (pw_rows w)
      in run_async env (k (case r of Inl s \<Rightarrow> Inl (pe_refused env s) | Inr u \<Rightarrow> Inr u)) (w\<lparr> pw_rows := rows \<rparr>))"

lemma run_then:
  "run_async env (async_then t f) w =
     (case run_async env t w of None \<Rightarrow> None | Some (w', Inl e) \<Rightarrow> Some (w', Inl e) | Some (w', Inr x) \<Rightarrow> run_async env (f x) w')"
  by (induction t arbitrary: w) (auto simp: Let_def split: option.split prod.split)

lemma run_catch:
  "run_async env (async_catch t h) w =
     (case run_async env t w of None \<Rightarrow> None | Some (w', Inl e) \<Rightarrow> run_async env (h e) w' | Some (w', Inr x) \<Rightarrow> Some (w', Inr x))"
  by (induction t arbitrary: w) (auto simp: Let_def split: option.split prod.split)

lemma run_finally:
  "run_async env (async_finally u t) w =
     (case run_async env t w of None \<Rightarrow> None | Some (w', r) \<Rightarrow> Some (w'\<lparr> pw_state := u (pw_state w') \<rparr>, r))"
  by (auto simp: async_finally_def run_then run_catch split: option.split sum.split)

lemma run_settled:
  "run_async env (settled k a) w = (case a of Inl e \<Rightarrow> Some (w, Inl e) | Inr x \<Rightarrow> run_async env (k x) w)"
  by (simp add: settled_def split: sum.split)

lemmas run_rules = run_then run_catch run_finally run_settled

definition rows_ok :: "push_subscription_info list \<Rightarrow> bool" where
  "rows_ok rows \<longleftrightarrow> distinct (map ps_endpoint rows) \<and> (\<forall>row \<in> set rows. ps_id row \<noteq> [])"

lemma find_unique: "distinct (map f xs) \<Longrightarrow> x \<in> set xs \<Longrightarrow> find (\<lambda>y. f y = f x) xs = Some x"
  by (induction xs) (auto simp: image_iff)

lemma rows_ok_get_all: "rows_ok rows \<Longrightarrow> rows_ok (push_get_all rows)"
  by (auto simp: rows_ok_def push_get_all_def distinct_map)

lemma set_get_all [simp]: "set (push_get_all rows) = set rows"
  by (simp add: push_get_all_def)

lemma push_create_row:
  assumes "rows_ok rows" and "i \<noteq> []" and "push_create i now ep p au l rows = (rows', row)"
  shows "rows_ok rows' \<and> (\<exists>r. row = Some r \<and> r \<in> set rows' \<and> ps_endpoint r = ep)"
proof -
  define upd where "upd row = (if ps_endpoint row = ep
     then row\<lparr> ps_p256dh := p, ps_auth := au, ps_label := (if l \<noteq> [] then l else ps_label row), ps_failure_count := 0 \<rparr>
     else row)" for row :: push_subscription_info
  have same: "ps_endpoint (upd row) = ps_endpoint row" "ps_id (upd row) = ps_id row" for row :: push_subscription_info by (simp_all add: upd_def)
  show ?thesis
  proof (cases "\<exists>row \<in> set rows. ps_endpoint row = ep")
    case True
    then have r': "rows' = map upd rows" and row: "row = find (\<lambda>row. ps_endpoint row = ep) rows'"
      using assms(3) by (auto simp: push_create_def Let_def upd_def [abs_def])
    have "rows_ok rows'" using assms(1) by (simp add: r' rows_ok_def same comp_def)
    moreover have "\<exists>r \<in> set rows'. ps_endpoint r = ep" using True same by (auto simp: r')
    ultimately show ?thesis using row find_Some_iff find_None_iff
      by (cases row) (fastforce simp: find_None_iff find_Some_iff)+
  next
    case False
    let ?new = "\<lparr> ps_id = i, ps_endpoint = ep, ps_p256dh = p, ps_auth = au, ps_label = l, ps_created_at = now,
      ps_last_success_at = None, ps_failure_count = 0 \<rparr>"
    have r': "rows' = rows @ [?new]" and row: "row = find (\<lambda>row. ps_endpoint row = ep) (rows @ [?new])"
      using assms(3) False by (auto simp: push_create_def Let_def)
    have "rows_ok rows'" using assms(1,2) False by (auto simp: r' rows_ok_def)
    moreover have "row = Some ?new"
      using find_unique [of ps_endpoint rows' ?new] \<open>rows_ok rows'\<close> by (simp add: row r' rows_ok_def)
    ultimately show ?thesis by (simp add: r')
  qed
qed

text \<open>Page, browser and server agree that this device is registered under \<open>i\<close> with the server's key.\<close>

definition registered :: "nat list \<Rightarrow> string \<Rightarrow> push_world \<Rightarrow> bool" where
  "registered raw i w \<longleftrightarrow>
     rows_ok (pw_rows w)
     \<and> (\<exists>s row. pw_browser w = Some s \<and> bs_endpoint s \<noteq> [] \<and> bs_applicationServerKey s = Some raw
          \<and> row \<in> set (pw_rows w) \<and> ps_id row = i \<and> ps_endpoint row = bs_endpoint s)
     \<and> pu_currentSubscriptionId (pw_state w) = Some i \<and> pu_allSubscriptions (pw_state w) = push_get_all (pw_rows w)
     \<and> \<not> pu_loading (pw_state w) \<and> isSubscribed (pw_state w)"

lemma reconcile_row:
  assumes "rows_ok rows" and "row \<in> set rows" and "ps_endpoint row \<noteq> []"
  shows "reconcileCurrentSubscription (push_get_all rows) (Some (ps_endpoint row)) st =
     st\<lparr> pu_allSubscriptions := push_get_all rows, pu_currentSubscriptionId := Some (ps_id row) \<rparr>"
  using assms find_unique [of ps_endpoint "push_get_all rows" row] rows_ok_get_all [OF assms(1)]
  by (simp add: reconcileCurrentSubscription_def truthy_iff rows_ok_def)

lemma ready_in_time: "pe_ready env = Some t \<Longrightarrow> t < ms \<Longrightarrow>
  run_async env (Worker_ready (Some ms) k) w = run_async env (k (Inr ())) w"
  by (simp add: withTimeout_def)

lemma run_refresh:
  assumes "pe_ready env = Some t" and "t < 10000"
  shows "run_async env refreshSubscriptions w =
     Some (w\<lparr> pw_state := reconcileCurrentSubscription (push_get_all (pw_rows w)) (map_option bs_endpoint (pw_browser w)) (pw_state w) \<rparr>,
       Inr (push_get_all (pw_rows w)))"
  using assms by (simp add: refreshSubscriptions_def run_rules withTimeout_def)

lemma run_register:
  assumes "pe_ready env = Some t" and "t < 3000" and "\<And>n. pe_uuid env n \<noteq> []" and "rows_ok (pw_rows w)"
    and "pw_browser w = Some s" and "bs_endpoint s \<noteq> []" and "bs_applicationServerKey s = Some raw"
  shows "\<exists>w' i. run_async env (register_subscription ua s) w = Some (w', Inr (Some i))
     \<and> registered raw i (w'\<lparr> pw_state := set_loading False (pw_state w') \<rparr>)"
proof -
  obtain rows r where create: "push_create (pe_uuid env (pw_count w)) (pe_now env) (bs_endpoint s) (bs_p256dh s) (bs_auth s)
        (generateLabel ua) (pw_rows w) = (rows, Some r)" and ok: "rows_ok rows" "r \<in> set rows" "ps_endpoint r = bs_endpoint s"
    using push_create_row [OF assms(4) assms(3)] by (metis surj_pair)
  have r: "ps_endpoint r \<noteq> []" "ps_id r \<noteq> []" using ok assms(6) by (auto simp: rows_ok_def)
  note rec = reconcile_row [OF ok(1,2) r(1)]
  have "registered raw (ps_id r) (w\<lparr> pw_rows := rows, pw_count := Suc (pw_count w),
      pw_state := set_loading False (reconcileCurrentSubscription (push_get_all rows) (Some (bs_endpoint s))
        (set_current (Some (ps_id r)) (pw_state w))) \<rparr>)"
    using assms(5-7) ok r by (auto simp: registered_def rec [unfolded ok(3)] set_loading_def isSubscribed_def truthy_iff)
  then show ?thesis
    using assms create by (simp add: register_subscription_def run_rules run_refresh [OF assms(1)])
qed

lemma run_obtain:
  assumes "pe_ready env = Some t" and "t < 3000" and "\<And>n. pe_uuid env n \<noteq> []" and "rows_ok (pw_rows w)"
    and "\<And>n. bs_applicationServerKey (pe_mint env raw n) = Some raw \<and> bs_endpoint (pe_mint env raw n) \<noteq> []"
    and "\<And>s. pw_browser w = Some s \<Longrightarrow> bs_endpoint s \<noteq> []"
  shows "\<exists>w' i. run_async env (obtain_subscription raw (pw_browser w) (register_subscription ua)) w = Some (w', Inr (Some i))
     \<and> registered raw i (w'\<lparr> pw_state := set_loading False (pw_state w') \<rparr>)"
proof -
  have make: "\<exists>w' i. run_async env (Browser_make raw (settled (register_subscription ua))) w1 = Some (w', Inr (Some i))
     \<and> registered raw i (w'\<lparr> pw_state := set_loading False (pw_state w') \<rparr>)" if "rows_ok (pw_rows w1)" for w1
    using that assms(1-5) by (simp add: Let_def run_settled) (rule run_register, auto)
  show ?thesis
  proof (cases "pw_browser w")
    case None
    then show ?thesis using make [OF assms(4)] by (simp add: obtain_subscription_def del: run_async.simps)
  next
    case (Some s)
    show ?thesis
    proof (cases "bs_applicationServerKey s = Some raw")
      case True
      then show ?thesis
        using Some run_register [OF assms(1-4) Some assms(6) [OF Some] True]
        by (simp add: obtain_subscription_def uint8ArraysEqual_iff)
    next
      case False
      then show ?thesis
        using Some make [of "w\<lparr> pw_browser := None \<rparr>"] assms(4)
        by (simp add: obtain_subscription_def uint8ArraysEqual_iff run_settled del: run_async.simps(8))
    qed
  qed
qed

text \<open>Enabling registers this device: with the server's key, under the row of its own endpoint, whether the browser had no
  subscription, one of the same key or one of an older key.\<close>

theorem subscribe_registers:
  assumes "pe_ready env = Some t" and "t < 3000" and "\<And>n. pe_uuid env n \<noteq> []"
    and "pe_vapid env = vapid_key_text raw" and "raw \<noteq> []" and "\<forall>x \<in> set raw. x < 256"
    and "\<And>n. bs_applicationServerKey (pe_mint env raw n) = Some raw \<and> bs_endpoint (pe_mint env raw n) \<noteq> []"
    and "rows_ok (pw_rows w)" and "\<And>s. pw_browser w = Some s \<Longrightarrow> bs_endpoint s \<noteq> []"
  shows "\<exists>w' i. run_async env (subscribe invalid ua True) w = Some (w', Inr (Some i)) \<and> registered raw i w'"
proof -
  have "vapid_key_text raw \<noteq> []" using assms(5) by (cases raw rule: pack.cases) (simp_all add: vapid_key_text_def)
  then have "vapid_answer env = Inr (vapid_key_text raw)" using assms(4) by (simp add: vapid_answer_def)
  then have "run_async env (request_subscription invalid ua) w1 =
      run_async env (obtain_subscription raw (pw_browser w1) (register_subscription ua)) w1" for w1
    using assms(1,2) vapid_key_roundtrip [OF assms(6)]
    by (simp add: request_subscription_def run_settled withTimeout_def)
  moreover have "\<exists>w' i. run_async env (obtain_subscription raw (pw_browser w1) (register_subscription ua)) w1 = Some (w', Inr (Some i))
     \<and> registered raw i (w'\<lparr> pw_state := set_loading False (pw_state w') \<rparr>)"
    if "w1 = w\<lparr> pw_state := set_loading True (pw_state w) \<rparr>" for w1
    by (rule run_obtain [OF assms(1-3)]) (use assms(7-9) that in auto)
  ultimately show ?thesis
    by (fastforce simp: subscribe_def run_rules)
qed

definition sample_env :: push_env where
  "sample_env = \<lparr> pe_ready = Some 5, pe_vapid = vapid_key_text [4, 200],
     pe_mint = (\<lambda>key n. \<lparr> bs_endpoint = ''https://push/'' @ show_nat n, bs_p256dh = ''p'', bs_auth = ''a'', bs_applicationServerKey = Some key \<rparr>),
     pe_uuid = (\<lambda>n. ''id'' @ show_nat n), pe_now = 1700000000, pe_refused = (\<lambda>n. Js_error ''refused''), pe_delivery = Delivered \<rparr>"

definition sample_world :: push_world where
  "sample_world = \<lparr> pw_state = push_init,
     pw_browser = Some \<lparr> bs_endpoint = ''https://old'', bs_p256dh = ''p'', bs_auth = ''a'', bs_applicationServerKey = Some [1] \<rparr>,
     pw_rows = [], pw_conversations = [], pw_count = 0 \<rparr>"

lemma subscribe_registers_witness:
  "\<exists>w' i. run_async sample_env (subscribe Not_an_error ''Firefox'' True) sample_world = Some (w', Inr (Some i)) \<and> registered [4, 200] i w'"
  by (rule subscribe_registers [where t = 5]) (auto simp: sample_env_def sample_world_def rows_ok_def)

text \<open>A page that is loaded later finds the device again, if the worker is up within a second.\<close>

theorem registered_found_again:
  assumes "registered raw i w" and "pe_ready env = Some t" and "t < 1000"
  shows "\<exists>w'. run_async env mount_devices (w\<lparr> pw_state := push_init\<lparr> pu_isSupported := True \<rparr> \<rparr>) = Some (w', Inr ())
     \<and> registered raw i w'"
proof -
  obtain s row where s: "pw_browser w = Some s" "bs_endpoint s \<noteq> []" "bs_applicationServerKey s = Some raw"
    "row \<in> set (pw_rows w)" "ps_id row = i" "ps_endpoint row = bs_endpoint s" and ok: "rows_ok (pw_rows w)"
    using assms(1) by (auto simp: registered_def)
  have "i \<noteq> []" using ok s(4,5) by (auto simp: rows_ok_def)
  moreover have "ps_endpoint row \<noteq> []" using s by simp
  note rec = reconcile_row [OF ok s(4) this]
  ultimately show ?thesis
    using s ok assms(2,3)
    by (auto simp: mount_devices_def Let_def run_rules withTimeout_def registered_def rec [unfolded s(5,6)] push_init_def
        isSubscribed_def truthy_iff)
qed

text \<open>Disabling removes the browser's subscription and the row of this device.\<close>

theorem unsubscribe_unregisters:
  assumes "registered raw i w" and "pe_ready env = Some t" and "t < 10000"
  shows "\<exists>w'. run_async env (unsubscribe (pu_currentSubscriptionId (pw_state w))) w = Some (w', Inr ())
     \<and> pw_browser w' = None \<and> (\<forall>row \<in> set (pw_rows w'). ps_id row \<noteq> i)
     \<and> pu_currentSubscriptionId (pw_state w') = None \<and> pu_allSubscriptions (pw_state w') = push_get_all (pw_rows w')
     \<and> \<not> pu_loading (pw_state w')"
proof -
  have "truthy (Some i)" using assms(1) by (auto simp: registered_def isSubscribed_def)
  then show ?thesis
    using assms by (auto simp: registered_def unsubscribe_def Let_def run_rules drop_browser_def push_delete_def
        run_refresh [OF assms(2,3)] reconcileCurrentSubscription_def set_loading_def set_current_def)
qed

text \<open>The list of devices is loaded for the settings page even when this browser takes no part, says the effect; where the worker
  is not up within a second it is dropped, and a refresh drops it as well.\<close>

lemma devices_dropped_without_worker:
  assumes "pe_ready env = None"
  shows "run_async env mount_devices w = Some (w, Inr ())" and "run_async env refreshSubscriptions w = Some (w, Inr [])"
  using assms by (simp_all add: mount_devices_def refreshSubscriptions_def Let_def run_rules withTimeout_def)

text \<open>Disabling waits for the worker without a deadline: where it never comes up the call never ends, and \<open>loading\<close> stays.\<close>

lemma unsubscribe_never_ends:
  assumes "pe_ready env = None"
  shows "run_async env (unsubscribe current) w = None"
  using assms by (simp add: unsubscribe_def Let_def run_rules drop_browser_def)

text \<open>Two clicks on a bell leave the list of conversations as it was, but for the order.\<close>

lemma toggle_conversation_twice:
  assumes "distinct cs"
  shows "set (server_toggle_conversation c (server_toggle_conversation c cs)) = set cs"
  using assms by (auto simp: server_toggle_conversation_def)

end
