(* ===== verification/Trace_Pane.thy ===== *)
theory Trace_Pane
  imports Sidebar Path_Utils Preferences
begin

text \<open>
  Tracing a route: \<^verbatim>\<open>components/TracePane.tsx\<close> (the list of repeaters, the draft of a route, its runs and the history it keeps),
  and the endpoint it calls, \<^verbatim>\<open>_resolve_trace_hops\<close> and \<^verbatim>\<open>trace_path\<close> of \<^verbatim>\<open>app/routers/radio.py\<close>.

  A run is cut at its request. The two histories are kept in storage; for the traces a value is what it parses to as an
  array of this page's entries (\<open>None\<close> for a text that is none), for the nodes any JSON value.
\<close>

section \<open>Hops\<close>

datatype trace_sort_mode = Sort_alpha | Sort_recent | Sort_distance | Sort_traced

type_synonym custom_hop_bytes = nat

definition RECENT_TRACES_KEY :: string where "RECENT_TRACES_KEY = ''remoteterm-recent-traces''"
definition MAX_RECENT_TRACES :: nat where "MAX_RECENT_TRACES = 5"
definition RECENT_NODES_KEY :: string where "RECENT_NODES_KEY = ''remoteterm-recent-trace-nodes''"
definition MAX_RECENT_NODES :: nat where "MAX_RECENT_NODES = 30"
definition MAX_RENDERED_REPEATERS :: nat where "MAX_RENDERED_REPEATERS = 60"

datatype hop_kind = Kind_repeater | Kind_custom

record saved_trace_hop =
  sh_kind :: hop_kind
  sh_publicKey :: "string option"
  sh_hopHex :: "string option"
  sh_hopBytes :: "custom_hop_bytes option"
  sh_displayName :: string

record saved_trace =
  sv_hops :: "saved_trace_hop list"
  sv_ranAt :: int

datatype trace_draft_hop =
    is_Draft_repeater: Draft_repeater (dh_id: string) (dh_publicKey: string)
  | Draft_custom (dh_id: string) (dh_hopHex: string) (dh_hopBytes: custom_hop_bytes)

section \<open>History\<close>

type_synonym trace_storage = "saved_trace list option web_storage"

definition loadRecentTraces :: "trace_storage \<Rightarrow> saved_trace list" where
  "loadRecentTraces ws =
     (case getItem RECENT_TRACES_KEY ws of Inr (Some (Some parsed)) \<Rightarrow> take MAX_RECENT_TRACES parsed | _ \<Rightarrow> [])"

definition hop_signature :: "saved_trace_hop list \<Rightarrow> string" where
  "hop_signature hops = join '','' (map (\<lambda>h. coalesce (sh_publicKey h) (coalesce (sh_hopHex h) [])) hops)"

definition saveRecentTrace :: "saved_trace \<Rightarrow> trace_storage \<Rightarrow> trace_storage" where
  "saveRecentTrace trace ws =
     (let existing = loadRecentTraces ws;
          sig = hop_signature (sv_hops trace);
          deduped = filter (\<lambda>t. hop_signature (sv_hops t) \<noteq> sig) existing;
          updated = take MAX_RECENT_TRACES (trace # deduped)
      in setItem RECENT_TRACES_KEY (Some updated) ws)"

definition repeaterKeysFromHops :: "saved_trace_hop list \<Rightarrow> string list" where
  "repeaterKeysFromHops hops =
     js_set_of (map (\<lambda>hop. the (sh_publicKey hop)) (filter (\<lambda>hop. sh_kind hop = Kind_repeater \<and> truthy (sh_publicKey hop)) hops))"

text \<open>An entry that is \<^verbatim>\<open>null\<close> has no key: \<^verbatim>\<open>entry?.publicKey ?? null\<close>.\<close>

definition node_key :: "json \<Rightarrow> string option" where
  "node_key entry =
     (case entry of
        JStr s \<Rightarrow> if s \<noteq> [] then Some s else None
      | _ \<Rightarrow> (case json_member entry ''publicKey'' of Some (JStr s) \<Rightarrow> if s \<noteq> [] then Some s else None | _ \<Rightarrow> None))"

definition loadRecentNodeKeys :: "json_storage \<Rightarrow> trace_storage \<Rightarrow> string list" where
  "loadRecentNodeKeys ns ws =
     (case getItem RECENT_NODES_KEY ns of
        Inl _ \<Rightarrow> []
      | Inr (Some None) \<Rightarrow> []
      | Inr (Some (Some (JArr parsed))) \<Rightarrow> take MAX_RECENT_NODES (js_set_of (List.map_filter node_key parsed))
      | Inr (Some (Some _)) \<Rightarrow> []
      | Inr None \<Rightarrow> take MAX_RECENT_NODES (repeaterKeysFromHops (concat (map sv_hops (loadRecentTraces ws)))))"

definition saveRecentNodeKeys :: "saved_trace_hop list \<Rightarrow> trace_storage \<Rightarrow> json_storage \<Rightarrow> json_storage" where
  "saveRecentNodeKeys hops ws ns =
     (let fresh = repeaterKeysFromHops hops;
          rest = filter (\<lambda>key. key \<notin> set fresh) (loadRecentNodeKeys ns ws)
      in setItem RECENT_NODES_KEY (Some (JArr (map JStr (take MAX_RECENT_NODES (fresh @ rest))))) ns)"

section \<open>Helpers\<close>

definition getHeardTimestamp :: "contact \<Rightarrow> int" where
  "getHeardTimestamp c = max (coalesce (ct_last_seen c) 0) (coalesce (ct_last_advert c) 0)"

definition config_located :: "radio_config option \<Rightarrow> bool" where
  "config_located config = (case config of None \<Rightarrow> False | Some g \<Rightarrow> isValidLocation (Some (rc_lat g)) (Some (rc_lon g)))"

definition getDistanceKm :: "contact \<Rightarrow> radio_config option \<Rightarrow> real option" where
  "getDistanceKm c config =
     (case config of
        None \<Rightarrow> None
      | Some g \<Rightarrow>
          if \<not> isValidLocation (Some (rc_lat g)) (Some (rc_lon g)) \<or> \<not> isValidLocation (ct_lat c) (ct_lon c) then None
          else calculateDistance (Some (rc_lat g)) (Some (rc_lon g)) (ct_lat c) (ct_lon c))"

definition getShortKey :: "string option \<Rightarrow> string" where
  "getShortKey publicKey = (if truthy publicKey then take 12 (the publicKey) else ''unknown'')"

definition splice_out :: "nat \<Rightarrow> 'a list \<Rightarrow> 'a list" where
  "splice_out i xs = take i xs @ drop (i + 1) xs"

definition splice_in :: "nat \<Rightarrow> 'a \<Rightarrow> 'a list \<Rightarrow> 'a list" where
  "splice_in i x xs = take i xs @ x # drop i xs"

text \<open>The index is that of a shown hop.\<close>

definition moveHop :: "'a list \<Rightarrow> nat \<Rightarrow> int \<Rightarrow> 'a list" where
  "moveHop hops index direction =
     (let nextIndex = int index + direction in
      if nextIndex < 0 \<or> nextIndex \<ge> int (length hops) then hops
      else splice_in (nat nextIndex) (hops ! index) (splice_out index hops))"

definition hex_digit :: "char \<Rightarrow> bool" where
  "hex_digit c \<longleftrightarrow>
     (let n = of_char c :: nat in 97 \<le> n \<and> n \<le> 102 \<or> 65 \<le> n \<and> n \<le> 70 \<or> 48 \<le> n \<and> n \<le> 57)"

definition normalizeCustomHopHex :: "string \<Rightarrow> string" where
  "normalizeCustomHopHex value = to_lower (filter hex_digit value)"

text \<open>\<open>uuid\<close> is what \<^verbatim>\<open>crypto.randomUUID()\<close> gives, \<open>None\<close> where a page has none.\<close>

definition nextDraftHopId :: "string option \<Rightarrow> int \<Rightarrow> string \<Rightarrow> nat \<Rightarrow> string" where
  "nextDraftHopId uuid now kind currentLength =
     (case uuid of Some u \<Rightarrow> kind @ ''-'' @ u | None \<Rightarrow> kind @ ''-'' @ show_int now @ ''-'' @ show_nat currentLength)"

section \<open>The list of repeaters\<close>

definition trace_repeaters :: "contact list \<Rightarrow> contact list" where
  "trace_repeaters contacts =
     map snd (fold (\<lambda>c m. if ct_type c \<noteq> CONTACT_TYPE_REPEATER \<or> length (ct_public_key c) \<noteq> 64 then m
                          else if jm_has m (ct_public_key c) then m else jm_set (ct_public_key c) c m) contacts [])"

definition repeaters_by_key :: "contact list \<Rightarrow> (string, contact) jsmap" where
  "repeaters_by_key contacts = map (\<lambda>c. (ct_public_key c, c)) (trace_repeaters contacts)"

text \<open>The comparison of two positions, a missing one being last, and of two distances.\<close>

definition index_cmp :: "nat option \<Rightarrow> nat option \<Rightarrow> int" where
  "index_cmp l r =
     (case (l, r) of
        (Some i, Some j) \<Rightarrow> int i - int j | (Some _, None) \<Rightarrow> -1 | (None, Some _) \<Rightarrow> 1 | (None, None) \<Rightarrow> 0)"

definition distance_cmp :: "real option \<Rightarrow> real option \<Rightarrow> int" where
  "distance_cmp l r =
     (case (l, r) of
        (Some x, Some y) \<Rightarrow> if x < y then -1 else if y < x then 1 else 0
      | (Some _, None) \<Rightarrow> -1 | (None, Some _) \<Rightarrow> 1 | (None, None) \<Rightarrow> 0)"

definition trace_label :: "contact \<Rightarrow> string" where
  "trace_label c = getContactDisplayName (ct_name c) (ct_public_key c) (ct_last_advert c)"

definition repeater_mode_cmp :: "trace_sort_mode \<Rightarrow> string list \<Rightarrow> radio_config option \<Rightarrow> contact \<Rightarrow> contact \<Rightarrow> int" where
  "repeater_mode_cmp sortMode nodeKeys config l r =
     (case sortMode of
        Sort_alpha \<Rightarrow> 0
      | Sort_traced \<Rightarrow>
          index_cmp (find_index (\<lambda>k. k = ct_public_key l) nodeKeys) (find_index (\<lambda>k. k = ct_public_key r) nodeKeys)
      | Sort_recent \<Rightarrow> getHeardTimestamp r - getHeardTimestamp l
      | Sort_distance \<Rightarrow> distance_cmp (getDistanceKm l config) (getDistanceKm r config))"

definition trace_cmp :: "(string \<Rightarrow> string \<Rightarrow> int) \<Rightarrow> trace_sort_mode \<Rightarrow> string list \<Rightarrow> radio_config option \<Rightarrow> contact \<Rightarrow> contact \<Rightarrow> int" where
  "trace_cmp localeCompare sortMode nodeKeys config l r =
     (let c = repeater_mode_cmp sortMode nodeKeys config l r in
      if c \<noteq> 0 then c else localeCompare (trace_label l) (trace_label r))"

definition filteredRepeaters ::
  "(string \<Rightarrow> string \<Rightarrow> int) \<Rightarrow> contact list \<Rightarrow> radio_config option \<Rightarrow> string list \<Rightarrow> string \<Rightarrow> trace_sort_mode \<Rightarrow> contact list" where
  "filteredRepeaters localeCompare contacts config nodeKeys searchQuery sortMode =
     (let query = to_lower (trim searchQuery);
          repeaters = trace_repeaters contacts;
          matching = (if query \<noteq> []
            then filter (\<lambda>c. str_includes (to_lower (coalesce (ct_name c) [])) query
                              \<or> starts_with (to_lower (ct_public_key c)) query) repeaters
            else repeaters);
          matching = (if sortMode = Sort_traced then filter (\<lambda>c. ct_public_key c \<in> set nodeKeys) matching else matching);
          matching = (if sortMode = Sort_distance \<and> config_located config
            then filter (\<lambda>c. getDistanceKm c config \<noteq> None) matching else matching)
      in js_sort (trace_cmp localeCompare sortMode nodeKeys config) matching)"

definition visibleRepeaters :: "contact list \<Rightarrow> contact list" where
  "visibleRepeaters filtered = take MAX_RENDERED_REPEATERS filtered"

definition no_repeaters_text :: "trace_sort_mode \<Rightarrow> string list \<Rightarrow> radio_config option \<Rightarrow> string" where
  "no_repeaters_text sortMode nodeKeys config =
     (if sortMode = Sort_traced \<and> nodeKeys = []
      then ''No repeaters have been used in traces yet. Run a trace and its repeaters will show up here.''
      else if sortMode = Sort_traced then ''No known repeaters match your recent trace history.''
      else if sortMode = Sort_distance \<and> config_located config then ''No repeaters with a known distance matched this search.''
      else ''No repeaters matched this search.'')"

section \<open>The pane\<close>

datatype trace_role = Role_repeater | Role_custom | Role_local

record radio_trace_node =
  tn_role :: trace_role
  tn_public_key :: "string option"
  tn_name :: "string option"
  tn_observed_hash :: "string option"
  tn_snr :: "real option"

record radio_trace_hop_request =
  th_public_key :: "string option"
  th_hop_hex :: "string option"

record radio_trace_response =
  rt_path_len :: int
  rt_timeout_seconds :: real
  rt_nodes :: "radio_trace_node list"

record trace_state =
  tp_draftHops :: "trace_draft_hop list"
  tp_loading :: bool
  tp_error :: "string option"
  tp_result :: "radio_trace_response option"
  tp_dialogOpen :: bool
  tp_hopBytesDraft :: custom_hop_bytes
  tp_hopHexDraft :: string
  tp_hopError :: "string option"
  tp_recentTraces :: "saved_trace list"
  tp_recentNodeKeys :: "string list"
  tp_activeRunToken :: nat
  tp_traceStore :: trace_storage
  tp_nodeStore :: json_storage

definition trace_init :: "trace_storage \<Rightarrow> json_storage \<Rightarrow> trace_state" where
  "trace_init ws ns =
     \<lparr> tp_draftHops = [], tp_loading = False, tp_error = None, tp_result = None, tp_dialogOpen = False, tp_hopBytesDraft = 1,
       tp_hopHexDraft = [], tp_hopError = None, tp_recentTraces = loadRecentTraces ws, tp_recentNodeKeys = loadRecentNodeKeys ns ws,
       tp_activeRunToken = 0, tp_traceStore = ws, tp_nodeStore = ns \<rparr>"

definition customHopBytesLocked :: "trace_draft_hop list \<Rightarrow> custom_hop_bytes option" where
  "customHopBytesLocked hops = map_option dh_hopBytes (find (\<lambda>h. \<not> is_Draft_repeater h) hops)"

definition effectiveHopHashBytes :: "trace_draft_hop list \<Rightarrow> custom_hop_bytes" where
  "effectiveHopHashBytes hops = coalesce (customHopBytesLocked hops) 4"

text \<open>The effect that resets the dialog when it opens or the locked width changes.\<close>

definition dialog_effect :: "trace_state \<Rightarrow> trace_state" where
  "dialog_effect st =
     (if \<not> tp_dialogOpen st then st
      else st\<lparr> tp_hopBytesDraft := coalesce (customHopBytesLocked (tp_draftHops st)) 1, tp_hopHexDraft := [], tp_hopError := None \<rparr>)"

definition open_dialog :: "trace_state \<Rightarrow> trace_state" where
  "open_dialog st = dialog_effect (st\<lparr> tp_dialogOpen := True \<rparr>)"

definition clearPendingResult :: "trace_state \<Rightarrow> trace_state" where
  "clearPendingResult st =
     st\<lparr> tp_activeRunToken := tp_activeRunToken st + 1, tp_loading := False, tp_result := None, tp_error := None \<rparr>"

definition handleAddRepeater :: "string option \<Rightarrow> int \<Rightarrow> string \<Rightarrow> trace_state \<Rightarrow> trace_state" where
  "handleAddRepeater uuid now publicKey st =
     clearPendingResult (st\<lparr> tp_draftHops := tp_draftHops st
       @ [Draft_repeater (nextDraftHopId uuid now ''repeater'' (length (tp_draftHops st))) publicKey] \<rparr>)"

definition choose_hop_bytes :: "custom_hop_bytes \<Rightarrow> trace_state \<Rightarrow> trace_state" where
  "choose_hop_bytes v st =
     (if customHopBytesLocked (tp_draftHops st) \<noteq> None \<and> customHopBytesLocked (tp_draftHops st) \<noteq> Some v then st
      else st\<lparr> tp_hopBytesDraft := v \<rparr>)"

definition type_hop_hex :: "string \<Rightarrow> trace_state \<Rightarrow> trace_state" where
  "type_hop_hex v st = st\<lparr> tp_hopHexDraft := normalizeCustomHopHex v \<rparr>"

definition handleAddCustomHop :: "string option \<Rightarrow> int \<Rightarrow> trace_state \<Rightarrow> trace_state" where
  "handleAddCustomHop uuid now st =
     (let hopBytes = coalesce (customHopBytesLocked (tp_draftHops st)) (tp_hopBytesDraft st);
          hopHex = normalizeCustomHopHex (tp_hopHexDraft st)
      in if length hopHex \<noteq> hopBytes * 2
         then st\<lparr> tp_hopError := Some (''Custom hop must be exactly '' @ show_nat (hopBytes * 2) @ '' hex characters.'') \<rparr>
         else (clearPendingResult (st\<lparr> tp_draftHops := tp_draftHops st
                 @ [Draft_custom (nextDraftHopId uuid now ''custom'' (length (tp_draftHops st))) hopHex hopBytes] \<rparr>))
              \<lparr> tp_dialogOpen := False \<rparr>)"

definition handleRemoveHop :: "string \<Rightarrow> trace_state \<Rightarrow> trace_state" where
  "handleRemoveHop i st = clearPendingResult (st\<lparr> tp_draftHops := filter (\<lambda>h. dh_id h \<noteq> i) (tp_draftHops st) \<rparr>)"

definition handleMoveHop :: "nat \<Rightarrow> int \<Rightarrow> trace_state \<Rightarrow> trace_state" where
  "handleMoveHop index direction st = clearPendingResult (st\<lparr> tp_draftHops := moveHop (tp_draftHops st) index direction \<rparr>)"

definition clear_hops :: "trace_state \<Rightarrow> trace_state" where
  "clear_hops st = clearPendingResult (st\<lparr> tp_draftHops := [] \<rparr>)"

fun rename_hop :: "string \<Rightarrow> trace_draft_hop \<Rightarrow> trace_draft_hop" where
  "rename_hop i (Draft_repeater _ k) = Draft_repeater i k"
| "rename_hop i (Draft_custom _ h b) = Draft_custom i h b"

definition hop_kind_name :: "trace_draft_hop \<Rightarrow> string" where
  "hop_kind_name h = (if is_Draft_repeater h then ''repeater'' else ''custom'')"

definition return_hops :: "(nat \<Rightarrow> string option) \<Rightarrow> int \<Rightarrow> trace_draft_hop list \<Rightarrow> trace_draft_hop list" where
  "return_hops uuids now current =
     map (\<lambda>(i, h). rename_hop (nextDraftHopId (uuids i) now (hop_kind_name h) (length current + i)) h)
       (zip [0..<length current - 1] (drop 1 (rev current)))"

definition handleReverseLink :: "(nat \<Rightarrow> string option) \<Rightarrow> int \<Rightarrow> trace_state \<Rightarrow> trace_state" where
  "handleReverseLink uuids now st =
     clearPendingResult (st\<lparr> tp_draftHops :=
       (if length (tp_draftHops st) < 2 then tp_draftHops st
        else tp_draftHops st @ return_hops uuids now (tp_draftHops st)) \<rparr>)"

section \<open>Runs\<close>

fun hop_request :: "trace_draft_hop \<Rightarrow> radio_trace_hop_request" where
  "hop_request (Draft_repeater _ k) = \<lparr> th_public_key = Some k, th_hop_hex = None \<rparr>"
| "hop_request (Draft_custom _ h _) = \<lparr> th_public_key = None, th_hop_hex = Some h \<rparr>"

record trace_run =
  tr_token :: nat
  tr_hopHashBytes :: custom_hop_bytes
  tr_requests :: "radio_trace_hop_request list"
  tr_saved :: "saved_trace_hop list"

definition start_run :: "custom_hop_bytes \<Rightarrow> trace_draft_hop list \<Rightarrow> saved_trace_hop list \<Rightarrow> trace_state \<Rightarrow> trace_state \<times> trace_run" where
  "start_run bytes hops saved st =
     (let runToken = tp_activeRunToken st + 1 in
      (st\<lparr> tp_activeRunToken := runToken, tp_loading := True, tp_error := None, tp_result := None \<rparr>,
       \<lparr> tr_token = runToken, tr_hopHashBytes = bytes, tr_requests = map hop_request hops, tr_saved = saved \<rparr>))"

text \<open>The repeaters are those of the render in which the run was started.\<close>

fun saved_hop :: "contact list \<Rightarrow> trace_draft_hop \<Rightarrow> saved_trace_hop" where
  "saved_hop contacts (Draft_repeater _ k) =
     (let c = jm_get (repeaters_by_key contacts) k in
      \<lparr> sh_kind = Kind_repeater, sh_publicKey = Some k, sh_hopHex = None, sh_hopBytes = None,
        sh_displayName = getContactDisplayName (Option.bind c ct_name) k (Option.bind c ct_last_advert) \<rparr>)"
| "saved_hop contacts (Draft_custom _ h b) =
     \<lparr> sh_kind = Kind_custom, sh_publicKey = None, sh_hopHex = Some h, sh_hopBytes = Some b,
       sh_displayName = to_upper h @ '' ('' @ show_nat b @ ''B)'' \<rparr>"

definition handleRunTrace :: "contact list \<Rightarrow> trace_state \<Rightarrow> trace_state \<times> trace_run option" where
  "handleRunTrace contacts st =
     (if tp_draftHops st = [] then (st, None)
      else let (st', run) = start_run (effectiveHopHashBytes (tp_draftHops st)) (tp_draftHops st)
                              (map (saved_hop contacts) (tp_draftHops st)) st
           in (st', Some run))"

definition loaded_hop :: "(nat \<Rightarrow> string option) \<Rightarrow> int \<Rightarrow> nat \<Rightarrow> saved_trace_hop \<Rightarrow> trace_draft_hop" where
  "loaded_hop uuids now i h =
     (if sh_kind h = Kind_repeater \<and> truthy (sh_publicKey h)
      then Draft_repeater (nextDraftHopId (uuids i) now ''repeater'' i) (the (sh_publicKey h))
      else Draft_custom (nextDraftHopId (uuids i) now ''custom'' i) (coalesce (sh_hopHex h) []) (coalesce (sh_hopBytes h) 1))"

definition loaded_hops :: "(nat \<Rightarrow> string option) \<Rightarrow> int \<Rightarrow> saved_trace_hop list \<Rightarrow> trace_draft_hop list" where
  "loaded_hops uuids now hops = map (\<lambda>(i, h). loaded_hop uuids now i h) (zip [0..<length hops] hops)"

definition handleLoadRecentTrace :: "(nat \<Rightarrow> string option) \<Rightarrow> int \<Rightarrow> saved_trace \<Rightarrow> trace_state \<Rightarrow> trace_state \<times> trace_run" where
  "handleLoadRecentTrace uuids now trace st =
     (let hops = loaded_hops uuids now (sv_hops trace)
      in start_run (effectiveHopHashBytes hops) hops (sv_hops trace) (st\<lparr> tp_draftHops := hops \<rparr>))"

definition recordTraceRun :: "int \<Rightarrow> saved_trace_hop list \<Rightarrow> trace_state \<Rightarrow> trace_state" where
  "recordTraceRun now hops st =
     (let ws = saveRecentTrace \<lparr> sv_hops = hops, sv_ranAt = now \<rparr> (tp_traceStore st);
          ns = saveRecentNodeKeys hops ws (tp_nodeStore st)
      in st\<lparr> tp_traceStore := ws, tp_recentTraces := loadRecentTraces ws,
             tp_nodeStore := ns, tp_recentNodeKeys := loadRecentNodeKeys ns ws \<rparr>)"

text \<open>The request of a run has been answered, or failed with a message.\<close>

definition trace_answered :: "int \<Rightarrow> trace_run \<Rightarrow> string + radio_trace_response \<Rightarrow> trace_state \<Rightarrow> trace_state" where
  "trace_answered now run answer st =
     (if tp_activeRunToken st \<noteq> tr_token run then st
      else (case answer of
              Inr traceResult \<Rightarrow> recordTraceRun now (tr_saved run) (st\<lparr> tp_result := Some traceResult \<rparr>)
            | Inl message \<Rightarrow> st\<lparr> tp_error := Some message \<rparr>)\<lparr> tp_loading := False \<rparr>)"

definition clear_results :: "trace_state \<Rightarrow> trace_state" where
  "clear_results st = st\<lparr> tp_result := None, tp_error := None \<rparr>"

section \<open>What is shown\<close>

definition middle_dot :: string where "middle_dot = [char_of (183 :: nat)]"

definition localRadioName :: "radio_config option \<Rightarrow> string" where
  "localRadioName config = or_else (map_option rc_name config) ''Local radio''"

definition resultNodes :: "radio_config option \<Rightarrow> trace_state \<Rightarrow> radio_trace_node list" where
  "resultNodes config st =
     (case tp_result st of
        None \<Rightarrow> []
      | Some result \<Rightarrow>
          \<lparr> tn_role = Role_local, tn_public_key = map_option rc_public_key config,
            tn_name = Some (localRadioName config), tn_observed_hash = None, tn_snr = None \<rparr>
          # rt_nodes result)"

definition result_title :: "radio_config option \<Rightarrow> radio_trace_node \<Rightarrow> string" where
  "result_title config node =
     or_else (tn_name node)
       (case tn_role node of Role_custom \<Rightarrow> ''Custom hop'' | Role_local \<Rightarrow> localRadioName config
        | Role_repeater \<Rightarrow> getShortKey (tn_public_key node))"

definition result_subtitle :: "radio_trace_node \<Rightarrow> string" where
  "result_subtitle node =
     (let short = getShortKey (tn_public_key node) in
      if tn_role node = Role_custom then ''Key prefix '' @ coalesce (map_option to_upper (tn_observed_hash node)) ''unknown''
      else if truthy (tn_observed_hash node) \<and> truthy (tn_public_key node) \<and> to_lower (the (tn_observed_hash node)) \<noteq> to_lower short
      then short @ '' '' @ middle_dot @ '' key prefix '' @ to_upper (the (tn_observed_hash node))
      else short)"

definition draft_title :: "contact list \<Rightarrow> trace_draft_hop \<Rightarrow> string" where
  "draft_title contacts hop =
     (case hop of
        Draft_repeater _ k \<Rightarrow>
          (let c = jm_get (repeaters_by_key contacts) k in getContactDisplayName (Option.bind c ct_name) k (Option.bind c ct_last_advert))
      | Draft_custom _ _ _ \<Rightarrow> ''Custom hop'')"

definition draft_subtitle :: "trace_draft_hop \<Rightarrow> string" where
  "draft_subtitle hop =
     (case hop of
        Draft_repeater _ k \<Rightarrow> getShortKey (Some k)
      | Draft_custom _ h b \<Rightarrow> to_upper h @ '' ('' @ show_nat b @ ''-byte)'')"

definition added_count :: "trace_draft_hop list \<Rightarrow> contact \<Rightarrow> nat" where
  "added_count hops c = length (filter (\<lambda>h. is_Draft_repeater h \<and> dh_publicKey h = ct_public_key c) hops)"

definition recent_hop_label :: "saved_trace_hop \<Rightarrow> string" where
  "recent_hop_label h =
     (if sh_kind h = Kind_repeater \<and> truthy (sh_publicKey h)
      then (let shortKey = take 12 (the (sh_publicKey h))
            in if sh_displayName h \<noteq> shortKey then sh_displayName h @ '' ('' @ shortKey @ '')'' else shortKey)
      else sh_displayName h)"

section \<open>The server\<close>

text \<open>\<^verbatim>\<open>bytes.fromhex\<close> skips blanks between bytes.\<close>

definition python_blank :: "char \<Rightarrow> bool" where
  "python_blank c \<longleftrightarrow> of_char c \<in> {9, 10, 11, 12, 13, 32 :: nat}"

fun fromhex_ok :: "string \<Rightarrow> bool" where
  "fromhex_ok [] \<longleftrightarrow> True"
| "fromhex_ok [c] \<longleftrightarrow> python_blank c"
| "fromhex_ok (a # b # s) \<longleftrightarrow> (if python_blank a then fromhex_ok (b # s) else hex_digit a \<and> hex_digit b \<and> fromhex_ok s)"

text \<open>\<^verbatim>\<open>s.strip().lower()\<close> of a string that may be missing.\<close>

definition strip_lower :: "string option \<Rightarrow> string option" where
  "strip_lower s = map_option (\<lambda>s. to_lower (rev (dropWhile python_blank (rev (dropWhile python_blank s))))) s"

definition contact_by_key :: "contact list \<Rightarrow> string \<Rightarrow> contact option" where
  "contact_by_key db public_key = find (\<lambda>c. ct_public_key c = to_lower public_key) db"

definition trace_hash_for_key :: "string \<Rightarrow> custom_hop_bytes \<Rightarrow> string" where
  "trace_hash_for_key public_key hop_hash_bytes = to_lower (take (hop_hash_bytes * 2) public_key)"

type_synonym http_error = "nat \<times> string"

definition resolve_trace_hop :: "contact list \<Rightarrow> custom_hop_bytes \<Rightarrow> radio_trace_hop_request \<Rightarrow> http_error + radio_trace_node \<times> string" where
  "resolve_trace_hop db hop_hash_bytes hop =
     (let public_key = strip_lower (th_public_key hop);
          hop_hex = strip_lower (th_hop_hex hop)
      in if truthy public_key = truthy hop_hex
         then Inl (400, ''Each trace hop must provide exactly one of public_key or hop_hex'')
         else if truthy public_key
         then (let key = the public_key in
               if length key \<noteq> 64 then Inl (400, ''Trace repeater keys must be full 64-character public keys'')
               else if \<not> fromhex_ok key then Inl (400, ''Trace repeater keys must be valid hex public keys'')
               else case contact_by_key db key of
                      None \<Rightarrow> Inl (404, ''Trace repeater not found: '' @ key)
                    | Some c \<Rightarrow>
                        if ct_type c \<noteq> CONTACT_TYPE_REPEATER then Inl (400, ''Trace node is not a repeater: '' @ take 12 key)
                        else Inr (\<lparr> tn_role = Role_repeater, tn_public_key = Some (ct_public_key c), tn_name = ct_name c,
                                    tn_observed_hash = None, tn_snr = None \<rparr>,
                                  trace_hash_for_key (ct_public_key c) hop_hash_bytes))
         else (let h = the hop_hex in
               if length h \<noteq> hop_hash_bytes * 2
               then Inl (400, ''Custom trace hops must be exactly '' @ show_nat (hop_hash_bytes * 2) @ '' hex characters'')
               else if \<not> fromhex_ok h then Inl (400, ''Custom trace hops must be valid hex'')
               else Inr (\<lparr> tn_role = Role_custom, tn_public_key = None, tn_name = None, tn_observed_hash = Some h, tn_snr = None \<rparr>, h)))"

fun resolve_trace_hops ::
  "contact list \<Rightarrow> custom_hop_bytes \<Rightarrow> radio_trace_hop_request list \<Rightarrow> http_error + radio_trace_node list \<times> string list" where
  "resolve_trace_hops db n [] = Inr ([], [])"
| "resolve_trace_hops db n (hop # hops) =
     (case resolve_trace_hop db n hop of
        Inl e \<Rightarrow> Inl e
      | Inr (node, hash) \<Rightarrow>
          (case resolve_trace_hops db n hops of
             Inl e \<Rightarrow> Inl e
           | Inr (nodes, hashes) \<Rightarrow> Inr (node # nodes, hash # hashes)))"

definition TRACE_HASH_FLAGS :: "(custom_hop_bytes \<times> nat) list" where
  "TRACE_HASH_FLAGS = [(1, 0), (2, 1), (4, 2)]"

text \<open>What the radio heard: per node a hash, if it is a string, and an SNR, if it is a number.\<close>

record heard_node =
  hn_hash :: "string option"
  hn_snr :: "real option"

definition final_local_node :: "heard_node list \<Rightarrow> heard_node option" where
  "final_local_node path_nodes =
     (if path_nodes \<noteq> [] \<and> hn_hash (last path_nodes) = None then Some (last path_nodes) else None)"

definition hashed_nodes :: "heard_node list \<Rightarrow> heard_node list" where
  "hashed_nodes path_nodes = (if final_local_node path_nodes \<noteq> None then butlast path_nodes else path_nodes)"

definition trace_answer_nodes ::
  "radio_trace_node list \<Rightarrow> heard_node list \<Rightarrow> string \<Rightarrow> string option \<Rightarrow> http_error + radio_trace_node list" where
  "trace_answer_nodes trace_nodes path_nodes local_public_key local_name =
     (if length (hashed_nodes path_nodes) < length trace_nodes then Inl (422, ''Trace response was incomplete'')
      else Inr (map (\<lambda>(node, observed).
                        node\<lparr> tn_observed_hash := (case hn_hash observed of Some h \<Rightarrow> Some h | None \<Rightarrow> tn_observed_hash node),
                              tn_snr := hn_snr observed \<rparr>) (zip trace_nodes (hashed_nodes path_nodes))
                   @ [\<lparr> tn_role = Role_local, tn_public_key = Some local_public_key, tn_name = or_null local_name,
                        tn_observed_hash = None, tn_snr = Option.bind (final_local_node path_nodes) hn_snr \<rparr>]))"

section \<open>A route is one the server takes\<close>

definition hex_text :: "string \<Rightarrow> bool" where
  "hex_text s \<longleftrightarrow> (\<forall>c \<in> set s. hex_digit c)"

definition good_key :: "string \<Rightarrow> bool" where
  "good_key k \<longleftrightarrow> length k = 64 \<and> hex_text k"

fun hop_ok :: "custom_hop_bytes \<Rightarrow> trace_draft_hop \<Rightarrow> bool" where
  "hop_ok n (Draft_repeater _ k) \<longleftrightarrow> good_key k"
| "hop_ok n (Draft_custom _ h b) \<longleftrightarrow> b = n \<and> length h = 2 * n \<and> hex_text h"

definition draft_ok :: "trace_draft_hop list \<Rightarrow> bool" where
  "draft_ok hops \<longleftrightarrow> (\<exists>n \<in> {1, 2, 4}. \<forall>h \<in> set hops. hop_ok n h)"

lemma hex_digit_lower: "hex_digit c \<Longrightarrow> hex_digit (lower_char c)"
  by (auto simp: hex_digit_def lower_char_def Let_def)

lemma hex_text_lower: "hex_text s \<Longrightarrow> hex_text (to_lower s)"
  by (auto simp: hex_text_def to_lower_def hex_digit_lower)

lemma hex_not_blank: "hex_digit c \<Longrightarrow> \<not> python_blank c"
  by (auto simp: hex_digit_def python_blank_def Let_def)

lemma strip_lower_hex: "hex_text s \<Longrightarrow> strip_lower (Some s) = Some (to_lower s)"
proof -
  assume "hex_text s"
  then have "dropWhile python_blank t = t" if "set t \<subseteq> set s" for t
    using that hex_not_blank by (cases t) (auto simp: hex_text_def)
  then show ?thesis by (simp add: strip_lower_def)
qed

lemma fromhex_hex: "hex_text s \<Longrightarrow> even (length s) \<Longrightarrow> fromhex_ok s"
  by (induction s rule: fromhex_ok.induct) (auto simp: hex_text_def hex_not_blank)

lemma effective_ok:
  assumes "draft_ok hops"
  shows "effectiveHopHashBytes hops \<in> {1, 2, 4}" "\<forall>h \<in> set hops. hop_ok (effectiveHopHashBytes hops) h"
proof -
  obtain n where n: "n \<in> {1, 2, 4}" "\<forall>h \<in> set hops. hop_ok n h" using assms by (auto simp: draft_ok_def)
  have "effectiveHopHashBytes hops \<in> {1, 2, 4} \<and> (\<forall>h \<in> set hops. hop_ok (effectiveHopHashBytes hops) h)"
  proof (cases "find (\<lambda>h. \<not> is_Draft_repeater h) hops")
    case None
    then have "\<forall>h \<in> set hops. is_Draft_repeater h" by (simp add: find_None_iff)
    then have "hop_ok m h" if "h \<in> set hops" for h m using n(2) that by (cases h) auto
    then show ?thesis using None by (simp add: effectiveHopHashBytes_def customHopBytesLocked_def)
  next
    case (Some h)
    then have "h \<in> set hops" "\<not> is_Draft_repeater h" by (auto simp: find_Some_iff)
    then have "hop_ok n h" "\<not> is_Draft_repeater h" using n(2) by simp_all
    then have "dh_hopBytes h = n" by (cases h) simp_all
    then show ?thesis using Some n by (simp add: effectiveHopHashBytes_def customHopBytesLocked_def)
  qed
  then show "effectiveHopHashBytes hops \<in> {1, 2, 4}" "\<forall>h \<in> set hops. hop_ok (effectiveHopHashBytes hops) h" by blast+
qed

lemma locked_ok: "draft_ok hops \<Longrightarrow> customHopBytesLocked hops = Some b \<Longrightarrow> b \<in> {1, 2, 4} \<and> (\<forall>h \<in> set hops. hop_ok b h)"
  using effective_ok [of hops] by (simp add: effectiveHopHashBytes_def)

lemma unlocked_ok: "draft_ok hops \<Longrightarrow> customHopBytesLocked hops = None \<Longrightarrow> h \<in> set hops \<Longrightarrow> hop_ok m h"
  by (cases h) (auto simp: customHopBytesLocked_def find_None_iff draft_ok_def)

text \<open>What the server makes of one hop of the page.\<close>

fun server_hop :: "contact list \<Rightarrow> custom_hop_bytes \<Rightarrow> trace_draft_hop \<Rightarrow> radio_trace_node \<times> string \<Rightarrow> bool" where
  "server_hop db n (Draft_repeater _ k) (node, hash) \<longleftrightarrow>
     tn_role node = Role_repeater \<and> tn_public_key node = Some (to_lower k) \<and> hash = take (2 * n) (to_lower k)"
| "server_hop db n (Draft_custom _ h _) (node, hash) \<longleftrightarrow> tn_role node = Role_custom \<and> hash = to_lower h"

definition unknown_repeater :: "contact list \<Rightarrow> trace_draft_hop \<Rightarrow> bool" where
  "unknown_repeater db hop \<longleftrightarrow> is_Draft_repeater hop
     \<and> (case contact_by_key db (to_lower (dh_publicKey hop)) of None \<Rightarrow> True | Some c \<Rightarrow> ct_type c \<noteq> CONTACT_TYPE_REPEATER)"

lemma resolve_custom:
  assumes "hop_ok n (Draft_custom i h b)" and "n \<in> {1, 2, 4}"
  shows "\<exists>node. resolve_trace_hop db n (hop_request (Draft_custom i h b)) = Inr (node, to_lower h) \<and> tn_role node = Role_custom"
proof -
  have h: "hex_text h" "length h = 2 * n" using assms(1) by simp_all
  then have "h \<noteq> []" using assms(2) by auto
  then have "to_lower h \<noteq> []" by (metis length_0_conv length_to_lower)
  moreover have "fromhex_ok (to_lower h)" using h by (simp add: fromhex_hex hex_text_lower)
  ultimately show ?thesis
    using h strip_lower_hex [OF h(1)] by (simp add: resolve_trace_hop_def Let_def strip_lower_def truthy_iff)
qed

lemma resolve_repeater:
  assumes "good_key k" and "resolve_trace_hop db n (hop_request (Draft_repeater i k)) = r"
  shows "case r of
     Inl e \<Rightarrow> unknown_repeater db (Draft_repeater i k)
   | Inr (node, hash) \<Rightarrow> \<not> unknown_repeater db (Draft_repeater i k) \<and> server_hop db n (Draft_repeater i k) (node, hash)"
proof -
  have k: "hex_text k" "length (to_lower k) = 64" using assms(1) by (simp_all add: good_key_def)
  then have ne: "to_lower k \<noteq> []" by auto
  have hex: "fromhex_ok (to_lower k)" using assms(1) by (simp add: fromhex_hex hex_text_lower good_key_def)
  have found: "ct_public_key c = to_lower k" if "contact_by_key db (to_lower k) = Some c" for c
    using that by (auto simp: contact_by_key_def find_Some_iff)
  have take: "to_lower (take m (to_lower k)) = take m (to_lower k)" for m by (simp add: to_lower_def take_map)
  have strip: "strip_lower (Some k) = Some (to_lower k)" "strip_lower None = None"
    using strip_lower_hex [OF k(1)] by (simp_all add: strip_lower_def)
  show ?thesis
    using assms(2) k ne hex
    by (auto simp: resolve_trace_hop_def Let_def strip truthy_iff unknown_repeater_def trace_hash_for_key_def found take mult.commute
        split: option.splits if_splits)
qed

lemma resolve_hops:
  assumes "\<forall>h \<in> set hops. hop_ok n h" and "n \<in> {1, 2, 4}"
  shows "case resolve_trace_hops db n (map hop_request hops) of
     Inl e \<Rightarrow> \<exists>h \<in> set hops. unknown_repeater db h
   | Inr (nodes, hashes) \<Rightarrow> (\<forall>h \<in> set hops. \<not> unknown_repeater db h)
       \<and> list_all2 (server_hop db n) hops (zip nodes hashes) \<and> length nodes = length hops \<and> length hashes = length hops"
  using assms(1)
proof (induction hops)
  case (Cons h hops)
  let ?r = "resolve_trace_hop db n (hop_request h)"
  have head: "case ?r of Inl e \<Rightarrow> unknown_repeater db h
     | Inr (node, hash) \<Rightarrow> \<not> unknown_repeater db h \<and> server_hop db n h (node, hash)"
  proof (cases h)
    case (Draft_repeater i k)
    have "good_key k" using Cons.prems Draft_repeater by simp
    then show ?thesis unfolding Draft_repeater by (rule resolve_repeater) (rule refl)
  next
    case (Draft_custom i x b)
    have "hop_ok n (Draft_custom i x b)" using Cons.prems Draft_custom by simp
    from resolve_custom [OF this assms(2), of db] show ?thesis
      unfolding Draft_custom by (auto simp: unknown_repeater_def)
  qed
  then show ?case using Cons.IH Cons.prems by (auto split: sum.splits prod.splits)
qed simp

section \<open>Routes under every action\<close>

definition saved_hop_ok :: "custom_hop_bytes \<Rightarrow> saved_trace_hop \<Rightarrow> bool" where
  "saved_hop_ok n h \<longleftrightarrow>
     (case sh_kind h of
        Kind_repeater \<Rightarrow> (\<exists>k. sh_publicKey h = Some k \<and> good_key k)
      | Kind_custom \<Rightarrow> (\<exists>x. sh_publicKey h = None \<and> sh_hopHex h = Some x \<and> sh_hopBytes h = Some n \<and> length x = 2 * n \<and> hex_text x))"

definition saved_ok :: "saved_trace_hop list \<Rightarrow> bool" where
  "saved_ok hops \<longleftrightarrow> (\<exists>n \<in> {1, 2, 4}. \<forall>h \<in> set hops. saved_hop_ok n h)"

lemma loaded_hop_ok: "saved_hop_ok n h \<Longrightarrow> hop_ok n (loaded_hop uuids now i h)"
  by (cases "sh_kind h") (auto simp: saved_hop_ok_def loaded_hop_def good_key_def)

lemma loaded_hops_ok: "saved_ok hops \<Longrightarrow> draft_ok (loaded_hops uuids now hops)"
  by (fastforce simp: saved_ok_def draft_ok_def loaded_hops_def set_zip intro: loaded_hop_ok)

lemma saved_hop_saved_ok: "hop_ok n h \<Longrightarrow> saved_hop_ok n (saved_hop contacts h)"
  by (cases h) (auto simp: saved_hop_ok_def Let_def)

lemma saved_draft_ok: "draft_ok hops \<Longrightarrow> saved_ok (map (saved_hop contacts) hops)"
  unfolding draft_ok_def saved_ok_def set_map ball_simps(9) using saved_hop_saved_ok by blast

lemma draft_ok_subset: "draft_ok hops \<Longrightarrow> set hops' \<subseteq> set hops \<Longrightarrow> draft_ok hops'"
  unfolding draft_ok_def by blast

lemma hop_ok_rename [simp]: "hop_ok n (rename_hop i h) = hop_ok n h"
  by (cases h) simp_all

lemma draft_ok_add_repeater: "draft_ok hops \<Longrightarrow> good_key k \<Longrightarrow> draft_ok (hops @ [Draft_repeater i k])"
  unfolding draft_ok_def by fastforce

lemma normalized_hex: "hex_text (normalizeCustomHopHex v)"
proof -
  have "hex_text (filter hex_digit v)" by (simp add: hex_text_def)
  then show ?thesis unfolding normalizeCustomHopHex_def by (rule hex_text_lower)
qed

lemma draft_ok_add_custom:
  assumes "draft_ok hops" and "b \<in> {1, 2, 4}" and "length h = 2 * b" and "hex_text h"
    and "customHopBytesLocked hops = None \<or> customHopBytesLocked hops = Some b"
  shows "draft_ok (hops @ [Draft_custom i h b])"
proof -
  have "\<forall>h \<in> set hops. hop_ok b h"
    using assms(5) unlocked_ok [OF assms(1)] locked_ok [OF assms(1)] by blast
  then show ?thesis using assms by (auto simp: draft_ok_def)
qed

lemma set_moveHop: "i < length hops \<Longrightarrow> set (moveHop hops i d) \<subseteq> set hops"
  by (auto simp: moveHop_def Let_def splice_in_def splice_out_def dest: in_set_takeD in_set_dropD)

lemma draft_ok_return: "draft_ok hops \<Longrightarrow> draft_ok (hops @ return_hops uuids now hops)"
proof -
  assume ok: "draft_ok hops"
  then obtain n where n: "n \<in> {1, 2, 4}" "\<forall>h \<in> set hops. hop_ok n h" by (auto simp: draft_ok_def)
  have "\<forall>h \<in> set (return_hops uuids now hops). hop_ok n h"
    using n(2) by (auto simp: return_hops_def dest!: set_zip_rightD in_set_dropD)
  then show ?thesis using n by (auto simp: draft_ok_def)
qed

record trace_sys =
  sy_state :: trace_state
  sy_runs :: "trace_run list"

text \<open>The page with its runs in flight. The contacts may be others at every step.\<close>

inductive trace_reachable :: "trace_sys \<Rightarrow> bool" where
  init: "\<forall>t \<in> set (loadRecentTraces ws). saved_ok (sv_hops t) \<Longrightarrow>
    trace_reachable \<lparr> sy_state = trace_init ws ns, sy_runs = [] \<rparr>"
| add_repeater: "trace_reachable sy \<Longrightarrow> c \<in> set (filteredRepeaters lc contacts config (tp_recentNodeKeys (sy_state sy)) q mode) \<Longrightarrow>
    hex_text (ct_public_key c) \<Longrightarrow>
    trace_reachable (sy\<lparr> sy_state := handleAddRepeater uuid now (ct_public_key c) (sy_state sy) \<rparr>)"
| open_dialog: "trace_reachable sy \<Longrightarrow> trace_reachable (sy\<lparr> sy_state := open_dialog (sy_state sy) \<rparr>)"
| close_dialog: "trace_reachable sy \<Longrightarrow> trace_reachable (sy\<lparr> sy_state := (sy_state sy)\<lparr> tp_dialogOpen := False \<rparr> \<rparr>)"
| choose: "trace_reachable sy \<Longrightarrow> v \<in> {1, 2, 4} \<Longrightarrow> trace_reachable (sy\<lparr> sy_state := choose_hop_bytes v (sy_state sy) \<rparr>)"
| type_hex: "trace_reachable sy \<Longrightarrow> trace_reachable (sy\<lparr> sy_state := type_hop_hex s (sy_state sy) \<rparr>)"
| add_custom: "trace_reachable sy \<Longrightarrow> trace_reachable (sy\<lparr> sy_state := handleAddCustomHop uuid now (sy_state sy) \<rparr>)"
| remove_hop: "trace_reachable sy \<Longrightarrow> trace_reachable (sy\<lparr> sy_state := handleRemoveHop i (sy_state sy) \<rparr>)"
| move_hop: "trace_reachable sy \<Longrightarrow> n < length (tp_draftHops (sy_state sy)) \<Longrightarrow>
    trace_reachable (sy\<lparr> sy_state := handleMoveHop n d (sy_state sy) \<rparr>)"
| clear: "trace_reachable sy \<Longrightarrow> trace_reachable (sy\<lparr> sy_state := clear_hops (sy_state sy) \<rparr>)"
| reverse: "trace_reachable sy \<Longrightarrow> trace_reachable (sy\<lparr> sy_state := handleReverseLink uuids now (sy_state sy) \<rparr>)"
| clear_results: "trace_reachable sy \<Longrightarrow> trace_reachable (sy\<lparr> sy_state := clear_results (sy_state sy) \<rparr>)"
| run: "trace_reachable sy \<Longrightarrow> \<not> tp_loading (sy_state sy) \<Longrightarrow> handleRunTrace contacts (sy_state sy) = (st, Some r) \<Longrightarrow>
    trace_reachable \<lparr> sy_state = st, sy_runs = sy_runs sy @ [r] \<rparr>"
| load: "trace_reachable sy \<Longrightarrow> \<not> tp_loading (sy_state sy) \<Longrightarrow> t \<in> set (tp_recentTraces (sy_state sy)) \<Longrightarrow>
    handleLoadRecentTrace uuids now t (sy_state sy) = (st, r) \<Longrightarrow>
    trace_reachable \<lparr> sy_state = st, sy_runs = sy_runs sy @ [r] \<rparr>"
| answered: "trace_reachable sy \<Longrightarrow> r \<in> set (sy_runs sy) \<Longrightarrow>
    trace_reachable \<lparr> sy_state = trace_answered now r answer (sy_state sy), sy_runs = remove1 r (sy_runs sy) \<rparr>"

definition run_of_draft :: "trace_draft_hop list \<Rightarrow> trace_run \<Rightarrow> bool" where
  "run_of_draft hops r \<longleftrightarrow> tr_requests r = map hop_request hops \<and> tr_hopHashBytes r = effectiveHopHashBytes hops"

definition history_ok :: "trace_state \<Rightarrow> bool" where
  "history_ok st \<longleftrightarrow>
     (\<forall>t \<in> set (tp_recentTraces st) \<union> set (loadRecentTraces (tp_traceStore st)). saved_ok (sv_hops t))"

definition runs_ok :: "trace_state \<Rightarrow> trace_run list \<Rightarrow> bool" where
  "runs_ok st runs \<longleftrightarrow>
     distinct (map tr_token runs) \<and> (\<forall>r \<in> set runs. tr_token r \<le> tp_activeRunToken st \<and> saved_ok (tr_saved r))
     \<and> (tp_loading st \<longleftrightarrow> (\<exists>r \<in> set runs. tr_token r = tp_activeRunToken st))
     \<and> (\<forall>r \<in> set runs. tr_token r = tp_activeRunToken st \<longrightarrow> run_of_draft (tp_draftHops st) r)"

definition trace_inv :: "trace_sys \<Rightarrow> bool" where
  "trace_inv sy \<longleftrightarrow> draft_ok (tp_draftHops (sy_state sy)) \<and> tp_hopBytesDraft (sy_state sy) \<in> {1, 2, 4}
     \<and> history_ok (sy_state sy) \<and> runs_ok (sy_state sy) (sy_runs sy)"

lemma inv_edit:
  assumes "trace_inv sy" and "draft_ok hops"
  shows "trace_inv (sy\<lparr> sy_state := clearPendingResult ((sy_state sy)\<lparr> tp_draftHops := hops \<rparr>) \<rparr>)"
proof -
  have "runs_ok (clearPendingResult ((sy_state sy)\<lparr> tp_draftHops := hops \<rparr>)) (sy_runs sy)"
    using assms(1) by (fastforce simp: trace_inv_def runs_ok_def clearPendingResult_def)
  then show ?thesis using assms by (simp add: trace_inv_def history_ok_def clearPendingResult_def)
qed

lemma trace_inv_irrelevant [simp]:
  "history_ok (st\<lparr> tp_dialogOpen := b \<rparr>) = history_ok st" "history_ok (st\<lparr> tp_hopHexDraft := h \<rparr>) = history_ok st"
  "history_ok (st\<lparr> tp_hopError := e \<rparr>) = history_ok st" "history_ok (st\<lparr> tp_hopBytesDraft := n \<rparr>) = history_ok st"
  "history_ok (st\<lparr> tp_result := x \<rparr>) = history_ok st" "history_ok (st\<lparr> tp_error := y \<rparr>) = history_ok st"
  "runs_ok (st\<lparr> tp_dialogOpen := b \<rparr>) = runs_ok st" "runs_ok (st\<lparr> tp_hopHexDraft := h \<rparr>) = runs_ok st"
  "runs_ok (st\<lparr> tp_hopError := e \<rparr>) = runs_ok st" "runs_ok (st\<lparr> tp_hopBytesDraft := n \<rparr>) = runs_ok st"
  "runs_ok (st\<lparr> tp_result := x \<rparr>) = runs_ok st" "runs_ok (st\<lparr> tp_error := y \<rparr>) = runs_ok st"
  by (simp_all add: history_ok_def runs_ok_def fun_eq_iff)

lemma load_set_traces:
  "loadRecentTraces (setItem RECENT_TRACES_KEY (Some l) ws) = (if ws_available ws then take MAX_RECENT_TRACES l else [])"
  by (simp add: loadRecentTraces_def)

lemma load_saved_trace:
  assumes "ws_available ws"
  shows "loadRecentTraces (saveRecentTrace t ws) =
     take MAX_RECENT_TRACES (t # filter (\<lambda>u. hop_signature (sv_hops u) \<noteq> hop_signature (sv_hops t)) (loadRecentTraces ws))"
  using assms by (simp add: saveRecentTrace_def Let_def load_set_traces)

lemma load_saved_subset:
  "set (loadRecentTraces (saveRecentTrace t ws)) \<subseteq> insert t (set (loadRecentTraces ws))"
proof (cases "ws_available ws")
  case True
  have "set (take MAX_RECENT_TRACES (t # filter P xs)) \<subseteq> insert t (set xs)" for P xs
    using set_take_subset [of MAX_RECENT_TRACES "t # filter P xs"] by auto
  then show ?thesis unfolding load_saved_trace [OF True] .
next
  case False
  then show ?thesis by (auto simp: saveRecentTrace_def Let_def)
qed

lemma history_record: "history_ok st \<Longrightarrow> saved_ok hops \<Longrightarrow> history_ok (recordTraceRun now hops st)"
  using load_saved_subset [of "\<lparr> sv_hops = hops, sv_ranAt = now \<rparr>" "tp_traceStore st"]
  by (fastforce simp: history_ok_def recordTraceRun_def Let_def)

lemma start_run_inv:
  assumes "trace_inv sy" and "\<not> tp_loading (sy_state sy)" and "draft_ok hops" and "saved_ok saved"
    and "start_run (effectiveHopHashBytes hops) hops saved ((sy_state sy)\<lparr> tp_draftHops := hops \<rparr>) = (st, r)"
  shows "trace_inv \<lparr> sy_state = st, sy_runs = sy_runs sy @ [r] \<rparr>"
proof -
  have le: "tr_token x \<le> tp_activeRunToken (sy_state sy)" if "x \<in> set (sy_runs sy)" for x
    using assms(1) that by (auto simp: trace_inv_def runs_ok_def)
  have r: "tr_token r = tp_activeRunToken (sy_state sy) + 1" "run_of_draft hops r" "tr_saved r = saved"
    and st: "tp_activeRunToken st = tp_activeRunToken (sy_state sy) + 1" "tp_draftHops st = hops" "tp_loading st"
      "history_ok st = history_ok (sy_state sy)" "tp_hopBytesDraft st = tp_hopBytesDraft (sy_state sy)"
    using assms(5) by (auto simp: start_run_def Let_def run_of_draft_def history_ok_def)
  have "tr_token x \<noteq> tp_activeRunToken st \<and> tr_token x \<le> tp_activeRunToken st" if "x \<in> set (sy_runs sy)" for x
    using le [OF that] st(1) by simp
  then have "runs_ok st (sy_runs sy @ [r])"
    using assms(1,4) r st by (auto simp: trace_inv_def runs_ok_def)
  then show ?thesis using assms st by (simp add: trace_inv_def)
qed

definition keep_repeater :: "contact \<Rightarrow> (string, contact) jsmap \<Rightarrow> (string, contact) jsmap" where
  "keep_repeater c m = (if ct_type c \<noteq> CONTACT_TYPE_REPEATER \<or> length (ct_public_key c) \<noteq> 64 then m
     else if jm_has m (ct_public_key c) then m else jm_set (ct_public_key c) c m)"

definition repeater_entries_ok :: "contact set \<Rightarrow> (string, contact) jsmap \<Rightarrow> bool" where
  "repeater_entries_ok C m \<longleftrightarrow> jm_wf m
     \<and> (\<forall>(k, c) \<in> set m. k = ct_public_key c \<and> c \<in> C \<and> length (ct_public_key c) = 64 \<and> ct_type c = CONTACT_TYPE_REPEATER)"

lemma keep_repeater_ok: "repeater_entries_ok C m \<Longrightarrow> c \<in> C \<Longrightarrow> repeater_entries_ok C (keep_repeater c m)"
  by (auto simp: repeater_entries_ok_def keep_repeater_def jsmap dest: set_jm_set_subset [THEN subsetD])

lemma repeater_entries: "repeater_entries_ok (set contacts) (fold keep_repeater contacts [])"
proof -
  have "set cs \<subseteq> C \<Longrightarrow> repeater_entries_ok C m \<Longrightarrow> repeater_entries_ok C (fold keep_repeater cs m)" for cs C m
    by (induction cs arbitrary: m) (simp_all add: keep_repeater_ok)
  moreover have "repeater_entries_ok (set contacts) []" by (simp add: repeater_entries_ok_def)
  ultimately show ?thesis by simp
qed

lemma trace_repeaters_keep: "trace_repeaters contacts = map snd (fold keep_repeater contacts [])"
  by (simp add: trace_repeaters_def keep_repeater_def [abs_def])

lemma repeaters_entry:
  "c \<in> set (trace_repeaters contacts) \<Longrightarrow> c \<in> set contacts \<and> length (ct_public_key c) = 64 \<and> ct_type c = CONTACT_TYPE_REPEATER"
  using repeater_entries [of contacts] by (fastforce simp: trace_repeaters_keep repeater_entries_ok_def)

lemma filtered_repeater: "c \<in> set (filteredRepeaters lc contacts config keys q mode) \<Longrightarrow> c \<in> set (trace_repeaters contacts)"
  by (auto simp: filteredRepeaters_def js_sort_def Let_def split: if_splits)

lemma load_inv:
  assumes "trace_inv sy" and "\<not> tp_loading (sy_state sy)" and "t \<in> set (tp_recentTraces (sy_state sy))"
    and "handleLoadRecentTrace uuids now t (sy_state sy) = (st, r)"
  shows "trace_inv \<lparr> sy_state = st, sy_runs = sy_runs sy @ [r] \<rparr>"
proof -
  have "saved_ok (sv_hops t)" using assms(1,3) by (auto simp: trace_inv_def history_ok_def)
  then show ?thesis
    using assms(4) by (intro start_run_inv [OF assms(1,2) loaded_hops_ok]) (auto simp: handleLoadRecentTrace_def Let_def)
qed

lemma run_inv:
  assumes "trace_inv sy" and "\<not> tp_loading (sy_state sy)" and "handleRunTrace contacts (sy_state sy) = (st, Some r)"
  shows "trace_inv \<lparr> sy_state = st, sy_runs = sy_runs sy @ [r] \<rparr>"
proof -
  have ok: "draft_ok (tp_draftHops (sy_state sy))" using assms(1) by (simp add: trace_inv_def)
  show ?thesis
    using assms(3) by (intro start_run_inv [OF assms(1,2) ok saved_draft_ok [OF ok, of contacts]])
      (auto simp: handleRunTrace_def split: if_splits prod.splits)
qed

lemma answered_inv:
  assumes "trace_inv sy" and "r \<in> set (sy_runs sy)"
  shows "trace_inv \<lparr> sy_state = trace_answered now r answer (sy_state sy), sy_runs = remove1 r (sy_runs sy) \<rparr>"
proof -
  let ?st = "sy_state sy" and ?runs = "remove1 r (sy_runs sy)"
  have runs: "distinct (map tr_token (sy_runs sy))" and saved: "saved_ok (tr_saved r)"
    using assms by (auto simp: trace_inv_def runs_ok_def)
  then have rest: "set ?runs = set (sy_runs sy) - {r}" by (auto simp: distinct_map)
  have unique: "x = r" if "x \<in> set (sy_runs sy)" "tr_token x = tr_token r" for x
    using runs that assms(2) by (auto simp: distinct_map dest: inj_onD)
  have tokens: "distinct (map tr_token ?runs)" using runs by (auto simp: distinct_map rest intro: inj_on_subset)
  show ?thesis
  proof (cases "tp_activeRunToken ?st = tr_token r")
    case False
    then show ?thesis using assms tokens by (auto simp: trace_answered_def trace_inv_def runs_ok_def rest)
  next
    case True
    let ?st' = "trace_answered now r answer ?st"
    have st': "tp_draftHops ?st' = tp_draftHops ?st" "tp_activeRunToken ?st' = tp_activeRunToken ?st" "\<not> tp_loading ?st'"
      "tp_hopBytesDraft ?st' = tp_hopBytesDraft ?st"
      by (simp_all add: trace_answered_def True recordTraceRun_def Let_def split: sum.split)
    have "history_ok ?st" using assms(1) by (simp add: trace_inv_def)
    then have "history_ok ?st'"
      using True history_record [of "?st\<lparr> tp_result := Some x \<rparr>" "tr_saved r" now for x] saved
      by (auto simp: trace_answered_def history_ok_def split: sum.split)
    moreover have "runs_ok ?st' ?runs"
      using assms(1) tokens unique True st' by (auto simp: trace_inv_def runs_ok_def rest)
    ultimately show ?thesis using assms(1) st' by (simp add: trace_inv_def)
  qed
qed

lemma trace_reachable_inv: "trace_reachable sy \<Longrightarrow> trace_inv sy"
proof (induction rule: trace_reachable.induct)
  case (init ws ns)
  have "draft_ok []" by (auto simp: draft_ok_def)
  with init show ?case by (simp add: trace_inv_def history_ok_def runs_ok_def trace_init_def)
next
  case (add_repeater sy c lc contacts config q mode uuid now)
  have "good_key (ct_public_key c)"
    using repeaters_entry [OF filtered_repeater [OF add_repeater.hyps(2)]] add_repeater.hyps(3) by (simp add: good_key_def)
  then show ?case unfolding handleAddRepeater_def
    by (intro inv_edit draft_ok_add_repeater add_repeater.IH) (use add_repeater.IH in \<open>simp_all add: trace_inv_def\<close>)
next
  case (open_dialog sy)
  then have "customHopBytesLocked (tp_draftHops (sy_state sy)) = Some b \<Longrightarrow> b \<in> {1, 2, 4}" for b
    using locked_ok by (auto simp: trace_inv_def)
  then show ?case using open_dialog.IH
    by (auto simp: open_dialog_def dialog_effect_def trace_inv_def coalesce_def split: option.split)
next
  case (add_custom sy uuid now)
  let ?st = "sy_state sy"
  let ?b = "coalesce (customHopBytesLocked (tp_draftHops ?st)) (tp_hopBytesDraft ?st)"
  have ok: "draft_ok (tp_draftHops ?st)" "tp_hopBytesDraft ?st \<in> {1, 2, 4}" using add_custom.IH by (simp_all add: trace_inv_def)
  then have b: "?b \<in> {1, 2, 4}" using locked_ok [OF ok(1)] by (cases "customHopBytesLocked (tp_draftHops ?st)") auto
  show ?case
  proof (cases "length (normalizeCustomHopHex (tp_hopHexDraft ?st)) = ?b * 2")
    case False
    then show ?thesis using add_custom.IH by (simp add: handleAddCustomHop_def Let_def trace_inv_def)
  next
    case True
    have "draft_ok (tp_draftHops ?st @ [Draft_custom i (normalizeCustomHopHex (tp_hopHexDraft ?st)) ?b])" for i
      using True b by (intro draft_ok_add_custom ok normalized_hex) (auto simp: coalesce_def split: option.split)
    from inv_edit [OF add_custom.IH this] True show ?thesis by (simp add: handleAddCustomHop_def Let_def trace_inv_def)
  qed
next
  case (move_hop sy n d)
  have "draft_ok (moveHop (tp_draftHops (sy_state sy)) n d)"
    using draft_ok_subset [OF _ set_moveHop [OF move_hop.hyps(2)]] move_hop.IH by (simp add: trace_inv_def)
  then show ?case unfolding handleMoveHop_def by (rule inv_edit [OF move_hop.IH])
next
  case (remove_hop sy i)
  have "draft_ok (filter (\<lambda>h. dh_id h \<noteq> i) (tp_draftHops (sy_state sy)))"
    by (rule draft_ok_subset [of "tp_draftHops (sy_state sy)"]) (use remove_hop.IH in \<open>auto simp: trace_inv_def\<close>)
  then show ?case unfolding handleRemoveHop_def by (rule inv_edit [OF remove_hop.IH])
next
  case (clear sy)
  have "draft_ok []" by (auto simp: draft_ok_def)
  then show ?case unfolding clear_hops_def by (rule inv_edit [OF clear.IH])
next
  case (reverse sy uuids now)
  have "draft_ok (tp_draftHops (sy_state sy))" using reverse.IH by (simp add: trace_inv_def)
  then have "draft_ok (if length (tp_draftHops (sy_state sy)) < 2 then tp_draftHops (sy_state sy)
        else tp_draftHops (sy_state sy) @ return_hops uuids now (tp_draftHops (sy_state sy)))"
    by (simp add: draft_ok_return)
  then show ?case unfolding handleReverseLink_def by (rule inv_edit [OF reverse.IH])
next
  case (run sy contacts st r)
  then show ?case by (intro run_inv)
next
  case (load sy t uuids now st r)
  then show ?case by (intro load_inv)
next
  case (answered sy r now answer)
  then show ?case by (intro answered_inv)
qed (auto simp: trace_inv_def choose_hop_bytes_def type_hop_hex_def clear_results_def)

section \<open>Results\<close>

text \<open>C21. Whatever was edited, loaded, started and answered before, the run that is waited for is a run of the route shown, and
  the server refuses it only for a repeater it does not know: otherwise it resolves every hop, in order, to a hash of
  the width of the run.\<close>

theorem trace_route_accepted:
  assumes "trace_reachable sy" and "r \<in> set (sy_runs sy)" and "tr_token r = tp_activeRunToken (sy_state sy)"
  shows "tp_loading (sy_state sy) \<and> tr_hopHashBytes r \<in> set (map fst TRACE_HASH_FLAGS)
     \<and> (case resolve_trace_hops db (tr_hopHashBytes r) (tr_requests r) of
       Inl e \<Rightarrow> \<exists>h \<in> set (tp_draftHops (sy_state sy)). unknown_repeater db h
     | Inr (nodes, hashes) \<Rightarrow> (\<forall>h \<in> set (tp_draftHops (sy_state sy)). \<not> unknown_repeater db h)
         \<and> list_all2 (server_hop db (tr_hopHashBytes r)) (tp_draftHops (sy_state sy)) (zip nodes hashes)
         \<and> length nodes = length (tp_draftHops (sy_state sy)) \<and> length hashes = length (tp_draftHops (sy_state sy)))"
proof -
  have inv: "trace_inv sy" using assms(1) by (rule trace_reachable_inv)
  then have r: "run_of_draft (tp_draftHops (sy_state sy)) r" and ok: "draft_ok (tp_draftHops (sy_state sy))"
    using assms(2,3) by (auto simp: trace_inv_def runs_ok_def)
  have "tp_loading (sy_state sy)" using inv assms(2,3) by (auto simp: trace_inv_def runs_ok_def)
  moreover have "tr_hopHashBytes r \<in> set (map fst TRACE_HASH_FLAGS)"
    using r effective_ok(1) [OF ok] by (auto simp: run_of_draft_def TRACE_HASH_FLAGS_def)
  moreover have "case resolve_trace_hops db (tr_hopHashBytes r) (tr_requests r) of
       Inl e \<Rightarrow> \<exists>h \<in> set (tp_draftHops (sy_state sy)). unknown_repeater db h
     | Inr (nodes, hashes) \<Rightarrow> (\<forall>h \<in> set (tp_draftHops (sy_state sy)). \<not> unknown_repeater db h)
         \<and> list_all2 (server_hop db (tr_hopHashBytes r)) (tp_draftHops (sy_state sy)) (zip nodes hashes)
         \<and> length nodes = length (tp_draftHops (sy_state sy)) \<and> length hashes = length (tp_draftHops (sy_state sy))"
  proof -
    have eqs: "tr_requests r = map hop_request (tp_draftHops (sy_state sy))"
      "tr_hopHashBytes r = effectiveHopHashBytes (tp_draftHops (sy_state sy))"
      using r by (simp_all add: run_of_draft_def)
    show ?thesis unfolding eqs by (rule resolve_hops [OF effective_ok(2) [OF ok] effective_ok(1) [OF ok]])
  qed
  ultimately show ?thesis by blast
qed

definition sample_traced :: trace_state where
  "sample_traced = handleAddCustomHop (Some ''u'') 0 (type_hop_hex ''a-b'' (trace_init \<lparr> ws_available = True, ws_items = [] \<rparr>
     \<lparr> ws_available = True, ws_items = [] \<rparr>))"

definition sample_trace_sys :: trace_sys where
  "sample_trace_sys = \<lparr> sy_state = fst (handleRunTrace [] sample_traced), sy_runs = [the (snd (handleRunTrace [] sample_traced))] \<rparr>"

lemma sample_draft: "tp_draftHops sample_traced = [Draft_custom ''custom-u'' ''ab'' 1] \<and> \<not> tp_loading sample_traced"
  by (simp add: sample_traced_def handleAddCustomHop_def type_hop_hex_def normalizeCustomHopHex_def hex_digit_def to_lower_def
      lower_char_def Let_def trace_init_def customHopBytesLocked_def clearPendingResult_def nextDraftHopId_def)

lemma sample_trace_reachable:
  "trace_reachable sample_trace_sys"
  "tr_token (hd (sy_runs sample_trace_sys)) = tp_activeRunToken (sy_state sample_trace_sys)"
  "sy_runs sample_trace_sys = [hd (sy_runs sample_trace_sys)]"
proof -
  have 0: "trace_reachable \<lparr> sy_state = sample_traced, sy_runs = [] \<rparr>"
    using trace_reachable.add_custom [OF trace_reachable.type_hex [OF trace_reachable.init
        [of "\<lparr> ws_available = True, ws_items = [] \<rparr>" "\<lparr> ws_available = True, ws_items = [] \<rparr>"], of "''a-b''"], of "Some ''u''" 0]
    by (simp add: sample_traced_def loadRecentTraces_def getItem_def)
  define p where "p = start_run (effectiveHopHashBytes (tp_draftHops sample_traced)) (tp_draftHops sample_traced)
    (map (saved_hop []) (tp_draftHops sample_traced)) sample_traced"
  define st r where "st = fst p" and "r = snd p"
  have run: "handleRunTrace [] sample_traced = (st, Some r)"
    using sample_draft by (simp add: handleRunTrace_def split_def Let_def p_def st_def r_def del: One_nat_def)
  have token: "tr_token r = tp_activeRunToken st" by (simp add: st_def r_def p_def start_run_def Let_def)
  from trace_reachable.run [OF 0, of "[]" st r] sample_draft run show "trace_reachable sample_trace_sys"
    by (simp add: sample_trace_sys_def)
  show "tr_token (hd (sy_runs sample_trace_sys)) = tp_activeRunToken (sy_state sample_trace_sys)"
    "sy_runs sample_trace_sys = [hd (sy_runs sample_trace_sys)]" using run token by (simp_all add: sample_trace_sys_def)
qed

lemma trace_route_accepted_witness: "tp_loading (sy_state sample_trace_sys)"
proof -
  have "hd (sy_runs sample_trace_sys) \<in> set (sy_runs sample_trace_sys)"
    by (subst (2) sample_trace_reachable(3)) simp
  from trace_route_accepted [OF sample_trace_reachable(1) this sample_trace_reachable(2)] show ?thesis by blast
qed

text \<open>An answer to a run that is not waited for changes nothing, and nothing waits without a run in flight.\<close>

lemma stale_answer_dropped:
  "tr_token r \<noteq> tp_activeRunToken st \<Longrightarrow> trace_answered now r answer st = st"
  by (simp add: trace_answered_def)

lemma loading_iff_in_flight:
  "trace_reachable sy \<Longrightarrow> tp_loading (sy_state sy) \<longleftrightarrow> (\<exists>r \<in> set (sy_runs sy). tr_token r = tp_activeRunToken (sy_state sy))"
  using trace_reachable_inv by (simp add: trace_inv_def runs_ok_def)

text \<open>\<^verbatim>\<open>Reverse link\<close> makes the route a palindrome: it goes out as it was and comes back the same way.\<close>

lemma hop_request_rename [simp]: "hop_request (rename_hop i h) = hop_request h"
  by (cases h) simp_all

lemma return_requests: "map hop_request (return_hops uuids now hops) = drop 1 (rev (map hop_request hops))"
proof -
  have "map (\<lambda>x. hop_request (snd x)) (zip is hs) = map hop_request hs" if "length is = length hs" for "is" :: "nat list" and hs
    using that by (induction "is" hs rule: list_induct2) simp_all
  from this [of "[0..<length hops - 1]" "drop 1 (rev hops)"] show ?thesis
    by (simp add: return_hops_def drop_map rev_map comp_def split_def)
qed

theorem reverse_link_palindrome:
  assumes "tp_draftHops st \<noteq> []"
  shows "map hop_request (tp_draftHops (handleReverseLink uuids now st)) =
     map hop_request (tp_draftHops st) @ drop 1 (rev (map hop_request (tp_draftHops st)))"
    and "rev (map hop_request (tp_draftHops (handleReverseLink uuids now st))) =
     map hop_request (tp_draftHops (handleReverseLink uuids now st))"
proof -
  let ?rs = "map hop_request (tp_draftHops st)"
  have 1: "map hop_request (tp_draftHops (handleReverseLink uuids now st)) = ?rs @ drop 1 (rev ?rs)"
    using assms return_requests by (auto simp: handleReverseLink_def clearPendingResult_def length_Suc_conv less_Suc_eq numeral_2_eq_2)
  obtain xs x where "?rs = xs @ [x]" using assms by (cases ?rs rule: rev_cases) auto
  then show "rev (map hop_request (tp_draftHops (handleReverseLink uuids now st))) =
     map hop_request (tp_draftHops (handleReverseLink uuids now st))" unfolding 1 by simp
  show "map hop_request (tp_draftHops (handleReverseLink uuids now st)) = ?rs @ drop 1 (rev ?rs)" by (rule 1)
qed

text \<open>A route that was traced is offered first, once, and loading it sends the same request.\<close>

lemma loaded_saved_hop: "hop_ok n h \<Longrightarrow> hop_request (loaded_hop uuids now i (saved_hop contacts h)) = hop_request h"
  by (cases h) (auto simp: loaded_hop_def good_key_def Let_def)

theorem traced_route_kept:
  assumes "draft_ok hops" and "ws_available (tp_traceStore st)"
    and "st' = recordTraceRun now (map (saved_hop contacts) hops) st"
  shows "\<exists>t rest. tp_recentTraces st' = t # rest \<and> length (tp_recentTraces st') \<le> MAX_RECENT_TRACES
     \<and> (\<forall>u \<in> set rest. hop_signature (sv_hops u) \<noteq> hop_signature (sv_hops t))
     \<and> map hop_request (loaded_hops uuids now' (sv_hops t)) = map hop_request hops"
proof -
  obtain n where n: "\<forall>h \<in> set hops. hop_ok n h" using assms(1) by (auto simp: draft_ok_def)
  let ?t = "\<lparr> sv_hops = map (saved_hop contacts) hops, sv_ranAt = now \<rparr>"
  let ?old = "filter (\<lambda>u. hop_signature (sv_hops u) \<noteq> hop_signature (sv_hops ?t)) (loadRecentTraces (tp_traceStore st))"
  have "tp_recentTraces st' = take MAX_RECENT_TRACES (?t # ?old)"
    unfolding assms(3) recordTraceRun_def Let_def by (simp add: load_saved_trace [OF assms(2)] del: saved_trace.simps)
  then have recent: "tp_recentTraces st' = ?t # take 4 ?old" by (simp add: MAX_RECENT_TRACES_def)
  have "map (hop_request \<circ> (\<lambda>(i, h). loaded_hop uuids now' i h)) (zip is (map (saved_hop contacts) hs)) = map hop_request hs"
    if "length is = length hs" "\<forall>h \<in> set hs. hop_ok n h" for "is" hs
    using that by (induction "is" hs rule: list_induct2) (simp_all add: loaded_saved_hop [of n])
  then have "map hop_request (loaded_hops uuids now' (sv_hops ?t)) = map hop_request hops"
    using n by (simp add: loaded_hops_def comp_def)
  moreover have "\<forall>u \<in> set (take 4 ?old). hop_signature (sv_hops u) \<noteq> hop_signature (sv_hops ?t)"
    by (auto dest: in_set_takeD)
  moreover have "length (?t # take 4 ?old) \<le> MAX_RECENT_TRACES" by (simp add: MAX_RECENT_TRACES_def)
  ultimately show ?thesis unfolding recent by blast
qed

text \<open>A trace that was heard has a node for every hop of the route, in order, and the radio at its end.\<close>

lemma trace_answer_nodes_shape:
  assumes "trace_answer_nodes nodes heard key name = Inr out"
  shows "length out = length nodes + 1" and "map tn_role (butlast out) = map tn_role nodes"
    and "map tn_public_key (butlast out) = map tn_public_key nodes" and "tn_role (last out) = Role_local"
proof -
  obtain hs :: "heard_node list" and x :: radio_trace_node where out: "out = map (\<lambda>(node, observed).
       node\<lparr> tn_observed_hash := (case hn_hash observed of Some h \<Rightarrow> Some h | None \<Rightarrow> tn_observed_hash node),
             tn_snr := hn_snr observed \<rparr>) (zip nodes hs) @ [x]"
    and len: "length nodes \<le> length hs" and x: "tn_role x = Role_local"
    by (rule that [of "hashed_nodes heard"])
      (use assms in \<open>auto simp: trace_answer_nodes_def split: if_splits\<close>)
  show "map tn_role (butlast out) = map tn_role nodes" "map tn_public_key (butlast out) = map tn_public_key nodes"
    using len by (simp_all add: out list_eq_iff_nth_eq split_def)
  show "length out = length nodes + 1" "tn_role (last out) = Role_local" using len x by (simp_all add: out)
qed

text \<open>The server counts the characters of a hop, but reads it with blanks skipped: a hop of fewer bytes passes.\<close>

lemma blank_hop_accepted:
  "\<exists>node. resolve_trace_hop db 4 \<lparr> th_public_key = None, th_hop_hex = Some ''ab cd ef'' \<rparr> = Inr (node, ''ab cd ef'')"
  by (simp add: resolve_trace_hop_def strip_lower_def Let_def python_blank_def hex_digit_def to_lower_def lower_char_def)

end
