(* ===== verification/Fanout_Scope.thy ===== *)
theory Fanout_Scope
  imports Sidebar
begin

text \<open>
  Which messages an integration forwards: the selector \<^verbatim>\<open>ScopeSelector\<close> of \<^verbatim>\<open>components/settings/SettingsFanoutSection.tsx\<close> with its
  lists of pills, and the reading of a scope by the server: \<^verbatim>\<open>_enforce_scope\<close> of \<^verbatim>\<open>app/routers/fanout.py\<close> and the filters of
  \<^verbatim>\<open>app/fanout/manager.py\<close>.

  A scope is a JSON object. The keys in its lists are strings.
\<close>

section \<open>Reading a scope\<close>

type_synonym scope = "(string \<times> json) list"

datatype scope_mode = Mode_all | Mode_none | Mode_only | Mode_except

fun plain_object :: "json option \<Rightarrow> bool" where
  "plain_object (Some (JObj _)) \<longleftrightarrow> True"
| "plain_object _ \<longleftrightarrow> False"

fun is_object :: "json \<Rightarrow> bool" where
  "is_object (JObj _) \<longleftrightarrow> True"
| "is_object (JArr _) \<longleftrightarrow> True"
| "is_object _ \<longleftrightarrow> False"

definition getScopeMode :: "json \<Rightarrow> scope_mode" where
  "getScopeMode v =
     (if v = JStr ''all'' then Mode_all
      else if v = JStr ''none'' then Mode_none
      else if is_object v
      then (if plain_object (json_member v ''channels'') \<or> plain_object (json_member v ''contacts'') then Mode_except else Mode_only)
      else Mode_all)"

fun string_array :: "json list \<Rightarrow> string list" where
  "string_array [] = []"
| "string_array (JStr s # xs) = s # string_array xs"
| "string_array (_ # xs) = string_array xs"

fun getFilterKeys :: "json option \<Rightarrow> string list" where
  "getFilterKeys (Some (JArr xs)) = string_array xs"
| "getFilterKeys (Some (JObj members)) = (case map_of members ''except'' of Some (JArr xs) \<Rightarrow> string_array xs | _ \<Rightarrow> [])"
| "getFilterKeys _ = []"

section \<open>The selector\<close>

definition scope_messages :: "scope \<Rightarrow> json" where
  "scope_messages scope =
     (case jm_get scope ''messages'' of None \<Rightarrow> JStr ''all'' | Some m \<Rightarrow> if m = JNull then JStr ''all'' else m)"

definition shown_mode :: "bool \<Rightarrow> scope \<Rightarrow> scope_mode" where
  "shown_mode showRawPackets scope =
     (let rawMode = getScopeMode (scope_messages scope)
      in if \<not> showRawPackets \<and> rawMode = Mode_none then Mode_all else rawMode)"

definition isListMode :: "scope_mode \<Rightarrow> bool" where
  "isListMode mode \<longleftrightarrow> mode = Mode_only \<or> mode = Mode_except"

definition selected_keys :: "string \<Rightarrow> bool \<Rightarrow> scope \<Rightarrow> string list" where
  "selected_keys field showRawPackets scope =
     (let messages = scope_messages scope
      in if isListMode (shown_mode showRawPackets scope) \<and> is_object messages then getFilterKeys (json_member messages field) else [])"

definition selectedChannels :: "bool \<Rightarrow> scope \<Rightarrow> string list" where
  "selectedChannels = selected_keys ''channels''"

definition selectedContacts :: "bool \<Rightarrow> scope \<Rightarrow> string list" where
  "selectedContacts = selected_keys ''contacts''"

definition key_array :: "string list \<Rightarrow> json" where
  "key_array keys = JArr (map JStr keys)"

definition buildMessages :: "scope_mode \<Rightarrow> string list \<Rightarrow> string list \<Rightarrow> json" where
  "buildMessages mode chKeys coKeys =
     (if mode = Mode_except
      then JObj [(''channels'', JObj [(''except'', key_array chKeys)]), (''contacts'', JObj [(''except'', key_array coKeys)])]
      else JObj [(''channels'', key_array chKeys), (''contacts'', key_array coKeys)])"

definition set_messages :: "json \<Rightarrow> scope \<Rightarrow> scope" where
  "set_messages messages scope = jm_set ''messages'' messages scope"

definition handleModeChange :: "scope_mode \<Rightarrow> scope \<Rightarrow> scope" where
  "handleModeChange newMode scope =
     (case newMode of
        Mode_all \<Rightarrow> set_messages (JStr ''all'') scope
      | Mode_none \<Rightarrow> set_messages (JStr ''none'') scope
      | Mode_only \<Rightarrow> set_messages (JObj [(''channels'', JArr []), (''contacts'', JArr [])]) scope
      | Mode_except \<Rightarrow>
          set_messages (JObj [(''channels'', JObj [(''except'', JArr [])]), (''contacts'', JObj [(''except'', JArr [])])]) scope)"

definition toggle_key :: "string \<Rightarrow> string list \<Rightarrow> string list" where
  "toggle_key key current = (if key \<in> set current then remove1 key current else current @ [key])"

definition set_keys_of :: "bool \<Rightarrow> string list \<Rightarrow> string list \<Rightarrow> scope \<Rightarrow> scope" where
  "set_keys_of showRawPackets chKeys coKeys scope =
     set_messages (buildMessages (shown_mode showRawPackets scope) chKeys coKeys) scope"

definition toggleChannel :: "bool \<Rightarrow> string \<Rightarrow> scope \<Rightarrow> scope" where
  "toggleChannel raw key scope = set_keys_of raw (toggle_key key (selectedChannels raw scope)) (selectedContacts raw scope) scope"

definition toggleContact :: "bool \<Rightarrow> string \<Rightarrow> scope \<Rightarrow> scope" where
  "toggleContact raw key scope = set_keys_of raw (selectedChannels raw scope) (toggle_key key (selectedContacts raw scope)) scope"

definition scope_contacts :: "contact list \<Rightarrow> contact list" where
  "scope_contacts contacts = filter (\<lambda>c. ct_type c = 0 \<or> ct_type c = 1) contacts"

text \<open>\<open>all\<close> and \<open>none\<close> of each list; for the channels and for the contacts.\<close>

definition pick_channels :: "bool \<Rightarrow> string list \<Rightarrow> scope \<Rightarrow> scope" where
  "pick_channels raw keys scope = set_keys_of raw keys (selectedContacts raw scope) scope"

definition pick_contacts :: "bool \<Rightarrow> string list \<Rightarrow> scope \<Rightarrow> scope" where
  "pick_contacts raw keys scope = set_keys_of raw (selectedChannels raw scope) keys scope"

definition set_raw_packets :: "bool \<Rightarrow> scope \<Rightarrow> scope" where
  "set_raw_packets checked scope = jm_set ''raw_packets'' (JStr (if checked then ''all'' else ''none'')) scope"

definition rawEnabled :: "bool \<Rightarrow> scope \<Rightarrow> bool" where
  "rawEnabled showRawPackets scope \<longleftrightarrow> showRawPackets \<and> jm_get scope ''raw_packets'' = Some (JStr ''all'')"

definition messagesEffectivelyNone :: "bool \<Rightarrow> channel list \<Rightarrow> contact list \<Rightarrow> scope \<Rightarrow> bool" where
  "messagesEffectivelyNone raw channels contacts scope \<longleftrightarrow>
     (let mode = shown_mode raw scope; chs = selectedChannels raw scope; cts = selectedContacts raw scope;
          filteredContacts = scope_contacts contacts
      in mode = Mode_none
         \<or> mode = Mode_only \<and> length chs = 0 \<and> length cts = 0
         \<or> mode = Mode_except \<and> length channels > 0 \<and> length filteredContacts > 0
            \<and> length chs \<ge> length channels \<and> length cts \<ge> length filteredContacts)"

definition showEmptyScopeWarning :: "bool \<Rightarrow> channel list \<Rightarrow> contact list \<Rightarrow> scope \<Rightarrow> bool" where
  "showEmptyScopeWarning raw channels contacts scope \<longleftrightarrow>
     messagesEffectivelyNone raw channels contacts scope \<and> \<not> rawEnabled raw scope"

definition listHint :: "scope_mode \<Rightarrow> string" where
  "listHint mode =
     (if mode = Mode_only then ''Newly added channels or contacts will not be automatically included.''
      else ''Newly added channels or contacts will be automatically included unless excluded here.'')"

definition messageModes :: "bool \<Rightarrow> scope_mode list" where
  "messageModes showRawPackets =
     (if showRawPackets then [Mode_all, Mode_none, Mode_only, Mode_except] else [Mode_all, Mode_only, Mode_except])"

section \<open>Pills\<close>

definition MAX_SCOPE_PILL_DISPLAY :: nat where "MAX_SCOPE_PILL_DISPLAY = 32"

record pills_item =
  pl_key :: string
  pl_label :: string
  pl_trailing :: "string option"

definition channel_pills :: "channel list \<Rightarrow> pills_item list" where
  "channel_pills channels = map (\<lambda>c. \<lparr> pl_key = ch_key c, pl_label = ch_name c, pl_trailing = None \<rparr>) channels"

definition contact_pills :: "contact list \<Rightarrow> pills_item list" where
  "contact_pills contacts =
     map (\<lambda>c. \<lparr> pl_key = ct_public_key c, pl_label = or_else (ct_name c) (take 12 (ct_public_key c)),
                pl_trailing = Some (take 12 (ct_public_key c)) \<rparr>) (scope_contacts contacts)"

definition pill_rank :: "string list \<Rightarrow> string \<Rightarrow> int" where
  "pill_rank selectedKeys key = (if key \<in> set selectedKeys then 0 else 1)"

definition pill_cmp :: "(string \<Rightarrow> string \<Rightarrow> int) \<Rightarrow> string list \<Rightarrow> pills_item \<Rightarrow> pills_item \<Rightarrow> int" where
  "pill_cmp localeCompare selectedKeys a b =
     (if pill_rank selectedKeys (pl_key a) \<noteq> pill_rank selectedKeys (pl_key b)
      then pill_rank selectedKeys (pl_key a) - pill_rank selectedKeys (pl_key b)
      else localeCompare (pl_label a) (pl_label b))"

definition pills_filtered :: "(string \<Rightarrow> string \<Rightarrow> int) \<Rightarrow> string \<Rightarrow> string list \<Rightarrow> pills_item list \<Rightarrow> pills_item list" where
  "pills_filtered localeCompare search selectedKeys items =
     (let searchLower = trim (to_lower search);
          matches = filter (\<lambda>it. searchLower = [] \<or> str_includes (to_lower (pl_label it)) searchLower
                                 \<or> starts_with (to_lower (pl_key it)) searchLower) items
      in js_sort (pill_cmp localeCompare selectedKeys) matches)"

definition selected_pills :: "string list \<Rightarrow> pills_item list \<Rightarrow> pills_item list" where
  "selected_pills selectedKeys items = filter (\<lambda>it. pl_key it \<in> set selectedKeys) items"

definition overPillLimit :: "string list \<Rightarrow> pills_item list \<Rightarrow> bool" where
  "overPillLimit selectedKeys items \<longleftrightarrow> length (selected_pills selectedKeys items) > MAX_SCOPE_PILL_DISPLAY"

section \<open>The server\<close>

text \<open>\<open>None\<close> is a \<^verbatim>\<open>TypeError\<close>: membership in a value that has none.\<close>

fun python_contains :: "json \<Rightarrow> string \<Rightarrow> bool option" where
  "python_contains (JArr xs) key = Some (JStr key \<in> set xs)"
| "python_contains (JObj members) key = Some (key \<in> set (map fst members))"
| "python_contains (JStr s) key = Some (str_includes s key)"
| "python_contains _ key = None"

definition matches_filter :: "json \<Rightarrow> string \<Rightarrow> bool option" where
  "matches_filter filter_value key =
     (if filter_value = JStr ''all'' then Some True
      else if filter_value = JStr ''none'' then Some False
      else case filter_value of
             JArr xs \<Rightarrow> Some (JStr key \<in> set xs)
           | JObj members \<Rightarrow>
               (case map_of members ''except'' of
                  Some excepted \<Rightarrow> map_option Not (python_contains excepted key)
                | None \<Rightarrow> Some False)
           | _ \<Rightarrow> Some False)"

definition scope_get :: "scope \<Rightarrow> string \<Rightarrow> json \<Rightarrow> json" where
  "scope_get scope field d = coalesce (map_of scope field) d"

definition scope_matches_message :: "scope \<Rightarrow> string \<Rightarrow> string \<Rightarrow> bool option" where
  "scope_matches_message scope msg_type conversation_key =
     (let messages = scope_get scope ''messages'' (JStr ''none'') in
      if messages = JStr ''all'' then Some True
      else if messages = JStr ''none'' then Some False
      else case messages of
             JObj members \<Rightarrow>
               if msg_type = ''CHAN'' then matches_filter (coalesce (map_of members ''channels'') (JStr ''none'')) conversation_key
               else if msg_type = ''PRIV'' then matches_filter (coalesce (map_of members ''contacts'') (JStr ''none'')) conversation_key
               else Some False
           | _ \<Rightarrow> Some False)"

definition scope_matches_raw :: "scope \<Rightarrow> bool" where
  "scope_matches_raw scope \<longleftrightarrow> scope_get scope ''raw_packets'' (JStr ''none'') = JStr ''all''"

text \<open>\<open>Inl\<close> is the detail of an answer with status 400.\<close>

definition quoted :: "string \<Rightarrow> string" where
  "quoted s = CHR 0x27 # s @ [CHR 0x27]"

definition valid_messages :: "json \<Rightarrow> bool" where
  "valid_messages messages \<longleftrightarrow> messages = JStr ''all'' \<or> messages = JStr ''none'' \<or> plain_object (Some messages)"

definition enforce_scope :: "string \<Rightarrow> scope \<Rightarrow> string + scope" where
  "enforce_scope config_type scope =
     (if config_type = ''mqtt_community'' \<or> config_type = ''map_upload''
      then Inr [(''messages'', JStr ''none''), (''raw_packets'', JStr ''all'')]
      else if config_type = ''bot'' then Inr [(''messages'', JStr ''all''), (''raw_packets'', JStr ''none'')]
      else let messages = scope_get scope ''messages'' (JStr ''all'') in
        if \<not> valid_messages messages then Inl (''scope.messages must be '' @ quoted ''all'' @ '', '' @ quoted ''none'' @ '', or a filter object'')
        else if config_type \<in> {''webhook'', ''apprise'', ''mqtt_ha''}
        then Inr [(''messages'', messages), (''raw_packets'', JStr ''none'')]
        else let raw_packets = scope_get scope ''raw_packets'' (JStr ''all'') in
          if raw_packets \<noteq> JStr ''all'' \<and> raw_packets \<noteq> JStr ''none''
          then Inl (''scope.raw_packets must be '' @ quoted ''all'' @ '' or '' @ quoted ''none'')
          else Inr [(''messages'', messages), (''raw_packets'', raw_packets)])"

section \<open>What is shown is what is forwarded\<close>

lemma string_array_keys [simp]: "string_array (map JStr keys) = keys"
  by (induction keys) simp_all

lemma mode_built [simp]:
  "getScopeMode (JStr ''all'') = Mode_all" "getScopeMode (JStr ''none'') = Mode_none"
  "getScopeMode (buildMessages Mode_only chs cts) = Mode_only" "getScopeMode (buildMessages Mode_except chs cts) = Mode_except"
  by (simp_all add: getScopeMode_def buildMessages_def key_array_def)

lemma keys_built [simp]:
  "getFilterKeys (json_member (buildMessages mode chs cts) ''channels'') = chs"
  "getFilterKeys (json_member (buildMessages mode chs cts) ''contacts'') = cts"
  by (simp_all add: buildMessages_def key_array_def)

lemma built_object [simp]: "is_object (buildMessages mode chs cts)" "buildMessages mode chs cts \<noteq> JNull"
  "plain_object (Some (buildMessages mode chs cts))"
  by (simp_all add: buildMessages_def)

lemma scope_messages_set [simp]: "m \<noteq> JNull \<Longrightarrow> scope_messages (set_messages m scope) = m"
  by (simp add: scope_messages_def set_messages_def jsmap)

text \<open>The scopes that the selector makes.\<close>

definition selector_scope :: "bool \<Rightarrow> scope \<Rightarrow> bool" where
  "selector_scope raw scope \<longleftrightarrow>
     (\<exists>m. jm_get scope ''messages'' = Some m
        \<and> (m = JStr ''all'' \<or> raw \<and> m = JStr ''none'' \<or> (\<exists>mode chs cts. isListMode mode \<and> m = buildMessages mode chs cts)))
     \<and> jm_get scope ''raw_packets'' \<in> {None, Some (JStr ''all''), Some (JStr ''none'')}"

inductive selector_reachable :: "bool \<Rightarrow> scope \<Rightarrow> bool" for raw where
  start: "selector_scope raw scope \<Longrightarrow> selector_reachable raw scope"
| mode: "selector_reachable raw scope \<Longrightarrow> m \<in> set (messageModes raw) \<Longrightarrow> selector_reachable raw (handleModeChange m scope)"
| toggle_channel: "selector_reachable raw scope \<Longrightarrow> isListMode (shown_mode raw scope) \<Longrightarrow> selector_reachable raw (toggleChannel raw k scope)"
| toggle_contact: "selector_reachable raw scope \<Longrightarrow> isListMode (shown_mode raw scope) \<Longrightarrow> selector_reachable raw (toggleContact raw k scope)"
| pick_channels: "selector_reachable raw scope \<Longrightarrow> isListMode (shown_mode raw scope) \<Longrightarrow> selector_reachable raw (pick_channels raw ks scope)"
| pick_contacts: "selector_reachable raw scope \<Longrightarrow> isListMode (shown_mode raw scope) \<Longrightarrow> selector_reachable raw (pick_contacts raw ks scope)"
| raw_packets: "selector_reachable raw scope \<Longrightarrow> raw \<Longrightarrow> selector_reachable raw (set_raw_packets b scope)"

lemma set_keys_selector:
  "selector_scope raw scope \<Longrightarrow> isListMode (shown_mode raw scope) \<Longrightarrow> selector_scope raw (set_keys_of raw chs cts scope)"
  by (auto simp: selector_scope_def set_keys_of_def set_messages_def jsmap)

lemma reachable_selector: "selector_reachable raw scope \<Longrightarrow> selector_scope raw scope"
proof (induction rule: selector_reachable.induct)
  case (mode scope m)
  have "handleModeChange Mode_only scope = set_messages (buildMessages Mode_only [] []) scope"
    "handleModeChange Mode_except scope = set_messages (buildMessages Mode_except [] []) scope"
    by (simp_all add: handleModeChange_def buildMessages_def key_array_def)
  then show ?case using mode
    by (cases m) (auto simp: selector_scope_def set_messages_def jsmap messageModes_def isListMode_def handleModeChange_def split: if_splits)
next
  case (raw_packets scope b)
  then show ?case by (auto simp: selector_scope_def set_raw_packets_def jsmap)
qed (simp_all add: toggleChannel_def toggleContact_def pick_channels_def pick_contacts_def set_keys_selector)

text \<open>Whether a message is forwarded, read off what the selector shows.\<close>

definition shown_forwards :: "bool \<Rightarrow> scope \<Rightarrow> string \<Rightarrow> string \<Rightarrow> bool" where
  "shown_forwards raw scope msg_type key =
     (let keys = (if msg_type = ''CHAN'' then selectedChannels raw scope else selectedContacts raw scope) in
      case shown_mode raw scope of
        Mode_all \<Rightarrow> True | Mode_none \<Rightarrow> False | Mode_only \<Rightarrow> key \<in> set keys | Mode_except \<Rightarrow> key \<notin> set keys)"

lemma matches_built:
  assumes "isListMode mode" and "t \<in> {''CHAN'', ''PRIV''}"
  shows "scope_matches_message [(''messages'', buildMessages mode chs cts), r] t k =
     Some ((k \<in> set (if t = ''CHAN'' then chs else cts)) = (mode = Mode_only))"
proof -
  have "JStr k \<in> JStr ` A \<longleftrightarrow> k \<in> A" for A by auto
  then show ?thesis
    using assms by (cases mode)
      (auto simp: scope_matches_message_def scope_get_def buildMessages_def key_array_def matches_filter_def isListMode_def)
qed

text \<open>C22. Whatever is chosen in the selector, the server takes the scope, and forwards a message exactly when the
  selector shows that it does; raw packets as well.\<close>

theorem scope_forwards_what_is_shown:
  assumes "selector_reachable raw scope" and "config_type \<in> (if raw then {''mqtt_private'', ''sqs''} else {''webhook'', ''apprise'', ''mqtt_ha''})"
    and "msg_type \<in> {''CHAN'', ''PRIV''}"
  shows "\<exists>saved. enforce_scope config_type scope = Inr saved
     \<and> scope_matches_message saved msg_type key = Some (shown_forwards raw scope msg_type key)
     \<and> (jm_get scope ''raw_packets'' \<noteq> None \<longrightarrow> scope_matches_raw saved = rawEnabled raw scope)"
proof -
  obtain m where m: "jm_get scope ''messages'' = Some m"
      "m = JStr ''all'' \<or> raw \<and> m = JStr ''none'' \<or> (\<exists>mode chs cts. isListMode mode \<and> m = buildMessages mode chs cts)"
    and r: "jm_get scope ''raw_packets'' \<in> {None, Some (JStr ''all''), Some (JStr ''none'')}"
    using reachable_selector [OF assms(1)] by (auto simp: selector_scope_def)
  define rp where "rp = (if raw then scope_get scope ''raw_packets'' (JStr ''all'') else JStr ''none'')"
  have valid: "valid_messages m" using m(2) by (auto simp: valid_messages_def)
  have types: "config_type \<noteq> ''mqtt_community''" "config_type \<noteq> ''map_upload''" "config_type \<noteq> ''bot''"
    "config_type \<in> {''webhook'', ''apprise'', ''mqtt_ha''} \<longleftrightarrow> \<not> raw"
    using assms(2) by (auto split: if_splits)
  have rp: "scope_get scope ''raw_packets'' (JStr ''all'') \<in> {JStr ''all'', JStr ''none''}" using r by (auto simp: scope_get_def)
  have saved: "enforce_scope config_type scope = Inr [(''messages'', m), (''raw_packets'', rp)]"
    using types valid m(1) rp by (auto simp: enforce_scope_def scope_get_def rp_def Let_def)
  have msgs: "scope_messages scope = m" using m by (auto simp: scope_messages_def buildMessages_def split: if_splits)
  have "scope_matches_message [(''messages'', m), (''raw_packets'', rp)] msg_type key = Some (shown_forwards raw scope msg_type key)"
    using m(2)
  proof (elim disjE exE conjE)
    fix mode chs cts assume l: "isListMode mode" "m = buildMessages mode chs cts"
    then have "shown_mode raw scope = mode" by (auto simp: shown_mode_def msgs isListMode_def)
    with l show ?thesis
      using assms(3) by (auto simp: matches_built shown_forwards_def selectedChannels_def selectedContacts_def selected_keys_def msgs
          isListMode_def)
  qed (simp_all add: scope_matches_message_def scope_get_def shown_forwards_def shown_mode_def msgs)
  moreover have "scope_matches_raw [(''messages'', m), (''raw_packets'', rp)] = rawEnabled raw scope" if "jm_get scope ''raw_packets'' \<noteq> None"
    using that r by (auto simp: scope_matches_raw_def scope_get_def rp_def rawEnabled_def)
  ultimately show ?thesis using saved by blast
qed

lemma scope_forwards_what_is_shown_witness:
  "\<exists>saved. enforce_scope ''webhook'' (toggleChannel False ''AA'' (handleModeChange Mode_except [(''messages'', JStr ''all'')])) = Inr saved
     \<and> scope_matches_message saved ''CHAN'' ''AA'' = Some False"
proof -
  have 0: "selector_reachable False [(''messages'', JStr ''all'')]"
    by (rule selector_reachable.start) (simp add: selector_scope_def)
  have 1: "selector_reachable False (handleModeChange Mode_except [(''messages'', JStr ''all'')])"
    by (rule selector_reachable.mode [OF 0]) (simp add: messageModes_def)
  have 2: "isListMode (shown_mode False (handleModeChange Mode_except [(''messages'', JStr ''all'')]))"
    by (simp add: handleModeChange_def set_messages_def shown_mode_def scope_messages_def getScopeMode_def isListMode_def)
  have "\<not> shown_forwards False (toggleChannel False ''AA'' (handleModeChange Mode_except [(''messages'', JStr ''all'')])) ''CHAN'' ''AA''"
    by (simp add: shown_forwards_def toggleChannel_def set_keys_of_def handleModeChange_def set_messages_def shown_mode_def
        scope_messages_def getScopeMode_def selectedChannels_def selected_keys_def isListMode_def toggle_key_def buildMessages_def
        key_array_def)
  with scope_forwards_what_is_shown [OF selector_reachable.toggle_channel [OF 1 2], of "''webhook''" "''CHAN''" "''AA''" "''AA''"]
  show ?thesis by auto
qed

text \<open>A toggle changes one key of one list and nothing else.\<close>

lemma shown_built:
  assumes "mode = Mode_only \<or> mode = Mode_except"
  shows "shown_mode raw (set_messages (buildMessages mode chs cts) scope) = mode"
    "selectedChannels raw (set_messages (buildMessages mode chs cts) scope) = chs"
    "selectedContacts raw (set_messages (buildMessages mode chs cts) scope) = cts"
proof -
  show "shown_mode raw (set_messages (buildMessages mode chs cts) scope) = mode" using assms by (auto simp: shown_mode_def)
  with assms show "selectedChannels raw (set_messages (buildMessages mode chs cts) scope) = chs"
    "selectedContacts raw (set_messages (buildMessages mode chs cts) scope) = cts"
    by (simp_all add: selectedChannels_def selectedContacts_def selected_keys_def isListMode_def)
qed

lemma toggle_channel_selection:
  assumes "isListMode (shown_mode raw scope)"
  shows "selectedChannels raw (toggleChannel raw k scope) = toggle_key k (selectedChannels raw scope)
     \<and> selectedContacts raw (toggleChannel raw k scope) = selectedContacts raw scope
     \<and> shown_mode raw (toggleChannel raw k scope) = shown_mode raw scope"
  using assms by (simp add: toggleChannel_def set_keys_of_def shown_built isListMode_def)

text \<open>An integration that forwards no messages is shown to forward all where no raw packets are offered; nothing warns.\<close>

lemma none_shown_as_all:
  "shown_mode False [(''messages'', JStr ''none'')] = Mode_all
   \<and> \<not> showEmptyScopeWarning False channels contacts [(''messages'', JStr ''none'')]
   \<and> enforce_scope ''webhook'' [(''messages'', JStr ''none'')] = Inr [(''messages'', JStr ''none''), (''raw_packets'', JStr ''none'')]
   \<and> scope_matches_message [(''messages'', JStr ''none''), (''raw_packets'', JStr ''none'')] t k = Some False"
  by (simp add: shown_mode_def scope_messages_def getScopeMode_def showEmptyScopeWarning_def messagesEffectivelyNone_def
      isListMode_def enforce_scope_def scope_get_def valid_messages_def scope_matches_message_def Let_def)

text \<open>The warning counts keys: a channel and a contact that are gone make it appear for a scope that forwards everything there is.\<close>

lemma warning_counts_gone_keys:
  assumes "length channels = 1" and "length (scope_contacts contacts) = 1"
  shows "showEmptyScopeWarning False channels contacts [(''messages'', buildMessages Mode_except [''gone''] [''gone''])]
     \<and> (k \<noteq> ''gone'' \<longrightarrow> t \<in> {''CHAN'', ''PRIV''} \<longrightarrow>
          scope_matches_message [(''messages'', buildMessages Mode_except [''gone''] [''gone'']), (''raw_packets'', JStr ''none'')] t k = Some True)"
proof -
  have "scope_messages [(''messages'', buildMessages Mode_except a b)] = buildMessages Mode_except a b" for a b
    by (simp add: scope_messages_def)
  then show ?thesis
    using assms by (auto simp: showEmptyScopeWarning_def messagesEffectivelyNone_def shown_mode_def selectedChannels_def selectedContacts_def
        selected_keys_def isListMode_def rawEnabled_def matches_built)
qed

end
