(* ===== verification/Fanout_Config.thy ===== *)
theory Fanout_Config
  imports Fanout_Scope Api_Client Message_Input
begin

text \<open>
  The configuration of an integration: of \<^verbatim>\<open>components/settings/SettingsFanoutSection.tsx\<close> the recipes of new integrations, the reading of
  number fields, what is made of a draft or an edit when it is saved, and the summaries; and the checks of the
  server, \<^verbatim>\<open>_validate_and_normalize_config\<close> of \<^verbatim>\<open>app/routers/fanout.py\<close>.

  A configuration is a JSON object. The code of the sample bot, the printing of numbers, Python's \<^verbatim>\<open>str\<close> and its format
  strings are parameters; a bot's configuration, which the server reads with Python's own parser, is not checked here.
\<close>

section \<open>Recipes\<close>

type_synonym config = "(string \<times> json) list"

definition DEFAULT_COMMUNITY_PACKET_TOPIC_TEMPLATE :: string where "DEFAULT_COMMUNITY_PACKET_TOPIC_TEMPLATE = ''meshcore/{IATA}/{PUBLIC_KEY}/packets''"
definition DEFAULT_COMMUNITY_BROKER_HOST :: string where "DEFAULT_COMMUNITY_BROKER_HOST = ''mqtt-us-v1.letsmesh.net''"
definition DEFAULT_COMMUNITY_BROKER_HOST_EU :: string where "DEFAULT_COMMUNITY_BROKER_HOST_EU = ''mqtt-eu-v1.letsmesh.net''"
definition DEFAULT_COMMUNITY_BROKER_PORT :: real where "DEFAULT_COMMUNITY_BROKER_PORT = 443"
definition DEFAULT_COMMUNITY_TRANSPORT :: string where "DEFAULT_COMMUNITY_TRANSPORT = ''websockets''"
definition DEFAULT_COMMUNITY_AUTH_MODE :: string where "DEFAULT_COMMUNITY_AUTH_MODE = ''token''"
definition DEFAULT_MESHRANK_BROKER_HOST :: string where "DEFAULT_MESHRANK_BROKER_HOST = ''meshrank.net''"
definition DEFAULT_MESHRANK_BROKER_PORT :: real where "DEFAULT_MESHRANK_BROKER_PORT = 8883"
definition DEFAULT_MESHRANK_TRANSPORT :: string where "DEFAULT_MESHRANK_TRANSPORT = ''tcp''"
definition DEFAULT_MESHRANK_AUTH_MODE :: string where "DEFAULT_MESHRANK_AUTH_MODE = ''none''"
definition DEFAULT_MESHRANK_IATA :: string where "DEFAULT_MESHRANK_IATA = ''XYZ''"

definition createCommunityConfigDefaults :: "config \<Rightarrow> config" where
  "createCommunityConfigDefaults overrides =
     fold (\<lambda>(k, v) c. jm_set k v c) overrides
       [(''broker_host'', JStr DEFAULT_COMMUNITY_BROKER_HOST), (''broker_port'', JNum DEFAULT_COMMUNITY_BROKER_PORT),
        (''transport'', JStr DEFAULT_COMMUNITY_TRANSPORT), (''use_tls'', JBool True), (''tls_verify'', JBool True),
        (''auth_mode'', JStr DEFAULT_COMMUNITY_AUTH_MODE), (''username'', JStr ''''), (''password'', JStr ''''), (''iata'', JStr ''''),
        (''email'', JStr ''''), (''token_audience'', JStr ''''), (''topic_template'', JStr DEFAULT_COMMUNITY_PACKET_TOPIC_TEMPLATE)]"

datatype draft_type =
    Draft_mqtt_private | Draft_mqtt_ha | Draft_mqtt_community | Draft_mqtt_community_meshrank
  | Draft_mqtt_community_letsmesh_us | Draft_mqtt_community_letsmesh_eu | Draft_webhook | Draft_apprise | Draft_sqs
  | Draft_bot | Draft_map_upload

datatype name_mode = Name_counted | Name_fixed

record integration_definition =
  id_value :: draft_type
  id_savedType :: string
  id_label :: string
  id_section :: string
  id_description :: string
  id_defaultName :: string
  id_nameMode :: name_mode
  id_config :: config
  id_scope :: scope

definition definition_mqtt_private :: "integration_definition" where
  "definition_mqtt_private =
     \<lparr> id_value = Draft_mqtt_private, id_savedType = ''mqtt_private'', id_label = ''Private MQTT'',
       id_section = ''Private Forwarding'',
       id_description = ''Customizable-scope forwarding of all or some messages to an MQTT broker of your choosing, in raw and/or decrypted form.'',
       id_defaultName = ''Private MQTT'', id_nameMode = Name_counted,
       id_config =
          [(''broker_host'', JStr ''''),
           (''broker_port'', JNum 1883),
           (''username'', JStr ''''),
           (''password'', JStr ''''),
           (''use_tls'', JBool False),
           (''tls_insecure'', JBool False),
           (''topic_prefix'', JStr ''meshcore'')],
       id_scope = [(''messages'', JStr ''all''), (''raw_packets'', JStr ''all'')] \<rparr>"

definition definition_mqtt_ha :: "integration_definition" where
  "definition_mqtt_ha =
     \<lparr> id_value = Draft_mqtt_ha, id_savedType = ''mqtt_ha'', id_label = ''Home Assistant MQTT Discovery'',
       id_section = ''Private Forwarding'',
       id_description = (''Publishes MQTT Discovery payloads so mesh devices appear natively in Home Assistant. Requires HA'' @ [CHR 0x27] @ ''s built-in MQTT integration connected to the same broker. Select specific contacts for GPS tracking and repeaters for telemetry sensors.''),
       id_defaultName = ''Home Assistant'', id_nameMode = Name_fixed,
       id_config =
          [(''broker_host'', JStr ''''),
           (''broker_port'', JNum 1883),
           (''username'', JStr ''''),
           (''password'', JStr ''''),
           (''use_tls'', JBool False),
           (''tls_insecure'', JBool False),
           (''topic_prefix'', JStr ''meshcore''),
           (''tracked_contacts'', JArr []),
           (''tracked_repeaters'', JArr [])],
       id_scope = [(''messages'', JStr ''all''), (''raw_packets'', JStr ''none'')] \<rparr>"

definition definition_mqtt_community :: "integration_definition" where
  "definition_mqtt_community =
     \<lparr> id_value = Draft_mqtt_community, id_savedType = ''mqtt_community'', id_label = ''Community MQTT/meshcoretomqtt'',
       id_section = ''Community Sharing'',
       id_description = ''MeshcoreToMQTT-compatible raw-packet feed publishing, compatible with community aggregators (in other words, make your companion radio also serve as an observer node). Superset of other Community MQTT presets.'',
       id_defaultName = ''Community MQTT'', id_nameMode = Name_counted,
       id_config =
          createCommunityConfigDefaults [],
       id_scope = [(''messages'', JStr ''none''), (''raw_packets'', JStr ''all'')] \<rparr>"

definition definition_mqtt_community_meshrank :: "integration_definition" where
  "definition_mqtt_community_meshrank =
     \<lparr> id_value = Draft_mqtt_community_meshrank, id_savedType = ''mqtt_community'', id_label = ''MeshRank'',
       id_section = ''Community Sharing'',
       id_description = ''A community MQTT config preconfigured for MeshRank, requiring only the provided topic from your MeshRank configuration. A subset of the primary Community MQTT/meshcoretomqtt configuration; you are free to edit all configuration after creation.'',
       id_defaultName = ''MeshRank'', id_nameMode = Name_fixed,
       id_config =
          createCommunityConfigDefaults [(''broker_host'', JStr DEFAULT_MESHRANK_BROKER_HOST), (''broker_port'', JNum DEFAULT_MESHRANK_BROKER_PORT), (''transport'', JStr DEFAULT_MESHRANK_TRANSPORT), (''auth_mode'', JStr DEFAULT_MESHRANK_AUTH_MODE), (''iata'', JStr DEFAULT_MESHRANK_IATA), (''email'', JStr ''''), (''token_audience'', JStr ''''), (''topic_template'', JStr '''')],
       id_scope = [(''messages'', JStr ''none''), (''raw_packets'', JStr ''all'')] \<rparr>"

definition definition_mqtt_community_letsmesh_us :: "integration_definition" where
  "definition_mqtt_community_letsmesh_us =
     \<lparr> id_value = Draft_mqtt_community_letsmesh_us, id_savedType = ''mqtt_community'', id_label = ''LetsMesh (US)'',
       id_section = ''Community Sharing'',
       id_description = ''A community MQTT config preconfigured for the LetsMesh US-ingest endpoint, requiring only your email and IATA region code. Good to use with an additional EU configuration for redundancy. A subset of the primary Community MQTT/meshcoretomqtt configuration; you are free to edit all configuration after creation.'',
       id_defaultName = ''LetsMesh (US)'', id_nameMode = Name_fixed,
       id_config =
          createCommunityConfigDefaults [(''broker_host'', JStr DEFAULT_COMMUNITY_BROKER_HOST), (''token_audience'', JStr DEFAULT_COMMUNITY_BROKER_HOST)],
       id_scope = [(''messages'', JStr ''none''), (''raw_packets'', JStr ''all'')] \<rparr>"

definition definition_mqtt_community_letsmesh_eu :: "integration_definition" where
  "definition_mqtt_community_letsmesh_eu =
     \<lparr> id_value = Draft_mqtt_community_letsmesh_eu, id_savedType = ''mqtt_community'', id_label = ''LetsMesh (EU)'',
       id_section = ''Community Sharing'',
       id_description = ''A community MQTT config preconfigured for the LetsMesh EU-ingest endpoint, requiring only your email and IATA region code. Good to use with an additional US configuration for redundancy. A subset of the primary Community MQTT/meshcoretomqtt configuration; you are free to edit all configuration after creation.'',
       id_defaultName = ''LetsMesh (EU)'', id_nameMode = Name_fixed,
       id_config =
          createCommunityConfigDefaults [(''broker_host'', JStr DEFAULT_COMMUNITY_BROKER_HOST_EU), (''token_audience'', JStr DEFAULT_COMMUNITY_BROKER_HOST_EU)],
       id_scope = [(''messages'', JStr ''none''), (''raw_packets'', JStr ''all'')] \<rparr>"

definition definition_webhook :: "integration_definition" where
  "definition_webhook =
     \<lparr> id_value = Draft_webhook, id_savedType = ''webhook'', id_label = ''Webhook'',
       id_section = ''Automation'',
       id_description = ''Generic webhook for decrypted channel/DM messages with customizable verb, method, and optional HMAC signature.'',
       id_defaultName = ''Webhook'', id_nameMode = Name_counted,
       id_config =
          [(''url'', JStr ''''),
           (''method'', JStr ''POST''),
           (''headers'', JObj []),
           (''hmac_secret'', JStr ''''),
           (''hmac_header'', JStr '''')],
       id_scope = [(''messages'', JStr ''all''), (''raw_packets'', JStr ''none'')] \<rparr>"

definition definition_apprise :: "integration_definition" where
  "definition_apprise =
     \<lparr> id_value = Draft_apprise, id_savedType = ''apprise'', id_label = ''Apprise'',
       id_section = ''Automation'',
       id_description = ''A wide-ranging generic fanout, capable of forwarding decrypted channel/DM messages to Discord, Telegram, email, SMS, and many others.'',
       id_defaultName = ''Apprise'', id_nameMode = Name_counted,
       id_config =
          [(''urls'', JStr ''''),
           (''preserve_identity'', JBool True),
           (''include_outgoing'', JBool False),
           (''markdown_format'', JBool True),
           (''body_format_dm'', JStr ''**DM:** {sender_name}: {text} **via:** [{hops_backticked}]''),
           (''body_format_channel'', JStr ''**{channel_name}:** {sender_name}: {text} **via:** [{hops_backticked}]'')],
       id_scope = [(''messages'', JStr ''all''), (''raw_packets'', JStr ''none'')] \<rparr>"

definition definition_sqs :: "integration_definition" where
  "definition_sqs =
     \<lparr> id_value = Draft_sqs, id_savedType = ''sqs'', id_label = ''Amazon SQS'',
       id_section = ''Private Forwarding'',
       id_description = ''Send full or scope-customized raw or decrypted packets to an SQS'',
       id_defaultName = ''Amazon SQS'', id_nameMode = Name_counted,
       id_config =
          [(''queue_url'', JStr ''''),
           (''region_name'', JStr ''''),
           (''endpoint_url'', JStr ''''),
           (''access_key_id'', JStr ''''),
           (''secret_access_key'', JStr ''''),
           (''session_token'', JStr '''')],
       id_scope = [(''messages'', JStr ''all''), (''raw_packets'', JStr ''none'')] \<rparr>"

definition definition_bot :: "string \<Rightarrow> integration_definition" where
  "definition_bot bot_code =
     \<lparr> id_value = Draft_bot, id_savedType = ''bot'', id_label = ''Python Bot'',
       id_section = ''Automation'',
       id_description = ''A simple, Python-based interface for basic bots that can respond to DM and channel messages.'',
       id_defaultName = ''Bot'', id_nameMode = Name_counted,
       id_config =
          [(''code'', JStr bot_code)],
       id_scope = [(''messages'', JStr ''all''), (''raw_packets'', JStr ''none'')] \<rparr>"

definition definition_map_upload :: "integration_definition" where
  "definition_map_upload =
     \<lparr> id_value = Draft_map_upload, id_savedType = ''map_upload'', id_label = ''Map Upload'',
       id_section = ''Community Sharing'',
       id_description = ''Upload repeaters and room servers to map.meshcore.io or a compatible map API endpoint.'',
       id_defaultName = ''Map Upload'', id_nameMode = Name_counted,
       id_config =
          [(''api_url'', JStr ''''),
           (''dry_run'', JBool True)],
       id_scope = [(''messages'', JStr ''none''), (''raw_packets'', JStr ''all'')] \<rparr>"

definition CREATE_INTEGRATION_DEFINITIONS :: "string \<Rightarrow> integration_definition list" where
  "CREATE_INTEGRATION_DEFINITIONS bot_code =
     [definition_mqtt_private, definition_mqtt_ha, definition_mqtt_community, definition_mqtt_community_meshrank,
      definition_mqtt_community_letsmesh_us, definition_mqtt_community_letsmesh_eu, definition_webhook, definition_apprise,
      definition_sqs, definition_bot bot_code, definition_map_upload]"

fun getCreateIntegrationDefinition :: "string \<Rightarrow> draft_type \<Rightarrow> integration_definition" where
  "getCreateIntegrationDefinition bot_code Draft_mqtt_private = definition_mqtt_private"
| "getCreateIntegrationDefinition bot_code Draft_mqtt_ha = definition_mqtt_ha"
| "getCreateIntegrationDefinition bot_code Draft_mqtt_community = definition_mqtt_community"
| "getCreateIntegrationDefinition bot_code Draft_mqtt_community_meshrank = definition_mqtt_community_meshrank"
| "getCreateIntegrationDefinition bot_code Draft_mqtt_community_letsmesh_us = definition_mqtt_community_letsmesh_us"
| "getCreateIntegrationDefinition bot_code Draft_mqtt_community_letsmesh_eu = definition_mqtt_community_letsmesh_eu"
| "getCreateIntegrationDefinition bot_code Draft_webhook = definition_webhook"
| "getCreateIntegrationDefinition bot_code Draft_apprise = definition_apprise"
| "getCreateIntegrationDefinition bot_code Draft_sqs = definition_sqs"
| "getCreateIntegrationDefinition bot_code Draft_bot = definition_bot bot_code"
| "getCreateIntegrationDefinition bot_code Draft_map_upload = definition_map_upload"

definition saved_type :: "draft_type \<Rightarrow> string" where
  "saved_type t = id_savedType (getCreateIntegrationDefinition [] t)"

definition TYPE_LABELS :: "(string, string) jsmap" where
  "TYPE_LABELS =
     [(''mqtt_private'', ''Private MQTT''), (''mqtt_community'', ''Community Sharing''), (''mqtt_ha'', ''Home Assistant''),
      (''bot'', ''Python Bot''), (''webhook'', ''Webhook''), (''apprise'', ''Apprise''), (''sqs'', ''Amazon SQS''),
      (''map_upload'', ''Map Upload'')]"

record fanout_config =
  fc_id :: string
  fc_type :: string
  fc_name :: string
  fc_enabled :: bool
  fc_config :: config
  fc_scope :: scope
  fc_sort_order :: int
  fc_created_at :: int

section \<open>Numbers in text fields\<close>

definition js_digit :: "char \<Rightarrow> bool" where
  "js_digit c \<longleftrightarrow> (let n = of_char c :: nat in 48 \<le> n \<and> n \<le> 57)"

definition split_sign :: "string \<Rightarrow> bool \<times> string" where
  "split_sign s = (case s of c # t \<Rightarrow> if c = CHR ''-'' then (True, t) else if c = CHR ''+'' then (False, t) else (False, s) | [] \<Rightarrow> (False, []))"

text \<open>\<^verbatim>\<open>Number.parseInt(s, 10)\<close>; \<open>None\<close> is \<^verbatim>\<open>NaN\<close>.\<close>

definition parse_int10 :: "string \<Rightarrow> int option" where
  "parse_int10 s =
     (let (neg, t) = split_sign (dropWhile is_ws s);
          ds = takeWhile js_digit t
      in if ds = [] then None else Some (if neg then - int (digits_val 10 ds) else int (digits_val 10 ds)))"

definition exponent_of :: "string \<Rightarrow> int" where
  "exponent_of s =
     (case s of
        c # t \<Rightarrow>
          if c = CHR ''e'' \<or> c = CHR ''E''
          then (let (neg, u) = split_sign t; ds = takeWhile js_digit u
                in if neg then - int (digits_val 10 ds) else int (digits_val 10 ds))
          else 0
      | [] \<Rightarrow> 0)"

text \<open>\<^verbatim>\<open>Number.parseFloat(s)\<close> as it is sent: a number that is not finite is \<^verbatim>\<open>null\<close> in JSON; \<open>None\<close> is \<^verbatim>\<open>NaN\<close>.\<close>

definition parse_float :: "string \<Rightarrow> json option" where
  "parse_float s =
     (let (neg, t) = split_sign (dropWhile is_ws s);
          ip = takeWhile js_digit t;
          rest = dropWhile js_digit t;
          (fp, rest) = (case rest of
             c # u \<Rightarrow> if c = CHR ''.'' then (takeWhile js_digit u, dropWhile js_digit u) else ([], rest)
           | [] \<Rightarrow> ([], []));
          x = real (digits_val 10 (ip @ fp)) * 10 powr (real_of_int (exponent_of rest) - real (length fp))
      in if starts_with t ''Infinity'' then Some JNull
         else if ip = [] \<and> fp = [] then None
         else Some (JNum (if neg then - x else x)))"

definition getNumberInputValue :: "json option \<Rightarrow> real \<Rightarrow> json" where
  "getNumberInputValue v fallback = (case v of Some (JStr s) \<Rightarrow> JStr s | Some (JNum r) \<Rightarrow> JNum r | _ \<Rightarrow> JNum fallback)"

definition getOptionalNumberInputValue :: "json option \<Rightarrow> json" where
  "getOptionalNumberInputValue v = (case v of Some (JStr s) \<Rightarrow> JStr s | Some (JNum r) \<Rightarrow> JNum r | _ \<Rightarrow> JStr '''')"

definition parseIntegerInputValue :: "string \<Rightarrow> json" where
  "parseIntegerInputValue v =
     (if v = [] then JStr '''' else case parse_int10 v of None \<Rightarrow> JStr v | Some n \<Rightarrow> JNum (real_of_int n))"

definition parseFloatInputValue :: "string \<Rightarrow> json" where
  "parseFloatInputValue v = (if v = [] then JStr '''' else case parse_float v of None \<Rightarrow> JStr v | Some j \<Rightarrow> j)"

section \<open>Saving\<close>

definition missing :: "json option \<Rightarrow> bool" where
  "missing v \<longleftrightarrow> v = Some (JStr '''') \<or> v = None \<or> v = Some JNull"

text \<open>\<^verbatim>\<open>String(v ?? '')\<close> and \<^verbatim>\<open>String(v || '')\<close>.\<close>

definition string_or_empty :: "(real \<Rightarrow> string) \<Rightarrow> json option \<Rightarrow> string" where
  "string_or_empty num v = (case v of None \<Rightarrow> [] | Some j \<Rightarrow> if j = JNull then [] else js_to_string num j)"

definition string_if_truthy :: "(real \<Rightarrow> string) \<Rightarrow> json option \<Rightarrow> string" where
  "string_if_truthy num v = (case v of None \<Rightarrow> [] | Some j \<Rightarrow> if json_truthy j then js_to_string num j else [])"

definition or_text :: "string \<Rightarrow> string \<Rightarrow> string" where
  "or_text s d = (if s = [] then d else s)"

definition save_port :: "real \<Rightarrow> config \<Rightarrow> config" where
  "save_port fallback c =
     (let port = jm_get c ''broker_port'' in
      if missing port then jm_set ''broker_port'' (JNum fallback) c
      else case port of
             Some (JStr s) \<Rightarrow>
               jm_set ''broker_port'' (JNum (case parse_int10 s of None \<Rightarrow> fallback | Some n \<Rightarrow> real_of_int n)) c
           | _ \<Rightarrow> c)"

definition save_text :: "(real \<Rightarrow> string) \<Rightarrow> string \<Rightarrow> string \<Rightarrow> config \<Rightarrow> config" where
  "save_text num field fallback c = jm_set field (JStr (or_text (trim (string_or_empty num (jm_get c field))) fallback)) c"

definition save_radius :: "config \<Rightarrow> config" where
  "save_radius c =
     (let radius = jm_get c ''geofence_radius_km'' in
      if missing radius then jm_set ''geofence_radius_km'' (JNum 0) c
      else case radius of
             Some (JStr s) \<Rightarrow> jm_set ''geofence_radius_km'' (coalesce (parse_float s) (JNum 0)) c
           | _ \<Rightarrow> c)"

definition normalizeIntegrationConfigForSave :: "(real \<Rightarrow> string) \<Rightarrow> string \<Rightarrow> config \<Rightarrow> config" where
  "normalizeIntegrationConfigForSave num configType c =
     (if configType = ''mqtt_private'' then save_text num ''topic_prefix'' ''meshcore'' (save_port 1883 c)
      else if configType = ''mqtt_community''
      then save_text num ''topic_template'' DEFAULT_COMMUNITY_PACKET_TOPIC_TEMPLATE
             (save_port DEFAULT_COMMUNITY_BROKER_PORT (save_text num ''broker_host'' DEFAULT_COMMUNITY_BROKER_HOST c))
      else if configType = ''map_upload'' then save_radius c
      else c)"

definition getDefaultIntegrationName :: "string \<Rightarrow> fanout_config list \<Rightarrow> string" where
  "getDefaultIntegrationName type configs =
     (let label = or_else (jm_get TYPE_LABELS type) type;
          nextIndex = length (filter (\<lambda>cfg. fc_type cfg = type) configs) + 1
      in label @ '' #'' @ show_nat nextIndex)"

definition normalizeDraftName :: "draft_type \<Rightarrow> string \<Rightarrow> fanout_config list \<Rightarrow> string" where
  "normalizeDraftName draftType name configs =
     (let d = getCreateIntegrationDefinition [] draftType in
      if name \<noteq> [] then name
      else if id_nameMode d = Name_fixed then id_defaultName d
      else getDefaultIntegrationName (id_savedType d) configs)"

definition spread_config :: "config \<Rightarrow> config \<Rightarrow> config" where
  "spread_config c overrides = fold (\<lambda>(k, v) c. jm_set k v c) overrides c"

text \<open>\<open>Inl\<close> is the message of what is thrown.\<close>

definition normalizeDraftConfig :: "(real \<Rightarrow> string) \<Rightarrow> draft_type \<Rightarrow> config \<Rightarrow> string + config" where
  "normalizeDraftConfig num draftType c =
     (if draftType = Draft_mqtt_community_meshrank
      then (let topicTemplate = trim (string_if_truthy num (jm_get c ''topic_template'')) in
            if topicTemplate = [] then Inl ''MeshRank packet topic is required''
            else Inr (normalizeIntegrationConfigForSave num ''mqtt_community'' (spread_config c
              [(''broker_host'', JStr DEFAULT_MESHRANK_BROKER_HOST), (''broker_port'', JNum DEFAULT_MESHRANK_BROKER_PORT),
               (''transport'', JStr DEFAULT_MESHRANK_TRANSPORT), (''auth_mode'', JStr DEFAULT_MESHRANK_AUTH_MODE), (''use_tls'', JBool True),
               (''tls_verify'', JBool True), (''iata'', JStr DEFAULT_MESHRANK_IATA), (''email'', JStr ''''), (''token_audience'', JStr ''''),
               (''topic_template'', JStr topicTemplate), (''username'', JStr ''''), (''password'', JStr '''')])))
      else if draftType = Draft_mqtt_community_letsmesh_us \<or> draftType = Draft_mqtt_community_letsmesh_eu
      then (let brokerHost = (if draftType = Draft_mqtt_community_letsmesh_eu then DEFAULT_COMMUNITY_BROKER_HOST_EU
                              else DEFAULT_COMMUNITY_BROKER_HOST);
                topic = (case jm_get c ''topic_template'' of
                   Some j \<Rightarrow> if json_truthy j then j else JStr DEFAULT_COMMUNITY_PACKET_TOPIC_TEMPLATE
                 | None \<Rightarrow> JStr DEFAULT_COMMUNITY_PACKET_TOPIC_TEMPLATE)
            in Inr (normalizeIntegrationConfigForSave num ''mqtt_community'' (spread_config c
              [(''broker_host'', JStr brokerHost), (''broker_port'', JNum DEFAULT_COMMUNITY_BROKER_PORT),
               (''transport'', JStr DEFAULT_COMMUNITY_TRANSPORT), (''auth_mode'', JStr DEFAULT_COMMUNITY_AUTH_MODE), (''use_tls'', JBool True),
               (''tls_verify'', JBool True), (''token_audience'', JStr brokerHost), (''topic_template'', topic),
               (''username'', JStr ''''), (''password'', JStr '''')])))
      else Inr (normalizeIntegrationConfigForSave num (saved_type draftType) c))"

definition normalizeDraftScope :: "draft_type \<Rightarrow> scope \<Rightarrow> scope" where
  "normalizeDraftScope draftType scope =
     (if saved_type draftType = ''mqtt_community'' then [(''messages'', JStr ''none''), (''raw_packets'', JStr ''all'')] else scope)"

section \<open>Summaries\<close>

text \<open>A setting in a template, \<^verbatim>\<open>(config.x as string) || d\<close>.\<close>

definition text_setting :: "(real \<Rightarrow> string) \<Rightarrow> config \<Rightarrow> string \<Rightarrow> string \<Rightarrow> string" where
  "text_setting num c field d = (case jm_get c field of Some j \<Rightarrow> if json_truthy j then js_to_string num j else d | None \<Rightarrow> d)"

definition formatBrokerSummary :: "(real \<Rightarrow> string) \<Rightarrow> config \<Rightarrow> string \<Rightarrow> real \<Rightarrow> string" where
  "formatBrokerSummary num c host port =
     text_setting num c ''broker_host'' host @ '':'' @ num (case jm_get c ''broker_port'' of Some (JNum p) \<Rightarrow> p | _ \<Rightarrow> port)"

definition formatPrivateTopicSummary :: "(real \<Rightarrow> string) \<Rightarrow> config \<Rightarrow> string" where
  "formatPrivateTopicSummary num c =
     (let topic_prefix = text_setting num c ''topic_prefix'' ''meshcore''
      in topic_prefix @ ''/dm:<pubkey>, '' @ topic_prefix @ ''/gm:<channel>, '' @ topic_prefix @ ''/raw/...'')"

definition ascii_letter :: "char \<Rightarrow> bool" where
  "ascii_letter c \<longleftrightarrow> (let n = of_char c :: nat in 65 \<le> n \<and> n \<le> 90 \<or> 97 \<le> n \<and> n \<le> 122)"

definition proto_char :: "char \<Rightarrow> bool" where
  "proto_char c \<longleftrightarrow> ascii_letter c \<or> js_digit c \<or> c \<in> {CHR ''+'', CHR ''.'', CHR ''-''}"

text \<open>The match of \<^verbatim>\<open>/^[a-zA-Z][a-zA-Z0-9+.-]*:\/\//\<close>.\<close>

definition proto_match :: "string \<Rightarrow> string option" where
  "proto_match url =
     (case url of
        c # t \<Rightarrow>
          if ascii_letter c \<and> starts_with (dropWhile proto_char t) ''://'' then Some (c # takeWhile proto_char t @ ''://'') else None
      | [] \<Rightarrow> None)"

definition censorAppriseUrl :: "string \<Rightarrow> string" where
  "censorAppriseUrl url = (case proto_match url of Some p \<Rightarrow> p @ ''********'' | None \<Rightarrow> ''********'')"

fun js_lines :: "string \<Rightarrow> string list" where
  "js_lines [] = [[]]"
| "js_lines (c # s) = (if of_char c = (10 :: nat) then [] # js_lines s else (c # hd (js_lines s)) # tl (js_lines s))"

definition formatAppriseTargets :: "string option \<Rightarrow> string" where
  "formatAppriseTargets urls =
     (let targets = filter (\<lambda>l. l \<noteq> []) (map trim (js_lines (or_else urls [])))
      in if targets = [] then ''No targets configured'' else join '', '' (map censorAppriseUrl targets))"

text \<open>\<open>None\<close> is a throw: a queue that is not a string cannot be trimmed.\<close>

definition formatSqsQueueSummary :: "config \<Rightarrow> string option" where
  "formatSqsQueueSummary c =
     (case jm_get c ''queue_url'' of
        Some (JStr s) \<Rightarrow> Some (or_text (trim s) ''No queue configured'')
      | Some j \<Rightarrow> if json_truthy j then None else Some ''No queue configured''
      | None \<Rightarrow> Some ''No queue configured'')"

fun draft_value :: "draft_type \<Rightarrow> string" where
  "draft_value Draft_mqtt_private = ''mqtt_private''"
| "draft_value Draft_mqtt_ha = ''mqtt_ha''"
| "draft_value Draft_mqtt_community = ''mqtt_community''"
| "draft_value Draft_mqtt_community_meshrank = ''mqtt_community_meshrank''"
| "draft_value Draft_mqtt_community_letsmesh_us = ''mqtt_community_letsmesh_us''"
| "draft_value Draft_mqtt_community_letsmesh_eu = ''mqtt_community_letsmesh_eu''"
| "draft_value Draft_webhook = ''webhook''"
| "draft_value Draft_apprise = ''apprise''"
| "draft_value Draft_sqs = ''sqs''"
| "draft_value Draft_bot = ''bot''"
| "draft_value Draft_map_upload = ''map_upload''"

definition isDraftType :: "string \<Rightarrow> bool" where
  "isDraftType value \<longleftrightarrow> list_ex (\<lambda>d. draft_value (id_value d) = value) (CREATE_INTEGRATION_DEFINITIONS [])"

definition getDetailTypeLabel :: "string \<Rightarrow> string" where
  "getDetailTypeLabel detailType =
     (case find (\<lambda>d. draft_value (id_value d) = detailType) (CREATE_INTEGRATION_DEFINITIONS []) of
        Some d \<Rightarrow> id_label d
      | None \<Rightarrow> or_else (jm_get TYPE_LABELS detailType) detailType)"

definition getStatusLabel :: "string option \<Rightarrow> string option \<Rightarrow> string" where
  "getStatusLabel status type =
     (if status = Some ''connected''
      then (if type \<in> {Some ''bot'', Some ''webhook'', Some ''apprise'', Some ''map_upload''} then ''Active'' else ''Connected'')
      else if status = Some ''error'' then ''Error''
      else if status = Some ''disconnected'' then ''Disconnected''
      else ''Inactive'')"

section \<open>Checks of the server\<close>

text \<open>The truth of a value in Python, where empty lists and objects are false, and \<^verbatim>\<open>isinstance(v, int)\<close> of a parsed JSON value.\<close>

fun python_true :: "json \<Rightarrow> bool" where
  "python_true (JArr xs) \<longleftrightarrow> xs \<noteq> []"
| "python_true (JObj kvs) \<longleftrightarrow> kvs \<noteq> []"
| "python_true j \<longleftrightarrow> json_truthy j"

fun python_int :: "json \<Rightarrow> int option" where
  "python_int (JNum r) = (if real_of_int (floor r) = r then Some (floor r) else None)"
| "python_int (JBool b) = Some (if b then 1 else 0)"
| "python_int _ = None"

definition config_get :: "config \<Rightarrow> string \<Rightarrow> json \<Rightarrow> json" where
  "config_get c field fallback = coalesce (jm_get c field) fallback"

definition check_port :: "config \<Rightarrow> string + unit" where
  "check_port c =
     (case python_int (config_get c ''broker_port'' (JNum 1883)) of
        Some n \<Rightarrow> if n < 1 \<or> n > 65535 then Inl ''broker_port must be between 1 and 65535'' else Inr ()
      | None \<Rightarrow> Inl ''broker_port must be between 1 and 65535'')"

definition validate_mqtt_private_config :: "config \<Rightarrow> string + unit" where
  "validate_mqtt_private_config c =
     (if \<not> python_true (config_get c ''broker_host'' JNull) then Inl ''broker_host is required for mqtt_private'' else check_port c)"

definition is_list :: "json \<Rightarrow> bool" where
  "is_list v \<longleftrightarrow> (case v of JArr _ \<Rightarrow> True | _ \<Rightarrow> False)"

definition validate_mqtt_ha_config :: "config \<Rightarrow> string + unit" where
  "validate_mqtt_ha_config c =
     (if \<not> python_true (config_get c ''broker_host'' JNull) then Inl ''broker_host is required for mqtt_ha''
      else case check_port c of
             Inl e \<Rightarrow> Inl e
           | Inr _ \<Rightarrow>
               (case find (\<lambda>field. let v = config_get c field JNull in v \<noteq> JNull \<and> \<not> is_list v) [''tracked_contacts'', ''tracked_repeaters''] of
                  Some field \<Rightarrow> Inl (field @ '' must be a list of public keys'')
                | None \<Rightarrow> Inr ()))"

section \<open>What is saved\<close>

definition text_kept :: "config \<Rightarrow> string \<Rightarrow> bool" where
  "text_kept c field \<longleftrightarrow> (\<exists>s. jm_get c field = Some (JStr s) \<and> s \<noteq> [] \<and> trim s = s)"

definition number_kept :: "config \<Rightarrow> string \<Rightarrow> bool" where
  "number_kept c field \<longleftrightarrow> \<not> missing (jm_get c field) \<and> (\<forall>s. jm_get c field \<noteq> Some (JStr s))"

lemma or_text_trim: "d \<noteq> [] \<Longrightarrow> trim d = d \<Longrightarrow> or_text (trim s) d \<noteq> [] \<and> trim (or_text (trim s) d) = or_text (trim s) d"
  by (auto simp: or_text_def)

lemma save_text_kept: "d \<noteq> [] \<Longrightarrow> trim d = d \<Longrightarrow> text_kept (save_text num field d c) field"
  unfolding text_kept_def save_text_def by (metis jm_get_set or_text_trim)

lemma save_text_id: "text_kept c field \<Longrightarrow> save_text num field d c = c"
  by (auto simp: text_kept_def save_text_def string_or_empty_def or_text_def update_triv)

lemma save_text_other [simp]:
  "field \<noteq> f \<Longrightarrow> text_kept (save_text num field d c) f = text_kept c f"
  "field \<noteq> f \<Longrightarrow> number_kept (save_text num field d c) f = number_kept c f"
  by (simp_all add: text_kept_def number_kept_def save_text_def jm_get_set)

lemma save_port_kept: "number_kept (save_port d c) ''broker_port''"
  by (auto simp: number_kept_def save_port_def Let_def missing_def jm_get_set split: option.splits json.splits)

lemma save_port_id: "number_kept c ''broker_port'' \<Longrightarrow> save_port d c = c"
  by (auto simp: number_kept_def save_port_def Let_def split: option.splits json.splits)

lemma save_port_other [simp]: "f \<noteq> ''broker_port'' \<Longrightarrow> text_kept (save_port d c) f = text_kept c f"
  by (auto simp: text_kept_def save_port_def Let_def jm_get_set split: option.splits json.splits)

lemma default_texts_trimmed:
  "trim ''meshcore'' = ''meshcore''" "trim DEFAULT_COMMUNITY_BROKER_HOST = DEFAULT_COMMUNITY_BROKER_HOST"
  "trim DEFAULT_COMMUNITY_PACKET_TOPIC_TEMPLATE = DEFAULT_COMMUNITY_PACKET_TOPIC_TEMPLATE"
  "DEFAULT_COMMUNITY_BROKER_HOST \<noteq> []" "DEFAULT_COMMUNITY_PACKET_TOPIC_TEMPLATE \<noteq> []"
  by (simp_all add: trim_def DEFAULT_COMMUNITY_BROKER_HOST_def DEFAULT_COMMUNITY_PACKET_TOPIC_TEMPLATE_def is_ws_def)

lemma save_radius_kept: "jm_get (save_radius c) ''geofence_radius_km'' \<noteq> Some JNull \<Longrightarrow> number_kept (save_radius c) ''geofence_radius_km''"
  by (auto simp: number_kept_def save_radius_def parse_float_def Let_def missing_def jm_get_set coalesce_def
      split: option.splits json.splits if_splits prod.splits)

lemma save_radius_id: "number_kept c ''geofence_radius_km'' \<Longrightarrow> save_radius c = c"
  by (auto simp: number_kept_def save_radius_def Let_def split: option.splits json.splits)

text \<open>Saving what is saved changes nothing, so an edit that is opened and saved again sends what was sent before.\<close>

lemma saved_again:
  assumes "type = ''map_upload'' \<Longrightarrow>
    jm_get (normalizeIntegrationConfigForSave num type c) ''geofence_radius_km'' \<noteq> Some JNull"
  shows "normalizeIntegrationConfigForSave num type (normalizeIntegrationConfigForSave num type c) =
    normalizeIntegrationConfigForSave num type c"
proof (cases "type = ''map_upload''")
  case True
  then show ?thesis using assms save_radius_id [OF save_radius_kept [of c]] by (simp add: normalizeIntegrationConfigForSave_def)
next
  case False
  then show ?thesis
    by (simp add: normalizeIntegrationConfigForSave_def save_text_id save_port_id save_text_kept save_port_kept default_texts_trimmed)
qed

text \<open>A private broker is accepted when it has a host and its port, if one is readable, is one: an empty or
  unreadable port is saved as 1883.\<close>

definition port_ok :: "int \<Rightarrow> bool" where
  "port_ok n \<longleftrightarrow> 1 \<le> n \<and> n \<le> 65535"

lemma check_port_iff:
  "check_port c = Inr () \<longleftrightarrow> (\<exists>n. python_int (config_get c ''broker_port'' (JNum 1883)) = Some n \<and> port_ok n)"
  by (auto simp: check_port_def port_ok_def split: option.splits)

lemma save_text_get [simp]: "f \<noteq> field \<Longrightarrow> jm_get (save_text num field d c) f = jm_get c f"
  by (simp add: save_text_def jm_get_set)

definition port_readable :: "config \<Rightarrow> bool" where
  "port_readable c \<longleftrightarrow>
     (case jm_get c ''broker_port'' of
        None \<Rightarrow> True
      | Some (JStr s) \<Rightarrow> (case parse_int10 s of None \<Rightarrow> True | Some n \<Rightarrow> port_ok n)
      | Some j \<Rightarrow> j = JNull \<or> (\<exists>n. python_int j = Some n \<and> port_ok n))"

lemma saved_private_accepted:
  "validate_mqtt_private_config (normalizeIntegrationConfigForSave num ''mqtt_private'' c) = Inr () \<longleftrightarrow>
     python_true (config_get c ''broker_host'' JNull) \<and> port_readable c"
proof -
  have host: "jm_get (save_port 1883 c) ''broker_host'' = jm_get c ''broker_host''"
    by (auto simp: save_port_def Let_def jm_get_set split: option.splits json.splits)
  have port: "check_port (normalizeIntegrationConfigForSave num ''mqtt_private'' c) = Inr () \<longleftrightarrow> port_readable c"
    by (auto simp: check_port_iff normalizeIntegrationConfigForSave_def config_get_def save_port_def Let_def missing_def jm_get_set
        port_ok_def port_readable_def parse_int10_def split_sign_def split: option.splits json.splits)
  show ?thesis
    using port by (simp add: validate_mqtt_private_config_def normalizeIntegrationConfigForSave_def config_get_def host)
qed

text \<open>The port of the Home Assistant integration is read from the same field but not filled in.\<close>

lemma ha_port_not_filled:
  "let c = [(''broker_host'', JStr ''broker''), (''broker_port'', JStr '''')] in
     validate_mqtt_ha_config (normalizeIntegrationConfigForSave num ''mqtt_ha'' c) = Inl ''broker_port must be between 1 and 65535'' \<and>
     validate_mqtt_private_config (normalizeIntegrationConfigForSave num ''mqtt_private'' c) = Inr ()"
  by (simp add: Let_def saved_private_accepted port_readable_def parse_int10_def split_sign_def config_get_def)
    (simp add: normalizeIntegrationConfigForSave_def validate_mqtt_ha_config_def check_port_def config_get_def)

text \<open>The name that is proposed counts the integrations of its type; after one was deleted it repeats a name.\<close>

lemma default_name_repeats:
  "fc_type cfg = ''webhook'' \<Longrightarrow> fc_name cfg = ''Webhook #2'' \<Longrightarrow>
   getDefaultIntegrationName ''webhook'' [cfg] = fc_name cfg"
  by (simp add: getDefaultIntegrationName_def TYPE_LABELS_def Let_def show_base.simps digit_char_def char_of_def bit_0)

text \<open>The presets keep their broker, whatever the draft holds, and their port is one the server takes.\<close>

definition preset_broker :: "draft_type \<Rightarrow> (string \<times> real \<times> string \<times> string) option" where
  "preset_broker t =
     (case t of
        Draft_mqtt_community_meshrank \<Rightarrow>
          Some (DEFAULT_MESHRANK_BROKER_HOST, DEFAULT_MESHRANK_BROKER_PORT, DEFAULT_MESHRANK_TRANSPORT, DEFAULT_MESHRANK_AUTH_MODE)
      | Draft_mqtt_community_letsmesh_us \<Rightarrow>
          Some (DEFAULT_COMMUNITY_BROKER_HOST, DEFAULT_COMMUNITY_BROKER_PORT, DEFAULT_COMMUNITY_TRANSPORT, DEFAULT_COMMUNITY_AUTH_MODE)
      | Draft_mqtt_community_letsmesh_eu \<Rightarrow>
          Some (DEFAULT_COMMUNITY_BROKER_HOST_EU, DEFAULT_COMMUNITY_BROKER_PORT, DEFAULT_COMMUNITY_TRANSPORT, DEFAULT_COMMUNITY_AUTH_MODE)
      | _ \<Rightarrow> None)"

lemma community_saved:
  assumes "jm_get c ''broker_host'' = Some (JStr host)" "host \<noteq> []" "trim host = host" "jm_get c ''broker_port'' = Some (JNum port)"
  shows "normalizeIntegrationConfigForSave num ''mqtt_community'' c =
    save_text num ''topic_template'' DEFAULT_COMMUNITY_PACKET_TOPIC_TEMPLATE c"
proof -
  have "text_kept c ''broker_host''" using assms by (simp add: text_kept_def)
  moreover have "number_kept c ''broker_port''" using assms by (simp add: number_kept_def missing_def)
  ultimately show ?thesis by (simp add: normalizeIntegrationConfigForSave_def save_text_id save_port_id)
qed

lemma preset_kept:
  assumes "normalizeDraftConfig num t c = Inr c'" "preset_broker t = Some (host, port, transport, auth)"
  shows "jm_get c' ''broker_host'' = Some (JStr host) \<and> jm_get c' ''broker_port'' = Some (JNum port) \<and>
    jm_get c' ''transport'' = Some (JStr transport) \<and> jm_get c' ''auth_mode'' = Some (JStr auth) \<and>
    jm_get c' ''use_tls'' = Some (JBool True) \<and> jm_get c' ''tls_verify'' = Some (JBool True) \<and>
    jm_get c' ''username'' = Some (JStr '''') \<and> jm_get c' ''password'' = Some (JStr '''')"
proof -
  have hosts: "trim DEFAULT_COMMUNITY_BROKER_HOST_EU = DEFAULT_COMMUNITY_BROKER_HOST_EU" "DEFAULT_COMMUNITY_BROKER_HOST_EU \<noteq> []"
    "trim DEFAULT_MESHRANK_BROKER_HOST = DEFAULT_MESHRANK_BROKER_HOST" "DEFAULT_MESHRANK_BROKER_HOST \<noteq> []"
    by (simp_all add: trim_def is_ws_def DEFAULT_COMMUNITY_BROKER_HOST_EU_def DEFAULT_MESHRANK_BROKER_HOST_def)
  show ?thesis
    using assms
    by (cases t) (auto simp: preset_broker_def normalizeDraftConfig_def Let_def spread_config_def jm_get_set community_saved
        default_texts_trimmed hosts split: if_splits)
qed

lemma preset_port_taken:
  assumes "normalizeDraftConfig num t c = Inr c'" "preset_broker t \<noteq> None"
  shows "check_port c' = Inr ()"
proof -
  obtain host port transport auth where b: "preset_broker t = Some (host, port, transport, auth)"
    using assms(2) by (metis option.exhaust prod_cases4)
  then have "port = 443 \<or> port = 8883"
    by (cases t) (auto simp: preset_broker_def DEFAULT_COMMUNITY_BROKER_PORT_def DEFAULT_MESHRANK_BROKER_PORT_def)
  then show ?thesis using preset_kept [OF assms(1) b] by (auto simp: check_port_def config_get_def)
qed

end
