(* ===== verification/Fanout_Section.thy ===== *)
theory Fanout_Section
  imports Fanout_Config Sidebar
begin

text \<open>
  The integrations section of \<^verbatim>\<open>components/settings/SettingsFanoutSection.tsx\<close>: the list, the editor of an integration or of a
  draft, the dialog for new ones and the handlers behind them.

  A handler that waits for the server is two functions, the part before the request and the part after its answer,
  so that whatever the user does in between comes between them. A configuration is compared as \<^verbatim>\<open>JSON.stringify\<close>
  writes it, the order of its fields included, that is as the list it is.
\<close>

section \<open>State\<close>

record fanout_section =
  fs_configs :: "fanout_config list"
  fs_editingId :: "string option"
  fs_draftType :: "draft_type option"
  fs_editConfig :: config
  fs_editScope :: scope
  fs_editName :: string
  fs_inlineEditingId :: "string option"
  fs_inlineEditName :: string
  fs_createDialogOpen :: bool
  fs_selectedCreateType :: "draft_type option"
  fs_errorDialog :: "(string \<times> string) option"
  fs_busy :: bool

definition section_init :: fanout_section where
  "section_init = \<lparr> fs_configs = [], fs_editingId = None, fs_draftType = None, fs_editConfig = [], fs_editScope = [], fs_editName = [],
     fs_inlineEditingId = None, fs_inlineEditName = [], fs_createDialogOpen = False, fs_selectedCreateType = None,
     fs_errorDialog = None, fs_busy = False \<rparr>"

definition config_of :: "string \<Rightarrow> fanout_section \<Rightarrow> fanout_config option" where
  "config_of i s = find (\<lambda>c. fc_id c = i) (fs_configs s)"

definition editingConfig :: "fanout_section \<Rightarrow> fanout_config option" where
  "editingConfig s = (case fs_editingId s of Some i \<Rightarrow> if i = [] then None else config_of i s | None \<Rightarrow> None)"

definition detailType :: "fanout_section \<Rightarrow> string option" where
  "detailType s =
     (case fs_draftType s of Some t \<Rightarrow> Some (draft_value t) | None \<Rightarrow> map_option fc_type (editingConfig s))"

section \<open>The list\<close>

definition configGroups :: "(string \<Rightarrow> string \<Rightarrow> int) \<Rightarrow> fanout_section \<Rightarrow> (string \<times> string \<times> fanout_config list) list" where
  "configGroups localeCompare s =
     filter (\<lambda>(type, label, configs). configs \<noteq> [])
       (map (\<lambda>(type, label). (type, label,
               js_sort (\<lambda>a b. localeCompare (fc_name a) (fc_name b)) (filter (\<lambda>cfg. fc_type cfg = type) (fs_configs s))))
          TYPE_LABELS)"

definition status_text :: "(string, string) jsmap \<Rightarrow> fanout_config \<Rightarrow> string" where
  "status_text statuses cfg =
     (if fc_enabled cfg then getStatusLabel (jm_get statuses (fc_id cfg)) (Some (fc_type cfg)) else ''Disabled'')"

definition loadConfigs :: "fanout_config list option \<Rightarrow> fanout_section \<Rightarrow> fanout_section" where
  "loadConfigs answer s = (case answer of Some configs \<Rightarrow> s\<lparr> fs_configs := configs \<rparr> | None \<Rightarrow> s)"

section \<open>New integrations\<close>

definition availableCreateOptions :: "string \<Rightarrow> bool \<Rightarrow> integration_definition list" where
  "availableCreateOptions bot_code bots_disabled =
     filter (\<lambda>d. id_savedType d \<noteq> ''bot'' \<or> \<not> bots_disabled) (CREATE_INTEGRATION_DEFINITIONS bot_code)"

definition create_effect :: "integration_definition list \<Rightarrow> fanout_section \<Rightarrow> fanout_section" where
  "create_effect available s =
     (if \<not> fs_createDialogOpen s then s
      else case available of
             [] \<Rightarrow> s\<lparr> fs_selectedCreateType := None \<rparr>
           | first # _ \<Rightarrow>
               if \<exists>t. fs_selectedCreateType s = Some t \<and> list_ex (\<lambda>d. id_value d = t) available then s
               else s\<lparr> fs_selectedCreateType := Some (id_value first) \<rparr>)"

definition selectedOption :: "integration_definition list \<Rightarrow> fanout_section \<Rightarrow> integration_definition option" where
  "selectedOption options s =
     (case find (\<lambda>d. Some (id_value d) = fs_selectedCreateType s) options of
        Some d \<Rightarrow> Some d
      | None \<Rightarrow> (case options of [] \<Rightarrow> None | d # _ \<Rightarrow> Some d))"

definition sectionedOptions :: "integration_definition list \<Rightarrow> (string \<times> integration_definition list) list" where
  "sectionedOptions options =
     filter (\<lambda>g. snd g \<noteq> [])
       (map (\<lambda>sec. (sec, filter (\<lambda>d. id_section d = sec) options)) (rev (remdups (rev (map id_section options)))))"

definition handleAddCreate :: "string \<Rightarrow> draft_type \<Rightarrow> fanout_section \<Rightarrow> fanout_section" where
  "handleAddCreate bot_code type s =
     (let d = getCreateIntegrationDefinition bot_code type in
      s\<lparr> fs_createDialogOpen := False, fs_editingId := None, fs_draftType := Some type,
         fs_editName := (if id_nameMode d = Name_fixed then id_defaultName d else getDefaultIntegrationName (id_savedType d) (fs_configs s)),
         fs_editConfig := id_config d, fs_editScope := id_scope d \<rparr>)"

definition create_pressed :: "string \<Rightarrow> fanout_section \<Rightarrow> fanout_section" where
  "create_pressed bot_code s = (case fs_selectedCreateType s of Some t \<Rightarrow> handleAddCreate bot_code t s | None \<Rightarrow> s)"

section \<open>Editing\<close>

definition handleEdit :: "fanout_config \<Rightarrow> fanout_section \<Rightarrow> fanout_section" where
  "handleEdit cfg s =
     s\<lparr> fs_createDialogOpen := False, fs_inlineEditingId := None, fs_inlineEditName := [], fs_draftType := None,
        fs_editingId := Some (fc_id cfg), fs_editConfig := fc_config cfg, fs_editScope := fc_scope cfg, fs_editName := fc_name cfg \<rparr>"

definition handleStartInlineEdit :: "fanout_config \<Rightarrow> fanout_section \<Rightarrow> fanout_section" where
  "handleStartInlineEdit cfg s =
     s\<lparr> fs_createDialogOpen := False, fs_inlineEditingId := Some (fc_id cfg), fs_inlineEditName := fc_name cfg \<rparr>"

definition handleCancelInlineEdit :: "fanout_section \<Rightarrow> fanout_section" where
  "handleCancelInlineEdit s = s\<lparr> fs_inlineEditingId := None, fs_inlineEditName := [] \<rparr>"

definition fanoutDraftHasUnsavedChanges :: "fanout_config option \<Rightarrow> string \<Rightarrow> config \<Rightarrow> scope \<Rightarrow> bool" where
  "fanoutDraftHasUnsavedChanges original name c scope =
     (case original of
        None \<Rightarrow> False
      | Some cfg \<Rightarrow> name \<noteq> fc_name cfg \<or> c \<noteq> fc_config cfg \<or> scope \<noteq> fc_scope cfg)"

definition shouldConfirm :: "fanout_section \<Rightarrow> bool" where
  "shouldConfirm s \<longleftrightarrow>
     fs_draftType s \<noteq> None \<or> fanoutDraftHasUnsavedChanges (editingConfig s) (fs_editName s) (fs_editConfig s) (fs_editScope s)"

definition handleBackToList :: "bool \<Rightarrow> fanout_section \<Rightarrow> fanout_section" where
  "handleBackToList confirmed s =
     (if shouldConfirm s \<and> \<not> confirmed then s else s\<lparr> fs_editingId := None, fs_draftType := None \<rparr>)"

section \<open>Requests\<close>

datatype fanout_request =
    Create_fanout string string config scope bool
  | Update_fanout string "string option" "config option" "scope option" "bool option"
  | Delete_fanout string

datatype fanout_toast = Toast_ok string | Toast_error string

definition toggle_request :: "fanout_config \<Rightarrow> fanout_request" where
  "toggle_request cfg = Update_fanout (fc_id cfg) None None None (Some (\<not> fc_enabled cfg))"

text \<open>The name edited in the list: what leaving the field does at once, with the request if there is one.\<close>

definition handleInlineNameSave :: "fanout_config \<Rightarrow> fanout_section \<Rightarrow> fanout_request option \<times> fanout_toast list \<times> fanout_section" where
  "handleInlineNameSave cfg s =
     (let nextName = trim (fs_inlineEditName s) in
      if fs_inlineEditingId s \<noteq> Some (fc_id cfg) then (None, [], s)
      else if nextName = [] then (None, [Toast_error ''Name cannot be empty''], handleCancelInlineEdit s)
      else if nextName = fc_name cfg then (None, [], handleCancelInlineEdit s)
      else (Some (Update_fanout (fc_id cfg) (Some nextName) None None None), [], s))"

text \<open>After the answer; \<open>captured\<close> is the integration that was open in the editor when the name was saved.\<close>

definition inline_saved :: "string option \<Rightarrow> fanout_config \<Rightarrow> string \<Rightarrow> fanout_config list option \<Rightarrow> fanout_section \<Rightarrow> fanout_section" where
  "inline_saved captured cfg nextName answer s =
     (let s = (if captured = Some (fc_id cfg) then s\<lparr> fs_editName := nextName \<rparr> else s)
      in handleCancelInlineEdit (loadConfigs answer s))"

text \<open>\<^verbatim>\<open>handleSave\<close> up to its request: nothing, a message, or the request. The editor is busy in the last two cases.\<close>

definition save_request :: "(real \<Rightarrow> string) \<Rightarrow> bool option \<Rightarrow> fanout_section \<Rightarrow> (string + fanout_request) option" where
  "save_request num enabled s =
     (case fs_draftType s of
        Some t \<Rightarrow>
          Some (case normalizeDraftConfig num t (fs_editConfig s) of
                  Inl e \<Rightarrow> Inl e
                | Inr c \<Rightarrow> Inr (Create_fanout (saved_type t) (normalizeDraftName t (trim (fs_editName s)) (fs_configs s)) c
                            (normalizeDraftScope t (fs_editScope s)) (coalesce enabled True)))
      | None \<Rightarrow>
          (case fs_editingId s of
             Some i \<Rightarrow>
               if i = [] then None
               else (let editingType = (case config_of i s of Some cfg \<Rightarrow> fc_type cfg | None \<Rightarrow> [])
                     in Some (Inr (Update_fanout i (Some (fs_editName s))
                          (Some (normalizeIntegrationConfigForSave num editingType (fs_editConfig s))) (Some (fs_editScope s)) enabled)))
           | None \<Rightarrow> None))"

definition save_started :: "fanout_section \<Rightarrow> fanout_section" where
  "save_started s = s\<lparr> fs_busy := True \<rparr>"

definition save_accepted :: "fanout_section \<Rightarrow> fanout_section" where
  "save_accepted s = s\<lparr> fs_draftType := None, fs_editingId := None \<rparr>"

definition save_toast :: "bool option \<Rightarrow> string option \<Rightarrow> fanout_toast" where
  "save_toast enabled failure =
     (case failure of
        Some e \<Rightarrow> Toast_error e
      | None \<Rightarrow> Toast_ok (if enabled = Some True then ''Integration saved and enabled'' else ''Integration saved''))"

definition save_ended :: "fanout_section \<Rightarrow> fanout_section" where
  "save_ended s = s\<lparr> fs_busy := False \<rparr>"

text \<open>Deleting, once confirmed; \<open>captured\<close> as before.\<close>

definition delete_accepted :: "string option \<Rightarrow> string \<Rightarrow> fanout_section \<Rightarrow> fanout_section" where
  "delete_accepted captured i s = (if captured = Some i then s\<lparr> fs_editingId := None \<rparr> else s)"

section \<open>Runs of the section\<close>

text \<open>Any sequence of what the user does and what the server answers. A save is answered only while one is under way.\<close>

inductive section_run :: "fanout_section \<Rightarrow> bool" where
  run_init: "section_run section_init"
| run_load: "section_run s \<Longrightarrow> section_run (loadConfigs answer s)"
| run_open_dialog: "section_run s \<Longrightarrow> section_run (create_effect available (s\<lparr> fs_createDialogOpen := b \<rparr>))"
| run_select: "section_run s \<Longrightarrow> section_run (s\<lparr> fs_selectedCreateType := Some t \<rparr>)"
| run_create: "section_run s \<Longrightarrow> section_run (create_pressed bot_code s)"
| run_edit: "section_run s \<Longrightarrow> cfg \<in> set (fs_configs s) \<Longrightarrow> section_run (handleEdit cfg s)"
| run_type: "section_run s \<Longrightarrow> section_run (s\<lparr> fs_editName := name, fs_editConfig := c, fs_editScope := scope \<rparr>)"
| run_inline: "section_run s \<Longrightarrow> section_run (handleStartInlineEdit cfg s)"
| run_inline_type: "section_run s \<Longrightarrow> section_run (s\<lparr> fs_inlineEditName := name \<rparr>)"
| run_inline_cancel: "section_run s \<Longrightarrow> section_run (handleCancelInlineEdit s)"
| run_inline_save: "section_run s \<Longrightarrow> section_run (snd (snd (handleInlineNameSave cfg s)))"
| run_inline_saved: "section_run s \<Longrightarrow> section_run (inline_saved captured cfg name answer s)"
| run_back: "section_run s \<Longrightarrow> section_run (handleBackToList confirmed s)"
| run_save: "section_run s \<Longrightarrow> save_request num enabled s \<noteq> None \<Longrightarrow> section_run (save_started s)"
| run_save_accepted: "section_run s \<Longrightarrow> fs_busy s \<Longrightarrow> section_run (save_accepted s)"
| run_save_ended: "section_run s \<Longrightarrow> fs_busy s \<Longrightarrow> section_run (save_ended s)"
| run_delete: "section_run s \<Longrightarrow> section_run (delete_accepted captured i s)"
| run_error: "section_run s \<Longrightarrow> section_run (s\<lparr> fs_errorDialog := e \<rparr>)"

lemmas section_defs = section_init_def loadConfigs_def create_effect_def create_pressed_def handleAddCreate_def handleEdit_def
  handleStartInlineEdit_def handleCancelInlineEdit_def handleInlineNameSave_def inline_saved_def handleBackToList_def
  save_started_def save_accepted_def save_ended_def delete_accepted_def

text \<open>The editor never holds a draft and an existing integration at once, so a save creates or updates but never is ambiguous.\<close>

lemma one_editor: "section_run s \<Longrightarrow> fs_draftType s = None \<or> fs_editingId s = None"
  by (induction rule: section_run.induct)
    (auto simp: section_defs Let_def split: option.splits list.splits if_splits)

text \<open>Opening an integration and leaving it asks nothing; what was typed is not left without asking.\<close>

lemma edit_back_no_question:
  assumes "config_of (fc_id cfg) s = Some cfg"
  shows "\<not> shouldConfirm (handleEdit cfg s)"
  using assms by (simp add: shouldConfirm_def handleEdit_def editingConfig_def config_of_def fanoutDraftHasUnsavedChanges_def)

lemma field_typed_and_restored: "jm_get c field = Some v \<Longrightarrow> jm_set field v (jm_set field w c) = c"
  by (induction c) (auto simp: update_triv)

text \<open>A save that is answered late closes whatever editor is open by then, without asking.\<close>

lemma late_save_closes_editor:
  assumes "config_of (fc_id cfg) s = Some cfg" "fc_id cfg \<noteq> []" "name \<noteq> fc_name cfg"
  defines "s' \<equiv> (handleEdit cfg (handleBackToList True (save_started s)))\<lparr> fs_editName := name \<rparr>"
  shows "shouldConfirm s' \<and> fs_busy s' \<and> detailType (save_accepted s') = None"
  using assms by (simp add: shouldConfirm_def section_defs editingConfig_def config_of_def fanoutDraftHasUnsavedChanges_def detailType_def)

section \<open>Saving again\<close>

text \<open>The list as the server answers it after an update it accepted as it was sent: the integration, of the same type, with the
  name, configuration and scope of the request.\<close>

definition stored :: "string \<Rightarrow> fanout_request \<Rightarrow> fanout_config \<Rightarrow> bool" where
  "stored type request cfg \<longleftrightarrow>
     (\<exists>enabled. request = Update_fanout (fc_id cfg) (Some (fc_name cfg)) (Some (fc_config cfg)) (Some (fc_scope cfg)) enabled) \<and>
     fc_type cfg = type"

lemma resave_same:
  fixes s t :: fanout_section
  assumes saved: "fs_draftType s = None" "fs_editingId s = Some (fc_id cfg)" "editingConfig s = Some old" "fc_type old \<noteq> ''map_upload''"
    "save_request num enabled s = Some (Inr request)"
    and answered: "stored (fc_type old) request cfg" "config_of (fc_id cfg) t = Some cfg"
  shows "save_request num enabled (handleEdit cfg t) = Some (Inr request) \<and> \<not> shouldConfirm (handleEdit cfg t)"
proof -
  have i: "fc_id cfg \<noteq> []" and old: "config_of (fc_id cfg) s = Some old"
    using saved by (auto simp: editingConfig_def split: if_splits)
  have req: "request = Update_fanout (fc_id cfg) (Some (fs_editName s))
      (Some (normalizeIntegrationConfigForSave num (fc_type old) (fs_editConfig s))) (Some (fs_editScope s)) enabled"
    using saved old i by (simp add: save_request_def)
  then have cfg: "fc_name cfg = fs_editName s" "fc_scope cfg = fs_editScope s" "fc_type cfg = fc_type old"
    "fc_config cfg = normalizeIntegrationConfigForSave num (fc_type old) (fs_editConfig s)"
    using answered(1) by (auto simp: stored_def)
  have "config_of (fc_id cfg) (handleEdit cfg t) = Some cfg"
    using answered(2) by (simp add: config_of_def handleEdit_def)
  then have "save_request num enabled (handleEdit cfg t) = Some (Inr request)"
    using i req cfg saved_again [of "fc_type old" num "fs_editConfig s"] saved(4)
    by (simp add: save_request_def) (simp add: handleEdit_def)
  then show ?thesis using edit_back_no_question [OF answered(2)] by simp
qed

end
