(* ===== verification/Search_View.thy ===== *)
theory Search_View
  imports Message_Text Unread_Counts
begin

text \<open>
  The search over all messages (\<^verbatim>\<open>components/SearchView.tsx\<close>) and the list of mentions (\<^verbatim>\<open>components/MentionsView.tsx\<close>): the
  debounced query, its requests page by page with their abort controllers, the results, and what of a result is highlighted.

  A request is known by a number in place of its controller. An aborted request is rejected, which is what \<^verbatim>\<open>fetch\<close>
  does; its promise still runs \<^verbatim>\<open>finally\<close>. An effect whose dependencies changed is run with its cleanup in the function that changes them.
\<close>

section \<open>Operators and highlighting\<close>

definition not_line_end :: "char \<Rightarrow> bool" where
  "not_line_end c \<longleftrightarrow> of_char c \<notin> {10, 13 :: nat}"

text \<open>A literal without case.\<close>

definition RLitI :: "string \<Rightarrow> regex" where
  "RLitI s = foldr (\<lambda>c r. RSeq (RSet (\<lambda>d. upper_char d = upper_char c)) r) (butlast s) (RSet (\<lambda>d. upper_char d = upper_char (last s)))"

text \<open>\<^verbatim>\<open>/(?<!\S)(user|channel):(?:"((?:[^"\\]|\\.)*)"|(\S+))/gi\<close>; what is looked behind is in \<open>operator_exec\<close>.\<close>

definition OPERATOR_PATTERN :: regex where
  "OPERATOR_PATTERN =
     RSeq (RAlt (RLitI ''user'') (RLitI ''channel''))
       (RSeq (RSet (\<lambda>c. c = CHR '':''))
         (RAlt
           (RSeq (RSet (\<lambda>c. c = CHR 0x22))
             (RSeq (RStar (RAlt (RSet (\<lambda>c. c \<noteq> CHR 0x22 \<and> c \<noteq> CHR 0x5C)) (RSeq (RSet (\<lambda>c. c = CHR 0x5C)) (RSet not_line_end))))
               (RSet (\<lambda>c. c = CHR 0x22))))
           (RPlus (RSet (\<lambda>c. \<not> is_ws c)))))"

definition operator_exec :: "string \<Rightarrow> nat \<Rightarrow> (nat \<times> nat) option" where
  "operator_exec s i =
     map_option (\<lambda>a. (a, hd (rmatch s OPERATOR_PATTERN a)))
       (find (\<lambda>a. (a = 0 \<or> is_ws (s ! (a - 1))) \<and> rmatch s OPERATOR_PATTERN a \<noteq> []) [i..<Suc (length s)])"

text \<open>What of a query is highlighted: all of it, or what is between its operators.\<close>

definition getHighlightQuery :: "string \<Rightarrow> string option" where
  "getHighlightQuery query =
     map_option (\<lambda>pieces.
       if \<forall>p \<in> set pieces. isl p then query
       else join '' '' (filter (\<lambda>f. f \<noteq> []) (map (case_sum trim (\<lambda>_. [])) pieces)))
       (cut_text operator_exec query 0)"

text \<open>\<^verbatim>\<open>text.split(regex)\<close> with the query as a group, and what is marked of it: \<open>Inr\<close>. Empty pieces show nothing and are left out.\<close>

definition highlight_exec :: "string \<Rightarrow> string \<Rightarrow> nat \<Rightarrow> (nat \<times> nat) option" where
  "highlight_exec query = regex_exec (RLitI query)"

definition highlightMatch :: "string \<Rightarrow> string \<Rightarrow> (string + string) list option" where
  "highlightMatch text query =
     (if query = [] then Some [Inl text]
      else map_option (map (\<lambda>p. let segment = case_sum id id p in
             if highlight_exec query segment 0 \<noteq> None then Inr segment else Inl segment))
             (cut_text (highlight_exec query) text 0))"

section \<open>State\<close>

record search_result =
  sx_id :: int
  sx_type :: message_type
  sx_conversation_key :: string
  sx_text :: string
  sx_received_at :: nat
  sx_outgoing :: bool
  sx_sender_name :: "string option"

definition SEARCH_PAGE_SIZE :: nat where "SEARCH_PAGE_SIZE = 50"

record search_request =
  sq_token :: nat
  sq_query :: string
  sq_offset :: nat
  sq_more :: bool
  sq_aborted :: bool

record search_state =
  sv_query :: string
  sv_debounced :: string
  sv_results :: "search_result list"
  sv_loading :: bool
  sv_hasMore :: bool
  sv_offset :: nat
  sv_abortRef :: "nat option"
  sv_controller :: "nat option"
  sv_timer :: "string option"
  sv_requests :: "search_request list"
  sv_next :: nat

definition search_init :: search_state where
  "search_init = \<lparr> sv_query = [], sv_debounced = [], sv_results = [], sv_loading = False, sv_hasMore = False, sv_offset = 0,
     sv_abortRef = None, sv_controller = None, sv_timer = Some [], sv_requests = [], sv_next = 0 \<rparr>"

section \<open>Requests\<close>

text \<open>\<^verbatim>\<open>controller.abort()\<close>.\<close>

definition abort_request :: "nat option \<Rightarrow> search_state \<Rightarrow> search_state" where
  "abort_request t st =
     st\<lparr> sv_requests := map (\<lambda>r. if Some (sq_token r) = t then r\<lparr> sq_aborted := True \<rparr> else r) (sv_requests st) \<rparr>"

definition send_search :: "nat \<Rightarrow> bool \<Rightarrow> search_state \<Rightarrow> search_state" where
  "send_search offset load_more st =
     (let t = sv_next st; st1 = abort_request (sv_abortRef st) st in
      st1\<lparr> sv_abortRef := Some t, sv_next := t + 1, sv_loading := True,
           sv_requests := sv_requests st1 @ [\<lparr> sq_token = t, sq_query = sv_debounced st, sq_offset = offset, sq_more = load_more,
             sq_aborted = False \<rparr>] \<rparr>)"

section \<open>Effects\<close>

definition reset_effect :: "search_state \<Rightarrow> search_state" where
  "reset_effect st = st\<lparr> sv_results := [], sv_offset := 0, sv_hasMore := False \<rparr>"

definition fetch_cleanup :: "search_state \<Rightarrow> search_state" where
  "fetch_cleanup st = (abort_request (sv_controller st) st)\<lparr> sv_controller := None \<rparr>"

definition fetch_effect :: "search_state \<Rightarrow> search_state" where
  "fetch_effect st =
     (if sv_debounced st = [] then st\<lparr> sv_results := [], sv_hasMore := False \<rparr>
      else (let st1 = send_search 0 False st in st1\<lparr> sv_controller := sv_abortRef st1 \<rparr>))"

text \<open>After a change of the debounced query or of what is visible.\<close>

definition search_changed :: "search_state \<Rightarrow> search_state" where
  "search_changed st = fetch_effect (reset_effect (fetch_cleanup st))"

definition set_debounced :: "string \<Rightarrow> search_state \<Rightarrow> search_state" where
  "set_debounced v st = (if v = sv_debounced st then st else search_changed (st\<lparr> sv_debounced := v \<rparr>))"

text \<open>A changed query starts its timer anew.\<close>

definition type_search :: "string \<Rightarrow> search_state \<Rightarrow> search_state" where
  "type_search v st = (if v = sv_query st then st else st\<lparr> sv_query := v, sv_timer := Some (trim v) \<rparr>)"

definition timer_fired :: "search_state \<Rightarrow> search_state" where
  "timer_fired st = (case sv_timer st of None \<Rightarrow> st | Some v \<Rightarrow> set_debounced v (st\<lparr> sv_timer := None \<rparr>))"

definition prefill_effect :: "string \<Rightarrow> search_state \<Rightarrow> search_state" where
  "prefill_effect query st = (let nextQuery = trim query in set_debounced nextQuery (type_search nextQuery st))"

definition loadMore :: "search_state \<Rightarrow> search_state" where
  "loadMore st = (if sv_debounced st = [] \<or> sv_loading st then st else send_search (sv_offset st) True st)"

section \<open>Answers\<close>

definition append_unique :: "search_result list \<Rightarrow> search_result list \<Rightarrow> search_result list" where
  "append_unique prev data = prev @ filter (\<lambda>r. sx_id r \<notin> sx_id ` set prev) data"

definition settle_request :: "nat \<Rightarrow> search_state \<Rightarrow> search_state" where
  "settle_request t st = st\<lparr> sv_loading := False, sv_requests := filter (\<lambda>r. sq_token r \<noteq> t) (sv_requests st) \<rparr>"

definition search_answered :: "search_request \<Rightarrow> search_result list \<Rightarrow> search_state \<Rightarrow> search_state" where
  "search_answered r data st =
     settle_request (sq_token r)
       (if sq_more r
        then st\<lparr> sv_results := append_unique (sv_results st) data, sv_hasMore := SEARCH_PAGE_SIZE \<le> length data,
                 sv_offset := sv_offset st + length data \<rparr>
        else st\<lparr> sv_results := data, sv_hasMore := SEARCH_PAGE_SIZE \<le> length data, sv_offset := length data \<rparr>)"

definition search_failed :: "search_request \<Rightarrow> search_state \<Rightarrow> search_state" where
  "search_failed r st = settle_request (sq_token r) st"

section \<open>What is shown\<close>

definition conversation_name :: "channel list \<Rightarrow> contact list \<Rightarrow> message_type \<Rightarrow> string \<Rightarrow> string" where
  "conversation_name channels contacts type key =
     (case type of
        CHAN \<Rightarrow> or_else (map_option ch_name (find (\<lambda>c. to_upper (ch_key c) = to_upper key) channels)) (take 8 key)
      | PRIV \<Rightarrow> or_else (Option.bind (find (\<lambda>c. to_lower (ct_public_key c) = to_lower key) contacts) ct_name) (take 12 key))"

definition getConversationName :: "channel list \<Rightarrow> contact list \<Rightarrow> search_result \<Rightarrow> string" where
  "getConversationName channels contacts r = conversation_name channels contacts (sx_type r) (sx_conversation_key r)"

record navigate_target =
  nt_id :: int
  nt_type :: message_type
  nt_conversation_key :: string
  nt_conversation_name :: string

definition handleResultClick :: "channel list \<Rightarrow> contact list \<Rightarrow> search_result \<Rightarrow> navigate_target" where
  "handleResultClick channels contacts r =
     \<lparr> nt_id = sx_id r, nt_type = sx_type r, nt_conversation_key = sx_conversation_key r,
       nt_conversation_name = getConversationName channels contacts r \<rparr>"

text \<open>A text without the sender it starts with.\<close>

definition without_sender :: "string option \<Rightarrow> string \<Rightarrow> string" where
  "without_sender sender txt =
     (if truthy sender \<and> starts_with txt (the sender @ '': '') then drop (length (the sender) + 2) txt else txt)"

definition result_prefix :: "search_result \<Rightarrow> string" where
  "result_prefix r =
     (if truthy (sx_sender_name r) \<and> \<not> sx_outgoing r then the (sx_sender_name r) @ '': '' else []) @
     (if sx_outgoing r then ''You: '' else [])"

definition result_text :: "string \<Rightarrow> search_result \<Rightarrow> (string + string) list option" where
  "result_text debouncedQuery r =
     Option.bind (getHighlightQuery debouncedQuery) (highlightMatch (without_sender (sx_sender_name r) (sx_text r)))"

datatype search_note = Note_tips | Note_none_found string | Note_searching | Note_load_more

definition search_notes :: "search_state \<Rightarrow> search_note list" where
  "search_notes st =
     (if sv_debounced st = [] then [Note_tips] else []) @
     (if sv_debounced st \<noteq> [] \<and> sv_results st = [] \<and> \<not> sv_loading st then [Note_none_found (sv_debounced st)] else []) @
     (if sv_loading st then [Note_searching] else []) @
     (if sv_hasMore st \<and> \<not> sv_loading st then [Note_load_more] else [])"

section \<open>Every reachable state\<close>

text \<open>\<open>matches q r\<close> is what the server finds for a query; the answer to a request holds different messages that it finds.\<close>

inductive search_reachable :: "(string \<Rightarrow> search_result \<Rightarrow> bool) \<Rightarrow> search_state \<Rightarrow> bool" for matches where
  search_start: "search_reachable matches search_init"
| search_type: "search_reachable matches st \<Longrightarrow> search_reachable matches (type_search v st)"
| search_timer: "search_reachable matches st \<Longrightarrow> search_reachable matches (timer_fired st)"
| search_prefill: "search_reachable matches st \<Longrightarrow> search_reachable matches (prefill_effect q st)"
| search_visibility: "search_reachable matches st \<Longrightarrow> search_reachable matches (search_changed st)"
| search_more: "search_reachable matches st \<Longrightarrow> Note_load_more \<in> set (search_notes st) \<Longrightarrow> search_reachable matches (loadMore st)"
| search_answer: "search_reachable matches st \<Longrightarrow> r \<in> set (sv_requests st) \<Longrightarrow> \<not> sq_aborted r \<Longrightarrow>
    distinct (map sx_id data) \<Longrightarrow> (\<forall>x \<in> set data. matches (sq_query r) x) \<Longrightarrow> search_reachable matches (search_answered r data st)"
| search_fail: "search_reachable matches st \<Longrightarrow> r \<in> set (sv_requests st) \<Longrightarrow> search_reachable matches (search_failed r st)"

definition live_requests :: "search_state \<Rightarrow> search_request list" where
  "live_requests st = filter (\<lambda>r. \<not> sq_aborted r) (sv_requests st)"

definition requests_ok :: "search_state \<Rightarrow> bool" where
  "requests_ok st \<longleftrightarrow>
     (\<forall>r \<in> set (sv_requests st). sq_token r < sv_next st) \<and> distinct (map sq_token (sv_requests st)) \<and>
     (\<forall>r \<in> set (live_requests st). Some (sq_token r) = sv_abortRef st \<and> (sv_debounced st \<noteq> [] \<longrightarrow> sq_query r = sv_debounced st))"

definition search_inv :: "(string \<Rightarrow> search_result \<Rightarrow> bool) \<Rightarrow> search_state \<Rightarrow> bool" where
  "search_inv matches st \<longleftrightarrow> requests_ok st \<and> distinct (map sx_id (sv_results st)) \<and>
     (sv_debounced st \<noteq> [] \<longrightarrow> (\<forall>x \<in> set (sv_results st). matches (sv_debounced st) x))"

lemma abort_live: "set (live_requests (abort_request t st)) = {r \<in> set (live_requests st). Some (sq_token r) \<noteq> t}"
  by (auto simp: live_requests_def abort_request_def)

lemma abort_tokens [simp]: "map sq_token (sv_requests (abort_request t st)) = map sq_token (sv_requests st)"
  by (simp add: abort_request_def)

lemma abort_fields [simp]:
  "sv_query (abort_request t st) = sv_query st" "sv_debounced (abort_request t st) = sv_debounced st"
  "sv_results (abort_request t st) = sv_results st" "sv_next (abort_request t st) = sv_next st"
  "sv_abortRef (abort_request t st) = sv_abortRef st" "sv_loading (abort_request t st) = sv_loading st"
  "sv_offset (abort_request t st) = sv_offset st" "sv_hasMore (abort_request t st) = sv_hasMore st"
  by (simp_all add: abort_request_def)

lemma tokens_below_iff: "(\<forall>r \<in> set rs. sq_token r < n) \<longleftrightarrow> (\<forall>t \<in> set (map sq_token rs). t < n)"
  by simp

text \<open>A request that is sent leaves no other that is not aborted.\<close>

definition tokens_ok :: "search_state \<Rightarrow> bool" where
  "tokens_ok st \<longleftrightarrow> (\<forall>t \<in> set (map sq_token (sv_requests st)). t < sv_next st) \<and> distinct (map sq_token (sv_requests st)) \<and>
     (\<forall>r \<in> set (live_requests st). Some (sq_token r) = sv_abortRef st)"

lemma requests_ok_iff: "requests_ok st \<longleftrightarrow> tokens_ok st \<and> (sv_debounced st \<noteq> [] \<longrightarrow> (\<forall>r \<in> set (live_requests st). sq_query r = sv_debounced st))"
  by (auto simp: requests_ok_def tokens_ok_def)

lemma tokens_ok_abort: "tokens_ok st \<Longrightarrow> tokens_ok (abort_request t st)"
  unfolding tokens_ok_def abort_tokens abort_live by auto

lemma tokens_ok_fields [simp]:
  "tokens_ok (st\<lparr> sv_debounced := v \<rparr>) = tokens_ok st" "tokens_ok (st\<lparr> sv_results := rs \<rparr>) = tokens_ok st"
  "tokens_ok (st\<lparr> sv_offset := n \<rparr>) = tokens_ok st" "tokens_ok (st\<lparr> sv_hasMore := b \<rparr>) = tokens_ok st"
  "tokens_ok (st\<lparr> sv_controller := c \<rparr>) = tokens_ok st" "tokens_ok (st\<lparr> sv_timer := tm \<rparr>) = tokens_ok st"
  "tokens_ok (st\<lparr> sv_query := q \<rparr>) = tokens_ok st"
  by (simp_all add: tokens_ok_def live_requests_def)

lemma requests_ok_send:
  assumes "tokens_ok st"
  shows "requests_ok (send_search offset load_more st)"
proof -
  let ?st = "send_search offset load_more st"
  have "live_requests (abort_request (sv_abortRef st) st) = []"
    using assms abort_live [of "sv_abortRef st" st] by (auto simp: tokens_ok_def simp flip: set_empty)
  then have "live_requests ?st =
      [\<lparr> sq_token = sv_next st, sq_query = sv_debounced st, sq_offset = offset, sq_more = load_more, sq_aborted = False \<rparr>]"
    by (simp add: send_search_def Let_def live_requests_def)
  moreover have "map sq_token (sv_requests ?st) = map sq_token (sv_requests st) @ [sv_next st]"
    by (simp add: send_search_def Let_def del: map_map)
  moreover have "sv_abortRef ?st = Some (sv_next st)" "sv_next ?st = sv_next st + 1" "sv_debounced ?st = sv_debounced st"
    by (simp_all add: send_search_def Let_def)
  ultimately show ?thesis
    using assms unfolding requests_ok_def tokens_ok_def tokens_below_iff by (auto simp: less_SucI)
qed

lemma send_fields [simp]:
  "sv_results (send_search offset load_more st) = sv_results st" "sv_debounced (send_search offset load_more st) = sv_debounced st"
  by (simp_all add: send_search_def Let_def)

lemma settle_ok: "requests_ok st \<Longrightarrow> requests_ok (settle_request t st)"
  by (auto simp: requests_ok_def settle_request_def live_requests_def distinct_map intro: inj_on_subset)

lemma requests_ok_controller [simp]: "requests_ok (st\<lparr> sv_controller := c \<rparr>) = requests_ok st"
  by (simp add: requests_ok_def live_requests_def)

lemma search_inv_changed:
  assumes "tokens_ok st"
  shows "search_inv matches (search_changed st)"
proof -
  define st1 where "st1 = reset_effect (fetch_cleanup st)"
  have ok: "tokens_ok st1" and res: "sv_results st1 = []"
    using tokens_ok_abort [OF assms] by (simp_all add: st1_def reset_effect_def fetch_cleanup_def)
  show ?thesis
  proof (cases "sv_debounced st1 = []")
    case True
    then show ?thesis using ok by (simp add: search_changed_def fetch_effect_def search_inv_def requests_ok_iff flip: st1_def)
  next
    case False
    then show ?thesis using ok res
      by (simp add: search_changed_def fetch_effect_def search_inv_def requests_ok_send Let_def flip: st1_def)
  qed
qed

lemma search_inv_debounced: "search_inv matches st \<Longrightarrow> search_inv matches (set_debounced v st)"
  by (auto simp: set_debounced_def search_inv_changed search_inv_def [of _ st] requests_ok_iff)

lemma append_unique_ids: "distinct (map sx_id xs) \<Longrightarrow> distinct (map sx_id data) \<Longrightarrow> distinct (map sx_id (append_unique xs data))"
  by (auto simp: append_unique_def distinct_map_filter) (metis imageI)

lemma search_inv_answered:
  assumes "search_inv matches st" "r \<in> set (sv_requests st)" "\<not> sq_aborted r" "distinct (map sx_id data)" "\<forall>x \<in> set data. matches (sq_query r) x"
  shows "search_inv matches (search_answered r data st)"
proof -
  have q: "sv_debounced st \<noteq> [] \<Longrightarrow> sq_query r = sv_debounced st"
    using assms(1-3) by (auto simp: search_inv_def requests_ok_def live_requests_def)
  have ok: "requests_ok (settle_request (sq_token r) st)" using assms(1) by (simp add: search_inv_def settle_ok)
  have eq: "requests_ok (search_answered r data st) = requests_ok (settle_request (sq_token r) st)"
    by (simp add: search_answered_def requests_ok_def settle_request_def live_requests_def)
  show ?thesis
    using assms q ok unfolding search_inv_def eq
    by (auto simp: search_answered_def settle_request_def append_unique_ids) (auto simp: append_unique_def)
qed

lemma search_reachable_inv: "search_reachable matches st \<Longrightarrow> search_inv matches st"
proof (induction rule: search_reachable.induct)
  case search_start
  then show ?case by (simp add: search_inv_def requests_ok_def search_init_def live_requests_def)
next
  case (search_type st v)
  then show ?case by (simp add: type_search_def search_inv_def requests_ok_def live_requests_def)
next
  case (search_timer st)
  then have "search_inv matches (st\<lparr> sv_timer := None \<rparr>)" by (simp add: search_inv_def requests_ok_def live_requests_def)
  then show ?case using search_timer by (simp add: timer_fired_def search_inv_debounced split: option.split)
next
  case (search_prefill st q)
  then have "search_inv matches (type_search v st)" for v by (simp add: type_search_def search_inv_def requests_ok_def live_requests_def)
  then show ?case by (simp add: prefill_effect_def Let_def search_inv_debounced)
next
  case (search_visibility st)
  then have "tokens_ok st" by (simp add: search_inv_def requests_ok_iff)
  then show ?case by (rule search_inv_changed)
next
  case (search_more st)
  then show ?case by (simp add: loadMore_def search_inv_def requests_ok_send requests_ok_iff [of st])
next
  case (search_answer st r data)
  then show ?case by (simp add: search_inv_answered)
next
  case (search_fail st r)
  then show ?case by (simp add: search_failed_def search_inv_def settle_ok) (simp add: settle_request_def)
qed

text \<open>C30. Whatever was typed, prefilled, asked for and answered, and in whatever order the answers come, the results are different
  messages, and those under a query are messages the server finds for that query; at most one request can still answer.\<close>

theorem search_shows_its_query:
  assumes "search_reachable matches st"
  shows "distinct (map sx_id (sv_results st)) \<and> (sv_debounced st \<noteq> [] \<longrightarrow> (\<forall>x \<in> set (sv_results st). matches (sv_debounced st) x)) \<and>
    length (live_requests st) \<le> 1"
proof -
  have inv: "search_inv matches st" using assms by (rule search_reachable_inv)
  then have d: "distinct (map sq_token (live_requests st))" and one: "set (map sq_token (live_requests st)) \<subseteq> set_option (sv_abortRef st)"
    by (auto simp: search_inv_def requests_ok_iff tokens_ok_def live_requests_def distinct_map intro: inj_on_subset)
  have "card (set_option (sv_abortRef st)) \<le> 1" by (cases "sv_abortRef st") simp_all
  then have "length (live_requests st) \<le> 1"
    using card_mono [OF _ one] distinct_card [OF d] by simp
  with inv show ?thesis by (simp add: search_inv_def)
qed

text \<open>A search that is given up still ends the loading of the one that took its place: nothing is said to be found while it runs.\<close>

lemma overtaken_search_says_none:
  assumes "tokens_ok st" "sv_debounced st \<noteq> []" "\<not> sv_loading st" "v \<noteq> []" "v \<noteq> sv_debounced st"
  defines "r \<equiv> last (sv_requests (loadMore st))"
  defines "st' \<equiv> search_failed r (set_debounced v (loadMore st))"
  shows "Note_none_found v \<in> set (search_notes st') \<and> (\<exists>r' \<in> set (live_requests st'). sq_query r' = v)"
  using assms(2-5)
  by (auto simp: search_notes_def st'_def r_def search_failed_def settle_request_def set_debounced_def search_changed_def fetch_effect_def
      reset_effect_def fetch_cleanup_def Let_def loadMore_def send_search_def abort_request_def live_requests_def)

text \<open>A further page that is on its way when the query is cleared is not given up; its messages appear under the empty query.\<close>

lemma cleared_search_shows_results:
  assumes "sv_debounced st \<noteq> []" "\<not> sv_loading st" "sv_controller st \<noteq> Some (sv_next st)"
  defines "st' \<equiv> set_debounced [] (loadMore st)"
  shows "\<exists>r \<in> set (live_requests st'). sq_more r \<and> sv_results (search_answered r data st') = append_unique [] data
    \<and> sv_debounced (search_answered r data st') = []"
proof -
  let ?r = "\<lparr> sq_token = sv_next st, sq_query = sv_debounced st, sq_offset = sv_offset st, sq_more = True, sq_aborted = False \<rparr>"
  have "?r \<in> set (live_requests st')"
    using assms(1-3) by (simp add: st'_def set_debounced_def search_changed_def fetch_effect_def reset_effect_def fetch_cleanup_def
        loadMore_def send_search_def Let_def abort_request_def live_requests_def)
  moreover have "sv_results st' = []" "sv_debounced st' = []"
    using assms(1,2) by (simp_all add: st'_def set_debounced_def search_changed_def fetch_effect_def reset_effect_def fetch_cleanup_def
        loadMore_def send_search_def Let_def)
  ultimately show ?thesis by (intro bexI [of _ ?r]) (simp_all add: search_answered_def settle_request_def)
qed

section \<open>Paging while messages arrive\<close>

text \<open>The server's page of a list, newest first, and the rounds of asking for more: before each, messages may come in at the top.\<close>

definition page :: "nat \<Rightarrow> search_result list \<Rightarrow> search_result list" where
  "page offset found = take SEARCH_PAGE_SIZE (drop offset found)"

definition round_more :: "search_result list \<Rightarrow> search_state \<Rightarrow> search_state" where
  "round_more found st =
     (let st1 = loadMore st; r = last (sv_requests st1)
      in if st1 = st then st else search_answered r (page (sq_offset r) found) st1)"

fun search_rounds :: "search_result list list \<Rightarrow> search_result list \<Rightarrow> search_state \<Rightarrow> search_state" where
  "search_rounds [] found st = st"
| "search_rounds (arrived # later) found st = search_rounds later (arrived @ found) (round_more (arrived @ found) st)"

text \<open>The first \<open>c\<close> of the messages found at the start are shown, and the offset is not past them.\<close>

definition pages_inv :: "search_result list \<Rightarrow> search_result list \<Rightarrow> search_state \<Rightarrow> bool" where
  "pages_inv start found st \<longleftrightarrow>
     sv_debounced st \<noteq> [] \<and> \<not> sv_loading st \<and> distinct (map sx_id (sv_results st)) \<and> set (sv_results st) \<subseteq> set found \<and>
     (\<exists>arrived c. found = arrived @ start \<and> set (take c start) \<subseteq> set (sv_results st) \<and> sv_offset st \<le> c + length arrived \<and>
        (\<not> sv_hasMore st \<longrightarrow> length start \<le> c))"

lemma round_more_eq:
  assumes "sv_debounced st \<noteq> []" "\<not> sv_loading st"
  shows "sv_results (round_more found st) = append_unique (sv_results st) (page (sv_offset st) found) \<and>
    sv_offset (round_more found st) = sv_offset st + length (page (sv_offset st) found) \<and>
    sv_hasMore (round_more found st) = (SEARCH_PAGE_SIZE \<le> length (page (sv_offset st) found)) \<and>
    sv_debounced (round_more found st) = sv_debounced st \<and> \<not> sv_loading (round_more found st)"
proof -
  have "sv_next (loadMore st) = Suc (sv_next st)" using assms by (simp add: loadMore_def send_search_def Let_def)
  then have "loadMore st \<noteq> st" by auto
  then show ?thesis
    using assms by (simp add: round_more_def loadMore_def send_search_def Let_def search_answered_def settle_request_def)
qed

lemma set_append_unique:
  assumes "distinct (map sx_id found)" "set prev \<subseteq> set found" "set data \<subseteq> set found"
  shows "set (append_unique prev data) = set prev \<union> set data"
proof -
  have "x \<in> set prev" if "x \<in> set data" "sx_id x \<in> sx_id ` set prev" for x
    using that assms by (metis (no_types, lifting) distinct_map imageE inj_onD subsetD)
  then show ?thesis by (auto simp: append_unique_def)
qed

text \<open>The page behind the offset takes the covered part further, as far as it reaches.\<close>

lemma take_page:
  assumes "offset \<le> c + length arrived"
  shows "\<exists>c'. set (take c' start) \<subseteq> set (take c start) \<union> set (page offset (arrived @ start)) \<and>
    offset + length (page offset (arrived @ start)) \<le> c' + length arrived \<and> c \<le> c' \<and>
    (length (page offset (arrived @ start)) < SEARCH_PAGE_SIZE \<longrightarrow> length start \<le> c')"
proof -
  let ?p = "page offset (arrived @ start)" and ?c = "offset + SEARCH_PAGE_SIZE - length arrived"
  have p: "?p = take SEARCH_PAGE_SIZE (drop offset arrived) @ take (SEARCH_PAGE_SIZE - (length arrived - offset)) (drop (offset - length arrived) start)"
    by (simp add: page_def)
  have "set (take (max c ?c) start) \<subseteq> set (take c start) \<union> set ?p"
  proof (cases "c \<le> ?c")
    case True
    have "take ?c start = take (offset - length arrived) start @ take (?c - (offset - length arrived)) (drop (offset - length arrived) start)"
      by (metis add.commute diff_le_mono le_add1 le_add_diff_inverse take_add)
    moreover have "?c - (offset - length arrived) \<le> SEARCH_PAGE_SIZE - (length arrived - offset)" by simp
    moreover have "set (take (offset - length arrived) start) \<subseteq> set (take c start)" using assms by (intro set_take_subset_set_take) simp
    moreover have "set (take (?c - (offset - length arrived)) xs) \<subseteq> set (take (SEARCH_PAGE_SIZE - (length arrived - offset)) xs)" for xs :: "search_result list"
      by (intro set_take_subset_set_take) simp
    ultimately show ?thesis using True unfolding p by (auto simp: max_absorb2)
  qed (simp add: max_absorb1)
  moreover have "length ?p < SEARCH_PAGE_SIZE \<longrightarrow> length arrived + length start \<le> offset + SEARCH_PAGE_SIZE" by (auto simp: page_def)
  moreover have "offset + length ?p \<le> max c ?c + length arrived"
  proof -
    have "length ?p \<le> SEARCH_PAGE_SIZE" by (simp add: page_def)
    then show ?thesis using max.cobounded2 [of ?c c] by linarith
  qed
  moreover have "length arrived + length start \<le> offset + SEARCH_PAGE_SIZE \<longrightarrow> length start \<le> max c ?c" by auto
  ultimately show ?thesis by (intro exI [of _ "max c ?c"]) simp
qed

lemma pages_inv_round:
  assumes inv: "pages_inv start found st" and ids: "distinct (map sx_id (arrived @ found))"
  shows "pages_inv start (arrived @ found) (round_more (arrived @ found) st)"
proof -
  let ?st = "round_more (arrived @ found) st" and ?p = "page (sv_offset st) (arrived @ found)"
  obtain before c where found: "found = before @ start" and c: "set (take c start) \<subseteq> set (sv_results st)"
      "sv_offset st \<le> c + length before"
    using inv by (auto simp: pages_inv_def)
  have st: "sv_debounced st \<noteq> []" "\<not> sv_loading st" "distinct (map sx_id (sv_results st))" "set (sv_results st) \<subseteq> set found"
    using inv by (auto simp: pages_inv_def)
  note eq = round_more_eq [OF st(1,2), of "arrived @ found"]
  have p: "set ?p \<subseteq> set (arrived @ found)" "distinct (map sx_id ?p)"
    using ids unfolding page_def by (meson set_drop_subset set_take_subset order_trans) (metis distinct_drop distinct_take drop_map ids take_map)
  have res: "set (sv_results ?st) = set (sv_results st) \<union> set ?p"
    using eq set_append_unique [OF ids _ p(1), of "sv_results st"] st(4) by auto
  obtain c' where c': "set (take c' start) \<subseteq> set (take c start) \<union> set ?p" "sv_offset st + length ?p \<le> c' + length (arrived @ before)"
      "length ?p < SEARCH_PAGE_SIZE \<longrightarrow> length start \<le> c'"
    using take_page [of "sv_offset st" c "arrived @ before" start] c(2) by (auto simp: found)
  have "set (take c' start) \<subseteq> set (sv_results ?st)" using c'(1) c(1) res by auto
  moreover have "distinct (map sx_id (sv_results ?st))" using eq append_unique_ids [OF st(3) p(2)] by simp
  ultimately show ?thesis
    using eq res p(1) st c'(2,3) found unfolding pages_inv_def by (auto intro!: exI [of _ "arrived @ before"] exI [of _ c'])
qed

lemma pages_inv_rounds:
  "pages_inv start found st \<Longrightarrow> distinct (map sx_id (concat (rev news) @ found)) \<Longrightarrow>
   pages_inv start (concat (rev news) @ found) (search_rounds news found st)"
proof (induction news arbitrary: found st)
  case (Cons arrived later)
  have "distinct (map sx_id (arrived @ found))" "distinct (map sx_id (concat (rev later) @ arrived @ found))" using Cons.prems(2) by auto
  from Cons.IH [OF pages_inv_round [OF Cons.prems(1) this(1)] this(2)] show ?case by simp
qed simp

text \<open>The first answer to a search.\<close>

definition first_page :: "string \<Rightarrow> search_result list \<Rightarrow> search_state \<Rightarrow> search_state" where
  "first_page query found st = (let st1 = set_debounced query st in search_answered (last (sv_requests st1)) (page 0 found) st1)"

lemma pages_inv_first:
  assumes "query \<noteq> []" "query \<noteq> sv_debounced st" "distinct (map sx_id found)"
  shows "pages_inv found found (first_page query found st)"
proof -
  have "sv_results (first_page query found st) = page 0 found \<and> sv_offset (first_page query found st) = length (page 0 found) \<and>
      sv_hasMore (first_page query found st) = (SEARCH_PAGE_SIZE \<le> length (page 0 found)) \<and>
      sv_debounced (first_page query found st) = query \<and> \<not> sv_loading (first_page query found st)"
    using assms(1,2) by (simp add: first_page_def set_debounced_def search_changed_def fetch_effect_def reset_effect_def fetch_cleanup_def
        send_search_def Let_def search_answered_def settle_request_def)
  moreover have "distinct (map sx_id (page 0 found))" using assms(3) by (simp add: page_def flip: take_map)
  ultimately show ?thesis
    using assms(1) unfolding pages_inv_def
    by (auto intro!: exI [of _ "[]"] exI [of _ "SEARCH_PAGE_SIZE"] simp: page_def dest: in_set_takeD)
qed

lemma rounds_past_end:
  "sv_debounced st \<noteq> [] \<Longrightarrow> \<not> sv_loading st \<Longrightarrow> sv_offset st = length found \<Longrightarrow>
   \<not> sv_hasMore (search_rounds (replicate (Suc k) []) found st)"
proof (induction k arbitrary: st)
  case 0
  then show ?case using round_more_eq [OF 0(1,2), of found] by (simp add: page_def SEARCH_PAGE_SIZE_def)
next
  case (Suc k)
  have "page (length found) found = []" by (simp add: page_def)
  then have "\<not> sv_hasMore (search_rounds (replicate (Suc k) []) found (round_more found st))"
    using round_more_eq [OF Suc.prems(1,2), of found] Suc.prems by (intro Suc.IH) simp_all
  then show ?case by simp
qed

lemma rounds_bounded:
  "sv_debounced st \<noteq> [] \<Longrightarrow> \<not> sv_loading st \<Longrightarrow> sv_offset st \<le> length found \<Longrightarrow>
   sv_hasMore (search_rounds (replicate k []) found st) \<Longrightarrow> (k = 0 \<or> sv_offset st + SEARCH_PAGE_SIZE * k \<le> length found)"
proof (induction k arbitrary: st)
  case (Suc k)
  let ?st = "round_more found st"
  note eq = round_more_eq [OF Suc.prems(1,2), of found]
  have le: "sv_offset ?st \<le> length found" using eq Suc.prems(3) by (simp add: page_def)
  have more: "sv_hasMore (search_rounds (replicate k []) found ?st)" using Suc.prems(4) by simp
  have full: "length (page (sv_offset st) found) = SEARCH_PAGE_SIZE"
  proof (rule ccontr)
    assume "length (page (sv_offset st) found) \<noteq> SEARCH_PAGE_SIZE"
    then have "\<not> sv_hasMore ?st" "sv_offset ?st = length found" using eq Suc.prems(3) by (auto simp: page_def)
    then have "\<not> sv_hasMore (search_rounds (replicate k []) found ?st)"
      using rounds_past_end [of ?st found] eq Suc.prems(1) by (cases k) auto
    with more show False by simp
  qed
  then have "sv_offset ?st = sv_offset st + SEARCH_PAGE_SIZE" using eq by simp
  with Suc.IH [OF _ _ le more] eq Suc.prems(1) le show ?case by auto
qed simp



lemma search_shows_its_query_witness:
  "sv_debounced (timer_fired (type_search ''hi'' search_init)) = ''hi'' \<and> length (live_requests (timer_fired (type_search ''hi'' search_init))) \<le> 1"
proof -
  have "search_reachable (\<lambda>_ _. True) (timer_fired (type_search ''hi'' search_init))"
    by (intro search_timer search_type search_start)
  from search_shows_its_query [OF this] show ?thesis
    by (simp add: timer_fired_def type_search_def search_init_def trim_def is_ws_def set_debounced_def search_changed_def fetch_effect_def
        reset_effect_def fetch_cleanup_def send_search_def Let_def)
qed

section \<open>What is highlighted\<close>

lemma RLitI_simps: "RLitI [c] = RSet (\<lambda>d. upper_char d = upper_char c)"
  "q \<noteq> [] \<Longrightarrow> RLitI (c # q) = RSeq (RSet (\<lambda>d. upper_char d = upper_char c)) (RLitI q)"
  by (simp_all add: RLitI_def)

definition occurs_at :: "string \<Rightarrow> string \<Rightarrow> nat \<Rightarrow> bool" where
  "occurs_at query s a \<longleftrightarrow> to_upper (take (length query) (drop a s)) = to_upper query"

lemma rmatch_RLitI: "query \<noteq> [] \<Longrightarrow> rmatch s (RLitI query) a = (if occurs_at query s a then [a + length query] else [])"
proof (induction query arbitrary: a rule: list_nonempty_induct)
  case (single c)
  then show ?case by (cases "a < length s") (auto simp: RLitI_simps occurs_at_def to_upper_def take_Suc_conv_app_nth hd_drop_conv_nth take_Suc)
next
  case (cons c query)
  show ?case
  proof (cases "a < length s")
    case True
    then have "drop a s = s ! a # drop (Suc a) s" by (simp add: Cons_nth_drop_Suc)
    with cons True show ?thesis by (auto simp: RLitI_simps occurs_at_def to_upper_def)
  next
    case False
    with cons show ?thesis by (simp add: RLitI_simps occurs_at_def to_upper_def)
  qed
qed

interpretation highlights: searcher "highlight_exec query" for query
proof -
  have "consumes (RLitI query)" by (cases "butlast query") (simp_all add: RLitI_def)
  then show "searcher (highlight_exec query)" unfolding highlight_exec_def by (rule searcher_regex)
qed

lemma highlight_exec_None: "query \<noteq> [] \<Longrightarrow> highlight_exec query s i = None \<longleftrightarrow> (\<forall>a. i \<le> a \<and> a \<le> length s \<longrightarrow> \<not> occurs_at query s a)"
  by (auto simp: highlight_exec_def regex_exec_def rmatch_RLitI find_None_iff less_Suc_eq_le)

lemma highlight_exec_Some:
  assumes "query \<noteq> []" "highlight_exec query s i = Some (a, b)"
  shows "occurs_at query s a \<and> b = a + length query \<and> b \<le> length s \<and> (\<forall>k. i \<le> k \<and> k < a \<longrightarrow> \<not> occurs_at query s k)"
proof -
  obtain n where n: "n < length [i..<Suc (length s)]" "a = [i..<Suc (length s)] ! n" "rmatch s (RLitI query) a \<noteq> []"
      "\<forall>m < n. rmatch s (RLitI query) ([i..<Suc (length s)] ! m) = []" "b = hd (rmatch s (RLitI query) a)"
    using assms(2) by (auto simp: highlight_exec_def regex_exec_def find_Some_iff)
  then have a: "a = i + n" by (simp add: nth_upt del: upt_Suc)
  have "\<not> occurs_at query s k" if "i \<le> k" "k < a" for k
  proof -
    have "k - i < n" "[i..<Suc (length s)] ! (k - i) = k" using that a n(1) by (simp_all add: nth_upt del: upt_Suc)
    with n(4) have "rmatch s (RLitI query) k = []" by metis
    then show ?thesis by (simp add: rmatch_RLitI [OF assms(1)] split: if_splits)
  qed
  moreover have "occurs_at query s a" "b = a + length query" using n(3,5) by (simp_all add: rmatch_RLitI [OF assms(1)] split: if_splits)
  moreover have "b \<le> length s" using highlight_exec_def regex_exec_Some assms(2) by (metis)
  ultimately show ?thesis by blast
qed

text \<open>A gap between two matches has no match of its own.\<close>

lemma occurs_in_part:
  assumes "occurs_at query (substr s i a) k" "query \<noteq> []"
  shows "occurs_at query s (i + k) \<and> i + k < a"
proof -
  have "length (take (length query) (drop k (substr s i a))) = length query"
    using assms(1) by (metis length_to_upper occurs_at_def)
  then have "length query \<le> length (substr s i a) - k" by (simp add: min_def split: if_splits)
  then have le: "length query \<le> min (length s) a - i - k" by (simp add: substr_def)
  have "0 < length query" using assms(2) by simp
  with le have len: "i + k + length query \<le> a" by arith
  then have "take (length query) (drop k (substr s i a)) = take (length query) (drop (i + k) s)"
    by (simp add: substr_def drop_take add.commute)
  moreover have "i + k < a" using len \<open>0 < length query\<close> by linarith
  ultimately show ?thesis using assms(1) by (simp add: occurs_at_def)
qed

lemma cut_gaps:
  assumes "query \<noteq> []"
  shows "i \<le> length s \<Longrightarrow> cut_text (highlight_exec query) s i = Some pieces \<Longrightarrow> Inl x \<in> set pieces \<Longrightarrow> highlight_exec query x 0 = None"
proof (induction "length s - i" arbitrary: i pieces rule: less_induct)
  case less
  show ?case
  proof (cases "highlight_exec query s i")
    case None
    then have x: "x = substr s i (length s)" using less.prems by (auto simp: cut_text.simps substr_def split: if_splits)
    have "\<not> occurs_at query x k" for k
      using occurs_in_part [of query s i "length s" k] None assms by (auto simp: x highlight_exec_None)
    then show ?thesis using assms by (simp add: highlight_exec_None)
  next
    case (Some m)
    obtain a b where m: "m = (a, b)" by fastforce
    from highlights.progress [OF less.prems(1)] Some m have ab: "i \<le> a" "a < b" "b \<le> length s" by auto
    from less.prems(2) obtain rest where rest: "cut_text (highlight_exec query) s b = Some rest"
        "pieces = (if i < a then [Inl (substr s i a)] else []) @ Inr (substr s a b) # rest"
      by (subst (asm) cut_text.simps) (auto simp: Some m bind_eq_Some_conv)
    have gap: "highlight_exec query (substr s i a) 0 = None"
    proof -
      have "\<not> occurs_at query (substr s i a) k" for k
        using occurs_in_part [of query s i a k] highlight_exec_Some [OF assms Some [unfolded m]] assms by auto
      then show ?thesis using assms by (simp add: highlight_exec_None)
    qed
    have "length s - b < length s - i" using ab by simp
    from less.hyps [OF this ab(3) rest(1)] gap less.prems(3) rest(2) show ?thesis by (auto split: if_splits)
  qed
qed

text \<open>Highlighting loses nothing of a text; what it marks is the query up to case, and what it leaves unmarked does not
  contain it.\<close>

theorem highlight_marks_query:
  shows "\<exists>parts. highlightMatch content query = Some parts \<and> concat (map (case_sum id id) parts) = content \<and>
    (\<forall>x. Inr x \<in> set parts \<longrightarrow> query \<noteq> [] \<and> to_upper x = to_upper query) \<and>
    (\<forall>x. Inl x \<in> set parts \<longrightarrow> query = [] \<or> (\<forall>k \<le> length x. to_upper (take (length query) (drop k x)) \<noteq> to_upper query))"
proof (cases "query = []")
  case True
  then show ?thesis by (auto simp: highlightMatch_def)
next
  case False
  let ?mark = "\<lambda>p. let segment = case_sum id id p in if highlight_exec query segment 0 \<noteq> None then Inr segment else Inl segment"
  obtain pieces where pieces: "cut_text (highlight_exec query) content 0 = Some pieces" "concat (map (case_sum id id) pieces) = content"
    using highlights.cut_complete [of 0 content query] by auto
  have "highlightMatch content query = Some (map ?mark pieces)" using False pieces(1) by (simp add: highlightMatch_def)
  moreover have "case_sum id id (?mark p) = case_sum id id p" for p :: "string + string" by (simp add: Let_def)
  then have "concat (map (case_sum id id) (map ?mark pieces)) = content" using pieces(2) by (simp add: comp_def)
  moreover have "to_upper x = to_upper query" if marked: "Inr x \<in> set (map ?mark pieces)" for x
  proof -
    from marked obtain p where p: "p \<in> set pieces" "x = case_sum id id p" "highlight_exec query x 0 \<noteq> None"
      by (auto simp: Let_def split: if_splits)
    have "Inr x \<in> set pieces"
    proof (cases p)
      case (Inl y)
      then show ?thesis using p cut_gaps [OF False _ pieces(1), of y] by simp
    qed (use p in simp)
    then obtain j a b where m: "highlight_exec query content j = Some (a, b)" "x = substr content a b"
      using highlights.cut_matches [OF _ pieces(1)] by blast
    then show ?thesis using highlight_exec_Some [OF False m(1)] by (auto simp: occurs_at_def substr_def take_drop add.commute)
  qed
  moreover have "\<forall>k \<le> length x. to_upper (take (length query) (drop k x)) \<noteq> to_upper query" if "Inl x \<in> set (map ?mark pieces)" for x
    using that False by (auto simp: Let_def highlight_exec_None occurs_at_def split: if_splits)
  ultimately show ?thesis using False by blast
qed

text \<open>The operators of a query are found by a search that comes to an end.\<close>

interpretation operators: searcher operator_exec
proof
  fix i s a b
  assume "i \<le> length s" and m: "operator_exec s i = Some (a, b)"
  let ?P = "\<lambda>a. (a = 0 \<or> is_ws (s ! (a - 1))) \<and> rmatch s OPERATOR_PATTERN a \<noteq> []"
  from m have f: "find ?P [i..<Suc (length s)] = Some a" and b: "b = hd (rmatch s OPERATOR_PATTERN a)"
    by (auto simp only: operator_exec_def map_option_eq_Some prod.inject)
  from f obtain n where n: "n < length [i..<Suc (length s)]" "?P ([i..<Suc (length s)] ! n)" "a = [i..<Suc (length s)] ! n"
    unfolding find_Some_iff by blast
  then have a: "a \<in> set [i..<Suc (length s)]" by (simp only: nth_mem)
  from n(2) have ne: "rmatch s OPERATOR_PATTERN a \<noteq> []" unfolding n(3) by (rule conjunct2)
  have "b \<in> set (rmatch s OPERATOR_PATTERN a)" unfolding b by (rule hd_in_set [OF ne])
  moreover have "i \<le> a" "a \<le> length s" using a by auto
  moreover have "consumes OPERATOR_PATTERN" by (simp add: OPERATOR_PATTERN_def RLitI_def)
  ultimately show "i \<le> a \<and> a < b \<and> b \<le> length s" using rmatch_consumes [of OPERATOR_PATTERN b s a] rmatch_bounds [of b s OPERATOR_PATTERN a] by blast
qed

lemma highlight_query_exists: "\<exists>q. getHighlightQuery query = Some q"
  using operators.cut_complete [of 0 query] by (auto simp: getHighlightQuery_def)

section \<open>Mentions\<close>

record mention_request =
  mq_token :: nat
  mq_offset :: nat
  mq_aborted :: bool

record mentions_state =
  mv_results :: "message list"
  mv_loading :: bool
  mv_hasMore :: bool
  mv_abortRef :: "nat option"
  mv_requests :: "mention_request list"
  mv_next :: nat

definition MENTIONS_PAGE_SIZE :: nat where "MENTIONS_PAGE_SIZE = 50"

definition fetchPage :: "nat \<Rightarrow> mentions_state \<Rightarrow> mentions_state" where
  "fetchPage offset st =
     st\<lparr> mv_abortRef := Some (mv_next st), mv_next := mv_next st + 1, mv_loading := True,
         mv_requests := map (\<lambda>r. if Some (mq_token r) = mv_abortRef st then r\<lparr> mq_aborted := True \<rparr> else r) (mv_requests st) @
           [\<lparr> mq_token = mv_next st, mq_offset = offset, mq_aborted = False \<rparr>] \<rparr>"

definition mentions_init :: mentions_state where
  "mentions_init = fetchPage 0 \<lparr> mv_results = [], mv_loading = True, mv_hasMore = False, mv_abortRef = None, mv_requests = [], mv_next = 0 \<rparr>"

definition load_older :: "mentions_state \<Rightarrow> mentions_state" where
  "load_older st = fetchPage (length (mv_results st)) st"

definition settle_mention :: "mention_request \<Rightarrow> mentions_state \<Rightarrow> mentions_state" where
  "settle_mention r st =
     st\<lparr> mv_loading := (if mv_abortRef st = Some (mq_token r) then False else mv_loading st),
         mv_requests := filter (\<lambda>r'. mq_token r' \<noteq> mq_token r) (mv_requests st) \<rparr>"

definition mention_answered :: "mention_request \<Rightarrow> message list \<Rightarrow> mentions_state \<Rightarrow> mentions_state" where
  "mention_answered r data st =
     settle_mention r (st\<lparr> mv_results := (if mq_offset r = 0 then data
         else mv_results st @ filter (\<lambda>m. m_id m \<notin> m_id ` set (mv_results st)) data),
       mv_hasMore := MENTIONS_PAGE_SIZE \<le> length data \<rparr>)"

definition isUnread :: "(string, bool) jsmap \<Rightarrow> (string, int option) jsmap \<Rightarrow> message \<Rightarrow> bool" where
  "isUnread mentions lastReadAts msg =
     (let key = getStateKey (if m_type msg = CHAN then Tr_channel else Tr_contact) (m_conversation_key msg)
      in jm_get mentions key = Some True \<and> coalesce (coalesce (jm_get lastReadAts key) None) 0 < int (m_received_at msg))"

definition unreadCount :: "(string, bool) jsmap \<Rightarrow> (string, int option) jsmap \<Rightarrow> mentions_state \<Rightarrow> nat" where
  "unreadCount mentions lastReadAts st = length (filter (isUnread mentions lastReadAts) (mv_results st))"

definition open_mention :: "channel list \<Rightarrow> contact list \<Rightarrow> message \<Rightarrow> navigate_target" where
  "open_mention channels contacts msg =
     \<lparr> nt_id = m_id msg, nt_type = m_type msg, nt_conversation_key = m_conversation_key msg,
       nt_conversation_name = conversation_name channels contacts (m_type msg) (m_conversation_key msg) \<rparr>"

definition mention_heading :: "channel list \<Rightarrow> contact list \<Rightarrow> message \<Rightarrow> string \<times> string option" where
  "mention_heading channels contacts msg =
     (let name = conversation_name channels contacts (m_type msg) (m_conversation_key msg) in
      (or_else (m_sender_name msg) name, if truthy (m_sender_name msg) then Some (''in '' @ name) else None))"

definition mention_body :: "string option \<Rightarrow> message \<Rightarrow> part list list option" where
  "mention_body myName msg = render_lines (without_sender (m_sender_name msg) (m_text msg)) myName"

inductive mentions_reachable :: "mentions_state \<Rightarrow> bool" where
  mentions_start: "mentions_reachable mentions_init"
| mentions_refresh: "mentions_reachable st \<Longrightarrow> mentions_reachable (fetchPage 0 st)"
| mentions_older: "mentions_reachable st \<Longrightarrow> mv_hasMore st \<Longrightarrow> \<not> mv_loading st \<Longrightarrow> mentions_reachable (load_older st)"
| mentions_answer: "mentions_reachable st \<Longrightarrow> r \<in> set (mv_requests st) \<Longrightarrow> \<not> mq_aborted r \<Longrightarrow> distinct (map m_id data) \<Longrightarrow>
    mentions_reachable (mention_answered r data st)"
| mentions_fail: "mentions_reachable st \<Longrightarrow> r \<in> set (mv_requests st) \<Longrightarrow> mentions_reachable (settle_mention r st)"

definition mentions_inv :: "mentions_state \<Rightarrow> bool" where
  "mentions_inv st \<longleftrightarrow> (\<forall>r \<in> set (mv_requests st). mq_token r < mv_next st) \<and> distinct (map mq_token (mv_requests st)) \<and>
     (\<forall>r \<in> set (mv_requests st). \<not> mq_aborted r \<longleftrightarrow> Some (mq_token r) = mv_abortRef st) \<and>
     (mv_loading st \<longleftrightarrow> (\<exists>r \<in> set (mv_requests st). \<not> mq_aborted r)) \<and> distinct (map m_id (mv_results st))"

lemma aborted_token [simp]: "mq_token (if b then r\<lparr> mq_aborted := True \<rparr> else r) = mq_token r"
  by simp

lemma mentions_inv_fetch: "mentions_inv st \<Longrightarrow> mentions_inv (fetchPage offset st)"
  by (auto simp: mentions_inv_def fetchPage_def less_Suc_eq comp_def)

lemma mentions_inv_settle: "mentions_inv st \<Longrightarrow> r \<in> set (mv_requests st) \<Longrightarrow> mentions_inv (settle_mention r st)"
  by (auto simp: mentions_inv_def settle_mention_def distinct_map inj_on_def)

text \<open>The list of mentions says that it is loading exactly while a request of its is to be answered, unlike the search.\<close>

lemma mentions_loading_iff:
  assumes "mentions_reachable st"
  shows "(mv_loading st \<longleftrightarrow> (\<exists>r \<in> set (mv_requests st). \<not> mq_aborted r)) \<and> distinct (map m_id (mv_results st))"
proof -
  from assms have "mentions_inv st"
  proof (induction rule: mentions_reachable.induct)
    case mentions_start
    then show ?case by (simp add: mentions_init_def fetchPage_def mentions_inv_def)
  next
    case (mentions_answer st r data)
    have "distinct (map m_id (mv_results st @ filter (\<lambda>m. m_id m \<notin> m_id ` set (mv_results st)) data))"
      using mentions_answer by (auto simp: mentions_inv_def distinct_map_filter) (metis imageI)
    then have "mentions_inv (st\<lparr> mv_results := (if mq_offset r = 0 then data
         else mv_results st @ filter (\<lambda>m. m_id m \<notin> m_id ` set (mv_results st)) data), mv_hasMore := MENTIONS_PAGE_SIZE \<le> length data \<rparr>)"
      using mentions_answer by (simp add: mentions_inv_def)
    then show ?case using mentions_answer by (simp add: mention_answered_def mentions_inv_settle)
  qed (simp_all add: load_older_def mentions_inv_fetch mentions_inv_settle)
  then show ?thesis by (simp add: mentions_inv_def)
qed

end
