(* ===== verification/New_Conversation.thy ===== *)
theory New_Conversation
  imports Message_Input Message_Text
begin

text \<open>
  The dialog for new conversations (\<^verbatim>\<open>components/NewMessageModal.tsx\<close>): names of hashtag channels and their check, lists of
  names that are pasted, the form with its four tabs, and what is asked for when it is submitted.
\<close>

section \<open>Names of hashtag channels\<close>

text \<open>\<^verbatim>\<open>/^[a-zA-Z0-9]+(-[a-zA-Z0-9]+)*$/\<close>\<close>

definition RAlnum :: regex where
  "RAlnum = RSet ascii_alnum"

definition RDashed :: regex where
  "RDashed = RSeq (RSet (\<lambda>c. c = CHR ''-'')) (RPlus RAlnum)"

definition HASHTAG_NAME :: regex where
  "HASHTAG_NAME = RSeq (RPlus RAlnum) (RSeq (RStar RDashed) REnd)"

definition hashtag_test :: "string \<Rightarrow> bool" where
  "hashtag_test s \<longleftrightarrow> rmatch s HASHTAG_NAME 0 \<noteq> []"

definition validateHashtagName :: "string \<Rightarrow> bool \<Rightarrow> string option" where
  "validateHashtagName channelName permitExtended =
     (if channelName = [] then Some ''Channel name is required''
      else if 32 < byteLen (CHR ''#'' # channelName) then Some ''Channel name is too long (max 32 bytes including #)''
      else if permitExtended then None
      else if \<not> hashtag_test channelName then Some ''Use letters, numbers, and single dashes (no leading/trailing dashes)''
      else None)"

section \<open>Pasted lists\<close>

text \<open>\<^verbatim>\<open>split\<close> at every separator; the empty pieces between adjacent ones, which the pattern of the source does not make, are
  dropped with the others.\<close>

fun split_at_each :: "(char \<Rightarrow> bool) \<Rightarrow> string \<Rightarrow> string list" where
  "split_at_each p [] = [[]]"
| "split_at_each p (c # s) = (if p c then [] # split_at_each p s else (c # hd (split_at_each p s)) # tl (split_at_each p s))"

definition bulk_separator :: "bool \<Rightarrow> char \<Rightarrow> bool" where
  "bulk_separator permitExtended c \<longleftrightarrow> c = CHR '','' \<or> (if permitExtended then of_char c = (10 :: nat) else is_ws c)"

definition bulk_tokens :: "string \<Rightarrow> bool \<Rightarrow> string list" where
  "bulk_tokens rawText permitExtended =
     filter (\<lambda>t. t \<noteq> []) (map trim (split_at_each (bulk_separator permitExtended) rawText))"

record bulk_parse_result =
  bp_channelNames :: "string list"
  bp_invalidNames :: "string list"

definition bulk_step :: "bool \<Rightarrow> string \<Rightarrow> bulk_parse_result \<Rightarrow> bulk_parse_result" where
  "bulk_step permitExtended token r =
     (let stripped = dropWhile (\<lambda>c. c = CHR ''#'') token in
      if validateHashtagName stripped permitExtended \<noteq> None then r\<lparr> bp_invalidNames := bp_invalidNames r @ [token] \<rparr>
      else (let channelName = CHR ''#'' # (if permitExtended then stripped else to_lower stripped) in
            if channelName \<in> set (bp_channelNames r) then r else r\<lparr> bp_channelNames := bp_channelNames r @ [channelName] \<rparr>))"

definition parseBulkHashtagNames :: "string \<Rightarrow> bool \<Rightarrow> bulk_parse_result" where
  "parseBulkHashtagNames rawText permitExtended =
     fold (bulk_step permitExtended) (bulk_tokens rawText permitExtended) \<lparr> bp_channelNames = [], bp_invalidNames = [] \<rparr>"

section \<open>The form\<close>

datatype new_tab = Tab_new_contact | Tab_new_channel | Tab_hashtag | Tab_bulk_hashtag

record new_form =
  nf_tab :: new_tab
  nf_name :: string
  nf_contactType :: int
  nf_contactKey :: string
  nf_channelKey :: string
  nf_bulkChannelText :: string
  nf_tryHistorical :: bool
  nf_permitExtended :: bool
  nf_error :: string
  nf_loading :: bool
  nf_open :: bool

definition form_init :: new_form where
  "form_init = \<lparr> nf_tab = Tab_new_contact, nf_name = [], nf_contactType = 1, nf_contactKey = [], nf_channelKey = [],
     nf_bulkChannelText = [], nf_tryHistorical = False, nf_permitExtended = False, nf_error = [], nf_loading = False, nf_open = False \<rparr>"

definition resetForm :: "new_form \<Rightarrow> new_form" where
  "resetForm f = f\<lparr> nf_name := [], nf_contactType := 1, nf_contactKey := [], nf_channelKey := [], nf_bulkChannelText := [],
     nf_tryHistorical := False, nf_permitExtended := False, nf_error := [] \<rparr>"

text \<open>The effect of opening: prefilled with the name of a hashtag, on the tab for lists, or as the form was left.\<close>

definition cleared_for :: "new_tab \<Rightarrow> string \<Rightarrow> new_form \<Rightarrow> new_form" where
  "cleared_for tab name f = f\<lparr> nf_tab := tab, nf_name := name, nf_contactKey := [], nf_channelKey := [], nf_bulkChannelText := [],
     nf_tryHistorical := False, nf_permitExtended := False, nf_error := [], nf_loading := False \<rparr>"

definition form_opened :: "string option \<Rightarrow> bool \<Rightarrow> new_form \<Rightarrow> new_form" where
  "form_opened prefill showBulkAddChannelTab f =
     (case prefill of
        Some hashtagName \<Rightarrow> cleared_for Tab_hashtag hashtagName (f\<lparr> nf_open := True \<rparr>)
      | None \<Rightarrow> if showBulkAddChannelTab then cleared_for Tab_bulk_hashtag [] (f\<lparr> nf_open := True \<rparr>)
               else f\<lparr> nf_open := True, nf_tab := Tab_new_contact \<rparr>)"

definition form_closed :: "new_form \<Rightarrow> new_form" where
  "form_closed f = (resetForm f)\<lparr> nf_open := False \<rparr>"

definition select_tab :: "new_tab \<Rightarrow> new_form \<Rightarrow> new_form" where
  "select_tab tab f = resetForm (f\<lparr> nf_tab := tab \<rparr>)"

text \<open>A random key: two hexadecimal digits for each of sixteen bytes.\<close>

definition random_key :: "nat list \<Rightarrow> string" where
  "random_key bytes = concat (map (\<lambda>b. pad_start 2 (CHR ''0'') (show_base 16 b)) bytes)"

datatype create_call =
    Call_contact string string bool int
  | Call_channel string string bool
  | Call_hashtag string bool
  | Call_bulk "string list" bool

definition hashtag_call :: "new_form \<Rightarrow> string + create_call" where
  "hashtag_call f =
     (let channelName = trim (nf_name f) in
      case validateHashtagName channelName (nf_permitExtended f) of
        Some e \<Rightarrow> Inl e
      | None \<Rightarrow> Inr (Call_hashtag (CHR ''#'' # (if nf_permitExtended f then channelName else to_lower channelName)) (nf_tryHistorical f)))"

definition create_call_of :: "new_form \<Rightarrow> string + create_call" where
  "create_call_of f =
     (case nf_tab f of
        Tab_new_contact \<Rightarrow>
          if trim (nf_name f) = [] \<or> trim (nf_contactKey f) = [] then Inl ''Name and public key are required''
          else Inr (Call_contact (trim (nf_name f)) (trim (nf_contactKey f)) (nf_tryHistorical f) (nf_contactType f))
      | Tab_new_channel \<Rightarrow>
          if trim (nf_name f) = [] \<or> trim (nf_channelKey f) = [] then Inl ''Channel name and key are required''
          else Inr (Call_channel (trim (nf_name f)) (trim (nf_channelKey f)) (nf_tryHistorical f))
      | Tab_hashtag \<Rightarrow> hashtag_call f
      | Tab_bulk_hashtag \<Rightarrow>
          (let r = parseBulkHashtagNames (nf_bulkChannelText f) (nf_permitExtended f) in
           if bp_channelNames r = [] then Inl ''Enter at least one valid channel name''
           else if bp_invalidNames r \<noteq> [] then Inl (''Invalid channel names: '' @ join '', '' (bp_invalidNames r))
           else Inr (Call_bulk (bp_channelNames r) (nf_tryHistorical f))))"

text \<open>Submitting: the call that is made, if any, and the form that waits for its answer.\<close>

definition handleCreate :: "new_form \<Rightarrow> create_call option \<times> new_form" where
  "handleCreate f =
     (case create_call_of f of
        Inl e \<Rightarrow> (None, f\<lparr> nf_error := e, nf_loading := False \<rparr>)
      | Inr call \<Rightarrow> (Some call, f\<lparr> nf_error := [], nf_loading := True \<rparr>))"

definition create_answered :: "string option option \<Rightarrow> new_form \<Rightarrow> new_form" where
  "create_answered failure f =
     (case failure of
        None \<Rightarrow> (form_closed f)\<lparr> nf_loading := False \<rparr>
      | Some message \<Rightarrow> f\<lparr> nf_error := coalesce message ''Failed to create'', nf_loading := False \<rparr>)"

definition handleCreateAndAddAnother :: "new_form \<Rightarrow> create_call option \<times> new_form" where
  "handleCreateAndAddAnother f =
     (case hashtag_call f of
        Inl e \<Rightarrow> (None, f\<lparr> nf_error := e \<rparr>)
      | Inr call \<Rightarrow> (Some call, f\<lparr> nf_error := [], nf_loading := True \<rparr>))"

definition another_answered :: "string option option \<Rightarrow> new_form \<Rightarrow> new_form" where
  "another_answered failure f =
     (case failure of
        None \<Rightarrow> f\<lparr> nf_name := [], nf_loading := False \<rparr>
      | Some message \<Rightarrow> f\<lparr> nf_error := coalesce message ''Failed to create'', nf_loading := False \<rparr>)"

section \<open>Names, read once\<close>

text \<open>The pattern of a name as a scan: a letter or digit, and behind it the end, another one, or a dash in front of one.\<close>

fun name_scan :: "string \<Rightarrow> bool" where
  "name_scan [] = False"
| "name_scan [c] = ascii_alnum c"
| "name_scan (c # d # s) = (ascii_alnum c \<and> (name_scan (d # s) \<or> d = CHR ''-'' \<and> name_scan s))"

lemma dash_not_alnum [simp]: "\<not> ascii_alnum CHR ''-''"
  by (simp add: ascii_alnum_def word_char_def)

lemma star_turn:
  "i \<le> length s \<Longrightarrow> j \<in> set (rmatch s (RStar a) i) \<longleftrightarrow> j = i \<or> (\<exists>k. k \<in> set (rmatch s a i) \<and> i < k \<and> j \<in> set (rmatch s (RStar a) k))"
  unfolding RStar_def by (subst turns) auto

lemma plus_turn:
  "i \<le> length s \<Longrightarrow> j \<in> set (rmatch s (RPlus a) i) \<longleftrightarrow> (\<exists>k. k \<in> set (rmatch s a i) \<and> i < k \<and> j \<in> set (rmatch s (RStar a) k))"
  unfolding RStar_def RPlus_def by (subst turns) auto

lemma rmatch_alnum: "k \<in> set (rmatch s RAlnum i) \<longleftrightarrow> i < length s \<and> ascii_alnum (s ! i) \<and> k = Suc i"
  by (auto simp: RAlnum_def)

lemma rmatch_dashed:
  "i \<le> length s \<Longrightarrow> k \<in> set (rmatch s RDashed i) \<longleftrightarrow> i < length s \<and> s ! i = CHR ''-'' \<and> k \<in> set (rmatch s (RPlus RAlnum) (Suc i))"
  by (auto simp: RDashed_def)

definition ends_name :: "string \<Rightarrow> nat \<Rightarrow> bool" where
  "ends_name s i \<longleftrightarrow> (\<exists>j. j \<in> set (rmatch s (RPlus RAlnum) i) \<and> length s \<in> set (rmatch s (RStar RDashed) j))"

definition ends_run :: "string \<Rightarrow> nat \<Rightarrow> bool" where
  "ends_run s i \<longleftrightarrow> (\<exists>j. j \<in> set (rmatch s (RStar RAlnum) i) \<and> length s \<in> set (rmatch s (RStar RDashed) j))"

lemma ends_name_turn: "i \<le> length s \<Longrightarrow> ends_name s i \<longleftrightarrow> i < length s \<and> ascii_alnum (s ! i) \<and> ends_run s (Suc i)"
  unfolding ends_name_def ends_run_def by (auto simp: plus_turn rmatch_alnum)

lemma dashes_turn:
  assumes "i \<le> length s"
  shows "length s \<in> set (rmatch s (RStar RDashed) i) \<longleftrightarrow> i = length s \<or> (i < length s \<and> s ! i = CHR ''-'' \<and> ends_name s (Suc i))"
proof -
  have "i < k" if "k \<in> set (rmatch s (RPlus RAlnum) (Suc i))" "i < length s" for k
    using rmatch_bounds [OF that(1)] that(2) by auto
  then show ?thesis using assms by (subst star_turn) (auto simp: rmatch_dashed ends_name_def)
qed

lemma ends_run_turn:
  "i \<le> length s \<Longrightarrow> ends_run s i \<longleftrightarrow> i = length s \<or> (i < length s \<and> s ! i = CHR ''-'' \<and> ends_name s (Suc i)) \<or> ends_name s i"
proof -
  assume i: "i \<le> length s"
  have "ends_run s i \<longleftrightarrow> length s \<in> set (rmatch s (RStar RDashed) i) \<or> ends_name s i"
    unfolding ends_run_def ends_name_def using i by (auto simp: star_turn [of i s _ RAlnum] plus_turn [of i s _ RAlnum])
  with dashes_turn [OF i] show ?thesis by blast
qed

lemma ends_name_scan: "i \<le> length s \<Longrightarrow> ends_name s i \<longleftrightarrow> name_scan (drop i s)"
proof (induction "length s - i" arbitrary: i rule: less_induct)
  case less
  show ?case
  proof (cases "i < length s")
    case i: True
    then have d: "drop i s = s ! i # drop (Suc i) s" by (simp add: Cons_nth_drop_Suc)
    show ?thesis
    proof (cases "Suc i < length s")
      case True
      then have d2: "drop (Suc i) s = s ! Suc i # drop (Suc (Suc i)) s" by (simp add: Cons_nth_drop_Suc)
      have "length s - Suc i < length s - i" "length s - Suc (Suc i) < length s - i" using i by simp_all
      note IH = less.hyps [OF this(1)] less.hyps [OF this(2)]
      show ?thesis
        using IH True i by (auto simp: ends_name_turn [of i] ends_run_turn [of "Suc i"] d d2)
    next
      case False
      then have "Suc i = length s" using i by simp
      then show ?thesis using i by (simp add: ends_name_turn [of i] ends_run_turn [of "length s" s] d)
    qed
  qed (use less.prems in \<open>simp add: ends_name_turn\<close>)
qed

lemma hashtag_test_scan: "hashtag_test s \<longleftrightarrow> name_scan s"
proof -
  have "hashtag_test s \<longleftrightarrow> (\<exists>j. j \<in> set (rmatch s HASHTAG_NAME 0))" by (auto simp: hashtag_test_def ex_in_conv)
  also have "\<dots> \<longleftrightarrow> ends_name s 0" by (auto simp: HASHTAG_NAME_def ends_name_def split: if_splits)
  finally show ?thesis by (simp add: ends_name_scan)
qed

lemma name_scan_chars: "name_scan s \<Longrightarrow> s \<noteq> [] \<and> (\<forall>c \<in> set s. ascii_alnum c \<or> c = CHR ''-'')"
  by (induction s rule: name_scan.induct) auto

lemma alnum_codes: "ascii_alnum c \<longleftrightarrow> (let n = of_char c :: nat in (48 \<le> n \<and> n \<le> 57) \<or> (65 \<le> n \<and> n \<le> 90) \<or> (97 \<le> n \<and> n \<le> 122))"
proof -
  have "of_char c = (95 :: nat) \<longleftrightarrow> c = CHR ''_''"
    using inj_of_char [where 'a = nat, THEN inj_eq, of c "CHR ''_''"] by simp
  then show ?thesis by (auto simp: ascii_alnum_def word_char_def Let_def)
qed

lemma alnum_lower: "ascii_alnum c \<Longrightarrow> ascii_alnum (lower_char c)" and lower_dash [simp]: "lower_char CHR ''-'' = CHR ''-''"
  by (auto simp: alnum_codes lower_char_def Let_def)

lemma name_scan_lower: "name_scan s \<Longrightarrow> name_scan (to_lower s)"
  by (induction s rule: name_scan.induct) (auto simp: to_lower_def alnum_lower)

lemma name_scan_run: "run \<noteq> [] \<Longrightarrow> \<forall>c \<in> set run. ascii_alnum c \<Longrightarrow> name_scan run"
  by (induction run rule: name_scan.induct) auto

lemma name_scan_dash: "run \<noteq> [] \<Longrightarrow> \<forall>c \<in> set run. ascii_alnum c \<Longrightarrow> name_scan s \<Longrightarrow> name_scan (run @ CHR ''-'' # s)"
  by (induction run rule: name_scan.induct) auto

lemma name_byteLen:
  assumes "name_scan s"
  shows "byteLen s = int (length s)"
proof -
  have "char_bytes c = 1" if "c \<in> set s" for c
    using name_scan_chars [OF assms] that by (auto simp: char_bytes_def alnum_codes Let_def)
  then have "map char_bytes s = replicate (length s) 1" by (intro replicate_eqI) auto
  then show ?thesis by (simp add: byteLen_def sum_list_replicate)
qed

lemma name_no_ws: "name_scan s \<Longrightarrow> c \<in> set s \<Longrightarrow> \<not> is_ws c \<and> c \<noteq> CHR '','' \<and> c \<noteq> CHR ''#''"
  using name_scan_chars [of s] by (auto simp: alnum_codes is_ws_def Let_def)

lemma trim_name: "name_scan s \<Longrightarrow> trim s = s"
  using name_scan_chars [of s] name_no_ws [of s] by (intro trim_id) auto

lemma munch_label_name: "munch_label s = Some body \<Longrightarrow> name_scan body \<and> to_lower body = body"
proof (induction s arbitrary: body rule: munch_label.induct)
  case (1 s)
  let ?run = "takeWhile label_char s" and ?rest = "drop (length (takeWhile label_char s)) s"
  have run: "ascii_alnum c \<and> lower_char c = c" if "c \<in> set ?run" for c
    using set_takeWhileD [OF that] by (auto simp: label_char_def alnum_codes lower_char_def Let_def less_eq_char_def)
  then have low: "to_lower ?run = ?run" unfolding to_lower_def by (intro map_idI) auto
  from 1(2) have ne: "?run \<noteq> []" by (auto simp: munch_label.simps [of s] Let_def split: if_splits)
  show ?case
  proof (cases "?rest \<noteq> [] \<and> hd ?rest = CHR ''-'' \<and> munch_label (tl ?rest) \<noteq> None")
    case True
    then obtain rest where rest: "munch_label (tl ?rest) = Some rest" by auto
    with True ne 1(2) have body: "body = ?run @ CHR ''-'' # rest" by (simp add: munch_label.simps [of s] Let_def)
    from 1(1) [OF refl refl ne _ rest] True have "name_scan rest" "to_lower rest = rest" by auto
    with body run low ne name_scan_dash [of ?run rest] show ?thesis by (simp add: to_lower_def)
  next
    case False
    with ne 1(2) have "body = ?run" by (auto simp: munch_label.simps [of s] Let_def split: if_splits)
    with run low ne name_scan_run [of ?run] show ?thesis by simp
  qed
qed

lemma reference_label_name:
  assumes "r \<in> set (findLinkedChannelReferences content)"
  shows "\<exists>body. hr_label r = CHR ''#'' # body \<and> name_scan body \<and> to_lower body = body"
proof -
  obtain p label where "r = reference_at content p" "label_at (drop p content) = Some label"
    using assms references_from_spec [of 0 content] by (auto simp: findLinkedChannelReferences_def is_reference_def)
  then show ?thesis
    by (auto simp: reference_at_def Let_def label_at_def dest: munch_label_name split: option.splits if_splits)
qed

text \<open>C31. A link to a channel in a message opens the dialog on its name; submitting asks for exactly that channel, unless the
  name does not fit the 32 bytes a channel name has on the radio, which is then said.\<close>

theorem linked_channel_joined:
  assumes "r \<in> set (findLinkedChannelReferences content)"
  shows "fst (handleCreate (form_opened (Some (drop 1 (hr_label r))) bulk f)) =
      (if length (hr_label r) \<le> 32 then Some (Call_hashtag (hr_label r) False) else None) \<and>
    nf_error (snd (handleCreate (form_opened (Some (drop 1 (hr_label r))) bulk f))) =
      (if length (hr_label r) \<le> 32 then [] else ''Channel name is too long (max 32 bytes including #)'')"
proof -
  obtain body where b: "hr_label r = CHR ''#'' # body" "name_scan body" "to_lower body = body"
    using reference_label_name [OF assms] by auto
  have "byteLen (CHR ''#'' # body) = int (Suc (length body))"
    using name_byteLen [OF b(2)] byteLen_append [of "[CHR ''#'']" body] by (simp add: byteLen_def char_bytes_def)
  then have v: "validateHashtagName body False =
      (if length (hr_label r) \<le> 32 then None else Some ''Channel name is too long (max 32 bytes including #)'')"
    using b name_scan_chars [OF b(2)] by (simp add: validateHashtagName_def hashtag_test_scan)
  show ?thesis
    using v b by (simp add: handleCreate_def create_call_of_def form_opened_def cleared_for_def hashtag_call_def Let_def trim_name)
qed

section \<open>Pasted lists read back\<close>

definition name_kept :: "bool \<Rightarrow> string \<Rightarrow> bool" where
  "name_kept ext x \<longleftrightarrow> (\<exists>n. x = CHR ''#'' # n \<and> validateHashtagName n ext = None \<and> (ext \<or> to_lower n = n) \<and> hd n \<noteq> CHR ''#'') \<and>
     trim x = x \<and> (\<forall>c \<in> set x. \<not> bulk_separator ext c)"

lemma validate_plain: "validateHashtagName n False = None \<longleftrightarrow> name_scan n \<and> byteLen (CHR ''#'' # n) \<le> 32"
  by (auto simp: validateHashtagName_def hashtag_test_scan dest: name_scan_chars)

lemma hash_byteLen: "byteLen (CHR ''#'' # n) = 1 + byteLen n"
  by (simp add: byteLen_def char_bytes_def)

lemma validate_lower: "validateHashtagName n False = None \<Longrightarrow> validateHashtagName (to_lower n) False = None"
  by (auto simp: validate_plain hash_byteLen name_byteLen name_scan_lower)

lemma plain_kept:
  assumes "name_scan n" "byteLen (CHR ''#'' # n) \<le> 32" "to_lower n = n"
  shows "name_kept False (CHR ''#'' # n)"
proof -
  have "trim (CHR ''#'' # n) = CHR ''#'' # n"
    using name_scan_chars [OF assms(1)] name_no_ws [OF assms(1), of "last n"] by (intro trim_id) (auto simp: is_ws_def)
  moreover have "hd n \<noteq> CHR ''#''" using name_scan_chars [OF assms(1)] name_no_ws [OF assms(1), of "hd n"] by auto
  moreover have "\<not> bulk_separator False c" if "c \<in> set (CHR ''#'' # n)" for c
    using that name_no_ws [OF assms(1), of c] by (auto simp: bulk_separator_def is_ws_def)
  ultimately show ?thesis using assms by (auto simp: name_kept_def validate_plain)
qed

lemma extended_kept:
  assumes "validateHashtagName n True = None" "hd n \<noteq> CHR ''#''" "\<not> is_ws (last n)" "\<forall>c \<in> set n. \<not> bulk_separator True c"
  shows "name_kept True (CHR ''#'' # n)"
proof -
  have "n \<noteq> []" using assms(1) by (auto simp: validateHashtagName_def)
  then have "trim (CHR ''#'' # n) = CHR ''#'' # n" using assms(3) by (intro trim_id) (auto simp: is_ws_def)
  then show ?thesis using assms by (auto simp: name_kept_def bulk_separator_def)
qed

definition token_ok :: "bool \<Rightarrow> string \<Rightarrow> bool" where
  "token_ok ext t \<longleftrightarrow> t \<noteq> [] \<and> trim t = t \<and> (\<forall>c \<in> set t. \<not> bulk_separator ext c)"

definition bulk_inv :: "bool \<Rightarrow> bulk_parse_result \<Rightarrow> bool" where
  "bulk_inv ext r \<longleftrightarrow> distinct (bp_channelNames r) \<and> (\<forall>x \<in> set (bp_channelNames r). name_kept ext x)"

lemma bulk_inv_step:
  assumes "bulk_inv ext r" "token_ok ext t"
  shows "bulk_inv ext (bulk_step ext t r)"
proof -
  let ?n = "dropWhile (\<lambda>c. c = CHR ''#'') t"
  have kept: "name_kept ext (CHR ''#'' # (if ext then ?n else to_lower ?n))" if v: "validateHashtagName ?n ext = None"
  proof (cases ext)
    case True
    have ne: "?n \<noteq> []" using v unfolding validateHashtagName_def by (metis option.distinct(1))
    have "hd ?n \<noteq> CHR ''#''" by (rule hd_dropWhile [OF ne])
    moreover have "last ?n = last t" using ne last_appendR [of ?n "takeWhile (\<lambda>c. c = CHR ''#'') t"] by simp
    moreover have "\<not> is_ws (last t)" using trim_ends [of t] assms(2) by (simp add: token_ok_def)
    moreover have "set ?n \<subseteq> set t" by (meson set_dropWhileD subsetI)
    ultimately show ?thesis using v True assms(2) by (auto simp: token_ok_def intro!: extended_kept)
  next
    case False
    then have "validateHashtagName (to_lower ?n) False = None" using v validate_lower by simp
    then show ?thesis using False by (simp add: validate_plain plain_kept)
  qed
  then show ?thesis using assms(1) by (auto simp: bulk_step_def bulk_inv_def Let_def)
qed

lemma split_pieces: "piece \<in> set (split_at_each p s) \<Longrightarrow> c \<in> set piece \<Longrightarrow> c \<in> set s \<and> \<not> p c"
proof (induction s arbitrary: piece c)
  case (Cons d s)
  have "split_at_each p s \<noteq> []" by (cases s) auto
  then have "hd (split_at_each p s) \<in> set (split_at_each p s)" "set (tl (split_at_each p s)) \<subseteq> set (split_at_each p s)"
    by (auto simp: list.set_sel)
  with Cons show ?case by (auto split: if_splits)
qed simp

lemma trim_subset: "set (trim s) \<subseteq> set s"
  by (auto simp: trim_def dest!: set_dropWhileD)

lemma tokens_ok: "t \<in> set (bulk_tokens s ext) \<Longrightarrow> token_ok ext t"
  using trim_subset split_pieces [of _ "bulk_separator ext" s] by (fastforce simp: bulk_tokens_def token_ok_def)

lemma bulk_inv_fold: "bulk_inv ext r \<Longrightarrow> \<forall>t \<in> set ts. token_ok ext t \<Longrightarrow> bulk_inv ext (fold (bulk_step ext) ts r)"
  by (induction ts arbitrary: r) (simp_all add: bulk_inv_step)

lemma split_whole: "\<forall>c \<in> set x. \<not> p c \<Longrightarrow> split_at_each p x = [x]"
  by (induction x) auto

lemma split_first: "\<forall>c \<in> set x. \<not> p c \<Longrightarrow> p d \<Longrightarrow> split_at_each p (x @ d # s) = x # split_at_each p s"
  by (induction x) auto

lemma split_join:
  "xs \<noteq> [] \<Longrightarrow> p d \<Longrightarrow> \<forall>x \<in> set xs. \<forall>c \<in> set x. \<not> p c \<Longrightarrow> split_at_each p (join [d] xs) = xs"
  by (induction "[d]" xs rule: join.induct) (simp_all add: split_whole split_first)

lemma kept_step:
  assumes "name_kept ext x" "x \<notin> set (bp_channelNames r)"
  shows "bulk_step ext x r = r\<lparr> bp_channelNames := bp_channelNames r @ [x] \<rparr>"
proof -
  obtain n where n: "x = CHR ''#'' # n" "validateHashtagName n ext = None" "ext \<or> to_lower n = n" "hd n \<noteq> CHR ''#''"
    using assms(1) by (auto simp: name_kept_def)
  then have "dropWhile (\<lambda>c. c = CHR ''#'') x = n" by (cases n) auto
  with n assms(2) show ?thesis by (auto simp: bulk_step_def Let_def)
qed

lemma kept_fold:
  "\<forall>x \<in> set xs. name_kept ext x \<Longrightarrow> distinct xs \<Longrightarrow> set xs \<inter> set (bp_channelNames r) = {} \<Longrightarrow>
   fold (bulk_step ext) xs r = r\<lparr> bp_channelNames := bp_channelNames r @ xs \<rparr>"
  by (induction xs arbitrary: r) (simp_all add: kept_step)

lemma kept_tokens:
  assumes "\<forall>x \<in> set xs. name_kept ext x"
  shows "bulk_tokens (join [CHR 0x0A] xs) ext = xs"
proof (cases "xs = []")
  case False
  have "bulk_separator ext CHR 0x0A" by (simp add: bulk_separator_def is_ws_def)
  then have "split_at_each (bulk_separator ext) (join [CHR 0x0A] xs) = xs"
    using assms False by (intro split_join) (auto simp: name_kept_def)
  moreover have "map trim xs = xs" using assms by (intro map_idI) (auto simp: name_kept_def)
  moreover have "filter (\<lambda>t. t \<noteq> []) xs = xs" using assms by (intro filter_True) (auto simp: name_kept_def)
  ultimately show ?thesis by (simp add: bulk_tokens_def)
qed (simp add: bulk_tokens_def trim_def)

text \<open>The names taken from a pasted list are different, each a valid name behind its hash, in lower case unless extended
  names are permitted; and the list they make, one to a line, is read back as the same names with none refused.\<close>

theorem bulk_names_read_back:
  "let names = bp_channelNames (parseBulkHashtagNames raw ext) in
     distinct names \<and>
     (\<forall>x \<in> set names. validateHashtagName (tl x) ext = None \<and> hd x = CHR ''#'' \<and> (ext \<or> to_lower x = x)) \<and>
     parseBulkHashtagNames (join [CHR 0x0A] names) ext = \<lparr> bp_channelNames = names, bp_invalidNames = [] \<rparr>"
proof -
  let ?names = "bp_channelNames (parseBulkHashtagNames raw ext)"
  have "bulk_inv ext (parseBulkHashtagNames raw ext)"
    unfolding parseBulkHashtagNames_def using tokens_ok by (intro bulk_inv_fold) (auto simp: bulk_inv_def)
  then have names: "distinct ?names" "\<forall>x \<in> set ?names. name_kept ext x" by (auto simp: bulk_inv_def)
  have "lower_char CHR ''#'' = CHR ''#''" by (simp add: lower_char_def Let_def)
  then have "validateHashtagName (tl x) ext = None \<and> hd x = CHR ''#'' \<and> (ext \<or> to_lower x = x)" if "x \<in> set ?names" for x
    using names(2) that by (auto simp: name_kept_def to_lower_def)
  moreover have "parseBulkHashtagNames (join [CHR 0x0A] ?names) ext = \<lparr> bp_channelNames = ?names, bp_invalidNames = [] \<rparr>"
    using kept_fold [OF names(2,1)] kept_tokens [OF names(2)]
    by (simp add: parseBulkHashtagNames_def [of "join [CHR 0x0A] ?names"])
  ultimately show ?thesis using names(1) by (simp add: Let_def)
qed

text \<open>An answer that comes after the dialog was closed and opened again closes it once more, with what was typed in it.\<close>

lemma late_create_closes_form:
  fixes f :: new_form and name :: string
  assumes "create_call_of f = Inr call"
  defines "f' \<equiv> (form_opened None False (form_closed (snd (handleCreate f))))\<lparr> nf_name := name \<rparr>"
  shows "nf_open f' \<and> \<not> nf_open (create_answered None f') \<and> nf_name (create_answered None f') = []"
  by (simp add: f'_def form_opened_def create_answered_def form_closed_def resetForm_def)

lemma linked_channel_joined_witness:
  "fst (handleCreate (form_opened (Some ''ops'') False form_init)) = Some (Call_hashtag ''#ops'' False)"
proof -
  have "label_at ''#ops'' = Some ''#ops''"
    by (simp add: label_at_def munch_label.simps label_char_def less_eq_char_def ends_label_def)
  then have "\<lparr> hr_label = ''#ops'', hr_start = 0, hr_end = 4 \<rparr> \<in> set (findLinkedChannelReferences ''#ops'')"
    by (subst findLinkedChannelReferences_def, subst references_from.simps) (simp add: match_reference_def)
  from linked_channel_joined [OF this, of False form_init] show ?thesis by simp
qed

end
